(* ===== verification/Py_Prelude.thy ===== *)
theory Py_Prelude
  imports Complex_Main "HOL-Library.AList" "HOL-Library.Sublist" "HOL-Library.Char_ord"
    "HOL-Library.List_Lexorder" "HOL-Library.Product_Lexorder"
begin

text \<open>
  Shared vocabulary of the development: the parts of Python's standard library the
  modelled modules use.

  \<^item> Text is a \<open>string\<close> (list of \<open>char\<close>). Python's \<open>str\<close> operations used by the
    source (\<open>strip\<close>, \<open>rstrip\<close>, \<open>partition\<close>, \<open>rpartition\<close>, \<open>split\<close>, \<open>startswith\<close>,
    \<open>endswith\<close>, \<open>in\<close>, \<open>casefold\<close>) are functions on it. Code points above 255 do not occur
    in the model and case folding acts on the ASCII letters.
  \<^item> A \<open>dict\<close> is an association list in insertion order: assignment replaces in place or
    appends, exactly as Python's does, so iteration order is the order of the list.
  \<^item> \<open>jval\<close> is the type of decoded JSON documents, for the functions that receive
    untyped dictionaries from disk or from another machine.
  \<^item> \<open>state_machine\<close> is the contract every stateful component meets: an invariant that
    holds initially and is kept by each operation holds after every run.
\<close>

named_theorems py_str \<open>the defining equations of the string operations\<close>
named_theorems dict_simps \<open>lookup after an update of a dictionary\<close>


section \<open>Strings\<close>

definition py_isspace :: "char \<Rightarrow> bool" where
  "py_isspace c = (let n = of_char c :: nat in n = 32 \<or> (9 \<le> n \<and> n \<le> 13) \<or> (28 \<le> n \<and> n \<le> 31) \<or> n = 133 \<or> n = 160)"

definition lstrip_by :: "('a \<Rightarrow> bool) \<Rightarrow> 'a list \<Rightarrow> 'a list" where
  "lstrip_by P s = dropWhile P s"

definition rstrip_by :: "('a \<Rightarrow> bool) \<Rightarrow> 'a list \<Rightarrow> 'a list" where
  "rstrip_by P s = rev (dropWhile P (rev s))"

definition py_strip :: "string \<Rightarrow> string" where
  "py_strip s = rstrip_by py_isspace (lstrip_by py_isspace s)"

definition rstrip_char :: "char \<Rightarrow> string \<Rightarrow> string" where
  "rstrip_char c s = rstrip_by (\<lambda>x. x = c) s"

text \<open>\<open>str_or s t\<close> is Python's \<open>s or t\<close> on strings: the empty string is false.\<close>

definition str_or :: "string \<Rightarrow> string \<Rightarrow> string" where
  "str_or s t = (if s = [] then t else s)"

text \<open>
  \<open>s.partition(c)\<close> for a one-character separator, as (head, separator found, rest); and
  \<open>s.rpartition(c)\<close>, which puts the whole string in the last part when there is no separator.
\<close>

definition str_partition :: "char \<Rightarrow> string \<Rightarrow> string \<times> bool \<times> string" where
  "str_partition c s =
     (let h = takeWhile (\<lambda>x. x \<noteq> c) s in
      if c \<in> set s then (h, True, drop (Suc (length h)) s) else (s, False, []))"

definition str_rpartition :: "char \<Rightarrow> string \<Rightarrow> string \<times> bool \<times> string" where
  "str_rpartition c s =
     (let t = takeWhile (\<lambda>x. x \<noteq> c) (rev s) in
      if c \<in> set s then (rev (drop (Suc (length t)) (rev s)), True, rev t) else ([], False, s))"

fun split_on :: "'a \<Rightarrow> 'a list \<Rightarrow> 'a list list" where
  "split_on c [] = [[]]"
| "split_on c (x # xs) =
     (if x = c then [] # split_on c xs
      else (case split_on c xs of [] \<Rightarrow> [[x]] | w # ws \<Rightarrow> (x # w) # ws))"

fun join_with :: "'a list \<Rightarrow> 'a list list \<Rightarrow> 'a list" where
  "join_with sep [] = []"
| "join_with sep [w] = w"
| "join_with sep (w # ws) = w @ sep @ join_with sep ws"

definition py_basename :: "string \<Rightarrow> string" where
  "py_basename s = snd (snd (str_rpartition CHR ''/'' s))"

text \<open>\<open>p in s\<close> on strings: \<open>p\<close> occurs as a contiguous part of \<open>s\<close>.\<close>

fun py_in :: "'a list \<Rightarrow> 'a list \<Rightarrow> bool" where
  "py_in p [] = (p = [])"
| "py_in p (x # xs) = (prefix p (x # xs) \<or> py_in p xs)"

definition ascii_lower :: "char \<Rightarrow> char" where
  "ascii_lower c = (let n = of_char c :: nat in if 65 \<le> n \<and> n \<le> 90 then char_of (n + 32) else c)"

definition py_casefold :: "string \<Rightarrow> string" where
  "py_casefold s = map ascii_lower s"

definition is_digit :: "char \<Rightarrow> bool" where
  "is_digit c = (let n = of_char c :: nat in 48 \<le> n \<and> n \<le> 57)"

definition is_hex :: "char \<Rightarrow> bool" where
  "is_hex c = (let n = of_char c :: nat in
     (48 \<le> n \<and> n \<le> 57) \<or> (97 \<le> n \<and> n \<le> 102) \<or> (65 \<le> n \<and> n \<le> 70))"

text \<open>Decimal text of a natural number and of an integer (\<open>str(n)\<close>).\<close>

function int_digits :: "int \<Rightarrow> string" where
  "int_digits i =
     (if i < 10 then [char_of (i + 48)] else int_digits (i div 10) @ [char_of (i mod 10 + 48)])"
  by pat_completeness auto
termination
  by (relation "measure nat") auto

declare int_digits.simps [simp del]

definition nat_str :: "nat \<Rightarrow> string" where
  "nat_str n = int_digits (int n)"

definition int_str :: "int \<Rightarrow> string" where
  "int_str i = (if i < 0 then CHR ''-'' # int_digits (- i) else int_digits i)"


subsection \<open>Facts about the string operations\<close>

lemma py_in_conv: "py_in p s \<longleftrightarrow> (\<exists>a b. s = a @ p @ b)"
proof (induction s)
  case Nil
  then show ?case by simp
next
  case (Cons x xs)
  note IH = Cons.IH
  show ?case
  proof
    assume "py_in p (x # xs)"
    then consider "prefix p (x # xs)" | "py_in p xs" by auto
    then show "\<exists>a b. x # xs = a @ p @ b"
    proof cases
      case 1
      then show ?thesis by (metis append_Nil prefix_def)
    next
      case 2
      with IH show ?thesis by (metis append_Cons)
    qed
  next
    assume "\<exists>a b. x # xs = a @ p @ b"
    then obtain a b where ab: "x # xs = a @ p @ b" by blast
    show "py_in p (x # xs)"
    proof (cases a)
      case Nil
      with ab have "prefix p (x # xs)" by (simp add: prefix_def)
      then show ?thesis by simp
    next
      case (Cons y ys)
      with ab have "xs = ys @ p @ b" by simp
      then have "py_in p xs" using IH by blast
      then show ?thesis by simp
    qed
  qed
qed

lemma rstrip_by_prefix: "\<exists>t. s = rstrip_by P s @ t \<and> (\<forall>x \<in> set t. P x)"
proof -
  have "s = rev (takeWhile P (rev s) @ dropWhile P (rev s))" by simp
  then have "s = rstrip_by P s @ rev (takeWhile P (rev s))"
    unfolding rstrip_by_def by (metis rev_append)
  moreover have "\<forall>x \<in> set (rev (takeWhile P (rev s))). P x"
    by (auto dest: set_takeWhileD)
  ultimately show ?thesis by blast
qed

lemma rstrip_by_last: "rstrip_by P s \<noteq> [] \<Longrightarrow> \<not> P (last (rstrip_by P s))"
  by (simp add: rstrip_by_def last_rev hd_dropWhile)

lemma rstrip_by_id: "s = [] \<or> \<not> P (last s) \<Longrightarrow> rstrip_by P s = s"
proof (cases s rule: rev_cases)
  case (snoc ys y)
  moreover assume "s = [] \<or> \<not> P (last s)"
  ultimately show ?thesis by (simp add: rstrip_by_def)
qed (simp add: rstrip_by_def)

lemma rstrip_by_idem [simp]: "rstrip_by P (rstrip_by P s) = rstrip_by P s"
  by (metis rstrip_by_id rstrip_by_last)

lemma strip_id:
  "s = [] \<or> (\<not> py_isspace (hd s) \<and> \<not> py_isspace (last s)) \<Longrightarrow> py_strip s = s"
  by (cases s) (auto simp: py_strip_def lstrip_by_def rstrip_by_id)

lemma py_strip_cases: "py_strip s = [] \<or> (\<not> py_isspace (hd (py_strip s)) \<and> \<not> py_isspace (last (py_strip s)))"
proof (cases "py_strip s")
  case (Cons a t)
  let ?u = "dropWhile py_isspace s"
  have ps: "py_strip s = rstrip_by py_isspace ?u" by (simp add: py_strip_def lstrip_by_def)
  obtain v where v: "?u = py_strip s @ v" using rstrip_by_prefix [of ?u py_isspace] ps by metis
  with Cons have "hd ?u = a" "?u \<noteq> []" by auto
  then have "\<not> py_isspace a" using hd_dropWhile [of py_isspace s] by auto
  moreover have "\<not> py_isspace (last (py_strip s))"
    using rstrip_by_last [of py_isspace ?u] Cons ps by simp
  ultimately show ?thesis using Cons by simp
qed simp

lemma py_strip_idem [simp]: "py_strip (py_strip s) = py_strip s"
  by (rule strip_id) (rule py_strip_cases)

lemma str_partition_found:
  "c \<notin> set h \<Longrightarrow> str_partition c (h @ c # r) = (h, True, r)"
  by (simp add: str_partition_def Let_def takeWhile_append)

lemma str_rpartition_found:
  "c \<notin> set r \<Longrightarrow> str_rpartition c (h @ c # r) = (h, True, r)"
  by (simp add: str_rpartition_def Let_def takeWhile_append)

lemma str_rpartition_none: "c \<notin> set s \<Longrightarrow> str_rpartition c s = ([], False, s)"
  by (simp add: str_rpartition_def)

lemma str_rpartition_sep_free: "c \<notin> set (snd (snd (str_rpartition c s)))"
  by (auto simp: str_rpartition_def Let_def dest: set_takeWhileD)

lemma split_on_nonempty [simp]: "split_on c s \<noteq> []"
  by (cases s) (auto split: list.splits)

lemma join_split: "join_with [c] (split_on c s) = s"
proof (induction s)
  case (Cons x xs)
  then show ?case
    by (cases "split_on c xs") (auto, (cases "tl (split_on c xs)"; simp)+)
qed simp


section \<open>Dictionaries\<close>

text \<open>
  A Python \<open>dict\<close> as an association list: \<open>d.get(k)\<close>, \<open>d[k] = v\<close>, \<open>d.pop(k, None)\<close>.
\<close>

abbreviation dget :: "('k \<times> 'v) list \<Rightarrow> 'k \<Rightarrow> 'v option" where
  "dget d k \<equiv> map_of d k"

abbreviation dset :: "'k \<Rightarrow> 'v \<Rightarrow> ('k \<times> 'v) list \<Rightarrow> ('k \<times> 'v) list" where
  "dset k v d \<equiv> AList.update k v d"

abbreviation dpop :: "'k \<Rightarrow> ('k \<times> 'v) list \<Rightarrow> ('k \<times> 'v) list" where
  "dpop k d \<equiv> AList.delete k d"

abbreviation keys :: "('k \<times> 'v) list \<Rightarrow> 'k list" where
  "keys d \<equiv> map fst d"

abbreviation has_key :: "'k \<Rightarrow> ('k \<times> 'v) list \<Rightarrow> bool" where
  "has_key k d \<equiv> k \<in> fst ` set d"

text \<open>Lookups stay lookups: the library's rewriting of them to membership is switched off.\<close>

declare map_of_eq_Some_iff [simp del]

lemma dget_dset [simp, dict_simps]: "dget (dset k v d) k' = (if k' = k then Some v else dget d k')"
  by (simp add: update_conv')

lemma dget_dpop [simp, dict_simps]: "dget (dpop k d) k' = (if k' = k then None else dget d k')"
  by (simp add: delete_conv')

lemma dget_None_iff: "dget d k = None \<longleftrightarrow> \<not> has_key k d"
  by (simp add: map_of_eq_None_iff)

lemma dget_has_key: "dget d k = Some v \<Longrightarrow> has_key k d"
  by (metis dget_None_iff option.discI)

lemma distinct_dset [intro]: "distinct (keys d) \<Longrightarrow> distinct (keys (dset k v d))"
  by (rule distinct_update)

lemma distinct_dpop [intro]: "distinct (keys d) \<Longrightarrow> distinct (keys (dpop k d))"
  by (rule distinct_delete)

lemma set_dpop: "set (dpop k d) = {e \<in> set d. fst e \<noteq> k}"
  by (induction d) auto

lemma keys_dpop: "keys (dpop k d) = filter (\<lambda>x. x \<noteq> k) (keys d)"
  by (induction d) auto

lemma set_dset:
  "distinct (keys d) \<Longrightarrow> set (dset k v d) = insert (k, v) {e \<in> set d. fst e \<noteq> k}"
  by (induction d) force+

lemma set_dset_sub: "set (dset k v d) \<subseteq> insert (k, v) (set d)"
  by (induction d) auto

lemma dget_iff_mem: "distinct (keys d) \<Longrightarrow> dget d k = Some v \<longleftrightarrow> (k, v) \<in> set d"
  by (rule map_of_eq_Some_iff)

lemma dget_filter_val:
  "distinct (keys d) \<Longrightarrow> dget (filter (\<lambda>(k, v). P v) d) k =
     (case dget d k of None \<Rightarrow> None | Some v \<Rightarrow> if P v then Some v else None)"
proof (induction d)
  case (Cons e d)
  have "k \<notin> fst ` set d \<Longrightarrow> dget (filter (\<lambda>(k, v). P v) d) k = None"
    unfolding map_of_eq_None_iff by auto
  with Cons show ?case by (cases e) (auto simp: dget_None_iff split: option.splits)
qed simp

lemma dget_filter_key [simp]:
  "dget (filter (\<lambda>e. fst e \<notin> S) d) k = (if k \<in> S then None else dget d k)"
  by (induction d) auto

lemma distinct_keys_filter [intro]: "distinct (keys d) \<Longrightarrow> distinct (keys (filter P d))"
  by (rule distinct_map_filter)

lemma dset_new: "\<not> has_key k d \<Longrightarrow> dset k v d = d @ [(k, v)]"
  by (induction d) auto

lemma dpop_filter: "dpop k d = filter (\<lambda>e. fst e \<noteq> k) d"
  by (induction d) auto

lemma foldl_dpop: "foldl (\<lambda>acc k. dpop k acc) d ks = filter (\<lambda>e. fst e \<notin> set ks) d"
  by (induction ks arbitrary: d) (auto simp: dpop_filter intro!: filter_cong)

lemma length_dpop_le: "length (dpop k d) \<le> length d"
  by (induction d) auto


section \<open>Decoded JSON documents\<close>

text \<open>
  What \<open>json.loads\<close> produces. A float is a NaN, an infinity, or the dyadic number
  \<open>m * 2 ^ e\<close>.
\<close>

datatype pyfloat = FNan | FInf | FNegInf | FFin int int

datatype jval =
    JNull
  | JBool bool
  | JInt int
  | JFloat pyfloat
  | JStr string
  | JList "jval list"
  | JDict "(string \<times> jval) list"

fun float_truthy :: "pyfloat \<Rightarrow> bool" where
  "float_truthy (FFin m e) = (m \<noteq> 0)"
| "float_truthy _ = True"

fun truthy :: "jval \<Rightarrow> bool" where
  "truthy JNull = False"
| "truthy (JBool b) = b"
| "truthy (JInt i) = (i \<noteq> 0)"
| "truthy (JFloat f) = float_truthy f"
| "truthy (JStr s) = (s \<noteq> [])"
| "truthy (JList xs) = (xs \<noteq> [])"
| "truthy (JDict d) = (d \<noteq> [])"

text \<open>The number a finite float stands for, and \<open>v == n\<close> for a document value and an integer (\<open>True == 1\<close>).\<close>

fun float_rat :: "pyfloat \<Rightarrow> rat option" where
  "float_rat (FFin m e) = Some (if 0 \<le> e then of_int m * 2 ^ nat e else of_int m / 2 ^ nat (- e))"
| "float_rat _ = None"

fun eq_int :: "jval \<Rightarrow> int \<Rightarrow> bool" where
  "eq_int (JInt i) n = (i = n)"
| "eq_int (JBool b) n = ((if b then 1 else 0) = n)"
| "eq_int (JFloat f) n = (float_rat f = Some (of_int n))"
| "eq_int _ n = False"

text \<open>\<open>d.get(k)\<close> on a document's object: a missing key reads as \<open>None\<close>.\<close>

definition jget :: "(string \<times> jval) list \<Rightarrow> string \<Rightarrow> jval" where
  "jget d k = (case dget d k of None \<Rightarrow> JNull | Some v \<Rightarrow> v)"


section \<open>State machines and their invariants\<close>

text \<open>
  The contract of a stateful component: a start state, one step function over the
  component's operations, and an invariant. It is stated once and interpreted by each component on
  its own state and operations.
\<close>

fun run_ops :: "('s \<Rightarrow> 'op \<Rightarrow> 's) \<Rightarrow> 's \<Rightarrow> 'op list \<Rightarrow> 's" where
  "run_ops step s [] = s"
| "run_ops step s (x # xs) = run_ops step (step s x) xs"

lemma run_ops_append: "run_ops step s (xs @ ys) = run_ops step (run_ops step s xs) ys"
  by (induction xs arbitrary: s) auto

inductive reachable :: "'s \<Rightarrow> ('s \<Rightarrow> 'op \<Rightarrow> 's) \<Rightarrow> 's \<Rightarrow> bool" for init step where
  reach_init: "reachable init step init"
| reach_step: "reachable init step s \<Longrightarrow> reachable init step (step s x)"

locale state_machine =
  fixes init :: 's
    and step :: "'s \<Rightarrow> 'op \<Rightarrow> 's"
    and inv :: "'s \<Rightarrow> bool"
  assumes inv_init: "inv init"
    and inv_step: "inv s \<Longrightarrow> inv (step s x)"
begin

lemma inv_run: "inv s \<Longrightarrow> inv (run_ops step s xs)"
  by (induction xs arbitrary: s) (auto intro: inv_step)

lemma inv_reachable: "reachable init step s \<Longrightarrow> inv s"
  by (induction rule: reachable.induct) (auto intro: inv_init inv_step)

lemma run_reachable: "reachable init step (run_ops step init xs)"
proof (induction xs rule: rev_induct)
  case Nil
  show ?case by (simp add: reach_init)
next
  case (snoc x xs)
  then show ?case by (simp add: run_ops_append reach_step)
qed

end

end
