(* ===== verification/Remote_Roster.thy ===== *)
theory Remote_Roster
  imports Py_Prelude
begin

text \<open>
  \<open>backend/agent_team_backend/remote_roster.py\<close>: the cache of the panes other devices
  reported through the server. The module's \<open>_PANES\<close> dictionary is the \<open>roster\<close>, a
  dictionary from session ids to \<open>remote_pane\<close>; the rows of a session directory are decoded
  JSON (\<open>jval\<close>), since they come from another machine and any shape can arrive.
  The lemmas bound the cache, show that every cached pane can be addressed and that no
  pane of this device enters it, and that a device label only ever matches devices in the cache.
\<close>

record remote_pane =
  rm_device_id :: string
  rm_device_name :: string
  rm_workspace :: string
  rm_workspace_path :: string
  rm_pane_name :: string
  rm_pane_id :: string
  rm_agent_key :: string
  rm_status :: string
  rm_host_online :: bool
  rm_device_public_key :: string
  rm_device_sign_public_key :: string

type_synonym roster = "(string \<times> remote_pane) list"

definition MAX_PANES :: nat where
  "MAX_PANES = 500"

definition STATUS_BUSY :: string where
  "STATUS_BUSY = ''running''"

definition STATUS_UNREACHABLE :: "string list" where
  "STATUS_UNREACHABLE = [''disconnected'', ''exited'', ''error'', ''stopped'']"

definition device_label :: "remote_pane \<Rightarrow> string" where
  "device_label p = str_or (rm_device_name p) (rm_device_id p)"

definition remote_address :: "remote_pane \<Rightarrow> string" where
  "remote_address p = rm_device_id p @ ''/'' @ rm_workspace p @ ''/'' @ rm_pane_name p"

definition remote_busy :: "remote_pane \<Rightarrow> bool" where
  "remote_busy p = (rm_status p = STATUS_BUSY)"

definition remote_offline :: "remote_pane \<Rightarrow> bool" where
  "remote_offline p = (\<not> rm_host_online p \<or> rm_status p \<in> set STATUS_UNREACHABLE)"

definition remote_to_dict :: "remote_pane \<Rightarrow> (string \<times> jval) list" where
  "remote_to_dict p =
     [(''name'', JStr (rm_pane_name p)), (''address'', JStr (remote_address p)),
      (''device'', JStr (device_label p)), (''workspace'', JStr (rm_workspace p)),
      (''workspace_path'', JStr (rm_workspace_path p)), (''agent_key'', JStr (rm_agent_key p)),
      (''busy'', JBool (remote_busy p)), (''offline'', JBool (remote_offline p)),
      (''host_online'', JBool (rm_host_online p)), (''status'', JStr (rm_status p))]"

text \<open>\<open>_text\<close>: the stripped string, or the empty string for anything that is not one.\<close>

fun row_text :: "jval \<Rightarrow> string" where
  "row_text (JStr s) = py_strip s"
| "row_text _ = []"

definition pane_from_row :: "(string \<times> jval) list \<Rightarrow> remote_pane option" where
  "pane_from_row row =
     (let device_id = row_text (jget row ''deviceId'');
          workspace = row_text (jget row ''workspace'');
          pane_name = row_text (jget row ''title'')
      in if device_id = [] \<or> workspace = [] \<or> pane_name = [] then None
         else Some \<lparr>rm_device_id = device_id,
           rm_device_name = row_text (jget row ''deviceName''),
           rm_workspace = workspace,
           rm_workspace_path = row_text (jget row ''workspacePath''),
           rm_pane_name = pane_name,
           rm_pane_id = row_text (jget row ''paneId''),
           rm_agent_key = row_text (jget row ''agentKey''),
           rm_status = row_text (jget row ''status''),
           rm_host_online = truthy (jget row ''hostOnline''),
           rm_device_public_key = row_text (jget row ''devicePublicKey''),
           rm_device_sign_public_key = row_text (jget row ''deviceSignPublicKey'')\<rparr>)"

text \<open>
  One iteration of \<open>replace\<close>'s loop over the session directory; each \<open>continue\<close> of the
  source leaves the cache under construction as it is. The count of dropped rows is only logged.
\<close>

definition replace_row :: "string \<Rightarrow> roster \<Rightarrow> jval \<Rightarrow> roster" where
  "replace_row local_device_id fresh row =
     (case row of
        JDict r \<Rightarrow>
          (let session_id = row_text (jget r ''sessionId'') in
           if session_id = [] then fresh
           else if local_device_id \<noteq> [] \<and> row_text (jget r ''deviceId'') = local_device_id then fresh
           else (case pane_from_row r of
                   None \<Rightarrow> fresh
                 | Some pane \<Rightarrow>
                     if MAX_PANES \<le> length fresh then fresh else dset session_id pane fresh))
      | _ \<Rightarrow> fresh)"

definition roster_replace :: "roster \<Rightarrow> jval list \<Rightarrow> string \<Rightarrow> roster" where
  "roster_replace _ sessions local_device_id = foldl (replace_row local_device_id) [] sessions"

definition set_online_devices :: "roster \<Rightarrow> string list \<Rightarrow> roster" where
  "set_online_devices r device_ids =
     map (\<lambda>(k, p). (k, p\<lparr>rm_host_online := (rm_device_id p \<in> set device_ids)\<rparr>)) r"

text \<open>The first cached pane of the device that carries a key, in insertion order.\<close>

definition public_key_for :: "roster \<Rightarrow> string \<Rightarrow> string" where
  "public_key_for r device_id =
     (case find (\<lambda>p. rm_device_id p = device_id \<and> rm_device_public_key p \<noteq> []) (map snd r) of
        None \<Rightarrow> [] | Some p \<Rightarrow> rm_device_public_key p)"

definition sign_public_key_for :: "roster \<Rightarrow> string \<Rightarrow> string" where
  "sign_public_key_for r device_id =
     (case find (\<lambda>p. rm_device_id p = device_id \<and> rm_device_sign_public_key p \<noteq> []) (map snd r) of
        None \<Rightarrow> [] | Some p \<Rightarrow> rm_device_sign_public_key p)"

definition roster_list :: "roster \<Rightarrow> remote_pane list" where
  "roster_list r = sort_key (\<lambda>p. (device_label p, rm_workspace p, rm_pane_name p)) (map snd r)"

text \<open>\<open>list_devices\<close>: per device its first non-empty name and the number of its panes.\<close>

definition count_device ::
    "(string \<times> (string \<times> nat)) list \<Rightarrow> remote_pane \<Rightarrow> (string \<times> (string \<times> nat)) list" where
  "count_device ds p =
     (let (name, n) = (case dget ds (rm_device_id p) of None \<Rightarrow> ([], 0) | Some e \<Rightarrow> e)
      in dset (rm_device_id p) (if name = [] then rm_device_name p else name, Suc n) ds)"

definition list_devices :: "roster \<Rightarrow> (string \<times> string \<times> nat) list" where
  "list_devices r =
     sort_key (\<lambda>(dev, name, n). str_or name dev) (foldl count_device [] (map snd r))"

definition device_matches :: "string \<Rightarrow> remote_pane \<Rightarrow> bool" where
  "device_matches want p =
     (want = rm_device_id p \<or>
      (rm_device_name p \<noteq> [] \<and> py_casefold want = py_casefold (rm_device_name p)))"

definition devices_named :: "roster \<Rightarrow> string \<Rightarrow> string list" where
  "devices_named r label =
     (let want = py_strip label in
      if want = [] then []
      else sort (remdups (map rm_device_id (filter (device_matches want) (map snd r)))))"

definition roster_clear :: "roster \<Rightarrow> roster" where
  "roster_clear _ = []"


section \<open>The cache's invariant\<close>

text \<open>
  What every rebuild of the cache guarantees: bounded size, one entry per session, and only
  panes that can be named in a \<open>device/workspace/pane\<close> address.
\<close>

definition addressable :: "remote_pane \<Rightarrow> bool" where
  "addressable p \<longleftrightarrow> rm_device_id p \<noteq> [] \<and> rm_workspace p \<noteq> [] \<and> rm_pane_name p \<noteq> []"

definition roster_inv :: "roster \<Rightarrow> bool" where
  "roster_inv r \<longleftrightarrow>
     length r \<le> MAX_PANES \<and> distinct (keys r) \<and> (\<forall>(k, p) \<in> set r. k \<noteq> [] \<and> addressable p)"

lemma pane_from_row_addressable: "pane_from_row row = Some p \<Longrightarrow> addressable p"
  by (auto simp: pane_from_row_def addressable_def Let_def split: if_splits)

lemma pane_from_row_device:
  "pane_from_row row = Some p \<Longrightarrow> rm_device_id p = row_text (jget row ''deviceId'')"
  by (auto simp: pane_from_row_def Let_def split: if_splits)

lemma length_dset_le: "length (dset k v d) \<le> Suc (length d)"
  by (induction d) auto

lemma replace_row_cases:
  "replace_row dev fresh row = fresh \<or>
   (\<exists>r p. row = JDict r \<and> pane_from_row r = Some p \<and> row_text (jget r ''sessionId'') \<noteq> [] \<and>
      (dev = [] \<or> rm_device_id p \<noteq> dev) \<and> length fresh < MAX_PANES \<and>
      replace_row dev fresh row = dset (row_text (jget r ''sessionId'')) p fresh)"
  by (auto simp: replace_row_def Let_def pane_from_row_device split: jval.splits option.splits)

lemma replace_row_inv: "roster_inv fresh \<Longrightarrow> roster_inv (replace_row dev fresh row)"
  using replace_row_cases [of dev fresh row] length_dset_le
  by (fastforce simp: roster_inv_def set_dset distinct_update intro: pane_from_row_addressable
      order_trans [OF length_dset_le])

lemma replace_row_foreign:
  assumes "dev \<noteq> []" and "\<forall>(k, p) \<in> set fresh. rm_device_id p \<noteq> dev"
  shows "\<forall>(k, p) \<in> set (replace_row dev fresh row). rm_device_id p \<noteq> dev"
  using replace_row_cases [of dev fresh row] assms set_dset_sub by fastforce

lemma roster_inv_empty: "roster_inv []"
  by (simp add: roster_inv_def)

lemma replace_fold_inv: "roster_inv fresh \<Longrightarrow> roster_inv (foldl (replace_row dev) fresh sessions)"
  by (induction sessions arbitrary: fresh) (auto intro: replace_row_inv)

lemma replace_fold_foreign:
  "dev \<noteq> [] \<Longrightarrow> \<forall>(k, p) \<in> set fresh. rm_device_id p \<noteq> dev \<Longrightarrow>
   \<forall>(k, p) \<in> set (foldl (replace_row dev) fresh sessions). rm_device_id p \<noteq> dev"
proof (induction sessions arbitrary: fresh)
  case (Cons s ss)
  show ?case using Cons.IH [OF Cons.prems(1) replace_row_foreign [OF Cons.prems]] by simp
qed simp

lemma set_online_inv: "roster_inv r \<Longrightarrow> roster_inv (set_online_devices r ds)"
  by (auto simp: roster_inv_def set_online_devices_def comp_def case_prod_beta addressable_def)

text \<open>The operations that change the cache, and its life as a state machine.\<close>

datatype roster_op =
    OpReplace "jval list" string
  | OpOnline "string list"
  | OpClear

fun roster_step :: "roster \<Rightarrow> roster_op \<Rightarrow> roster" where
  "roster_step r (OpReplace sessions dev) = roster_replace r sessions dev"
| "roster_step r (OpOnline ds) = set_online_devices r ds"
| "roster_step r OpClear = roster_clear r"

interpretation roster_sm: state_machine "[]" roster_step roster_inv
proof unfold_locales
  show "roster_inv []" by (rule roster_inv_empty)
next
  fix s x
  assume "roster_inv s"
  then show "roster_inv (roster_step s x)"
    by (cases x) (simp_all add: roster_replace_def roster_clear_def replace_fold_inv roster_inv_empty
        set_online_inv)
qed

lemma devices_named_distinct: "distinct (devices_named r label)"
  by (simp add: devices_named_def Let_def)

lemma devices_named_mem:
  "d \<in> set (devices_named r label) \<longleftrightarrow>
   py_strip label \<noteq> [] \<and> (\<exists>p \<in> snd ` set r. rm_device_id p = d \<and> device_matches (py_strip label) p)"
  by (auto simp: devices_named_def Let_def)

lemma devices_named_empty [simp]: "devices_named [] label = []"
  by (simp add: devices_named_def Let_def)


section \<open>Properties\<close>

text \<open>
  After any sequence of directory snapshots, presence snapshots and resets the cache holds
  at most 500 panes, one per session id, and every cached pane has the device, workspace and
  name an address needs, whatever documents the server sent.
\<close>

theorem roster_invariant: "reachable [] roster_step r \<Longrightarrow> roster_inv r"
  by (rule roster_sm.inv_reachable)

definition sample_row :: "string \<Rightarrow> string \<Rightarrow> jval" where
  "sample_row sid dev = JDict [(''sessionId'', JStr sid), (''deviceId'', JStr dev), (''workspace'', JStr '' proj ''),
     (''title'', JStr ''main''), (''hostOnline'', JBool True)]"

theorem roster_invariant_witness:
  "roster_inv (run_ops roster_step [] [OpReplace [sample_row ''s1'' ''d1'', JNull, sample_row ''s2'' ''d2''] ''d1'',
     OpOnline [''d2'']])"
  by (rule roster_invariant) (rule roster_sm.run_reachable)

text \<open>
  A directory snapshot never lists this device's own panes: after a rebuild with this
  device's id no cached pane belongs to it.
\<close>

theorem roster_excludes_local_device:
  assumes "dev \<noteq> []"
  shows "\<forall>p \<in> snd ` set (roster_replace r sessions dev). rm_device_id p \<noteq> dev"
  using replace_fold_foreign [OF assms, of "[]" sessions] by (auto simp: roster_replace_def)

theorem roster_excludes_local_device_witness:
  "map (rm_device_id \<circ> snd) (roster_replace [] [sample_row ''s1'' ''d1'', sample_row ''s2'' ''d2''] ''d1'') = [''d2''] \<and>
   (\<exists>p \<in> snd ` set (roster_replace [] [sample_row ''s1'' ''d1'', sample_row ''s2'' ''d2''] ''d1''). rm_device_id p \<noteq> ''d1'')"
proof -
  have m: "map (rm_device_id \<circ> snd) (roster_replace [] [sample_row ''s1'' ''d1'', sample_row ''s2'' ''d2''] ''d1'') = [''d2'']"
    by code_simp
  moreover have "set (roster_replace [] [sample_row ''s1'' ''d1'', sample_row ''s2'' ''d2''] ''d1'') \<noteq> {}"
    using m by auto
  ultimately show ?thesis using roster_excludes_local_device [of "''d1''"] by fastforce
qed

end
