(* ===== verification/Messaging.thy ===== *)
theory Messaging
  imports Remote_Roster
begin

text \<open>
  \<open>backend/agent_team_backend/agent_messaging.py\<close>: the registry of the panes every window
  mirrors, the aliases of superseded pane ids, and the resolution of \<open>to:\<close> targets.

  The module's four dictionaries are the fields of \<open>registry\<close>; \<open>rg_events\<close> is the sequence of
  \<open>_notify_pane\<close> calls, whose listeners are outside the module. Operations that can change the registry return
  the new one, including the readers, which purge expired panes first. A window connection is a
  number (only its identity is used). \<open>time.monotonic()\<close> is the argument \<open>now\<close> (seconds, read once
  per operation); the ids of this machine (\<open>device_identity.local_ids()\<close>) are the argument
  \<open>local_ids\<close>. A \<open>ResolveResult\<close> is a sum: the error code with its parameters, or the pane
  and the cross-workspace flag; the English sentence of an error is a rendering of the
  constructor and is left out.
\<close>

section \<open>State\<close>

record reg_pane =
  rp_pane_id :: string
  rp_name :: string
  rp_workspace_path :: string
  rp_agent_key :: string
  rp_busy :: bool
  rp_offline_since :: "rat option"
  rp_realized :: bool
  rp_display_status :: string
  rp_spawned_by :: string
  rp_surface :: string
  rp_window_kind :: string
  rp_deliverable :: bool

record pane_alias =
  al_pane_id :: string
  al_workspace_path :: string

record registry =
  rg_panes :: "(string \<times> reg_pane) list"
  rg_owners :: "(string \<times> nat) list"
  rg_aliases :: "(string \<times> pane_alias) list"
  rg_forgotten :: "string list"
  rg_events :: "(string \<times> string) list"

record address =
  ad_pane_name :: string
  ad_workspace :: string
  ad_device_id :: string
  ad_pane_id :: string

datatype resolve_error =
    EmptyTarget
  | UnknownDevice string string
  | TargetIsDock string string
  | TargetOffline string int
  | UnknownTarget string
  | AmbiguousTarget string string nat
  | MissingPaneName string
  | UnknownWorkspace string
  | AmbiguousWorkspace string nat
  | UnknownTargetInWorkspace string string
  | UnknownPaneId string
  | AmbiguousDevice string nat

type_synonym resolve_result = "resolve_error + reg_pane \<times> bool"

definition empty_registry :: registry where
  "empty_registry = \<lparr>rg_panes = [], rg_owners = [], rg_aliases = [], rg_forgotten = [], rg_events = []\<rparr>"

definition OFFLINE_GRACE_S :: rat where
  "OFFLINE_GRACE_S = 90"

definition FORGOTTEN_IDS_MAX :: nat where
  "FORGOTTEN_IDS_MAX = 512"

text \<open>The codes and parameters an error is reported with.\<close>

fun error_code :: "resolve_error \<Rightarrow> string" where
  "error_code EmptyTarget = ''empty-target''"
| "error_code (UnknownDevice _ _) = ''unknown-device''"
| "error_code (TargetIsDock _ _) = ''target-is-dock''"
| "error_code (TargetOffline _ _) = ''target-offline''"
| "error_code (UnknownTarget _) = ''unknown-target''"
| "error_code (AmbiguousTarget _ _ _) = ''ambiguous-target''"
| "error_code (MissingPaneName _) = ''missing-pane-name''"
| "error_code (UnknownWorkspace _) = ''unknown-workspace''"
| "error_code (AmbiguousWorkspace _ _) = ''ambiguous-workspace''"
| "error_code (UnknownTargetInWorkspace _ _) = ''unknown-target-in-workspace''"
| "error_code (UnknownPaneId _) = ''unknown-pane-id''"
| "error_code (AmbiguousDevice _ _) = ''ambiguous-device''"

fun error_params :: "resolve_error \<Rightarrow> (string \<times> string) list" where
  "error_params EmptyTarget = []"
| "error_params (UnknownDevice d t) = [(''device'', d), (''to'', t)]"
| "error_params (TargetIsDock t s) = [(''to'', t), (''surface'', s)]"
| "error_params (TargetOffline t n) = [(''to'', t), (''seconds'', int_str n)]"
| "error_params (UnknownTarget t) = [(''to'', t)]"
| "error_params (AmbiguousTarget n w k) = [(''name'', n), (''ws'', w), (''n'', nat_str k)]"
| "error_params (MissingPaneName t) = [(''to'', t)]"
| "error_params (UnknownWorkspace w) = [(''ws'', w)]"
| "error_params (AmbiguousWorkspace w k) = [(''ws'', w), (''n'', nat_str k)]"
| "error_params (UnknownTargetInWorkspace n w) = [(''name'', n), (''ws'', w)]"
| "error_params (UnknownPaneId i) = [(''pane_id'', i)]"
| "error_params (AmbiguousDevice d k) = [(''device'', d), (''n'', nat_str k)]"


section \<open>Panes and addresses\<close>

definition is_dock :: "reg_pane \<Rightarrow> bool" where
  "is_dock p = (rp_surface p \<noteq> [] \<and> rp_surface p \<noteq> ''main'')"

definition offline :: "reg_pane \<Rightarrow> bool" where
  "offline p = (rp_offline_since p \<noteq> None)"

text \<open>\<open>int(x)\<close> on a float truncates towards zero.\<close>

definition py_trunc :: "rat \<Rightarrow> int" where
  "py_trunc x = (if 0 \<le> x then \<lfloor>x\<rfloor> else \<lceil>x\<rceil>)"

definition offline_seconds :: "rat \<Rightarrow> reg_pane \<Rightarrow> int" where
  "offline_seconds now p = (case rp_offline_since p of None \<Rightarrow> 0 | Some t \<Rightarrow> py_trunc (now - t))"

definition workspace_label :: "reg_pane \<Rightarrow> string" where
  "workspace_label p = str_or (py_basename (rstrip_char CHR ''/'' (rp_workspace_path p))) (rp_workspace_path p)"

definition qualified_name :: "reg_pane \<Rightarrow> string" where
  "qualified_name p = workspace_label p @ ''/'' @ rp_name p"

definition pane_to_dict :: "reg_pane \<Rightarrow> (string \<times> jval) list" where
  "pane_to_dict p =
     [(''pane_id'', JStr (rp_pane_id p)), (''name'', JStr (rp_name p)),
      (''workspace_path'', JStr (rp_workspace_path p)), (''workspace_label'', JStr (workspace_label p)),
      (''qualified_name'', JStr (qualified_name p)), (''agent_key'', JStr (rp_agent_key p)),
      (''busy'', JBool (rp_busy p)), (''offline'', JBool (offline p)),
      (''realized'', JBool (rp_realized p)), (''displayStatus'', JStr (rp_display_status p))]
     @ (if rp_surface p \<noteq> [] then [(''surface'', JStr (rp_surface p))] else [])
     @ (if rp_window_kind p \<noteq> [] then [(''window_kind'', JStr (rp_window_kind p))] else [])
     @ (if rp_deliverable p then [(''deliverable'', JBool True)] else [])"

definition local_target :: "address \<Rightarrow> string" where
  "local_target a =
     (if ad_workspace a \<noteq> [] then ad_workspace a @ ''/'' @ ad_pane_name a else ad_pane_name a)"

definition address_to_string :: "address \<Rightarrow> string" where
  "address_to_string a =
     (if ad_device_id a \<noteq> [] then ad_device_id a @ ''/'' @ local_target a else local_target a)"

definition normalize_workspace :: "string \<Rightarrow> string" where
  "normalize_workspace path = str_or (rstrip_char CHR ''/'' path) path"

text \<open>
  The device segment's regular expression: hexadecimal groups of 8, 4, 4, 4 and 12
  digits. A \<open>$\<close> also matches before one final newline.
\<close>

definition uuid_mask :: "bool list" where
  "uuid_mask = replicate 8 True @ [False] @ replicate 4 True @ [False] @ replicate 4 True @ [False]
     @ replicate 4 True @ [False] @ replicate 12 True"

definition uuid_shape :: "string \<Rightarrow> bool" where
  "uuid_shape s = list_all2 (\<lambda>hex c. if hex then is_hex c else c = CHR ''-'') uuid_mask s"

definition device_segment_match :: "string \<Rightarrow> bool" where
  "device_segment_match s =
     (uuid_shape s \<or> (s \<noteq> [] \<and> last s = char_of (10::nat) \<and> uuid_shape (butlast s)))"

definition split_device_segment :: "string \<Rightarrow> string \<times> string" where
  "split_device_segment target =
     (let (head, sep, rest) = str_partition CHR ''/'' target in
      if \<not> sep \<or> CHR ''/'' \<notin> set rest \<or> \<not> device_segment_match head then ([], target)
      else (head, rest))"

definition parse_target :: "string \<Rightarrow> address" where
  "parse_target to =
     (let (device, rest) = split_device_segment (py_strip to);
          (workspace, _, pane_name) = str_rpartition CHR ''/'' rest
      in \<lparr>ad_pane_name = py_strip pane_name, ad_workspace = workspace, ad_device_id = device,
          ad_pane_id = []\<rparr>)"

text \<open>\<open>parse_remote_target\<close>: nothing, an ambiguity error, or an address on another device.\<close>

definition parse_remote_target :: "roster \<Rightarrow> string \<Rightarrow> (resolve_error + address) option" where
  "parse_remote_target ros to =
     (let (device_part, sep, rest) = str_partition CHR ''/'' (py_strip to) in
      if \<not> sep \<or> CHR ''/'' \<notin> set rest then None
      else (case devices_named ros device_part of
              [] \<Rightarrow> None
            | [d] \<Rightarrow>
                (let (workspace, _, pane_name) = str_rpartition CHR ''/'' rest in
                 Some (Inr \<lparr>ad_pane_name = py_strip pane_name, ad_workspace = workspace,
                            ad_device_id = d, ad_pane_id = []\<rparr>))
            | ds \<Rightarrow> Some (Inl (AmbiguousDevice device_part (length ds)))))"

definition is_local_device :: "string list \<Rightarrow> string \<Rightarrow> bool" where
  "is_local_device local_ids device = (device \<noteq> [] \<and> device \<in> set local_ids)"


section \<open>The registry's operations\<close>

definition remember_forgotten :: "string \<Rightarrow> string list \<Rightarrow> string list" where
  "remember_forgotten pid fs =
     (let fs' = removeAll pid fs @ [pid] in drop (length fs' - FORGOTTEN_IDS_MAX) fs')"

definition was_forgotten :: "registry \<Rightarrow> string \<Rightarrow> bool" where
  "was_forgotten st pid = (pid \<in> set (rg_forgotten st))"

definition notify_pane :: "string \<Rightarrow> string \<Rightarrow> registry \<Rightarrow> registry" where
  "notify_pane event pid st = st\<lparr>rg_events := rg_events st @ [(event, pid)]\<rparr>"

text \<open>
  \<open>register\<close>. The argument \<open>args\<close> carries the fields the window reports; \<open>busy\<close> and
  \<open>display_status\<close> come from the previous entry, and the fresh entry is online.
\<close>

definition registered_entry :: "reg_pane \<Rightarrow> reg_pane option \<Rightarrow> reg_pane" where
  "registered_entry args previous =
     args\<lparr>rp_workspace_path := normalize_workspace (rp_workspace_path args),
          rp_busy := (case previous of None \<Rightarrow> False | Some p \<Rightarrow> rp_busy p),
          rp_display_status := (case previous of None \<Rightarrow> [] | Some p \<Rightarrow> rp_display_status p),
          rp_offline_since := None\<rparr>"

definition register :: "reg_pane \<Rightarrow> nat option \<Rightarrow> registry \<Rightarrow> registry" where
  "register args owner st =
     (let pid = rp_pane_id args;
          entry = registered_entry args (dget (rg_panes st) pid)
      in notify_pane ''register'' pid
           (st\<lparr>rg_panes := dset pid entry (rg_panes st),
               rg_forgotten := removeAll pid (rg_forgotten st),
               rg_owners := (case owner of None \<Rightarrow> rg_owners st | Some w \<Rightarrow> dset pid w (rg_owners st))\<rparr>))"

text \<open>
  The inner loop of \<open>add_aliases\<close>: every alias that pointed at \<open>former\<close> is repointed, or
  dropped where it is the pane's own id.
\<close>

definition repoint ::
    "string \<Rightarrow> string \<Rightarrow> string \<Rightarrow> (string \<times> pane_alias) list \<Rightarrow> (string \<times> pane_alias) list" where
  "repoint pid workspace former als =
     foldl (\<lambda>acc key. if key = pid then dpop key acc
                      else dset key \<lparr>al_pane_id = pid, al_workspace_path = workspace\<rparr> acc)
       als [k. (k, a) \<leftarrow> als, al_pane_id a = former]"

definition alias_one ::
    "string \<Rightarrow> string \<Rightarrow> (string \<times> reg_pane) list \<Rightarrow> (string \<times> pane_alias) list \<times> string list \<Rightarrow>
     string \<Rightarrow> (string \<times> pane_alias) list \<times> string list" where
  "alias_one pid workspace ps acc raw =
     (let (als, accepted) = acc; former = py_strip raw in
      if former = [] \<or> former = pid then acc
      else if (case dget ps former of None \<Rightarrow> False | Some k \<Rightarrow> rp_workspace_path k \<noteq> workspace) then acc
      else if (case dget als former of None \<Rightarrow> False | Some a \<Rightarrow> al_workspace_path a \<noteq> workspace) then acc
      else (dset former \<lparr>al_pane_id = pid, al_workspace_path = workspace\<rparr> (repoint pid workspace former als),
            accepted @ [former]))"

definition add_aliases ::
    "string \<Rightarrow> string list \<Rightarrow> string \<Rightarrow> registry \<Rightarrow> registry \<times> string list" where
  "add_aliases pid formers workspace_path st =
     (let (als, accepted) =
            foldl (alias_one pid (normalize_workspace workspace_path) (rg_panes st)) (rg_aliases st, []) formers
      in (st\<lparr>rg_aliases := als\<rparr>, accepted))"

definition is_vacated :: "registry \<Rightarrow> string \<Rightarrow> bool" where
  "is_vacated st pid = (case dget (rg_panes st) pid of None \<Rightarrow> True | Some e \<Rightarrow> offline e)"

definition resolve_alias :: "registry \<Rightarrow> string \<Rightarrow> string" where
  "resolve_alias st pid = (case dget (rg_aliases st) pid of None \<Rightarrow> [] | Some a \<Rightarrow> al_pane_id a)"

definition former_ids :: "registry \<Rightarrow> string \<Rightarrow> string list" where
  "former_ids st pid = [k. (k, a) \<leftarrow> rg_aliases st, al_pane_id a = pid]"

definition owner_of :: "registry \<Rightarrow> string \<Rightarrow> nat option" where
  "owner_of st pid = dget (rg_owners st) pid"

definition forget_aliases_to :: "string \<Rightarrow> registry \<Rightarrow> registry" where
  "forget_aliases_to pid st =
     st\<lparr>rg_aliases := foldl (\<lambda>acc k. dpop k acc) (rg_aliases st) (former_ids st pid)\<rparr>"

definition unregister :: "string \<Rightarrow> nat option \<Rightarrow> registry \<Rightarrow> registry \<times> bool" where
  "unregister pid owner st =
     (if (case (owner, dget (rg_owners st) pid) of (Some w, Some own) \<Rightarrow> own \<noteq> w | _ \<Rightarrow> False)
      then (st, False)
      else
        (let st1 = (if dget (rg_panes st) pid \<noteq> None
                    then st\<lparr>rg_panes := dpop pid (rg_panes st),
                            rg_forgotten := remember_forgotten pid (rg_forgotten st)\<rparr>
                    else st);
             st2 = st1\<lparr>rg_owners := dpop pid (rg_owners st1)\<rparr>
         in (notify_pane ''unregister'' pid (forget_aliases_to pid st2), True)))"

definition drop_one :: "rat \<Rightarrow> registry \<Rightarrow> string \<Rightarrow> registry" where
  "drop_one now st pid =
     (let st1 = st\<lparr>rg_owners := dpop pid (rg_owners st)\<rparr> in
      case dget (rg_panes st1) pid of
        None \<Rightarrow> st1
      | Some e \<Rightarrow>
          if rp_offline_since e = None
          then st1\<lparr>rg_panes := dset pid (e\<lparr>rp_offline_since := Some now\<rparr>) (rg_panes st1)\<rparr>
          else st1)"

definition drop_owner :: "rat \<Rightarrow> nat \<Rightarrow> registry \<Rightarrow> registry \<times> string list" where
  "drop_owner now owner st =
     (let affected = [k. (k, own) \<leftarrow> rg_owners st, own = owner]
      in (foldl (drop_one now) st affected, affected))"

definition is_expired :: "rat \<Rightarrow> reg_pane \<Rightarrow> bool" where
  "is_expired now e =
     (case rp_offline_since e of None \<Rightarrow> False | Some t \<Rightarrow> OFFLINE_GRACE_S \<le> now - t)"

definition purge_one :: "registry \<Rightarrow> string \<Rightarrow> registry" where
  "purge_one st pid =
     (let st1 = st\<lparr>rg_panes := dpop pid (rg_panes st),
                   rg_forgotten := remember_forgotten pid (rg_forgotten st),
                   rg_owners := dpop pid (rg_owners st)\<rparr>
      in notify_pane ''unregister'' pid (forget_aliases_to pid st1))"

definition expired_ids :: "rat \<Rightarrow> registry \<Rightarrow> string list" where
  "expired_ids now st = [k. (k, e) \<leftarrow> rg_panes st, is_expired now e]"

definition purge_expired :: "rat \<Rightarrow> registry \<Rightarrow> registry \<times> string list" where
  "purge_expired now st = (foldl purge_one st (expired_ids now st), expired_ids now st)"

definition get_pane :: "rat \<Rightarrow> registry \<Rightarrow> string \<Rightarrow> registry \<times> reg_pane option" where
  "get_pane now st pid = (let st' = fst (purge_expired now st) in (st', dget (rg_panes st') pid))"

definition current_pane :: "rat \<Rightarrow> registry \<Rightarrow> string \<Rightarrow> registry \<times> reg_pane option" where
  "current_pane now st pid =
     (let st' = fst (purge_expired now st) in
      (st', case dget (rg_aliases st') pid of
              Some a \<Rightarrow> dget (rg_panes st') (al_pane_id a)
            | None \<Rightarrow> dget (rg_panes st') pid))"

definition with_status :: "bool \<Rightarrow> string option \<Rightarrow> reg_pane \<Rightarrow> reg_pane" where
  "with_status busy display_status entry =
     (let e1 = (if rp_busy entry \<noteq> busy then entry\<lparr>rp_busy := busy\<rparr> else entry) in
      case display_status of
        Some d \<Rightarrow> if rp_display_status e1 \<noteq> d then e1\<lparr>rp_display_status := d\<rparr> else e1
      | None \<Rightarrow> e1)"

definition set_busy :: "string \<Rightarrow> bool \<Rightarrow> string option \<Rightarrow> registry \<Rightarrow> registry \<times> bool" where
  "set_busy pid busy display_status st =
     (case dget (rg_panes st) pid of
        None \<Rightarrow> (st, False)
      | Some entry \<Rightarrow>
          (let changed = (rp_busy entry \<noteq> busy \<or>
                          (case display_status of Some d \<Rightarrow> rp_display_status entry \<noteq> d | None \<Rightarrow> False));
               st1 = st\<lparr>rg_panes := dset pid (with_status busy display_status entry) (rg_panes st)\<rparr>
           in (if changed then notify_pane ''status'' pid st1 else st1, changed)))"

definition list_panes :: "rat \<Rightarrow> string option \<Rightarrow> registry \<Rightarrow> registry \<times> reg_pane list" where
  "list_panes now workspace_path st =
     (let st' = fst (purge_expired now st);
          entries = map snd (rg_panes st');
          picked = (case workspace_path of
                      None \<Rightarrow> entries
                    | Some w \<Rightarrow> filter (\<lambda>e. rp_workspace_path e = normalize_workspace w) entries)
      in (st', sort_key (\<lambda>e. (workspace_label e, rp_name e)) picked))"

definition workspaces :: "registry \<Rightarrow> string list" where
  "workspaces st = sort (remdups (map (rp_workspace_path \<circ> snd) (rg_panes st)))"

definition match_workspaces :: "registry \<Rightarrow> string \<Rightarrow> string list" where
  "match_workspaces st ws_part =
     (let want = normalize_workspace ws_part in
      if want = [] then []
      else if want \<in> set (workspaces st) then [want]
      else filter (\<lambda>ws. str_or (py_basename ws) ws = want \<or> suffix (CHR ''/'' # want) ws) (workspaces st))"


section \<open>Target resolution\<close>

definition prefer_online :: "reg_pane list \<Rightarrow> reg_pane list" where
  "prefer_online hits =
     (let online = filter (\<lambda>e. \<not> offline e) hits in if online = [] then hits else online)"

definition accept_entry :: "rat \<Rightarrow> reg_pane \<Rightarrow> string \<Rightarrow> bool \<Rightarrow> resolve_result" where
  "accept_entry now entry to cross =
     (if rp_offline_since entry = None then
        (if is_dock entry \<and> \<not> rp_deliverable entry then Inl (TargetIsDock to (rp_surface entry))
         else Inr (entry, cross))
      else Inl (TargetOffline to (offline_seconds now entry)))"

definition resolve_bare :: "rat \<Rightarrow> registry \<Rightarrow> reg_pane option \<Rightarrow> string \<Rightarrow> resolve_result" where
  "resolve_bare now st sender target =
     (case sender of
        None \<Rightarrow> Inl (UnknownTarget target)
      | Some s \<Rightarrow>
          (let found = filter (\<lambda>e. rp_workspace_path e = rp_workspace_path s \<and> rp_name e = target)
                         (map snd (rg_panes st))
           in if found = [] then Inl (UnknownTarget target)
              else (case prefer_online found of
                      [p] \<Rightarrow> accept_entry now p target False
                    | picks \<Rightarrow> Inl (AmbiguousTarget target (workspace_label s) (length picks)))))"

definition resolve_qualified :: "rat \<Rightarrow> registry \<Rightarrow> reg_pane option \<Rightarrow> string \<Rightarrow> resolve_result" where
  "resolve_qualified now st sender target =
     (let (ws_part, _, raw) = str_rpartition CHR ''/'' target; name = py_strip raw in
      if name = [] then Inl (MissingPaneName target)
      else (case match_workspaces st ws_part of
              [] \<Rightarrow> Inl (UnknownWorkspace ws_part)
            | [workspace] \<Rightarrow>
                (case prefer_online (filter (\<lambda>e. rp_workspace_path e = workspace \<and> rp_name e = name)
                                       (map snd (rg_panes st))) of
                   [] \<Rightarrow> Inl (UnknownTargetInWorkspace name ws_part)
                 | [entry] \<Rightarrow>
                     accept_entry now entry target
                       (case sender of None \<Rightarrow> True | Some s \<Rightarrow> rp_workspace_path s \<noteq> rp_workspace_path entry)
                 | hits \<Rightarrow> Inl (AmbiguousTarget name ws_part (length hits)))
            | candidates \<Rightarrow> Inl (AmbiguousWorkspace ws_part (length candidates))))"

definition resolve :: "string list \<Rightarrow> rat \<Rightarrow> registry \<Rightarrow> string \<Rightarrow> string \<Rightarrow> registry \<times> resolve_result" where
  "resolve local_ids now st from_pane_id to =
     (let target = py_strip to in
      if target = [] then (st, Inl EmptyTarget)
      else
        (let (device, rest) = split_device_segment target in
         if device \<noteq> [] \<and> \<not> is_local_device local_ids device then (st, Inl (UnknownDevice device target))
         else
           (let target' = (if device \<noteq> [] then rest else target);
                st' = fst (purge_expired now st);
                sender = dget (rg_panes st') from_pane_id
            in (st', if CHR ''/'' \<notin> set target' then resolve_bare now st' sender target'
                     else resolve_qualified now st' sender target'))))"

definition resolve_pane_id :: "rat \<Rightarrow> registry \<Rightarrow> string \<Rightarrow> string \<Rightarrow> registry \<times> resolve_result" where
  "resolve_pane_id now st from_pane_id pid =
     (let ident = py_strip pid in
      if ident = [] then (st, Inl EmptyTarget)
      else
        (case current_pane now st ident of
           (st', None) \<Rightarrow> (st', Inl (UnknownPaneId ident))
         | (st', Some entry) \<Rightarrow>
             (st', accept_entry now entry (qualified_name entry)
                     (case dget (rg_panes st') from_pane_id of
                        None \<Rightarrow> True | Some s \<Rightarrow> rp_workspace_path s \<noteq> rp_workspace_path entry))))"

definition hint_matches :: "registry \<Rightarrow> reg_pane \<Rightarrow> address \<Rightarrow> reg_pane option \<Rightarrow> bool" where
  "hint_matches st entry a sender =
     (if rp_name entry \<noteq> ad_pane_name a then False
      else if ad_workspace a = [] then
        (case sender of None \<Rightarrow> False | Some s \<Rightarrow> rp_workspace_path entry = rp_workspace_path s)
      else rp_workspace_path entry \<in> set (match_workspaces st (ad_workspace a)))"

definition resolve_address ::
    "string list \<Rightarrow> rat \<Rightarrow> registry \<Rightarrow> string \<Rightarrow> address \<Rightarrow> registry \<times> resolve_result" where
  "resolve_address local_ids now st from_pane_id a =
     (if ad_device_id a \<noteq> [] \<and> \<not> is_local_device local_ids (ad_device_id a)
      then (st, Inl (UnknownDevice (ad_device_id a) (address_to_string a)))
      else if ad_pane_id a \<noteq> [] \<and> ad_pane_name a \<noteq> [] then
        (let st' = fst (purge_expired now st); sender = dget (rg_panes st') from_pane_id in
         case dget (rg_panes st') (ad_pane_id a) of
           Some entry \<Rightarrow>
             if hint_matches st' entry a sender
             then (st', accept_entry now entry (local_target a)
                     (case sender of None \<Rightarrow> True | Some s \<Rightarrow> rp_workspace_path s \<noteq> rp_workspace_path entry))
             else resolve local_ids now st' from_pane_id (local_target a)
         | None \<Rightarrow> resolve local_ids now st' from_pane_id (local_target a))
      else resolve local_ids now st from_pane_id (local_target a))"

definition sender_display :: "registry \<Rightarrow> string \<Rightarrow> string \<Rightarrow> string" where
  "sender_display st from_pane_id fallback =
     (case dget (rg_panes st) from_pane_id of None \<Rightarrow> fallback | Some s \<Rightarrow> qualified_name s)"

definition readable_sender :: "rat \<Rightarrow> registry \<Rightarrow> string \<Rightarrow> string \<Rightarrow> registry \<times> string" where
  "readable_sender now st pid fallback =
     (case current_pane now st pid of
        (st', Some s) \<Rightarrow> (st', qualified_name s)
      | (st', None) \<Rightarrow> (st', str_or fallback pid))"


section \<open>Frame lemmas of the operations\<close>

text \<open>What each operation does to each field, so that the invariant proofs are field by field.\<close>

named_theorems reg_fields \<open>effect of the operations on the registry's fields\<close>

lemma set_former_ids: "set (former_ids st pid) = {k. \<exists>a. (k, a) \<in> set (rg_aliases st) \<and> al_pane_id a = pid}"
  by (auto simp: former_ids_def)

lemma forget_aliases_fields [reg_fields]:
  "rg_panes (forget_aliases_to pid st) = rg_panes st"
  "rg_owners (forget_aliases_to pid st) = rg_owners st"
  "rg_forgotten (forget_aliases_to pid st) = rg_forgotten st"
  "rg_aliases (forget_aliases_to pid st) = filter (\<lambda>e. fst e \<notin> set (former_ids st pid)) (rg_aliases st)"
  by (simp_all add: forget_aliases_to_def foldl_dpop)

lemma notify_fields [reg_fields]:
  "rg_panes (notify_pane ev pid st) = rg_panes st"
  "rg_owners (notify_pane ev pid st) = rg_owners st"
  "rg_forgotten (notify_pane ev pid st) = rg_forgotten st"
  "rg_aliases (notify_pane ev pid st) = rg_aliases st"
  "rg_events (notify_pane ev pid st) = rg_events st @ [(ev, pid)]"
  by (simp_all add: notify_pane_def)

lemma former_ids_cong: "rg_aliases st = rg_aliases st' \<Longrightarrow> former_ids st pid = former_ids st' pid"
  by (simp add: former_ids_def)

lemma purge_one_fields [reg_fields]:
  "rg_panes (purge_one st pid) = dpop pid (rg_panes st)"
  "rg_owners (purge_one st pid) = dpop pid (rg_owners st)"
  "rg_forgotten (purge_one st pid) = remember_forgotten pid (rg_forgotten st)"
  "rg_aliases (purge_one st pid) = filter (\<lambda>e. fst e \<notin> set (former_ids st pid)) (rg_aliases st)"
  by (simp_all add: purge_one_def reg_fields former_ids_def)

lemma register_fields [reg_fields]:
  "rg_aliases (register args owner st) = rg_aliases st"
  "rg_forgotten (register args owner st) = removeAll (rp_pane_id args) (rg_forgotten st)"
  "rg_owners (register args owner st) =
     (case owner of None \<Rightarrow> rg_owners st | Some w \<Rightarrow> dset (rp_pane_id args) w (rg_owners st))"
  by (simp_all add: register_def reg_fields Let_def)

lemma register_panes [reg_fields]:
  "rg_panes (register args owner st) =
     dset (rp_pane_id args) (registered_entry args (dget (rg_panes st) (rp_pane_id args))) (rg_panes st)"
  by (simp add: register_def reg_fields Let_def)

lemma registered_entry_fields [simp]:
  "rp_pane_id (registered_entry args prev) = rp_pane_id args"
  "rp_name (registered_entry args prev) = rp_name args"
  "rp_offline_since (registered_entry args prev) = None"
  "rp_workspace_path (registered_entry args prev) = normalize_workspace (rp_workspace_path args)"
  by (simp_all add: registered_entry_def)

lemma unregister_refused:
  "dget (rg_owners st) pid = Some own \<Longrightarrow> own \<noteq> w \<Longrightarrow> unregister pid (Some w) st = (st, False)"
  by (simp add: unregister_def)

lemma unregister_fields:
  "snd (unregister pid owner st) \<Longrightarrow> rg_panes (fst (unregister pid owner st)) = dpop pid (rg_panes st)"
  "snd (unregister pid owner st) \<Longrightarrow> rg_owners (fst (unregister pid owner st)) = dpop pid (rg_owners st)"
  "snd (unregister pid owner st) \<Longrightarrow> rg_forgotten (fst (unregister pid owner st)) =
     (if dget (rg_panes st) pid = None then rg_forgotten st else remember_forgotten pid (rg_forgotten st))"
  "snd (unregister pid owner st) \<Longrightarrow> rg_aliases (fst (unregister pid owner st)) =
     filter (\<lambda>e. fst e \<notin> set (former_ids st pid)) (rg_aliases st)"
  by (auto simp: unregister_def reg_fields Let_def former_ids_def dget_None_iff
      split: if_splits)

lemma unregister_unchanged: "\<not> snd (unregister pid owner st) \<Longrightarrow> fst (unregister pid owner st) = st"
  by (auto simp: unregister_def Let_def split: if_splits)

lemma purge_fold_fields:
  "rg_panes (foldl purge_one st ids) = filter (\<lambda>e. fst e \<notin> set ids) (rg_panes st)"
  "rg_owners (foldl purge_one st ids) = filter (\<lambda>e. fst e \<notin> set ids) (rg_owners st)"
  by (induction ids arbitrary: st) (auto simp: reg_fields dpop_filter intro!: filter_cong)

lemma purge_panes:
  assumes "distinct (keys (rg_panes st))"
  shows "rg_panes (fst (purge_expired now st)) = filter (\<lambda>(k, e). \<not> is_expired now e) (rg_panes st)"
proof -
  have "fst x \<in> set (expired_ids now st) \<longleftrightarrow> is_expired now (snd x)" if "x \<in> set (rg_panes st)" for x
  proof
    assume "fst x \<in> set (expired_ids now st)"
    then obtain e where "(fst x, e) \<in> set (rg_panes st)" "is_expired now e"
      by (auto simp: expired_ids_def split: if_splits)
    then show "is_expired now (snd x)" using that assms by (metis eq_key_imp_eq_value prod.collapse)
  next
    assume "is_expired now (snd x)"
    then show "fst x \<in> set (expired_ids now st)"
      using that unfolding expired_ids_def by (cases x) force
  qed
  then show ?thesis by (auto simp: purge_expired_def purge_fold_fields intro!: filter_cong)
qed

lemma purge_lookup:
  "distinct (keys (rg_panes st)) \<Longrightarrow>
   dget (rg_panes (fst (purge_expired now st))) k =
     (case dget (rg_panes st) k of None \<Rightarrow> None | Some e \<Rightarrow> if is_expired now e then None else Some e)"
  by (auto simp: purge_panes dget_filter_val split: option.splits)


section \<open>The registry's invariant\<close>

text \<open>
  Every dictionary has one entry per key; a pane is stored under its own id; the forgotten ids are bounded,
  free of repetitions and disjoint from the registered ones; a pane with an owner is registered and
  online; no alias leads from an id to itself.
\<close>

definition panes_ok :: "registry \<Rightarrow> bool" where
  "panes_ok st \<longleftrightarrow> distinct (keys (rg_panes st)) \<and> (\<forall>(k, e) \<in> set (rg_panes st). rp_pane_id e = k)"

definition forgotten_ok :: "registry \<Rightarrow> bool" where
  "forgotten_ok st \<longleftrightarrow> distinct (rg_forgotten st) \<and> length (rg_forgotten st) \<le> FORGOTTEN_IDS_MAX \<and>
     set (rg_forgotten st) \<inter> set (keys (rg_panes st)) = {}"

definition owners_ok :: "registry \<Rightarrow> bool" where
  "owners_ok st \<longleftrightarrow> distinct (keys (rg_owners st)) \<and>
     (\<forall>k w. dget (rg_owners st) k = Some w \<longrightarrow>
        (\<exists>e. dget (rg_panes st) k = Some e \<and> rp_offline_since e = None))"

definition aliases_ok :: "(string \<times> pane_alias) list \<Rightarrow> bool" where
  "aliases_ok als \<longleftrightarrow> distinct (keys als) \<and> (\<forall>k a. dget als k = Some a \<longrightarrow> al_pane_id a \<noteq> k)"

definition reg_inv :: "registry \<Rightarrow> bool" where
  "reg_inv st \<longleftrightarrow> panes_ok st \<and> forgotten_ok st \<and> owners_ok st \<and> aliases_ok (rg_aliases st)"

lemma reg_inv_distinct: "reg_inv st \<Longrightarrow> distinct (keys (rg_panes st))"
  by (simp add: reg_inv_def panes_ok_def)

lemma remember_forgotten_set: "set (remember_forgotten pid fs) \<subseteq> insert pid (set fs)"
  unfolding remember_forgotten_def Let_def by (rule order_trans [OF set_drop_subset]) auto

lemma remember_forgotten_length: "length (remember_forgotten pid fs) \<le> FORGOTTEN_IDS_MAX"
  by (simp add: remember_forgotten_def Let_def)

lemma remember_forgotten_distinct: "distinct fs \<Longrightarrow> distinct (remember_forgotten pid fs)"
proof -
  assume "distinct fs"
  then have "distinct (removeAll pid fs @ [pid])" by (simp add: distinct_removeAll)
  then show ?thesis unfolding remember_forgotten_def Let_def by (rule distinct_drop)
qed

lemma remember_forgotten_last: "pid \<in> set (remember_forgotten pid fs)"
proof -
  have "last (remember_forgotten pid fs) = pid" and "remember_forgotten pid fs \<noteq> []"
    by (auto simp: remember_forgotten_def Let_def FORGOTTEN_IDS_MAX_def)
  then show ?thesis by (metis last_in_set)
qed

lemma aliases_ok_filter: "aliases_ok als \<Longrightarrow> aliases_ok (filter (\<lambda>e. fst e \<notin> S) als)"
  by (auto simp: aliases_ok_def intro: distinct_keys_filter split: if_splits)

lemma empty_registry_inv: "reg_inv empty_registry"
  by (simp add: reg_inv_def panes_ok_def forgotten_ok_def owners_ok_def aliases_ok_def empty_registry_def)


text \<open>Each operation keeps each part of the invariant.\<close>

lemma panes_ok_dpop: "panes_ok st \<Longrightarrow> rg_panes st' = dpop pid (rg_panes st) \<Longrightarrow> panes_ok st'"
  by (auto simp: panes_ok_def set_dpop)

lemma forgotten_ok_remove:
  assumes "forgotten_ok st" and ps: "rg_panes st' = dpop pid (rg_panes st)"
    and fs: "rg_forgotten st' = remember_forgotten pid (rg_forgotten st)"
  shows "forgotten_ok st'"
proof -
  have "set (keys (rg_panes st')) = set (keys (rg_panes st)) - {pid}"
    by (auto simp: ps keys_dpop)
  moreover have "set (rg_forgotten st') \<subseteq> insert pid (set (rg_forgotten st))"
    by (simp add: fs remember_forgotten_set)
  ultimately show ?thesis using assms(1)
    by (auto simp: forgotten_ok_def fs remember_forgotten_length remember_forgotten_distinct)
qed

lemma owners_ok_dpop:
  "owners_ok st \<Longrightarrow> rg_panes st' = dpop pid (rg_panes st) \<Longrightarrow> rg_owners st' = dpop pid (rg_owners st) \<Longrightarrow>
   owners_ok st'"
  by (auto simp: owners_ok_def)

lemma panes_ok_dset:
  "panes_ok st \<Longrightarrow> rp_pane_id e = pid \<Longrightarrow> rg_panes st' = dset pid e (rg_panes st) \<Longrightarrow> panes_ok st'"
  unfolding panes_ok_def by (simp add: distinct_update) (auto simp: set_dset)

lemma forgotten_ok_dset:
  "forgotten_ok st \<Longrightarrow> rg_panes st' = dset pid e (rg_panes st) \<Longrightarrow>
   rg_forgotten st' = removeAll pid (rg_forgotten st) \<Longrightarrow> forgotten_ok st'"
  unfolding forgotten_ok_def
  by (simp add: dom_update distinct_removeAll order_trans [OF length_removeAll_less_eq]) blast

lemma forgotten_removeAll: "forgotten_ok st \<Longrightarrow> has_key pid (rg_panes st) \<Longrightarrow>
   removeAll pid (rg_forgotten st) = rg_forgotten st"
  unfolding forgotten_ok_def by (intro removeAll_id) auto

lemma owners_ok_dset:
  "owners_ok st \<Longrightarrow> rg_panes st' = dset pid e (rg_panes st) \<Longrightarrow> rg_owners st' = rg_owners st \<Longrightarrow>
   (dget (rg_owners st) pid \<noteq> None \<Longrightarrow> rp_offline_since e = None) \<Longrightarrow> owners_ok st'"
  unfolding owners_ok_def by auto

lemma register_inv:
  assumes "reg_inv st"
  shows "reg_inv (register args owner st)"
proof -
  let ?r = "register args owner st"
  have "panes_ok ?r"
    using assms by - (rule panes_ok_dset [of st], simp_all add: reg_inv_def reg_fields)
  moreover have "forgotten_ok ?r"
    using assms by - (rule forgotten_ok_dset [of st], simp_all add: reg_inv_def reg_fields)
  moreover have "owners_ok ?r"
    using assms unfolding reg_inv_def owners_ok_def
    by (cases owner) (auto simp: reg_fields distinct_update)
  ultimately show ?thesis using assms by (simp add: reg_inv_def reg_fields)
qed

lemma purge_one_inv: "reg_inv st \<Longrightarrow> reg_inv (purge_one st pid)"
  by (auto simp: reg_inv_def reg_fields aliases_ok_filter
      intro: panes_ok_dpop forgotten_ok_remove owners_ok_dpop)

lemma purge_inv: "reg_inv st \<Longrightarrow> reg_inv (fst (purge_expired now st))"
proof -
  have "reg_inv st \<Longrightarrow> reg_inv (foldl purge_one st ids)" for ids
    by (induction ids arbitrary: st) (simp_all add: purge_one_inv)
  then show "reg_inv st \<Longrightarrow> reg_inv (fst (purge_expired now st))" by (simp add: purge_expired_def)
qed

lemma unregister_inv:
  assumes inv: "reg_inv st"
  shows "reg_inv (fst (unregister pid owner st))"
proof (cases "snd (unregister pid owner st)")
  case False
  with inv show ?thesis by (simp add: unregister_unchanged)
next
  case True
  let ?st = "fst (unregister pid owner st)"
  note f = unregister_fields [OF True]
  have "panes_ok ?st" using inv f(1) panes_ok_dpop reg_inv_def by blast
  moreover have "owners_ok ?st" using inv f(1,2) owners_ok_dpop reg_inv_def by blast
  moreover have "aliases_ok (rg_aliases ?st)" using inv f(4) by (simp add: reg_inv_def aliases_ok_filter)
  moreover have "forgotten_ok ?st"
  proof (cases "dget (rg_panes st) pid = None")
    case True
    with inv f(1,3) show ?thesis by (simp add: reg_inv_def forgotten_ok_def dget_None_iff)
  next
    case False
    with inv f(1,3) show ?thesis by - (rule forgotten_ok_remove [of st], simp_all add: reg_inv_def)
  qed
  ultimately show ?thesis by (simp add: reg_inv_def)
qed

lemma drop_one_fields:
  "rg_forgotten (drop_one now st pid) = rg_forgotten st"
  "rg_aliases (drop_one now st pid) = rg_aliases st"
  "rg_owners (drop_one now st pid) = dpop pid (rg_owners st)"
  "rg_panes (drop_one now st pid) =
     (case dget (rg_panes st) pid of
        None \<Rightarrow> rg_panes st
      | Some e \<Rightarrow> if rp_offline_since e = None
                  then dset pid (e\<lparr>rp_offline_since := Some now\<rparr>) (rg_panes st) else rg_panes st)"
  by (simp_all add: drop_one_def Let_def split: option.splits)

lemma panes_lookup_id: "panes_ok st \<Longrightarrow> dget (rg_panes st) pid = Some e \<Longrightarrow> rp_pane_id e = pid"
  by (auto simp: panes_ok_def dest!: map_of_SomeD)

text \<open>An update of a registered pane that keeps its id and does not take it offline.\<close>

lemma update_pane_inv:
  assumes inv: "reg_inv st" and e: "dget (rg_panes st) pid = Some e"
    and st': "rg_panes st' = dset pid e' (rg_panes st)" "rg_owners st' = rg_owners st"
      "rg_forgotten st' = rg_forgotten st" "rg_aliases st' = rg_aliases st"
    and e': "rp_pane_id e' = rp_pane_id e"
      "dget (rg_owners st) pid \<noteq> None \<Longrightarrow> rp_offline_since e' = None"
  shows "reg_inv st'"
proof -
  have "panes_ok st" using inv by (simp add: reg_inv_def)
  then have "panes_ok st'"
    using panes_lookup_id [OF _ e] e'(1) st'(1) by - (rule panes_ok_dset [of st], simp_all)
  moreover have "forgotten_ok st'"
    using inv st' forgotten_removeAll [OF _ dget_has_key [OF e], symmetric]
    by - (rule forgotten_ok_dset [of st st' pid], simp_all add: reg_inv_def)
  moreover have "owners_ok st'" using inv st' e'(2) owners_ok_dset reg_inv_def by blast
  ultimately show ?thesis using inv st' by (simp add: reg_inv_def)
qed

lemma drop_owner_entry_inv:
  "reg_inv st \<Longrightarrow> reg_inv (st\<lparr>rg_owners := dpop pid (rg_owners st)\<rparr>)"
  by (simp add: reg_inv_def panes_ok_def forgotten_ok_def owners_ok_def distinct_delete)

lemma drop_one_inv:
  assumes inv: "reg_inv st"
  shows "reg_inv (drop_one now st pid)"
proof (cases "dget (rg_panes st) pid")
  case None
  then show ?thesis using drop_owner_entry_inv [OF inv] by (simp add: drop_one_def)
next
  case (Some e)
  show ?thesis
  proof (cases "rp_offline_since e = None")
    case False
    with Some show ?thesis using drop_owner_entry_inv [OF inv] by (auto simp: drop_one_def)
  next
    case True
    show ?thesis
      by (rule update_pane_inv [OF drop_owner_entry_inv [OF inv], where pid = pid and e = e and e' = "e\<lparr>rp_offline_since := Some now\<rparr>"])
        (use True Some in \<open>auto simp: drop_one_fields\<close>)
  qed
qed

lemma drop_owner_inv: "reg_inv st \<Longrightarrow> reg_inv (fst (drop_owner now w st))"
proof -
  have "reg_inv st \<Longrightarrow> reg_inv (foldl (drop_one now) st ids)" for ids
    by (induction ids arbitrary: st) (simp_all add: drop_one_inv)
  then show "reg_inv st \<Longrightarrow> reg_inv (fst (drop_owner now w st))" by (simp add: drop_owner_def Let_def)
qed

lemma with_status_fields [simp]:
  "rp_pane_id (with_status b d e) = rp_pane_id e" "rp_name (with_status b d e) = rp_name e"
  "rp_offline_since (with_status b d e) = rp_offline_since e"
  "rp_workspace_path (with_status b d e) = rp_workspace_path e"
  "rp_busy (with_status b d e) = b"
  by (auto simp: with_status_def Let_def split: option.splits)

lemma set_busy_inv:
  assumes inv: "reg_inv st"
  shows "reg_inv (fst (set_busy pid b d st))"
proof (cases "dget (rg_panes st) pid")
  case None
  then show ?thesis using inv by (simp add: set_busy_def)
next
  case (Some e)
  have "dget (rg_owners st) pid \<noteq> None \<Longrightarrow> rp_offline_since e = None"
    using inv Some by (auto simp: reg_inv_def owners_ok_def)
  then show ?thesis
    by - (rule update_pane_inv [OF inv Some, where e' = "with_status b d e"],
        use Some in \<open>simp_all add: set_busy_def Let_def reg_fields\<close>)
qed


section \<open>Aliases\<close>

text \<open>
  \<open>repoint\<close> and \<open>alias_one\<close> as lookups: aliases to \<open>former\<close> now lead to the pane, the
  pane's own id is no alias of itself, every other alias is unchanged.
\<close>

lemma repoint_fold_lookup:
  "dget (foldl (\<lambda>acc key. if key = pid then dpop key acc else dset key v acc) als ks) k =
     (if k \<in> set ks then if k = pid then None else Some v else dget als k)"
  by (induction ks arbitrary: als) auto

lemma repoint_fold_distinct:
  "distinct (keys als) \<Longrightarrow>
   distinct (keys (foldl (\<lambda>acc key. if key = pid then dpop key acc else dset key v acc) als ks))"
  by (induction ks arbitrary: als) (auto intro: distinct_update distinct_delete)

lemma repoint_lookup:
  assumes "distinct (keys als)"
  shows "dget (repoint pid ws former als) k =
     (case dget als k of
        None \<Rightarrow> None
      | Some a \<Rightarrow> if al_pane_id a = former
                  then if k = pid then None else Some \<lparr>al_pane_id = pid, al_workspace_path = ws\<rparr>
                  else Some a)"
proof -
  have "k \<in> set [k. (k, a) \<leftarrow> als, al_pane_id a = former] \<longleftrightarrow>
        (\<exists>a. dget als k = Some a \<and> al_pane_id a = former)"
    using assms by (auto simp: dget_iff_mem)
  then show ?thesis
    by (auto simp: repoint_def repoint_fold_lookup split: option.splits)
qed

definition alias_accepted ::
    "string \<Rightarrow> string \<Rightarrow> (string \<times> reg_pane) list \<Rightarrow> (string \<times> pane_alias) list \<Rightarrow> string \<Rightarrow> bool" where
  "alias_accepted pid ws ps als former \<longleftrightarrow> former \<noteq> [] \<and> former \<noteq> pid \<and>
     (\<forall>k. dget ps former = Some k \<longrightarrow> rp_workspace_path k = ws) \<and>
     (\<forall>a. dget als former = Some a \<longrightarrow> al_workspace_path a = ws)"

lemma alias_one_conv:
  "alias_one pid ws ps (als, acc) raw =
     (if alias_accepted pid ws ps als (py_strip raw)
      then (dset (py_strip raw) \<lparr>al_pane_id = pid, al_workspace_path = ws\<rparr>
              (repoint pid ws (py_strip raw) als), acc @ [py_strip raw])
      else (als, acc))"
  by (auto simp: alias_one_def alias_accepted_def Let_def split: option.splits)

lemma alias_one_ok: "aliases_ok als \<Longrightarrow> aliases_ok (fst (alias_one pid ws ps (als, acc) raw))"
  by (auto simp: alias_one_conv aliases_ok_def alias_accepted_def repoint_lookup
      intro: distinct_update repoint_fold_distinct split: option.splits if_splits)
    (auto simp: repoint_def intro!: distinct_update repoint_fold_distinct)

lemma alias_fold_ok: "aliases_ok als \<Longrightarrow> aliases_ok (fst (foldl (alias_one pid ws ps) (als, acc) fs))"
proof (induction fs arbitrary: als acc)
  case (Cons f fs)
  then show ?case using alias_one_ok [OF Cons.prems, of pid ws ps acc f]
    by (cases "alias_one pid ws ps (als, acc) f") simp
qed simp

lemma add_aliases_fields:
  "rg_panes (fst (add_aliases pid fs w st)) = rg_panes st"
  "rg_owners (fst (add_aliases pid fs w st)) = rg_owners st"
  "rg_forgotten (fst (add_aliases pid fs w st)) = rg_forgotten st"
  "rg_aliases (fst (add_aliases pid fs w st)) =
     fst (foldl (alias_one pid (normalize_workspace w) (rg_panes st)) (rg_aliases st, []) fs)"
  "snd (add_aliases pid fs w st) =
     snd (foldl (alias_one pid (normalize_workspace w) (rg_panes st)) (rg_aliases st, []) fs)"
  by (simp_all add: add_aliases_def Let_def split: prod.splits)

lemma add_aliases_inv: "reg_inv st \<Longrightarrow> reg_inv (fst (add_aliases pid fs w st))"
  by (simp add: reg_inv_def panes_ok_def forgotten_ok_def owners_ok_def add_aliases_fields alias_fold_ok)

text \<open>Every accepted former id leads to the pane, and still does after the later ones.\<close>

lemma alias_one_keeps:
  assumes "aliases_ok als" and "dget als k = Some a" and "al_pane_id a = pid"
  shows "\<exists>a'. dget (fst (alias_one pid ws ps (als, acc) raw)) k = Some a' \<and> al_pane_id a' = pid"
  using assms by (auto simp: alias_one_conv alias_accepted_def aliases_ok_def repoint_lookup)

lemma alias_one_new:
  "aliases_ok als \<Longrightarrow> k \<in> set (snd (alias_one pid ws ps (als, acc) raw)) \<Longrightarrow> k \<notin> set acc \<Longrightarrow>
   \<exists>a'. dget (fst (alias_one pid ws ps (als, acc) raw)) k = Some a' \<and> al_pane_id a' = pid"
  by (auto simp: alias_one_conv split: if_splits)

lemma alias_fold_leads:
  "aliases_ok als \<Longrightarrow>
   (\<forall>k \<in> set acc. \<exists>a. dget als k = Some a \<and> al_pane_id a = pid) \<Longrightarrow>
   k \<in> set (snd (foldl (alias_one pid ws ps) (als, acc) fs)) \<Longrightarrow>
   \<exists>a. dget (fst (foldl (alias_one pid ws ps) (als, acc) fs)) k = Some a \<and> al_pane_id a = pid"
proof (induction fs arbitrary: als acc)
  case (Cons f fs)
  obtain als' acc' where e: "alias_one pid ws ps (als, acc) f = (als', acc')" by fastforce
  have "\<exists>a. dget als' k = Some a \<and> al_pane_id a = pid" if "k \<in> set acc'" for k
  proof (cases "k \<in> set acc")
    case True
    with Cons.prems(2) obtain a where "dget als k = Some a" "al_pane_id a = pid" by blast
    from alias_one_keeps [OF Cons.prems(1) this, of ws ps acc f] e show ?thesis by simp
  next
    case False
    with alias_one_new [OF Cons.prems(1), of k pid ws ps acc f] that e show ?thesis by simp
  qed
  moreover have "aliases_ok als'" using alias_one_ok [OF Cons.prems(1), of pid ws ps acc f] e by simp
  ultimately show ?case using Cons.IH [of als' acc'] Cons.prems(3) e by simp
qed simp

text \<open>
  One lookup reaches the end of a chain: \<open>flat\<close>. It is kept as long as the pane that
  declares its former ids is not itself superseded.
\<close>

definition flat :: "(string \<times> pane_alias) list \<Rightarrow> bool" where
  "flat als \<longleftrightarrow> (\<forall>k a. dget als k = Some a \<longrightarrow> dget als (al_pane_id a) = None)"

lemma alias_one_flat:
  assumes "aliases_ok als" and "flat als" and "dget als pid = None"
  shows "flat (fst (alias_one pid ws ps (als, acc) raw)) \<and>
         dget (fst (alias_one pid ws ps (als, acc) raw)) pid = None"
  using assms
  by (auto simp: alias_one_conv alias_accepted_def aliases_ok_def flat_def repoint_lookup
      split: option.splits if_splits)

lemma alias_fold_flat:
  "aliases_ok als \<Longrightarrow> flat als \<Longrightarrow> dget als pid = None \<Longrightarrow>
   flat (fst (foldl (alias_one pid ws ps) (als, acc) fs))"
proof (induction fs arbitrary: als acc)
  case (Cons f fs)
  obtain als' acc' where e: "alias_one pid ws ps (als, acc) f = (als', acc')" by fastforce
  from alias_one_ok [OF Cons.prems(1), of pid ws ps acc f] alias_one_flat [OF Cons.prems, of ws ps acc f] e
  show ?case using Cons.IH [of als' acc'] by simp
qed simp


section \<open>The registry as a state machine\<close>

datatype reg_op =
    OpRegister reg_pane "nat option"
  | OpAliases string "string list" string
  | OpUnregister string "nat option"
  | OpDropOwner rat nat
  | OpPurge rat
  | OpSetBusy string bool "string option"

fun reg_step :: "registry \<Rightarrow> reg_op \<Rightarrow> registry" where
  "reg_step st (OpRegister args owner) = register args owner st"
| "reg_step st (OpAliases pid fs w) = fst (add_aliases pid fs w st)"
| "reg_step st (OpUnregister pid owner) = fst (unregister pid owner st)"
| "reg_step st (OpDropOwner now w) = fst (drop_owner now w st)"
| "reg_step st (OpPurge now) = fst (purge_expired now st)"
| "reg_step st (OpSetBusy pid b d) = fst (set_busy pid b d st)"

interpretation reg_sm: state_machine empty_registry reg_step reg_inv
proof unfold_locales
  show "reg_inv empty_registry" by (rule empty_registry_inv)
next
  fix st x
  assume "reg_inv st"
  then show "reg_inv (reg_step st x)"
    by (cases x) (simp_all add: register_inv add_aliases_inv unregister_inv drop_owner_inv purge_inv
        set_busy_inv)
qed


section \<open>Purging, ownership and offline panes\<close>

lemma purge_no_expired:
  "reg_inv st \<Longrightarrow> (k, e) \<in> set (rg_panes (fst (purge_expired now st))) \<Longrightarrow> \<not> is_expired now e"
  by (auto simp: purge_panes reg_inv_distinct)

lemma purge_forgets_nothing_live:
  "reg_inv st \<Longrightarrow> dget (rg_panes st) k = Some e \<Longrightarrow> \<not> is_expired now e \<Longrightarrow>
   dget (rg_panes (fst (purge_expired now st))) k = Some e"
  by (simp add: purge_lookup reg_inv_distinct)

lemma drop_fold_lookup:
  "dget (rg_panes (foldl (drop_one now) st ids)) k =
     (case dget (rg_panes st) k of
        None \<Rightarrow> None
      | Some e \<Rightarrow> if k \<in> set ids \<and> rp_offline_since e = None
                  then Some (e\<lparr>rp_offline_since := Some now\<rparr>) else Some e)"
  by (induction ids arbitrary: st) (auto simp: drop_one_fields split: option.splits)

lemma drop_fold_owners:
  "rg_owners (foldl (drop_one now) st ids) = filter (\<lambda>e. fst e \<notin> set ids) (rg_owners st)"
  by (induction ids arbitrary: st) (auto simp: drop_one_fields dpop_filter intro!: filter_cong)

lemma drop_owner_affected:
  "reg_inv st \<Longrightarrow> set (snd (drop_owner now w st)) = {k. dget (rg_owners st) k = Some w}"
  by (auto simp: drop_owner_def Let_def reg_inv_def owners_ok_def dget_iff_mem)

lemma drop_owner_lookup:
  assumes "reg_inv st"
  shows "dget (rg_panes (fst (drop_owner now w st))) k =
     (if dget (rg_owners st) k = Some w
      then map_option (\<lambda>e. e\<lparr>rp_offline_since := Some now\<rparr>) (dget (rg_panes st) k)
      else dget (rg_panes st) k)"
proof -
  have "dget (rg_owners st) k = Some w \<Longrightarrow> \<exists>e. dget (rg_panes st) k = Some e \<and> rp_offline_since e = None"
    using assms by (auto simp: reg_inv_def owners_ok_def)
  then show ?thesis
    using drop_owner_affected [OF assms, of now w]
    by (auto simp: drop_owner_def Let_def drop_fold_lookup split: option.splits)
qed


section \<open>What a resolved target is\<close>

lemma accept_entry_Inr:
  "accept_entry now e to c = Inr (p, x) \<longleftrightarrow>
   p = e \<and> x = c \<and> rp_offline_since e = None \<and> (is_dock e \<longrightarrow> rp_deliverable e)"
  by (auto simp: accept_entry_def)

lemma prefer_online_single:
  assumes "prefer_online hits = [p]" and "rp_offline_since p = None"
  shows "p \<in> set hits \<and> (\<forall>q \<in> set hits. \<not> offline q \<longrightarrow> q = p)"
proof (cases "filter (\<lambda>e. \<not> offline e) hits = []")
  case True
  with assms have "hits = [p]" by (simp add: prefer_online_def)
  then show ?thesis by simp
next
  case False
  with assms have f: "filter (\<lambda>e. \<not> offline e) hits = [p]" by (simp add: prefer_online_def)
  then have "set (filter (\<lambda>e. \<not> offline e) hits) = {p}" by simp
  then show ?thesis by auto
qed

text \<open>The pane a target may be delivered to: registered, reachable, and the only one of its name.\<close>

definition sole_online :: "registry \<Rightarrow> reg_pane \<Rightarrow> bool" where
  "sole_online st p \<longleftrightarrow>
     p \<in> snd ` set (rg_panes st) \<and> rp_offline_since p = None \<and> (is_dock p \<longrightarrow> rp_deliverable p) \<and>
     (\<forall>q \<in> snd ` set (rg_panes st). \<not> offline q \<longrightarrow> rp_workspace_path q = rp_workspace_path p \<longrightarrow>
        rp_name q = rp_name p \<longrightarrow> q = p)"

definition crosses :: "reg_pane option \<Rightarrow> reg_pane \<Rightarrow> bool" where
  "crosses sender p = (case sender of None \<Rightarrow> True | Some s \<Rightarrow> rp_workspace_path s \<noteq> rp_workspace_path p)"

lemma resolve_bare_Inr:
  assumes "resolve_bare now st sender target = Inr (p, cross)"
  shows "sole_online st p \<and> rp_name p = target \<and> \<not> cross \<and>
    (\<exists>s. sender = Some s \<and> rp_workspace_path p = rp_workspace_path s)"
proof -
  obtain s where s: "sender = Some s" using assms by (cases sender) (auto simp: resolve_bare_def)
  let ?found = "filter (\<lambda>e. rp_workspace_path e = rp_workspace_path s \<and> rp_name e = target) (map snd (rg_panes st))"
  obtain q where q: "prefer_online ?found = [q]" "accept_entry now q target False = Inr (p, cross)"
    using assms s by (auto simp: resolve_bare_def Let_def split: if_splits list.splits)
  then have a: "p = q" "\<not> cross" "rp_offline_since p = None" "is_dock p \<longrightarrow> rp_deliverable p"
    by (auto simp: accept_entry_Inr)
  with prefer_online_single [OF q(1)] have "p \<in> set ?found" "\<forall>r \<in> set ?found. \<not> offline r \<longrightarrow> r = p"
    by auto
  with a s show ?thesis by (auto simp: sole_online_def)
qed

lemma resolve_qualified_Inr:
  assumes "resolve_qualified now st sender target = Inr (p, cross)"
  shows "sole_online st p \<and> cross = crosses sender p \<and>
    rp_name p = py_strip (snd (snd (str_rpartition CHR ''/'' target))) \<and>
    match_workspaces st (fst (str_rpartition CHR ''/'' target)) = [rp_workspace_path p]"
proof -
  obtain wp b raw where r: "str_rpartition CHR ''/'' target = (wp, b, raw)" by (metis prod_cases3)
  obtain w where w: "match_workspaces st wp = [w]" and nm: "py_strip raw \<noteq> []"
    using assms r by (auto simp: resolve_qualified_def Let_def split: if_splits list.splits)
  let ?found = "filter (\<lambda>e. rp_workspace_path e = w \<and> rp_name e = py_strip raw) (map snd (rg_panes st))"
  obtain q where q: "prefer_online ?found = [q]" "accept_entry now q target (crosses sender q) = Inr (p, cross)"
    using assms r w nm by (auto simp: resolve_qualified_def crosses_def Let_def split: if_splits list.splits)
  then have a: "p = q" "cross = crosses sender p" "rp_offline_since p = None" "is_dock p \<longrightarrow> rp_deliverable p"
    by (auto simp: accept_entry_Inr)
  with prefer_online_single [OF q(1)] have "p \<in> set ?found" "\<forall>r \<in> set ?found. \<not> offline r \<longrightarrow> r = p"
    by auto
  with a r w show ?thesis by (auto simp: sole_online_def)
qed

lemma resolve_Inr_cases:
  assumes "resolve local_ids now st from to = (st', Inr (p, cross))"
  shows "st' = fst (purge_expired now st) \<and>
    (\<exists>target. if CHR ''/'' \<notin> set target
       then resolve_bare now st' (dget (rg_panes st') from) target = Inr (p, cross)
       else resolve_qualified now st' (dget (rg_panes st') from) target = Inr (p, cross))"
  using assms by (fastforce simp: resolve_def Let_def split: if_splits prod.splits)

lemma resolve_sole_online:
  assumes "resolve local_ids now st from to = (st', Inr (p, cross))"
  shows "sole_online st' p \<and> cross = crosses (dget (rg_panes st') from) p"
proof -
  from resolve_Inr_cases [OF assms] obtain target where
    "if CHR ''/'' \<notin> set target
     then resolve_bare now st' (dget (rg_panes st') from) target = Inr (p, cross)
     else resolve_qualified now st' (dget (rg_panes st') from) target = Inr (p, cross)" by blast
  then show ?thesis
    by (auto split: if_splits dest!: resolve_bare_Inr resolve_qualified_Inr simp: crosses_def)
qed

lemma no_slash_no_device: "CHR ''/'' \<notin> set s \<Longrightarrow> split_device_segment s = ([], s)"
  by (simp add: split_device_segment_def str_partition_def)

lemma resolve_bare_name:
  assumes "resolve local_ids now st from to = (st', Inr (p, cross))" and "CHR ''/'' \<notin> set (py_strip to)"
  shows "rp_name p = py_strip to \<and> \<not> cross \<and>
    (\<exists>s. dget (rg_panes st') from = Some s \<and> rp_workspace_path p = rp_workspace_path s)"
proof -
  from assms have "resolve_bare now st' (dget (rg_panes st') from) (py_strip to) = Inr (p, cross)"
    by (auto simp: resolve_def no_slash_no_device Let_def split: if_splits)
  from resolve_bare_Inr [OF this] show ?thesis by blast
qed


section \<open>Address round trip\<close>

lemma hex_char_facts: "is_hex c \<or> c = CHR ''-'' \<Longrightarrow> c \<noteq> CHR ''/'' \<and> \<not> py_isspace c"
  by (auto simp: is_hex_def py_isspace_def Let_def)

lemma uuid_shape_chars: "uuid_shape s \<Longrightarrow> c \<in> set s \<Longrightarrow> is_hex c \<or> c = CHR ''-''"
  unfolding uuid_shape_def by (auto simp: list_all2_conv_all_nth in_set_conv_nth split: if_splits)

lemma uuid_shape_length: "uuid_shape s \<Longrightarrow> length s = 36"
  by (auto simp: uuid_shape_def uuid_mask_def dest: list_all2_lengthD)

lemma uuid_shape_no_slash: "uuid_shape s \<Longrightarrow> CHR ''/'' \<notin> set s"
  using uuid_shape_chars hex_char_facts by blast

lemma split_device_uuid:
  "uuid_shape d \<Longrightarrow> CHR ''/'' \<in> set rest \<Longrightarrow> split_device_segment (d @ ''/'' @ rest) = (d, rest)"
  by (simp add: split_device_segment_def str_partition_found uuid_shape_no_slash device_segment_match_def)


section \<open>Properties\<close>

text \<open>A small registry for the witnesses: two windows, three panes in two workspaces.\<close>

definition sample_pane :: "string \<Rightarrow> string \<Rightarrow> string \<Rightarrow> reg_pane" where
  "sample_pane pid name ws = \<lparr>rp_pane_id = pid, rp_name = name, rp_workspace_path = ws, rp_agent_key = ''claude'',
     rp_busy = False, rp_offline_since = None, rp_realized = True, rp_display_status = ''idle'',
     rp_spawned_by = [], rp_surface = [], rp_window_kind = [], rp_deliverable = False\<rparr>"

definition sample_ops :: "reg_op list" where
  "sample_ops = [OpRegister (sample_pane ''p1'' ''alice'' ''/home/web'') (Some 7),
     OpRegister (sample_pane ''p2'' ''bob'' ''/home/web/'') (Some 7),
     OpRegister (sample_pane ''p3'' ''bob'' ''/home/api'') (Some 8)]"

definition sample_registry :: registry where
  "sample_registry = run_ops reg_step empty_registry sample_ops"

lemma sample_reachable: "reachable empty_registry reg_step sample_registry"
  by (simp add: sample_registry_def reg_sm.run_reachable)

lemma sample_inv: "reg_inv sample_registry"
  by (rule reg_sm.inv_reachable [OF sample_reachable])

text \<open>
  C6: In every registry a sequence of register, alias, unregister, window-disconnect, purge and
  status operations can produce, each pane is stored once under its own id, the forgotten ids
  are at most 512 and never name a registered pane, every owned pane is registered and online,
  and no alias leads from an id to itself.
\<close>

theorem registry_invariant: "reachable empty_registry reg_step st \<Longrightarrow> reg_inv st"
  by (rule reg_sm.inv_reachable)

theorem registry_invariant_witness: "reg_inv sample_registry"
  by (rule registry_invariant [OF sample_reachable])

text \<open>
  C30: A target is only ever resolved to a pane that is registered, whose window is connected, that can
  take a message, and that is the only connected pane of its name in its workspace; the
  cross-workspace flag says exactly whether sender and pane are in different workspaces.
\<close>

theorem resolve_picks_sole_online:
  assumes "resolve local_ids now st from to = (st', Inr (p, cross))"
  shows "p \<in> snd ` set (rg_panes st') \<and> rp_offline_since p = None \<and> (is_dock p \<longrightarrow> rp_deliverable p) \<and>
    (\<forall>q \<in> snd ` set (rg_panes st'). \<not> offline q \<and> rp_workspace_path q = rp_workspace_path p \<and>
       rp_name q = rp_name p \<longrightarrow> q = p) \<and>
    (cross \<longleftrightarrow> (case dget (rg_panes st') from of None \<Rightarrow> True
                 | Some s \<Rightarrow> rp_workspace_path s \<noteq> rp_workspace_path p))"
  using resolve_sole_online [OF assms] by (simp add: sole_online_def crosses_def)

lemma sample_resolve:
  "resolve [] 0 sample_registry ''p1'' ''bob'' = (sample_registry, Inr (sample_pane ''p2'' ''bob'' ''/home/web''\<lparr>rp_display_status := []\<rparr>, False))"
  by code_simp


theorem resolve_picks_sole_online_witness:
  "rp_pane_id (sample_pane ''p2'' ''bob'' ''/home/web'') = ''p2'' \<and>
   sample_pane ''p2'' ''bob'' ''/home/web''\<lparr>rp_display_status := []\<rparr> \<in> snd ` set (rg_panes sample_registry)"
  using resolve_picks_sole_online [OF sample_resolve] by (simp add: sample_pane_def)

text \<open>
  A bare name never leaves the sender's own workspace: the sender is registered, the pane
  found carries exactly that name and sits in the sender's workspace, and the message is not marked
  as crossing workspaces.
\<close>

theorem bare_name_stays_in_workspace:
  assumes "resolve local_ids now st from to = (st', Inr (p, cross))" and "CHR ''/'' \<notin> set (py_strip to)"
  shows "\<exists>s. dget (rg_panes st') from = Some s \<and> rp_workspace_path p = rp_workspace_path s \<and>
    rp_name p = py_strip to \<and> \<not> cross"
  using resolve_bare_name [OF assms] by blast

theorem bare_name_stays_in_workspace_witness:
  "\<exists>s. dget (rg_panes sample_registry) ''p1'' = Some s \<and> rp_workspace_path s = ''/home/web''"
proof -
  have "CHR ''/'' \<notin> set (py_strip ''bob'')" by code_simp
  from bare_name_stays_in_workspace [OF sample_resolve this] show ?thesis
    by (auto simp: sample_pane_def)
qed

text \<open>
  A sweep of the registry forgets exactly the panes that have been offline for the grace
  period: every other pane is looked up with the same result before and after it.
\<close>

theorem purge_forgets_exactly_expired:
  assumes "reg_inv st"
  shows "dget (rg_panes (fst (purge_expired now st))) k =
    (case dget (rg_panes st) k of
       None \<Rightarrow> None
     | Some e \<Rightarrow> (case rp_offline_since e of
                   None \<Rightarrow> Some e
                 | Some t \<Rightarrow> if OFFLINE_GRACE_S \<le> now - t then None else Some e))"
  by (auto simp: purge_lookup [OF reg_inv_distinct [OF assms]] is_expired_def split: option.splits)

theorem purge_forgets_exactly_expired_witness:
  "dget (rg_panes (fst (purge_expired 95 (fst (drop_owner 5 7 sample_registry))))) ''p1'' = None \<and>
   dget (rg_panes (fst (purge_expired 95 (fst (drop_owner 5 7 sample_registry))))) ''p3'' \<noteq> None"
proof -
  have inv: "reg_inv (fst (drop_owner 5 7 sample_registry))" by (rule drop_owner_inv [OF sample_inv])
  have "dget (rg_panes (fst (drop_owner 5 7 sample_registry))) ''p1'' =
        Some (sample_pane ''p1'' ''alice'' ''/home/web''\<lparr>rp_display_status := [], rp_offline_since := Some 5\<rparr>)"
    and "dget (rg_panes (fst (drop_owner 5 7 sample_registry))) ''p3'' =
        Some (sample_pane ''p3'' ''bob'' ''/home/api''\<lparr>rp_display_status := []\<rparr>)"
    by code_simp+
  then show ?thesis
    by (simp add: purge_forgets_exactly_expired [OF inv] sample_pane_def OFFLINE_GRACE_S_def)
qed

text \<open>
  A window that loses its connection and comes back within the grace period finds its
  panes again: between the two they are registered and flagged offline, and after the window
  registers them they are online with the busy flag and status word they had.
\<close>

theorem reconnect_restores_pane:
  assumes inv: "reg_inv st" and own: "dget (rg_owners st) k = Some w" and e: "dget (rg_panes st) k = Some e"
    and grace: "later - now < OFFLINE_GRACE_S" and k: "rp_pane_id args = k"
  shows "dget (rg_panes (fst (purge_expired later (fst (drop_owner now w st))))) k =
       Some (e\<lparr>rp_offline_since := Some now\<rparr>) \<and>
    (\<exists>e'. dget (rg_panes (register args (Some w') (fst (purge_expired later (fst (drop_owner now w st)))))) k =
       Some e' \<and> rp_offline_since e' = None \<and> rp_busy e' = rp_busy e \<and>
       rp_display_status e' = rp_display_status e)"
proof -
  let ?st2 = "fst (purge_expired later (fst (drop_owner now w st)))"
  have "dget (rg_panes (fst (drop_owner now w st))) k = Some (e\<lparr>rp_offline_since := Some now\<rparr>)"
    by (simp add: drop_owner_lookup [OF inv] own e)
  with grace have l: "dget (rg_panes ?st2) k = Some (e\<lparr>rp_offline_since := Some now\<rparr>)"
    by (intro purge_forgets_nothing_live drop_owner_inv inv) (simp_all add: is_expired_def)
  then show ?thesis using k by (simp add: register_fields register_panes registered_entry_def)
qed

theorem reconnect_restores_pane_witness:
  "\<exists>e'. dget (rg_panes (register (sample_pane ''p1'' ''alice'' ''/home/web'') (Some 9)
      (fst (purge_expired 30 (fst (drop_owner 5 7 sample_registry)))))) ''p1'' = Some e' \<and>
      rp_offline_since e' = None"
proof -
  have o: "dget (rg_owners sample_registry) ''p1'' = Some 7"
    and e: "dget (rg_panes sample_registry) ''p1'' =
      Some (sample_pane ''p1'' ''alice'' ''/home/web''\<lparr>rp_display_status := []\<rparr>)" by code_simp+
  have g: "(30::rat) - 5 < OFFLINE_GRACE_S" and k: "rp_pane_id (sample_pane ''p1'' ''alice'' ''/home/web'') = ''p1''"
    by (simp_all add: OFFLINE_GRACE_S_def sample_pane_def)
  from reconnect_restores_pane [OF sample_inv o e g k, of 9] show ?thesis by blast
qed

text \<open>
  In a detach the child window registers the pane before the parent lets go of it; the
  parent's late unregister is refused and changes nothing, so the pane stays with the child.
\<close>

theorem detach_keeps_pane:
  assumes "child \<noteq> parent"
  shows "unregister (rp_pane_id args) (Some parent) (register args (Some child) st) =
    (register args (Some child) st, False)"
  by (rule unregister_refused [where own = child]) (use assms in \<open>simp_all add: register_fields\<close>)

theorem detach_keeps_pane_witness:
  "snd (unregister ''p1'' (Some 7) (register (sample_pane ''p1'' ''alice'' ''/home/web'') (Some 8) sample_registry)) = False"
  using detach_keeps_pane [of 8 7 "sample_pane ''p1'' ''alice'' ''/home/web''" sample_registry]
  by (simp add: sample_pane_def)

text \<open>
  Every former id a declaration accepts leads to the declaring pane afterwards, whatever
  else the same declaration listed.
\<close>

theorem accepted_aliases_lead_to_pane:
  assumes "reg_inv st" and "f \<in> set (snd (add_aliases pid fs w st))"
  shows "resolve_alias (fst (add_aliases pid fs w st)) f = pid"
proof -
  have "aliases_ok (rg_aliases st)" using assms(1) by (simp add: reg_inv_def)
  from alias_fold_leads [OF this, of "[]" pid f "normalize_workspace w" "rg_panes st" fs] assms(2)
  show ?thesis by (auto simp: resolve_alias_def add_aliases_fields)
qed

theorem accepted_aliases_lead_to_pane_witness:
  "resolve_alias (fst (add_aliases ''p1'' [''old'', ''older''] ''/home/web'' sample_registry)) ''old'' = ''p1''"
proof -
  have "''old'' \<in> set (snd (add_aliases ''p1'' [''old'', ''older''] ''/home/web'' sample_registry))"
    by code_simp
  from accepted_aliases_lead_to_pane [OF sample_inv this] show ?thesis .
qed

text \<open>
  Alias chains are flattened as they grow: if one lookup reaches the end of every chain and the
  declaring pane is not itself superseded, the same holds after its declaration.
\<close>

theorem alias_chains_stay_flat:
  assumes "reg_inv st" and "flat (rg_aliases st)" and "resolve_alias st pid = []" and "pid \<noteq> []"
    and "\<forall>a \<in> snd ` set (rg_aliases st). al_pane_id a \<noteq> []"
  shows "flat (rg_aliases (fst (add_aliases pid fs w st)))"
proof -
  have "dget (rg_aliases st) pid = None"
    using assms(3,5) by (auto simp: resolve_alias_def split: option.splits dest!: map_of_SomeD)
  with assms(1,2) show ?thesis by (simp add: add_aliases_fields alias_fold_flat reg_inv_def)
qed

theorem alias_chains_stay_flat_witness:
  "flat (rg_aliases (fst (add_aliases ''p1'' [''old''] ''/home/web'' sample_registry)))"
proof -
  have a: "rg_aliases sample_registry = []" "resolve_alias sample_registry ''p1'' = []" by code_simp+
  show ?thesis
    by (rule alias_chains_stay_flat [OF sample_inv]) (simp_all add: a flat_def)
qed

text \<open>
  Without that condition a chain of two remains: a superseded pane that declares a former id of its own is not
  repointed, so the former id leads to the superseded id and not to the pane that replaced it.
\<close>

theorem superseded_pane_leaves_chain:
  "\<exists>ops. resolve_alias (run_ops reg_step empty_registry ops) ''c'' = ''a'' \<and>
         resolve_alias (run_ops reg_step empty_registry ops) ''a'' = ''b''"
  by (rule exI [of _ "[OpAliases ''b'' [''a''] ''/w'', OpAliases ''a'' [''c''] ''/w'']"]) code_simp

text \<open>
  Parsing an address this machine printed gives the address back: a UUID device id, a
  non-empty workspace and a pane name without a slash or surrounding blanks survive the round trip.
\<close>

theorem address_roundtrip:
  assumes "uuid_shape (ad_device_id a)" and "ad_workspace a \<noteq> []" and "ad_pane_id a = []"
    and n: "ad_pane_name a \<noteq> []" "CHR ''/'' \<notin> set (ad_pane_name a)" "py_strip (ad_pane_name a) = ad_pane_name a"
  shows "parse_target (address_to_string a) = a"
proof -
  let ?d = "ad_device_id a" and ?w = "ad_workspace a" and ?n = "ad_pane_name a"
  have d: "?d \<noteq> []" using uuid_shape_length [OF assms(1)] by auto
  then have s: "address_to_string a = ?d @ ''/'' @ ?w @ CHR ''/'' # ?n"
    using assms(2) by (simp add: address_to_string_def local_target_def)
  have "\<not> py_isspace (hd ?d)"
    using uuid_shape_chars [OF assms(1) hd_in_set [OF d]] hex_char_facts by blast
  moreover have "\<not> py_isspace (last ?n)" using py_strip_cases [of ?n] n by simp
  ultimately have "py_strip (address_to_string a) = address_to_string a"
    by (intro strip_id) (use d n(1) s in simp)
  moreover have "split_device_segment (address_to_string a) = (?d, ?w @ CHR ''/'' # ?n)"
    unfolding s by (rule split_device_uuid [OF assms(1)]) simp
  moreover have "str_rpartition CHR ''/'' (?w @ CHR ''/'' # ?n) = (?w, True, ?n)"
    by (rule str_rpartition_found [OF n(2)])
  ultimately show ?thesis using n(3) assms(3) by (simp add: parse_target_def)
qed

theorem address_roundtrip_witness:
  "ad_workspace (parse_target ''12345678-9abc-def0-1234-56789abcdef0/parent/proj/main'') = ''parent/proj''"
proof -
  let ?a = "\<lparr>ad_pane_name = ''main'', ad_workspace = ''parent/proj'',
      ad_device_id = ''12345678-9abc-def0-1234-56789abcdef0'', ad_pane_id = []\<rparr>"
  have "uuid_shape (ad_device_id ?a)" and "py_strip (ad_pane_name ?a) = ad_pane_name ?a" by code_simp+
  then have "parse_target (address_to_string ?a) = ?a" by (intro address_roundtrip) simp_all
  then show ?thesis by (simp add: address_to_string_def local_target_def)
qed

end
