(* ===== verification/Message_Routing.thy ===== *)
theory Message_Routing
  imports Messaging
begin

text \<open>
  \<open>backend/agent_team_backend/message_routing.py\<close>: the order in which a target is read as an
  address on this machine and as one on another device, and what a relayed message's reply
  means. The link itself (\<open>server_link.send_message\<close>) is a network client: its reply is the argument of
  \<open>relay_reply\<close>, \<open>None\<close> when there is no link.
\<close>

datatype routed =
    ToPane reg_pane bool
  | ToRemote address "resolve_error option"
  | RouteError resolve_error

definition route ::
    "string list \<Rightarrow> rat \<Rightarrow> roster \<Rightarrow> registry \<Rightarrow> string \<Rightarrow> string \<Rightarrow> registry \<times> routed" where
  "route local_ids now ros st from_pane_id to =
     (let address = parse_target to in
      if ad_device_id address \<noteq> [] \<and> \<not> is_local_device local_ids (ad_device_id address) then
        (case resolve local_ids now st from_pane_id to of
           (st', Inl e) \<Rightarrow> (st', ToRemote address (Some e))
         | (st', Inr _) \<Rightarrow> (st', ToRemote address None))
      else
        (case resolve local_ids now st from_pane_id to of
           (st', Inr (p, cross)) \<Rightarrow> (st', ToPane p cross)
         | (st', Inl e) \<Rightarrow>
             (case parse_remote_target ros to of
                Some (Inl re) \<Rightarrow> (st', RouteError re)
              | Some (Inr a) \<Rightarrow> (st', ToRemote a None)
              | None \<Rightarrow> (st', RouteError e))))"

text \<open>The server's refusal codes in the local vocabulary; an unknown code is passed through.\<close>

definition RELAY_ERROR_CODES :: "(string \<times> string) list" where
  "RELAY_ERROR_CODES =
     [(''DEVICE_OFFLINE'', ''device-offline''), (''NOT_FOUND'', ''unknown-target''),
      (''LINK_OFFLINE'', ''link-offline''), (''LINK_UNAUTHORIZED'', ''link-unauthorized'')]"

definition LINK_STATE_CODES :: "string list" where
  "LINK_STATE_CODES = [''link-offline'', ''link-unauthorized'']"

text \<open>The refusal's error object: its \<open>code\<close>, \<open>message\<close>, \<open>state\<close> and \<open>lastError\<close> texts, empty when absent.\<close>

record relay_refusal =
  rf_code :: string
  rf_message :: string
  rf_state :: string
  rf_last_error :: string

datatype relay_outcome = NoLink | Refused relay_refusal | Accepted

record relayed =
  rl_ok :: bool
  rl_msg_key :: string
  rl_target :: string
  rl_code :: string
  rl_link_state :: string
  rl_last_error :: string

definition relay_reply :: "address \<Rightarrow> string \<Rightarrow> relay_outcome \<Rightarrow> relayed option" where
  "relay_reply a msg_key reply =
     (case reply of
        NoLink \<Rightarrow> None
      | Accepted \<Rightarrow> Some \<lparr>rl_ok = True, rl_msg_key = msg_key, rl_target = address_to_string a,
                       rl_code = [], rl_link_state = [], rl_last_error = []\<rparr>
      | Refused r \<Rightarrow>
          (let code = str_or (rf_code r) ''SEND_FAILED'';
               mapped = (case dget RELAY_ERROR_CODES code of Some c \<Rightarrow> c | None \<Rightarrow> code)
           in if mapped \<in> set LINK_STATE_CODES
              then Some \<lparr>rl_ok = False, rl_msg_key = [], rl_target = address_to_string a, rl_code = mapped,
                         rl_link_state = rf_state r, rl_last_error = rf_last_error r\<rparr>
              else Some \<lparr>rl_ok = False, rl_msg_key = [], rl_target = address_to_string a, rl_code = mapped,
                         rl_link_state = [], rl_last_error = []\<rparr>))"


text \<open>What \<open>relay\<close> hands to the link: the three parts of the address, and who sends.\<close>

record relay_request =
  rq_device_id :: string
  rq_workspace :: string
  rq_pane_name :: string
  rq_sender :: "(string \<times> string \<times> string) option"
  rq_text :: string
  rq_msg_key :: string

definition relay ::
    "(relay_request \<Rightarrow> relay_outcome) \<Rightarrow> rat \<Rightarrow> registry \<Rightarrow> address \<Rightarrow> string \<Rightarrow> string \<Rightarrow> string \<Rightarrow>
     registry \<times> relayed option" where
  "relay send now st a text from_pane_id msg_key =
     (let (st', sender) = (if from_pane_id \<noteq> [] then get_pane now st from_pane_id else (st, None));
          request = \<lparr>rq_device_id = ad_device_id a, rq_workspace = ad_workspace a,
            rq_pane_name = ad_pane_name a,
            rq_sender = map_option (\<lambda>s. (workspace_label s, rp_name s, rp_pane_id s)) sender,
            rq_text = text, rq_msg_key = msg_key\<rparr>
      in (st', relay_reply a msg_key (send request)))"


section \<open>Local addressing wins\<close>

lemma parse_target_device: "ad_device_id (parse_target to) = fst (split_device_segment (py_strip to))"
  by (simp add: parse_target_def Let_def split: prod.splits)

lemma resolve_foreign_device:
  assumes "ad_device_id (parse_target to) \<noteq> []" and "\<not> is_local_device local_ids (ad_device_id (parse_target to))"
  shows "\<exists>e. resolve local_ids now st from to = (st, Inl e)"
proof -
  obtain d r where "split_device_segment (py_strip to) = (d, r)" by fastforce
  with assms show ?thesis
    by (auto simp: resolve_def parse_target_device Let_def)
qed

lemma resolve_Inr_local:
  assumes "resolve local_ids now st from to = (st', Inr pc)"
  shows "\<not> (ad_device_id (parse_target to) \<noteq> [] \<and> \<not> is_local_device local_ids (ad_device_id (parse_target to)))"
  using assms resolve_foreign_device [of "to" local_ids now st "from"] by auto


section \<open>Properties\<close>

text \<open>
  Local addressing wins: a target the local resolver answers with a pane is routed to that pane,
  whatever devices and panes the remote roster holds.
\<close>

theorem local_addressing_wins:
  assumes "resolve local_ids now st from to = (st', Inr (p, cross))"
  shows "route local_ids now ros st from to = (st', ToPane p cross)"
  using assms resolve_Inr_local [OF assms] by (auto simp: route_def Let_def)

theorem local_addressing_wins_witness:
  "\<forall>ros. snd (route [] 0 ros sample_registry ''p1'' ''bob'') =
     ToPane (sample_pane ''p2'' ''bob'' ''/home/web''\<lparr>rp_display_status := []\<rparr>) False"
  using local_addressing_wins [OF sample_resolve] by simp

text \<open>
  C31: A message leaves this machine only towards a device the sender named: its id, explicitly
  and not one of this machine's, or a label that exactly one device of the roster answers to after
  the local resolver failed; with an empty roster and no device id nothing is ever routed away.
\<close>

theorem remote_only_when_named:
  assumes "route local_ids now ros st from to = (st', ToRemote a e)"
  shows "(a = parse_target to \<and> ad_device_id a \<noteq> [] \<and> ad_device_id a \<notin> set local_ids) \<or>
    ((\<exists>err. resolve local_ids now st from to = (st', Inl err)) \<and>
     devices_named ros (fst (str_partition CHR ''/'' (py_strip to))) = [ad_device_id a])"
proof (cases "ad_device_id (parse_target to) \<noteq> [] \<and> \<not> is_local_device local_ids (ad_device_id (parse_target to))")
  case True
  with assms resolve_foreign_device [of "to" local_ids now st "from"] show ?thesis
    by (auto simp: route_def Let_def is_local_device_def)
next
  case False
  obtain st1 r where r: "resolve local_ids now st from to = (st1, r)" by fastforce
  with assms False have e: "\<exists>err. r = Inl err" "st1 = st'" and p: "parse_remote_target ros to = Some (Inr a)"
    by (auto simp: route_def Let_def split: sum.splits option.splits prod.splits)
  from p have "devices_named ros (fst (str_partition CHR ''/'' (py_strip to))) = [ad_device_id a]"
    by (auto simp: parse_remote_target_def Let_def split: if_splits list.splits prod.splits)
  with e r show ?thesis by blast
qed

theorem remote_only_when_named_witness:
  "\<exists>st' a. route [] 0 [] sample_registry ''p1'' ''12345678-9abc-def0-1234-56789abcdef0/proj/main'' =
     (st', ToRemote a (Some (UnknownDevice ''12345678-9abc-def0-1234-56789abcdef0''
        ''12345678-9abc-def0-1234-56789abcdef0/proj/main''))) \<and>
     ad_device_id a = ''12345678-9abc-def0-1234-56789abcdef0''"
proof -
  let ?t = "''12345678-9abc-def0-1234-56789abcdef0/proj/main''"
  have r: "route [] 0 [] sample_registry ''p1'' ?t = (sample_registry, ToRemote (parse_target ?t)
     (Some (UnknownDevice ''12345678-9abc-def0-1234-56789abcdef0'' ?t)))" by code_simp
  have "ad_device_id (parse_target ?t) = ''12345678-9abc-def0-1234-56789abcdef0''" by code_simp
  with r remote_only_when_named [OF r] show ?thesis by blast
qed

end
