(* ===== verification/Trust_Store.thy ===== *)
theory Trust_Store
  imports Py_Prelude
begin

text \<open>
  \<open>backend/agent_team_backend/trust_store.py\<close>: what this machine believes about other devices.

  The state document is \<open>trust_doc\<close>, the module's globals together with the two places it is stored in
  (the credential vault, the \<open>initialised\<close> marker in the database) are \<open>tstate\<close>. A value of \<open>pins\<close> is an object,
  null, or something else; an entry of \<open>blocked\<close> that is not an object is \<open>None\<close>. The code skips both. Whether the vault can be read
  or written at this moment is part of the state and changed by the environment; the database does not fail.
  A public operation loads the document, computes on it (its \<open>body\<close>) and saves it; as in the code the cached
  document is changed before the save, so a failing save leaves it changed in memory only.
  \<open>time.time()\<close> is the argument \<open>now\<close>. SHA-256 is not modelled: \<open>fp\<close> is the fingerprint function of
  \<open>device_signing.fingerprint\<close>, \<open>digest\<close> the hash behind \<open>_token_fingerprint\<close>. Lock messages are constructors of \<open>lock_reason\<close>,
  and the lock guarding the module makes each operation one step.
\<close>

section \<open>The document\<close>

record pin =
  pn_sign_key :: string
  pn_enc_key :: string
  pn_member_id :: string
  pn_at :: int
  pn_approved :: bool
  pn_dismissed_at :: "int option"

datatype pin_entry = NullEntry | OtherEntry | PinEntry pin

record notice =
  no_key :: string
  no_kind :: string
  no_device_id :: string
  no_at :: int
  no_detail :: "(string \<times> jval) list"

record trust_doc =
  td_own_members :: "(string \<times> string) list"
  td_pins :: "(string \<times> pin_entry) list"
  td_policy_seqs :: "(string \<times> int) list"
  td_blocked :: "(string \<times> string) option list"
  td_encrypted_peers :: "string list"
  td_seen_messages :: "(string \<times> int) list"
  td_notices :: "notice list"

definition MAX_DEVICES :: nat where "MAX_DEVICES = 200"
definition MAX_NOTICES :: nat where "MAX_NOTICES = 50"
definition MAX_SEEN_MESSAGES :: nat where "MAX_SEEN_MESSAGES = 500"
definition SEEN_MESSAGE_TTL_S :: int where "SEEN_MESSAGE_TTL_S = 3600"
definition SEEN_FLUSH_AFTER :: nat where "SEEN_FLUSH_AFTER = 25"
definition SEEN_FLUSH_SECONDS :: rat where "SEEN_FLUSH_SECONDS = 10"
definition TRANSIENT_RETRY_LIMIT :: nat where "TRANSIENT_RETRY_LIMIT = 3"
definition STATE_VERSION :: int where "STATE_VERSION = 1"

definition NOTICE_FIRST_SEEN :: string where "NOTICE_FIRST_SEEN = ''device-first-seen''"
definition NOTICE_KEY_CHANGED :: string where "NOTICE_KEY_CHANGED = ''device-key-changed''"
definition NOTICE_POLICY_UNVERIFIED :: string where "NOTICE_POLICY_UNVERIFIED = ''policy-unverified''"
definition NOTICE_MEMBER_CHANGED :: string where "NOTICE_MEMBER_CHANGED = ''member-changed''"
definition NOTICE_PLAINTEXT_REFUSED :: string where "NOTICE_PLAINTEXT_REFUSED = ''plaintext-refused''"
definition NOTICE_PAIRING :: string where "NOTICE_PAIRING = ''device-pairing''"
definition NOTICE_REMOTE_COMMAND :: string where "NOTICE_REMOTE_COMMAND = ''remote-command''"

definition DISMISSIBLE :: "string list" where
  "DISMISSIBLE = [NOTICE_FIRST_SEEN]"

definition ALL_NOTICE_KINDS :: "string list" where
  "ALL_NOTICE_KINDS = [NOTICE_FIRST_SEEN, NOTICE_KEY_CHANGED, NOTICE_POLICY_UNVERIFIED,
     NOTICE_MEMBER_CHANGED, NOTICE_PLAINTEXT_REFUSED]"

lemmas notice_kind_defs = NOTICE_FIRST_SEEN_def NOTICE_KEY_CHANGED_def NOTICE_POLICY_UNVERIFIED_def
  NOTICE_MEMBER_CHANGED_def NOTICE_PLAINTEXT_REFUSED_def NOTICE_PAIRING_def NOTICE_REMOTE_COMMAND_def

definition blank_doc :: trust_doc where
  "blank_doc = \<lparr>td_own_members = [], td_pins = [], td_policy_seqs = [], td_blocked = [],
     td_encrypted_peers = [], td_seen_messages = [], td_notices = []\<rparr>"


section \<open>Storage\<close>

text \<open>
  The stored text after decoding: absent, not a JSON object, or an object whose top-level fields are missing (or null), of
  the wrong JSON type, or present.
\<close>

datatype 'a field = Missing | WrongType | Field 'a

record raw_doc =
  rd_v :: "int field"
  rd_own_members :: "(string \<times> string) list field"
  rd_pins :: "(string \<times> pin_entry) list field"
  rd_policy_seqs :: "(string \<times> int) list field"
  rd_blocked :: "(string \<times> string) option list field"
  rd_encrypted_peers :: "string list field"
  rd_seen_messages :: "(string \<times> int) list field"
  rd_notices :: "notice list field"

datatype secret = NoSecret | NotAnObject | RawDoc raw_doc

fun later_field :: "'a list field \<Rightarrow> 'a list option" where
  "later_field Missing = Some []"
| "later_field WrongType = None"
| "later_field (Field xs) = Some xs"

fun required_field :: "'a field \<Rightarrow> 'a option" where
  "required_field (Field x) = Some x"
| "required_field _ = None"

text \<open>
  \<open>_parse\<close>. The list of blocked devices is not checked there; a wrong type reads as empty, as the
  readers' \<open>or []\<close> does for a missing one.
\<close>

definition parse_secret :: "secret \<Rightarrow> trust_doc option" where
  "parse_secret s =
     (case s of
        RawDoc r \<Rightarrow>
          (if rd_v r \<noteq> Field STATE_VERSION then None
           else
             (case (required_field (rd_own_members r), required_field (rd_pins r),
                    required_field (rd_encrypted_peers r), required_field (rd_notices r),
                    later_field (rd_policy_seqs r), later_field (rd_seen_messages r)) of
                (Some own, Some pins, Some enc, Some nots, Some seqs, Some seen) \<Rightarrow>
                  Some \<lparr>td_own_members = own, td_pins = pins, td_policy_seqs = seqs,
                        td_blocked = (case rd_blocked r of Field b \<Rightarrow> b | _ \<Rightarrow> []),
                        td_encrypted_peers = enc, td_seen_messages = seen, td_notices = nots\<rparr>
              | _ \<Rightarrow> None))
      | _ \<Rightarrow> None)"

definition write_secret :: "trust_doc \<Rightarrow> secret" where
  "write_secret d = RawDoc \<lparr>rd_v = Field STATE_VERSION, rd_own_members = Field (td_own_members d),
     rd_pins = Field (td_pins d), rd_policy_seqs = Field (td_policy_seqs d),
     rd_blocked = Field (td_blocked d), rd_encrypted_peers = Field (td_encrypted_peers d),
     rd_seen_messages = Field (td_seen_messages d), rd_notices = Field (td_notices d)\<rparr>"

lemma parse_write [simp]: "parse_secret (write_secret d) = Some d"
  by (simp add: parse_secret_def write_secret_def)

datatype lock_reason = VaultUnreadable | RecordUnreadable | MemberChanged string

datatype trust_error = Locked lock_reason | StoreFull | NotLocked | VaultWrite

record tstate =
  ts_cache :: "trust_doc option"
  ts_locked :: "lock_reason option"
  ts_transient :: "lock_reason option"
  ts_failures :: nat
  ts_pending :: "(string \<times> int) list"
  ts_last_flush :: rat
  ts_vault :: secret
  ts_marker :: bool
  ts_readable :: bool
  ts_writable :: bool

definition write_doc :: "trust_doc \<Rightarrow> tstate \<Rightarrow> tstate \<times> bool" where
  "write_doc d st = (if ts_writable st then (st\<lparr>ts_vault := write_secret d\<rparr>, True) else (st, False))"

text \<open>\<open>_load_locked\<close>, in the order of its checks.\<close>

definition load_first_start :: "tstate \<Rightarrow> trust_doc option \<Rightarrow> tstate \<times> (trust_error + trust_doc)" where
  "load_first_start st parsed =
     (let d = (case parsed of Some p \<Rightarrow> p | None \<Rightarrow> blank_doc);
          st1 = st\<lparr>ts_cache := Some d\<rparr>
      in case write_doc d st1 of
           (st2, True) \<Rightarrow> (st2\<lparr>ts_marker := True\<rparr>, Inr d)
         | (st2, False) \<Rightarrow> (st2, Inl VaultWrite))"

definition load_locked :: "tstate \<Rightarrow> tstate \<times> (trust_error + trust_doc)" where
  "load_locked st =
     (case ts_cache st of
        Some d \<Rightarrow> (st, Inr d)
      | None \<Rightarrow>
          (case ts_locked st of
             Some r \<Rightarrow> (st, Inl (Locked r))
           | None \<Rightarrow>
               if \<not> ts_readable st \<and> ts_marker st then
                 (let n = Suc (ts_failures st) in
                  (if TRANSIENT_RETRY_LIMIT \<le> n
                   then st\<lparr>ts_failures := n, ts_transient := None, ts_locked := Some VaultUnreadable\<rparr>
                   else st\<lparr>ts_failures := n, ts_transient := Some VaultUnreadable\<rparr>,
                   Inl (Locked VaultUnreadable)))
               else
                 (let st1 = st\<lparr>ts_failures := 0, ts_transient := None\<rparr>;
                      parsed = parse_secret (if ts_readable st then ts_vault st else NoSecret)
                  in if ts_marker st then
                       (case parsed of
                          None \<Rightarrow> (st1\<lparr>ts_locked := Some RecordUnreadable\<rparr>, Inl (Locked RecordUnreadable))
                        | Some d \<Rightarrow> (st1\<lparr>ts_cache := Some d\<rparr>, Inr d))
                     else load_first_start st1 parsed)))"

definition transient_lock :: "tstate \<Rightarrow> bool" where
  "transient_lock st = (ts_transient st \<noteq> None \<and> ts_locked st = None)"

definition locked_reason :: "tstate \<Rightarrow> tstate \<times> trust_error option" where
  "locked_reason st =
     (if ts_cache st \<noteq> None then (st, None)
      else (case load_locked st of (st1, Inl e) \<Rightarrow> (st1, Some e) | (st1, Inr _) \<Rightarrow> (st1, None)))"

definition try_load :: "tstate \<Rightarrow> tstate \<times> trust_doc option" where
  "try_load st = (case load_locked st of (st1, Inr d) \<Rightarrow> (st1, Some d) | (st1, Inl _) \<Rightarrow> (st1, None))"

text \<open>What a body does with the loaded document: leave it, change it and save, or change it in memory only.\<close>

datatype 'a body = Keep "trust_error + 'a" | Save trust_doc "trust_error + 'a" | Cached trust_doc "trust_error + 'a"

definition save_locked :: "trust_doc \<Rightarrow> trust_error + 'a \<Rightarrow> tstate \<Rightarrow> tstate \<times> (trust_error + 'a)" where
  "save_locked d r st =
     (case write_doc d (st\<lparr>ts_cache := Some d\<rparr>) of
        (st1, True) \<Rightarrow> (st1, r) | (st1, False) \<Rightarrow> (st1, Inl VaultWrite))"

definition run_body :: "'a body \<Rightarrow> tstate \<Rightarrow> tstate \<times> (trust_error + 'a)" where
  "run_body b st =
     (case b of
        Keep r \<Rightarrow> (st, r)
      | Save d r \<Rightarrow> save_locked d r st
      | Cached d r \<Rightarrow> (st\<lparr>ts_cache := Some d\<rparr>, r))"

definition with_doc :: "(trust_doc \<Rightarrow> 'a body) \<Rightarrow> tstate \<Rightarrow> tstate \<times> (trust_error + 'a)" where
  "with_doc f st =
     (case load_locked st of
        (st1, Inl e) \<Rightarrow> (st1, Inl e)
      | (st1, Inr d) \<Rightarrow> run_body (f d) st1)"

text \<open>The recording operations that never raise: nothing happens while the store cannot be loaded.\<close>

definition with_try :: "'a \<Rightarrow> (trust_doc \<Rightarrow> 'a body) \<Rightarrow> tstate \<Rightarrow> tstate \<times> (trust_error + 'a)" where
  "with_try dflt f st =
     (case try_load st of
        (st1, None) \<Rightarrow> (st1, Inr dflt)
      | (st1, Some d) \<Rightarrow> run_body (f d) st1)"


section \<open>Notices\<close>

definition int_time :: "rat \<Rightarrow> int" where
  "int_time now = \<lfloor>now\<rfloor>"

text \<open>The eviction loop of \<open>_record_locked\<close>: the oldest dismissible notice first, else the oldest.\<close>

fun evict_one :: "notice list \<Rightarrow> notice list" where
  "evict_one ns =
     (case dropWhile (\<lambda>n. no_kind n \<notin> set DISMISSIBLE) ns of
        [] \<Rightarrow> tl ns
      | _ # rest \<Rightarrow> takeWhile (\<lambda>n. no_kind n \<notin> set DISMISSIBLE) ns @ rest)"

declare evict_one.simps [simp del]

lemma length_evict_one [simp]: "length (evict_one ns) = length ns - 1"
proof (cases "dropWhile (\<lambda>n. no_kind n \<notin> set DISMISSIBLE) ns")
  case Nil
  then show ?thesis by (simp only: evict_one.simps list.case length_tl)
next
  case (Cons a rest)
  have "ns = takeWhile (\<lambda>n. no_kind n \<notin> set DISMISSIBLE) ns @ a # rest"
    using Cons by (metis takeWhile_dropWhile_id)
  from arg_cong [OF this, of length] Cons show ?thesis by (simp add: evict_one.simps)
qed

function evict :: "notice list \<Rightarrow> notice list" where
  "evict ns = (if MAX_NOTICES < length ns then evict (evict_one ns) else ns)"
  by pat_completeness auto
termination
  by (relation "measure length") (auto simp: MAX_NOTICES_def)

declare evict.simps [simp del]

definition record_notice ::
    "rat \<Rightarrow> string \<Rightarrow> string \<Rightarrow> (string \<times> jval) list \<Rightarrow> trust_doc \<Rightarrow> trust_doc" where
  "record_notice now kind device_id detail d =
     d\<lparr>td_notices := evict (td_notices d @
         [\<lparr>no_key = kind @ '':'' @ device_id @ '':'' @ int_str (int_time (now * 1000)),
           no_kind = kind, no_device_id = device_id, no_at = int_time now, no_detail = detail\<rparr>])\<rparr>"


section \<open>This account's member id\<close>

definition member_for_credential ::
    "(string \<Rightarrow> string \<Rightarrow> string) \<Rightarrow> string \<Rightarrow> string \<Rightarrow> tstate \<Rightarrow> tstate \<times> string" where
  "member_for_credential digest url token st =
     (if url = [] \<or> token = [] then (st, [])
      else (case try_load st of
              (st1, None) \<Rightarrow> (st1, [])
            | (st1, Some d) \<Rightarrow>
                (st1, case dget (td_own_members d) (digest url token) of Some m \<Rightarrow> m | None \<Rightarrow> [])))"

definition only_credential_ever ::
    "(string \<Rightarrow> string \<Rightarrow> string) \<Rightarrow> string \<Rightarrow> string \<Rightarrow> tstate \<Rightarrow> tstate \<times> bool" where
  "only_credential_ever digest url token st =
     (if url = [] \<or> token = [] then (st, False)
      else (case try_load st of
              (st1, None) \<Rightarrow> (st1, False)
            | (st1, Some d) \<Rightarrow> (st1, set (keys (td_own_members d)) = {digest url token})))"

definition adopt_body ::
    "(string \<Rightarrow> string \<Rightarrow> string) \<Rightarrow> rat \<Rightarrow> string \<Rightarrow> string \<Rightarrow> string \<Rightarrow> trust_doc \<Rightarrow> string body" where
  "adopt_body digest now url token member_id d =
     (let f = digest url token;
          pinned = (case dget (td_own_members d) f of Some m \<Rightarrow> m | None \<Rightarrow> [])
      in if pinned \<noteq> [] then
           (if pinned \<noteq> member_id then
              Save (record_notice now NOTICE_MEMBER_CHANGED []
                      [(''pinned'', JStr pinned), (''offered'', JStr member_id)] d)
                (Inl (Locked (MemberChanged pinned)))
            else Keep (Inr pinned))
         else Save (d\<lparr>td_own_members := dset f member_id (td_own_members d)\<rparr>) (Inr member_id))"

definition adopt_own_member ::
    "(string \<Rightarrow> string \<Rightarrow> string) \<Rightarrow> rat \<Rightarrow> string \<Rightarrow> string \<Rightarrow> string \<Rightarrow> tstate \<Rightarrow>
     tstate \<times> (trust_error + string)" where
  "adopt_own_member digest now url token member_id = with_doc (adopt_body digest now url token member_id)"


section \<open>Device pins\<close>

text \<open>An entry of \<open>pins\<close> that is a pin.\<close>

definition pin_of :: "trust_doc \<Rightarrow> string \<Rightarrow> pin option" where
  "pin_of d dev = (case dget (td_pins d) dev of Some (PinEntry p) \<Rightarrow> Some p | _ \<Rightarrow> None)"

definition set_pin :: "string \<Rightarrow> pin \<Rightarrow> trust_doc \<Rightarrow> trust_doc" where
  "set_pin dev p d = d\<lparr>td_pins := dset dev (PinEntry p) (td_pins d)\<rparr>"

definition pin_for :: "string \<Rightarrow> tstate \<Rightarrow> tstate \<times> (trust_error + pin option)" where
  "pin_for dev st =
     (if dev = [] then (st, Inr None) else with_doc (\<lambda>d. Keep (Inr (pin_of d dev))) st)"

definition pin_device_body ::
    "(string \<Rightarrow> string) \<Rightarrow> rat \<Rightarrow> string \<Rightarrow> string \<Rightarrow> string \<Rightarrow> string \<Rightarrow> trust_doc \<Rightarrow> pin body" where
  "pin_device_body fp now dev sign_key member_id own_member_id d =
     (case pin_of d dev of
        Some p \<Rightarrow> Keep (Inr p)
      | None \<Rightarrow>
          if MAX_DEVICES \<le> length (td_pins d) then Keep (Inl StoreFull)
          else
            (let p = \<lparr>pn_sign_key = sign_key, pn_enc_key = [], pn_member_id = member_id,
                      pn_at = int_time now, pn_approved = False, pn_dismissed_at = None\<rparr>
             in Save (record_notice now NOTICE_FIRST_SEEN dev
                        [(''memberId'', JStr member_id), (''fingerprint'', JStr (fp sign_key)),
                         (''own'', JBool (member_id \<noteq> [] \<and> member_id = own_member_id))]
                        (set_pin dev p d))
                  (Inr p)))"

definition pin_device ::
    "(string \<Rightarrow> string) \<Rightarrow> rat \<Rightarrow> string \<Rightarrow> string \<Rightarrow> string \<Rightarrow> string \<Rightarrow> tstate \<Rightarrow>
     tstate \<times> (trust_error + pin)" where
  "pin_device fp now dev sign_key member_id own_member_id =
     with_doc (pin_device_body fp now dev sign_key member_id own_member_id)"

definition approve_body :: "string \<Rightarrow> trust_doc \<Rightarrow> bool body" where
  "approve_body dev d =
     (case pin_of d dev of
        None \<Rightarrow> Keep (Inr False)
      | Some p \<Rightarrow> if pn_approved p then Keep (Inr False)
                  else Save (set_pin dev (p\<lparr>pn_approved := True\<rparr>) d) (Inr True))"

definition approve_device :: "string \<Rightarrow> tstate \<Rightarrow> tstate \<times> (trust_error + bool)" where
  "approve_device dev st = (if dev = [] then (st, Inr False) else with_doc (approve_body dev) st)"

definition block_names :: "string \<Rightarrow> string \<Rightarrow> (string \<times> string) option \<Rightarrow> bool" where
  "block_names dev mem e =
     (case e of
        None \<Rightarrow> False
      | Some (d, m) \<Rightarrow> (dev \<noteq> [] \<and> d = dev) \<or> (mem \<noteq> [] \<and> dev = [] \<and> m = mem))"

definition note_blocked_body :: "string \<Rightarrow> string \<Rightarrow> trust_doc \<Rightarrow> bool body" where
  "note_blocked_body dev mem d =
     (if \<exists>e \<in> set (td_blocked d). block_names dev mem e then Keep (Inr False)
      else Save (d\<lparr>td_blocked := td_blocked d @ [Some (dev, mem)]\<rparr>) (Inr True))"

definition note_blocked :: "string \<Rightarrow> string \<Rightarrow> tstate \<Rightarrow> tstate \<times> (trust_error + bool)" where
  "note_blocked dev mem st =
     (if dev = [] \<and> mem = [] then (st, Inr False) else with_doc (note_blocked_body dev mem) st)"

definition unblock_names :: "string \<Rightarrow> string \<Rightarrow> (string \<times> string) option \<Rightarrow> bool" where
  "unblock_names dev mem e =
     (case e of None \<Rightarrow> False | Some (d, m) \<Rightarrow> (dev \<noteq> [] \<and> d = dev) \<or> (mem \<noteq> [] \<and> m = mem))"

definition note_unblocked_body :: "string \<Rightarrow> string \<Rightarrow> trust_doc \<Rightarrow> bool body" where
  "note_unblocked_body dev mem d =
     (let kept = filter (\<lambda>e. \<not> unblock_names dev mem e) (td_blocked d)
      in if length kept = length (td_blocked d) then Keep (Inr False)
         else Save (d\<lparr>td_blocked := kept\<rparr>) (Inr True))"

definition note_unblocked :: "string \<Rightarrow> string \<Rightarrow> tstate \<Rightarrow> tstate \<times> (trust_error + bool)" where
  "note_unblocked dev mem = with_doc (note_unblocked_body dev mem)"

definition sender_blocked :: "string \<Rightarrow> string \<Rightarrow> trust_doc \<Rightarrow> bool" where
  "sender_blocked dev mem d =
     (\<exists>e \<in> set (td_blocked d).
        case e of None \<Rightarrow> False | Some (bd, bm) \<Rightarrow> (bd \<noteq> [] \<and> bd = dev) \<or> (bm \<noteq> [] \<and> bm = mem))"

definition is_blocked_locally :: "string \<Rightarrow> string \<Rightarrow> tstate \<Rightarrow> tstate \<times> bool" where
  "is_blocked_locally dev mem st =
     (case try_load st of (st1, None) \<Rightarrow> (st1, False) | (st1, Some d) \<Rightarrow> (st1, sender_blocked dev mem d))"

text \<open>A dismissal time of zero is false, as \<open>None\<close> is.\<close>

definition dismissed :: "pin \<Rightarrow> bool" where
  "dismissed p = (case pn_dismissed_at p of None \<Rightarrow> False | Some t \<Rightarrow> t \<noteq> 0)"

definition defer_body :: "rat \<Rightarrow> string \<Rightarrow> trust_doc \<Rightarrow> bool body" where
  "defer_body now dev d =
     (case pin_of d dev of
        None \<Rightarrow> Keep (Inr False)
      | Some p \<Rightarrow> if pn_approved p then Keep (Inr False)
                  else if dismissed p then Keep (Inr False)
                  else Save (set_pin dev (p\<lparr>pn_dismissed_at := Some (int_time now)\<rparr>) d) (Inr True))"

definition defer_device :: "rat \<Rightarrow> string \<Rightarrow> tstate \<Rightarrow> tstate \<times> (trust_error + bool)" where
  "defer_device now dev st = (if dev = [] then (st, Inr False) else with_doc (defer_body now dev) st)"

definition knock_body :: "string \<Rightarrow> trust_doc \<Rightarrow> bool body" where
  "knock_body dev d =
     (case pin_of d dev of
        None \<Rightarrow> Keep (Inr False)
      | Some p \<Rightarrow> if \<not> dismissed p then Keep (Inr False)
                  else Save (set_pin dev (p\<lparr>pn_dismissed_at := None\<rparr>) d) (Inr True))"

definition note_knock :: "string \<Rightarrow> tstate \<Rightarrow> tstate \<times> (trust_error + bool)" where
  "note_knock dev st = (if dev = [] then (st, Inr False) else with_doc (knock_body dev) st)"

definition pin_paired_body ::
    "(string \<Rightarrow> string) \<Rightarrow> rat \<Rightarrow> string \<Rightarrow> string \<Rightarrow> string \<Rightarrow> string \<Rightarrow> string \<Rightarrow> trust_doc \<Rightarrow> bool body" where
  "pin_paired_body fp now dev sign_key enc_key member_id own_member_id d =
     (case pin_of d dev of
        Some p \<Rightarrow> if pn_approved p then Keep (Inr False)
                  else Save (set_pin dev (p\<lparr>pn_approved := True\<rparr>) d) (Inr True)
      | None \<Rightarrow>
          if MAX_DEVICES \<le> length (td_pins d) then Keep (Inl StoreFull)
          else Save
            (record_notice now NOTICE_FIRST_SEEN dev
               [(''memberId'', JStr member_id), (''fingerprint'', JStr (fp sign_key)),
                (''ownMember'', JBool (own_member_id \<noteq> [] \<and> member_id = own_member_id)),
                (''paired'', JBool True)]
               (set_pin dev \<lparr>pn_sign_key = sign_key, pn_enc_key = enc_key, pn_member_id = member_id,
                  pn_at = int_time now, pn_approved = True, pn_dismissed_at = None\<rparr> d))
            (Inr True))"

definition pin_paired_device ::
    "(string \<Rightarrow> string) \<Rightarrow> rat \<Rightarrow> string \<Rightarrow> string \<Rightarrow> string \<Rightarrow> string \<Rightarrow> string \<Rightarrow> tstate \<Rightarrow>
     tstate \<times> (trust_error + bool)" where
  "pin_paired_device fp now dev sign_key enc_key member_id own_member_id st =
     (if dev = [] \<or> sign_key = [] \<or> enc_key = [] then (st, Inr False)
      else with_doc (pin_paired_body fp now dev sign_key enc_key member_id own_member_id) st)"

definition pinned_encryption_key :: "string \<Rightarrow> tstate \<Rightarrow> tstate \<times> (trust_error + string)" where
  "pinned_encryption_key dev st =
     (case pin_for dev st of
        (st1, Inl e) \<Rightarrow> (st1, Inl e)
      | (st1, Inr None) \<Rightarrow> (st1, Inr [])
      | (st1, Inr (Some p)) \<Rightarrow> (st1, Inr (pn_enc_key p)))"

definition legacy_pins :: "trust_doc \<Rightarrow> string list" where
  "legacy_pins d =
     sort [dev. (dev, e) \<leftarrow> td_pins d, (case e of PinEntry p \<Rightarrow> pn_enc_key p = [] | _ \<Rightarrow> False)]"

definition legacy_pinned_devices :: "tstate \<Rightarrow> tstate \<times> (trust_error + string list)" where
  "legacy_pinned_devices = with_doc (\<lambda>d. Keep (Inr (legacy_pins d)))"

record unapproved_row =
  ur_device_id :: string
  ur_member_id :: string
  ur_at :: int
  ur_fingerprint :: string
  ur_dismissed_at :: "int option"

definition unapproved_rows :: "(string \<Rightarrow> string) \<Rightarrow> trust_doc \<Rightarrow> unapproved_row list" where
  "unapproved_rows fp d =
     sort_key ur_at
       [\<lparr>ur_device_id = dev, ur_member_id = pn_member_id p, ur_at = pn_at p,
         ur_fingerprint = fp (pn_sign_key p), ur_dismissed_at = pn_dismissed_at p\<rparr>.
        (dev, e) \<leftarrow> td_pins d, p \<leftarrow> (case e of PinEntry q \<Rightarrow> [q] | _ \<Rightarrow> []), \<not> pn_approved p]"

definition unapproved_devices :: "(string \<Rightarrow> string) \<Rightarrow> tstate \<Rightarrow> tstate \<times> unapproved_row list" where
  "unapproved_devices fp st =
     (case try_load st of (st1, None) \<Rightarrow> (st1, []) | (st1, Some d) \<Rightarrow> (st1, unapproved_rows fp d))"

text \<open>The counts \<open>forget_device\<close> reports, and whether anything was found.\<close>

record forgotten_counts =
  fg_pins :: nat
  fg_notices :: nat
  fg_found :: bool

definition forget_body :: "string \<Rightarrow> trust_doc \<Rightarrow> forgotten_counts body" where
  "forget_body dev d =
     (let npins = (case dget (td_pins d) dev of None \<Rightarrow> 0 | Some NullEntry \<Rightarrow> 0 | Some _ \<Rightarrow> 1);
          kept = filter (\<lambda>n. no_device_id n \<noteq> dev) (td_notices d);
          nnot = length (td_notices d) - length kept;
          d' = d\<lparr>td_pins := dpop dev (td_pins d), td_notices := kept\<rparr>;
          found = (npins \<noteq> 0 \<or> nnot \<noteq> 0);
          r = Inr \<lparr>fg_pins = npins, fg_notices = nnot, fg_found = found\<rparr>
      in if found then Save d' r else Cached d' r)"

definition forget_device :: "string \<Rightarrow> tstate \<Rightarrow> tstate \<times> (trust_error + forgotten_counts)" where
  "forget_device dev st =
     (if dev = [] then (st, Inr \<lparr>fg_pins = 0, fg_notices = 0, fg_found = False\<rparr>)
      else with_doc (forget_body dev) st)"


section \<open>The recorded events\<close>

definition note_pairing ::
    "rat \<Rightarrow> string \<Rightarrow> string \<Rightarrow> string \<Rightarrow> tstate \<Rightarrow> tstate \<times> (trust_error + unit)" where
  "note_pairing now dev kind device_name =
     with_doc (\<lambda>d. Save (record_notice now NOTICE_PAIRING dev
        [(''pairing'', JStr kind), (''deviceName'', JStr device_name)] d) (Inr ()))"

definition note_remote_command ::
    "rat \<Rightarrow> string \<Rightarrow> string \<Rightarrow> string \<Rightarrow> string \<Rightarrow> tstate \<Rightarrow> tstate \<times> (trust_error + unit)" where
  "note_remote_command now dev device_name workspace pane_name =
     with_doc (\<lambda>d. Save (record_notice now NOTICE_REMOTE_COMMAND dev
        [(''deviceName'', JStr device_name), (''workspace'', JStr workspace),
         (''paneName'', JStr pane_name)] d) (Inr ()))"

definition note_plaintext_refused ::
    "rat \<Rightarrow> string \<Rightarrow> string \<Rightarrow> tstate \<Rightarrow> tstate \<times> (trust_error + unit)" where
  "note_plaintext_refused now dev msg_key =
     with_doc (\<lambda>d. Save (record_notice now NOTICE_PLAINTEXT_REFUSED dev
        [(''msgKey'', JStr msg_key)] d) (Inr ()))"

definition key_change_body ::
    "(string \<Rightarrow> string) \<Rightarrow> rat \<Rightarrow> string \<Rightarrow> string \<Rightarrow> string \<Rightarrow> string \<Rightarrow> trust_doc \<Rightarrow> unit body" where
  "key_change_body fp now dev pinned_key offered_key member_id d =
     (if \<exists>n \<in> set (td_notices d). no_kind n = NOTICE_KEY_CHANGED \<and> no_device_id n = dev
      then Keep (Inr ())
      else Save (record_notice now NOTICE_KEY_CHANGED dev
        [(''memberId'', JStr member_id), (''pinnedFingerprint'', JStr (fp pinned_key)),
         (''offeredFingerprint'', JStr (fp offered_key))] d) (Inr ()))"

definition note_key_change ::
    "(string \<Rightarrow> string) \<Rightarrow> rat \<Rightarrow> string \<Rightarrow> string \<Rightarrow> string \<Rightarrow> string \<Rightarrow> tstate \<Rightarrow>
     tstate \<times> (trust_error + unit)" where
  "note_key_change fp now dev pinned_key offered_key member_id =
     with_try () (key_change_body fp now dev pinned_key offered_key member_id)"


section \<open>The policy sequence\<close>

definition seq_of :: "trust_doc \<Rightarrow> string \<Rightarrow> int" where
  "seq_of d dev = (case dget (td_policy_seqs d) dev of Some n \<Rightarrow> n | None \<Rightarrow> 0)"

definition set_seq :: "string \<Rightarrow> int \<Rightarrow> trust_doc \<Rightarrow> trust_doc" where
  "set_seq dev n d = d\<lparr>td_policy_seqs := dset dev n (td_policy_seqs d)\<rparr>"

definition policy_seq :: "string \<Rightarrow> tstate \<Rightarrow> tstate \<times> (trust_error + int)" where
  "policy_seq dev = with_doc (\<lambda>d. Keep (Inr (seq_of d dev)))"

definition reserve_policy_seq :: "string \<Rightarrow> tstate \<Rightarrow> tstate \<times> (trust_error + int)" where
  "reserve_policy_seq dev =
     with_doc (\<lambda>d. let n = seq_of d dev + 1 in Save (set_seq dev n d) (Inr n))"

definition note_policy_seq :: "string \<Rightarrow> int \<Rightarrow> tstate \<Rightarrow> tstate \<times> (trust_error + unit)" where
  "note_policy_seq dev n =
     with_doc (\<lambda>d. if seq_of d dev < n then Save (set_seq dev n d) (Inr ()) else Keep (Inr ()))"

definition policy_unverified_body ::
    "rat \<Rightarrow> string \<Rightarrow> string \<Rightarrow> jval \<Rightarrow> trust_doc \<Rightarrow> unit body" where
  "policy_unverified_body now reason dev n d =
     (if \<exists>m \<in> set (td_notices d). no_kind m = NOTICE_POLICY_UNVERIFIED then Keep (Inr ())
      else Save (record_notice now NOTICE_POLICY_UNVERIFIED dev
        [(''reason'', JStr reason), (''seq'', n), (''expected'', JInt (seq_of d dev))] d) (Inr ()))"

definition note_policy_unverified ::
    "rat \<Rightarrow> string \<Rightarrow> string \<Rightarrow> jval \<Rightarrow> tstate \<Rightarrow> tstate \<times> (trust_error + unit)" where
  "note_policy_unverified now reason dev n = with_try () (policy_unverified_body now reason dev n)"

definition clear_notice_body :: "trust_doc \<Rightarrow> unit body" where
  "clear_notice_body d =
     (let kept = filter (\<lambda>n. no_kind n \<noteq> NOTICE_POLICY_UNVERIFIED) (td_notices d)
      in if length kept \<noteq> length (td_notices d) then Save (d\<lparr>td_notices := kept\<rparr>) (Inr ())
         else Keep (Inr ()))"

definition clear_policy_notice :: "tstate \<Rightarrow> tstate \<times> (trust_error + unit)" where
  "clear_policy_notice st =
     (case ts_cache st of None \<Rightarrow> (st, Inr ()) | Some d \<Rightarrow> run_body (clear_notice_body d) st)"


section \<open>Peers that have been sent ciphertext\<close>

definition is_encrypted_peer :: "string \<Rightarrow> tstate \<Rightarrow> tstate \<times> (trust_error + bool)" where
  "is_encrypted_peer dev = with_doc (\<lambda>d. Keep (Inr (dev \<in> set (td_encrypted_peers d))))"

definition encrypted_body :: "string \<Rightarrow> trust_doc \<Rightarrow> unit body" where
  "encrypted_body dev d =
     (if dev \<in> set (td_encrypted_peers d) then Keep (Inr ())
      else if MAX_DEVICES \<le> length (td_encrypted_peers d) then Keep (Inl StoreFull)
      else Save (d\<lparr>td_encrypted_peers := td_encrypted_peers d @ [dev]\<rparr>) (Inr ()))"

definition note_encrypted_peer :: "string \<Rightarrow> tstate \<Rightarrow> tstate \<times> (trust_error + unit)" where
  "note_encrypted_peer dev = with_doc (encrypted_body dev)"


section \<open>Messages already delivered\<close>

definition has_seen_message :: "string \<Rightarrow> tstate \<Rightarrow> tstate \<times> bool" where
  "has_seen_message k st =
     (if has_key k (ts_pending st) then (st, True)
      else (case try_load st of
              (st1, None) \<Rightarrow> (st1, False)
            | (st1, Some d) \<Rightarrow> (st1, has_key k (td_seen_messages d))))"

text \<open>
  What a flush leaves in the ledger: the batch merged in, expired entries gone, and then the oldest
  entries beyond the cap gone.
\<close>

definition dict_update :: "('k \<times> 'v) list \<Rightarrow> ('k \<times> 'v) list \<Rightarrow> ('k \<times> 'v) list" where
  "dict_update batch d = foldl (\<lambda>acc (k, v). dset k v acc) d batch"

definition drop_oldest :: "(string \<times> int) list \<Rightarrow> (string \<times> int) list" where
  "drop_oldest seen =
     (let victims = map fst (take (length seen - MAX_SEEN_MESSAGES) (sort_key snd seen))
      in filter (\<lambda>e. fst e \<notin> set victims) seen)"

definition merge_seen :: "rat \<Rightarrow> (string \<times> int) list \<Rightarrow> (string \<times> int) list \<Rightarrow> (string \<times> int) list" where
  "merge_seen now batch seen =
     (let live = filter (\<lambda>e. int_time now - SEEN_MESSAGE_TTL_S \<le> snd e) (dict_update batch seen)
      in if MAX_SEEN_MESSAGES < length live then drop_oldest live else live)"

definition flush_seen_locked :: "rat \<Rightarrow> tstate \<Rightarrow> tstate \<times> (trust_error + unit)" where
  "flush_seen_locked now st =
     (case try_load st of
        (st1, None) \<Rightarrow> (st1, Inr ())
      | (st1, Some d) \<Rightarrow>
          save_locked (d\<lparr>td_seen_messages := merge_seen now (ts_pending st1) (td_seen_messages d)\<rparr>) (Inr ())
            (st1\<lparr>ts_pending := [], ts_last_flush := now\<rparr>))"

definition note_seen_message :: "rat \<Rightarrow> string \<Rightarrow> tstate \<Rightarrow> tstate \<times> (trust_error + unit)" where
  "note_seen_message now k st =
     (let st1 = st\<lparr>ts_pending := dset k (int_time now) (ts_pending st),
                   ts_last_flush := (if ts_last_flush st = 0 then now else ts_last_flush st)\<rparr>
      in if SEEN_FLUSH_AFTER \<le> length (ts_pending st1) \<or> SEEN_FLUSH_SECONDS \<le> now - ts_last_flush st1
         then flush_seen_locked now st1 else (st1, Inr ()))"

definition flush_seen_messages :: "rat \<Rightarrow> tstate \<Rightarrow> tstate \<times> (trust_error + unit)" where
  "flush_seen_messages now st = (if ts_pending st \<noteq> [] then flush_seen_locked now st else (st, Inr ()))"


section \<open>Reading and dismissing notices, and starting over\<close>

definition notices :: "tstate \<Rightarrow> tstate \<times> notice list" where
  "notices st = (case try_load st of (st1, None) \<Rightarrow> (st1, []) | (st1, Some d) \<Rightarrow> (st1, td_notices d))"

text \<open>The search stops at the first notice with the key, dismissible or not.\<close>

definition dismiss_body :: "string \<Rightarrow> trust_doc \<Rightarrow> bool body" where
  "dismiss_body k d =
     (case dropWhile (\<lambda>n. no_key n \<noteq> k) (td_notices d) of
        [] \<Rightarrow> Keep (Inr False)
      | n # rest \<Rightarrow>
          if no_kind n \<notin> set DISMISSIBLE then Keep (Inr False)
          else Save (d\<lparr>td_notices := takeWhile (\<lambda>n. no_key n \<noteq> k) (td_notices d) @ rest\<rparr>) (Inr True))"

definition dismiss_notice :: "string \<Rightarrow> tstate \<Rightarrow> tstate \<times> (trust_error + bool)" where
  "dismiss_notice k = with_doc (dismiss_body k)"

definition rebuild_locked_store :: "tstate \<Rightarrow> tstate \<times> (trust_error + lock_reason)" where
  "rebuild_locked_store st =
     (let (st1, raised) =
            (if ts_locked st \<noteq> None then (st, None)
             else (case load_locked st of
                     (s, Inl VaultWrite) \<Rightarrow> (s, Some VaultWrite)
                   | (s, _) \<Rightarrow> (s, None)))
      in case raised of
           Some e \<Rightarrow> (st1, Inl e)
         | None \<Rightarrow>
             (case ts_locked st1 of
                None \<Rightarrow> (st1, Inl NotLocked)
              | Some why \<Rightarrow>
                  (let st2 = st1\<lparr>ts_transient := None, ts_failures := 0\<rparr>
                   in if ts_writable st2
                      then (st2\<lparr>ts_vault := NoSecret, ts_marker := False, ts_cache := None,
                                ts_locked := None, ts_pending := []\<rparr>, Inr why)
                      else (st2, Inl VaultWrite))))"

text \<open>A process that has just started: the module's globals as they are initialised.\<close>

definition restart :: "tstate \<Rightarrow> tstate" where
  "restart st = st\<lparr>ts_cache := None, ts_locked := None, ts_transient := None, ts_failures := 0,
     ts_pending := [], ts_last_flush := 0\<rparr>"

definition reset_for_test :: "tstate \<Rightarrow> tstate" where
  "reset_for_test st = (restart st)\<lparr>ts_marker := False\<rparr>"

definition fresh_state :: tstate where
  "fresh_state = \<lparr>ts_cache = None, ts_locked = None, ts_transient = None, ts_failures = 0,
     ts_pending = [], ts_last_flush = 0, ts_vault = NoSecret, ts_marker = False,
     ts_readable = True, ts_writable = True\<rparr>"

end
