(* ===== verification/Trust_Facts.thy ===== *)
theory Trust_Facts
  imports Trust_Store
begin

text \<open>
  What the trust store promises. The operations are the constructors of \<open>trust_op\<close>, with the environment
  (the vault becoming unreadable or unwritable, the process restarting) among them. \<open>op_doc\<close> is the
  abstract specification: the effect of an operation on the document alone. \<open>held_step\<close> is the refinement: whatever the
  vault does, both copies of the document (memory and vault) stay within what \<open>op_doc\<close> keeps. The locale \<open>promise\<close> turns a
  fact kept by \<open>op_doc\<close> into one that holds after every sequence of operations; it is interpreted once for
  each promise.
\<close>

section \<open>Operations\<close>

datatype trust_op =
    OpAdopt rat string string string
  | OpPin rat string string string string
  | OpApprove string
  | OpBlock string string
  | OpUnblock string string
  | OpDefer rat string
  | OpKnock string
  | OpPair rat string string string string string
  | OpForget string
  | OpPairing rat string string string
  | OpCommand rat string string string string
  | OpRefused rat string string
  | OpKeyChange rat string string string string
  | OpUnverified rat string string jval
  | OpClearPolicy
  | OpReserve string
  | OpNoteSeq string int
  | OpEncrypted string
  | OpSeen rat string
  | OpFlush rat
  | OpDismiss string
  | OpRead
  | OpRebuild
  | OpRestart
  | OpVault bool bool

fun trust_step ::
    "(string \<Rightarrow> string) \<Rightarrow> (string \<Rightarrow> string \<Rightarrow> string) \<Rightarrow> tstate \<Rightarrow> trust_op \<Rightarrow> tstate" where
  "trust_step fp digest st (OpAdopt now url token m) = fst (adopt_own_member digest now url token m st)"
| "trust_step fp digest st (OpPin now dev k m own) = fst (pin_device fp now dev k m own st)"
| "trust_step fp digest st (OpApprove dev) = fst (approve_device dev st)"
| "trust_step fp digest st (OpBlock dev m) = fst (note_blocked dev m st)"
| "trust_step fp digest st (OpUnblock dev m) = fst (note_unblocked dev m st)"
| "trust_step fp digest st (OpDefer now dev) = fst (defer_device now dev st)"
| "trust_step fp digest st (OpKnock dev) = fst (note_knock dev st)"
| "trust_step fp digest st (OpPair now dev k e m own) = fst (pin_paired_device fp now dev k e m own st)"
| "trust_step fp digest st (OpForget dev) = fst (forget_device dev st)"
| "trust_step fp digest st (OpPairing now dev kind name) = fst (note_pairing now dev kind name st)"
| "trust_step fp digest st (OpCommand now dev name ws pane) = fst (note_remote_command now dev name ws pane st)"
| "trust_step fp digest st (OpRefused now dev k) = fst (note_plaintext_refused now dev k st)"
| "trust_step fp digest st (OpKeyChange now dev k k' m) = fst (note_key_change fp now dev k k' m st)"
| "trust_step fp digest st (OpUnverified now why dev n) = fst (note_policy_unverified now why dev n st)"
| "trust_step fp digest st OpClearPolicy = fst (clear_policy_notice st)"
| "trust_step fp digest st (OpReserve dev) = fst (reserve_policy_seq dev st)"
| "trust_step fp digest st (OpNoteSeq dev n) = fst (note_policy_seq dev n st)"
| "trust_step fp digest st (OpEncrypted dev) = fst (note_encrypted_peer dev st)"
| "trust_step fp digest st (OpSeen now k) = fst (note_seen_message now k st)"
| "trust_step fp digest st (OpFlush now) = fst (flush_seen_messages now st)"
| "trust_step fp digest st (OpDismiss k) = fst (dismiss_notice k st)"
| "trust_step fp digest st OpRead = fst (load_locked st)"
| "trust_step fp digest st OpRebuild = fst (rebuild_locked_store st)"
| "trust_step fp digest st OpRestart = restart st"
| "trust_step fp digest st (OpVault r w) = st\<lparr>ts_readable := r, ts_writable := w\<rparr>"


section \<open>The effect on the document\<close>

definition body_doc :: "'a body \<Rightarrow> trust_doc \<Rightarrow> trust_doc" where
  "body_doc b d = (case b of Keep _ \<Rightarrow> d | Save d' _ \<Rightarrow> d' | Cached d' _ \<Rightarrow> d')"

lemma body_doc_simps [simp]:
  "body_doc (Keep r) d = d" "body_doc (Save d' r) d = d'" "body_doc (Cached d' r) d = d'"
  "body_doc (if c then b else b') d = (if c then body_doc b d else body_doc b' d)"
  by (simp_all add: body_doc_def)

fun op_doc ::
    "(string \<Rightarrow> string) \<Rightarrow> (string \<Rightarrow> string \<Rightarrow> string) \<Rightarrow> (string \<times> int) list \<Rightarrow> trust_op \<Rightarrow> trust_doc \<Rightarrow> trust_doc"
where
  "op_doc fp digest batch (OpAdopt now url token m) d = body_doc (adopt_body digest now url token m d) d"
| "op_doc fp digest batch (OpPin now dev k m own) d = body_doc (pin_device_body fp now dev k m own d) d"
| "op_doc fp digest batch (OpApprove dev) d = body_doc (approve_body dev d) d"
| "op_doc fp digest batch (OpBlock dev m) d = body_doc (note_blocked_body dev m d) d"
| "op_doc fp digest batch (OpUnblock dev m) d = body_doc (note_unblocked_body dev m d) d"
| "op_doc fp digest batch (OpDefer now dev) d = body_doc (defer_body now dev d) d"
| "op_doc fp digest batch (OpKnock dev) d = body_doc (knock_body dev d) d"
| "op_doc fp digest batch (OpPair now dev k e m own) d =
     (if dev = [] \<or> k = [] \<or> e = [] then d else body_doc (pin_paired_body fp now dev k e m own d) d)"
| "op_doc fp digest batch (OpForget dev) d = (if dev = [] then d else body_doc (forget_body dev d) d)"
| "op_doc fp digest batch (OpPairing now dev kind name) d =
     record_notice now NOTICE_PAIRING dev [(''pairing'', JStr kind), (''deviceName'', JStr name)] d"
| "op_doc fp digest batch (OpCommand now dev name ws pane) d =
     record_notice now NOTICE_REMOTE_COMMAND dev
       [(''deviceName'', JStr name), (''workspace'', JStr ws), (''paneName'', JStr pane)] d"
| "op_doc fp digest batch (OpRefused now dev k) d =
     record_notice now NOTICE_PLAINTEXT_REFUSED dev [(''msgKey'', JStr k)] d"
| "op_doc fp digest batch (OpKeyChange now dev k k' m) d = body_doc (key_change_body fp now dev k k' m d) d"
| "op_doc fp digest batch (OpUnverified now why dev n) d = body_doc (policy_unverified_body now why dev n d) d"
| "op_doc fp digest batch OpClearPolicy d = body_doc (clear_notice_body d) d"
| "op_doc fp digest batch (OpReserve dev) d = set_seq dev (seq_of d dev + 1) d"
| "op_doc fp digest batch (OpNoteSeq dev n) d = (if seq_of d dev < n then set_seq dev n d else d)"
| "op_doc fp digest batch (OpEncrypted dev) d = body_doc (encrypted_body dev d) d"
| "op_doc fp digest batch (OpSeen now k) d = d\<lparr>td_seen_messages := merge_seen now batch (td_seen_messages d)\<rparr>"
| "op_doc fp digest batch (OpFlush now) d = d\<lparr>td_seen_messages := merge_seen now batch (td_seen_messages d)\<rparr>"
| "op_doc fp digest batch (OpDismiss k) d = body_doc (dismiss_body k d) d"
| "op_doc fp digest batch _ d = d"

text \<open>
  \<open>held m P\<close>: \<open>P\<close> holds of the record in the vault, when there is a readable one, and of the copy in
  memory; with \<open>m\<close> the store is moreover settled, i.e. marked as initialised with a record that can be read.
  A store that need not be settled may be started over, so \<open>P\<close> then has to hold of the blank document too.
\<close>

definition held :: "bool \<Rightarrow> (trust_doc \<Rightarrow> bool) \<Rightarrow> tstate \<Rightarrow> bool" where
  "held m P st = ((m \<longrightarrow> ts_marker st \<and> parse_secret (ts_vault st) \<noteq> None) \<and>
     (\<forall>d. parse_secret (ts_vault st) = Some d \<longrightarrow> P d) \<and> (\<forall>d. ts_cache st = Some d \<longrightarrow> P d))"

lemma parse_NoSecret [simp]: "parse_secret NoSecret = None"
  by (simp add: parse_secret_def)

lemma load_held:
  assumes "held m P st" "m \<or> P blank_doc"
  shows "held m P (fst (load_locked st))"
    and "snd (load_locked st) = Inr d \<Longrightarrow> P d"
  using assms
  by (auto simp: held_def load_locked_def load_first_start_def write_doc_def Let_def
      split: option.splits if_splits)

lemma load_cached: "snd (load_locked st) = Inr d \<Longrightarrow> ts_cache (fst (load_locked st)) = Some d"
  by (auto simp: load_locked_def load_first_start_def write_doc_def Let_def split: option.splits if_splits)

lemma save_held: "held m P st \<Longrightarrow> P d \<Longrightarrow> held m P (fst (save_locked d r st))"
  by (auto simp: held_def save_locked_def write_doc_def)

lemma run_body_held:
  assumes "held m P st" "P (body_doc b d)"
  shows "held m P (fst (run_body b st))"
proof (cases b)
  case (Cached d' r)
  with assms show ?thesis by (simp add: run_body_def held_def)
qed (use assms in \<open>simp_all add: run_body_def save_held\<close>)

lemma with_doc_held:
  assumes st: "held m P st" "m \<or> P blank_doc" and f: "\<And>d. P d \<Longrightarrow> P (body_doc (f d) d)"
  shows "held m P (fst (with_doc f st))"
proof (cases "load_locked st")
  case (Pair st1 r)
  then show ?thesis
    using load_held [OF st] run_body_held [of m P st1 "f _"] f
    by (cases r) (auto simp: with_doc_def)
qed

lemma try_load_held:
  assumes "held m P st" "m \<or> P blank_doc"
  shows "held m P (fst (try_load st))"
    and "snd (try_load st) = Some d \<Longrightarrow> P d"
  using load_held [OF assms] by (auto simp: try_load_def split: prod.splits sum.splits)

lemma with_try_held:
  assumes st: "held m P st" "m \<or> P blank_doc" and f: "\<And>d. P d \<Longrightarrow> P (body_doc (f d) d)"
  shows "held m P (fst (with_try a f st))"
proof (cases "try_load st")
  case (Pair st1 r)
  then show ?thesis
    using try_load_held [OF st] run_body_held [of m P st1 "f _"] f
    by (cases r) (auto simp: with_try_def)
qed

lemma flush_held:
  assumes st: "held m P st" "m \<or> P blank_doc"
    and f: "\<And>d batch. P d \<Longrightarrow> P (d\<lparr>td_seen_messages := merge_seen now batch (td_seen_messages d)\<rparr>)"
  shows "held m P (fst (flush_seen_locked now st))"
proof (cases "try_load st")
  case (Pair st1 r)
  show ?thesis
  proof (cases r)
    case (Some d)
    with Pair have "held m P (st1\<lparr>ts_pending := [], ts_last_flush := now\<rparr>)" "P d"
      using try_load_held [OF st] by (auto simp: held_def)
    then show ?thesis by (simp add: flush_seen_locked_def Pair Some f save_held)
  qed (use Pair try_load_held [OF st] in \<open>simp add: flush_seen_locked_def\<close>)
qed

lemma rebuild_held:
  assumes "held False P st" "P blank_doc"
  shows "held False P (fst (rebuild_locked_store st))"
proof -
  have "held False P (fst (load_locked st))" using load_held [of False P st] assms by simp
  then show ?thesis using assms(1)
    by (auto simp: rebuild_locked_store_def held_def Let_def split: prod.splits sum.splits trust_error.splits option.splits)
qed

lemma with_doc_guard_held:
  assumes st: "held m P st" "m \<or> P blank_doc" and f: "\<And>d. \<not> c \<Longrightarrow> P d \<Longrightarrow> P (body_doc (f d) d)"
  shows "held m P (fst (if c then (st, r) else with_doc f st))"
proof (cases c)
  case False
  then show ?thesis by (simp add: with_doc_held [OF st f])
qed (use st in simp)

lemmas op_defs = adopt_own_member_def pin_device_def approve_device_def note_blocked_def note_unblocked_def
  defer_device_def note_knock_def pin_paired_device_def forget_device_def note_pairing_def
  note_remote_command_def note_plaintext_refused_def note_key_change_def note_policy_unverified_def
  reserve_policy_seq_def note_policy_seq_def note_encrypted_peer_def dismiss_notice_def

text \<open>The refinement: a step keeps what the effect of its operation on the document keeps.\<close>

lemma held_step:
  assumes st: "held m P st" "m \<or> P blank_doc" and re: "op \<noteq> OpRebuild \<or> \<not> m"
    and f: "\<And>d batch. P d \<Longrightarrow> P (op_doc fp digest batch op d)"
  shows "held m P (trust_step fp digest st op)"
proof -
  note fd = f [where batch = "[]"]
  note w = with_doc_held [OF st] with_doc_guard_held [OF st] with_try_held [OF st]
  show ?thesis
  proof (cases op)
    case OpRebuild
    then show ?thesis using rebuild_held [of P st] st re by simp
  next
    case (OpSeen now k)
    from st have "held m P (st\<lparr>ts_pending := pend, ts_last_flush := t\<rparr>)" for pend t by (simp add: held_def)
    then show ?thesis using flush_held [of m P _ now] st f
      by (simp add: OpSeen note_seen_message_def Let_def)
  next
    case (OpFlush now)
    show ?thesis using flush_held [OF st, of now] st f by (simp add: flush_seen_messages_def OpFlush)
  next
    case OpClearPolicy
    show ?thesis
    proof (cases "ts_cache st")
      case (Some d)
      have "P (body_doc (clear_notice_body d) d)" using fd [of d] st(1) Some by (simp add: OpClearPolicy held_def)
      then show ?thesis using run_body_held [OF st(1)] by (simp add: OpClearPolicy clear_policy_notice_def Some)
    qed (use st in \<open>simp add: OpClearPolicy clear_policy_notice_def\<close>)
  next
    case OpRead
    then show ?thesis using load_held [OF st] by simp
  next
    case OpRestart
    then show ?thesis using st by (simp add: restart_def held_def)
  next
    case (OpVault r w)
    then show ?thesis using st by (simp add: held_def)
  qed ((insert fd, hypsubst, unfold trust_step.simps op_defs, rule w, simp add: Let_def if_distrib [of P])[1])+
qed


section \<open>Promises\<close>

text \<open>
  A promise is a fact \<open>P\<close> about the document that every permitted operation keeps. \<open>m\<close> says whether the store
  must stay settled for it; then rebuilding is not permitted.
\<close>

locale promise =
  fixes fp :: "string \<Rightarrow> string"
    and digest :: "string \<Rightarrow> string \<Rightarrow> string"
    and m :: bool
    and P :: "trust_doc \<Rightarrow> bool"
    and permitted :: "trust_op \<Rightarrow> bool"
  assumes blank: "m \<or> P blank_doc"
    and no_rebuild: "permitted OpRebuild \<Longrightarrow> \<not> m"
    and keeps: "permitted op \<Longrightarrow> P d \<Longrightarrow> P (op_doc fp digest batch op d)"
begin

lemma held_run: "held m P st \<Longrightarrow> list_all permitted ops \<Longrightarrow> held m P (run_ops (trust_step fp digest) st ops)"
proof (induction ops arbitrary: st)
  case (Cons op ops)
  have "held m P (trust_step fp digest st op)"
    by (rule held_step) (use Cons.prems blank no_rebuild keeps in auto)
  with Cons show ?case by simp
qed simp

lemma loaded:
  "held m P st \<Longrightarrow> list_all permitted ops \<Longrightarrow>
   snd (load_locked (run_ops (trust_step fp digest) st ops)) = Inr d \<Longrightarrow> P d"
  using held_run blank load_held(2) by blast

end

lemma record_notice_fields [simp]:
  "td_pins (record_notice now k dev det d) = td_pins d"
  "td_own_members (record_notice now k dev det d) = td_own_members d"
  "td_policy_seqs (record_notice now k dev det d) = td_policy_seqs d"
  "td_blocked (record_notice now k dev det d) = td_blocked d"
  "td_encrypted_peers (record_notice now k dev det d) = td_encrypted_peers d"
  "td_seen_messages (record_notice now k dev det d) = td_seen_messages d"
  "pin_of (record_notice now k dev det d) dv = pin_of d dv"
  "seq_of (record_notice now k dev det d) dv = seq_of d dv"
  by (simp_all add: record_notice_def pin_of_def seq_of_def)

lemma set_pin_fields [simp]:
  "td_own_members (set_pin dev p d) = td_own_members d"
  "td_policy_seqs (set_pin dev p d) = td_policy_seqs d"
  "td_blocked (set_pin dev p d) = td_blocked d"
  "td_encrypted_peers (set_pin dev p d) = td_encrypted_peers d"
  "td_seen_messages (set_pin dev p d) = td_seen_messages d"
  "td_notices (set_pin dev p d) = td_notices d"
  "pin_of (set_pin dev p d) dv = (if dv = dev then Some p else pin_of d dv)"
  "seq_of (set_pin dev p d) dv = seq_of d dv"
  by (simp_all add: set_pin_def pin_of_def seq_of_def)

lemma set_seq_fields [simp]:
  "td_pins (set_seq dev n d) = td_pins d"
  "td_own_members (set_seq dev n d) = td_own_members d"
  "td_blocked (set_seq dev n d) = td_blocked d"
  "td_encrypted_peers (set_seq dev n d) = td_encrypted_peers d"
  "td_seen_messages (set_seq dev n d) = td_seen_messages d"
  "td_notices (set_seq dev n d) = td_notices d"
  "pin_of (set_seq dev n d) dv = pin_of d dv"
  "seq_of (set_seq dev n d) dv = (if dv = dev then n else seq_of d dv)"
  by (simp_all add: set_seq_def pin_of_def seq_of_def)

lemma other_fields [simp]:
  "pin_of (d\<lparr>td_own_members := a\<rparr>) dv = pin_of d dv" "seq_of (d\<lparr>td_own_members := a\<rparr>) dv = seq_of d dv"
  "pin_of (d\<lparr>td_blocked := b\<rparr>) dv = pin_of d dv" "seq_of (d\<lparr>td_blocked := b\<rparr>) dv = seq_of d dv"
  "pin_of (d\<lparr>td_encrypted_peers := c\<rparr>) dv = pin_of d dv" "seq_of (d\<lparr>td_encrypted_peers := c\<rparr>) dv = seq_of d dv"
  "pin_of (d\<lparr>td_seen_messages := e\<rparr>) dv = pin_of d dv" "seq_of (d\<lparr>td_seen_messages := e\<rparr>) dv = seq_of d dv"
  "pin_of (d\<lparr>td_notices := f\<rparr>) dv = pin_of d dv" "seq_of (d\<lparr>td_notices := f\<rparr>) dv = seq_of d dv"
  "seq_of (d\<lparr>td_pins := g\<rparr>) dv = seq_of d dv"
  "pin_of (d\<lparr>td_pins := dpop dev (td_pins d)\<rparr>) dv = (if dv = dev then None else pin_of d dv)"
  by (simp_all add: pin_of_def seq_of_def)

lemmas body_defs = adopt_body_def pin_device_body_def approve_body_def note_blocked_body_def
  note_unblocked_body_def defer_body_def knock_body_def pin_paired_body_def forget_body_def
  key_change_body_def policy_unverified_body_def clear_notice_body_def encrypted_body_def dismiss_body_def Let_def

lemma seq_of_op_doc: "seq_of d dev \<le> seq_of (op_doc fp digest batch op d) dev"
  by (cases op) (auto simp: body_defs split: option.splits list.splits)

lemma encrypted_op_doc: "dev \<in> set (td_encrypted_peers d) \<Longrightarrow> dev \<in> set (td_encrypted_peers (op_doc fp digest batch op d))"
  by (cases op) (auto simp: body_defs split: option.splits list.splits)

interpretation seq_floor:
  promise fp digest True "\<lambda>d. n \<le> seq_of d dev" "\<lambda>op. op \<noteq> OpRebuild" for fp digest n dev
  by unfold_locales (auto intro: order_trans [OF _ seq_of_op_doc])

interpretation stays_encrypted:
  promise fp digest True "\<lambda>d. dev \<in> set (td_encrypted_peers d)" "\<lambda>op. op \<noteq> OpRebuild" for fp digest dev
  by unfold_locales (auto intro: encrypted_op_doc)

text \<open>A key once pinned: the pin of the device still carries these keys, and its approval if it had one.\<close>

definition pinned_as :: "string \<Rightarrow> string \<Rightarrow> string \<Rightarrow> string \<Rightarrow> bool \<Rightarrow> trust_doc \<Rightarrow> bool" where
  "pinned_as dev k e mem appr d =
     (case pin_of d dev of
        None \<Rightarrow> False
      | Some p \<Rightarrow> pn_sign_key p = k \<and> pn_enc_key p = e \<and> pn_member_id p = mem \<and> (appr \<longrightarrow> pn_approved p))"

definition approved_in :: "string \<Rightarrow> trust_doc \<Rightarrow> bool" where
  "approved_in dev d = (case pin_of d dev of None \<Rightarrow> False | Some p \<Rightarrow> pn_approved p)"

fun vouches_for :: "string \<Rightarrow> trust_op \<Rightarrow> bool" where
  "vouches_for dev (OpApprove d) = (d = dev)"
| "vouches_for dev (OpPair now d k e m own) = (d = dev)"
| "vouches_for dev _ = False"

lemma blank_unapproved [simp]: "\<not> approved_in dev blank_doc"
  by (simp add: approved_in_def pin_of_def blank_doc_def)

lemma pinned_op_doc:
  "pinned_as dev k e mem appr d \<Longrightarrow> op \<noteq> OpForget dev \<Longrightarrow> pinned_as dev k e mem appr (op_doc fp digest batch op d)"
  by (cases op) (auto simp: body_defs pinned_as_def split: option.splits list.splits)

lemma approved_op_doc:
  "\<not> approved_in dev d \<Longrightarrow> \<not> vouches_for dev op \<Longrightarrow> \<not> approved_in dev (op_doc fp digest batch op d)"
  by (cases op) (auto simp: body_defs approved_in_def split: option.splits list.splits)

interpretation stays_pinned:
  promise fp digest True "pinned_as dev k e mem appr" "\<lambda>op. op \<noteq> OpRebuild \<and> op \<noteq> OpForget dev"
  for fp digest dev k e mem appr
  by unfold_locales (auto intro: pinned_op_doc)

interpretation stays_unapproved:
  promise fp digest False "\<lambda>d. \<not> approved_in dev d" "\<lambda>op. \<not> vouches_for dev op" for fp digest dev
  by unfold_locales (simp_all add: approved_op_doc)


section \<open>What a successful call leaves behind\<close>

text \<open>A settled store that cannot be loaded reports a lock, nothing else.\<close>

lemma settled_load_error: "held True P st \<Longrightarrow> snd (load_locked st) = Inl e \<Longrightarrow> \<exists>why. e = Locked why"
  by (auto simp: held_def load_locked_def Let_def split: option.splits if_splits)

lemma load_marker: "ts_marker st \<Longrightarrow> ts_marker (fst (load_locked st))"
  by (auto simp: load_locked_def load_first_start_def write_doc_def Let_def split: option.splits if_splits)

lemma save_ok:
  "save_locked d r st = (st1, Inr x) \<Longrightarrow>
   r = Inr x \<and> ts_cache st1 = Some d \<and> parse_secret (ts_vault st1) = Some d \<and> ts_marker st1 = ts_marker st"
  by (auto simp: save_locked_def write_doc_def split: if_splits)

text \<open>
  A call that saved and returned normally: the document its body computed is in memory and in the vault.
\<close>

lemma with_doc_saved:
  assumes "with_doc f st = (st1, Inr x)" "\<And>d. snd (load_locked st) = Inr d \<Longrightarrow> \<exists>d'. f d = Save d' (Inr x) \<and> P d'"
    "ts_marker st1"
  shows "held True P st1"
proof (cases "load_locked st")
  case (Pair st0 r)
  with assms(1) obtain d where r: "r = Inr d" by (cases r) (auto simp: with_doc_def)
  with Pair assms(2) obtain d' where "f d = Save d' (Inr x)" "P d'" by auto
  with Pair r assms(1) have "save_locked d' (Inr x) st0 = (st1, Inr x)" by (simp add: with_doc_def run_body_def)
  from save_ok [OF this] \<open>P d'\<close> assms(3) show ?thesis by (simp add: held_def)
qed

lemma with_doc_keep:
  "with_doc (\<lambda>d. Keep (g d)) st =
     (fst (load_locked st), case snd (load_locked st) of Inl e \<Rightarrow> Inl e | Inr d \<Rightarrow> g d)"
  by (auto simp: with_doc_def run_body_def split: prod.splits sum.splits)

text \<open>Memory and vault agree, as they do unless a write has failed.\<close>

definition synced :: "tstate \<Rightarrow> bool" where
  "synced st = (case ts_cache st of None \<Rightarrow> True | Some d \<Rightarrow> parse_secret (ts_vault st) = Some d)"

lemma load_synced:
  "synced st \<Longrightarrow> snd (load_locked st) = Inr d \<Longrightarrow> parse_secret (ts_vault (fst (load_locked st))) = Some d"
  by (auto simp: synced_def load_locked_def load_first_start_def write_doc_def Let_def split: option.splits if_splits)

lemma encrypted_recorded:
  assumes "note_encrypted_peer dev st = (st1, Inr ())" "ts_marker st1" "synced st"
  shows "held True (\<lambda>d. dev \<in> set (td_encrypted_peers d)) st1"
proof -
  obtain st0 d where ld: "load_locked st = (st0, Inr d)"
    using assms(1) by (cases "load_locked st"; cases "snd (load_locked st)") (auto simp: note_encrypted_peer_def with_doc_def)
  then have b: "run_body (encrypted_body dev d) st0 = (st1, Inr ())"
    using assms(1) by (simp add: note_encrypted_peer_def with_doc_def)
  show ?thesis
  proof (cases "dev \<in> set (td_encrypted_peers d)")
    case True
    with b have "st1 = st0" by (simp add: encrypted_body_def run_body_def)
    then show ?thesis using True ld assms(2) load_synced [OF assms(3), of d] load_cached [of st d]
      by (simp add: held_def)
  next
    case False
    with b have "save_locked (d\<lparr>td_encrypted_peers := td_encrypted_peers d @ [dev]\<rparr>) (Inr ()) st0 = (st1, Inr ())"
      by (auto simp: encrypted_body_def run_body_def split: if_splits)
    from save_ok [OF this] assms(2) show ?thesis by (auto simp: held_def)
  qed
qed

lemma reserve_result:
  "snd (reserve_policy_seq dev st) = Inr n \<Longrightarrow> \<exists>d. snd (load_locked st) = Inr d \<and> n = seq_of d dev + 1"
  by (auto simp: reserve_policy_seq_def with_doc_def run_body_def save_locked_def write_doc_def Let_def
      split: prod.splits sum.splits if_splits)

lemma pair_result:
  assumes "pin_paired_device fp now dev k e mem own st = (st1, Inr True)" "ts_marker st1"
  shows "dev \<noteq> []"
    and "held True (approved_in dev) st1"
    and "\<exists>d. held True (\<lambda>d'. d' = d) st1"
proof -
  from assms(1) have ne: "dev \<noteq> []" "k \<noteq> []" "e \<noteq> []"
    and w: "with_doc (pin_paired_body fp now dev k e mem own) st = (st1, Inr True)"
    by (auto simp: pin_paired_device_def split: if_splits)
  show "dev \<noteq> []" by fact
  obtain st0 d where ld: "load_locked st = (st0, Inr d)"
    using w by (cases "load_locked st"; cases "snd (load_locked st)") (auto simp: with_doc_def)
  obtain d' where b: "pin_paired_body fp now dev k e mem own d = Save d' (Inr True)" "approved_in dev d'"
    using w ld by (auto simp: pin_paired_body_def with_doc_def run_body_def approved_in_def split: option.splits if_splits)
  show "held True (approved_in dev) st1"
    by (rule with_doc_saved [OF w]) (use ld b assms(2) in auto)
  show "\<exists>d. held True (\<lambda>d'. d' = d) st1"
    by (rule exI [of _ d'], rule with_doc_saved [OF w]) (use ld b assms(2) in auto)
qed

lemma pin_for_loaded:
  "dev \<noteq> [] \<Longrightarrow> pin_for dev st =
     (fst (load_locked st), case snd (load_locked st) of Inl e \<Rightarrow> Inl e | Inr d \<Rightarrow> Inr (pin_of d dev))"
  by (simp add: pin_for_def with_doc_keep)

lemma held_mono: "held m P st \<Longrightarrow> (\<And>d. P d \<Longrightarrow> Q d) \<Longrightarrow> held m Q st"
  by (auto simp: held_def)

lemma held_conj: "held m P st \<Longrightarrow> held m Q st \<Longrightarrow> held m (\<lambda>d. P d \<and> Q d) st"
  by (auto simp: held_def)


section \<open>Bounds\<close>

lemma length_evict: "length (evict ns) \<le> MAX_NOTICES"
proof (induction ns rule: evict.induct)
  case (1 ns)
  then show ?case by (subst evict.simps) simp
qed

lemma evict_small: "length ns \<le> MAX_NOTICES \<Longrightarrow> evict ns = ns"
  by (simp add: evict.simps)

lemma keys_dict_update: "distinct (keys d) \<Longrightarrow> distinct (keys (dict_update b d))"
  unfolding dict_update_def by (induction b arbitrary: d) (auto intro: distinct_dset)

lemma length_drop_oldest:
  assumes "distinct (keys seen)"
  shows "length (drop_oldest seen) \<le> MAX_SEEN_MESSAGES"
proof -
  let ?n = "length seen - MAX_SEEN_MESSAGES"
  let ?v = "map fst (take ?n (sort_key snd seen))"
  have dk: "distinct (keys (sort_key snd seen))"
    using assms by (metis distinct_map distinct_sort set_sort)
  have "set ?v \<subseteq> set (keys seen)" by (force dest: in_set_takeD)
  have "distinct ?v" using dk by (simp add: take_map [symmetric])
  have "length (drop_oldest seen) = card (set (keys (filter (\<lambda>e. fst e \<notin> set ?v) seen)))"
    using assms distinct_keys_filter [OF assms] unfolding drop_oldest_def Let_def
    by (metis distinct_card length_map)
  also have "set (keys (filter (\<lambda>e. fst e \<notin> set ?v) seen)) = set (keys seen) - set ?v" by auto
  also have "card \<dots> = length seen - ?n"
    using \<open>set ?v \<subseteq> _\<close> \<open>distinct ?v\<close> assms
    by (simp add: card_Diff_subset distinct_card del: set_map)
  finally show ?thesis by simp
qed

lemma keys_merge_seen: "distinct (keys d) \<Longrightarrow> distinct (keys (merge_seen now b d))"
  by (auto simp: merge_seen_def drop_oldest_def Let_def intro!: distinct_keys_filter keys_dict_update)

lemma length_merge_seen: "distinct (keys d) \<Longrightarrow> length (merge_seen now b d) \<le> MAX_SEEN_MESSAGES"
  unfolding merge_seen_def Let_def
  by (auto intro!: length_drop_oldest distinct_keys_filter keys_dict_update)

definition doc_bounded :: "trust_doc \<Rightarrow> bool" where
  "doc_bounded d =
     (distinct (keys (td_pins d)) \<and> length (td_pins d) \<le> MAX_DEVICES \<and>
      distinct (td_encrypted_peers d) \<and> length (td_encrypted_peers d) \<le> MAX_DEVICES \<and>
      distinct (keys (td_seen_messages d)) \<and> length (td_seen_messages d) \<le> MAX_SEEN_MESSAGES \<and>
      distinct (keys (td_own_members d)) \<and> distinct (keys (td_policy_seqs d)) \<and>
      length (td_notices d) \<le> MAX_NOTICES)"

lemma length_dset: "length (dset k v d) = (if has_key k d then length d else Suc (length d))"
  by (induction d) auto

lemma length_dset_new: "length d < n \<Longrightarrow> length (dset k v d) \<le> n"
  by (simp add: length_dset)

lemma length_dset_old: "dget d k = Some w \<Longrightarrow> length (dset k v d) = length d"
  by (auto simp: length_dset dest: dget_has_key)

lemma pin_of_dget: "pin_of d dev = Some p \<Longrightarrow> dget (td_pins d) dev = Some (PinEntry p)"
  by (auto simp: pin_of_def split: option.splits pin_entry.splits)

lemma blank_bounded [simp]: "doc_bounded blank_doc"
  by (simp add: doc_bounded_def blank_doc_def)

lemma bounded_record: "doc_bounded d \<Longrightarrow> doc_bounded (record_notice now k dev det d)"
  by (simp add: doc_bounded_def record_notice_def length_evict)

lemma bounded_set_pin:
  "doc_bounded d \<Longrightarrow> pin_of d dev = Some q \<or> length (td_pins d) < MAX_DEVICES \<Longrightarrow> doc_bounded (set_pin dev p d)"
  by (auto simp: doc_bounded_def set_pin_def length_dset_old length_dset_new distinct_dset dest!: pin_of_dget)

lemma bounded_revise: "doc_bounded d \<Longrightarrow> pin_of d dev = Some q \<Longrightarrow> doc_bounded (set_pin dev p d)"
  by (rule bounded_set_pin) auto

lemma bounded_op_doc: "doc_bounded d \<Longrightarrow> doc_bounded (op_doc fp digest batch op d)"
proof -
  assume b: "doc_bounded d"
  show ?thesis
  proof (cases op)
    case (OpApprove dev)
    then show ?thesis using b by (auto simp: approve_body_def bounded_revise split: option.splits)
  next
    case (OpDefer now dev)
    then show ?thesis using b by (auto simp: defer_body_def bounded_revise split: option.splits)
  next
    case (OpKnock dev)
    then show ?thesis using b by (auto simp: knock_body_def bounded_revise split: option.splits)
  next
    case (OpDismiss k)
    show ?thesis
    proof (cases "dropWhile (\<lambda>n. no_key n \<noteq> k) (td_notices d)")
      case (Cons n rest)
      from arg_cong [OF takeWhile_dropWhile_id [of "\<lambda>n. no_key n \<noteq> k" "td_notices d"], of length] Cons
      show ?thesis using b by (auto simp: OpDismiss doc_bounded_def dismiss_body_def)
    next
      case Nil
      then have "dismiss_body k d = Keep (Inr False)" unfolding dismiss_body_def by (simp only: list.case)
      with b show ?thesis by (simp add: OpDismiss)
    qed
  qed (use b in \<open>auto simp: body_defs not_le bounded_record bounded_set_pin set_seq_def length_evict length_merge_seen keys_merge_seen
      doc_bounded_def [of "_\<lparr>td_own_members := _\<rparr>"] doc_bounded_def [of "_\<lparr>td_blocked := _\<rparr>"]
      doc_bounded_def [of "_\<lparr>td_notices := _\<rparr>"] doc_bounded_def [of "_\<lparr>td_encrypted_peers := _\<rparr>"]
      doc_bounded_def [of "_\<lparr>td_seen_messages := _\<rparr>"] doc_bounded_def [of "_\<lparr>td_policy_seqs := _\<rparr>"]
      doc_bounded_def [of d] distinct_dset distinct_dpop length_dpop_le
      intro: le_trans [OF length_filter_le] le_trans [OF length_dpop_le]
      split: option.splits\<close>)
qed

interpretation stays_bounded: promise fp digest False doc_bounded "\<lambda>op. True" for fp digest
  by unfold_locales (simp_all add: bounded_op_doc)


section \<open>Locks\<close>

text \<open>A settled lock and a cached document exclude each other.\<close>

definition lock_ok :: "tstate \<Rightarrow> bool" where
  "lock_ok st = (ts_locked st \<noteq> None \<longrightarrow> ts_cache st = None \<and> ts_marker st)"

lemma load_lock_ok: "lock_ok st \<Longrightarrow> lock_ok (fst (load_locked st))"
  by (auto simp: lock_ok_def load_locked_def load_first_start_def write_doc_def Let_def split: option.splits if_splits)

lemma load_unlocked: "lock_ok st \<Longrightarrow> snd (load_locked st) = Inr d \<Longrightarrow> ts_locked (fst (load_locked st)) = None"
  by (auto simp: lock_ok_def load_locked_def load_first_start_def write_doc_def Let_def split: option.splits if_splits)

lemma run_body_locked [simp]: "ts_locked (fst (run_body b st)) = ts_locked st"
  by (cases b) (auto simp: run_body_def save_locked_def write_doc_def)

lemma unlocked_ok: "ts_locked st = None \<Longrightarrow> lock_ok st"
  by (simp add: lock_ok_def)

lemma with_doc_lock_ok: "lock_ok st \<Longrightarrow> lock_ok (fst (with_doc f st))"
proof (cases "load_locked st")
  case (Pair st1 r)
  assume "lock_ok st"
  with Pair show ?thesis using load_lock_ok [of st] load_unlocked [of st]
    by (cases r) (auto simp: with_doc_def intro: unlocked_ok)
qed

lemma with_try_lock_ok: "lock_ok st \<Longrightarrow> lock_ok (fst (with_try a f st))"
proof (cases "load_locked st")
  case (Pair st1 r)
  assume "lock_ok st"
  with Pair show ?thesis using load_lock_ok [of st] load_unlocked [of st]
    by (cases r) (auto simp: with_try_def try_load_def intro: unlocked_ok)
qed

lemma flush_lock_ok: "lock_ok st \<Longrightarrow> lock_ok (fst (flush_seen_locked now st))"
proof (cases "load_locked st")
  case (Pair st1 r)
  assume "lock_ok st"
  with Pair show ?thesis using load_lock_ok [of st] load_unlocked [of st]
    by (cases r) (auto simp: flush_seen_locked_def try_load_def save_locked_def write_doc_def intro: unlocked_ok)
qed

lemma rebuild_lock_ok: "lock_ok st \<Longrightarrow> lock_ok (fst (rebuild_locked_store st))"
  using load_lock_ok [of st]
  by (auto simp: rebuild_locked_store_def lock_ok_def Let_def split: prod.splits sum.splits trust_error.splits option.splits)

lemma lock_ok_step:
  assumes "lock_ok st"
  shows "lock_ok (trust_step fp digest st op)"
proof (cases op)
  case (OpSeen now k)
  have "lock_ok (st\<lparr>ts_pending := p, ts_last_flush := t\<rparr>)" for p t using assms by (simp add: lock_ok_def)
  then show ?thesis by (simp add: OpSeen note_seen_message_def Let_def flush_lock_ok)
next
  case OpClearPolicy
  then show ?thesis using assms by (auto simp: clear_policy_notice_def lock_ok_def split: option.splits)
next
  case OpRebuild
  then show ?thesis using assms by (simp add: rebuild_lock_ok)
qed (use assms in \<open>simp_all add: op_defs with_doc_lock_ok with_try_lock_ok flush_lock_ok load_lock_ok
      flush_seen_messages_def\<close>, simp_all add: lock_ok_def restart_def)

definition trust_inv :: "tstate \<Rightarrow> bool" where
  "trust_inv st = (lock_ok st \<and> held False doc_bounded st)"

interpretation trust_sm: state_machine fresh_state "trust_step fp digest" trust_inv for fp digest
proof unfold_locales
  show "trust_inv fresh_state" by (simp add: trust_inv_def lock_ok_def held_def fresh_state_def)
next
  fix s op
  assume "trust_inv s"
  then show "trust_inv (trust_step fp digest s op)"
    using stays_bounded.held_run [of s "[op]" fp digest] by (simp add: trust_inv_def lock_ok_step)
qed


section \<open>A lost record, and reads that fail\<close>

text \<open>An initialised machine whose record in the vault is \<open>v\<close>, which cannot be parsed, with nothing in memory.\<close>

definition lost :: "secret \<Rightarrow> tstate \<Rightarrow> bool" where
  "lost v st = (ts_marker st \<and> ts_cache st = None \<and> ts_vault st = v \<and> parse_secret v = None)"

lemma lost_load:
  "lost v st \<Longrightarrow> lost v (fst (load_locked st)) \<and> (\<exists>why. snd (load_locked st) = Inl (Locked why))"
  by (auto simp: lost_def load_locked_def Let_def split: option.splits)

lemma lost_with_doc: "lost v st \<Longrightarrow> lost v (fst (with_doc f st))"
  using lost_load [of v st] by (auto simp: with_doc_def split: prod.splits sum.splits)

lemma lost_with_try: "lost v st \<Longrightarrow> lost v (fst (with_try a f st))"
  using lost_load [of v st] by (auto simp: with_try_def try_load_def split: prod.splits sum.splits option.splits)

lemma lost_flush: "lost v st \<Longrightarrow> lost v (fst (flush_seen_locked now st))"
  using lost_load [of v st] by (auto simp: flush_seen_locked_def try_load_def split: prod.splits sum.splits option.splits)

lemma lost_step:
  assumes "lost v st" "op \<noteq> OpRebuild"
  shows "lost v (trust_step fp digest st op)"
proof (cases op)
  case (OpSeen now k)
  have "lost v (st\<lparr>ts_pending := p, ts_last_flush := t\<rparr>)" for p t using assms(1) by (simp add: lost_def)
  then show ?thesis by (simp add: OpSeen note_seen_message_def Let_def lost_flush)
qed (use assms in \<open>simp_all add: op_defs lost_with_doc lost_with_try lost_flush lost_load flush_seen_messages_def
      clear_policy_notice_def\<close>, simp_all add: lost_def restart_def)

lemma lost_run: "lost v st \<Longrightarrow> list_all (\<lambda>op. op \<noteq> OpRebuild) ops \<Longrightarrow> lost v (run_ops (trust_step fp digest) st ops)"
  by (induction ops arbitrary: st) (auto intro: lost_step)

lemma failing_reads:
  assumes "ts_marker st" "ts_cache st = None" "ts_locked st = None" "\<not> ts_readable st" "ts_failures st = 0"
  shows "let st' = run_ops (trust_step fp digest) st (replicate n OpRead) in
    ts_marker st' \<and> ts_cache st' = None \<and> \<not> ts_readable st' \<and> ts_vault st' = ts_vault st \<and>
    (ts_locked st' \<noteq> None) = (TRANSIENT_RETRY_LIMIT \<le> n) \<and> (n < TRANSIENT_RETRY_LIMIT \<longrightarrow> ts_failures st' = n)"
proof (induction n)
  case (Suc n)
  then show ?case
    unfolding replicate_append_same [symmetric] replicate_Suc
    by (auto simp: run_ops_append Let_def load_locked_def split: option.splits)
qed (use assms in \<open>simp add: TRANSIENT_RETRY_LIMIT_def\<close>)


section \<open>The eviction of notices and of delivered messages\<close>

definition warnings :: "trust_doc \<Rightarrow> notice list" where
  "warnings d = filter (\<lambda>n. no_kind n \<notin> set DISMISSIBLE) (td_notices d)"

text \<open>One eviction drops the first dismissible notice when there is one.\<close>

lemma evict_one_dismissible:
  assumes "\<exists>n \<in> set ns. no_kind n \<in> set DISMISSIBLE"
  shows "filter (\<lambda>n. no_kind n \<notin> set DISMISSIBLE) (evict_one ns) = filter (\<lambda>n. no_kind n \<notin> set DISMISSIBLE) ns"
proof -
  let ?W = "\<lambda>n. no_kind n \<notin> set DISMISSIBLE"
  obtain a rest where d: "dropWhile ?W ns = a # rest" using assms by (metis dropWhile_eq_Nil_conv neq_Nil_conv)
  then have "\<not> ?W a" using hd_dropWhile [of ?W ns] by simp
  moreover have "ns = takeWhile ?W ns @ a # rest" using d by (metis takeWhile_dropWhile_id)
  then have "filter ?W ns = filter ?W (takeWhile ?W ns @ a # rest)" by (rule arg_cong)
  ultimately have "filter ?W ns = filter ?W (takeWhile ?W ns @ rest)" by (simp only: filter_append filter.simps if_False)
  moreover have "evict_one ns = takeWhile ?W ns @ rest" unfolding evict_one.simps d by simp
  ultimately show ?thesis by simp
qed

lemma record_first_seen_warnings:
  assumes "length (td_notices d) \<le> MAX_NOTICES"
  shows "warnings (record_notice now NOTICE_FIRST_SEEN dev det d) = warnings d"
proof -
  let ?W = "\<lambda>n. no_kind n \<notin> set DISMISSIBLE"
  let ?new = "\<lparr>no_key = NOTICE_FIRST_SEEN @ '':'' @ dev @ '':'' @ int_str (int_time (now * 1000)),
    no_kind = NOTICE_FIRST_SEEN, no_device_id = dev, no_at = int_time now, no_detail = det\<rparr>"
  let ?ns = "td_notices d @ [?new]"
  have "filter ?W (evict ?ns) = filter ?W ?ns"
  proof (cases "MAX_NOTICES < length ?ns")
    case True
    have "length (evict_one ?ns) \<le> MAX_NOTICES" using assms by simp
    with True have "evict ?ns = evict_one ?ns" by (subst evict.simps) (simp add: evict_small)
    then show ?thesis using evict_one_dismissible [of ?ns] by (simp add: DISMISSIBLE_def)
  qed (simp add: evict_small)
  then show ?thesis by (simp add: warnings_def record_notice_def DISMISSIBLE_def)
qed

text \<open>What another machine, or the passing of time, can make this one do.\<close>

fun harmless :: "trust_op \<Rightarrow> bool" where
  "harmless (OpPin now dev k m own) = True"
| "harmless (OpKnock dev) = True"
| "harmless (OpEncrypted dev) = True"
| "harmless (OpNoteSeq dev n) = True"
| "harmless (OpSeen now k) = True"
| "harmless (OpFlush now) = True"
| "harmless OpRead = True"
| "harmless OpRestart = True"
| "harmless (OpVault r w) = True"
| "harmless _ = False"

lemma warnings_same [simp]:
  "warnings (set_pin dev p d) = warnings d" "warnings (set_seq dev n d) = warnings d"
  "warnings (d\<lparr>td_encrypted_peers := c\<rparr>) = warnings d" "warnings (d\<lparr>td_seen_messages := s\<rparr>) = warnings d"
  by (simp_all add: warnings_def)

lemma harmless_op_doc:
  assumes "harmless op" "warnings d = w \<and> length (td_notices d) \<le> MAX_NOTICES"
  shows "warnings (op_doc fp digest batch op d) = w \<and> length (td_notices (op_doc fp digest batch op d)) \<le> MAX_NOTICES"
proof -
  have "length (td_notices (record_notice now k dev det d')) \<le> MAX_NOTICES" for now k dev det d'
    by (simp add: record_notice_def length_evict)
  then show ?thesis using assms
    by (cases op) (auto simp: body_defs record_first_seen_warnings split: option.splits)
qed

interpretation keeps_warnings:
  promise fp digest True "\<lambda>d. warnings d = w \<and> length (td_notices d) \<le> MAX_NOTICES" harmless for fp digest w
  by unfold_locales (auto dest: harmless_op_doc)

lemma merge_seen_sub:
  "set (merge_seen now b d) \<subseteq> set (filter (\<lambda>e. int_time now - SEEN_MESSAGE_TTL_S \<le> snd e) (dict_update b d))"
  by (auto simp: merge_seen_def drop_oldest_def Let_def)

lemma merge_seen_all:
  "length (filter (\<lambda>e. int_time now - SEEN_MESSAGE_TTL_S \<le> snd e) (dict_update b d)) \<le> MAX_SEEN_MESSAGES \<Longrightarrow>
   merge_seen now b d = filter (\<lambda>e. int_time now - SEEN_MESSAGE_TTL_S \<le> snd e) (dict_update b d)"
  by (simp add: merge_seen_def)

lemma drop_oldest_newest:
  assumes "distinct (keys seen)" "x \<in> set seen - set (drop_oldest seen)" "y \<in> set (drop_oldest seen)"
  shows "snd x \<le> snd y"
proof -
  let ?n = "length seen - MAX_SEEN_MESSAGES"
  let ?s = "sort_key snd seen"
  from assms(2) have "fst x \<in> fst ` set (take ?n ?s)" by (auto simp: drop_oldest_def Let_def)
  then obtain x' where x': "x' \<in> set (take ?n ?s)" "fst x' = fst x" by auto
  have "x' = x" using x' assms(1,2) by (metis DiffD1 eq_key_imp_eq_value in_set_takeD prod.collapse set_sort)
  have "y \<in> set ?s" "y \<notin> set (take ?n ?s)" using assms(3) by (auto simp: drop_oldest_def Let_def)
  then have "y \<in> set (drop ?n ?s)" by (metis Un_iff append_take_drop_id set_append)
  moreover have "sorted (map snd ?s)" by simp
  then have "sorted (map snd (take ?n ?s) @ map snd (drop ?n ?s))" by (metis append_take_drop_id map_append)
  ultimately show ?thesis using x'(1) \<open>x' = x\<close> by (auto simp: sorted_append)
qed

lemma merge_seen_newest:
  assumes "distinct (keys d)"
  shows "\<forall>x \<in> set (filter (\<lambda>e. int_time now - SEEN_MESSAGE_TTL_S \<le> snd e) (dict_update b d)) - set (merge_seen now b d).
    \<forall>y \<in> set (merge_seen now b d). snd x \<le> snd y"
proof -
  define live where "live = filter (\<lambda>e. int_time now - SEEN_MESSAGE_TTL_S \<le> snd e) (dict_update b d)"
  have "distinct (keys live)" unfolding live_def by (intro distinct_keys_filter keys_dict_update assms)
  moreover have "merge_seen now b d = (if MAX_SEEN_MESSAGES < length live then drop_oldest live else live)"
    by (simp add: merge_seen_def live_def)
  ultimately have "\<forall>x \<in> set live - set (merge_seen now b d). \<forall>y \<in> set (merge_seen now b d). snd x \<le> snd y"
    using drop_oldest_newest [of live] by (cases "MAX_SEEN_MESSAGES < length live") auto
  then show ?thesis by (simp only: live_def)
qed

end
