(* ===== verification/Trust_Promises.thy ===== *)
theory Trust_Promises
  imports Trust_Facts
begin

text \<open>
  The properties of the trust store (\<open>backend/agent_team_backend/trust_store.py\<close>), each over arbitrary sequences
  of its operations interleaved with restarts and with the vault failing.
\<close>

section \<open>Properties\<close>

definition sample_fp :: "string \<Rightarrow> string" where "sample_fp k = k"
definition sample_digest :: "string \<Rightarrow> string \<Rightarrow> string" where "sample_digest url token = url @ token"

definition paired_state :: tstate where
  "paired_state = run_ops (trust_step sample_fp sample_digest) fresh_state
     [OpPair 7 ''dev'' ''sk'' ''ek'' ''mem'' ''mem'', OpReserve ''dev'', OpEncrypted ''dev'']"

definition pn_sample :: pin where
  "pn_sample = \<lparr>pn_sign_key = ''k1'', pn_enc_key = ''e1'', pn_member_id = ''mem'', pn_at = 9,
     pn_approved = True, pn_dismissed_at = None\<rparr>"



text \<open>
  Once a peer is recorded as encrypted, the record never goes away. When memory and vault agree and
  \<open>note_encrypted_peer\<close> succeeds, then after any operations but a rebuild the question whether the peer is encrypted is
  answered yes, or refused because the store is locked.
\<close>

theorem encrypted_peer_never_downgraded:
  assumes "note_encrypted_peer dev st = (st', Inr ())" and "ts_marker st'" and "synced st"
    and "list_all (\<lambda>op. op \<noteq> OpRebuild) ops"
  shows "case snd (is_encrypted_peer dev (run_ops (trust_step fp digest) st' ops)) of
           Inr b \<Rightarrow> b | Inl e \<Rightarrow> \<exists>why. e = Locked why"
proof -
  let ?st2 = "run_ops (trust_step fp digest) st' ops"
  have h: "held True (\<lambda>d. dev \<in> set (td_encrypted_peers d)) st'"
    by (rule encrypted_recorded [OF assms(1-3)])
  have h2: "held True (\<lambda>d. dev \<in> set (td_encrypted_peers d)) ?st2"
    by (rule stays_encrypted.held_run [OF h assms(4)])
  show ?thesis
  proof (cases "snd (load_locked ?st2)")
    case (Inl e)
    with settled_load_error [OF h2 Inl] show ?thesis by (simp add: is_encrypted_peer_def with_doc_keep)
  next
    case (Inr d)
    with load_held(2) [OF h2 _ Inr] show ?thesis by (simp add: is_encrypted_peer_def with_doc_keep)
  qed
qed

lemma encrypted_peer_never_downgraded_witness:
  "case snd (is_encrypted_peer ''dev'' (run_ops (trust_step sample_fp sample_digest)
      (fst (note_encrypted_peer ''dev'' paired_state)) [OpForget ''dev'', OpRestart])) of
     Inr b \<Rightarrow> b | Inl e \<Rightarrow> \<exists>why. e = Locked why"
  by (rule encrypted_peer_never_downgraded [where st = paired_state and st' = "fst (note_encrypted_peer ''dev'' paired_state)"]) code_simp+




text \<open>
  Approval comes from a person only. In every run from a new machine in which nobody approves or pairs
  the device, its pin (if it has one) is unapproved, whatever the relay makes this machine record, and also over
  rebuilds and restarts.
\<close>

theorem approval_needs_a_person:
  assumes "list_all (\<lambda>op. \<not> vouches_for dev op) ops"
    and "snd (pin_for dev (run_ops (trust_step fp digest) fresh_state ops)) = Inr (Some p)"
  shows "\<not> pn_approved p"
proof -
  let ?st = "run_ops (trust_step fp digest) fresh_state ops"
  have "held False (\<lambda>d. \<not> approved_in dev d) fresh_state" by (simp add: held_def fresh_state_def)
  note h = stays_unapproved.loaded [OF this assms(1)]
  have "dev \<noteq> []" using assms(2) by (auto simp: pin_for_def)
  then obtain d where "snd (load_locked ?st) = Inr d" "pin_of d dev = Some p"
    using assms(2) by (auto simp: pin_for_loaded split: sum.splits)
  with h [of fp digest d] show ?thesis by (simp add: approved_in_def)
qed

lemma approval_needs_a_person_witness:
  "\<not> pn_approved \<lparr>pn_sign_key = ''k'', pn_enc_key = [], pn_member_id = ''mem'', pn_at = 7,
     pn_approved = False, pn_dismissed_at = None\<rparr>"
  by (rule approval_needs_a_person [where dev = "''x''" and fp = sample_fp and digest = sample_digest
        and ops = "[OpPin 7 ''x'' ''k'' ''mem'' ''mem'', OpApprove ''y'', OpRestart]"])
    code_simp+


text \<open>
  The bounds of the record hold in every reachable state of the store, in memory and in the vault: at most 200 pins
  and 200 encrypted peers, each named once, at most 500 delivered messages and 50 notices. A latched lock
  means that nothing is cached and that the machine was initialised.
\<close>

theorem trust_record_bounded:
  assumes "reachable fresh_state (trust_step fp digest) st"
  shows "trust_inv st"
  by (rule trust_sm.inv_reachable [OF assms])

lemma trust_record_bounded_witness:
  "trust_inv (trust_step sample_fp sample_digest fresh_state (OpPair 7 ''dev'' ''sk'' ''ek'' ''mem'' ''mem''))"
  by (rule trust_record_bounded, rule reach_step, rule reach_init)

text \<open>
  C27: A lost record is not silently started over. On an initialised machine whose record in the vault cannot
  be parsed, no operation other than a rebuild changes the vault or brings a document into memory, whatever
  the vault's availability does; every load in any such state is refused as locked.
\<close>

theorem lost_record_stays_locked:
  assumes "ts_marker st" and "ts_cache st = None" and "parse_secret (ts_vault st) = None"
    and "list_all (\<lambda>op. op \<noteq> OpRebuild) ops"
  shows "let st' = run_ops (trust_step fp digest) st ops in
    ts_vault st' = ts_vault st \<and> ts_marker st' \<and> ts_cache st' = None \<and>
    (\<exists>why. snd (load_locked st') = Inl (Locked why))"
proof -
  have "lost (ts_vault st) (run_ops (trust_step fp digest) st ops)"
    by (rule lost_run) (use assms in \<open>auto simp: lost_def\<close>)
  with lost_load show ?thesis by (auto simp: lost_def Let_def)
qed

lemma lost_record_stays_locked_witness:
  "let st' = run_ops (trust_step sample_fp sample_digest) (restart (paired_state\<lparr>ts_vault := NoSecret\<rparr>))
      [OpPin 8 ''dev'' ''evil'' ''mem'' ''mem'', OpVault False True, OpRead, OpRestart, OpReserve ''dev''] in
    ts_vault st' = ts_vault (restart (paired_state\<lparr>ts_vault := NoSecret\<rparr>)) \<and> ts_marker st' \<and> ts_cache st' = None \<and>
    (\<exists>why. snd (load_locked st') = Inl (Locked why))"
  by (rule lost_record_stays_locked) code_simp+

text \<open>
  Reads that fail are retried, not latched at once: on an initialised machine whose vault does not answer, the
  first two attempts leave the store unsettled, the third settles the lock; and a read that succeeds before that forgets
  the failures.
\<close>

theorem read_failures_settle_at_limit:
  assumes "ts_marker st" and "ts_cache st = None" and "ts_locked st = None" and "\<not> ts_readable st"
    and "ts_failures st = 0" and "parse_secret (ts_vault st) = Some d"
  shows "let st' = run_ops (trust_step fp digest) st (replicate n OpRead);
             st'' = run_ops (trust_step fp digest) st' [OpVault True True, OpRead] in
    (ts_locked st' \<noteq> None) = (TRANSIENT_RETRY_LIMIT \<le> n) \<and>
    (ts_locked st' = None \<longrightarrow> ts_cache st'' = Some d \<and> ts_failures st'' = 0 \<and> ts_transient st'' = None)"
  using failing_reads [OF assms(1-5), of fp digest n] assms(6)
  by (auto simp: Let_def load_locked_def)

lemma read_failures_settle_at_limit_witness:
  "ts_locked (run_ops (trust_step sample_fp sample_digest) (restart (paired_state\<lparr>ts_readable := False\<rparr>))
     (replicate 7 OpRead)) \<noteq> None"
proof -
  let ?st = "restart (paired_state\<lparr>ts_readable := False\<rparr>)"
  have "ts_marker ?st" "ts_cache ?st = None" "ts_locked ?st = None" "\<not> ts_readable ?st" "ts_failures ?st = 0"
    "parse_secret (ts_vault ?st) = Some (the (parse_secret (ts_vault ?st)))"
    by code_simp+
  from read_failures_settle_at_limit [OF this, of sample_fp sample_digest 7] show ?thesis
    by (simp add: Let_def TRANSIENT_RETRY_LIMIT_def)
qed

lemma cached_after_read: "ts_cache (trust_step sample_fp sample_digest fresh_state OpRead) \<noteq> None"
  by code_simp

text \<open>
  Starting over is only possible on a settled lock. In any reachable state, a rebuild that succeeds started from an initialised
  machine with nothing in memory and leaves no record, no marker and no lock; a store that is loaded or readable is
  refused and left as it is, document and vault.
\<close>

theorem rebuild_only_when_locked:
  assumes "reachable fresh_state (trust_step fp digest) st"
  shows "case rebuild_locked_store st of
      (st', Inr why) \<Rightarrow> ts_marker st \<and> ts_cache st = None \<and>
         (ts_locked st = Some why \<or> \<not> ts_readable st \<or> parse_secret (ts_vault st) = None) \<and>
         ts_vault st' = NoSecret \<and> \<not> ts_marker st' \<and> ts_locked st' = None \<and> ts_pending st' = []
    | (st', Inl e) \<Rightarrow> ts_cache st \<noteq> None \<longrightarrow> st' = st \<and> e = NotLocked"
proof -
  have "lock_ok st" using trust_sm.inv_reachable [OF assms] by (simp add: trust_inv_def)
  then show ?thesis
    by (auto simp: lock_ok_def rebuild_locked_store_def load_locked_def load_first_start_def write_doc_def Let_def
        split: option.splits if_splits)
qed

lemma rebuild_only_when_locked_witness:
  "snd (rebuild_locked_store (trust_step sample_fp sample_digest fresh_state OpRead)) = Inl NotLocked"
proof -
  let ?st = "trust_step sample_fp sample_digest fresh_state OpRead"
  have r: "reachable fresh_state (trust_step sample_fp sample_digest) ?st" by (rule reach_step, rule reach_init)
  have "snd (rebuild_locked_store ?st) \<noteq> Inr why" for why
    using rebuild_only_when_locked [OF r] by (cases "rebuild_locked_store ?st") (auto simp: cached_after_read simp del: trust_step.simps)
  then show ?thesis using rebuild_only_when_locked [OF r] cached_after_read
    by (cases "rebuild_locked_store ?st"; cases "snd (rebuild_locked_store ?st)") (auto simp del: trust_step.simps)
qed

definition warned_state :: tstate where
  "warned_state = trust_step sample_fp sample_digest paired_state (OpKeyChange 9 ''dev'' ''sk'' ''sk2'' ''mem'')"

text \<open>
  A relay cannot flush the warnings a person has to see by introducing devices. However many first sightings it
  causes, with whatever device ids and keys, the notices that may not be dismissed (a changed key among them) are
  exactly those that were there before.
\<close>

theorem first_sightings_keep_warnings:
  assumes "ts_marker st" and "parse_secret (ts_vault st) = Some d" and "synced st"
    and "length (td_notices d) \<le> MAX_NOTICES" and "list_all harmless ops"
    and "snd (load_locked (run_ops (trust_step fp digest) st ops)) = Inr d'"
  shows "warnings d' = warnings d"
proof -
  have "held True (\<lambda>d'. warnings d' = warnings d \<and> length (td_notices d') \<le> MAX_NOTICES) st"
    using assms(1-4) by (auto simp: held_def synced_def split: option.splits)
  from keeps_warnings.loaded [OF this assms(5,6)] show ?thesis by simp
qed

lemma first_sightings_keep_warnings_witness:
  "warnings (the (ts_cache (run_ops (trust_step sample_fp sample_digest) warned_state (replicate 60 (OpPin 8 ''x'' ''y'' ''z'' [])))))
     = warnings (the (ts_cache warned_state))"
  by (rule first_sightings_keep_warnings [where st = warned_state and fp = sample_fp and digest = sample_digest
        and ops = "replicate 60 (OpPin 8 ''x'' ''y'' ''z'' [])"])
    code_simp+

text \<open>
  The ledger of delivered messages after a flush: it has at most 500 entries, none older than the expiry, every
  entry comes from the ledger or the batch, and an unexpired entry that is dropped is no newer than any that stays.
\<close>

theorem ledger_keeps_newest:
  assumes "distinct (keys seen)"
  shows "let live = filter (\<lambda>e. int_time now - SEEN_MESSAGE_TTL_S \<le> snd e) (dict_update batch seen);
             left = merge_seen now batch seen in
    length left \<le> MAX_SEEN_MESSAGES \<and> set left \<subseteq> set live \<and>
    (length live \<le> MAX_SEEN_MESSAGES \<longrightarrow> left = live) \<and>
    (\<forall>x \<in> set live - set left. \<forall>y \<in> set left. snd x \<le> snd y)"
  unfolding Let_def
  using length_merge_seen [OF assms] merge_seen_sub [of now batch seen] merge_seen_newest [OF assms, of now batch]
    merge_seen_all [of now batch seen]
  by blast

lemma ledger_keeps_newest_witness:
  "length (merge_seen 4000 [(''b'', 4000)] [(''a'', 100), (''c'', 900)]) \<le> MAX_SEEN_MESSAGES"
proof -
  have "distinct (keys [(''a'', 100::int), (''c'', 900)])" by simp
  from ledger_keeps_newest [OF this, of 4000 "[(''b'', 4000)]"] show ?thesis unfolding Let_def by (rule conjunct1)
qed


text \<open>
  A success that is not durable. When the save behind a first \<open>note_encrypted_peer\<close> fails, the peer is already in the
  cached list; a second call then reports success without writing anything, and after a restart the peer is not known
  to be encrypted.
\<close>

theorem failed_save_forgets_peer:
  "let st1 = trust_step sample_fp sample_digest paired_state (OpVault True False);
       (st2, r2) = note_encrypted_peer ''lap'' st1;
       st3 = trust_step sample_fp sample_digest st2 (OpVault True True);
       (st4, r4) = note_encrypted_peer ''lap'' st3
   in r2 = Inl VaultWrite \<and> r4 = Inr () \<and> snd (is_encrypted_peer ''lap'' st4) = Inr True \<and>
      snd (is_encrypted_peer ''lap'' (restart st4)) = Inr False"
  by code_simp

definition vault_docs :: "tstate \<Rightarrow> trust_doc list" where
  "vault_docs st = (case parse_secret (ts_vault st) of None \<Rightarrow> [] | Some d \<Rightarrow> [d])"

text \<open>
  A machine that is never marked. When the very first write of the record fails, the process goes on with the cached
  document and later saves it, but the marker is only written by the load that failed. A later start at which the vault
  cannot be read is then taken for a first start: the pin that was saved is overwritten with a blank record, without any lock.
\<close>

theorem unmarked_store_is_started_over:
  "let st = run_ops (trust_step sample_fp sample_digest) fresh_state
        [OpVault True False, OpRead, OpVault True True, OpPair 7 ''dev'' ''sk'' ''ek'' ''mem'' ''mem''];
       st' = run_ops (trust_step sample_fp sample_digest) st [OpRestart, OpVault False True, OpRead]
   in map (approved_in ''dev'') (vault_docs st) = [True] \<and> \<not> ts_marker st \<and>
      ts_vault st' = write_secret blank_doc \<and> ts_locked st' = None \<and> snd (pin_for ''dev'' st') = Inr None"
  by code_simp

definition key_changed_doc :: trust_doc where
  "key_changed_doc = record_notice 9 NOTICE_KEY_CHANGED ''dev'' [(''memberId'', JStr ''mem''),
     (''pinnedFingerprint'', JStr ''sk''), (''offeredFingerprint'', JStr ''sk2'')] blank_doc"

text \<open>The record of an event that may not be dismissed, when nothing on the list may.\<close>

lemma evict_plain:
  assumes "\<forall>n \<in> set ns. no_kind n \<notin> set DISMISSIBLE" "length ns \<le> Suc MAX_NOTICES"
  shows "evict ns = drop (length ns - MAX_NOTICES) ns"
proof (cases "MAX_NOTICES < length ns")
  case True
  then have l: "length ns = Suc MAX_NOTICES" using assms(2) by simp
  have "dropWhile (\<lambda>n. no_kind n \<notin> set DISMISSIBLE) ns = []" using assms(1) by simp
  then have "evict_one ns = tl ns" unfolding evict_one.simps by (simp only: list.case)
  with l show ?thesis by (subst evict.simps) (simp add: evict_small drop_Suc)
qed (simp add: evict_small)

lemma refused_once:
  assumes "ts_cache st = Some d" "ts_writable st" "\<forall>n \<in> set (td_notices d). no_kind n \<notin> set DISMISSIBLE"
    "length (td_notices d) \<le> MAX_NOTICES"
  obtains d' n where "ts_cache (trust_step fp digest st (OpRefused now dev k)) = Some d'"
    "ts_writable (trust_step fp digest st (OpRefused now dev k))" "no_kind n = NOTICE_PLAINTEXT_REFUSED"
    "td_notices d' = drop (Suc (length (td_notices d)) - MAX_NOTICES) (td_notices d @ [n])"
proof -
  let ?n = "\<lparr>no_key = NOTICE_PLAINTEXT_REFUSED @ '':'' @ dev @ '':'' @ int_str (int_time (now * 1000)),
    no_kind = NOTICE_PLAINTEXT_REFUSED, no_device_id = dev, no_at = int_time now, no_detail = [(''msgKey'', JStr k)]\<rparr>"
  let ?d = "record_notice now NOTICE_PLAINTEXT_REFUSED dev [(''msgKey'', JStr k)] d"
  have "evict (td_notices d @ [?n]) = drop (length (td_notices d @ [?n]) - MAX_NOTICES) (td_notices d @ [?n])"
    by (rule evict_plain) (use assms(3,4) in \<open>auto simp: DISMISSIBLE_def notice_kind_defs\<close>)
  then have "td_notices ?d = drop (Suc (length (td_notices d)) - MAX_NOTICES) (td_notices d @ [?n])"
    by (simp add: record_notice_def)
  moreover have "ts_cache (trust_step fp digest st (OpRefused now dev k)) = Some ?d"
    "ts_writable (trust_step fp digest st (OpRefused now dev k))"
    using assms(1,2)
    by (simp_all add: note_plaintext_refused_def with_doc_def load_locked_def run_body_def save_locked_def write_doc_def)
  ultimately show ?thesis using that [of ?d ?n] by simp
qed

lemma last_window:
  assumes "length xs \<le> m" "0 < m"
  shows "drop (length (drop (Suc (length xs) - m) (xs @ [a])) + i - m)
      (drop (Suc (length xs) - m) (xs @ [a]) @ replicate i a) =
    drop (length xs + Suc i - m) (xs @ replicate (Suc i) a)"
proof (cases "length xs = m")
  case True
  with assms(2) obtain x ys where "xs = x # ys" by (cases xs) auto
  with True show ?thesis by auto
qed (use assms in auto)

lemma refused_many:
  assumes "ts_cache st = Some d" "ts_writable st" "\<forall>n \<in> set (td_notices d). no_kind n \<notin> set DISMISSIBLE"
    "length (td_notices d) \<le> MAX_NOTICES"
  shows "\<exists>d'. ts_cache (run_ops (trust_step fp digest) st (replicate i (OpRefused now dev k))) = Some d' \<and>
    map no_kind (td_notices d') = drop (length (td_notices d) + i - MAX_NOTICES)
      (map no_kind (td_notices d) @ replicate i NOTICE_PLAINTEXT_REFUSED)"
  using assms
proof (induction i arbitrary: st d)
  case (Suc i)
  obtain d1 n where d1: "ts_cache (trust_step fp digest st (OpRefused now dev k)) = Some d1"
    "ts_writable (trust_step fp digest st (OpRefused now dev k))" "no_kind n = NOTICE_PLAINTEXT_REFUSED"
    "td_notices d1 = drop (Suc (length (td_notices d)) - MAX_NOTICES) (td_notices d @ [n])"
    using refused_once [OF Suc.prems] by blast
  have "\<forall>m \<in> set (td_notices d1). no_kind m \<notin> set DISMISSIBLE"
    using Suc.prems(3) d1(3,4) by (auto dest!: in_set_dropD simp: DISMISSIBLE_def notice_kind_defs)
  moreover have "length (td_notices d1) \<le> MAX_NOTICES" using d1(4) by simp
  ultimately obtain d' where d': "ts_cache (run_ops (trust_step fp digest) st (replicate (Suc i) (OpRefused now dev k))) = Some d'"
    "map no_kind (td_notices d') = drop (length (td_notices d1) + i - MAX_NOTICES)
      (map no_kind (td_notices d1) @ replicate i NOTICE_PLAINTEXT_REFUSED)"
    using Suc.IH [OF d1(1,2)] by auto
  have mk: "map no_kind (td_notices d1) = drop (Suc (length (map no_kind (td_notices d))) - MAX_NOTICES)
      (map no_kind (td_notices d) @ [NOTICE_PLAINTEXT_REFUSED])"
    unfolding d1(4) drop_map [symmetric] by (simp add: d1(3))
  have "drop (length (map no_kind (td_notices d1)) + i - MAX_NOTICES)
      (map no_kind (td_notices d1) @ replicate i NOTICE_PLAINTEXT_REFUSED) =
    drop (length (map no_kind (td_notices d)) + Suc i - MAX_NOTICES)
      (map no_kind (td_notices d) @ replicate (Suc i) NOTICE_PLAINTEXT_REFUSED)"
    unfolding mk by (rule last_window) (use Suc.prems(4) in \<open>simp_all add: MAX_NOTICES_def\<close>)
  with d'(2) have "map no_kind (td_notices d') = drop (length (td_notices d) + Suc i - MAX_NOTICES)
      (map no_kind (td_notices d) @ replicate (Suc i) NOTICE_PLAINTEXT_REFUSED)"
    by (simp only: length_map)
  with d'(1) show ?case by blast
qed simp

text \<open>
  Warnings can be flushed after all. Refusals of plaintext messages are recorded one notice each and may not be
  dismissed: when nothing on the list may be dismissed, fifty of them leave nothing else on it, so a notice of a
  changed key is gone.
\<close>

theorem repeated_refusals_evict_warnings:
  assumes "ts_cache st = Some d" and "ts_writable st"
    and "\<forall>n \<in> set (td_notices d). no_kind n \<notin> set DISMISSIBLE" and "length (td_notices d) \<le> MAX_NOTICES"
  shows "map no_kind (snd (notices (run_ops (trust_step fp digest) st (replicate 50 (OpRefused now dev k))))) =
    replicate 50 NOTICE_PLAINTEXT_REFUSED"
  using refused_many [OF assms, of fp digest 50 now dev k] assms(4)
  by (auto simp: notices_def try_load_def load_locked_def MAX_NOTICES_def)

lemma repeated_refusals_evict_warnings_witness:
  "map no_kind (snd (notices (run_ops (trust_step sample_fp sample_digest)
     (run_ops (trust_step sample_fp sample_digest) fresh_state [OpRead, OpKeyChange 9 ''dev'' ''sk'' ''sk2'' ''mem''])
     (replicate 50 (OpRefused 10 ''dev'' ''m''))))) = replicate 50 NOTICE_PLAINTEXT_REFUSED"
  by (rule repeated_refusals_evict_warnings [where d = "key_changed_doc"]) code_simp+

end
