(* ===== verification/Pane_Policy.thy ===== *)
theory Pane_Policy
  imports Py_Prelude
begin

text \<open>
  \<open>backend/agent_team_backend/pane_policy.py\<close>: may a pane of another machine drive this pane? The policy is a decoded JSON
  document of any shape, written by somebody else. The log lines are left out; the reason \<open>validate\<close> gives is a
  constructor of \<open>refusal\<close>.
\<close>

definition POLICY_VERSION :: int where "POLICY_VERSION = 1"

definition WILDCARD :: string where "WILDCARD = ''*''"

definition FIELDS :: "(string \<times> string) list" where
  "FIELDS = [(''from'', ''memberId''), (''from'', ''deviceId''), (''to'', ''workspace''), (''to'', ''paneName'')]"

record request =
  rq_member :: string
  rq_device :: string
  rq_workspace :: string
  rq_pane :: string

text \<open>The request as the dictionary the code builds.\<close>

definition request_dict :: "request \<Rightarrow> (string \<times> string) list" where
  "request_dict r = [(''memberId'', rq_member r), (''deviceId'', rq_device r),
     (''workspace'', rq_workspace r), (''paneName'', rq_pane r)]"

fun usable :: "jval \<Rightarrow> bool" where
  "usable (JStr s) = (py_strip s \<noteq> [])"
| "usable _ = False"

fun as_dict :: "jval \<Rightarrow> (string \<times> jval) list option" where
  "as_dict (JDict d) = Some d"
| "as_dict _ = None"

text \<open>
  The loop of \<open>_rule_allows\<close> over the fields: the patterns by key, or nothing when the rule has to be
  skipped. A field's value is a string once it is usable.
\<close>

fun rule_patterns :: "(string \<times> jval) list \<Rightarrow> (string \<times> string) list \<Rightarrow> (string \<times> string) list option" where
  "rule_patterns rule [] = Some []"
| "rule_patterns rule ((section, key) # fs) =
     (case jget rule section of
        JDict block \<Rightarrow>
          (case jget block key of
             JStr s \<Rightarrow>
               (if \<not> usable (JStr s) then None
                else (case rule_patterns rule fs of None \<Rightarrow> None | Some ps \<Rightarrow> Some ((key, s) # ps)))
           | _ \<Rightarrow> None)
      | _ \<Rightarrow> None)"

definition pattern_ok :: "request \<Rightarrow> string \<times> string \<Rightarrow> bool" where
  "pattern_ok r kp = (snd kp = WILDCARD \<or> dget (request_dict r) (fst kp) = Some (snd kp))"

definition rule_allows :: "jval \<Rightarrow> request \<Rightarrow> bool" where
  "rule_allows rule r =
     (case rule of
        JDict d \<Rightarrow>
          (if jget d ''action'' \<noteq> JStr ''allow'' then False
           else (case rule_patterns d FIELDS of None \<Rightarrow> False | Some ps \<Rightarrow> list_all (pattern_ok r) ps))
      | _ \<Rightarrow> False)"

fun is_bool :: "jval \<Rightarrow> bool" where
  "is_bool (JBool b) = True"
| "is_bool _ = False"

definition version_ok :: "(string \<times> jval) list \<Rightarrow> bool" where
  "version_ok p = (\<not> is_bool (jget p ''version'') \<and> eq_int (jget p ''version'') POLICY_VERSION)"

fun rules_list :: "jval \<Rightarrow> jval list" where
  "rules_list (JList rs) = rs"
| "rules_list _ = []"

definition is_allowed :: "jval \<Rightarrow> request \<Rightarrow> bool" where
  "is_allowed policy r =
     (if \<not> list_all (\<lambda>kv. usable (JStr (snd kv))) (request_dict r) then False
      else (case policy of
              JDict p \<Rightarrow>
                (if \<not> version_ok p then False
                 else if list_ex (\<lambda>rule. rule_allows rule r) (rules_list (jget p ''rules'')) then True
                 else jget p ''default'' = JStr ''allow'')
            | _ \<Rightarrow> False))"


section \<open>The check before a policy is written\<close>

datatype refusal = NotObject | BadVersion | BadDefault | RulesNotList
  | RuleNotObject nat | RuleBadAction nat | RuleNeeds nat string string

fun missing_field :: "(string \<times> jval) list \<Rightarrow> (string \<times> string) list \<Rightarrow> (string \<times> string) option" where
  "missing_field rule [] = None"
| "missing_field rule ((section, key) # fs) =
     (case jget rule section of
        JDict block \<Rightarrow> (if usable (jget block key) then missing_field rule fs else Some (section, key))
      | _ \<Rightarrow> Some (section, key))"

fun validate_rules :: "nat \<Rightarrow> jval list \<Rightarrow> refusal option" where
  "validate_rules i [] = None"
| "validate_rules i (rule # rules) =
     (case rule of
        JDict d \<Rightarrow>
          (if jget d ''action'' \<noteq> JStr ''allow'' then Some (RuleBadAction i)
           else (case missing_field d FIELDS of
                   Some (s, k) \<Rightarrow> Some (RuleNeeds i s k)
                 | None \<Rightarrow> validate_rules (Suc i) rules))
      | _ \<Rightarrow> Some (RuleNotObject i))"

definition validate :: "jval \<Rightarrow> refusal option" where
  "validate policy =
     (case policy of
        JDict p \<Rightarrow>
          (if \<not> version_ok p then Some BadVersion
           else if jget p ''default'' \<noteq> JStr ''deny'' \<and> jget p ''default'' \<noteq> JStr ''allow'' then Some BadDefault
           else (case jget p ''rules'' of JList rs \<Rightarrow> validate_rules 0 rs | _ \<Rightarrow> Some RulesNotList))
      | _ \<Rightarrow> Some NotObject)"


section \<open>What a policy says\<close>

text \<open>
  The reading of a rule without loops or skipping: it names a usable pattern for each of the four fields, and every
  pattern is the wildcard or the request's own value.
\<close>

definition field_of :: "(string \<times> jval) list \<Rightarrow> string \<Rightarrow> string \<Rightarrow> string option" where
  "field_of rule section key =
     (case jget rule section of
        JDict block \<Rightarrow> (case jget block key of JStr s \<Rightarrow> if py_strip s \<noteq> [] then Some s else None | _ \<Rightarrow> None)
      | _ \<Rightarrow> None)"

definition covers :: "string option \<Rightarrow> string \<Rightarrow> bool" where
  "covers pat v = (pat = Some ''*'' \<or> pat = Some v)"

definition grants :: "jval \<Rightarrow> request \<Rightarrow> bool" where
  "grants rule r =
     (case rule of
        JDict d \<Rightarrow> jget d ''action'' = JStr ''allow'' \<and>
          covers (field_of d ''from'' ''memberId'') (rq_member r) \<and>
          covers (field_of d ''from'' ''deviceId'') (rq_device r) \<and>
          covers (field_of d ''to'' ''workspace'') (rq_workspace r) \<and>
          covers (field_of d ''to'' ''paneName'') (rq_pane r)
      | _ \<Rightarrow> False)"

definition complete :: "jval \<Rightarrow> bool" where
  "complete rule =
     (case rule of
        JDict d \<Rightarrow> jget d ''action'' = JStr ''allow'' \<and> (\<forall>(s, k) \<in> set FIELDS. field_of d s k \<noteq> None)
      | _ \<Rightarrow> False)"

definition attested :: "request \<Rightarrow> bool" where
  "attested r = (py_strip (rq_member r) \<noteq> [] \<and> py_strip (rq_device r) \<noteq> [] \<and>
     py_strip (rq_workspace r) \<noteq> [] \<and> py_strip (rq_pane r) \<noteq> [])"

lemma rule_patterns_fields:
  "rule_patterns rule fs =
     (if \<forall>(s, k) \<in> set fs. field_of rule s k \<noteq> None
      then Some (map (\<lambda>(s, k). (k, the (field_of rule s k))) fs) else None)"
  by (induction rule fs rule: rule_patterns.induct)
    (auto simp: field_of_def split: jval.splits option.splits)

lemma missing_field_None: "missing_field rule fs = None \<longleftrightarrow> (\<forall>(s, k) \<in> set fs. field_of rule s k \<noteq> None)"
  by (induction rule fs rule: missing_field.induct) (auto simp: field_of_def split: jval.splits)

lemma rule_allows_grants: "rule_allows rule r = grants rule r"
  by (cases rule)
    (auto simp: rule_allows_def grants_def rule_patterns_fields FIELDS_def pattern_ok_def request_dict_def WILDCARD_def
      covers_def)

lemma complete_simps [simp]:
  "complete (JDict d) \<longleftrightarrow> jget d ''action'' = JStr ''allow'' \<and> (\<forall>(s, k) \<in> set FIELDS. field_of d s k \<noteq> None)"
  "\<not> complete JNull" "\<not> complete (JBool b)" "\<not> complete (JInt i)" "\<not> complete (JFloat f)"
  "\<not> complete (JStr t)" "\<not> complete (JList l)"
  by (simp_all add: complete_def)

lemma validate_rules_None: "validate_rules i rules = None \<longleftrightarrow> list_all complete rules"
proof (induction i rules rule: validate_rules.induct)
  case (2 i rule rules)
  show ?case
  proof (cases rule)
    case (JDict d)
    then show ?thesis using 2 missing_field_None [of d FIELDS]
      by (cases "missing_field d FIELDS") (simp_all split: prod.splits)
  qed auto
qed simp

lemma attested_request: "list_all (\<lambda>kv. py_strip (snd kv) \<noteq> []) (request_dict r) = attested r"
  by (simp add: request_dict_def attested_def)

lemma policy_decision_aux:
  "is_allowed policy r \<longleftrightarrow>
     (\<exists>p. policy = JDict p \<and> attested r \<and> version_ok p \<and>
        ((\<exists>rule \<in> set (rules_list (jget p ''rules'')). grants rule r) \<or> jget p ''default'' = JStr ''allow''))"
  by (cases policy) (auto simp: is_allowed_def attested_request rule_allows_grants list_ex_iff)

text \<open>
  C24: Deny by default, in full. A request is allowed exactly when every part of its identity is attested, the policy
  is an object of the supported version, and either a rule of its list grants the request (all four fields named, each
  the wildcard or equal to the request's value) or the default is literally \<open>allow\<close>. Everything else is a denial.
\<close>

theorem policy_decision:
  "is_allowed policy r \<longleftrightarrow>
     (\<exists>p. policy = JDict p \<and> attested r \<and> version_ok p \<and>
        ((\<exists>rule \<in> set (rules_list (jget p ''rules'')). grants rule r) \<or> jget p ''default'' = JStr ''allow''))"
  by (rule policy_decision_aux)

lemma grants_sound:
  "complete rule \<Longrightarrow> \<exists>d. rule = JDict d \<and> jget d ''action'' = JStr ''allow'' \<and> rule_patterns d FIELDS \<noteq> None"
  by (cases rule) (auto simp: complete_def rule_patterns_fields)

text \<open>
  A policy that may be written means what it says. When \<open>validate\<close> accepts a document, it has a list of rules, none of
  which \<open>is_allowed\<close> would skip, and, unless it allows by default, an attested request is allowed exactly when one
  of those rules matches it in every field.
\<close>

theorem validated_policy_is_honoured:
  assumes "validate policy = None" and "attested r"
  shows "\<exists>p rules. policy = JDict p \<and> jget p ''rules'' = JList rules \<and>
    (\<forall>rule \<in> set rules. \<exists>d ps. rule = JDict d \<and> rule_patterns d FIELDS = Some ps \<and>
       rule_allows rule r = list_all (pattern_ok r) ps) \<and>
    (is_allowed policy r \<longleftrightarrow> jget p ''default'' = JStr ''allow'' \<or> (\<exists>rule \<in> set rules. rule_allows rule r))"
proof -
  obtain p rules where p: "policy = JDict p" "version_ok p" "jget p ''rules'' = JList rules" "validate_rules 0 rules = None"
    using assms(1) by (auto simp: validate_def split: jval.splits if_splits)
  have "\<exists>d ps. rule = JDict d \<and> rule_patterns d FIELDS = Some ps \<and> rule_allows rule r = list_all (pattern_ok r) ps"
    if "rule \<in> set rules" for rule
    using grants_sound [of rule] that p(4)
    by (auto simp: validate_rules_None list_all_iff rule_allows_def)
  moreover have "is_allowed policy r \<longleftrightarrow> jget p ''default'' = JStr ''allow'' \<or> (\<exists>rule \<in> set rules. rule_allows rule r)"
    using p assms(2) by (auto simp: policy_decision_aux rule_allows_grants)
  ultimately show ?thesis using p by blast
qed

definition sample_policy :: jval where
  "sample_policy = JDict [(''version'', JInt 1), (''default'', JStr ''deny''), (''rules'', JList
     [JDict [(''from'', JDict [(''memberId'', JStr ''*''), (''deviceId'', JStr ''lap'')]),
             (''to'', JDict [(''workspace'', JStr ''site''), (''paneName'', JStr ''*'')]), (''action'', JStr ''allow'')]])]"

definition sample_request :: request where
  "sample_request = \<lparr>rq_member = ''m'', rq_device = ''lap'', rq_workspace = ''site'', rq_pane = ''dev''\<rparr>"

lemma validated_policy_is_honoured_witness:
  "\<exists>p rules. sample_policy = JDict p \<and> jget p ''rules'' = JList rules \<and>
    (\<forall>rule \<in> set rules. \<exists>d ps. rule = JDict d \<and> rule_patterns d FIELDS = Some ps \<and>
       rule_allows rule sample_request = list_all (pattern_ok sample_request) ps) \<and>
    (is_allowed sample_policy sample_request \<longleftrightarrow>
       jget p ''default'' = JStr ''allow'' \<or> (\<exists>rule \<in> set rules. rule_allows rule sample_request))"
  by (rule validated_policy_is_honoured) code_simp+

end
