(* ===== verification/Guard_Policy.thy ===== *)
theory Guard_Policy
  imports Py_Prelude
begin

text \<open>
  \<open>backend/agent_team_backend/guard/builtin_rules.py\<close> and \<open>guard/policy.py\<close>: the grading of a tool call and the
  decision taken on the grade. Levels are a linear order, the dictionary \<open>LEVEL_ORDER\<close> of the code. The group,
  description and example of a built-in rule are for the settings page and left out. The pattern language of
  the user's own rules is Python's \<open>fnmatch\<close>, translated as the standard library does it.
\<close>

section \<open>Levels and actions\<close>

datatype level = Normal | High | Critical

datatype action = Allow | Ask | Deny

fun level_order :: "level \<Rightarrow> nat" where
  "level_order Normal = 0"
| "level_order High = 1"
| "level_order Critical = 2"

instantiation level :: linorder
begin

definition less_eq_level :: "level \<Rightarrow> level \<Rightarrow> bool" where
  "a \<le> b \<longleftrightarrow> level_order a \<le> level_order b"

definition less_level :: "level \<Rightarrow> level \<Rightarrow> bool" where
  "(a :: level) < b \<longleftrightarrow> level_order a < level_order b"

instance
proof
  fix a b :: level
  show "a \<le> b \<Longrightarrow> b \<le> a \<Longrightarrow> a = b" by (cases a; cases b) (auto simp: less_eq_level_def)
qed (auto simp: less_eq_level_def less_level_def)

end

instantiation level :: order_bot
begin

definition bot_level :: level where "bot_level = Normal"

instance by standard (simp add: bot_level_def less_eq_level_def)

end

lemma level_le_simps [simp]:
  "Normal \<le> l" "l \<le> Critical" "\<not> l < Normal" "\<not> Critical < l" "Normal < High" "High < Critical" "Normal < Critical"
  "High \<le> l \<longleftrightarrow> l \<noteq> Normal" "l < High \<longleftrightarrow> l = Normal" "Critical \<le> l \<longleftrightarrow> l = Critical" "l \<le> Normal \<longleftrightarrow> l = Normal"
  by (cases l; simp add: less_eq_level_def less_level_def)+

fun level_of :: "string \<Rightarrow> level option" where
  "level_of s =
     (if s = ''normal'' then Some Normal else if s = ''high'' then Some High
      else if s = ''critical'' then Some Critical else None)"


section \<open>The built-in rules\<close>

definition BUILTIN_RULES :: "(string \<times> level) list" where
  "BUILTIN_RULES =
    [(''credential-access'', Critical), (''credential-exfil'', Critical),
     (''dotenv-outside-workspace'', Critical), (''keychain-access'', Critical), (''sudo'', Critical),
     (''pipe-download-to-shell'', Critical), (''download-then-exec'', Critical),
     (''disk-write'', Critical), (''disk-format'', Critical), (''rm-root-or-home'', Critical),
     (''rm-workspace-root'', Critical), (''rm-outside-workspace'', Critical),
     (''git-force-push-protected'', Critical), (''cloud-destroy'', Critical),
     (''credential-path-list'', High), (''git-hooks-write'', High), (''ci-workflow-write'', High),
     (''agent-config-write'', High), (''dd'', High), (''package-publish'', High), (''git-push'', High),
     (''git-push-force'', High), (''git-reset-hard'', High), (''git-clean-force'', High),
     (''rm-recursive-in-workspace'', High), (''rm-file-outside-workspace'', High),
     (''rm-unresolved-target'', High), (''decode-and-exec'', High), (''http-upload-file'', High),
     (''too-long'', High), (''dynamic-stdin-script'', High), (''dynamic-command'', Normal),
     (''eval'', Normal), (''unbalanced-quotes'', Normal), (''nesting-too-deep'', Normal),
     (''interpreter-inline-code'', Normal), (''stdin-script'', Normal), (''heredoc-unparsed'', Normal),
     (''unknown-script'', Normal), (''dynamic-path'', Normal)]"

definition FLOOR_RULES :: "string list" where
  "FLOOR_RULES =
    [''credential-access'', ''credential-exfil'', ''keychain-access'', ''pipe-download-to-shell'',
     ''download-then-exec'', ''rm-root-or-home'', ''disk-format'', ''disk-write'']"


section \<open>The decision table\<close>

definition MATRIX :: "(string \<times> (level \<Rightarrow> action)) list" where
  "MATRIX =
    [(''local'', \<lambda>l. case l of Critical \<Rightarrow> Ask | _ \<Rightarrow> Allow),
     (''relay'', \<lambda>l. case l of Normal \<Rightarrow> Allow | _ \<Rightarrow> Deny),
     (''remote'', \<lambda>l. case l of Critical \<Rightarrow> Ask | _ \<Rightarrow> Allow),
     (''agent'', \<lambda>l. case l of Critical \<Rightarrow> Ask | _ \<Rightarrow> Allow)]"

definition effective_level :: "level \<Rightarrow> bool \<Rightarrow> bool \<Rightarrow> level" where
  "effective_level lv parseable tainted =
     (if tainted \<and> \<not> parseable \<and> level_order lv < level_order High then High else lv)"

definition enforced :: "bool \<Rightarrow> string \<Rightarrow> bool" where
  "enforced enabled source = (enabled \<or> source = ''relay'')"

text \<open>A source without a row of its own is read as an agent.\<close>

definition decide :: "level \<Rightarrow> string \<Rightarrow> bool \<Rightarrow> action" where
  "decide lv source tainted =
     (let row = (case dget MATRIX source of Some r \<Rightarrow> r | None \<Rightarrow> the (dget MATRIX ''agent''))
      in if source \<noteq> ''relay'' \<and> tainted \<and> lv \<in> {High, Critical} then Ask else row lv)"


section \<open>The user's levels for built-in rules\<close>

definition rule_level :: "string \<Rightarrow> (string \<times> string) list \<Rightarrow> level \<Rightarrow> level \<times> level" where
  "rule_level rule_id overrides verdict_level =
     (case dget BUILTIN_RULES rule_id of
        None \<Rightarrow> (verdict_level, verdict_level)
      | Some dflt \<Rightarrow>
          (let lv = (case dget overrides rule_id of
                       None \<Rightarrow> dflt | Some s \<Rightarrow> (case level_of s of None \<Rightarrow> dflt | Some l \<Rightarrow> l));
               lv' = (if rule_id \<in> set FLOOR_RULES \<and> level_order lv < level_order High then High else lv)
           in (dflt, lv')))"

definition apply_overrides :: "level \<Rightarrow> string list \<Rightarrow> (string \<times> string) list \<Rightarrow> level" where
  "apply_overrides lv rule_ids overrides =
     (if overrides = [] \<or> \<not> list_ex (\<lambda>r. has_key r overrides) rule_ids then lv
      else foldl (\<lambda>out r. let eff = snd (rule_level r overrides lv)
                          in if level_order out < level_order eff then eff else out) Normal rule_ids)"


section \<open>Glob patterns\<close>

text \<open>
  \<open>fnmatch.fnmatchcase\<close>: the pattern is cut into tokens as \<open>fnmatch.translate\<close> does, a bracket expression into the
  ranges its regular expression has (a single character is a range of one). A bracket that is not closed is an ordinary character.
\<close>

datatype glob_token = GStar | GAny | GLit char | GSet bool "(char \<times> char) list"

text \<open>The body of a bracket expression and what follows it, when it is closed.\<close>

definition bracket_body :: "string \<Rightarrow> (string \<times> string) option" where
  "bracket_body p =
     (let h1 = (case p of CHR ''!'' # _ \<Rightarrow> 1 | _ \<Rightarrow> 0);
          h2 = (case drop h1 p of CHR '']'' # _ \<Rightarrow> Suc h1 | _ \<Rightarrow> h1);
          t = takeWhile (\<lambda>c. c \<noteq> CHR '']'') (drop h2 p);
          rest = drop (h2 + length t) p
      in (case rest of [] \<Rightarrow> None | _ # after \<Rightarrow> Some (take h2 p @ t, after)))"

text \<open>The body cut at the hyphens that make a range; each search for the next one starts three characters further on.\<close>

function range_chunks :: "nat \<Rightarrow> string \<Rightarrow> string list" where
  "range_chunks k s =
     (let t = takeWhile (\<lambda>c. c \<noteq> CHR ''-'') (drop k s); i = k + length t in
      if i < length s then take i s # range_chunks 2 (drop (Suc i) s)
      else [s])"
  by pat_completeness auto
termination
  by (relation "measure (\<lambda>(k, s). length s)") auto

declare range_chunks.simps [simp del]

text \<open>An empty last piece puts its hyphen back.\<close>

definition bracket_chunks :: "string \<Rightarrow> string list" where
  "bracket_chunks s =
     (let cs = range_chunks (case s of CHR ''!'' # _ \<Rightarrow> 2 | _ \<Rightarrow> 1) s
      in case rev cs of
           [] # c # front \<Rightarrow> rev ((c @ ''-'') # front)
         | _ \<Rightarrow> cs)"

text \<open>Ranges that would be empty are taken out, from the right.\<close>

fun drop_empty_ranges :: "string list \<Rightarrow> string list" where
  "drop_empty_ranges [] = []"
| "drop_empty_ranges (a # cs) =
     (case drop_empty_ranges cs of
        [] \<Rightarrow> [a]
      | b # bs \<Rightarrow> if hd b < last a then (butlast a @ tl b) # bs else a # b # bs)"

fun chunk_ranges :: "string list \<Rightarrow> (char \<times> char) list" where
  "chunk_ranges [] = []"
| "chunk_ranges [a] = map (\<lambda>c. (c, c)) a"
| "chunk_ranges (a # b # cs) = map (\<lambda>c. (c, c)) (butlast a) @ (last a, hd b) # chunk_ranges (tl b # cs)"

definition bracket_token :: "string \<Rightarrow> glob_token" where
  "bracket_token s =
     (let cs = (if CHR ''-'' \<in> set s then drop_empty_ranges (bracket_chunks s) else [s]) in
      case cs of
        (CHR ''!'' # a) # rest \<Rightarrow> GSet True (chunk_ranges (a # rest))
      | _ \<Rightarrow> GSet False (chunk_ranges cs))"

lemma bracket_body_shorter [simp]: "bracket_body p = Some (s, after) \<Longrightarrow> length after < length p"
  by (auto simp: bracket_body_def Let_def split: list.splits dest!: arg_cong [of _ _ length])

function glob_tokens :: "string \<Rightarrow> glob_token list" where
  "glob_tokens [] = []"
| "glob_tokens (c # p) =
     (if c = CHR ''*'' then GStar # glob_tokens p
      else if c = CHR ''?'' then GAny # glob_tokens p
      else if c = CHR ''['' then
        (case bracket_body p of
           None \<Rightarrow> GLit c # glob_tokens p
         | Some (s, after) \<Rightarrow> bracket_token s # glob_tokens after)
      else GLit c # glob_tokens p)"
  by pat_completeness auto
termination
  by (relation "measure length") (auto dest: bracket_body_shorter)

fun token_matches :: "glob_token \<Rightarrow> char \<Rightarrow> bool" where
  "token_matches GStar c = False"
| "token_matches GAny c = True"
| "token_matches (GLit l) c = (c = l)"
| "token_matches (GSet neg rs) c = (list_ex (\<lambda>(lo, hi). lo \<le> c \<and> c \<le> hi) rs \<noteq> neg)"

fun glob_match :: "glob_token list \<Rightarrow> string \<Rightarrow> bool" where
  "glob_match [] s = (s = [])"
| "glob_match (GStar # ts) [] = glob_match ts []"
| "glob_match (GStar # ts) (c # s) = (glob_match ts (c # s) \<or> glob_match (GStar # ts) s)"
| "glob_match (t # ts) [] = False"
| "glob_match (t # ts) (c # s) = (token_matches t c \<and> glob_match ts s)"

definition fnmatchcase :: "string \<Rightarrow> string \<Rightarrow> bool" where
  "fnmatchcase s pattern = glob_match (glob_tokens pattern) s"


section \<open>The user's own rules\<close>

record user_rule =
  ur_id :: int
  ur_kind :: string
  ur_pattern :: string
  ur_level :: string

definition pattern_matches :: "string \<Rightarrow> string \<Rightarrow> bool" where
  "pattern_matches pattern subject =
     (let p = py_strip pattern in
      if p = [] \<or> subject = [] then False
      else if list_ex (\<lambda>c. c \<in> set ''*?['') p then fnmatchcase subject p
      else py_in p subject)"

definition deny_level :: "user_rule \<Rightarrow> level" where
  "deny_level r = (if ur_level r = ''high'' then High else Critical)"

definition apply_user_rules ::
    "level \<Rightarrow> string list \<Rightarrow> string \<Rightarrow> user_rule list \<Rightarrow> level \<times> string list" where
  "apply_user_rules lv rule_ids subject rules =
     (let denies = filter (\<lambda>r. ur_kind r = ''deny'' \<and> pattern_matches (ur_pattern r) subject) rules in
      if denies \<noteq> [] then
        (foldl (\<lambda>l r. if level_order l < level_order (deny_level r) then deny_level r else l) lv denies,
         rule_ids @ map (\<lambda>r. ''user-deny:'' @ int_str (ur_id r)) denies)
      else if lv = High then
        (case filter (\<lambda>r. ur_kind r = ''allow'' \<and> pattern_matches (ur_pattern r) subject) rules of
           r # _ \<Rightarrow> (Normal, rule_ids @ [''user-allow:'' @ int_str (ur_id r)])
         | [] \<Rightarrow> (lv, rule_ids))
      else (lv, rule_ids))"


section \<open>Properties\<close>

fun strictness :: "action \<Rightarrow> nat" where
  "strictness Allow = 0"
| "strictness Ask = 1"
| "strictness Deny = 2"

lemma foldl_raise:
  fixes f :: "'a \<Rightarrow> level"
  shows "lv \<le> foldl (\<lambda>l r. if level_order l < level_order (f r) then f r else l) lv rs \<and>
    (\<forall>r \<in> set rs. f r \<le> foldl (\<lambda>l r. if level_order l < level_order (f r) then f r else l) lv rs)"
proof (induction rs arbitrary: lv)
  case (Cons r rs)
  let ?l = "if level_order lv < level_order (f r) then f r else lv"
  have "lv \<le> ?l" "f r \<le> ?l" by (auto simp: less_eq_level_def)
  with Cons.IH [of ?l] show ?case by (auto intro: order_trans)
qed simp

text \<open>
  Danger never buys leniency. A higher level or a taint mark never turns a decision into a milder one, for every source,
  known or not, in the order allow, ask, deny; and the chat relay is never answered with a question.
\<close>

theorem decision_monotone:
  assumes "lv \<le> lv'" and "tainted \<longrightarrow> tainted'"
  shows "strictness (decide lv source tainted) \<le> strictness (decide lv' source tainted') \<and>
    decide lv ''relay'' tainted \<noteq> Ask"
  using assms
  by (cases lv; cases lv') (auto simp: decide_def MATRIX_def Let_def split: option.splits)

lemma decision_monotone_witness:
  "strictness (decide High ''agent'' False) \<le> strictness (decide Critical ''agent'' True) \<and>
    decide High ''relay'' False \<noteq> Ask"
  by (rule decision_monotone) (simp_all add: less_eq_level_def)

text \<open>
  The safety floor. When a verdict of level high or above reports a floor rule, no table of levels the user can
  save (nor any other table) grades it below high.
\<close>

theorem floor_rules_stay_high:
  assumes "r \<in> set rule_ids" and "r \<in> set FLOOR_RULES" and "High \<le> lv"
  shows "High \<le> apply_overrides lv rule_ids overrides"
proof -
  have "High \<le> snd (rule_level r overrides lv)"
    using assms(2,3) by (auto simp: rule_level_def Let_def less_eq_level_def split: option.splits)
  moreover have "snd (rule_level r overrides lv) \<le> foldl (\<lambda>out r. let eff = snd (rule_level r overrides lv)
      in if level_order out < level_order eff then eff else out) Normal rule_ids"
    using foldl_raise [of Normal "\<lambda>r. snd (rule_level r overrides lv)" rule_ids] assms(1)
    unfolding Let_def by blast
  ultimately have "High \<le> foldl (\<lambda>out r. let eff = snd (rule_level r overrides lv)
      in if level_order out < level_order eff then eff else out) Normal rule_ids"
    by (rule order_trans)
  note raised = this
  show ?thesis
  proof (cases "overrides = [] \<or> \<not> list_ex (\<lambda>r. has_key r overrides) rule_ids")
    case True
    then show ?thesis unfolding apply_overrides_def by (simp only: if_True assms(3))
  next
    case False
    then show ?thesis unfolding apply_overrides_def by (simp only: if_False raised)
  qed
qed

lemma floor_rules_stay_high_witness:
  "High \<le> apply_overrides Critical [''git-push'', ''credential-access''] [(''credential-access'', ''normal''), (''git-push'', ''normal'')]"
  by (rule floor_rules_stay_high [where r = "''credential-access''"]) code_simp+

definition matching_rules :: "string \<Rightarrow> string \<Rightarrow> user_rule list \<Rightarrow> user_rule list" where
  "matching_rules kind subject rules = filter (\<lambda>r. ur_kind r = kind \<and> pattern_matches (ur_pattern r) subject) rules"

lemma set_matching: "set (matching_rules kind subject rules) = {r \<in> set rules. ur_kind r = kind \<and> pattern_matches (ur_pattern r) subject}"
  by (simp add: matching_rules_def)

lemma apply_user_rules_cases:
  "matching_rules ''deny'' subject rules \<noteq> [] \<Longrightarrow> \<exists>ids'. apply_user_rules lv ids subject rules =
     (foldl (\<lambda>l r. if level_order l < level_order (deny_level r) then deny_level r else l) lv
        (matching_rules ''deny'' subject rules), ids')"
  "matching_rules ''deny'' subject rules = [] \<Longrightarrow> lv = High \<and> matching_rules ''allow'' subject rules \<noteq> [] \<Longrightarrow>
     \<exists>ids'. apply_user_rules lv ids subject rules = (Normal, ids')"
  "matching_rules ''deny'' subject rules = [] \<Longrightarrow> \<not> (lv = High \<and> matching_rules ''allow'' subject rules \<noteq> []) \<Longrightarrow>
     apply_user_rules lv ids subject rules = (lv, ids)"
  unfolding apply_user_rules_def matching_rules_def [symmetric] Let_def
  by (simp_all split: list.split)

text \<open>
  The user's patterns. A matching deny is never undone: the level does not fall and reaches the deny's own. A critical action
  stays critical. The level falls only from high to normal, by an allow pattern that matches while no deny does.
\<close>

theorem user_rules_bounds:
  "let (lv', ids') = apply_user_rules lv ids subject rules;
       matching = (\<lambda>kind. {r \<in> set rules. ur_kind r = kind \<and> pattern_matches (ur_pattern r) subject}) in
    (\<forall>r \<in> matching ''deny''. deny_level r \<le> lv') \<and> (matching ''deny'' \<noteq> {} \<longrightarrow> lv \<le> lv') \<and>
    (lv = Critical \<longrightarrow> lv' = Critical) \<and>
    (lv' < lv \<longrightarrow> lv = High \<and> lv' = Normal \<and> matching ''deny'' = {} \<and> matching ''allow'' \<noteq> {})"
proof -
  note c = apply_user_rules_cases [of subject rules lv ids]
  show ?thesis
  proof (cases "matching_rules ''deny'' subject rules = []")
    case False
    with foldl_raise [of lv deny_level "matching_rules ''deny'' subject rules"] c(1) show ?thesis
      by (auto simp: Let_def set_matching [symmetric])
  next
    case True
    show ?thesis
    proof (cases "lv = High \<and> matching_rules ''allow'' subject rules \<noteq> []")
      case High: True
      with c(2) True show ?thesis by (simp add: Let_def set_matching [symmetric])
    next
      case False
      with c(3) True show ?thesis by (simp add: Let_def set_matching [symmetric])
    qed
  qed
qed

lemma user_rules_bounds_witness:
  "snd (apply_user_rules Normal [] ''git push'' [\<lparr>ur_id = 1, ur_kind = ''deny'', ur_pattern = ''git *'', ur_level = ''high''\<rparr>])
     = [''user-deny:1''] \<and>
   High \<le> fst (apply_user_rules Normal [] ''git push'' [\<lparr>ur_id = 1, ur_kind = ''deny'', ur_pattern = ''git *'', ur_level = ''high''\<rparr>])"
proof -
  let ?r = "\<lparr>ur_id = 1, ur_kind = ''deny'', ur_pattern = ''git *'', ur_level = ''high''\<rparr>"
  have m: "pattern_matches (ur_pattern ?r) ''git push''" "ur_kind ?r = ''deny''" "deny_level ?r = High" by code_simp+
  have "snd (apply_user_rules Normal [] ''git push'' [?r]) = [''user-deny:1'']" by code_simp
  moreover have "deny_level ?r \<le> fst (apply_user_rules Normal [] ''git push'' [?r])"
    using user_rules_bounds [of Normal "[]" "''git push''" "[?r]"] m(1,2) unfolding Let_def split_def by auto
  ultimately show ?thesis using m(3) by simp
qed

text \<open>
  The floor does not survive an allow pattern. A floor rule the user has lowered to high is lowered again, to normal, by an
  allow pattern that matches, and the call is allowed in silence even in a tainted pane.
\<close>

theorem floor_rule_allowed_by_pattern:
  "let lv = apply_overrides Critical [''credential-access''] [(''credential-access'', ''high'')];
       (lv', ids) = apply_user_rules lv [''credential-access''] ''cat ~/.ssh/id_rsa''
          [\<lparr>ur_id = 3, ur_kind = ''allow'', ur_pattern = ''cat *'', ur_level = ''normal''\<rparr>]
   in lv = High \<and> lv' = Normal \<and> decide (effective_level lv' True True) ''remote'' True = Allow"
  by code_simp

end
