(* ===== verification/Guard_Taint.thy ===== *)
theory Guard_Taint
  imports Messaging
begin

text \<open>
  \<open>backend/agent_team_backend/guard/taint.py\<close> with the taint tables of \<open>guard/store.py\<close>: which panes have received text
  from outside the local user. The tables are lists in row order (\<open>guard_taint\<close> as a dictionary, \<open>guard_taint_events\<close> in
  the order of its ids); the store's caches mirror them and are left out, and the database does not fail. The events for the window
  are collected in \<open>tn_emits\<close>.

  The pane registry is reached through the two questions the code asks it, \<open>_canonical\<close> and \<open>_former_ids\<close>: the operations take
  them as arguments, and \<open>pane_directory\<close> is the contract between them. It is interpreted on the
  registry of \<open>Messaging\<close>. \<open>agent_messaging.current\<close> purges expired panes first; the purges within one
  operation happen at one instant, so the operations on the registry purge it once.
\<close>

section \<open>The tables\<close>

record taint_row =
  tr_sources :: "string list"
  tr_since :: rat
  tr_detail :: string

record taint_event =
  te_id :: nat
  te_pane :: string
  te_ts :: rat
  te_source :: string
  te_detail :: string
  te_msg_key :: string

record taint_state =
  tn_rows :: "(string \<times> taint_row) list"
  tn_events :: "taint_event list"
  tn_next :: nat
  tn_emits :: "(string \<times> bool) list"

definition no_taint :: taint_state where
  "no_taint = \<lparr>tn_rows = [], tn_events = [], tn_next = 1, tn_emits = []\<rparr>"

definition TAINT_EVENTS_KEEP :: nat where "TAINT_EVENTS_KEEP = 50"
definition TAINT_EVENTS_TOTAL :: nat where "TAINT_EVENTS_TOTAL = 5000"

definition taint_get :: "string \<Rightarrow> taint_state \<Rightarrow> taint_row option" where
  "taint_get pid st = dget (tn_rows st) pid"

text \<open>The upsert keeps the \<open>since\<close> of an existing row.\<close>

definition taint_upsert :: "string \<Rightarrow> string list \<Rightarrow> rat \<Rightarrow> string \<Rightarrow> taint_state \<Rightarrow> taint_state" where
  "taint_upsert pid sources since detail st =
     (let since' = (case dget (tn_rows st) pid of Some r \<Rightarrow> tr_since r | None \<Rightarrow> since)
      in st\<lparr>tn_rows := dset pid \<lparr>tr_sources = sort (remdups sources), tr_since = since', tr_detail = detail\<rparr> (tn_rows st)\<rparr>)"

definition taint_delete :: "string \<Rightarrow> taint_state \<Rightarrow> taint_state \<times> bool" where
  "taint_delete pid st = (st\<lparr>tn_rows := dpop pid (tn_rows st)\<rparr>, dget (tn_rows st) pid \<noteq> None)"

definition keep_last :: "nat \<Rightarrow> 'a list \<Rightarrow> 'a list" where
  "keep_last n xs = drop (length xs - n) xs"

text \<open>Per pane the newest 50 events stay, over all panes the newest 5000.\<close>

definition taint_event_add ::
    "string \<Rightarrow> rat \<Rightarrow> string \<Rightarrow> string \<Rightarrow> string \<Rightarrow> taint_state \<Rightarrow> taint_state" where
  "taint_event_add pid ts source detail msg_key st =
     (let es = tn_events st @ [\<lparr>te_id = tn_next st, te_pane = pid, te_ts = ts, te_source = source,
                                te_detail = detail, te_msg_key = msg_key\<rparr>];
          newest = map te_id (keep_last TAINT_EVENTS_KEEP (filter (\<lambda>e. te_pane e = pid) es));
          es1 = filter (\<lambda>e. te_pane e = pid \<longrightarrow> te_id e \<in> set newest) es
      in st\<lparr>tn_events := keep_last TAINT_EVENTS_TOTAL es1, tn_next := Suc (tn_next st)\<rparr>)"

definition taint_events_move :: "string \<Rightarrow> string \<Rightarrow> taint_state \<Rightarrow> taint_state" where
  "taint_events_move old new st =
     st\<lparr>tn_events := map (\<lambda>e. if te_pane e = old then e\<lparr>te_pane := new\<rparr> else e) (tn_events st)\<rparr>"

definition taint_events_delete :: "string \<Rightarrow> taint_state \<Rightarrow> taint_state" where
  "taint_events_delete pid st = st\<lparr>tn_events := filter (\<lambda>e. te_pane e \<noteq> pid) (tn_events st)\<rparr>"

definition emit_taint :: "string \<Rightarrow> bool \<Rightarrow> taint_state \<Rightarrow> taint_state" where
  "emit_taint pid tainted st = st\<lparr>tn_emits := tn_emits st @ [(pid, tainted)]\<rparr>"


section \<open>Marks\<close>

text \<open>The search of \<open>_row\<close> through the former ids: the first row found is adopted under the canonical id.\<close>

fun adopt_row :: "string \<Rightarrow> string list \<Rightarrow> taint_state \<Rightarrow> taint_state \<times> taint_row option" where
  "adopt_row c [] st = (st, None)"
| "adopt_row c (old # olds) st =
     (case taint_get old st of
        None \<Rightarrow> adopt_row c olds st
      | Some prior \<Rightarrow>
          (let st1 = taint_upsert c (tr_sources prior) (tr_since prior) (tr_detail prior) st;
               st2 = fst (taint_delete old st1);
               st3 = taint_events_move old c st2
           in (st3, taint_get c st3)))"

definition taint_row_of ::
    "(string \<Rightarrow> string) \<Rightarrow> (string \<Rightarrow> string list) \<Rightarrow> string \<Rightarrow> taint_state \<Rightarrow> taint_state \<times> taint_row option" where
  "taint_row_of canon formers pid st =
     (let c = canon pid in
      case taint_get c st of
        Some r \<Rightarrow> (st, Some r)
      | None \<Rightarrow> adopt_row c (formers c @ (if pid \<noteq> c then [pid] else [])) st)"

definition mark_in ::
    "(string \<Rightarrow> string) \<Rightarrow> (string \<Rightarrow> string list) \<Rightarrow> rat \<Rightarrow> string \<Rightarrow> string \<Rightarrow> string \<Rightarrow> string \<Rightarrow>
     taint_state \<Rightarrow> taint_state" where
  "mark_in canon formers now pid source detail msg_key st =
     (if pid = [] then st
      else
        (let c = canon pid;
             (st1, row) = taint_row_of canon formers c st;
             st2 = taint_event_add c now source (take 200 detail) msg_key st1
         in case row of
              Some r \<Rightarrow>
                (if source \<in> set (tr_sources r) then st2
                 else taint_upsert c (tr_sources r @ [source]) (tr_since r) (take 200 detail) st2)
            | None \<Rightarrow> emit_taint c True (taint_upsert c [source] now (take 200 detail) st2)))"

definition tainted_in ::
    "(string \<Rightarrow> string) \<Rightarrow> (string \<Rightarrow> string list) \<Rightarrow> string \<Rightarrow> taint_state \<Rightarrow> taint_state \<times> bool" where
  "tainted_in canon formers pid st =
     (if pid = [] then (st, False)
      else (case taint_row_of canon formers pid st of (st1, row) \<Rightarrow> (st1, row \<noteq> None)))"

definition clear_in ::
    "(string \<Rightarrow> string) \<Rightarrow> (string \<Rightarrow> string list) \<Rightarrow> string \<Rightarrow> taint_state \<Rightarrow> taint_state" where
  "clear_in canon formers pid st =
     (let c = canon pid;
          ids = remdups (c # pid # formers c);
          (st1, removed) =
            foldl (\<lambda>(s, rm) i. let (s1, gone) = taint_delete i s in (taint_events_delete i s1, gone \<or> rm))
              (st, False) ids
      in if removed then emit_taint c False st1 else st1)"

text \<open>Rows under the current id of their pane, newest first; of two rows for one pane the first is listed.\<close>

definition listed_in :: "(string \<Rightarrow> string) \<Rightarrow> taint_state \<Rightarrow> (string \<times> taint_row) list" where
  "listed_in canon st =
     foldl (\<lambda>acc (pid, r). if has_key (canon pid) acc then acc else acc @ [(canon pid, r)]) []
       (sort_key (\<lambda>(pid, r). - tr_since r) (tn_rows st))"

text \<open>The events of a pane, newest first (\<open>ORDER BY ts DESC, id DESC\<close>), at most 50.\<close>

definition events_in ::
    "(string \<Rightarrow> string) \<Rightarrow> (string \<Rightarrow> string list) \<Rightarrow> string \<Rightarrow> taint_state \<Rightarrow> taint_event list" where
  "events_in canon formers pid st =
     take TAINT_EVENTS_KEEP
       (sort_key (\<lambda>e. - te_ts e) (sort_key (\<lambda>e. - int (te_id e))
         (filter (\<lambda>e. te_pane e \<in> set (canon pid # pid # formers (canon pid))) (tn_events st))))"


section \<open>On the registry\<close>

text \<open>\<open>_canonical\<close> on a registry in which nothing has expired.\<close>

definition canonical_id :: "registry \<Rightarrow> string \<Rightarrow> string" where
  "canonical_id reg pid =
     (case (case dget (rg_aliases reg) pid of
              Some a \<Rightarrow> dget (rg_panes reg) (al_pane_id a) | None \<Rightarrow> dget (rg_panes reg) pid) of
        Some p \<Rightarrow> rp_pane_id p | None \<Rightarrow> pid)"

definition mark_tainted ::
    "rat \<Rightarrow> string \<Rightarrow> string \<Rightarrow> string \<Rightarrow> string \<Rightarrow> registry \<times> taint_state \<Rightarrow> registry \<times> taint_state" where
  "mark_tainted now pid source detail msg_key = (\<lambda>(reg, st).
     if pid = [] then (reg, st)
     else let reg1 = fst (purge_expired now reg)
          in (reg1, mark_in (canonical_id reg1) (former_ids reg1) now pid source detail msg_key st))"

definition is_tainted :: "rat \<Rightarrow> string \<Rightarrow> registry \<times> taint_state \<Rightarrow> (registry \<times> taint_state) \<times> bool" where
  "is_tainted now pid = (\<lambda>(reg, st).
     if pid = [] then ((reg, st), False)
     else let reg1 = fst (purge_expired now reg);
              (st1, b) = tainted_in (canonical_id reg1) (former_ids reg1) pid st
          in ((reg1, st1), b))"

definition clear_taint :: "rat \<Rightarrow> string \<Rightarrow> registry \<times> taint_state \<Rightarrow> registry \<times> taint_state" where
  "clear_taint now pid = (\<lambda>(reg, st).
     let reg1 = fst (purge_expired now reg)
     in (reg1, clear_in (canonical_id reg1) (former_ids reg1) pid st))"

definition list_tainted :: "rat \<Rightarrow> registry \<times> taint_state \<Rightarrow> registry \<times> (string \<times> taint_row) list" where
  "list_tainted now = (\<lambda>(reg, st).
     if tn_rows st = [] then (reg, [])
     else let reg1 = fst (purge_expired now reg) in (reg1, listed_in (canonical_id reg1) st))"

definition taint_events :: "rat \<Rightarrow> string \<Rightarrow> registry \<times> taint_state \<Rightarrow> registry \<times> taint_event list" where
  "taint_events now pid = (\<lambda>(reg, st).
     let reg1 = fst (purge_expired now reg)
     in (reg1, events_in (canonical_id reg1) (former_ids reg1) pid st))"


section \<open>Pipeline runs\<close>

record pipeline_runs =
  pr_armed :: "(string \<times> string) list"
  pr_tainted :: "(string \<times> string) list"

definition arm_pipeline_run :: "string \<Rightarrow> string \<Rightarrow> pipeline_runs \<Rightarrow> pipeline_runs" where
  "arm_pipeline_run ws detail pr = pr\<lparr>pr_armed := dset (normalize_workspace ws) detail (pr_armed pr)\<rparr>"

definition disarm_pipeline_run :: "string \<Rightarrow> pipeline_runs \<Rightarrow> pipeline_runs" where
  "disarm_pipeline_run ws pr = pr\<lparr>pr_armed := dpop (normalize_workspace ws) (pr_armed pr)\<rparr>"

text \<open>An empty detail is false, as a missing one is.\<close>

definition pipeline_run_started :: "string \<Rightarrow> pipeline_runs \<Rightarrow> pipeline_runs" where
  "pipeline_run_started ws pr =
     (let k = normalize_workspace ws;
          detail = (case dget (pr_armed pr) k of Some d \<Rightarrow> d | None \<Rightarrow> []);
          pr1 = pr\<lparr>pr_armed := dpop k (pr_armed pr)\<rparr>
      in if detail \<noteq> [] then pr1\<lparr>pr_tainted := dset k detail (pr_tainted pr1)\<rparr>
         else pr1\<lparr>pr_tainted := dpop k (pr_tainted pr1)\<rparr>)"

definition pipeline_pane_spawned ::
    "rat \<Rightarrow> string \<Rightarrow> string \<Rightarrow> pipeline_runs \<Rightarrow> registry \<times> taint_state \<Rightarrow> registry \<times> taint_state" where
  "pipeline_pane_spawned now ws pid pr st =
     (case dget (pr_tainted pr) (normalize_workspace ws) of
        Some d \<Rightarrow> if d \<noteq> [] then mark_tainted now pid ''agent'' d [] st else st
      | None \<Rightarrow> st)"


section \<open>The contract of the pane directory\<close>

text \<open>
  A directory answers, for an id, the current id of its pane, and for a current id all the ids that led there. \<open>ok\<close> says when
  its answers can be relied on.
\<close>

lemma image_swap:
  assumes "f old = c" "f c = c" "old \<noteq> c" "old \<in> K"
  shows "f ` (insert c K - {old}) = f ` K"
proof -
  have "f ` (insert c K - {old}) = insert (f c) (f ` (K - {old}))" using assms(3) by (simp add: insert_Diff_if)
  also have "\<dots> = f ` insert old (K - {old})" unfolding image_insert assms(1,2) ..
  also have "insert old (K - {old}) = K" using assms(4) by (rule insert_Diff)
  finally show ?thesis .
qed

lemma tainted_in_conv:
  "p \<noteq> [] \<Longrightarrow> tainted_in canon formers p st =
     (fst (taint_row_of canon formers p st), snd (taint_row_of canon formers p st) \<noteq> None)"
  by (simp add: tainted_in_def split_def)

locale pane_directory =
  fixes ok :: "'r \<Rightarrow> bool"
    and canon :: "'r \<Rightarrow> string \<Rightarrow> string"
    and formers :: "'r \<Rightarrow> string \<Rightarrow> string list"
  assumes canon_idem: "ok r \<Longrightarrow> canon r (canon r p) = canon r p"
    and formers_iff: "ok r \<Longrightarrow> q \<in> set (formers r c) \<longleftrightarrow> canon r q = c \<and> q \<noteq> c"
begin

text \<open>The abstract state: the set of current ids whose pane is marked.\<close>

definition marked :: "'r \<Rightarrow> taint_state \<Rightarrow> string set" where
  "marked r st = canon r ` fst ` set (tn_rows st)"

lemma marked_upsert: "marked r (taint_upsert p ss t dt st) = insert (canon r p) (marked r st)"
  by (auto simp: marked_def taint_upsert_def Let_def dom_update)

lemma marked_fields [simp]:
  "marked r (taint_events_move a b st) = marked r st"
  "marked r (taint_event_add p t s d k st) = marked r st"
  "marked r (taint_events_delete p st) = marked r st"
  "marked r (emit_taint p tt st) = marked r st"
  by (simp_all add: marked_def taint_events_move_def taint_event_add_def taint_events_delete_def emit_taint_def Let_def)

lemma rows_delete: "fst ` set (tn_rows (fst (taint_delete p st))) = fst ` set (tn_rows st) - {p}"
  by (auto simp: taint_delete_def set_dpop)

lemma marked_move:
  assumes "canon r old = c" "canon r c = c" "old \<noteq> c" "taint_get old st \<noteq> None"
  shows "marked r (fst (taint_delete old (taint_upsert c ss t dt st))) = marked r st"
proof -
  have "old \<in> fst ` set (tn_rows st)" using assms(4) by (auto simp: taint_get_def dest: dget_has_key)
  moreover have "fst ` set (tn_rows (fst (taint_delete old (taint_upsert c ss t dt st)))) =
    insert c (fst ` set (tn_rows st)) - {old}"
    by (subst rows_delete) (auto simp: taint_upsert_def Let_def dom_update)
  ultimately show ?thesis unfolding marked_def using image_swap [OF assms(1-3)] by simp
qed

lemma adopt_spec:
  assumes "ok r" "canon r c = c" "\<forall>q \<in> set olds. canon r q = c \<and> q \<noteq> c"
  shows "marked r (fst (adopt_row c olds st)) = marked r st \<and>
    (snd (adopt_row c olds st) \<noteq> None \<longleftrightarrow> (\<exists>q \<in> set olds. has_key q (tn_rows st)))"
  using assms(3)
proof (induction olds)
  case (Cons old olds)
  show ?case
  proof (cases "taint_get old st")
    case None
    then have "\<not> has_key old (tn_rows st)" by (simp add: taint_get_def dget_None_iff)
    then show ?thesis using Cons None by simp
  next
    case (Some prior)
    then have "has_key old (tn_rows st)" by (simp add: taint_get_def dget_has_key)
    moreover have "marked r (fst (adopt_row c (old # olds) st)) = marked r st"
      using Some Cons.prems assms(2) by (simp add: Let_def marked_move)
    moreover have "snd (adopt_row c (old # olds) st) \<noteq> None"
      using Some Cons.prems
      by (auto simp: Let_def taint_get_def taint_events_move_def taint_delete_def taint_upsert_def)
    ultimately show ?thesis by auto
  qed
qed simp

lemma row_spec:
  assumes "ok r"
  shows "marked r (fst (taint_row_of (canon r) (formers r) p st)) = marked r st"
    and "snd (taint_row_of (canon r) (formers r) p st) \<noteq> None \<longleftrightarrow> canon r p \<in> marked r st"
proof -
  let ?c = "canon r p"
  let ?olds = "formers r ?c @ (if p \<noteq> ?c then [p] else [])"
  have olds: "\<forall>q \<in> set ?olds. canon r q = ?c \<and> q \<noteq> ?c" using formers_iff [OF assms] by auto
  have all: "q \<in> set ?olds" if "canon r q = ?c" "q \<noteq> ?c" for q using formers_iff [OF assms] that by auto
  note ad = adopt_spec [OF assms canon_idem [OF assms, of p] olds, of st]
  have mem: "?c \<in> marked r st \<longleftrightarrow> has_key ?c (tn_rows st) \<or> (\<exists>q \<in> set ?olds. has_key q (tn_rows st))"
  proof
    assume "?c \<in> marked r st"
    then obtain q where q: "has_key q (tn_rows st)" "canon r q = ?c" unfolding marked_def by (metis imageE)
    then show "has_key ?c (tn_rows st) \<or> (\<exists>q \<in> set ?olds. has_key q (tn_rows st))"
    proof (cases "q = ?c")
      case True
      with q(1) show ?thesis by simp
    next
      case False
      then have "q \<in> set ?olds" by (rule all [OF q(2)])
      with q(1) have "\<exists>q \<in> set ?olds. has_key q (tn_rows st)" by (rule bexI)
      then show ?thesis by (rule disjI2)
    qed
  next
    assume "has_key ?c (tn_rows st) \<or> (\<exists>q \<in> set ?olds. has_key q (tn_rows st))"
    then obtain q where "has_key q (tn_rows st)" "canon r q = ?c"
    proof
      assume "has_key ?c (tn_rows st)"
      then show thesis by (rule that) (rule canon_idem [OF assms])
    next
      assume "\<exists>q \<in> set ?olds. has_key q (tn_rows st)"
      then obtain q where q: "q \<in> set ?olds" "has_key q (tn_rows st)" by (rule bexE)
      from bspec [OF olds q(1)] have "canon r q = ?c" by (rule conjunct1)
      with q(2) show thesis by (rule that)
    qed
    then show "?c \<in> marked r st" unfolding marked_def by (metis image_eqI)
  qed
  show "marked r (fst (taint_row_of (canon r) (formers r) p st)) = marked r st"
  proof (cases "taint_get ?c st")
    case None
    show ?thesis unfolding taint_row_of_def Let_def None option.case by (rule conjunct1 [OF ad])
  qed (simp add: taint_row_of_def Let_def)
  show "snd (taint_row_of (canon r) (formers r) p st) \<noteq> None \<longleftrightarrow> ?c \<in> marked r st"
  proof (cases "taint_get ?c st")
    case None
    then have "\<not> has_key ?c (tn_rows st)" by (simp add: taint_get_def dget_None_iff)
    with None ad mem show ?thesis by (simp add: taint_row_of_def Let_def)
  next
    case (Some row)
    then have "has_key ?c (tn_rows st)" by (simp add: taint_get_def dget_has_key)
    with Some mem show ?thesis by (simp add: taint_row_of_def Let_def)
  qed
qed

lemma adopt_at: "snd (adopt_row c olds st) \<noteq> None \<Longrightarrow> has_key c (tn_rows (fst (adopt_row c olds st)))"
  by (induction olds) (auto simp: Let_def taint_get_def dest: dget_has_key split: option.splits)

lemma row_at_canon:
  assumes "ok r" "snd (taint_row_of (canon r) (formers r) p st) \<noteq> None"
  shows "has_key (canon r p) (tn_rows (fst (taint_row_of (canon r) (formers r) p st)))"
proof (cases "taint_get (canon r p) st")
  case None
  show ?thesis using assms(2) unfolding taint_row_of_def Let_def None option.case by (rule adopt_at)
next
  case (Some row)
  then show ?thesis by (simp add: taint_row_of_def Let_def taint_get_def dget_has_key)
qed

lemma tainted_spec:
  assumes "ok r" "p \<noteq> []"
  shows "marked r (fst (tainted_in (canon r) (formers r) p st)) = marked r st"
    and "snd (tainted_in (canon r) (formers r) p st) \<longleftrightarrow> canon r p \<in> marked r st"
  unfolding tainted_in_conv [OF assms(2)] fst_conv snd_conv by (rule row_spec [OF assms(1)])+

lemma mark_spec:
  assumes "ok r" "p \<noteq> []"
  shows "marked r (mark_in (canon r) (formers r) now p src dt k st) = insert (canon r p) (marked r st)"
  using row_spec [OF assms(1), of "canon r p" st] canon_idem [OF assms(1), of p] assms(2)
  by (auto simp: mark_in_def Let_def marked_upsert split: prod.splits option.splits)

lemma marked_deletes:
  "marked r (fst (foldl (\<lambda>(s, rm) i. let (s1, gone) = taint_delete i s in (taint_events_delete i s1, gone \<or> rm))
     (st, b) ids)) = canon r ` (fst ` set (tn_rows st) - set ids)"
proof (induction ids arbitrary: st b)
  case (Cons i ids)
  have "fst ` set (tn_rows (taint_events_delete i (fst (taint_delete i st)))) = fst ` set (tn_rows st) - {i}"
    using rows_delete [of i st] by (simp add: taint_events_delete_def)
  with Cons show ?case by (auto simp: Let_def split_def Diff_insert2 [symmetric] insert_commute)
qed (simp add: marked_def)

lemma clear_spec:
  assumes "ok r"
  shows "marked r (clear_in (canon r) (formers r) p st) = marked r st - {canon r p}"
proof -
  let ?c = "canon r p"
  have ids: "set (remdups (?c # p # formers r ?c)) = {q. canon r q = ?c}"
    using formers_iff [OF assms] canon_idem [OF assms] by auto
  have "marked r (clear_in (canon r) (formers r) p st) =
    marked r (fst (foldl (\<lambda>(s, rm) i. let (s1, gone) = taint_delete i s in (taint_events_delete i s1, gone \<or> rm))
      (st, False) (remdups (?c # p # formers r ?c))))"
    by (simp only: clear_in_def Let_def split_def marked_fields if_distrib [of "marked r"] if_cancel)
  also have "\<dots> = canon r ` (fst ` set (tn_rows st) - {q. canon r q = ?c})"
    unfolding marked_deletes ids ..
  also have "\<dots> = marked r st - {?c}" by (auto simp: marked_def)
  finally show ?thesis .
qed

end


section \<open>The registry is such a directory\<close>

text \<open>
  The registry can be relied on when its aliases are flat (one lookup reaches the end of every chain) and lead to
  panes that are registered, under the invariant of the registry.
\<close>

definition dir_ok :: "registry \<Rightarrow> bool" where
  "dir_ok reg = (reg_inv reg \<and> flat (rg_aliases reg) \<and>
     list_all (\<lambda>(k, a). dget (rg_panes reg) (al_pane_id a) \<noteq> None) (rg_aliases reg))"

lemma dir_ok_target:
  assumes "dir_ok reg" "dget (rg_aliases reg) k = Some a"
  obtains e where "dget (rg_panes reg) (al_pane_id a) = Some e" "rp_pane_id e = al_pane_id a"
proof -
  have "(k, a) \<in> set (rg_aliases reg)" using assms(2) by (rule map_of_SomeD)
  with assms(1) obtain e where e: "dget (rg_panes reg) (al_pane_id a) = Some e"
    by (auto simp: dir_ok_def list_all_iff)
  with panes_lookup_id [of reg, OF _ e] assms(1) that show ?thesis by (auto simp: dir_ok_def reg_inv_def)
qed

lemma canonical_id_conv:
  assumes "dir_ok reg"
  shows "canonical_id reg p = (case dget (rg_aliases reg) p of Some a \<Rightarrow> al_pane_id a | None \<Rightarrow> p)"
proof (cases "dget (rg_aliases reg) p")
  case None
  have ok: "panes_ok reg" using assms by (simp add: dir_ok_def reg_inv_def)
  show ?thesis
  proof (cases "dget (rg_panes reg) p")
    case (Some e)
    with panes_lookup_id [OF ok Some] show ?thesis by (simp add: canonical_id_def None)
  qed (simp add: canonical_id_def None)
next
  case (Some a)
  obtain e where "dget (rg_panes reg) (al_pane_id a) = Some e" "rp_pane_id e = al_pane_id a"
    by (rule dir_ok_target [OF assms Some])
  then show ?thesis by (simp add: canonical_id_def Some)
qed

interpretation panes: pane_directory dir_ok canonical_id former_ids
proof unfold_locales
  fix reg p
  assume ok: "dir_ok reg"
  then show "canonical_id reg (canonical_id reg p) = canonical_id reg p"
    by (auto simp: canonical_id_conv dir_ok_def flat_def split: option.splits)
next
  fix reg q c
  assume ok: "dir_ok reg"
  have d: "distinct (keys (rg_aliases reg))" and ne: "\<And>k a. dget (rg_aliases reg) k = Some a \<Longrightarrow> al_pane_id a \<noteq> k"
    using ok by (auto simp: dir_ok_def reg_inv_def aliases_ok_def)
  have "q \<in> set (former_ids reg c) \<longleftrightarrow> (\<exists>a. dget (rg_aliases reg) q = Some a \<and> al_pane_id a = c)"
    by (simp add: set_former_ids dget_iff_mem [OF d])
  also have "\<dots> \<longleftrightarrow> canonical_id reg q = c \<and> q \<noteq> c"
    using ne by (auto simp: canonical_id_conv [OF ok] split: option.splits)
  finally show "q \<in> set (former_ids reg c) \<longleftrightarrow> canonical_id reg q = c \<and> q \<noteq> c" .
qed

text \<open>Purging twice at one instant is purging once, so the operations above may purge once.\<close>

lemma purge_idem: "reg_inv reg \<Longrightarrow> expired_ids now (fst (purge_expired now reg)) = []"
proof -
  assume inv: "reg_inv reg"
  have "\<not> is_expired now e" if "dget (rg_panes (fst (purge_expired now reg))) k = Some e" for k e
    using that unfolding purge_lookup [OF reg_inv_distinct [OF inv]] by (auto split: option.splits if_splits)
  moreover have "distinct (keys (rg_panes (fst (purge_expired now reg))))"
    using purge_inv [OF inv] by (rule reg_inv_distinct)
  ultimately show ?thesis by (auto simp: expired_ids_def dget_iff_mem)
qed


section \<open>Properties\<close>

definition marked_ids :: "registry \<Rightarrow> taint_state \<Rightarrow> string set" where
  "marked_ids reg st = panes.marked reg st"

text \<open>
  C32: The taint marks implement a set of panes. On a registry whose answers can be relied on, asking for a mark tells whether the
  pane's current id is in the set and changes nothing in it (a row may move to the current id), a delivery adds the
  current id, clearing removes exactly it, whichever of its ids, former or current, the pane is named by.
\<close>

theorem taint_marks_refine_set:
  assumes "dir_ok reg" and "p \<noteq> []"
  shows "snd (tainted_in (canonical_id reg) (former_ids reg) p st) = (canonical_id reg p \<in> marked_ids reg st) \<and>
    marked_ids reg (fst (tainted_in (canonical_id reg) (former_ids reg) p st)) = marked_ids reg st \<and>
    marked_ids reg (mark_in (canonical_id reg) (former_ids reg) now p src detail k st) =
      insert (canonical_id reg p) (marked_ids reg st) \<and>
    marked_ids reg (clear_in (canonical_id reg) (former_ids reg) p st) = marked_ids reg st - {canonical_id reg p}"
  unfolding marked_ids_def
  using panes.tainted_spec [OF assms, of st] panes.mark_spec [OF assms, of now src detail k st]
    panes.clear_spec [OF assms(1), of p st]
  by blast

text \<open>A pane restored under a new id: \<open>n1\<close> took the place of \<open>p1\<close>.\<close>

definition restored_registry :: registry where
  "restored_registry = run_ops reg_step empty_registry
     (sample_ops @ [OpRegister (sample_pane ''n1'' ''alice'' ''/home/web'') (Some 7), OpAliases ''n1'' [''p1''] ''/home/web''])"

lemma restored_aliases: "rg_aliases restored_registry = [(''p1'', \<lparr>al_pane_id = ''n1'', al_workspace_path = ''/home/web''\<rparr>)]"
  by code_simp

lemma restored_target: "dget (rg_panes restored_registry) ''n1'' \<noteq> None"
  by code_simp

lemma restored_ok: "dir_ok restored_registry"
  unfolding dir_ok_def
proof (intro conjI)
  show "reg_inv restored_registry"
    unfolding restored_registry_def by (rule reg_sm.inv_reachable, rule reg_sm.run_reachable)
qed (use restored_target in \<open>simp_all add: restored_aliases flat_def\<close>)

lemma sample_registry_ok: "dir_ok sample_registry"
  unfolding dir_ok_def
proof (intro conjI)
  have "rg_aliases sample_registry = []" by code_simp
  then show "flat (rg_aliases sample_registry)"
    "list_all (\<lambda>(k, a). dget (rg_panes sample_registry) (al_pane_id a) \<noteq> None) (rg_aliases sample_registry)"
    by (simp_all add: flat_def)
qed (rule sample_inv)

lemma taint_marks_refine_set_witness:
  "marked_ids restored_registry (mark_in (canonical_id restored_registry) (former_ids restored_registry) 7 ''p1'' ''agent'' [] [] no_taint) =
     insert (canonical_id restored_registry ''p1'') (marked_ids restored_registry no_taint)"
  using taint_marks_refine_set [OF restored_ok, of "''p1''" no_taint 7 "''agent''" "[]" "[]"] by simp

text \<open>
  A mark follows its pane to a new id. When a pane is tainted under its current id \<open>p\<close> and is then restored under the id
  \<open>n\<close> (the directory now leads from \<open>p\<close> to \<open>n\<close>), a lookup of \<open>n\<close> finds it tainted.
\<close>

theorem taint_follows_restored_pane:
  assumes "dir_ok reg" and "p \<noteq> []" and "canonical_id reg p = p"
    and "tainted_in (canonical_id reg) (former_ids reg) p st = (st', True)"
    and "dir_ok reg'" and "canonical_id reg' p = n" and "n \<noteq> []"
  shows "snd (tainted_in (canonical_id reg') (former_ids reg') n st')"
proof -
  have "has_key p (tn_rows st')"
    using panes.row_at_canon [OF assms(1), of p st] assms(2-4) by (simp add: tainted_in_conv)
  then have "canonical_id reg' n \<in> panes.marked reg' st'"
    using panes.canon_idem [OF assms(5), of p] assms(6) unfolding panes.marked_def by (metis image_eqI)
  then show ?thesis using panes.tainted_spec(2) [OF assms(5,7)] by simp
qed

lemma taint_follows_restored_pane_witness:
  "snd (tainted_in (canonical_id restored_registry) (former_ids restored_registry) ''n1''
     (fst (tainted_in (canonical_id sample_registry) (former_ids sample_registry) ''p1''
        (mark_in (canonical_id sample_registry) (former_ids sample_registry) 7 ''p1'' ''remote'' [] [] no_taint))))"
  by (rule taint_follows_restored_pane [OF sample_registry_ok, where p = "''p1''" and reg' = restored_registry
        and st = "mark_in (canonical_id sample_registry) (former_ids sample_registry) 7 ''p1'' ''remote'' [] [] no_taint"])
    (rule restored_ok | code_simp)+

end
