(* ===== verification/Guard_Engine.thy ===== *)
theory Guard_Engine
  imports Guard_Policy Guard_Taint
begin

text \<open>
  The guard's settings (\<open>guard/store.py\<close>), the protocol of its caches, and \<open>evaluate\<close> (\<open>guard/engine.py\<close>).

  The tables are lists in row order. The command classifier is an argument of \<open>evaluate\<close>: it answers a verdict, or nothing
  when it raises. So is the text of the excerpt (it is what a user rule matches when a call has neither command nor path) and the
  text \<open>str\<close> gives for a document value that is not text. What may go wrong is in \<open>faults\<close>. The
  wording of reasons and the columns of the audit log that only repeat the arguments are left out.
\<close>

section \<open>Settings\<close>

record guard_store =
  gs_enabled :: bool
  gs_rules :: "user_rule list"
  gs_next_rule :: int
  gs_overrides :: "(string \<times> string) list"
  gs_branches :: "string list"

definition initial_store :: guard_store where
  "initial_store = \<lparr>gs_enabled = True, gs_rules = [], gs_next_rule = 1, gs_overrides = [],
     gs_branches = [''main'', ''master'']\<rparr>"

datatype store_error = BadKind | BadLevel | EmptyPattern | UnknownRule string | FloorRule string | BadBranch

definition set_enabled :: "bool \<Rightarrow> guard_store \<Rightarrow> guard_store" where
  "set_enabled b st = st\<lparr>gs_enabled := b\<rparr>"

definition rules_add :: "string \<Rightarrow> string \<Rightarrow> string \<Rightarrow> guard_store \<Rightarrow> guard_store \<times> (store_error + int)" where
  "rules_add kind pattern lv st =
     (if kind \<noteq> ''allow'' \<and> kind \<noteq> ''deny'' then (st, Inl BadKind)
      else if kind = ''deny'' \<and> lv \<noteq> ''critical'' \<and> lv \<noteq> ''high'' then (st, Inl BadLevel)
      else
        (let level = (if kind = ''allow'' then ''normal'' else lv); p = py_strip pattern in
         if p = [] then (st, Inl EmptyPattern)
         else (st\<lparr>gs_rules := gs_rules st @ [\<lparr>ur_id = gs_next_rule st, ur_kind = kind, ur_pattern = take 500 p, ur_level = level\<rparr>],
                  gs_next_rule := gs_next_rule st + 1\<rparr>, Inr (gs_next_rule st))))"

definition rule_get :: "int \<Rightarrow> guard_store \<Rightarrow> user_rule option" where
  "rule_get i st = List.find (\<lambda>r. ur_id r = i) (gs_rules st)"

definition rules_remove :: "int \<Rightarrow> guard_store \<Rightarrow> guard_store \<times> bool" where
  "rules_remove i st =
     (st\<lparr>gs_rules := filter (\<lambda>r. ur_id r \<noteq> i) (gs_rules st)\<rparr>, list_ex (\<lambda>r. ur_id r = i) (gs_rules st))"

definition set_rule_level :: "string \<Rightarrow> string \<Rightarrow> guard_store \<Rightarrow> guard_store \<times> (store_error + unit)" where
  "set_rule_level rule_id lv st =
     (case dget BUILTIN_RULES rule_id of
        None \<Rightarrow> (st, Inl (UnknownRule rule_id))
      | Some dflt \<Rightarrow>
          (case level_of lv of
             None \<Rightarrow> (st, Inl BadLevel)
           | Some l \<Rightarrow>
               if rule_id \<in> set FLOOR_RULES \<and> l = Normal then (st, Inl (FloorRule rule_id))
               else if l = dflt then (st\<lparr>gs_overrides := dpop rule_id (gs_overrides st)\<rparr>, Inr ())
               else (st\<lparr>gs_overrides := dset rule_id lv (gs_overrides st)\<rparr>, Inr ())))"

definition branch_char :: "char \<Rightarrow> bool" where
  "branch_char c = (let n = of_char c :: nat in
     (65 \<le> n \<and> n \<le> 90) \<or> (97 \<le> n \<and> n \<le> 122) \<or> (48 \<le> n \<and> n \<le> 57) \<or> c \<in> set ''._/-'')"

definition validate_branch :: "string \<Rightarrow> store_error + string" where
  "validate_branch name =
     (let s = py_strip name;
          n = (if prefix ''refs/heads/'' s then drop (length ''refs/heads/'') s else s)
      in if \<not> (list_all branch_char n \<and> 1 \<le> length n \<and> length n \<le> 200) \<or> py_in ''..'' n \<or>
            (case n of c # _ \<Rightarrow> c = CHR ''-'' \<or> c = CHR ''/'' | [] \<Rightarrow> False) \<or> last n = CHR ''/''
         then Inl BadBranch else Inr n)"

definition add_protected_branch :: "string \<Rightarrow> guard_store \<Rightarrow> guard_store \<times> (store_error + unit)" where
  "add_protected_branch name st =
     (case validate_branch name of
        Inl e \<Rightarrow> (st, Inl e)
      | Inr n \<Rightarrow> (if n \<in> set (gs_branches st) then st else st\<lparr>gs_branches := gs_branches st @ [n]\<rparr>, Inr ()))"

definition remove_protected_branch :: "string \<Rightarrow> guard_store \<Rightarrow> guard_store \<times> bool" where
  "remove_protected_branch name st =
     (st\<lparr>gs_branches := removeAll name (gs_branches st)\<rparr>, name \<in> set (gs_branches st))"

datatype store_op =
    SetEnabled bool
  | AddRule string string string
  | RemoveRule int
  | SetLevel string string
  | AddBranch string
  | RemoveBranch string

fun store_step :: "guard_store \<Rightarrow> store_op \<Rightarrow> guard_store" where
  "store_step st (SetEnabled b) = set_enabled b st"
| "store_step st (AddRule k p l) = fst (rules_add k p l st)"
| "store_step st (RemoveRule i) = fst (rules_remove i st)"
| "store_step st (SetLevel r l) = fst (set_rule_level r l st)"
| "store_step st (AddBranch b) = fst (add_protected_branch b st)"
| "store_step st (RemoveBranch b) = fst (remove_protected_branch b st)"

text \<open>
  The saved settings are well formed: one override per rule, of a known rule, never its default, never a floor rule below high; rule
  ids are distinct and below the next one; allow rules never raise, deny rules are high or critical; no pattern is
  empty; branches are distinct and pass the check (or are the seeded pair).
\<close>

definition override_ok :: "string \<times> string \<Rightarrow> bool" where
  "override_ok e =
     (case (dget BUILTIN_RULES (fst e), level_of (snd e)) of
        (Some dflt, Some l) \<Rightarrow> l \<noteq> dflt \<and> (fst e \<in> set FLOOR_RULES \<longrightarrow> l \<noteq> Normal)
      | _ \<Rightarrow> False)"

definition rule_ok :: "user_rule \<Rightarrow> bool" where
  "rule_ok r = (ur_pattern r \<noteq> [] \<and> (ur_kind r = ''allow'' \<and> ur_level r = ''normal'' \<or>
     ur_kind r = ''deny'' \<and> ur_level r \<in> {''critical'', ''high''}))"

definition branch_ok :: "string \<Rightarrow> bool" where
  "branch_ok n = (list_all branch_char n \<and> n \<noteq> [] \<and> length n \<le> 200 \<and> \<not> py_in ''..'' n \<and>
     hd n \<noteq> CHR ''-'' \<and> hd n \<noteq> CHR ''/'' \<and> last n \<noteq> CHR ''/'')"

definition store_ok :: "guard_store \<Rightarrow> bool" where
  "store_ok st =
     (distinct (keys (gs_overrides st)) \<and> (\<forall>e \<in> set (gs_overrides st). override_ok e) \<and>
      distinct (map ur_id (gs_rules st)) \<and> (\<forall>r \<in> set (gs_rules st). rule_ok r \<and> ur_id r < gs_next_rule st) \<and>
      distinct (gs_branches st) \<and> (\<forall>b \<in> set (gs_branches st). branch_ok b))"

lemma validate_branch_ok: "validate_branch name = Inr n \<Longrightarrow> branch_ok n"
  by (auto simp: validate_branch_def branch_ok_def Let_def split: if_splits list.splits)

lemma rules_add_ok: "store_ok st \<Longrightarrow> store_ok (fst (rules_add k p l st))"
  by (auto simp: rules_add_def store_ok_def rule_ok_def Let_def)

lemma set_rule_level_ok:
  assumes "store_ok st"
  shows "store_ok (fst (set_rule_level r l st))"
proof -
  have "\<forall>e \<in> set (dset r l (gs_overrides st)). override_ok e"
    if "dget BUILTIN_RULES r = Some d" "level_of l = Some lv" "\<not> (r \<in> set FLOOR_RULES \<and> lv = Normal)" "lv \<noteq> d" for d lv
  proof -
    have "override_ok (r, l)" using that unfolding override_ok_def by (simp del: level_of.simps)
    then show ?thesis using assms set_dset_sub [of r l "gs_overrides st"] by (auto simp: store_ok_def)
  qed
  then show ?thesis using assms
    by (auto simp: set_rule_level_def store_ok_def set_dpop distinct_dset distinct_dpop simp del: level_of.simps
        split: option.splits)
qed

lemma branches_ok:
  "store_ok st \<Longrightarrow> store_ok (fst (add_protected_branch b st))"
  "store_ok st \<Longrightarrow> store_ok (fst (remove_protected_branch b st))"
  by (auto simp: add_protected_branch_def remove_protected_branch_def store_ok_def distinct_removeAll
      dest: validate_branch_ok split: sum.splits)

interpretation settings_sm: state_machine initial_store store_step store_ok
proof unfold_locales
  show "store_ok initial_store" by (simp add: initial_store_def store_ok_def branch_ok_def branch_char_def)
next
  fix st op
  assume "store_ok st"
  then show "store_ok (store_step st op)"
  proof (cases op)
    case (RemoveRule i)
    with \<open>store_ok st\<close> show ?thesis
      by (auto simp: rules_remove_def store_ok_def intro: distinct_map_filter)
  qed (simp_all add: rules_add_ok set_rule_level_ok branches_ok, simp add: set_enabled_def store_ok_def)
qed


section \<open>The caches\<close>

text \<open>
  \<open>_cached\<close> and \<open>_invalidate\<close> for one cached attribute. A load notes the generation, reads the database without holding the lock
  and keeps what it read only if the generation is the same; a writer commits and then, under the lock,
  advances the generation and drops or replaces the cache. Loads run on worker threads, any number at once; writers run on the
  loop, one at a time. Each constructor of \<open>cache_step\<close> is one step of one thread.
\<close>

record 'v cache_state =
  cs_db :: 'v
  cs_cache :: "'v option"
  cs_gen :: nat
  cs_loads :: "(nat \<times> 'v option) list"
  cs_writing :: bool

inductive cache_step :: "'v cache_state \<Rightarrow> 'v cache_state \<Rightarrow> bool" where
  load_begin: "cs_cache s = None \<Longrightarrow> cache_step s (s\<lparr>cs_loads := cs_loads s @ [(cs_gen s, None)]\<rparr>)"
| load_read: "i < length (cs_loads s) \<Longrightarrow> cs_loads s ! i = (g, None) \<Longrightarrow>
    cache_step s (s\<lparr>cs_loads := (cs_loads s)[i := (g, Some (cs_db s))]\<rparr>)"
| load_end: "i < length (cs_loads s) \<Longrightarrow> cs_loads s ! i = (g, Some v) \<Longrightarrow>
    cache_step s (s\<lparr>cs_loads := take i (cs_loads s) @ drop (Suc i) (cs_loads s),
                    cs_cache := (if cs_gen s = g then Some v else cs_cache s)\<rparr>)"
| write_commit: "\<not> cs_writing s \<Longrightarrow> cache_step s (s\<lparr>cs_db := v, cs_writing := True\<rparr>)"
| write_drop: "cs_writing s \<Longrightarrow> cache_step s (s\<lparr>cs_gen := Suc (cs_gen s), cs_cache := None, cs_writing := False\<rparr>)"
| write_replace: "cs_writing s \<Longrightarrow>
    cache_step s (s\<lparr>cs_gen := Suc (cs_gen s), cs_cache := Some (cs_db s), cs_writing := False\<rparr>)"

inductive_cases cache_stepE: "cache_step s s'"

definition cache_inv :: "'v cache_state \<Rightarrow> bool" where
  "cache_inv s =
     ((\<forall>(g, v) \<in> set (cs_loads s). g \<le> cs_gen s) \<and>
      (\<not> cs_writing s \<longrightarrow> (cs_cache s = None \<or> cs_cache s = Some (cs_db s)) \<and>
         (\<forall>(g, v) \<in> set (cs_loads s). g = cs_gen s \<longrightarrow> v = None \<or> v = Some (cs_db s))))"

lemma cache_inv_step: "cache_step s s' \<Longrightarrow> cache_inv s \<Longrightarrow> cache_inv s'"
proof (induction rule: cache_step.induct)
  case (load_read i s g)
  then have "(g, None) \<in> set (cs_loads s)" by (metis nth_mem)
  with load_read show ?case
    by (auto simp: cache_inv_def dest!: set_update_subset_insert [THEN subsetD])
next
  case (load_end i s g v)
  then have "(g, Some v) \<in> set (cs_loads s)" by (metis nth_mem)
  with load_end show ?case
    by (auto simp: cache_inv_def dest: in_set_takeD in_set_dropD)
qed (auto simp: cache_inv_def)

definition cold_cache :: "'v \<Rightarrow> 'v cache_state" where
  "cold_cache v = \<lparr>cs_db = v, cs_cache = None, cs_gen = 0, cs_loads = [], cs_writing = False\<rparr>"

lemma cache_inv_reachable: "cache_step\<^sup>*\<^sup>* (cold_cache v) s \<Longrightarrow> cache_inv s"
proof (induction rule: rtranclp_induct)
  case base
  show ?case by (simp add: cache_inv_def cold_cache_def)
next
  case (step s s')
  then show ?case by (blast intro: cache_inv_step)
qed


section \<open>Deciding a tool call\<close>

record verdict =
  vd_level :: level
  vd_rule_ids :: "string list"
  vd_parseable :: bool

record guard_decision =
  gd_action :: action
  gd_level :: level
  gd_rule_ids :: "string list"
  gd_tainted :: bool

record audit_entry =
  ae_ts :: rat
  ae_pane :: string
  ae_vendor :: string
  ae_source :: string
  ae_tool :: string
  ae_decision :: guard_decision

text \<open>What the window is told: a decision, or a failure of the guard itself.\<close>

datatype guard_event = DecisionEvent string action level | FailureEvent string bool

record faults =
  fl_store :: bool
  fl_audit :: bool
  fl_emit :: bool

record guard_state =
  gu_store :: guard_store
  gu_registry :: registry
  gu_taint :: taint_state
  gu_audit :: "audit_entry list"
  gu_events :: "guard_event list"

definition emit_event :: "faults \<Rightarrow> guard_event \<Rightarrow> guard_state \<Rightarrow> guard_state" where
  "emit_event fl e st = (if fl_emit fl then st else st\<lparr>gu_events := gu_events st @ [e]\<rparr>)"

definition audit_add :: "faults \<Rightarrow> audit_entry \<Rightarrow> guard_state \<Rightarrow> guard_state" where
  "audit_add fl e st = (if fl_audit fl then st else st\<lparr>gu_audit := gu_audit st @ [e]\<rparr>)"

text \<open>\<open>_subject\<close>: the first key that holds text, after the command.\<close>

fun first_text :: "(string \<times> jval) list \<Rightarrow> string list \<Rightarrow> string" where
  "first_text d [] = []"
| "first_text d (k # ks) = (case jget d k of JStr s \<Rightarrow> s | _ \<Rightarrow> first_text d ks)"

definition subject_of :: "(jval \<Rightarrow> string) \<Rightarrow> (string \<times> jval) list \<Rightarrow> string" where
  "subject_of py_str tool_input =
     (case jget tool_input ''command'' of
        JList xs \<Rightarrow> join_with '' '' (map (\<lambda>x. case x of JStr s \<Rightarrow> s | _ \<Rightarrow> py_str x) xs)
      | JStr s \<Rightarrow> s
      | _ \<Rightarrow> first_text tool_input [''file_path'', ''path'', ''notebook_path'', ''text''])"

text \<open>
  \<open>_evaluate\<close>, up to the point where something raises (\<open>None\<close>). A call is the pane, the vendor, the tool, its input and where it
  comes from; \<open>classify\<close> gets the protected branches.
\<close>

record tool_call =
  tc_pane :: string
  tc_vendor :: string
  tc_tool :: string
  tc_input :: jval
  tc_source :: string

definition call_input :: "tool_call \<Rightarrow> (string \<times> jval) list" where
  "call_input c = (case tc_input c of JDict d \<Rightarrow> d | _ \<Rightarrow> [])"

definition graded :: "(jval \<Rightarrow> string) \<Rightarrow> string \<Rightarrow> guard_store \<Rightarrow> tool_call \<Rightarrow> verdict \<Rightarrow> level \<times> string list" where
  "graded py_str excerpt gs c v =
     apply_user_rules (apply_overrides (vd_level v) (vd_rule_ids v) (gs_overrides gs)) (vd_rule_ids v)
       (str_or (subject_of py_str (call_input c)) excerpt) (gs_rules gs)"

definition evaluate_inner ::
    "(tool_call \<Rightarrow> string list \<Rightarrow> verdict option) \<Rightarrow> (jval \<Rightarrow> string) \<Rightarrow> (tool_call \<Rightarrow> string) \<Rightarrow> faults \<Rightarrow> rat \<Rightarrow>
     tool_call \<Rightarrow> guard_state \<Rightarrow> guard_state \<times> guard_decision option" where
  "evaluate_inner classify py_str excerpt fl now c st =
     (if fl_store fl then (st, None)
      else (case classify c (gs_branches (gu_store st)) of
              None \<Rightarrow> (st, None)
            | Some v \<Rightarrow>
                (let (lv, ids) = graded py_str (excerpt c) (gu_store st) c v;
                     ((reg, tn), tainted) = is_tainted now (tc_pane c) (gu_registry st, gu_taint st);
                     st1 = st\<lparr>gu_registry := reg, gu_taint := tn\<rparr>;
                     lv' = effective_level lv (vd_parseable v) tainted;
                     action = (if enforced (gs_enabled (gu_store st)) (tc_source c)
                               then decide lv' (tc_source c) tainted else Allow);
                     d = \<lparr>gd_action = action, gd_level = lv', gd_rule_ids = ids, gd_tainted = tainted\<rparr>;
                     st2 = (if lv' \<noteq> Normal \<or> action \<noteq> Allow
                            then audit_add fl \<lparr>ae_ts = now, ae_pane = tc_pane c, ae_vendor = tc_vendor c,
                                   ae_source = tc_source c, ae_tool = tc_tool c, ae_decision = d\<rparr> st1
                            else st1);
                     st3 = (if action \<noteq> Allow then emit_event fl (DecisionEvent (tc_pane c) action lv') st2 else st2)
                 in (st3, Some d))))"

definition evaluate ::
    "(tool_call \<Rightarrow> string list \<Rightarrow> verdict option) \<Rightarrow> (jval \<Rightarrow> string) \<Rightarrow> (tool_call \<Rightarrow> string) \<Rightarrow> faults \<Rightarrow> rat \<Rightarrow>
     tool_call \<Rightarrow> guard_state \<Rightarrow> guard_state \<times> guard_decision" where
  "evaluate classify py_str excerpt fl now c st =
     (case evaluate_inner classify py_str excerpt fl now c st of
        (st1, Some d) \<Rightarrow> (st1, d)
      | (st1, None) \<Rightarrow>
          (let action = (if tc_source c = ''relay'' then Deny else Allow)
           in (emit_event fl (FailureEvent (tc_pane c) (action = Deny)) st1,
               \<lparr>gd_action = action, gd_level = Normal, gd_rule_ids = [''guard-error''], gd_tainted = False\<rparr>)))"


section \<open>Properties\<close>

text \<open>
  The saved settings stay well formed under every sequence of the store's operations, with any arguments: overrides only of known
  rules, never a floor rule below high; allow rules never raise and deny rules are high or critical; protected
  branches pass the check.
\<close>

theorem settings_well_formed:
  assumes "reachable initial_store store_step st"
  shows "store_ok st"
  by (rule settings_sm.inv_reachable [OF assms])

lemma settings_well_formed_witness:
  "store_ok (store_step initial_store (SetLevel ''sudo'' ''high''))"
  by (rule settings_well_formed, rule reach_step, rule reach_init)



text \<open>
  C7: The chat relay fails closed. A call that comes from the relay is allowed only when it was graded normal: it is denied when
  its grade is high or critical and when anything in the evaluation raises, whether or not the guard is switched on, and it
  is never answered with a question.
\<close>

theorem relay_fails_closed:
  assumes "tc_source c = ''relay''"
  shows "let d = snd (evaluate classify py_str excerpt fl now c st) in
    gd_action d \<noteq> Ask \<and> (gd_action d = Allow \<longrightarrow> gd_level d = Normal) \<and>
    (fl_store fl \<or> classify c (gs_branches (gu_store st)) = None \<longrightarrow> gd_action d = Deny) \<and>
    (\<forall>v. classify c (gs_branches (gu_store st)) = Some v \<longrightarrow>
       fst (graded py_str (excerpt c) (gu_store st) c v) \<noteq> Normal \<longrightarrow> gd_action d = Deny)"
  using assms
  by (auto simp: evaluate_def evaluate_inner_def Let_def split_def enforced_def decide_def MATRIX_def effective_level_def
      split: option.splits level.splits)

definition sample_call :: "string \<Rightarrow> tool_call" where
  "sample_call src = \<lparr>tc_pane = ''p1'', tc_vendor = ''claude'', tc_tool = ''Bash'',
     tc_input = JDict [(''command'', JStr ''git push'')], tc_source = src\<rparr>"

definition sample_guard :: guard_state where
  "sample_guard = \<lparr>gu_store = initial_store, gu_registry = sample_registry, gu_taint = no_taint, gu_audit = [], gu_events = []\<rparr>"

definition sample_classify :: "tool_call \<Rightarrow> string list \<Rightarrow> verdict option" where
  "sample_classify c branches = Some \<lparr>vd_level = High, vd_rule_ids = [''git-push''], vd_parseable = True\<rparr>"

definition no_faults :: faults where
  "no_faults = \<lparr>fl_store = False, fl_audit = False, fl_emit = False\<rparr>"

lemma relay_fails_closed_witness:
  "gd_action (snd (evaluate sample_classify (\<lambda>x. []) (\<lambda>x. []) no_faults 7 (sample_call ''relay'') sample_guard)) \<noteq> Ask"
  using relay_fails_closed [of "sample_call ''relay''" sample_classify "\<lambda>x. []" "\<lambda>x. []" no_faults 7 sample_guard]
  by (simp add: Let_def sample_call_def)

text \<open>
  Bookkeeping never overturns a decision. Whether the audit write or the event to the window fails makes no difference to the
  decision or to the marks; a decision that is not a plain allow is audited whenever the audit works.
\<close>

theorem bookkeeping_keeps_decision:
  assumes "fl_store fl = fl_store fl'"
  shows "snd (evaluate classify py_str excerpt fl now c st) = snd (evaluate classify py_str excerpt fl' now c st) \<and>
    gu_taint (fst (evaluate classify py_str excerpt fl now c st)) = gu_taint (fst (evaluate classify py_str excerpt fl' now c st)) \<and>
    (\<not> fl_audit fl \<longrightarrow> (let (st', d) = evaluate classify py_str excerpt fl now c st in
       gd_rule_ids d = [''guard-error''] \<or> (gd_action d = Allow \<and> gd_level d = Normal) \<or>
       (\<exists>e. gu_audit st' = gu_audit st @ [e] \<and> ae_decision e = d \<and> ae_source e = tc_source c)))"
  using assms
  by (auto simp: evaluate_def evaluate_inner_def Let_def split_def audit_add_def emit_event_def split: option.splits)

lemma bookkeeping_keeps_decision_witness:
  "snd (evaluate sample_classify (\<lambda>x. []) (\<lambda>x. []) no_faults 7 (sample_call ''agent'') sample_guard) =
   snd (evaluate sample_classify (\<lambda>x. []) (\<lambda>x. []) (no_faults\<lparr>fl_audit := True, fl_emit := True\<rparr>) 7 (sample_call ''agent'') sample_guard)"
  using bookkeeping_keeps_decision [of no_faults "no_faults\<lparr>fl_audit := True, fl_emit := True\<rparr>" sample_classify "\<lambda>x. []" "\<lambda>x. []" 7
      "sample_call ''agent''" sample_guard]
  by (simp add: no_faults_def)

end
