(* ===== verification/Graph_Search.thy ===== *)
theory Graph_Search
  imports Py_Prelude
begin

text \<open>
  The two searches of \<open>backend/agent_team_backend/pipeline_graph.py\<close>: the depth-first cycle check inside \<open>validate_graph\<close>, with
  its explicit stack and colours, and the breadth-first \<open>_reaches\<close>. The successor lists are a dictionary; both loops end
  because every vertex they meet is a target of it. The lemmas relate them to paths: \<open>edge_rel\<close> is the relation
  the dictionary stands for.
\<close>

definition succ_of :: "('a \<times> 'a list) list \<Rightarrow> 'a \<Rightarrow> 'a list" where
  "succ_of succ v = (case dget succ v of Some ns \<Rightarrow> ns | None \<Rightarrow> [])"

definition colour_of :: "('a \<times> nat) list \<Rightarrow> 'a \<Rightarrow> nat" where
  "colour_of colour v = (case dget colour v of Some c \<Rightarrow> c | None \<Rightarrow> 0)"

definition targets :: "('a \<times> 'a list) list \<Rightarrow> 'a set" where
  "targets succ = set (concat (map snd succ))"

definition edge_rel :: "('a \<times> 'a list) list \<Rightarrow> ('a \<times> 'a) set" where
  "edge_rel succ = {(a, b). b \<in> set (succ_of succ a)}"

lemma finite_targets [simp]: "finite (targets succ)"
  by (simp add: targets_def)

lemma succ_targets: "n \<in> set (succ_of succ v) \<Longrightarrow> n \<in> targets succ"
  by (cases "dget succ v") (force simp: succ_of_def targets_def dest: map_of_SomeD)+

lemma succ_nth_targets: "i < length (succ_of succ v) \<Longrightarrow> succ_of succ v ! i \<in> targets succ"
  by (rule succ_targets [of _ succ v]) simp

lemma colour_of_dset [simp]: "colour_of (dset v c colour) w = (if w = v then c else colour_of colour w)"
  by (simp add: colour_of_def)


section \<open>The cycle check\<close>

definition whites :: "('a \<times> 'a list) list \<Rightarrow> ('a \<times> nat) list \<Rightarrow> nat" where
  "whites succ colour = card {x \<in> targets succ. colour_of colour x = 0}"

lemma whites_le: "c \<noteq> 0 \<Longrightarrow> whites succ (dset v c colour) \<le> whites succ colour"
  unfolding whites_def by (rule card_mono) auto

lemma whites_less:
  assumes "c \<noteq> 0" "v \<in> targets succ" "colour_of colour v = 0"
  shows "whites succ (dset v c colour) < whites succ colour"
  unfolding whites_def by (rule psubset_card_mono) (use assms in auto)

text \<open>One run of the loop from the stack it is given: 1 is a vertex on the stack, 2 a finished one.\<close>

function dfs :: "('a \<times> 'a list) list \<Rightarrow> ('a \<times> nat) list \<Rightarrow> ('a \<times> nat) list \<Rightarrow> bool \<times> ('a \<times> nat) list" where
  "dfs succ colour [] = (False, colour)"
| "dfs succ colour ((v, i) # st) =
     (let ns = succ_of succ v in
      if length ns \<le> i then dfs succ (dset v 2 colour) st
      else
        (let n = ns ! i; c = colour_of colour n in
         if c = 1 then (True, colour)
         else if c = 0 then dfs succ (dset n 1 colour) ((n, 0) # (v, Suc i) # st)
         else dfs succ colour ((v, Suc i) # st)))"
  by pat_completeness auto
termination
proof (relation "measures [\<lambda>(succ, colour, st). whites succ colour,
    \<lambda>(succ, colour, st). sum_list (map (\<lambda>(v, i). Suc (length (succ_of succ v) - i)) st)]", goal_cases)
  case (2 succ colour v i st ns)
  then show ?case using whites_le [of 2 succ v colour] by auto
next
  case (3 succ colour v i st ns n c)
  then show ?case using whites_less [of 1 n succ colour] succ_nth_targets [of i succ v] by auto
qed auto

text \<open>The outer loop over the start vertices.\<close>

fun dfs_all :: "('a \<times> 'a list) list \<Rightarrow> ('a \<times> nat) list \<Rightarrow> 'a list \<Rightarrow> bool" where
  "dfs_all succ colour [] = False"
| "dfs_all succ colour (start # rest) =
     (if colour_of colour start \<noteq> 0 then dfs_all succ colour rest
      else (case dfs succ (dset start 1 colour) [(start, 0)] of
              (True, _) \<Rightarrow> True
            | (False, colour') \<Rightarrow> dfs_all succ colour' rest))"

definition cyclic :: "('a \<times> 'a list) list \<Rightarrow> bool" where
  "cyclic succ = dfs_all succ [] (keys succ)"


subsection \<open>It finds exactly the cycles\<close>

text \<open>Finished vertices, last first: each has all its successors finished before it.\<close>

fun finished :: "('a \<times> 'a list) list \<Rightarrow> 'a list \<Rightarrow> bool" where
  "finished succ [] = True"
| "finished succ (v # bl) = (v \<notin> set bl \<and> set (succ_of succ v) \<subseteq> set bl \<and> finished succ bl)"

text \<open>The stack: each vertex has explored a prefix of its successors, all finished but the one above it.\<close>

fun stack_ok :: "('a \<times> 'a list) list \<Rightarrow> 'a list \<Rightarrow> 'a option \<Rightarrow> ('a \<times> nat) list \<Rightarrow> bool" where
  "stack_ok succ bl up [] = True"
| "stack_ok succ bl up ((v, i) # st) =
     (set (take i (succ_of succ v)) \<subseteq> set bl \<union> set_option up \<and>
      set_option up \<subseteq> set (succ_of succ v) \<and> stack_ok succ bl (Some v) st)"

definition dfs_inv :: "('a \<times> 'a list) list \<Rightarrow> ('a \<times> nat) list \<Rightarrow> 'a list \<Rightarrow> ('a \<times> nat) list \<Rightarrow> bool" where
  "dfs_inv succ colour bl st =
     (finished succ bl \<and> stack_ok succ bl None st \<and> distinct (map fst st) \<and>
      (\<forall>x. colour_of colour x = 1 \<longleftrightarrow> x \<in> fst ` set st) \<and> (\<forall>x. colour_of colour x = 2 \<longleftrightarrow> x \<in> set bl) \<and>
      (\<forall>x. 0 < colour_of colour x \<longrightarrow> x \<in> fst ` set st \<or> x \<in> set bl))"

lemma dfs_invD:
  assumes "dfs_inv succ colour bl st"
  shows "colour_of colour x = 1 \<longleftrightarrow> x \<in> fst ` set st" "colour_of colour x = 2 \<longleftrightarrow> x \<in> set bl"
    "colour_of colour x = 0 \<or> colour_of colour x = 1 \<or> colour_of colour x = 2"
  using assms unfolding dfs_inv_def by (blast, blast, metis neq0_conv)

lemma stack_ok_mono: "stack_ok succ bl ab st \<Longrightarrow> stack_ok succ (v # bl) ab st"
  by (induction succ bl ab st rule: stack_ok.induct) auto

lemma stack_ok_pop: "stack_ok succ bl (Some v) st \<Longrightarrow> stack_ok succ (v # bl) None st"
  by (cases st) (auto intro: stack_ok_mono)

lemma stack_path:
  "stack_ok succ bl (Some a) st \<Longrightarrow> w \<in> fst ` set st \<Longrightarrow> (w, a) \<in> (edge_rel succ)\<^sup>+"
proof (induction st arbitrary: a)
  case (Cons e st)
  obtain v i where e: "e = (v, i)" by (cases e)
  with Cons.prems(1) have va: "(v, a) \<in> edge_rel succ" and st: "stack_ok succ bl (Some v) st"
    by (auto simp: edge_rel_def)
  show ?case
  proof (cases "w = v")
    case True
    with va show ?thesis by auto
  next
    case False
    with Cons.prems(2) e have "w \<in> fst ` set st" by auto
    from Cons.IH [OF st this] va show ?thesis by (rule trancl_into_trancl)
  qed
qed simp

definition dfs_result ::
    "('a \<times> 'a list) list \<Rightarrow> 'a list \<Rightarrow> ('a \<times> nat) list \<Rightarrow> bool \<times> ('a \<times> nat) list \<Rightarrow> bool" where
  "dfs_result succ bl st r =
     (case r of
        (True, _) \<Rightarrow> \<exists>v. (v, v) \<in> (edge_rel succ)\<^sup>+
      | (False, colour') \<Rightarrow> \<exists>bl'. dfs_inv succ colour' bl' [] \<and> set bl \<union> fst ` set st \<subseteq> set bl')"

lemma dfs_result_mono:
  "dfs_result succ bl st r \<Longrightarrow> set bl' \<union> fst ` set st' \<subseteq> set bl \<union> fst ` set st \<Longrightarrow> dfs_result succ bl' st' r"
  unfolding dfs_result_def by (cases r) (auto split: bool.splits, blast)

lemma dfs_spec:
  assumes "dfs_inv succ colour bl st"
  shows "case dfs succ colour st of
      (True, _) \<Rightarrow> \<exists>v. (v, v) \<in> (edge_rel succ)\<^sup>+
    | (False, colour') \<Rightarrow> \<exists>bl'. dfs_inv succ colour' bl' [] \<and> set bl \<union> fst ` set st \<subseteq> set bl'"
  using assms
proof (induction succ colour st arbitrary: bl rule: dfs.induct)
  case (1 succ colour)
  then show ?case by auto
next
  case (2 succ colour v i st)
  let ?ns = "succ_of succ v"
  note inv = 2(4)
  show ?case
  proof (cases "length ?ns \<le> i")
    case True
    have "colour_of colour v = 1" using dfs_invD(1) [OF inv, of v] by simp
    then have "v \<notin> set bl" using dfs_invD(2) [OF inv, of v] by simp
    then have "dfs_inv succ (dset v 2 colour) (v # bl) st"
      using inv True by (simp add: dfs_inv_def stack_ok_pop, metis)
    have "dfs_result succ (v # bl) st (dfs succ (dset v 2 colour) st)"
      unfolding dfs_result_def by (rule 2(1) [OF refl True \<open>dfs_inv succ _ (v # bl) st\<close>])
    then have "dfs_result succ bl ((v, i) # st) (dfs succ (dset v 2 colour) st)"
      by (rule dfs_result_mono) auto
    moreover have "dfs succ colour ((v, i) # st) = dfs succ (dset v 2 colour) st" using True by simp
    ultimately show ?thesis by (simp only: dfs_result_def)
  next
    case False
    let ?n = "?ns ! i"
    have mem: "?n \<in> set ?ns" using False by simp
    from dfs_invD(3) [OF inv, of ?n] show ?thesis
    proof (elim disjE)
      assume c1: "colour_of colour ?n = 1"
      from c1 have "?n \<in> fst ` set ((v, i) # st)" using dfs_invD(1) [OF inv, of ?n] by blast
      then have "(?n, v) \<in> (edge_rel succ)\<^sup>*"
        using stack_path [of succ bl v st ?n] inv by (auto simp: dfs_inv_def intro: trancl_into_rtrancl)
      then have "(v, v) \<in> (edge_rel succ)\<^sup>+" using mem by (auto simp: edge_rel_def intro: rtrancl_into_trancl2)
      with c1 False show ?thesis by (auto simp: Let_def)
    next
      assume w: "colour_of colour ?n = 0"
      have new: "?n \<notin> fst ` set ((v, i) # st)" "?n \<notin> set bl"
        using w dfs_invD(1,2) [OF inv, of ?n] by simp_all
      have "dfs_inv succ (dset ?n 1 colour) bl ((?n, 0) # (v, Suc i) # st)"
        using inv new mem False w by (auto simp: dfs_inv_def take_Suc_conv_app_nth)
      have "dfs_result succ bl ((?n, 0) # (v, Suc i) # st) (dfs succ (dset ?n 1 colour) ((?n, 0) # (v, Suc i) # st))"
        unfolding dfs_result_def
        by (rule 2(2) [OF refl False refl refl _ _ \<open>dfs_inv succ (dset ?n 1 colour) bl _\<close>]) (simp_all add: w)
      then have "dfs_result succ bl ((v, i) # st) (dfs succ (dset ?n 1 colour) ((?n, 0) # (v, Suc i) # st))"
        by (rule dfs_result_mono) auto
      moreover have "dfs succ colour ((v, i) # st) = dfs succ (dset ?n 1 colour) ((?n, 0) # (v, Suc i) # st)"
        using w False by (simp add: Let_def)
      ultimately show ?thesis by (simp only: dfs_result_def)
    next
      assume b: "colour_of colour ?n = 2"
      then have "?n \<in> set bl" using dfs_invD(2) [OF inv, of ?n] by blast
      then have "dfs_inv succ colour bl ((v, Suc i) # st)"
        using inv False by (auto simp: dfs_inv_def take_Suc_conv_app_nth)
      have "dfs_result succ bl ((v, Suc i) # st) (dfs succ colour ((v, Suc i) # st))"
        unfolding dfs_result_def
        by (rule 2(3) [OF refl False refl refl _ _ \<open>dfs_inv succ colour bl ((v, Suc i) # st)\<close>]) (simp_all add: b)
      then have "dfs_result succ bl ((v, i) # st) (dfs succ colour ((v, Suc i) # st))"
        by (rule dfs_result_mono) auto
      moreover have "dfs succ colour ((v, i) # st) = dfs succ colour ((v, Suc i) # st)"
        using b False by (simp add: Let_def)
      ultimately show ?thesis by (simp only: dfs_result_def)
    qed
  qed
qed

lemma dfs_all_spec:
  assumes "dfs_inv succ colour bl []"
  shows "if dfs_all succ colour vs then \<exists>v. (v, v) \<in> (edge_rel succ)\<^sup>+
    else \<exists>bl'. finished succ bl' \<and> set bl \<union> set vs \<subseteq> set bl'"
  using assms
proof (induction vs arbitrary: colour bl)
  case Nil
  then show ?case by (auto simp: dfs_inv_def)
next
  case (Cons v vs)
  show ?case
  proof (cases "colour_of colour v = 0")
    case False
    then have "v \<in> set bl" using dfs_invD [OF Cons.prems, of v] by simp
    with Cons.IH [OF Cons.prems] False show ?thesis by (auto split: if_splits)
  next
    case True
    then have "v \<notin> set bl" using dfs_invD(2) [OF Cons.prems, of v] by simp
    with Cons.prems True have "dfs_inv succ (dset v 1 colour) bl [(v, 0)]" by (auto simp: dfs_inv_def)
    note d = dfs_spec [OF this]
    obtain c colour' where r: "dfs succ (dset v 1 colour) [(v, 0)] = (c, colour')" by (cases "dfs succ (dset v 1 colour) [(v, 0)]")
    show ?thesis
    proof (cases c)
      case T: True
      with d r True show ?thesis by simp
    next
      case F: False
      with d r obtain bl' where "dfs_inv succ colour' bl' []" "set bl \<union> {v} \<subseteq> set bl'" by auto
      with Cons.IH [of colour' bl'] r F True show ?thesis by (auto split: if_splits)
    qed
  qed
qed

lemma finished_acyclic:
  "finished succ bl \<Longrightarrow> (v, w) \<in> (edge_rel succ)\<^sup>+ \<Longrightarrow> v \<in> set bl \<Longrightarrow> w \<in> set bl \<and> v \<noteq> w"
proof (induction bl arbitrary: v w)
  case (Cons x bl)
  have step: "(a, b) \<in> (edge_rel succ)\<^sup>+ \<Longrightarrow> a \<in> set bl \<Longrightarrow> b \<in> set bl \<and> a \<noteq> b" for a b
    using Cons.IH [of a b] Cons.prems(1) by simp
  show ?case
  proof (cases "v = x")
    case False
    with Cons.prems step [of v w] show ?thesis by auto
  next
    case True
    obtain u where u: "(v, u) \<in> edge_rel succ" "u = w \<or> (u, w) \<in> (edge_rel succ)\<^sup>+"
      using Cons.prems(2) by (metis tranclD rtranclD)
    have "u \<in> set bl" using u(1) Cons.prems(1) True by (auto simp: edge_rel_def)
    then have "w \<in> set bl" using u(2) step by blast
    then show ?thesis using True Cons.prems(1) by auto
  qed
qed simp

text \<open>The check answers yes exactly when the edges have a cycle.\<close>

lemma cyclic_iff: "cyclic succ \<longleftrightarrow> \<not> acyclic (edge_rel succ)"
proof -
  have "dfs_inv succ [] [] []" by (simp add: dfs_inv_def colour_of_def)
  note s = dfs_all_spec [OF this, of "keys succ"]
  show ?thesis
  proof (cases "cyclic succ")
    case True
    with s show ?thesis by (auto simp: cyclic_def acyclic_def)
  next
    case False
    with s obtain bl where bl: "finished succ bl" "set (keys succ) \<subseteq> set bl" by (auto simp: cyclic_def)
    have "(v, v) \<notin> (edge_rel succ)\<^sup>+" for v
    proof
      assume c: "(v, v) \<in> (edge_rel succ)\<^sup>+"
      then obtain u where "(v, u) \<in> edge_rel succ" by (meson tranclD)
      then have "v \<in> set (keys succ)"
        by (cases "dget succ v") (auto simp: edge_rel_def succ_of_def dest: dget_has_key)
      with finished_acyclic [OF bl(1) c] bl(2) show False by blast
    qed
    with False show ?thesis by (simp add: acyclic_def)
  qed
qed


section \<open>Reachability\<close>

text \<open>The successors not seen yet, each once.\<close>

fun fresh :: "'a list \<Rightarrow> 'a list \<Rightarrow> 'a list" where
  "fresh seen [] = []"
| "fresh seen (n # ns) = (if n \<in> set seen then fresh seen ns else n # fresh (n # seen) ns)"

lemma set_fresh [simp]: "set (fresh seen ns) = set ns - set seen"
  by (induction seen ns rule: fresh.induct) auto

function bfs :: "('a \<times> 'a list) list \<Rightarrow> 'a \<Rightarrow> 'a list \<Rightarrow> 'a list \<Rightarrow> bool" where
  "bfs succ dst seen [] = False"
| "bfs succ dst seen (v # queue) =
     (if v = dst then True
      else (let new = fresh seen (succ_of succ v)
            in bfs succ dst (seen @ new) (queue @ new)))"
  by pat_completeness auto

termination
proof (relation "measures [\<lambda>(succ, dst, seen, queue). card (targets succ - set seen), \<lambda>(succ, dst, seen, queue). length queue]", goal_cases)
  case (2 succ dst seen v queue new)
  show ?case
  proof (cases "new = []")
    case False
    then obtain n where "n \<in> set new" by (cases new) auto
    then have "n \<in> targets succ - set seen" "n \<in> set new" using 2 by (auto dest: succ_targets)
    then have "card (targets succ - set (seen @ new)) < card (targets succ - set seen)"
      by (intro psubset_card_mono) auto
    then show ?thesis by simp
  qed simp
qed simp

definition reaches :: "('a \<times> 'a list) list \<Rightarrow> 'a \<Rightarrow> 'a \<Rightarrow> bool" where
  "reaches succ src dst = bfs succ dst [src] [src]"

text \<open>Seen vertices not in the queue are explored: their successors are seen, and they are not the goal.\<close>

lemma bfs_spec:
  assumes "set queue \<subseteq> set seen" "\<forall>a \<in> set seen - set queue. a \<noteq> dst \<and> set (succ_of succ a) \<subseteq> set seen"
  shows "bfs succ dst seen queue \<longleftrightarrow> (\<exists>a \<in> set seen. (a, dst) \<in> (edge_rel succ)\<^sup>*)"
  using assms
proof (induction succ dst seen queue rule: bfs.induct)
  case (1 succ dst seen)
  have closed: "(a, b) \<in> (edge_rel succ)\<^sup>* \<Longrightarrow> a \<in> set seen \<Longrightarrow> b \<in> set seen" for a b
    by (induction rule: rtrancl_induct) (use 1 in \<open>auto simp: edge_rel_def\<close>)
  then show ?case using 1 by auto
next
  case (2 succ dst seen v queue)
  let ?new = "fresh seen (succ_of succ v)"
  show ?case
  proof (cases "v = dst")
    case True
    then show ?thesis using 2(2) by auto
  next
    case False
    have "bfs succ dst (seen @ ?new) (queue @ ?new) \<longleftrightarrow> (\<exists>a \<in> set (seen @ ?new). (a, dst) \<in> (edge_rel succ)\<^sup>*)"
      by (rule 2(1) [OF False refl]) (use 2(2,3) False in auto)
    also have "\<dots> \<longleftrightarrow> (\<exists>a \<in> set seen. (a, dst) \<in> (edge_rel succ)\<^sup>*)"
    proof -
      have "(v, n) \<in> edge_rel succ" if "n \<in> set ?new" for n using that by (auto simp: edge_rel_def)
      moreover have "v \<in> set seen" using 2(2) by simp
      ultimately show ?thesis by (auto intro: converse_rtrancl_into_rtrancl)
    qed
    finally show ?thesis using False by (simp add: Let_def)
  qed
qed

lemma reaches_iff: "reaches succ src dst \<longleftrightarrow> (src, dst) \<in> (edge_rel succ)\<^sup>*"
  unfolding reaches_def by (subst bfs_spec) auto

end
