(* ===== verification/Pipeline_Graph.thy ===== *)
theory Pipeline_Graph
  imports Graph_Search
begin

text \<open>
  \<open>backend/agent_team_backend/pipeline_graph.py\<close>: the checks of \<open>validate_graph\<close> on a decoded JSON document, and the layering of
  a graph. Error messages are constructors of \<open>graph_error\<close>. \<open>repr\<close> is the text Python gives for an id that is a float, a list
  or an object. Using a list or an object as a dictionary key raises \<open>TypeError\<close>: then the checks return \<open>None\<close>.
\<close>

section \<open>Values\<close>

definition GRAPH_VERSION :: int where "GRAPH_VERSION = 1"
definition DEFAULT_MAX_LOOPS :: int where "DEFAULT_MAX_LOOPS = 2"
definition MAX_LOOPS_CEILING :: int where "MAX_LOOPS_CEILING = 10"

definition NODE_KINDS :: "string list" where
  "NODE_KINDS = [''trigger'', ''slot'', ''gate'']"

definition EDGE_KINDS :: "string list" where
  "EDGE_KINDS = [''main'', ''reject'']"

fun py_str :: "(jval \<Rightarrow> string) \<Rightarrow> jval \<Rightarrow> string" where
  "py_str repr JNull = ''None''"
| "py_str repr (JBool b) = (if b then ''True'' else ''False'')"
| "py_str repr (JInt i) = int_str i"
| "py_str repr (JStr s) = s"
| "py_str repr v = repr v"

fun hashable :: "jval \<Rightarrow> bool" where
  "hashable (JList xs) = False"
| "hashable (JDict d) = False"
| "hashable _ = True"

text \<open>Equality of values that can be keys: numbers and truth values compare by value, a NaN equals nothing.\<close>

fun num_key :: "jval \<Rightarrow> (rat + pyfloat) option" where
  "num_key (JInt i) = Some (Inl (of_int i))"
| "num_key (JBool b) = Some (Inl (if b then 1 else 0))"
| "num_key (JFloat f) = (case float_rat f of Some r \<Rightarrow> Some (Inl r) | None \<Rightarrow> if f = FNan then None else Some (Inr f))"
| "num_key _ = None"

definition key_eq :: "jval \<Rightarrow> jval \<Rightarrow> bool" where
  "key_eq a b =
     (case (num_key a, num_key b) of
        (Some x, Some y) \<Rightarrow> x = y
      | (None, None) \<Rightarrow> a = b \<and> a \<noteq> JFloat FNan
      | _ \<Rightarrow> False)"

fun finite_num :: "jval \<Rightarrow> bool" where
  "finite_num (JInt i) = True"
| "finite_num (JFloat f) = (float_rat f \<noteq> None)"
| "finite_num _ = False"

definition str_in :: "jval \<Rightarrow> string list \<Rightarrow> bool" where
  "str_in v ss = (case v of JStr s \<Rightarrow> s \<in> set ss | _ \<Rightarrow> False)"

definition or_main :: "jval \<Rightarrow> jval" where
  "or_main v = (if truthy v then v else JStr ''main'')"


section \<open>The checks\<close>

datatype graph_error =
    BadShape
  | NodeWithoutId
  | DuplicateNode string
  | UnknownNodeKind string
  | SlotIncomplete string
  | SlotOnOther string
  | BadPosition string
  | EdgeWithoutId
  | DuplicateEdgeId string
  | UnknownEdgeKind string
  | MissingEndpoint string
  | SelfLoop string
  | DuplicateEdge string string
  | IntoTrigger string
  | MainMaxLoops string
  | RejectFromTrigger string
  | BadMaxLoops string
  | MainCycle
  | RejectNotUpstream string string

type_synonym jdict = "(string \<times> jval) list"

definition node_errors :: "jdict \<Rightarrow> string \<Rightarrow> graph_error list" where
  "node_errors d nid =
     (let k = jget d ''kind''; slot = jget d ''slot''; pos = jget d ''position'' in
      (if str_in k NODE_KINDS then [] else [UnknownNodeKind nid]) @
      (if k = JStr ''slot'' \<and> (case slot of JDict s \<Rightarrow> \<not> truthy (jget s ''agentKey'') \<or> \<not> truthy (jget s ''label'') | _ \<Rightarrow> True)
       then [SlotIncomplete nid] else []) @
      (if k \<noteq> JStr ''slot'' \<and> slot \<noteq> JNull then [SlotOnOther nid] else []) @
      (case pos of
         JDict p \<Rightarrow> if finite_num (jget p ''x'') \<and> finite_num (jget p ''y'') then [] else [BadPosition nid]
       | _ \<Rightarrow> [BadPosition nid]))"

fun scan_nodes ::
    "(jval \<Rightarrow> string) \<Rightarrow> graph_error list \<times> (string \<times> jdict) list \<Rightarrow> jval list \<Rightarrow> graph_error list \<times> (string \<times> jdict) list" where
  "scan_nodes repr acc [] = acc"
| "scan_nodes repr (errs, nodes) (n # ns) =
     (case n of
        JDict d \<Rightarrow>
          (if \<not> truthy (jget d ''id'') then scan_nodes repr (errs @ [NodeWithoutId], nodes) ns
           else
             (let nid = py_str repr (jget d ''id'')
              in scan_nodes repr
                   (errs @ (if has_key nid nodes then [DuplicateNode nid] else []) @ node_errors d nid, dset nid d nodes) ns))
      | _ \<Rightarrow> scan_nodes repr (errs @ [NodeWithoutId], nodes) ns)"

record edge_scan =
  es_errors :: "graph_error list"
  es_ids :: "string list"
  es_pairs :: "(jval \<times> string \<times> string) list"
  es_succ :: "(string \<times> string list) list"
  es_rejects :: "(string \<times> string \<times> string) list"

definition max_loops_ok :: "jdict \<Rightarrow> bool" where
  "max_loops_ok d =
     (case (case dget d ''maxLoops'' of None \<Rightarrow> JInt DEFAULT_MAX_LOOPS | Some v \<Rightarrow> v) of
        JInt m \<Rightarrow> 1 \<le> m \<and> m \<le> MAX_LOOPS_CEILING | _ \<Rightarrow> False)"

definition node_is_trigger :: "(string \<times> jdict) list \<Rightarrow> string \<Rightarrow> bool" where
  "node_is_trigger nodes nid = (case dget nodes nid of Some d \<Rightarrow> jget d ''kind'' = JStr ''trigger'' | None \<Rightarrow> False)"

text \<open>An edge between two nodes that exist; the key of \<open>pairs\<close> needs a kind that can be hashed.\<close>

definition scan_pair ::
    "(string \<times> jdict) list \<Rightarrow> jdict \<Rightarrow> string \<Rightarrow> jval \<Rightarrow> string \<Rightarrow> string \<Rightarrow> edge_scan \<Rightarrow> edge_scan option" where
  "scan_pair nodes d eid kind src dst st =
     (if \<not> hashable kind then None
      else
        (let dup = list_ex (\<lambda>(k, s, t). key_eq k kind \<and> s = src \<and> t = dst) (es_pairs st);
             e1 = (if src = dst then [SelfLoop eid] else []) @ (if dup then [DuplicateEdge src dst] else []) @
                  (if node_is_trigger nodes dst then [IntoTrigger eid] else []);
             st1 = st\<lparr>es_pairs := (if dup then es_pairs st else es_pairs st @ [(kind, src, dst)])\<rparr>
         in Some
           (if kind = JStr ''main'' then
              st1\<lparr>es_errors := es_errors st1 @ e1 @ (if jget d ''maxLoops'' \<noteq> JNull then [MainMaxLoops eid] else []),
                  es_succ := dset src (succ_of (es_succ st1) src @ [dst]) (es_succ st1)\<rparr>
            else
              st1\<lparr>es_errors := es_errors st1 @ e1 @ (if node_is_trigger nodes src then [RejectFromTrigger eid] else []) @
                    (if max_loops_ok d then [] else [BadMaxLoops eid]),
                  es_rejects := es_rejects st1 @ [(eid, src, dst)]\<rparr>)))"

definition scan_edge ::
    "(jval \<Rightarrow> string) \<Rightarrow> (string \<times> jdict) list \<Rightarrow> jval \<Rightarrow> edge_scan \<Rightarrow> edge_scan option" where
  "scan_edge repr nodes e st =
     (case e of
        JDict d \<Rightarrow>
          (if \<not> truthy (jget d ''id'') then Some (st\<lparr>es_errors := es_errors st @ [EdgeWithoutId]\<rparr>)
           else
             (let eid = py_str repr (jget d ''id'');
                  kind = or_main (jget d ''kind'');
                  st1 = st\<lparr>es_errors := es_errors st @
                        (if eid \<in> set (es_ids st) then [DuplicateEdgeId eid] else []) @
                        (if str_in kind EDGE_KINDS then [] else [UnknownEdgeKind eid]),
                      es_ids := (if eid \<in> set (es_ids st) then es_ids st else es_ids st @ [eid])\<rparr>;
                  missing = Some (st1\<lparr>es_errors := es_errors st1 @ [MissingEndpoint eid]\<rparr>)
              in if \<not> hashable (jget d ''from'') then None
                 else if \<not> str_in (jget d ''from'') (keys nodes) then missing
                 else if \<not> hashable (jget d ''to'') then None
                 else if \<not> str_in (jget d ''to'') (keys nodes) then missing
                 else (case (jget d ''from'', jget d ''to'') of
                         (JStr src, JStr dst) \<Rightarrow> scan_pair nodes d eid kind src dst st1
                       | _ \<Rightarrow> missing)))
      | _ \<Rightarrow> Some (st\<lparr>es_errors := es_errors st @ [EdgeWithoutId]\<rparr>))"

fun scan_edges ::
    "(jval \<Rightarrow> string) \<Rightarrow> (string \<times> jdict) list \<Rightarrow> edge_scan \<Rightarrow> jval list \<Rightarrow> edge_scan option" where
  "scan_edges repr nodes st [] = Some st"
| "scan_edges repr nodes st (e # es) =
     (case scan_edge repr nodes e st of None \<Rightarrow> None | Some st' \<Rightarrow> scan_edges repr nodes st' es)"

definition edges_start :: "graph_error list \<Rightarrow> (string \<times> jdict) list \<Rightarrow> edge_scan" where
  "edges_start errs nodes = \<lparr>es_errors = errs, es_ids = [], es_pairs = [],
     es_succ = map (\<lambda>(nid, d). (nid, [])) nodes, es_rejects = []\<rparr>"

definition validate_graph :: "(jval \<Rightarrow> string) \<Rightarrow> jval \<Rightarrow> graph_error list option" where
  "validate_graph repr graph =
     (case graph of
        JDict g \<Rightarrow>
          (case (jget g ''nodes'', jget g ''edges'') of
             (JList ns, JList es) \<Rightarrow>
               (let (errs, nodes) = scan_nodes repr ([], []) ns in
                case scan_edges repr nodes (edges_start errs nodes) es of
                  None \<Rightarrow> None
                | Some st \<Rightarrow>
                    Some (if cyclic (es_succ st) then es_errors st @ [MainCycle]
                          else es_errors st @ map (\<lambda>(eid, src, dst). RejectNotUpstream eid src)
                                 (filter (\<lambda>(eid, src, dst). \<not> reaches (es_succ st) dst src) (es_rejects st))))
           | _ \<Rightarrow> Some [BadShape])
      | _ \<Rightarrow> Some [BadShape])"


section \<open>What the scans leave\<close>

lemma scan_nodes_errors: "set errs \<subseteq> set (fst (scan_nodes repr (errs, nodes) ns))"
proof (induction ns arbitrary: errs nodes)
  case (Cons n ns)
  note IH = Cons.IH [THEN subsetD]
  show ?case
    by (cases n) (auto simp: Let_def intro!: IH)
qed simp

section \<open>The accepted graphs\<close>

definition doc_id :: "(jval \<Rightarrow> string) \<Rightarrow> jdict \<Rightarrow> string" where
  "doc_id repr d = py_str repr (jget d ''id'')"

definition node_good :: "(jval \<Rightarrow> string) \<Rightarrow> jdict \<Rightarrow> bool" where
  "node_good repr d \<longleftrightarrow> truthy (jget d ''id'') \<and> node_errors d (doc_id repr d) = []"

text \<open>Without errors, the nodes are exactly the documents of the list, under distinct ids.\<close>

definition node_table :: "(jval \<Rightarrow> string) \<Rightarrow> jdict list \<Rightarrow> (string \<times> jdict) list" where
  "node_table repr ds = map (\<lambda>d. (doc_id repr d, d)) ds"

lemma ex_list_split:
  "(\<exists>ds. e # es = map f ds \<and> P ds) \<longleftrightarrow> (\<exists>d. e = f d \<and> (\<exists>ds. es = map f ds \<and> P (d # ds)))"
  by (auto simp: Cons_eq_map_conv)

lemma keys_node_table [simp]: "keys (node_table repr ds) = map (doc_id repr) ds"
  by (simp add: node_table_def)

lemma scan_nodes_clean:
  assumes "distinct (keys nodes)"
  shows "fst (scan_nodes repr (errs, nodes) ns) = [] \<and> P (snd (scan_nodes repr (errs, nodes) ns)) \<longleftrightarrow>
    errs = [] \<and> (\<exists>ds. ns = map JDict ds \<and> (\<forall>d \<in> set ds. node_good repr d) \<and>
      distinct (keys nodes @ map (doc_id repr) ds) \<and> P (nodes @ node_table repr ds))"
  using assms
proof (induction ns arbitrary: errs nodes)
  case (Cons n ns)
  have no: "fst (scan_nodes repr (errs @ x # xs, nodes) ns) \<noteq> []" for x xs nodes
    using scan_nodes_errors [of "errs @ x # xs" repr nodes ns] by auto
  show ?case
  proof (cases "\<exists>d. n = JDict d \<and> node_good repr d \<and> \<not> has_key (doc_id repr d) nodes")
    case True
    then obtain d where d: "n = JDict d" "node_good repr d" "\<not> has_key (doc_id repr d) nodes" by blast
    have "scan_nodes repr (errs, nodes) (n # ns) = scan_nodes repr (errs, nodes @ [(doc_id repr d, d)]) ns"
      using d dset_new [OF d(3), of d] by (simp add: node_good_def doc_id_def Let_def)
    with Cons.IH [of "nodes @ [(doc_id repr d, d)]" errs] Cons.prems d show ?thesis
      unfolding ex_list_split by (auto simp: node_table_def)
  next
    case False
    then have "fst (scan_nodes repr (errs, nodes) (n # ns)) \<noteq> []"
      using no by (cases n) (auto simp: node_good_def doc_id_def Let_def neq_Nil_conv split: if_splits)
    moreover have "\<not> (\<exists>d. n = JDict d \<and> node_good repr d \<and> doc_id repr d \<notin> set (keys nodes))"
      using False by simp
    ultimately show ?thesis unfolding ex_list_split by auto
  qed
qed (simp add: node_table_def)

fun ends_of :: "jdict \<Rightarrow> (string \<times> string) option" where
  "ends_of d = (case (jget d ''from'', jget d ''to'') of (JStr s, JStr t) \<Rightarrow> Some (s, t) | _ \<Rightarrow> None)"

definition edge_kind :: "jdict \<Rightarrow> jval" where
  "edge_kind d = or_main (jget d ''kind'')"

definition edge_good :: "(string \<times> jdict) list \<Rightarrow> jdict \<Rightarrow> bool" where
  "edge_good nodes d \<longleftrightarrow> truthy (jget d ''id'') \<and>
     (\<exists>s t. ends_of d = Some (s, t) \<and> s \<in> set (keys nodes) \<and> t \<in> set (keys nodes) \<and> s \<noteq> t \<and> \<not> node_is_trigger nodes t \<and>
        (edge_kind d = JStr ''main'' \<and> jget d ''maxLoops'' = JNull \<or>
         edge_kind d = JStr ''reject'' \<and> \<not> node_is_trigger nodes s \<and> max_loops_ok d))"

text \<open>What an edge that passes every check adds to the state of the scan.\<close>

definition edge_add :: "(jval \<Rightarrow> string) \<Rightarrow> jdict \<Rightarrow> edge_scan \<Rightarrow> edge_scan" where
  "edge_add repr d st =
     (case ends_of d of
        None \<Rightarrow> st
      | Some (s, t) \<Rightarrow>
          (let st1 = st\<lparr>es_ids := es_ids st @ [doc_id repr d], es_pairs := es_pairs st @ [(edge_kind d, s, t)]\<rparr>
           in if edge_kind d = JStr ''main'' then st1\<lparr>es_succ := dset s (succ_of (es_succ st) s @ [t]) (es_succ st)\<rparr>
              else st1\<lparr>es_rejects := es_rejects st @ [(doc_id repr d, s, t)]\<rparr>))"

definition fresh_edge :: "(jval \<Rightarrow> string) \<Rightarrow> edge_scan \<Rightarrow> jdict \<Rightarrow> bool" where
  "fresh_edge repr st d \<longleftrightarrow> doc_id repr d \<notin> set (es_ids st) \<and>
     (\<forall>s t. ends_of d = Some (s, t) \<longrightarrow> (edge_kind d, s, t) \<notin> set (es_pairs st))"

lemma key_eq_str [simp]: "key_eq k (JStr s) \<longleftrightarrow> k = JStr s"
  by (cases k) (auto simp: key_eq_def split: option.splits)

lemma scan_pair_clean:
  "(\<exists>st'. scan_pair nodes d eid k s t st = Some st' \<and> es_errors st' = [] \<and> P st') \<longleftrightarrow>
   hashable k \<and> es_errors st = [] \<and> \<not> list_ex (\<lambda>(k', s', t'). key_eq k' k \<and> s' = s \<and> t' = t) (es_pairs st) \<and>
   s \<noteq> t \<and> \<not> node_is_trigger nodes t \<and>
   (if k = JStr ''main''
    then jget d ''maxLoops'' = JNull \<and>
      P (st\<lparr>es_pairs := es_pairs st @ [(k, s, t)], es_succ := dset s (succ_of (es_succ st) s @ [t]) (es_succ st)\<rparr>)
    else \<not> node_is_trigger nodes s \<and> max_loops_ok d \<and>
      P (st\<lparr>es_pairs := es_pairs st @ [(k, s, t)], es_rejects := es_rejects st @ [(eid, s, t)]\<rparr>))"
  by (cases st) (auto simp: scan_pair_def Let_def split: if_splits)

lemma str_in_iff [simp]: "str_in v ss \<longleftrightarrow> (\<exists>s. v = JStr s \<and> s \<in> set ss)"
  by (cases v) (auto simp: str_in_def)

lemma scan_edge_clean:
  "(\<exists>st'. scan_edge repr nodes e st = Some st' \<and> es_errors st' = [] \<and> P st') \<longleftrightarrow>
   es_errors st = [] \<and> (\<exists>d. e = JDict d \<and> edge_good nodes d \<and> fresh_edge repr st d \<and> P (edge_add repr d st))"
proof (cases e)
  case (JDict d)
  let ?st = "st\<lparr>es_errors := es_errors st @ (if doc_id repr d \<in> set (es_ids st) then [DuplicateEdgeId (doc_id repr d)] else []) @
      (if str_in (edge_kind d) EDGE_KINDS then [] else [UnknownEdgeKind (doc_id repr d)]),
    es_ids := (if doc_id repr d \<in> set (es_ids st) then es_ids st else es_ids st @ [doc_id repr d])\<rparr>"
  show ?thesis
  proof (cases "truthy (jget d ''id'') \<and>
      (\<exists>s t. ends_of d = Some (s, t) \<and> s \<in> set (keys nodes) \<and> t \<in> set (keys nodes))")
    case False
    then show ?thesis
      by (cases "jget d ''from''"; cases "jget d ''to''")
        (auto simp: JDict scan_edge_def edge_good_def Let_def split: jval.splits if_splits)
  next
    case True
    then obtain s t where st: "jget d ''from'' = JStr s" "jget d ''to'' = JStr t" "ends_of d = Some (s, t)"
      "s \<in> set (keys nodes)" "t \<in> set (keys nodes)" and id: "truthy (jget d ''id'')"
      by (auto split: jval.splits)
    have "scan_edge repr nodes e st = scan_pair nodes d (doc_id repr d) (edge_kind d) s t ?st"
      using st id by (simp add: JDict scan_edge_def edge_kind_def doc_id_def Let_def str_in_def del: str_in_iff)
    then show ?thesis
      using st id
      by (simp only: scan_pair_clean)
        (cases st, auto simp: JDict edge_good_def fresh_edge_def edge_add_def Let_def EDGE_KINDS_def list_ex_iff)
  qed
qed (auto simp: scan_edge_def)

fun fresh_edges :: "(jval \<Rightarrow> string) \<Rightarrow> edge_scan \<Rightarrow> jdict list \<Rightarrow> bool" where
  "fresh_edges repr st [] = True"
| "fresh_edges repr st (d # ds) = (fresh_edge repr st d \<and> fresh_edges repr (edge_add repr d st) ds)"

lemma edge_add_errors [simp]: "es_errors (edge_add repr d st) = es_errors st"
  by (cases "ends_of d") (auto simp: edge_add_def Let_def)

lemma scan_edges_clean:
  "(\<exists>st'. scan_edges repr nodes st es = Some st' \<and> es_errors st' = [] \<and> P st') \<longleftrightarrow>
   es_errors st = [] \<and> (\<exists>ds. es = map JDict ds \<and> (\<forall>d \<in> set ds. edge_good nodes d) \<and>
     fresh_edges repr st ds \<and> P (fold (edge_add repr) ds st))"
proof (induction es arbitrary: st)
  case (Cons e es)
  have "(\<exists>st'. scan_edges repr nodes st (e # es) = Some st' \<and> es_errors st' = [] \<and> P st') \<longleftrightarrow>
    (\<exists>st1. scan_edge repr nodes e st = Some st1 \<and> es_errors st1 = [] \<and>
       (\<exists>st'. scan_edges repr nodes st1 es = Some st' \<and> es_errors st' = [] \<and> P st'))"
    by (auto split: option.splits simp: Cons.IH)
  also have "\<dots> \<longleftrightarrow> es_errors st = [] \<and> (\<exists>d. e = JDict d \<and> edge_good nodes d \<and> fresh_edge repr st d \<and>
      (\<exists>ds. es = map JDict ds \<and> (\<forall>d \<in> set ds. edge_good nodes d) \<and>
        fresh_edges repr (edge_add repr d st) ds \<and> P (fold (edge_add repr) ds (edge_add repr d st))))"
    unfolding Cons.IH scan_edge_clean by auto
  also have "\<dots> \<longleftrightarrow> es_errors st = [] \<and> (\<exists>ds. e # es = map JDict ds \<and> (\<forall>d \<in> set ds. edge_good nodes d) \<and>
     fresh_edges repr st ds \<and> P (fold (edge_add repr) ds st))"
    unfolding ex_list_split by auto
  finally show ?case .
qed auto

subsection \<open>The edges a clean scan has added\<close>

declare ends_of.simps [simp del]

definition main_rel :: "jdict list \<Rightarrow> (string \<times> string) set" where
  "main_rel ds = {(s, t). \<exists>d \<in> set ds. ends_of d = Some (s, t) \<and> edge_kind d = JStr ''main''}"

lemma edge_rel_dset [simp]:
  "edge_rel (dset s (succ_of succ s @ [t]) succ) = insert (s, t) (edge_rel succ)"
  by (auto simp: edge_rel_def succ_of_def split: if_splits option.splits)

lemma fold_edge_add:
  assumes "\<forall>d \<in> set ds. edge_good nodes d"
  shows "es_ids (fold (edge_add repr) ds st) = es_ids st @ map (doc_id repr) ds"
    and "es_pairs (fold (edge_add repr) ds st) =
      es_pairs st @ map (\<lambda>d. (edge_kind d, fst (the (ends_of d)), snd (the (ends_of d)))) ds"
    and "edge_rel (es_succ (fold (edge_add repr) ds st)) = edge_rel (es_succ st) \<union> main_rel ds"
    and "es_rejects (fold (edge_add repr) ds st) = es_rejects st @
      map (\<lambda>d. (doc_id repr d, fst (the (ends_of d)), snd (the (ends_of d)))) (filter (\<lambda>d. edge_kind d = JStr ''reject'') ds)"
  using assms
  by (induction ds arbitrary: st) (auto simp: edge_good_def edge_add_def Let_def main_rel_def)

lemma fresh_edges_iff:
  assumes "\<forall>d \<in> set ds. edge_good nodes d" "distinct (es_ids st)" "distinct (es_pairs st)"
  shows "fresh_edges repr st ds \<longleftrightarrow> distinct (es_ids st @ map (doc_id repr) ds) \<and>
    distinct (es_pairs st @ map (\<lambda>d. (edge_kind d, fst (the (ends_of d)), snd (the (ends_of d)))) ds)"
  using assms
proof (induction ds arbitrary: st)
  case (Cons d ds)
  then obtain s t where e: "ends_of d = Some (s, t)" by (auto simp: edge_good_def)
  show ?case
  proof (cases "fresh_edge repr st d")
    case True
    have "es_ids (edge_add repr d st) = es_ids st @ [doc_id repr d]"
      "es_pairs (edge_add repr d st) = es_pairs st @ [(edge_kind d, s, t)]"
      using e by (auto simp: edge_add_def Let_def)
    with Cons.IH [of "edge_add repr d st"] Cons.prems True e show ?thesis
      by (auto simp: fresh_edge_def)
  qed (use Cons.prems e in \<open>auto simp: fresh_edge_def\<close>)
qed simp


subsection \<open>What is accepted\<close>

text \<open>
  The graphs a pipeline may have: unique node and edge ids, edges between different existing nodes and none into a
  trigger, no two of the same kind between the same nodes, main edges without a cycle, reject edges back to a node
  upstream with a bounded number of loops.
\<close>

definition edge_triple :: "jdict \<Rightarrow> jval \<times> string \<times> string" where
  "edge_triple d = (edge_kind d, fst (the (ends_of d)), snd (the (ends_of d)))"

definition points_upstream :: "jdict list \<Rightarrow> jdict \<Rightarrow> bool" where
  "points_upstream eds d \<longleftrightarrow> (snd (the (ends_of d)), fst (the (ends_of d))) \<in> (main_rel eds)\<^sup>*"

definition graph_wf :: "(jval \<Rightarrow> string) \<Rightarrow> jdict list \<Rightarrow> jdict list \<Rightarrow> bool" where
  "graph_wf repr nds eds \<longleftrightarrow>
     (\<forall>d \<in> set nds. node_good repr d) \<and> distinct (map (doc_id repr) nds) \<and>
     (\<forall>d \<in> set eds. edge_good (node_table repr nds) d) \<and> distinct (map (doc_id repr) eds) \<and>
     distinct (map edge_triple eds) \<and> acyclic (main_rel eds) \<and>
     (\<forall>d \<in> set eds. edge_kind d = JStr ''reject'' \<longrightarrow> points_upstream eds d)"

lemma edge_rel_start [simp]: "edge_rel (es_succ (edges_start errs nodes)) = {}"
proof -
  have "succ_of (map (\<lambda>(nid, d). (nid, [])) nodes) v = ([] :: string list)" for v
    by (induction nodes) (auto simp: succ_of_def)
  then show ?thesis by (simp add: edge_rel_def edges_start_def)
qed

lemma validate_lists:
  assumes "jget g ''nodes'' = JList ns" "jget g ''edges'' = JList es"
  shows "validate_graph repr (JDict g) = Some [] \<longleftrightarrow>
    (\<exists>nds eds. ns = map JDict nds \<and> es = map JDict eds \<and> graph_wf repr nds eds)"
proof -
  define ok where "ok st \<longleftrightarrow> \<not> cyclic (es_succ st) \<and> (\<forall>r \<in> set (es_rejects st). reaches (es_succ st) (snd (snd r)) (fst (snd r)))" for st :: edge_scan
  define r where "r = scan_nodes repr ([], []) ns"
  define edges_ok where "edges_ok errs nodes \<longleftrightarrow>
    (\<exists>st. scan_edges repr nodes (edges_start errs nodes) es = Some st \<and> es_errors st = [] \<and> ok st)" for errs nodes
  have edges: "edges_ok errs nodes \<longleftrightarrow> errs = [] \<and> (\<exists>eds. es = map JDict eds \<and> (\<forall>d \<in> set eds. edge_good nodes d) \<and>
      distinct (map (doc_id repr) eds) \<and> distinct (map edge_triple eds) \<and> acyclic (main_rel eds) \<and>
      (\<forall>d \<in> set eds. edge_kind d = JStr ''reject'' \<longrightarrow> points_upstream eds d))" for errs nodes
  proof -
    have *: "fresh_edges repr (edges_start errs nodes) eds \<and> ok (fold (edge_add repr) eds (edges_start errs nodes)) \<longleftrightarrow>
        distinct (map (doc_id repr) eds) \<and> distinct (map edge_triple eds) \<and> acyclic (main_rel eds) \<and>
        (\<forall>d \<in> set eds. edge_kind d = JStr ''reject'' \<longrightarrow> points_upstream eds d)"
      if "\<forall>d \<in> set eds. edge_good nodes d" for eds
      using that fresh_edges_iff [OF that, of "edges_start errs nodes" repr] fold_edge_add [OF that, of repr "edges_start errs nodes"]
      by (auto simp: ok_def cyclic_iff reaches_iff points_upstream_def edge_triple_def [abs_def] edges_start_def [of errs nodes, symmetric])
        (auto simp: edges_start_def)
    show ?thesis
      unfolding edges_ok_def scan_edges_clean using * by (auto simp: edges_start_def [of errs nodes])
  qed
  have "validate_graph repr (JDict g) = Some [] \<longleftrightarrow> edges_ok (fst r) (snd r)"
    using assms by (auto simp: validate_graph_def edges_ok_def ok_def r_def split_beta Let_def filter_empty_conv split: option.splits)
  also have "\<dots> \<longleftrightarrow> fst r = [] \<and> edges_ok [] (snd r)" unfolding edges by blast
  also have "\<dots> \<longleftrightarrow> (\<exists>nds. ns = map JDict nds \<and> (\<forall>d \<in> set nds. node_good repr d) \<and>
      distinct (map (doc_id repr) nds) \<and> edges_ok [] (node_table repr nds))"
    unfolding r_def by (subst scan_nodes_clean) auto
  finally show ?thesis unfolding edges graph_wf_def by blast
qed

text \<open>C34: \<open>validate_graph\<close> reports no error exactly for the documents whose nodes and edges form a pipeline graph.\<close>

theorem validate_graph_iff:
  "validate_graph repr graph = Some [] \<longleftrightarrow>
   (\<exists>g nds eds. graph = JDict g \<and> jget g ''nodes'' = JList (map JDict nds) \<and> jget g ''edges'' = JList (map JDict eds) \<and>
      graph_wf repr nds eds)"
proof (cases "\<exists>g ns es. graph = JDict g \<and> jget g ''nodes'' = JList ns \<and> jget g ''edges'' = JList es")
  case True
  then obtain g ns es where g: "graph = JDict g" "jget g ''nodes'' = JList ns" "jget g ''edges'' = JList es" by blast
  then show ?thesis using validate_lists [OF g(2,3)] by auto
next
  case False
  then have "validate_graph repr graph = Some [BadShape]"
    by (auto simp: validate_graph_def split: jval.splits)
  with False show ?thesis by auto
qed


text \<open>
  An edge whose end is a list or an object is not reported as an error of the document: the lookup raises \<open>TypeError\<close>.
\<close>

lemma unhashable_end_raises:
  assumes "jget g ''nodes'' = JList ns" "jget g ''edges'' = JList (JDict d # es)"
    "truthy (jget d ''id'')" "\<not> hashable (jget d ''from'')"
  shows "validate_graph repr (JDict g) = None"
  using assms by (simp add: validate_graph_def scan_edge_def Let_def split_beta)

lemma unhashable_end_raises_witness:
  "validate_graph repr (JDict [(''nodes'', JList []),
     (''edges'', JList [JDict [(''id'', JStr ''e1''), (''from'', JList []), (''to'', JStr ''b'')]])]) = None"
  by (rule unhashable_end_raises [of _ "[]" "[(''id'', JStr ''e1''), (''from'', JList []), (''to'', JStr ''b'')]" "[]"])
    (simp_all add: jget_def)

end
