(* ===== verification/Pipeline_Layers.thy ===== *)
theory Pipeline_Layers
  imports Pipeline_Graph
begin

text \<open>
  \<open>backend/agent_team_backend/pipeline_graph.py\<close>: the layers of a graph and the conversions between a graph and the stages of a
  pipeline. A graph is given by its lists of node and edge objects; \<open>None\<close> is an exception, or a node whose id is not
  a text (such a graph is not modelled).
\<close>

record pgraph =
  g_version :: jval
  g_nodes :: "jdict list"
  g_edges :: "jdict list"

definition TRIGGER_NODE_ID :: string where "TRIGGER_NODE_ID = ''trigger''"
definition LAYER_DX :: int where "LAYER_DX = 280"
definition LANE_DY :: int where "LANE_DY = 140"

definition is_main :: "jdict \<Rightarrow> bool" where
  "is_main e = (edge_kind e = JStr ''main'')"


section \<open>Layering\<close>

text \<open>The kinds of the nodes by id, and the predecessors over main edges between nodes of the graph.\<close>

fun node_kinds :: "(string \<times> jval) list \<Rightarrow> jdict list \<Rightarrow> (string \<times> jval) list option" where
  "node_kinds acc [] = Some acc"
| "node_kinds acc (n # ns) =
     (case dget n ''id'' of
        Some (JStr nid) \<Rightarrow> node_kinds (dset nid (jget n ''kind'') acc) ns
      | _ \<Rightarrow> None)"

fun pred_lists :: "(string \<times> jval) list \<Rightarrow> (string \<times> string list) list \<Rightarrow> jdict list \<Rightarrow> (string \<times> string list) list option" where
  "pred_lists kind preds [] = Some preds"
| "pred_lists kind preds (e # es) =
     (if \<not> is_main e then pred_lists kind preds es
      else if \<not> hashable (jget e ''from'') then None
      else if \<not> str_in (jget e ''from'') (keys kind) then pred_lists kind preds es
      else if \<not> hashable (jget e ''to'') then None
      else (case (jget e ''from'', jget e ''to'') of
              (JStr s, JStr t) \<Rightarrow>
                pred_lists kind (if t \<in> set (keys kind) then dset t (succ_of preds t @ [s]) preds else preds) es
            | _ \<Rightarrow> pred_lists kind preds es))"

lemma card_visiting:
  assumes "nid \<notin> set visiting" "dget preds nid = Some ps"
  shows "card (set (keys preds) - insert nid (set visiting)) < card (set (keys preds) - set visiting)"
proof (rule psubset_card_mono)
  have "nid \<in> set (keys preds)" using assms(2) by (metis dget_has_key list.set_map)
  then show "set (keys preds) - insert nid (set visiting) \<subset> set (keys preds) - set visiting" using assms(1) by blast
qed simp

text \<open>
  \<open>depth_of\<close> with its memo \<open>depth\<close>; \<open>visiting\<close> is the stack of open calls. \<open>None\<close> is the NaN of a node that is being
  visited: \<open>max(d, nan)\<close> is \<open>d\<close>, since a NaN is not greater. \<open>depth_preds\<close> is the loop over the predecessors.
\<close>

function depth_of ::
    "(string \<times> jval) list \<Rightarrow> (string \<times> string list) list \<Rightarrow> string list \<Rightarrow> (string \<times> int) list \<Rightarrow> string \<Rightarrow>
     int option \<times> (string \<times> int) list"
  and depth_preds ::
    "(string \<times> jval) list \<Rightarrow> (string \<times> string list) list \<Rightarrow> string list \<Rightarrow> (string \<times> int) list \<Rightarrow> int \<Rightarrow> string list \<Rightarrow>
     int \<times> (string \<times> int) list" where
  "depth_of kind preds visiting depth nid =
     (case dget depth nid of
        Some d \<Rightarrow> (Some d, depth)
      | None \<Rightarrow>
          (if nid \<in> set visiting then (None, depth)
           else
             (case dget preds nid of
                None \<Rightarrow> (None, depth)
              | Some ps \<Rightarrow>
                  (let (d, depth') =
                     (if dget kind nid = Some (JStr ''trigger'') then (- 1, depth)
                      else depth_preds kind preds (nid # visiting) depth 0 ps)
                   in (Some d, dset nid d depth')))))"
| "depth_preds kind preds visiting depth d [] = (d, depth)"
| "depth_preds kind preds visiting depth d (p # ps) =
     (case depth_of kind preds visiting depth p of
        (r, depth') \<Rightarrow> depth_preds kind preds visiting depth' (case r of None \<Rightarrow> d | Some x \<Rightarrow> max d (x + 1)) ps)"
  by pat_completeness auto
termination
  by (relation "measures
      [case_sum (\<lambda>(kind, preds, visiting, depth, nid). card (set (keys preds) - set visiting))
                (\<lambda>(kind, preds, visiting, depth, d, ps). card (set (keys preds) - set visiting)),
       case_sum (\<lambda>_. 0) (\<lambda>(kind, preds, visiting, depth, d, ps). length ps)]")
    (auto simp: card_visiting [simplified])

definition place :: "int \<Rightarrow> string \<Rightarrow> string list list \<Rightarrow> string list list" where
  "place d nid layers =
     (let i = nat d; padded = layers @ replicate (Suc i - length layers) [] in padded[i := padded ! i @ [nid]])"

text \<open>The loop over the nodes: each goes to the layer of its depth, a trigger to the triggers.\<close>

fun layer_loop ::
    "(string \<times> jval) list \<Rightarrow> (string \<times> string list) list \<Rightarrow> (string \<times> int) list \<Rightarrow> string list list \<Rightarrow> string list \<Rightarrow> string list \<Rightarrow>
     string list list \<times> string list" where
  "layer_loop kind preds depth layers triggers [] = (layers, triggers)"
| "layer_loop kind preds depth layers triggers (nid # ids) =
     (case depth_of kind preds [] depth nid of
        (None, depth') \<Rightarrow> layer_loop kind preds depth' layers triggers ids
      | (Some d, depth') \<Rightarrow>
          (if d < 0 then layer_loop kind preds depth' layers (triggers @ [nid]) ids
           else layer_loop kind preds depth' (place d nid layers) triggers ids))"

fun id_texts :: "jdict list \<Rightarrow> string list" where
  "id_texts [] = []"
| "id_texts (n # ns) = (case jget n ''id'' of JStr s \<Rightarrow> s # id_texts ns | _ \<Rightarrow> id_texts ns)"

definition layer_graph :: "pgraph \<Rightarrow> (string list list \<times> string list) option" where
  "layer_graph g =
     (case node_kinds [] (g_nodes g) of
        None \<Rightarrow> None
      | Some kind \<Rightarrow>
          (case pred_lists kind (map (\<lambda>(nid, k). (nid, [])) kind) (g_edges g) of
             None \<Rightarrow> None
           | Some preds \<Rightarrow>
               (case layer_loop kind preds [] [] [] (id_texts (g_nodes g)) of
                  (layers, triggers) \<Rightarrow> Some (filter (\<lambda>lay. lay \<noteq> []) layers, triggers))))"


subsection \<open>The depth of a node\<close>

definition is_trigger_id :: "(string \<times> jval) list \<Rightarrow> string \<Rightarrow> bool" where
  "is_trigger_id kind nid \<longleftrightarrow> dget kind nid = Some (JStr ''trigger'')"

definition layer_rel :: "(string \<times> jval) list \<Rightarrow> (string \<times> string list) list \<Rightarrow> (string \<times> string) set" where
  "layer_rel kind preds = {(n, p). \<not> is_trigger_id kind n \<and> p \<in> set (succ_of preds n)}"

definition layered :: "(string \<times> jval) list \<Rightarrow> (string \<times> string list) list \<Rightarrow> bool" where
  "layered kind preds \<longleftrightarrow> acyclic (layer_rel kind preds) \<and> targets preds \<subseteq> set (keys preds)"

text \<open>What the memo says of a node: one more than its deepest predecessor, 0 without one, -1 for a trigger.\<close>

definition level_ok ::
    "(string \<times> jval) list \<Rightarrow> (string \<times> string list) list \<Rightarrow> (string \<Rightarrow> int option) \<Rightarrow> string \<Rightarrow> int \<Rightarrow> bool" where
  "level_ok kind preds m n d \<longleftrightarrow>
     (if is_trigger_id kind n then d = - 1
      else 0 \<le> d \<and> (\<forall>p \<in> set (succ_of preds n). \<exists>dp. m p = Some dp \<and> dp + 1 \<le> d) \<and>
        (d = 0 \<or> (\<exists>p \<in> set (succ_of preds n). m p = Some (d - 1))))"

definition memo_ok :: "(string \<times> jval) list \<Rightarrow> (string \<times> string list) list \<Rightarrow> (string \<Rightarrow> int option) \<Rightarrow> bool" where
  "memo_ok kind preds m \<longleftrightarrow> (\<forall>n d. m n = Some d \<longrightarrow> level_ok kind preds m n d)"

lemma succ_key: "n \<in> set (succ_of succ v) \<Longrightarrow> v \<in> fst ` set succ"
  by (cases "dget succ v") (auto simp: succ_of_def dest: dget_has_key)

lemma level_ok_mono: "level_ok kind preds m n d \<Longrightarrow> m \<subseteq>\<^sub>m m' \<Longrightarrow> level_ok kind preds m' n d"
  unfolding level_ok_def by (fastforce simp: map_le_def dom_def split: if_splits)

lemma memo_ok_upd:
  "memo_ok kind preds m \<Longrightarrow> m n = None \<Longrightarrow> level_ok kind preds m n d \<Longrightarrow> memo_ok kind preds (m(n \<mapsto> d))"
  unfolding memo_ok_def
  by (auto intro: level_ok_mono [where m = m] simp: map_le_def dom_def split: if_splits)

lemma level_le:
  assumes l: "level_ok kind preds m n d" and l': "level_ok kind preds m' n d'" and n: "\<not> is_trigger_id kind n"
    and same: "\<And>p a b. p \<in> set (succ_of preds n) \<Longrightarrow> m p = Some a \<Longrightarrow> m' p = Some b \<Longrightarrow> a = b"
  shows "d \<le> d'"
proof -
  have d': "0 \<le> d'" "\<And>p. p \<in> set (succ_of preds n) \<Longrightarrow> \<exists>dp. m' p = Some dp \<and> dp + 1 \<le> d'"
    using l' n by (auto simp: level_ok_def)
  from l n have "d = 0 \<or> (\<exists>p \<in> set (succ_of preds n). m p = Some (d - 1))" by (simp add: level_ok_def)
  then show ?thesis
  proof
    assume "\<exists>p \<in> set (succ_of preds n). m p = Some (d - 1)"
    then obtain p where p: "p \<in> set (succ_of preds n)" "m p = Some (d - 1)" by blast
    with d'(2) obtain dp where "m' p = Some dp" "dp + 1 \<le> d'" by blast
    with same [OF p this(1)] show ?thesis by simp
  qed (use d'(1) in simp)
qed

lemma memo_unique:
  assumes "layered kind preds" "memo_ok kind preds m" "memo_ok kind preds m'"
  shows "m n = Some d \<Longrightarrow> m' n = Some d' \<Longrightarrow> d = d'"
proof -
  have "finite (layer_rel kind preds)"
    by (rule finite_subset [of _ "set (keys preds) \<times> targets preds"])
      (auto simp: layer_rel_def succ_targets dest: succ_key)
  with assms(1) have "wf ((layer_rel kind preds)\<inverse>)"
    unfolding layered_def by (blast intro: finite_acyclic_wf_converse)
  then show "m n = Some d \<Longrightarrow> m' n = Some d' \<Longrightarrow> d = d'"
  proof (induction n arbitrary: d d' rule: wf_induct_rule)
    case (less n)
    from less.prems assms(2,3) have l: "level_ok kind preds m n d" "level_ok kind preds m' n d'"
      by (auto simp: memo_ok_def)
    show ?case
    proof (cases "is_trigger_id kind n")
      case False
      have same: "p \<in> set (succ_of preds n) \<Longrightarrow> m p = Some a \<Longrightarrow> m' p = Some b \<Longrightarrow> a = b" for p a b
        using less.IH [of p a b] False by (simp add: layer_rel_def)
      have "d \<le> d'" by (rule level_le [OF l False same])
      moreover have "d' \<le> d" by (rule level_le [OF l(2,1) False]) (metis same)
      ultimately show ?thesis by simp
    qed (use l in \<open>simp add: level_ok_def\<close>)
  qed
qed


text \<open>Without a cycle no call meets a node that is being visited, and the memo stays right.\<close>

definition calls_up :: "(string \<times> jval) list \<Rightarrow> (string \<times> string list) list \<Rightarrow> string list \<Rightarrow> string \<Rightarrow> bool" where
  "calls_up kind preds visiting n \<longleftrightarrow> has_key n preds \<and> (\<forall>v \<in> set visiting. (v, n) \<in> (layer_rel kind preds)\<^sup>+)"

definition memo_grows ::
    "(string \<times> jval) list \<Rightarrow> (string \<times> string list) list \<Rightarrow> string list \<Rightarrow> (string \<times> int) list \<Rightarrow> (string \<times> int) list \<Rightarrow> bool" where
  "memo_grows kind preds visiting depth depth' \<longleftrightarrow>
     memo_ok kind preds (dget depth') \<and> dget depth \<subseteq>\<^sub>m dget depth' \<and> (\<forall>v \<in> set visiting. dget depth' v = dget depth v)"

lemma memo_grows_trans:
  "memo_grows kind preds vis a b \<Longrightarrow> memo_grows kind preds vis b c \<Longrightarrow> memo_grows kind preds vis a c"
  unfolding memo_grows_def by (auto intro: map_le_trans)

lemma memo_grows_weaken: "memo_grows kind preds (n # vis) a b \<Longrightarrow> memo_grows kind preds vis a b"
  unfolding memo_grows_def by auto

lemma depth_of_spec:
  assumes "layered kind preds"
  shows "calls_up kind preds visiting nid \<Longrightarrow> memo_ok kind preds (dget depth) \<Longrightarrow>
      (\<exists>d depth'. depth_of kind preds visiting depth nid = (Some d, depth') \<and> dget depth' nid = Some d \<and>
         memo_grows kind preds visiting depth depth')"
    and "\<forall>p \<in> set ps. calls_up kind preds visiting p \<Longrightarrow> memo_ok kind preds (dget depth) \<Longrightarrow>
      (\<exists>d' depth'. depth_preds kind preds visiting depth d ps = (d', depth') \<and> memo_grows kind preds visiting depth depth' \<and>
         d \<le> d' \<and> (\<forall>p \<in> set ps. \<exists>dp. dget depth' p = Some dp \<and> dp + 1 \<le> d') \<and>
         (d' = d \<or> (\<exists>p \<in> set ps. dget depth' p = Some (d' - 1))))"
  using assms
proof (induction kind preds visiting depth nid and kind preds visiting depth d ps rule: depth_of_depth_preds.induct)
  case (1 kind preds visiting depth nid)
  show ?case
  proof (cases "dget depth nid")
    case (Some d)
    with 1 show ?thesis by (auto simp: memo_grows_def)
  next
    case None
    have new: "nid \<notin> set visiting"
      using 1(2,4) by (auto simp: calls_up_def layered_def acyclic_def)
    from 1(2) obtain ps where ps: "dget preds nid = Some ps"
      by (cases "dget preds nid") (auto simp: calls_up_def dget_None_iff)
    have upd: "memo_grows kind preds visiting depth (dset nid d depth')"
      if "memo_grows kind preds (nid # visiting) depth depth'" "level_ok kind preds (dget depth') nid d" for d depth'
    proof -
      have "memo_ok kind preds (dget (dset nid d depth'))"
        unfolding update_conv using that None by (intro memo_ok_upd) (auto simp: memo_grows_def)
      then show ?thesis
        using that(1) None new by (auto simp: memo_grows_def map_le_def dom_def)
    qed
    show ?thesis
    proof (cases "is_trigger_id kind nid")
      case True
      have "memo_grows kind preds (nid # visiting) depth depth" using 1(3) by (simp add: memo_grows_def)
      from upd [OF this, of "- 1"] True None new ps show ?thesis by (simp add: level_ok_def is_trigger_id_def)
    next
      case False
      have "\<forall>p \<in> set ps. calls_up kind preds (nid # visiting) p"
      proof
        fix p assume "p \<in> set ps"
        with ps False have e: "(nid, p) \<in> layer_rel kind preds" by (simp add: layer_rel_def succ_of_def)
        have "p \<in> targets preds" using e by (auto simp: layer_rel_def intro: succ_targets)
        with 1(2,4) e show "calls_up kind preds (nid # visiting) p"
          by (auto simp: calls_up_def layered_def intro: trancl_into_trancl)
      qed
      from 1(1) [OF None new ps _ this 1(3,4)] False obtain d' depth' where d:
        "depth_preds kind preds (nid # visiting) depth 0 ps = (d', depth')" "memo_grows kind preds (nid # visiting) depth depth'"
        "0 \<le> d'" "\<forall>p \<in> set ps. \<exists>dp. dget depth' p = Some dp \<and> dp + 1 \<le> d'"
        "d' = 0 \<or> (\<exists>p \<in> set ps. dget depth' p = Some (d' - 1))"
        by (auto simp: is_trigger_id_def)
      then have "level_ok kind preds (dget depth') nid d'" using False ps by (simp add: level_ok_def succ_of_def)
      from upd [OF d(2) this] d(1) None new ps False show ?thesis by (simp add: is_trigger_id_def)
    qed
  qed
next
  case (2 kind preds visiting depth d)
  then show ?case by (simp add: memo_grows_def)
next
  case (3 kind preds visiting depth d p ps)
  from 3(1) 3(3-5) obtain dp depth1 where p: "depth_of kind preds visiting depth p = (Some dp, depth1)"
    "dget depth1 p = Some dp" "memo_grows kind preds visiting depth depth1" by auto
  have ok: "memo_ok kind preds (dget depth1)" using p(3) by (simp add: memo_grows_def)
  from 3(2) [OF p(1) [symmetric] _ ok 3(5)] 3(3) obtain d' depth' where d:
    "depth_preds kind preds visiting depth1 (max d (dp + 1)) ps = (d', depth')" "memo_grows kind preds visiting depth1 depth'"
    "max d (dp + 1) \<le> d'" "\<forall>p \<in> set ps. \<exists>dp. dget depth' p = Some dp \<and> dp + 1 \<le> d'"
    "d' = max d (dp + 1) \<or> (\<exists>p \<in> set ps. dget depth' p = Some (d' - 1))"
    by auto
  have "dget depth' p = Some dp" using d(2) p(2) by (auto simp: memo_grows_def map_le_def dom_def)
  with d p memo_grows_trans [OF p(3) d(2)] show ?case by (auto simp: max_def split: if_splits)
qed


subsection \<open>The layers\<close>

definition depth_in :: "(string \<times> jval) list \<Rightarrow> (string \<times> string list) list \<Rightarrow> string \<Rightarrow> int" where
  "depth_in kind preds n = (case fst (depth_of kind preds [] [] n) of Some d \<Rightarrow> d | None \<Rightarrow> 0)"

lemma memo_ok_Nil [simp]: "memo_ok kind preds (dget [])"
  by (simp add: memo_ok_def)

lemma depth_of_eq:
  assumes l: "layered kind preds" and "has_key n preds" and "memo_ok kind preds (dget depth)"
  obtains depth' where "depth_of kind preds [] depth n = (Some (depth_in kind preds n), depth')"
    "memo_ok kind preds (dget depth')" "dget depth' n = Some (depth_in kind preds n)"
proof -
  have c: "calls_up kind preds [] n" using assms(2) by (simp add: calls_up_def)
  from depth_of_spec(1) [OF l c assms(3)] obtain d depth' where d: "depth_of kind preds [] depth n = (Some d, depth')"
    "dget depth' n = Some d" "memo_ok kind preds (dget depth')" by (auto simp: memo_grows_def)
  from depth_of_spec(1) [OF l c memo_ok_Nil] obtain d0 depth0 where d0: "depth_of kind preds [] [] n = (Some d0, depth0)"
    "dget depth0 n = Some d0" "memo_ok kind preds (dget depth0)" by (auto simp: memo_grows_def)
  have "d = d0" using memo_unique [OF l d(3) d0(3)] d(2) d0(2) by blast
  with d d0 show ?thesis by (intro that [of depth']) (auto simp: depth_in_def)
qed

lemma depth_level:
  assumes "layered kind preds" "has_key n preds"
  shows "level_ok kind preds (\<lambda>p. Some (depth_in kind preds p)) n (depth_in kind preds n)"
proof -
  obtain depth' where d: "memo_ok kind preds (dget depth')" "dget depth' n = Some (depth_in kind preds n)"
    using depth_of_eq [OF assms memo_ok_Nil] by metis
  then have l: "level_ok kind preds (dget depth') n (depth_in kind preds n)" by (simp add: memo_ok_def)
  have "dp = depth_in kind preds p" if "p \<in> set (succ_of preds n)" "dget depth' p = Some dp" for p dp
  proof -
    have "has_key p preds" using that(1) assms(1) by (auto simp: layered_def dest: succ_targets)
    from depth_of_eq [OF assms(1) this memo_ok_Nil] obtain depth'' where
      "memo_ok kind preds (dget depth'')" "dget depth'' p = Some (depth_in kind preds p)" by metis
    with memo_unique [OF assms(1) d(1)] that(2) show ?thesis by blast
  qed
  with l show ?thesis unfolding level_ok_def by (auto split: if_splits; metis option.inject)
qed

lemma depth_unique:
  assumes "layered kind preds" "\<And>n. has_key n preds \<Longrightarrow> level_ok kind preds (\<lambda>p. Some (f p)) n (f n)" "has_key n preds"
  shows "depth_in kind preds n = f n"
proof -
  let ?m = "\<lambda>f n. if has_key n preds then Some (f n :: int) else None"
  have m: "memo_ok kind preds (?m g)" if g: "\<And>n. has_key n preds \<Longrightarrow> level_ok kind preds (\<lambda>p. Some (g p)) n (g n)" for g
  proof -
    have "p \<in> set (succ_of preds n) \<Longrightarrow> has_key p preds" for p n
      using assms(1) by (auto simp: layered_def dest: succ_targets)
    with g show ?thesis unfolding memo_ok_def level_ok_def by (auto split: if_splits; fastforce)
  qed
  from memo_unique [OF assms(1) m m, of "depth_in kind preds" f n] depth_level [OF assms(1)] assms(2,3) show ?thesis by simp
qed

fun height :: "('a \<Rightarrow> int) \<Rightarrow> 'a list \<Rightarrow> nat" where
  "height f [] = 0"
| "height f (x # xs) = (if f x < 0 then height f xs else max (Suc (nat (f x))) (height f xs))"

definition grouped :: "('a \<Rightarrow> int) \<Rightarrow> 'a list \<Rightarrow> 'a list list" where
  "grouped f xs = map (\<lambda>i. filter (\<lambda>x. f x = int i) xs) [0..<height f xs]"

lemma height_less: "x \<in> set xs \<Longrightarrow> 0 \<le> f x \<Longrightarrow> nat (f x) < height f xs"
  by (induction xs) auto

lemma height_snoc: "height f (xs @ [x]) = (if f x < 0 then height f xs else max (height f xs) (Suc (nat (f x))))"
  by (induction xs) (auto simp: max.assoc)

lemma grouped_neg: "f x < 0 \<Longrightarrow> grouped f (xs @ [x]) = grouped f xs"
  by (auto simp: grouped_def height_snoc)

lemma grouped_place:
  assumes "0 \<le> f x"
  shows "place (f x) x (grouped f xs) = grouped f (xs @ [x])"
proof (rule nth_equalityI)
  show len: "length (place (f x) x (grouped f xs)) = length (grouped f (xs @ [x]))"
    using assms by (simp add: place_def grouped_def height_snoc Let_def)
  fix i assume i: "i < length (place (f x) x (grouped f xs))"
  have none: "filter (\<lambda>y. f y = int i) xs = []" if "height f xs \<le> i"
    using that height_less [of _ xs f] by (auto simp: filter_empty_conv) (metis linorder_not_le nat_int of_nat_0_le_iff)
  show "place (f x) x (grouped f xs) ! i = grouped f (xs @ [x]) ! i"
    using i assms none
    by (auto simp: place_def grouped_def height_snoc Let_def nth_append nth_list_update split: if_splits)
qed

lemma layer_loop_eq:
  assumes "layered kind preds" "memo_ok kind preds (dget depth)" "\<forall>n \<in> set ids. has_key n preds"
  shows "layer_loop kind preds depth (grouped (depth_in kind preds) done)
      (filter (\<lambda>n. depth_in kind preds n < 0) done) ids =
    (grouped (depth_in kind preds) (done @ ids), filter (\<lambda>n. depth_in kind preds n < 0) (done @ ids))"
  using assms(2,3)
proof (induction ids arbitrary: depth "done")
  case (Cons n ids)
  have "has_key n preds" using Cons.prems(2) by simp
  from depth_of_eq [OF assms(1) this Cons.prems(1)] obtain depth' where
    "depth_of kind preds [] depth n = (Some (depth_in kind preds n), depth')" "memo_ok kind preds (dget depth')" by metis
  then show ?case
    using Cons.IH [of depth' "done @ [n]"] Cons.prems(2)
    by (auto simp: grouped_neg grouped_place)
qed simp


lemma nth_grouped: "i < height f xs \<Longrightarrow> grouped f xs ! i = filter (\<lambda>x. f x = int i) xs"
  by (simp add: grouped_def)

lemma length_grouped [simp]: "length (grouped f xs) = height f xs"
  by (simp add: grouped_def)

lemma in_grouped: "i < length (grouped f xs) \<Longrightarrow> x \<in> set (grouped f xs ! i) \<longleftrightarrow> x \<in> set xs \<and> f x = int i"
  by (auto simp: nth_grouped)

lemma set_concat_grouped: "set (concat (grouped f xs)) = {x \<in> set xs. 0 \<le> f x}"
proof (intro equalityI subsetI)
  fix x assume "x \<in> {x \<in> set xs. 0 \<le> f x}"
  then have x: "x \<in> set xs" "0 \<le> f x" by auto
  from height_less [of x xs f] x have "x \<in> set (grouped f xs ! nat (f x))" "grouped f xs ! nat (f x) \<in> set (grouped f xs)"
    by (auto simp: nth_grouped intro: nth_mem) (metis length_grouped nth_grouped nth_mem int_nat_eq)
  then show "x \<in> set (concat (grouped f xs))" by auto
qed (auto simp: grouped_def)

lemma distinct_concat_grouped: "distinct xs \<Longrightarrow> distinct (concat (grouped f xs))"
proof -
  assume d: "distinct xs"
  have "distinct (concat (map (\<lambda>i. filter (\<lambda>x. f x = int i) xs) [0..<n]))" for n
    using d by (induction n) auto
  then show ?thesis by (simp add: grouped_def)
qed

text \<open>No layer below the highest is empty when every depth above 0 is reached from one below.\<close>

lemma grouped_no_gap:
  assumes "\<And>x. x \<in> set xs \<Longrightarrow> 0 < f x \<Longrightarrow> \<exists>y \<in> set xs. f y = f x - 1"
  shows "[] \<notin> set (grouped f xs)"
proof -
  have down: "\<exists>y \<in> set xs. f y = int n" if "n \<le> m" "x \<in> set xs" "f x = int m" for n m x
    using that
  proof (induction "m - n" arbitrary: m x)
    case (Suc k)
    from assms [OF Suc.prems(2)] Suc.prems Suc.hyps(2) have "\<exists>y \<in> set xs. f y = int m - 1"
      by (cases "m = 0") auto
    then obtain y where "y \<in> set xs" "f y = int m - 1" by blast
    with Suc.hyps(1) [of "m - 1" y] Suc.hyps(2) Suc.prems show ?case by auto
  qed auto
  have top: "height f xs \<noteq> 0 \<Longrightarrow> \<exists>x \<in> set xs. f x = int (height f xs - 1)" for xs :: "'a list"
    by (induction xs) (auto simp: max_def split: if_splits)
  have "\<exists>x \<in> set xs. f x = int i" if i: "i < height f xs" for i
  proof -
    from top [of xs] i obtain x where "x \<in> set xs" "f x = int (height f xs - 1)" by auto
    then show ?thesis by (intro down [of i "height f xs - 1" x]) (use i in auto)
  qed
  then show ?thesis by (auto simp: grouped_def image_iff empty_filter_conv)
qed


subsection \<open>Of an accepted graph\<close>

definition string_ids :: "jdict list \<Rightarrow> bool" where
  "string_ids ns \<longleftrightarrow> (\<forall>n \<in> set ns. \<exists>s. dget n ''id'' = Some (JStr s))"

lemma id_texts_eq: "string_ids ns \<Longrightarrow> id_texts ns = map (doc_id repr) ns"
  by (induction ns) (auto simp: string_ids_def doc_id_def jget_def)

lemma in_id_texts: "n \<in> set ns \<Longrightarrow> dget n ''id'' = Some (JStr s) \<Longrightarrow> s \<in> set (id_texts ns)"
  by (induction ns) (auto simp: jget_def split: jval.splits)

lemma node_kinds_eq:
  "string_ids ns \<Longrightarrow> distinct (keys acc @ map (doc_id repr) ns) \<Longrightarrow>
   node_kinds acc ns = Some (acc @ map (\<lambda>n. (doc_id repr n, jget n ''kind'')) ns)"
proof (induction ns arbitrary: acc)
  case (Cons n ns)
  then obtain s where s: "dget n ''id'' = Some (JStr s)" by (auto simp: string_ids_def)
  have "s = doc_id repr n" by (simp add: doc_id_def jget_def s)
  with Cons s dset_new [of s acc "jget n ''kind''"] show ?case by (simp add: string_ids_def)
qed simp

lemma pred_lists_eq:
  assumes "\<forall>d \<in> set es. \<exists>s t. ends_of d = Some (s, t) \<and> s \<in> set (keys kind) \<and> t \<in> set (keys kind)" "set (keys kind) \<subseteq> set (keys preds)"
  shows "\<exists>preds'. pred_lists kind preds es = Some preds' \<and> set (keys preds') = set (keys preds) \<and>
    (distinct (keys preds) \<longrightarrow> distinct (keys preds')) \<and> (\<forall>s t. s \<in> set (succ_of preds' t) \<longleftrightarrow> s \<in> set (succ_of preds t) \<or> (s, t) \<in> main_rel es)"
  using assms
proof (induction es arbitrary: preds)
  case (Cons e es)
  then obtain s t where e: "ends_of e = Some (s, t)" "s \<in> set (keys kind)" "t \<in> set (keys kind)" by auto
  then have st: "jget e ''from'' = JStr s" "jget e ''to'' = JStr t" by (auto simp: ends_of.simps split: jval.splits)
  have k: "set (keys (dset t l preds)) = set (keys preds)" for l
    using e(3) Cons.prems(2) by (auto simp: dom_update)
  define preds1 where "preds1 = (if is_main e then dset t (succ_of preds t @ [s]) preds else preds)"
  have step: "pred_lists kind preds (e # es) = pred_lists kind preds1 es"
    using st e by (auto simp: preds1_def)
  have "\<forall>d \<in> set es. \<exists>s t. ends_of d = Some (s, t) \<and> s \<in> set (keys kind) \<and> t \<in> set (keys kind)"
    "set (keys kind) \<subseteq> set (keys preds1)"
    using Cons.prems k by (auto simp: preds1_def)
  from Cons.IH [OF this] obtain preds' where p: "pred_lists kind preds1 es = Some preds'"
    "set (keys preds') = set (keys preds1)" "distinct (keys preds1) \<longrightarrow> distinct (keys preds')"
    "\<forall>s t. s \<in> set (succ_of preds' t) \<longleftrightarrow> s \<in> set (succ_of preds1 t) \<or> (s, t) \<in> main_rel es" by auto
  have "s' \<in> set (succ_of preds1 t') \<longleftrightarrow> s' \<in> set (succ_of preds t') \<or> (is_main e \<and> s' = s \<and> t' = t)" for s' t'
    by (auto simp: preds1_def succ_of_def)
  moreover have "(s', t') \<in> main_rel (e # es) \<longleftrightarrow> (s', t') \<in> main_rel es \<or> (is_main e \<and> s' = s \<and> t' = t)" for s' t'
    using e by (auto simp: main_rel_def is_main_def)
  moreover have "set (keys preds1) = set (keys preds)" using k by (simp add: preds1_def)
  moreover have "distinct (keys preds) \<longrightarrow> distinct (keys preds1)" by (auto simp: preds1_def)
  ultimately show ?case unfolding step using p by (intro exI [of _ preds']) (simp, blast)
qed (simp add: main_rel_def)


definition trigger_ids :: "jdict list \<Rightarrow> string set" where
  "trigger_ids ns = {s. \<exists>n \<in> set ns. dget n ''id'' = Some (JStr s) \<and> jget n ''kind'' = JStr ''trigger''}"

text \<open>The depth function of the nodes: \<open>f\<close> is -1 on the triggers, and elsewhere the length of the longest chain below.\<close>

definition depth_fun :: "pgraph \<Rightarrow> (string \<Rightarrow> int) \<Rightarrow> bool" where
  "depth_fun g f \<longleftrightarrow> (\<forall>n \<in> set (id_texts (g_nodes g)).
     if n \<in> trigger_ids (g_nodes g) then f n = - 1
     else 0 \<le> f n \<and> (\<forall>p. (p, n) \<in> main_rel (g_edges g) \<longrightarrow> f p + 1 \<le> f n) \<and>
       (f n = 0 \<or> (\<exists>p. (p, n) \<in> main_rel (g_edges g) \<and> f p = f n - 1)))"

lemma depth_funD:
  assumes "depth_fun g f" "n \<in> set (id_texts (g_nodes g))" "n \<notin> trigger_ids (g_nodes g)"
  shows "0 \<le> f n" "(p, n) \<in> main_rel (g_edges g) \<Longrightarrow> f p + 1 \<le> f n"
    "f n \<noteq> 0 \<Longrightarrow> \<exists>p. (p, n) \<in> main_rel (g_edges g) \<and> f p = f n - 1"
  using bspec [OF assms(1) [unfolded depth_fun_def] assms(2)] assms(3) by (simp_all split: if_splits)

text \<open>What layering needs of a graph.\<close>

definition layerable :: "pgraph \<Rightarrow> bool" where
  "layerable g \<longleftrightarrow> string_ids (g_nodes g) \<and> distinct (id_texts (g_nodes g)) \<and> acyclic (main_rel (g_edges g)) \<and>
     (\<forall>d \<in> set (g_edges g). \<exists>s t. ends_of d = Some (s, t) \<and> s \<in> set (id_texts (g_nodes g)) \<and> t \<in> set (id_texts (g_nodes g)))"

lemma graph_wf_layerable: "graph_wf repr (g_nodes g) (g_edges g) \<Longrightarrow> string_ids (g_nodes g) \<Longrightarrow> layerable g"
  unfolding layerable_def using id_texts_eq [of "g_nodes g" repr] by (auto simp: graph_wf_def edge_good_def)

lemma main_rel_ends:
  assumes "layerable g" "(s, t) \<in> main_rel (g_edges g)"
  shows "s \<in> set (id_texts (g_nodes g))" "t \<in> set (id_texts (g_nodes g))"
proof -
  from assms(2) obtain d where d: "d \<in> set (g_edges g)" "ends_of d = Some (s, t)" by (auto simp: main_rel_def)
  with assms(1) obtain s' t' where "ends_of d = Some (s', t')" "s' \<in> set (id_texts (g_nodes g))" "t' \<in> set (id_texts (g_nodes g))"
    unfolding layerable_def by blast
  with d(2) show "s \<in> set (id_texts (g_nodes g))" "t \<in> set (id_texts (g_nodes g))" by simp_all
qed

lemma layer_graph_eq:
  assumes g: "layerable g"
  obtains f where "depth_fun g f" "\<And>f'. depth_fun g f' \<Longrightarrow> \<forall>n \<in> set (id_texts (g_nodes g)). f' n = f n"
    "layer_graph g = Some (grouped f (id_texts (g_nodes g)), filter (\<lambda>n. f n < 0) (id_texts (g_nodes g)))"
proof -
  let ?ids = "id_texts (g_nodes g)" and ?id = "doc_id (\<lambda>_. [])"
  define kind where "kind = map (\<lambda>n. (?id n, jget n ''kind'')) (g_nodes g)"
  have ids: "string_ids (g_nodes g)" using g by (simp add: layerable_def)
  have eq: "?ids = map ?id (g_nodes g)" by (rule id_texts_eq [OF ids])
  have kk: "keys kind = ?ids" by (simp add: kind_def eq)
  have dk: "distinct (keys kind)" using g kk by (simp add: layerable_def)
  have kind: "node_kinds [] (g_nodes g) = Some kind"
    using node_kinds_eq [OF ids, of "[]" "\<lambda>_. []"] g eq by (simp add: layerable_def kind_def)
  let ?start = "map (\<lambda>(nid, k). (nid, [] :: string list)) kind"
  have ks: "keys ?start = keys kind" by (induction kind) auto
  have "\<forall>d \<in> set (g_edges g). \<exists>s t. ends_of d = Some (s, t) \<and> s \<in> set (keys kind) \<and> t \<in> set (keys kind)"
    using g by (simp add: layerable_def kk)
  from pred_lists_eq [OF this, of ?start] ks obtain preds where preds: "pred_lists kind ?start (g_edges g) = Some preds"
    "set (keys preds) = set ?ids" and dp: "distinct (keys preds)" and preds3: "\<And>s t. s \<in> set (succ_of preds t) \<longleftrightarrow> s \<in> set (succ_of ?start t) \<or> (s, t) \<in> main_rel (g_edges g)"
    using dk by (auto simp: kk simp del: set_map)
  have "succ_of ?start t = []" for t by (induction kind) (auto simp: succ_of_def)
  with preds3 have succ: "s \<in> set (succ_of preds t) \<longleftrightarrow> (s, t) \<in> main_rel (g_edges g)" for s t by simp
  have trig: "is_trigger_id kind n \<longleftrightarrow> n \<in> trigger_ids (g_nodes g)" for n
  proof -
    have "is_trigger_id kind n \<longleftrightarrow> (\<exists>d \<in> set (g_nodes g). ?id d = n \<and> jget d ''kind'' = JStr ''trigger'')"
      unfolding is_trigger_id_def dget_iff_mem [OF dk] by (auto simp: kind_def image_iff)
    also have "\<dots> \<longleftrightarrow> (\<exists>d \<in> set (g_nodes g). dget d ''id'' = Some (JStr n) \<and> jget d ''kind'' = JStr ''trigger'')"
      using ids by (intro bex_cong) (auto simp: string_ids_def doc_id_def jget_def)
    finally show ?thesis by (simp add: trigger_ids_def)
  qed
  have targets: "targets preds \<subseteq> set ?ids"
  proof
    fix s assume "s \<in> targets preds"
    then obtain t ns where t: "(t, ns) \<in> set preds" "s \<in> set ns" by (auto simp: targets_def)
    then have "dget preds t = Some ns" using dp by (simp add: dget_iff_mem)
    with t have "(s, t) \<in> main_rel (g_edges g)" using succ [of s t] by (simp add: succ_of_def)
    with main_rel_ends [OF g this] show "s \<in> set ?ids" by simp
  qed
  have "layer_rel kind preds \<subseteq> (main_rel (g_edges g))\<inverse>" by (auto simp: layer_rel_def succ)
  with g have "acyclic (layer_rel kind preds)"
    by (meson acyclic_converse acyclic_subset layerable_def)
  with targets preds(2) have lay: "layered kind preds" by (simp add: layered_def)
  define f where "f = depth_in kind preds"
  have level: "level_ok kind preds (\<lambda>p. Some (h p)) n (h n) \<longleftrightarrow>
      (if n \<in> trigger_ids (g_nodes g) then h n = - 1
       else 0 \<le> h n \<and> (\<forall>p. (p, n) \<in> main_rel (g_edges g) \<longrightarrow> h p + 1 \<le> h n) \<and>
         (h n = 0 \<or> (\<exists>p. (p, n) \<in> main_rel (g_edges g) \<and> h p = h n - 1)))" for h n
    by (auto simp: level_ok_def trig succ)
  have key: "has_key n preds \<longleftrightarrow> n \<in> set ?ids" for n using preds(2) by simp
  have f: "depth_fun g f"
    using depth_level [OF lay] unfolding depth_fun_def level [symmetric] f_def key by blast
  have "\<forall>n \<in> set ?ids. f' n = f n" if "depth_fun g f'" for f'
    using depth_unique [OF lay, of f'] that unfolding depth_fun_def level [symmetric] f_def key by metis
  moreover have "\<exists>y \<in> set ?ids. f y = f n - 1" if "n \<in> set ?ids" "0 < f n" for n
  proof -
    from f that obtain p where "(p, n) \<in> main_rel (g_edges g)" "f p = f n - 1"
      by (auto simp: depth_fun_def split: if_splits)
    moreover from this(1) have "p \<in> targets preds" using succ succ_targets by metis
    ultimately show ?thesis using targets by blast
  qed
  then have "filter (\<lambda>lay. lay \<noteq> []) (grouped f ?ids) = grouped f ?ids"
    using grouped_no_gap [of ?ids f] by (metis (mono_tags, lifting) filter_True)
  then have "layer_graph g = Some (grouped f ?ids, filter (\<lambda>n. f n < 0) ?ids)"
    using layer_loop_eq [OF lay memo_ok_Nil, of ?ids "[]"] key
    by (simp add: layer_graph_def kind preds(1) f_def grouped_def)
  ultimately show ?thesis using f that by blast
qed


text \<open>
  C35: a graph that \<open>validate_graph\<close> accepts, with text ids, is layered completely: its triggers apart, every node is in
  exactly one layer, no layer is empty, a main edge leads to a later layer, and a node of a later layer has a main edge
  from the layer just before.
\<close>

theorem layers_are_topological:
  assumes "validate_graph repr (JDict [(''nodes'', JList (map JDict (g_nodes g))), (''edges'', JList (map JDict (g_edges g)))]) = Some []"
    and "string_ids (g_nodes g)"
  shows "\<exists>layers triggers. layer_graph g = Some (layers, triggers) \<and>
    distinct (concat layers @ triggers) \<and> set (concat layers @ triggers) = set (id_texts (g_nodes g)) \<and>
    set triggers = trigger_ids (g_nodes g) \<and> [] \<notin> set layers \<and>
    (\<forall>i < length layers. \<forall>j < length layers. \<forall>s \<in> set (layers ! i). \<forall>t \<in> set (layers ! j).
       (s, t) \<in> main_rel (g_edges g) \<longrightarrow> i < j) \<and>
    (\<forall>i < length layers. 0 < i \<longrightarrow> (\<forall>t \<in> set (layers ! i). \<exists>s \<in> set (layers ! (i - 1)). (s, t) \<in> main_rel (g_edges g)))"
proof -
  let ?ids = "id_texts (g_nodes g)"
  have wf: "graph_wf repr (g_nodes g) (g_edges g)"
    using assms(1) unfolding validate_graph_iff by (auto simp: jget_def inj_def)
  have g: "layerable g" by (rule graph_wf_layerable [OF wf assms(2)])
  from layer_graph_eq [OF g] obtain f where f: "depth_fun g f"
    and lg: "layer_graph g = Some (grouped f ?ids, filter (\<lambda>n. f n < 0) ?ids)" by metis
  have dist: "distinct ?ids" using g by (simp add: layerable_def)
  have trig: "n \<in> trigger_ids (g_nodes g) \<longleftrightarrow> n \<in> set ?ids \<and> f n < 0" for n
  proof
    assume n: "n \<in> trigger_ids (g_nodes g)"
    then have "n \<in> set ?ids" by (auto simp: trigger_ids_def intro: in_id_texts)
    with f n show "n \<in> set ?ids \<and> f n < 0" by (simp add: depth_fun_def)
  next
    assume n: "n \<in> set ?ids \<and> f n < 0"
    show "n \<in> trigger_ids (g_nodes g)"
    proof (rule ccontr)
      assume "n \<notin> trigger_ids (g_nodes g)"
      with f n have "0 \<le> f n" by (simp add: depth_fun_def)
      with n show False by simp
    qed
  qed
  have up: "f s + 1 \<le> f t" if "(s, t) \<in> main_rel (g_edges g)" "t \<in> set ?ids" "0 \<le> f t" for s t
    using f that by (auto simp: depth_fun_def trig split: if_splits)
  have down: "\<exists>s \<in> set ?ids. (s, t) \<in> main_rel (g_edges g) \<and> f s = f t - 1" if "t \<in> set ?ids" "0 < f t" for t
  proof -
    have "t \<notin> trigger_ids (g_nodes g)" using that(2) trig by force
    with depth_funD(3) [OF f that(1)] that(2) obtain s where s: "(s, t) \<in> main_rel (g_edges g)" "f s = f t - 1" by auto
    with main_rel_ends(1) [OF g s(1)] show ?thesis by auto
  qed
  show ?thesis
  proof (intro exI conjI)
    show "layer_graph g = Some (grouped f ?ids, filter (\<lambda>n. f n < 0) ?ids)" by (rule lg)
    show "distinct (concat (grouped f ?ids) @ filter (\<lambda>n. f n < 0) ?ids)"
      using dist distinct_concat_grouped [OF dist, of f] unfolding distinct_append set_concat_grouped by auto
    show "set (concat (grouped f ?ids) @ filter (\<lambda>n. f n < 0) ?ids) = set ?ids"
      unfolding set_append set_concat_grouped by auto
    show "set (filter (\<lambda>n. f n < 0) ?ids) = trigger_ids (g_nodes g)" using trig by auto
    show "[] \<notin> set (grouped f ?ids)" using down by (intro grouped_no_gap) blast
    show "\<forall>i < length (grouped f ?ids). \<forall>j < length (grouped f ?ids). \<forall>s \<in> set (grouped f ?ids ! i).
        \<forall>t \<in> set (grouped f ?ids ! j). (s, t) \<in> main_rel (g_edges g) \<longrightarrow> i < j"
      using up by (fastforce simp: in_grouped)
    show "\<forall>i < length (grouped f ?ids). 0 < i \<longrightarrow> (\<forall>t \<in> set (grouped f ?ids ! i).
        \<exists>s \<in> set (grouped f ?ids ! (i - 1)). (s, t) \<in> main_rel (g_edges g))"
      using down by (fastforce simp: in_grouped)
  qed
qed


definition small_graph :: pgraph where
  "small_graph =
     (let nodes = [[(''id'', JStr ''t''), (''kind'', JStr ''trigger''), (''position'', JDict [(''x'', JInt 0), (''y'', JInt 0)])],
                   [(''id'', JStr ''a''), (''kind'', JStr ''gate''), (''position'', JDict [(''x'', JInt 0), (''y'', JInt 0)])],
                   [(''id'', JStr ''b''), (''kind'', JStr ''gate''), (''position'', JDict [(''x'', JInt 0), (''y'', JInt 0)])]];
          edges = [[(''id'', JStr ''e1''), (''from'', JStr ''t''), (''to'', JStr ''a'')],
                   [(''id'', JStr ''e2''), (''from'', JStr ''a''), (''to'', JStr ''b''), (''kind'', JStr ''main'')],
                   [(''id'', JStr ''r1''), (''from'', JStr ''b''), (''to'', JStr ''a''), (''kind'', JStr ''reject''), (''maxLoops'', JInt 3)]]
      in \<lparr>g_version = JInt 1, g_nodes = nodes, g_edges = edges\<rparr>)"

lemma layers_are_topological_witness:
  "set (id_texts (g_nodes small_graph)) = {''t'', ''a'', ''b''} \<and>
   (\<exists>layers triggers. layer_graph small_graph = Some (layers, triggers) \<and> [] \<notin> set layers \<and> set triggers = {''t''})"
proof -
  have ok: "validate_graph (\<lambda>_. []) (JDict [(''nodes'', JList (map JDict (g_nodes small_graph))),
      (''edges'', JList (map JDict (g_edges small_graph)))]) = Some []"
    by code_simp
  have ids: "string_ids (g_nodes small_graph)" by (simp add: string_ids_def small_graph_def)
  have t: "trigger_ids (g_nodes small_graph) = {''t''}"
    by (auto simp: trigger_ids_def small_graph_def jget_def)
  have i: "set (id_texts (g_nodes small_graph)) = {''t'', ''a'', ''b''}" by (auto simp: small_graph_def jget_def)
  from layers_are_topological [OF ok ids] obtain layers triggers where
    "layer_graph small_graph = Some (layers, triggers)" "[] \<notin> set layers" "set triggers = trigger_ids (g_nodes small_graph)"
    by (elim exE conjE) (rule that)
  with i t show ?thesis by simp
qed


text \<open>
  On a cycle the nodes are layered all the same, as if the edge that closes it were not there: the test for a NaN
  depth never holds, because the NaN does not survive \<open>max\<close>.
\<close>

definition cyclic_graph :: pgraph where
  "cyclic_graph = \<lparr>g_version = JInt 1,
     g_nodes = [[(''id'', JStr ''a''), (''kind'', JStr ''gate'')], [(''id'', JStr ''b''), (''kind'', JStr ''gate'')]],
     g_edges = [[(''id'', JStr ''e1''), (''from'', JStr ''a''), (''to'', JStr ''b'')],
                [(''id'', JStr ''e2''), (''from'', JStr ''b''), (''to'', JStr ''a'')]]\<rparr>"

lemma cycle_is_layered: "layer_graph cyclic_graph = Some ([[''b''], [''a'']], [])"
  by code_simp

end
