(* ===== verification/Pipeline_Stages.thy ===== *)
theory Pipeline_Stages
  imports Pipeline_Layers
begin

text \<open>
  \<open>backend/agent_team_backend/pipeline_graph.py\<close>: the graph a list of stages implies, the stages a graph implies, and the test
  that a graph is no more than its stages. Stage and slot documents are dictionaries; \<open>None\<close> is an exception.
  \<open>repr\<close> is the text of ids that are floats, lists or objects.
\<close>

section \<open>Slots\<close>

definition dget_or :: "jdict \<Rightarrow> string \<Rightarrow> jval \<Rightarrow> jval" where
  "dget_or d k v = (case dget d k of None \<Rightarrow> v | Some x \<Rightarrow> x)"

definition with_params :: "jdict \<Rightarrow> jdict \<Rightarrow> jdict" where
  "with_params slot out = (case jget slot ''params'' of JDict p \<Rightarrow> out @ [(''params'', JDict p)] | _ \<Rightarrow> out)"

definition slot_to_graph :: "jdict \<Rightarrow> jdict" where
  "slot_to_graph slot = with_params slot
     [(''agentKey'', dget_or slot ''agent_key'' (JStr [])),
      (''roleKey'', dget_or slot ''role_key'' (JStr [])),
      (''label'', dget_or slot ''label'' (JStr [])),
      (''kickoffBody'', dget_or slot ''kickoff_body'' (JStr [])),
      (''isCommander'', JBool (truthy (dget_or slot ''is_commander'' (JBool False))))]"

definition slot_to_stage :: "jdict \<Rightarrow> jdict" where
  "slot_to_stage slot = with_params slot
     [(''agent_key'', dget_or slot ''agentKey'' (JStr [])),
      (''role_key'', dget_or slot ''roleKey'' (JStr [])),
      (''label'', dget_or slot ''label'' (JStr [])),
      (''kickoff_body'', dget_or slot ''kickoffBody'' (JStr [])),
      (''is_commander'', JBool (truthy (dget_or slot ''isCommander'' (JBool False))))]"

definition slot_node_id :: "string \<Rightarrow> int \<Rightarrow> string" where
  "slot_node_id stage_id i = ''n-'' @ stage_id @ ''-'' @ int_str i"

definition edge_id :: "string \<Rightarrow> string \<Rightarrow> string \<Rightarrow> string" where
  "edge_id src dst kind = (if kind = ''reject'' then ''r-'' else ''e-'') @ src @ ''-'' @ dst"


section \<open>From stages to a graph\<close>

text \<open>\<open>stage.get("slots") or []\<close> and its members, which are objects.\<close>

fun as_dicts :: "jval list \<Rightarrow> jdict list option" where
  "as_dicts [] = Some []"
| "as_dicts (v # vs) = (case v of JDict d \<Rightarrow> map_option ((#) d) (as_dicts vs) | _ \<Rightarrow> None)"

definition stage_slots :: "jdict \<Rightarrow> jdict list option" where
  "stage_slots stage =
     (let v = jget stage ''slots'' in
      if \<not> truthy v then Some [] else (case v of JList vs \<Rightarrow> as_dicts vs | _ \<Rightarrow> None))"

fun stage_nodes :: "jval \<Rightarrow> string \<Rightarrow> int \<Rightarrow> int \<Rightarrow> jdict list \<Rightarrow> jdict list" where
  "stage_nodes sid sid_str layer i [] = []"
| "stage_nodes sid sid_str layer i (slot # slots) =
     [(''id'', JStr (slot_node_id sid_str i)),
      (''kind'', JStr ''slot''),
      (''label'', dget_or slot ''label'' (JStr [])),
      (''position'', JDict [(''x'', JInt ((layer + 1) * LAYER_DX)), (''y'', JInt (i * LANE_DY))]),
      (''slot'', JDict (slot_to_graph slot)),
      (''stageId'', sid)] # stage_nodes sid sid_str layer (i + 1) slots"

definition wire :: "string list \<Rightarrow> string list \<Rightarrow> jdict list" where
  "wire prev ids = concat (map (\<lambda>src. map (\<lambda>dst.
     [(''id'', JStr (edge_id src dst ''main'')), (''from'', JStr src), (''to'', JStr dst), (''kind'', JStr ''main'')]) ids) prev)"

fun derive_graph_loop ::
    "(jval \<Rightarrow> string) \<Rightarrow> int \<Rightarrow> string list \<Rightarrow> jdict list \<Rightarrow> (jdict list \<times> jdict list) option" where
  "derive_graph_loop repr layer prev [] = Some ([], [])"
| "derive_graph_loop repr layer prev (stage # stages) =
     (case stage_slots stage of
        None \<Rightarrow> None
      | Some slots \<Rightarrow>
          (let sid = dget_or stage ''id'' (JStr []);
               nodes = stage_nodes sid (py_str repr sid) layer 0 slots;
               ids = id_texts nodes
           in map_option (\<lambda>(ns, es). (nodes @ ns, wire prev ids @ es))
                (derive_graph_loop repr (layer + 1) (if ids \<noteq> [] then ids else prev) stages)))"

definition trigger_node :: jdict where
  "trigger_node =
     [(''id'', JStr TRIGGER_NODE_ID), (''kind'', JStr ''trigger''), (''label'', JStr ''Start''),
      (''position'', JDict [(''x'', JInt 0), (''y'', JInt 0)])]"

definition derive_graph_from_stages :: "(jval \<Rightarrow> string) \<Rightarrow> jdict list \<Rightarrow> pgraph option" where
  "derive_graph_from_stages repr stages =
     map_option (\<lambda>(ns, es). \<lparr>g_version = JInt GRAPH_VERSION, g_nodes = trigger_node # ns, g_edges = es\<rparr>)
       (derive_graph_loop repr 0 [TRIGGER_NODE_ID] stages)"


section \<open>From a graph to stages\<close>

definition blank_stage :: "jval \<Rightarrow> int \<Rightarrow> jdict" where
  "blank_stage sid layer =
     [(''id'', sid), (''title'', JStr (''Layer '' @ int_str (layer + 1))),
      (''short_title'', JStr (''Layer '' @ int_str (layer + 1))),
      (''question'', JStr []), (''description'', JStr []), (''recommended_roles'', JList []), (''sentinel'', JStr []),
      (''allow_questions'', JBool False), (''doc_query'', JStr []), (''slots'', JList [])]"

text \<open>Dictionaries and sets of arbitrary ids, under Python's equality of keys: the last entry written counts.\<close>

fun kget :: "(jval \<times> 'v) list \<Rightarrow> jval \<Rightarrow> 'v option" where
  "kget [] k = None"
| "kget ((k', v) # d) k = (case kget d k of Some v' \<Rightarrow> Some v' | None \<Rightarrow> if key_eq k' k then Some v else None)"

definition kmem :: "jval \<Rightarrow> jval list \<Rightarrow> bool" where
  "kmem k ks = list_ex (\<lambda>k'. key_eq k' k) ks"

lemma kmem_str [simp]: "kmem (JStr s) ks \<longleftrightarrow> JStr s \<in> set ks"
  by (auto simp: kmem_def list_ex_iff)

definition stage_label :: "nat \<Rightarrow> string" where
  "stage_label k = ''L'' @ nat_str k"

text \<open>The \<open>while\<close> loop that looks for a free \<open>L<k>\<close>; it ends because the taken ids are finitely many.\<close>

lemma int_digits_nonempty [simp]: "int_digits i \<noteq> []" "[] \<noteq> int_digits i"
  by (subst int_digits.simps, simp)+

lemma digit_char_eq: "0 \<le> i \<Longrightarrow> i < 10 \<Longrightarrow> 0 \<le> j \<Longrightarrow> j < 10 \<Longrightarrow> char_of (i + 48) = (char_of (j + 48) :: char) \<Longrightarrow> i = (j :: int)"
  by (simp add: char_of_eq_iff take_bit_eq_mod)

lemma int_digits_inj: "0 \<le> i \<Longrightarrow> 0 \<le> j \<Longrightarrow> int_digits i = int_digits j \<Longrightarrow> i = j"
proof (induction i arbitrary: j rule: int_digits.induct)
  case (1 i)
  note e = 1(4) [unfolded int_digits.simps [of i] int_digits.simps [of j]]
  show ?case
  proof (cases "i < 10")
    case True
    with e have "j < 10" by (auto split: if_splits)
    with e True 1(2,3) show ?thesis by (auto dest: digit_char_eq)
  next
    case False
    with e have j: "\<not> j < 10" by (auto split: if_splits)
    with e False have "int_digits (i div 10) = int_digits (j div 10)" "char_of (i mod 10 + 48) = (char_of (j mod 10 + 48) :: char)"
      by auto
    with 1(1) [OF False, of "j div 10"] False j have "i div 10 = j div 10" "i mod 10 = j mod 10"
      by (auto dest: digit_char_eq simp: pos_imp_zdiv_nonneg_iff)
    then show ?thesis by (metis div_mult_mod_eq)
  qed
qed

lemma stage_label_inj [simp]: "stage_label k = stage_label k' \<longleftrightarrow> k = k'"
  using int_digits_inj [of "int k" "int k'"] by (auto simp: stage_label_def nat_str_def)

lemma finite_taken [simp]: "finite {j. JStr (stage_label j) \<in> set taken}"
proof -
  have "{j. JStr (stage_label j) \<in> set taken} = (\<lambda>j. JStr (stage_label j)) -` set taken" by auto
  then show ?thesis by (simp add: finite_vimageI inj_def)
qed

function free_label :: "jval list \<Rightarrow> nat \<Rightarrow> nat" where
  "free_label taken k = (if kmem (JStr (stage_label k)) taken then free_label taken (Suc k) else k)"
  by pat_completeness auto
termination
proof (relation "measure (\<lambda>(taken, k). card {j. k \<le> j \<and> JStr (stage_label j) \<in> set taken})", goal_cases)
  case (2 taken k)
  then have "{j. Suc k \<le> j \<and> JStr (stage_label j) \<in> set taken} \<subset> {j. k \<le> j \<and> JStr (stage_label j) \<in> set taken}"
    by (auto simp: Suc_le_eq)
  then show ?case by (auto intro!: psubset_card_mono)
qed simp

declare free_label.simps [simp del]


definition slot_ids :: "(string \<times> jdict) list \<Rightarrow> string list \<Rightarrow> string list" where
  "slot_ids by_id layer =
     filter (\<lambda>i. case dget by_id i of Some n \<Rightarrow> jget n ''kind'' = JStr ''slot'' \<and> truthy (jget n ''slot'') | None \<Rightarrow> False) layer"

definition node_at :: "(string \<times> jdict) list \<Rightarrow> string \<Rightarrow> jdict" where
  "node_at by_id i = (case dget by_id i of Some n \<Rightarrow> n | None \<Rightarrow> [])"

text \<open>The first stage id among the nodes of the layer that no stage before has taken, or the empty text.\<close>

fun claim_of :: "jval list \<Rightarrow> jdict list \<Rightarrow> jval option" where
  "claim_of used [] = Some (JStr [])"
| "claim_of used (n # ns) =
     (let v = jget n ''stageId'' in
      if \<not> truthy v then claim_of used ns
      else if \<not> hashable v then None
      else if kmem v used then claim_of used ns
      else Some v)"

fun slot_configs :: "jdict list \<Rightarrow> jval list option" where
  "slot_configs [] = Some []"
| "slot_configs (n # ns) =
     (case jget n ''slot'' of
        JDict d \<Rightarrow> map_option ((#) (JDict (slot_to_stage d))) (slot_configs ns)
      | _ \<Rightarrow> None)"

definition stamp_nodes :: "jval \<Rightarrow> (string \<times> jdict) list \<Rightarrow> string list \<Rightarrow> (string \<times> jdict) list" where
  "stamp_nodes sid by_id ids =
     foldl (\<lambda>b i. if truthy (jget (node_at b i) ''stageId'') then b else dset i (dset ''stageId'' sid (node_at b i)) b) by_id ids"

record stage_walk =
  sw_by_id :: "(string \<times> jdict) list"
  sw_used :: "jval list"
  sw_out :: "jdict list"

definition derive_layer :: "bool \<Rightarrow> (jval \<times> jdict) list \<Rightarrow> string list \<Rightarrow> stage_walk \<Rightarrow> stage_walk option" where
  "derive_layer stamp prev layer st =
     (let ids = slot_ids (sw_by_id st) layer;
          slot_nodes = map (node_at (sw_by_id st)) ids
      in if ids = [] then Some st
         else
           (case (claim_of (sw_used st) slot_nodes, slot_configs slot_nodes) of
              (Some claim, Some slots) \<Rightarrow>
                (let sid = (if truthy claim then claim
                            else JStr (stage_label (free_label (sw_used st @ map fst prev) (length (sw_out st) + 1))));
                     base = (case kget prev sid of
                               Some s \<Rightarrow> if s \<noteq> [] then s else blank_stage sid (int (length (sw_out st)))
                             | None \<Rightarrow> blank_stage sid (int (length (sw_out st))))
                 in Some
                   \<lparr>sw_by_id = (if stamp then stamp_nodes sid (sw_by_id st) ids else sw_by_id st),
                    sw_used = sw_used st @ [sid],
                    sw_out = sw_out st @ [dset ''slots'' (JList slots) (dset ''id'' sid base)]\<rparr>)
            | _ \<Rightarrow> None))"

fun derive_layers :: "bool \<Rightarrow> (jval \<times> jdict) list \<Rightarrow> stage_walk \<Rightarrow> string list list \<Rightarrow> stage_walk option" where
  "derive_layers stamp prev st [] = Some st"
| "derive_layers stamp prev st (layer # layers) =
     (case derive_layer stamp prev layer st of None \<Rightarrow> None | Some st' \<Rightarrow> derive_layers stamp prev st' layers)"

fun nodes_by_id :: "(string \<times> jdict) list \<Rightarrow> jdict list \<Rightarrow> (string \<times> jdict) list option" where
  "nodes_by_id acc [] = Some acc"
| "nodes_by_id acc (n # ns) = (case dget n ''id'' of Some (JStr i) \<Rightarrow> nodes_by_id (dset i n acc) ns | _ \<Rightarrow> None)"

text \<open>The node objects after the stamps: \<open>by_id\<close> shares the last object of each id with the list.\<close>

fun restamped :: "(string \<times> jdict) list \<Rightarrow> jdict list \<Rightarrow> jdict list" where
  "restamped by_id [] = []"
| "restamped by_id (n # ns) =
     (case dget n ''id'' of
        Some (JStr i) \<Rightarrow> (if i \<in> set (id_texts ns) then n else node_at by_id i) # restamped by_id ns
      | _ \<Rightarrow> n # restamped by_id ns)"

definition derive_stages_from_graph :: "pgraph \<Rightarrow> jdict list \<Rightarrow> bool \<Rightarrow> (jdict list \<times> pgraph) option" where
  "derive_stages_from_graph g previous stamp =
     (case (nodes_by_id [] (g_nodes g), layer_graph g) of
        (Some by_id, Some (layers, triggers)) \<Rightarrow>
          (if \<not> list_all (\<lambda>s. hashable (jget s ''id'')) previous then None
           else
             map_option (\<lambda>st. (sw_out st, g\<lparr>g_nodes := restamped (sw_by_id st) (g_nodes g)\<rparr>))
               (derive_layers stamp (map (\<lambda>s. (jget s ''id'', s)) previous)
                  \<lparr>sw_by_id = by_id, sw_used = [], sw_out = []\<rparr> layers))
      | _ \<Rightarrow> None)"


section \<open>Linear graphs\<close>

fun wanted :: "string list \<Rightarrow> string list list \<Rightarrow> (string \<times> string) list" where
  "wanted prev [] = []"
| "wanted prev (layer # layers) = List.product prev layer @ wanted layer layers"

definition is_linear_graph :: "pgraph \<Rightarrow> bool option" where
  "is_linear_graph g =
     (if list_ex (\<lambda>n. jget n ''kind'' = JStr ''gate'') (g_nodes g) then Some False
      else if list_ex (\<lambda>e. \<not> is_main e) (g_edges g) then Some False
      else
        (case layer_graph g of
           None \<Rightarrow> None
         | Some (layers, triggers) \<Rightarrow>
             (if \<not> list_all (\<lambda>e. hashable (jget e ''from'') \<and> hashable (jget e ''to'')) (g_edges g) then None
              else
                (let have = map (\<lambda>e. (jget e ''from'', jget e ''to'')) (g_edges g)
                 in Some (distinct have \<and>
                      set have = (\<lambda>(s, t). (JStr s, JStr t)) ` set (wanted triggers layers))))))"



section \<open>The ids of the stages\<close>

lemma free_label_free: "JStr (stage_label (free_label taken k)) \<notin> set taken"
  by (induction taken k rule: free_label.induct) (subst free_label.simps, auto)

lemma claim_fresh: "claim_of used ns = Some c \<Longrightarrow> truthy c \<Longrightarrow> \<not> kmem c used"
  by (induction used ns rule: claim_of.induct) (auto simp: Let_def split: if_splits)

lemma jget_dset [simp]: "jget (dset k v d) k' = (if k' = k then v else jget d k')"
  by (simp add: jget_def)

definition ids_differ :: "jval list \<Rightarrow> bool" where
  "ids_differ ids \<longleftrightarrow> sorted_wrt (\<lambda>a b. \<not> key_eq a b) ids"

definition walk_ok :: "stage_walk \<Rightarrow> bool" where
  "walk_ok st \<longleftrightarrow> map (\<lambda>s. jget s ''id'') (sw_out st) = sw_used st \<and> ids_differ (sw_used st) \<and>
     (\<forall>s \<in> set (sw_out st). truthy (jget s ''slots''))"

lemma derive_layer_ok:
  assumes "walk_ok st" "derive_layer stamp prev layer st = Some st'"
  shows "walk_ok st'"
proof (cases "slot_ids (sw_by_id st) layer = []")
  case True
  with assms show ?thesis by (simp add: derive_layer_def)
next
  case False
  let ?ns = "map (node_at (sw_by_id st)) (slot_ids (sw_by_id st) layer)"
  from False assms(2) obtain claim slots where c: "claim_of (sw_used st) ?ns = Some claim" "slot_configs ?ns = Some slots"
    by (auto simp: derive_layer_def Let_def split: option.splits)
  have "slot_configs ns = Some slots \<Longrightarrow> length slots = length ns" for ns slots
    by (induction ns arbitrary: slots) (auto split: jval.splits)
  with c(2) False have slots: "slots \<noteq> []" by fastforce
  define sid where "sid = (if truthy claim then claim
     else JStr (stage_label (free_label (sw_used st @ map fst prev) (length (sw_out st) + 1))))"
  have "\<not> kmem sid (sw_used st)"
    using claim_fresh [OF c(1)] free_label_free [of "sw_used st @ map fst prev" "length (sw_out st) + 1"]
    by (auto simp: sid_def)
  moreover obtain base where "sw_used st' = sw_used st @ [sid]"
    "sw_out st' = sw_out st @ [dset ''slots'' (JList slots) (dset ''id'' sid base)]"
    using assms(2) False c by (auto simp: derive_layer_def sid_def [symmetric] Let_def)
  ultimately show ?thesis
    using assms(1) slots by (auto simp: walk_ok_def ids_differ_def sorted_wrt_append kmem_def list_ex_iff)
qed

lemma derive_layers_ok: "walk_ok st \<Longrightarrow> derive_layers stamp prev st layers = Some st' \<Longrightarrow> walk_ok st'"
  by (induction layers arbitrary: st) (auto split: option.splits dest: derive_layer_ok)

text \<open>the stages a graph yields have pairwise different ids and none is without slots.\<close>

theorem derived_stages_distinct:
  assumes "derive_stages_from_graph g previous stamp = Some (stages, g')"
  shows "ids_differ (map (\<lambda>s. jget s ''id'') stages) \<and> (\<forall>s \<in> set stages. truthy (jget s ''slots''))"
proof -
  from assms obtain by_id layers st where
    "derive_layers stamp (map (\<lambda>s. (jget s ''id'', s)) previous) \<lparr>sw_by_id = by_id, sw_used = [], sw_out = []\<rparr> layers = Some st"
    "stages = sw_out st"
    by (auto simp: derive_stages_from_graph_def split: option.splits if_splits prod.splits)
  with derive_layers_ok [OF _ this(1)] show ?thesis by (simp add: walk_ok_def ids_differ_def)
qed


section \<open>Stages to graph and back\<close>

subsection \<open>A chain of layers\<close>

fun wires :: "string list \<Rightarrow> string list list \<Rightarrow> jdict list" where
  "wires prev [] = []"
| "wires prev (l # ls) = wire prev l @ wires l ls"

definition layer_pos :: "'a list list \<Rightarrow> 'a \<Rightarrow> nat" where
  "layer_pos ls n = length (takeWhile (\<lambda>l. n \<notin> set l) ls)"

lemma pos_Cons: "layer_pos (l # ls) n = (if n \<in> set l then 0 else Suc (layer_pos ls n))"
  by (simp add: layer_pos_def)

lemma pos_nth: "distinct (concat ls) \<Longrightarrow> i < length ls \<Longrightarrow> n \<in> set (ls ! i) \<Longrightarrow> layer_pos ls n = i"
proof (induction ls arbitrary: i)
  case (Cons l ls)
  then show ?case by (cases i) (auto simp: pos_Cons dest: nth_mem)
qed (simp add: layer_pos_def)

lemma filter_pos: "distinct (concat ls) \<Longrightarrow> i < length ls \<Longrightarrow> filter (\<lambda>n. layer_pos ls n = i) (concat ls) = ls ! i"
proof (induction ls arbitrary: i)
  case (Cons l ls)
  have "filter (\<lambda>n. layer_pos (l # ls) n = i) (concat ls) = filter (\<lambda>n. Suc (layer_pos ls n) = i) (concat ls)"
    using Cons.prems(1) by (intro filter_cong) (auto simp: pos_Cons)
  moreover have "filter (\<lambda>n. layer_pos (l # ls) n = i) l = (if i = 0 then l else [])"
    by (auto simp: pos_Cons intro: filter_True)
  ultimately show ?case using Cons by (cases i) auto
qed simp

lemma main_wire: "main_rel (wire prev l) = set prev \<times> set l"
  by (force simp: main_rel_def wire_def ends_of.simps jget_def edge_kind_def or_main_def)

lemma main_rel_append: "main_rel (a @ b) = main_rel a \<union> main_rel b"
  by (auto simp: main_rel_def)

lemma main_wires:
  "main_rel (wires prev ls) = {(s, t). \<exists>i < length ls. s \<in> set ((prev # ls) ! i) \<and> t \<in> set (ls ! i)}"
proof (induction ls arbitrary: prev)
  case (Cons l ls)
  show ?case by (auto simp: main_rel_append main_wire Cons.IH Ex_less_Suc2)
qed (simp add: main_rel_def)

lemma wires_ends:
  "d \<in> set (wires prev ls) \<Longrightarrow> \<exists>s t. ends_of d = Some (s, t) \<and> s \<in> set prev \<union> set (concat ls) \<and> t \<in> set (concat ls) \<and>
    is_main d \<and> jget d ''from'' = JStr s \<and> jget d ''to'' = JStr t"
  by (induction prev ls rule: wires.induct)
    (auto simp: wire_def ends_of.simps jget_def is_main_def edge_kind_def or_main_def)


lemma acyclic_rank: "(\<And>s t. (s, t) \<in> r \<Longrightarrow> f s < (f t :: int)) \<Longrightarrow> acyclic r"
proof -
  assume up: "\<And>s t. (s, t) \<in> r \<Longrightarrow> f s < f t"
  have "(s, t) \<in> r\<^sup>+ \<Longrightarrow> f s < f t" for s t
    by (induction rule: trancl_induct) (auto dest: up)
  then show ?thesis by (fastforce simp: acyclic_def)
qed

lemma height_le: "(\<And>x. x \<in> set xs \<Longrightarrow> f x < int n) \<Longrightarrow> height f xs \<le> n"
  by (induction xs) (auto simp: Suc_le_eq nat_less_iff)

definition chain_pos :: "string \<Rightarrow> string list list \<Rightarrow> string \<Rightarrow> int" where
  "chain_pos t ls n = (if n = t then - 1 else int (layer_pos ls n))"

lemma in_concat: "n \<in> set (concat ls) \<longleftrightarrow> (\<exists>i < length ls. n \<in> set (ls ! i))"
  by (induction ls) (auto simp: Ex_less_Suc2)

lemma chain_pos_nth:
  assumes "distinct (t # concat ls)" "i < length ls" "n \<in> set (ls ! i)"
  shows "chain_pos t ls n = int i"
  using assms pos_nth [of ls i n] by (auto simp: chain_pos_def dest: nth_mem)

lemma chain_edge:
  assumes "distinct (t # concat ls)"
  shows "(s, n) \<in> main_rel (wires [t] ls) \<longleftrightarrow>
    (\<exists>i < length ls. n \<in> set (ls ! i) \<and> s \<in> set (t # concat ls) \<and> chain_pos t ls s = int i - 1)"
proof -
  have "s \<in> set (([t] # ls) ! i) \<longleftrightarrow> s \<in> set (t # concat ls) \<and> chain_pos t ls s = int i - 1" if i: "i < length ls" for i
  proof (cases i)
    case 0
    then show ?thesis by (auto simp: chain_pos_def)
  next
    case (Suc j)
    have "s \<in> set (ls ! j)" if s: "s \<in> set (concat ls)" "chain_pos t ls s = int j"
    proof -
      from s(1) obtain k where "k < length ls" "s \<in> set (ls ! k)" unfolding in_concat by blast
      with chain_pos_nth [OF assms this] s(2) show ?thesis by simp
    qed
    moreover have "chain_pos t ls t = - 1" by (simp add: chain_pos_def)
    ultimately show ?thesis using Suc i chain_pos_nth [OF assms, of j s] by (auto dest: nth_mem)
  qed
  then show ?thesis unfolding main_wires by blast
qed

lemma layer_chain:
  assumes ids: "string_ids (g_nodes g)" "id_texts (g_nodes g) = t # concat ls"
    and trig: "trigger_ids (g_nodes g) = {t}" and edges: "g_edges g = wires [t] ls"
    and ne: "[] \<notin> set ls" and dist: "distinct (t # concat ls)"
  shows "layer_graph g = Some (ls, [t])"
proof -
  let ?f = "chain_pos t ls"
  have mem: "n \<in> set (concat ls) \<longleftrightarrow> (\<exists>i < length ls. n \<in> set (ls ! i))" for n
    by (rule in_concat)
  note nth = chain_pos_nth [OF dist] and edge = chain_edge [OF dist]
  have "acyclic (main_rel (g_edges g))" unfolding edges
    by (rule acyclic_rank [of _ ?f]) (auto simp: edge nth)
  moreover have "\<exists>s n. ends_of d = Some (s, n) \<and> s \<in> set (id_texts (g_nodes g)) \<and> n \<in> set (id_texts (g_nodes g))"
    if "d \<in> set (g_edges g)" for d
    using wires_ends [of d "[t]" ls] that unfolding edges ids(2) by fastforce
  ultimately have lay: "layerable g" using ids dist by (simp add: layerable_def)
  have "depth_fun g ?f"
    unfolding depth_fun_def
  proof
    fix n assume "n \<in> set (id_texts (g_nodes g))"
    then have n: "n = t \<or> n \<noteq> t \<and> (\<exists>i < length ls. n \<in> set (ls ! i))" using ids(2) mem dist by auto
    show "if n \<in> trigger_ids (g_nodes g) then ?f n = - 1
      else 0 \<le> ?f n \<and> (\<forall>p. (p, n) \<in> main_rel (g_edges g) \<longrightarrow> ?f p + 1 \<le> ?f n) \<and>
        (?f n = 0 \<or> (\<exists>p. (p, n) \<in> main_rel (g_edges g) \<and> ?f p = ?f n - 1))"
    proof (cases "n = t")
      case True
      then show ?thesis by (simp add: trig chain_pos_def)
    next
      case False
      with n obtain i where i: "i < length ls" "n \<in> set (ls ! i)" by blast
      have "\<exists>p. (p, n) \<in> main_rel (g_edges g) \<and> ?f p = ?f n - 1" if "i \<noteq> 0"
      proof -
        from that i have "ls ! (i - 1) \<in> set ls" by simp
        with ne obtain p where p: "p \<in> set (ls ! (i - 1))" by (metis list.set_intros(1) neq_Nil_conv)
        from nth [OF _ p] that i have fp: "?f p = int i - 1" by simp
        moreover have "p \<in> set (t # concat ls)" using p i that mem [of p] by force
        ultimately have "(p, n) \<in> main_rel (g_edges g)" using i unfolding edges edge by blast
        with fp nth [OF i] show ?thesis by (intro exI [of _ p]) simp
      qed
      moreover have "?f p = ?f n - 1" if "(p, n) \<in> main_rel (g_edges g)" for p
        using that unfolding edges edge by (auto simp: nth)
      ultimately show ?thesis using False nth [OF i] by (auto simp: trig)
    qed
  qed
  with layer_graph_eq [OF lay] obtain f where f: "\<forall>n \<in> set (t # concat ls). ?f n = f n"
    "layer_graph g = Some (grouped f (t # concat ls), filter (\<lambda>n. f n < 0) (t # concat ls))"
    unfolding ids(2) by metis
  have layer_pos: "f n = int (layer_pos ls n)" if n: "n \<in> set (concat ls)" for n
  proof -
    have "n \<noteq> t" using n dist by auto
    moreover have "?f n = f n" using f(1) n by auto
    ultimately show ?thesis by (simp add: chain_pos_def)
  qed
  have fn: "f n = int i" if "i < length ls" "n \<in> set (ls ! i)" for n i
    using that layer_pos [of n] pos_nth [of ls i n] dist unfolding mem by auto
  have ft: "f t = - 1" using f(1) by (simp add: chain_pos_def)
  have flt: "filter (\<lambda>n. f n = int i) (t # concat ls) = ls ! i" if "i < length ls" for i
  proof -
    have "filter (\<lambda>n. f n = int i) (concat ls) = filter (\<lambda>n. layer_pos ls n = i) (concat ls)"
      using layer_pos by (intro filter_cong) auto
    with filter_pos [of ls i] that dist ft show ?thesis by simp
  qed
  have "height f (t # concat ls) = length ls"
  proof (rule antisym)
    show "height f (t # concat ls) \<le> length ls"
    proof (rule height_le)
      fix n assume "n \<in> set (t # concat ls)"
      then have "n = t \<or> n \<in> set (concat ls)" by simp
      then show "f n < int (length ls)" unfolding mem using fn ft by auto
    qed
    show "length ls \<le> height f (t # concat ls)"
    proof (cases "ls = []")
      case False
      then have "last ls \<noteq> []" using ne by (metis last_in_set)
      then obtain n where n: "n \<in> set (last ls)" by (cases "last ls") auto
      with False have l: "n \<in> set (ls ! (length ls - 1))" by (simp add: last_conv_nth)
      with fn [OF _ l] False mem [of n] have "f n = int (length ls - 1)" "n \<in> set (t # concat ls)" by auto
      with height_less [of n "t # concat ls" f] False show ?thesis by auto
    qed simp
  qed
  then have "grouped f (t # concat ls) = ls"
    using flt by (intro nth_equalityI) (simp_all add: nth_grouped del: filter.simps)
  moreover have "filter (\<lambda>n. f n < 0) (t # concat ls) = [t]"
    using layer_pos ft by (simp add: filter_empty_conv)
  ultimately show ?thesis using f(2) by simp
qed


subsection \<open>The ids of the nodes\<close>

lemma int_digits_minus: "0 \<le> i \<Longrightarrow> CHR ''-'' \<notin> set (int_digits i)"
proof (induction i rule: int_digits.induct)
  case (1 i)
  have d: "0 \<le> k \<Longrightarrow> k < 10 \<Longrightarrow> CHR ''-'' \<noteq> char_of (k + 48 :: int)" for k
  proof
    assume k: "0 \<le> k" "k < 10" "CHR ''-'' = char_of (k + 48)"
    then have "of_char (CHR ''-'') = (of_char (char_of (k + 48) :: char) :: int)" by simp
    with k(1,2) show False by (simp only: of_char_of) simp
  qed
  show ?case
  proof (cases "i < 10")
    case True
    with 1(2) show ?thesis by (subst int_digits.simps) (simp add: d)
  next
    case False
    then have "0 \<le> i div 10" "i mod 10 < 10" "0 \<le> i mod 10" by (simp_all add: pos_imp_zdiv_nonneg_iff)
    with 1(1) [OF False] False d [of "i mod 10"] show ?thesis by (subst int_digits.simps) auto
  qed
qed

lemma last_sep_inj: "c \<notin> set d \<Longrightarrow> c \<notin> set d' \<Longrightarrow> a @ c # d = a' @ c # d' \<longleftrightarrow> a = a' \<and> d = d'"
  by (auto simp: append_eq_append_conv2 Cons_eq_append_conv append_eq_Cons_conv)

lemma slot_node_id_eq [simp]:
  "0 \<le> i \<Longrightarrow> 0 \<le> j \<Longrightarrow> slot_node_id a i = slot_node_id b j \<longleftrightarrow> a = b \<and> i = j"
  using last_sep_inj [OF int_digits_minus int_digits_minus, of i j a b] int_digits_inj [of i j]
  by (auto simp: slot_node_id_def int_str_def)

lemma slot_node_not_trigger [simp]: "slot_node_id a i \<noteq> TRIGGER_NODE_ID"
  by (simp add: slot_node_id_def TRIGGER_NODE_ID_def)


subsection \<open>Stages in the stored form\<close>

text \<open>A stage with a text id, the slots as \<open>_slot_to_stage\<close> writes them.\<close>

definition stage_stored :: "jdict \<Rightarrow> bool" where
  "stage_stored stage \<longleftrightarrow> (\<exists>sid slots. dget stage ''id'' = Some (JStr sid) \<and> sid \<noteq> [] \<and>
     dget stage ''slots'' = Some (JList (map (JDict \<circ> slot_to_stage) slots)))"

definition sid_of :: "jdict \<Rightarrow> string" where
  "sid_of stage = (case jget stage ''id'' of JStr s \<Rightarrow> s | _ \<Rightarrow> [])"

definition slots_of :: "jdict \<Rightarrow> jdict list" where
  "slots_of stage = (case stage_slots stage of Some ds \<Rightarrow> ds | None \<Rightarrow> [])"

definition layer_ids :: "jdict \<Rightarrow> string list" where
  "layer_ids stage = map (\<lambda>i. slot_node_id (sid_of stage) (int i)) [0..<length (slots_of stage)]"

lemma slot_roundtrip [simp]: "slot_to_stage (slot_to_graph (slot_to_stage s)) = slot_to_stage s"
proof (cases "\<exists>p. jget s ''params'' = JDict p")
  case True
  then obtain p where p: "jget s ''params'' = JDict p" by blast
  show ?thesis
    unfolding slot_to_stage_def slot_to_graph_def with_params_def p by (simp add: dget_or_def jget_def)
next
  case False
  then have p: "with_params s out = out" for out by (auto simp: with_params_def split: jval.splits)
  show ?thesis
    unfolding slot_to_stage_def slot_to_graph_def p by (simp add: with_params_def dget_or_def jget_def)
qed

lemma as_dicts_map [simp]: "as_dicts (map (JDict \<circ> f) xs) = Some (map f xs)"
  by (induction xs) auto

lemma stored_slots:
  assumes "stage_stored stage"
  shows "stage_slots stage = Some (slots_of stage)" "\<forall>s \<in> set (slots_of stage). slot_to_stage (slot_to_graph s) = s"
    "dget stage ''slots'' = Some (JList (map JDict (slots_of stage)))" "dget stage ''id'' = Some (JStr (sid_of stage))"
    "sid_of stage \<noteq> []"
  using assms by (auto simp: stage_stored_def stage_slots_def slots_of_def sid_of_def jget_def Let_def)

definition id_of :: "jdict \<Rightarrow> string" where
  "id_of n = (case jget n ''id'' of JStr s \<Rightarrow> s | _ \<Rightarrow> [])"

lemma id_texts_id_of: "string_ids ns \<Longrightarrow> id_texts ns = map id_of ns"
  by (induction ns) (auto simp: string_ids_def id_of_def jget_def)

lemma stage_nodes_ids:
  "string_ids (stage_nodes v s layer i slots)"
  "id_texts (stage_nodes v s layer i slots) = map (\<lambda>k. slot_node_id s (i + int k)) [0..<length slots]"
proof -
  show "string_ids (stage_nodes v s layer i slots)"
    by (induction slots arbitrary: i) (auto simp: string_ids_def)
  show "id_texts (stage_nodes v s layer i slots) = map (\<lambda>k. slot_node_id s (i + int k)) [0..<length slots]"
  proof (induction slots arbitrary: i)
    case (Cons a slots)
    have "[0..<length (a # slots)] = 0 # map Suc [0..<length slots]" by (simp add: upt_conv_Cons map_Suc_upt del: upt_Suc)
    with Cons show ?case by (simp add: jget_def o_def add.assoc)
  qed simp
qed

fun derived_nodes :: "int \<Rightarrow> jdict list \<Rightarrow> jdict list" where
  "derived_nodes layer [] = []"
| "derived_nodes layer (stage # stages) =
     stage_nodes (JStr (sid_of stage)) (sid_of stage) layer 0 (slots_of stage) @ derived_nodes (layer + 1) stages"

abbreviation layers_of :: "jdict list \<Rightarrow> string list list" where
  "layers_of stages \<equiv> filter (\<lambda>l. l \<noteq> []) (map layer_ids stages)"

lemma string_ids_append [simp]: "string_ids (a @ b) \<longleftrightarrow> string_ids a \<and> string_ids b"
  by (auto simp: string_ids_def)

lemma id_texts_append [simp]: "id_texts (a @ b) = id_texts a @ id_texts b"
  by (induction a) (auto split: jval.splits)

lemma derived_nodes_ids:
  "string_ids (derived_nodes layer stages)" "id_texts (derived_nodes layer stages) = concat (layers_of stages)"
proof -
  show "string_ids (derived_nodes layer stages)"
    by (induction layer stages rule: derived_nodes.induct) (auto simp: stage_nodes_ids, simp add: string_ids_def)
  show "id_texts (derived_nodes layer stages) = concat (layers_of stages)"
    by (induction layer stages rule: derived_nodes.induct) (auto simp: stage_nodes_ids layer_ids_def)
qed

lemma derive_graph_loop_eq:
  assumes "\<forall>s \<in> set stages. stage_stored s"
  shows "derive_graph_loop repr layer prev stages = Some (derived_nodes layer stages, wires prev (layers_of stages))"
  using assms
proof (induction stages arbitrary: layer prev)
  case (Cons stage stages)
  then have st: "stage_stored stage" by simp
  note s = stored_slots [OF st]
  have ids: "id_texts (stage_nodes (JStr (sid_of stage)) (sid_of stage) layer 0 (slots_of stage)) = layer_ids stage"
    by (simp add: stage_nodes_ids layer_ids_def)
  show ?case
    using Cons by (cases "layer_ids stage = []") (simp_all add: s(1,4) dget_or_def Let_def ids wire_def)
qed simp

lemma layers_distinct:
  assumes "distinct (map sid_of stages)"
  shows "distinct (TRIGGER_NODE_ID # concat (layers_of stages))"
proof -
  have "distinct (concat (map layer_ids stages))"
    using assms by (induction stages) (auto simp: layer_ids_def distinct_map inj_on_def image_iff)
  moreover have "concat (layers_of stages) = concat (map layer_ids stages)" by (induction stages) auto
  moreover have "TRIGGER_NODE_ID \<notin> set (concat (map layer_ids stages))"
    by (auto simp: layer_ids_def dest: sym)
  ultimately show ?thesis by simp
qed


subsection \<open>The walk back over the layers\<close>

lemma nodes_by_id_eq:
  "string_ids ns \<Longrightarrow> distinct (keys acc @ map id_of ns) \<Longrightarrow> nodes_by_id acc ns = Some (acc @ map (\<lambda>n. (id_of n, n)) ns)"
proof (induction ns arbitrary: acc)
  case (Cons n ns)
  then obtain s where s: "dget n ''id'' = Some (JStr s)" by (auto simp: string_ids_def)
  have "s = id_of n" by (simp add: id_of_def jget_def s)
  with Cons s dset_new [of s acc n] show ?case by (simp add: string_ids_def)
qed simp

lemma restamped_same:
  assumes "string_ids ns" "\<And>n. n \<in> set ns \<Longrightarrow> node_at by_id (id_of n) = n"
  shows "restamped by_id ns = ns"
  using assms
proof (induction ns)
  case (Cons a ns)
  then obtain s where s: "dget a ''id'' = Some (JStr s)" by (auto simp: string_ids_def)
  have "id_of a = s" by (simp add: id_of_def jget_def s)
  with Cons.prems(2) [of a] Cons s show ?case by (simp add: string_ids_def)
qed simp

lemma dget_table: "distinct (map id_of ns) \<Longrightarrow> n \<in> set ns \<Longrightarrow> dget (map (\<lambda>n. (id_of n, n)) ns) (id_of n) = Some n"
  by (rule map_of_is_SomeI) (auto simp: o_def)

lemma dset_same: "dget d k = Some v \<Longrightarrow> dset k v d = d"
  by (induction d) (auto split: if_splits)

lemma kget_stage:
  assumes "s \<in> set ss" "distinct (map sid_of ss)" "\<forall>s \<in> set ss. jget s ''id'' = JStr (sid_of s)"
  shows "kget (map (\<lambda>s. (jget s ''id'', s)) ss) (JStr (sid_of s)) = Some s"
  using assms
proof (induction ss)
  case (Cons a ss)
  have "x \<notin> sid_of ` set ss \<Longrightarrow> \<forall>s \<in> set ss. jget s ''id'' = JStr (sid_of s) \<Longrightarrow>
      kget (map (\<lambda>s. (jget s ''id'', s)) ss) (JStr x) = None" for x
    by (induction ss) auto
  with Cons show ?case by auto
qed simp

lemma slot_to_graph_nonempty [simp]: "slot_to_graph s \<noteq> []"
  by (auto simp: slot_to_graph_def with_params_def split: jval.splits)

lemma stage_nodes_slots:
  "n \<in> set (stage_nodes v s layer i slots) \<Longrightarrow> jget n ''kind'' = JStr ''slot'' \<and> truthy (jget n ''slot'') \<and> jget n ''stageId'' = v"
  by (induction v s layer i slots rule: stage_nodes.induct) (auto simp: jget_def)

lemma slot_configs_stage_nodes:
  "\<forall>s \<in> set slots. slot_to_stage (slot_to_graph s) = s \<Longrightarrow>
   slot_configs (stage_nodes v s layer i slots) = Some (map JDict slots)"
  by (induction v s layer i slots rule: stage_nodes.induct) (auto simp: jget_def)

lemma derive_stage_layer:
  assumes st: "stage_stored stage" and ne: "layer_ids stage \<noteq> []"
    and nodes: "\<And>n. n \<in> set (stage_nodes (JStr (sid_of stage)) (sid_of stage) layer 0 (slots_of stage)) \<Longrightarrow> dget by_id (id_of n) = Some n"
    and prev: "kget prev (JStr (sid_of stage)) = Some stage" and new: "JStr (sid_of stage) \<notin> set used"
  shows "derive_layer False prev (layer_ids stage) \<lparr>sw_by_id = by_id, sw_used = used, sw_out = out\<rparr> =
    Some \<lparr>sw_by_id = by_id, sw_used = used @ [JStr (sid_of stage)], sw_out = out @ [stage]\<rparr>"
proof -
  let ?ns = "stage_nodes (JStr (sid_of stage)) (sid_of stage) layer 0 (slots_of stage)"
  have ids: "layer_ids stage = map id_of ?ns"
    using stage_nodes_ids [of "JStr (sid_of stage)" "sid_of stage" layer 0 "slots_of stage"]
    by (simp add: id_texts_id_of layer_ids_def)
  have "slot_ids by_id (layer_ids stage) = layer_ids stage"
    unfolding slot_ids_def ids by (rule filter_True) (auto simp: nodes dest: stage_nodes_slots)
  moreover have "map (node_at by_id) (layer_ids stage) = ?ns"
    unfolding ids map_map by (rule map_idI) (simp add: node_at_def nodes)
  moreover have "claim_of used ?ns = Some (JStr (sid_of stage))"
    using ne stored_slots(5) [OF st] new by (cases "slots_of stage") (auto simp: layer_ids_def jget_def)
  moreover have "slot_configs ?ns = Some (map JDict (slots_of stage))"
    using stored_slots(2) [OF st] by (rule slot_configs_stage_nodes)
  moreover have "stage \<noteq> []" using stored_slots(4) [OF st] by auto
  ultimately show ?thesis
    using ne stored_slots(3-5) [OF st] prev by (simp add: derive_layer_def Let_def dset_same)
qed

lemma derive_layers_stages:
  assumes "\<forall>s \<in> set stages. stage_stored s" "distinct (map sid_of stages)"
    and "\<And>n. n \<in> set (derived_nodes layer stages) \<Longrightarrow> dget by_id (id_of n) = Some n"
    and "\<And>s. s \<in> set stages \<Longrightarrow> kget prev (JStr (sid_of s)) = Some s"
    and "\<And>s. s \<in> set stages \<Longrightarrow> JStr (sid_of s) \<notin> set used"
  shows "\<exists>used'. derive_layers False prev \<lparr>sw_by_id = by_id, sw_used = used, sw_out = out\<rparr> (layers_of stages) =
    Some \<lparr>sw_by_id = by_id, sw_used = used', sw_out = out @ filter (\<lambda>s. layer_ids s \<noteq> []) stages\<rparr>"
  using assms
proof (induction stages arbitrary: layer used out)
  case (Cons stage stages)
  show ?case
  proof (cases "layer_ids stage = []")
    case True
    then show ?thesis using Cons.IH [of "layer + 1" used out] Cons.prems by simp
  next
    case False
    have other: "sid_of s \<noteq> sid_of stage" if "s \<in> set stages" for s using Cons.prems(2) that by (auto simp: image_iff)
    have "derive_layer False prev (layer_ids stage) \<lparr>sw_by_id = by_id, sw_used = used, sw_out = out\<rparr> =
      Some \<lparr>sw_by_id = by_id, sw_used = used @ [JStr (sid_of stage)], sw_out = out @ [stage]\<rparr>"
      using Cons.prems False by (intro derive_stage_layer [where layer = layer]) auto
    moreover have "\<exists>used'. derive_layers False prev \<lparr>sw_by_id = by_id, sw_used = used @ [JStr (sid_of stage)], sw_out = out @ [stage]\<rparr>
        (layers_of stages) = Some \<lparr>sw_by_id = by_id, sw_used = used', sw_out = (out @ [stage]) @ filter (\<lambda>s. layer_ids s \<noteq> []) stages\<rparr>"
      using Cons.prems by (intro Cons.IH [of "layer + 1"]) (auto dest: other)
    ultimately show ?thesis using False by simp
  qed
qed simp


subsection \<open>The round trip\<close>

definition pair_text :: "string \<times> string \<Rightarrow> jval \<times> jval" where
  "pair_text p = (JStr (fst p), JStr (snd p))"

lemma wires_pairs: "map (\<lambda>e. (jget e ''from'', jget e ''to'')) (wires prev ls) = map pair_text (wanted prev ls)"
proof -
  have "map (\<lambda>e. (jget e ''from'', jget e ''to'')) (wire prev l) = map pair_text (List.product prev l)" for prev l
    by (induction prev) (simp_all add: wire_def jget_def pair_text_def o_def)
  then show ?thesis by (induction prev ls rule: wires.induct) simp_all
qed

lemma wanted_snd: "(s, t) \<in> set (wanted prev ls) \<Longrightarrow> t \<in> set (concat ls)"
  by (induction prev ls rule: wanted.induct) auto

lemma distinct_wanted: "distinct prev \<Longrightarrow> distinct (concat ls) \<Longrightarrow> distinct (wanted prev ls)"
proof (induction prev ls rule: wanted.induct)
  case (2 prev l ls)
  have "set (List.product prev l) \<inter> set (wanted l ls) = {}" using 2(3) wanted_snd [of _ _ l ls] by (force simp: disjoint_iff)
  with 2 show ?case by (auto simp: distinct_product)
qed simp

lemma layers_of_slots: "stage_stored s \<Longrightarrow> layer_ids s \<noteq> [] \<longleftrightarrow> truthy (jget s ''slots'')"
  using stored_slots(3) [of s] by (auto simp: layer_ids_def jget_def)



definition two_stages :: "jdict list" where
  "two_stages =
     [[(''id'', JStr ''a''), (''title'', JStr ''A''), (''slots'', JList [JDict (slot_to_stage [(''label'', JStr ''x'')])])],
      [(''id'', JStr ''b''), (''slots'', JList [])]]"


lemma derived_stages_distinct_witness:
  "\<exists>stages g'. derive_stages_from_graph
     \<lparr>g_version = JInt 1, g_nodes = [[(''id'', JStr ''n''), (''kind'', JStr ''slot''), (''slot'', JDict [(''label'', JStr ''x'')])]], g_edges = []\<rparr>
     [] True = Some (stages, g') \<and> map (\<lambda>s. jget s ''id'') stages = [JStr ''L1''] \<and> ids_differ (map (\<lambda>s. jget s ''id'') stages)"
proof -
  let ?g = "\<lparr>g_version = JInt 1, g_nodes = [[(''id'', JStr ''n''), (''kind'', JStr ''slot''), (''slot'', JDict [(''label'', JStr ''x'')])]],
    g_edges = []\<rparr>"
  have "map_option (\<lambda>(stages, g'). map (\<lambda>s. jget s ''id'') stages) (derive_stages_from_graph ?g [] True) = Some [JStr ''L1'']"
    by code_simp
  then obtain stages g' where d: "derive_stages_from_graph ?g [] True = Some (stages, g')"
    "map (\<lambda>s. jget s ''id'') stages = [JStr ''L1'']" by auto
  have "ids_differ (map (\<lambda>s. jget s ''id'') stages)" using derived_stages_distinct [OF d(1)] by (rule conjunct1)
  with d show ?thesis by (intro exI conjI)
qed

end
