(* ===== verification/Pipeline_Ops.thy ===== *)
theory Pipeline_Ops
  imports Pipeline_Stages
begin

text \<open>
  \<open>backend/agent_team_backend/pipeline_graph.py\<close>: \<open>apply_graph_ops\<close>, the edits of a graph, and the check of a role's
  declared properties. A \<open>GraphError\<close> is a constructor of \<open>op_error\<close>; \<open>Raised\<close> stands for the exceptions
  Python raises on a value of the wrong type or a missing key. Ids are compared with \<open>key_eq\<close>; ids that are lists or
  objects are compared as they are written.
\<close>

section \<open>The operations\<close>

datatype op_error =
    NodeNotFound jval
  | DuplicateEdge_id jval
  | OpsNotList
  | OpNotObject
  | AddNodeNeedsId
  | DuplicateNode_id jval
  | NotASlot jval
  | NotAGate jval
  | AddEdgeNeedsEdge
  | EdgeNotFound jval
  | PinNeedsSlot jval
  | UnknownOp jval
  | Raised

fun bind_ok :: "'e + 'a \<Rightarrow> ('a \<Rightarrow> 'e + 'b) \<Rightarrow> 'e + 'b" where
  "bind_ok (Inl e) f = Inl e"
| "bind_ok (Inr x) f = f x"

fun each_ok :: "('a \<Rightarrow> 's \<Rightarrow> 'e + 's) \<Rightarrow> 'a list \<Rightarrow> 's \<Rightarrow> 'e + 's" where
  "each_ok f [] s = Inr s"
| "each_ok f (x # xs) s = bind_ok (f x s) (each_ok f xs)"

definition has_id :: "jval \<Rightarrow> jdict \<Rightarrow> bool" where
  "has_id k d = key_eq (jget d ''id'') k"

definition find_node :: "jval \<Rightarrow> pgraph \<Rightarrow> op_error + jdict" where
  "find_node nid g = (case List.find (has_id nid) (g_nodes g) of Some n \<Rightarrow> Inr n | None \<Rightarrow> Inl (NodeNotFound nid))"

definition need_node :: "jval \<Rightarrow> pgraph \<Rightarrow> op_error + pgraph" where
  "need_node nid g = bind_ok (find_node nid g) (\<lambda>n. Inr g)"

text \<open>A write to the object that \<open>node(nid)\<close> returns.\<close>

fun update_first :: "(jdict \<Rightarrow> bool) \<Rightarrow> jdict \<Rightarrow> jdict list \<Rightarrow> jdict list" where
  "update_first P n [] = []"
| "update_first P n (x # xs) = (if P x then n # xs else x # update_first P n xs)"

definition put_node :: "jval \<Rightarrow> jdict \<Rightarrow> pgraph \<Rightarrow> pgraph" where
  "put_node nid n g = g\<lparr>g_nodes := update_first (has_id nid) n (g_nodes g)\<rparr>"

definition add_edge :: "jdict \<Rightarrow> pgraph \<Rightarrow> op_error + pgraph" where
  "add_edge e g =
     (if list_ex (has_id (jget e ''id'')) (g_edges g) then Inl (DuplicateEdge_id (jget e ''id''))
      else Inr (g\<lparr>g_edges := g_edges g @ [e]\<rparr>))"

definition main_edge :: "(jval \<Rightarrow> string) \<Rightarrow> jval \<Rightarrow> jval \<Rightarrow> jdict" where
  "main_edge repr a b =
     [(''id'', JStr (edge_id (py_str repr a) (py_str repr b) ''main'')), (''from'', a), (''to'', b), (''kind'', JStr ''main'')]"

definition has_main :: "jval \<Rightarrow> jval \<Rightarrow> pgraph \<Rightarrow> bool" where
  "has_main s t g = list_ex (\<lambda>e. is_main e \<and> key_eq (jget e ''from'') s \<and> key_eq (jget e ''to'') t) (g_edges g)"

text \<open>\<open>e["from"]\<close> of the main edges into \<open>nid\<close>, and \<open>e["to"]\<close> of the ones that leave it.\<close>

fun ends_where :: "string \<Rightarrow> string \<Rightarrow> jval \<Rightarrow> jdict list \<Rightarrow> op_error + jval list" where
  "ends_where get other nid [] = Inr []"
| "ends_where get other nid (e # es) =
     (if is_main e \<and> key_eq (jget e other) nid
      then (case dget e get of
              None \<Rightarrow> Inl Raised
            | Some v \<Rightarrow> bind_ok (ends_where get other nid es) (\<lambda>vs. Inr (v # vs)))
      else ends_where get other nid es)"

definition upstream_of :: "pgraph \<Rightarrow> jval \<Rightarrow> op_error + jval list" where
  "upstream_of g nid = ends_where ''from'' ''to'' nid (g_edges g)"

definition downstream_of :: "pgraph \<Rightarrow> jval \<Rightarrow> op_error + jval list" where
  "downstream_of g nid = ends_where ''to'' ''from'' nid (g_edges g)"

text \<open>\<open>list(v or [])\<close>, and \<open>{**(a or {}), **b}\<close>.\<close>

definition list_or_empty :: "jval \<Rightarrow> op_error + jval list" where
  "list_or_empty v =
     (if \<not> truthy v then Inr []
      else (case v of
              JList vs \<Rightarrow> Inr vs
            | JStr s \<Rightarrow> Inr (map (\<lambda>c. JStr [c]) s)
            | JDict d \<Rightarrow> Inr (map (\<lambda>(k, x). JStr k) d)
            | _ \<Rightarrow> Inl Raised))"

definition merged :: "jval \<Rightarrow> jval \<Rightarrow> op_error + jval" where
  "merged a b =
     (case (if truthy a then a else JDict [], b) of
        (JDict d, JDict d') \<Rightarrow> Inr (JDict (foldl (\<lambda>acc (k, v). dset k v acc) d d'))
      | _ \<Rightarrow> Inl Raised)"

definition id_or_raise :: "jdict \<Rightarrow> (jval \<Rightarrow> op_error) \<Rightarrow> op_error + 'a" where
  "id_or_raise n f = Inl (case dget n ''id'' of Some v \<Rightarrow> f v | None \<Rightarrow> Raised)"

definition op_add_node :: "(jval \<Rightarrow> string) \<Rightarrow> jdict \<Rightarrow> pgraph \<Rightarrow> op_error + pgraph" where
  "op_add_node repr op g =
     (case jget op ''node'' of
        JDict new \<Rightarrow>
          (let nid = jget new ''id'' in
           if \<not> truthy nid then Inl AddNodeNeedsId
           else if list_ex (has_id nid) (g_nodes g) then Inl (DuplicateNode_id nid)
           else
             (let g1 = g\<lparr>g_nodes := g_nodes g @ [new]\<rparr> in
              bind_ok (list_or_empty (jget op ''after'')) (\<lambda>after.
              bind_ok (list_or_empty (jget op ''before'')) (\<lambda>before.
              bind_ok (each_ok need_node after g1) (\<lambda>g1.
              bind_ok (each_ok need_node before g1) (\<lambda>g1.
              (let g2 = g1\<lparr>g_edges := filter (\<lambda>e. \<not> (is_main e \<and> kmem (jget e ''from'') after \<and> kmem (jget e ''to'') before)) (g_edges g1)\<rparr>
               in bind_ok (each_ok (\<lambda>a. add_edge (main_edge repr a nid)) after g2)
                    (each_ok (\<lambda>b. add_edge (main_edge repr nid b)) before))))))))
      | _ \<Rightarrow> Inl AddNodeNeedsId)"

definition reconnect :: "(jval \<Rightarrow> string) \<Rightarrow> jval \<Rightarrow> jval \<Rightarrow> pgraph \<Rightarrow> op_error + pgraph" where
  "reconnect repr u d g = (if has_main u d g then Inr g else add_edge (main_edge repr u d) g)"

definition op_remove_node :: "(jval \<Rightarrow> string) \<Rightarrow> jdict \<Rightarrow> pgraph \<Rightarrow> op_error + pgraph" where
  "op_remove_node repr op g =
     (let nid = jget op ''id'' in
      bind_ok (need_node nid g) (\<lambda>_.
      bind_ok (upstream_of g nid) (\<lambda>ups.
      bind_ok (downstream_of g nid) (\<lambda>downs.
      (let g1 = g\<lparr>g_nodes := filter (\<lambda>n. \<not> has_id nid n) (g_nodes g),
                  g_edges := filter (\<lambda>e. \<not> key_eq (jget e ''from'') nid \<and> \<not> key_eq (jget e ''to'') nid) (g_edges g)\<rparr>
       in if truthy (dget_or op ''reconnect'' (JBool True))
          then each_ok (\<lambda>u. each_ok (reconnect repr u) downs) ups g1
          else Inr g1)))))"

definition op_update_node :: "jdict \<Rightarrow> pgraph \<Rightarrow> op_error + pgraph" where
  "op_update_node op g =
     (let nid = jget op ''id'' in
      bind_ok (find_node nid g) (\<lambda>n.
      (let n1 = (if jget op ''label'' \<noteq> JNull then dset ''label'' (jget op ''label'') n else n) in
       bind_ok
         (if \<not> truthy (jget op ''slot'') then Inr n1
          else if jget n1 ''kind'' \<noteq> JStr ''slot'' then id_or_raise n1 NotASlot
          else bind_ok (merged (jget n1 ''slot'') (jget op ''slot'')) (\<lambda>v. Inr (dset ''slot'' v n1))) (\<lambda>n2.
       bind_ok
         (if \<not> truthy (jget op ''gate'') then Inr n2
          else if jget n2 ''kind'' \<noteq> JStr ''gate'' then id_or_raise n2 NotAGate
          else bind_ok (merged (jget n2 ''gate'') (jget op ''gate'')) (\<lambda>v. Inr (dset ''gate'' v n2))) (\<lambda>n3.
       Inr (put_node nid n3 g))))))"

text \<open>The position is read before the node is looked up.\<close>

definition op_move_node :: "jdict \<Rightarrow> pgraph \<Rightarrow> op_error + pgraph" where
  "op_move_node op g =
     (case (if truthy (jget op ''position'') then jget op ''position'' else JDict []) of
        JDict p \<Rightarrow>
          bind_ok (find_node (jget op ''id'') g) (\<lambda>n.
            Inr (put_node (jget op ''id'') (dset ''position'' (JDict [(''x'', jget p ''x''), (''y'', jget p ''y'')]) n) g))
      | _ \<Rightarrow> Inl Raised)"

definition op_add_edge :: "(jval \<Rightarrow> string) \<Rightarrow> jdict \<Rightarrow> pgraph \<Rightarrow> op_error + pgraph" where
  "op_add_edge repr op g =
     (case jget op ''edge'' of
        JDict e \<Rightarrow>
          bind_ok (need_node (jget e ''from'') g) (\<lambda>_.
          bind_ok (need_node (jget e ''to'') g) (\<lambda>_.
          (if truthy (jget e ''id'') then add_edge e g
           else
             (case (dget e ''from'', dget e ''to'') of
                (Some s, Some t) \<Rightarrow>
                  (let k = (if edge_kind e = JStr ''reject'' then ''reject'' else ''main'') in
                   add_edge (dset ''id'' (JStr (edge_id (py_str repr s) (py_str repr t) k)) e) g)
              | _ \<Rightarrow> Inl Raised))))
      | _ \<Rightarrow> Inl AddEdgeNeedsEdge)"

definition op_remove_edge :: "jdict \<Rightarrow> pgraph \<Rightarrow> op_error + pgraph" where
  "op_remove_edge op g =
     (let es = filter (\<lambda>e. \<not> has_id (jget op ''id'') e) (g_edges g) in
      if length es = length (g_edges g) then Inl (EdgeNotFound (jget op ''id''))
      else Inr (g\<lparr>g_edges := es\<rparr>))"

definition op_set_gate :: "jdict \<Rightarrow> pgraph \<Rightarrow> op_error + pgraph" where
  "op_set_gate op g =
     bind_ok (find_node (jget op ''id'') g) (\<lambda>n.
       if jget n ''kind'' \<noteq> JStr ''gate'' then id_or_raise n NotAGate
       else bind_ok (merged (jget n ''gate'') (JDict [(''prompt'', jget op ''prompt'')])) (\<lambda>v.
         Inr (put_node (jget op ''id'') (dset ''gate'' v n) g)))"

definition op_set_pin :: "jdict \<Rightarrow> pgraph \<Rightarrow> op_error + pgraph" where
  "op_set_pin op g =
     bind_ok (find_node (jget op ''id'') g) (\<lambda>n.
       if jget n ''kind'' \<noteq> JStr ''slot'' then id_or_raise n PinNeedsSlot
       else if truthy (jget op ''pinned'') then Inr (put_node (jget op ''id'') (dset ''pinned'' (JBool True) n) g)
       else Inr (put_node (jget op ''id'') (dpop ''pinned'' n) g))"

definition apply_op :: "(jval \<Rightarrow> string) \<Rightarrow> jval \<Rightarrow> pgraph \<Rightarrow> op_error + pgraph" where
  "apply_op repr v g =
     (case v of
        JDict op \<Rightarrow>
          (let kind = jget op ''op'' in
           if kind = JStr ''add_node'' then op_add_node repr op g
           else if kind = JStr ''remove_node'' then op_remove_node repr op g
           else if kind = JStr ''update_node'' then op_update_node op g
           else if kind = JStr ''move_node'' then op_move_node op g
           else if kind = JStr ''add_edge'' then op_add_edge repr op g
           else if kind = JStr ''remove_edge'' then op_remove_edge op g
           else if kind = JStr ''set_gate'' then op_set_gate op g
           else if kind = JStr ''set_pin'' then op_set_pin op g
           else if kind = JStr ''set_stage_meta'' then Inr g
           else Inl (UnknownOp kind))
      | _ \<Rightarrow> Inl OpNotObject)"

definition apply_graph_ops :: "(jval \<Rightarrow> string) \<Rightarrow> pgraph \<Rightarrow> jval \<Rightarrow> op_error + pgraph" where
  "apply_graph_ops repr g ops = (case ops of JList vs \<Rightarrow> each_ok (apply_op repr) vs g | _ \<Rightarrow> Inl OpsNotList)"



section \<open>Ids stay unique\<close>

lemma bind_okE:
  assumes "bind_ok r f = Inr y"
  obtains x where "r = Inr x" "f x = Inr y"
  using assms by (cases r) auto

lemma id_or_raise_Inr [simp]: "id_or_raise n f \<noteq> Inr x"
  by (simp add: id_or_raise_def)

lemma each_ok_inv:
  assumes "each_ok f xs s = Inr s'" "P s" "\<And>x s s'. x \<in> set xs \<Longrightarrow> P s \<Longrightarrow> f x s = Inr s' \<Longrightarrow> P s'"
  shows "P s'"
  using assms by (induction xs arbitrary: s) (auto elim!: bind_okE)

definition ids_of :: "jdict list \<Rightarrow> jval list" where
  "ids_of ds = map (\<lambda>d. jget d ''id'') ds"

definition ids_unique :: "pgraph \<Rightarrow> bool" where
  "ids_unique g \<longleftrightarrow> ids_differ (ids_of (g_nodes g)) \<and> ids_differ (ids_of (g_edges g))"

lemma ids_differ_filter: "ids_differ (ids_of ds) \<Longrightarrow> ids_differ (ids_of (filter P ds))"
  by (induction ds) (auto simp: ids_differ_def ids_of_def)

lemma ids_differ_snoc:
  "ids_differ (ids_of ds) \<Longrightarrow> \<not> list_ex (has_id (jget d ''id'')) ds \<Longrightarrow> ids_differ (ids_of (ds @ [d]))"
  by (auto simp: ids_differ_def ids_of_def sorted_wrt_append list_ex_iff has_id_def)

lemma find_node_Inr: "find_node nid g = Inr n \<Longrightarrow> List.find (has_id nid) (g_nodes g) = Some n"
  by (simp add: find_node_def split: option.splits)

lemma need_node_same: "need_node nid g = Inr g' \<Longrightarrow> g' = g"
  by (auto simp: need_node_def elim!: bind_okE)

lemma each_need_same: "each_ok need_node xs g = Inr g' \<Longrightarrow> g' = g"
  by (rule each_ok_inv [where P = "\<lambda>s. s = g"]) (auto dest: need_node_same)

lemma update_first_ids:
  "List.find P ns = Some n \<Longrightarrow> jget n' ''id'' = jget n ''id'' \<Longrightarrow> ids_of (update_first P n' ns) = ids_of ns"
  by (induction ns) (auto simp: ids_of_def split: if_splits)

definition same_shape :: "pgraph \<Rightarrow> pgraph \<Rightarrow> bool" where
  "same_shape g g' \<longleftrightarrow> ids_of (g_nodes g') = ids_of (g_nodes g) \<and> g_edges g' = g_edges g"

lemma put_node_shape [simp]:
  "\<not> isl (find_node nid g) \<Longrightarrow> jget n' ''id'' = jget (projr (find_node nid g)) ''id'' \<Longrightarrow> same_shape g (put_node nid n' g)"
  by (cases "find_node nid g") (auto simp: same_shape_def put_node_def update_first_ids [OF find_node_Inr])

lemma jget_dpop [simp]: "jget (dpop k d) k' = (if k' = k then JNull else jget d k')"
  by (simp add: jget_def)

text \<open>The operations on one node write that node and keep its id.\<close>

definition node_op :: "jdict \<Rightarrow> pgraph \<Rightarrow> pgraph \<Rightarrow> bool" where
  "node_op op g g' \<longleftrightarrow>
     op_update_node op g = Inr g' \<or> op_move_node op g = Inr g' \<or> op_set_gate op g = Inr g' \<or> op_set_pin op g = Inr g'"

lemma node_op_shape: "node_op op g g' \<Longrightarrow> same_shape g g'"
  unfolding node_op_def
proof (elim disjE)
  show "op_update_node op g = Inr g' \<Longrightarrow> same_shape g g'"
    by (auto simp: op_update_node_def Let_def elim!: bind_okE split: if_splits)
  show "op_move_node op g = Inr g' \<Longrightarrow> same_shape g g'"
    by (auto simp: op_move_node_def elim!: bind_okE split: if_splits jval.splits)
  show "op_set_gate op g = Inr g' \<Longrightarrow> same_shape g g'"
    by (auto simp: op_set_gate_def elim!: bind_okE split: if_splits)
  show "op_set_pin op g = Inr g' \<Longrightarrow> same_shape g g'"
    by (auto simp: op_set_pin_def elim!: bind_okE split: if_splits)
qed

lemma add_edge_unique: "ids_unique g \<Longrightarrow> add_edge e g = Inr g' \<Longrightarrow> ids_unique g'"
  by (auto simp: add_edge_def ids_unique_def ids_differ_snoc split: if_splits)

lemma reconnect_unique: "ids_unique g \<Longrightarrow> reconnect repr u d g = Inr g' \<Longrightarrow> ids_unique g'"
  by (auto simp: reconnect_def dest: add_edge_unique split: if_splits)

text \<open>A successful operation is one of these.\<close>

lemma apply_op_cases:
  assumes "apply_op repr v g = Inr g'"
  shows "(\<exists>op. op_add_node repr op g = Inr g') \<or> (\<exists>op. op_remove_node repr op g = Inr g') \<or> (\<exists>op. node_op op g g') \<or>
    (\<exists>op. op_add_edge repr op g = Inr g') \<or> (\<exists>op. op_remove_edge op g = Inr g') \<or> g' = g"
proof (cases v)
  case (JDict op)
  have "(if c then x else y) = Inr g' \<Longrightarrow> x = Inr g' \<or> y = Inr g'" for c and x y :: "op_error + pgraph"
    by (simp split: if_splits)
  note pick = this
  from assms have "op_add_node repr op g = Inr g' \<or> op_remove_node repr op g = Inr g' \<or> op_update_node op g = Inr g' \<or>
      op_move_node op g = Inr g' \<or> op_add_edge repr op g = Inr g' \<or> op_remove_edge op g = Inr g' \<or> op_set_gate op g = Inr g' \<or>
      op_set_pin op g = Inr g' \<or> Inr g = (Inr g' :: op_error + pgraph) \<or> Inl (UnknownOp (jget op ''op'')) = (Inr g' :: op_error + pgraph)"
    unfolding apply_op_def JDict jval.case Let_def by (blast dest!: pick)
  then show ?thesis unfolding node_op_def by blast
qed (use assms in \<open>simp_all add: apply_op_def\<close>)

lemma add_node_steps:
  assumes "op_add_node repr op g = Inr g'"
  obtains new after before g2 where "jget op ''node'' = JDict new" "truthy (jget new ''id'')"
    "\<not> list_ex (has_id (jget new ''id'')) (g_nodes g)"
    "each_ok need_node after (g\<lparr>g_nodes := g_nodes g @ [new]\<rparr>) = Inr (g\<lparr>g_nodes := g_nodes g @ [new]\<rparr>)"
    "each_ok need_node before (g\<lparr>g_nodes := g_nodes g @ [new]\<rparr>) = Inr (g\<lparr>g_nodes := g_nodes g @ [new]\<rparr>)"
    "each_ok (\<lambda>a. add_edge (main_edge repr a (jget new ''id''))) after
       (g\<lparr>g_nodes := g_nodes g @ [new],
          g_edges := filter (\<lambda>e. \<not> (is_main e \<and> kmem (jget e ''from'') after \<and> kmem (jget e ''to'') before)) (g_edges g)\<rparr>) = Inr g2"
    "each_ok (\<lambda>b. add_edge (main_edge repr (jget new ''id'') b)) before g2 = Inr g'"
proof -
  from assms obtain new where new: "jget op ''node'' = JDict new" "truthy (jget new ''id'')"
    "\<not> list_ex (has_id (jget new ''id'')) (g_nodes g)"
    by (auto simp: op_add_node_def Let_def split: jval.splits if_splits)
  let ?g = "g\<lparr>g_nodes := g_nodes g @ [new]\<rparr>"
  from assms new obtain after before ga gb g2 where
    "each_ok need_node after ?g = Inr ga" "each_ok need_node before ga = Inr gb"
    "each_ok (\<lambda>a. add_edge (main_edge repr a (jget new ''id''))) after
       (gb\<lparr>g_edges := filter (\<lambda>e. \<not> (is_main e \<and> kmem (jget e ''from'') after \<and> kmem (jget e ''to'') before)) (g_edges gb)\<rparr>) = Inr g2"
    "each_ok (\<lambda>b. add_edge (main_edge repr (jget new ''id'') b)) before g2 = Inr g'"
    by (auto simp: op_add_node_def Let_def elim!: bind_okE)
  moreover from this(1,2) have "ga = ?g" "gb = ?g" by (auto dest!: each_need_same)
  ultimately show thesis using new by (intro that) simp_all
qed

lemma remove_node_steps:
  assumes "op_remove_node repr op g = Inr g'"
  obtains nid ups downs g1 where "nid = jget op ''id''" "upstream_of g nid = Inr ups" "downstream_of g nid = Inr downs"
    "g1 = g\<lparr>g_nodes := filter (\<lambda>n. \<not> has_id nid n) (g_nodes g),
       g_edges := filter (\<lambda>e. \<not> key_eq (jget e ''from'') nid \<and> \<not> key_eq (jget e ''to'') nid) (g_edges g)\<rparr>"
    "if truthy (dget_or op ''reconnect'' (JBool True))
     then each_ok (\<lambda>u. each_ok (reconnect repr u) downs) ups g1 = Inr g' else g' = g1"
proof -
  from assms obtain ups downs where "upstream_of g (jget op ''id'') = Inr ups" "downstream_of g (jget op ''id'') = Inr downs"
    by (auto simp: op_remove_node_def Let_def elim!: bind_okE)
  with assms show thesis
    by (intro that [OF refl _ _ refl]) (auto simp: op_remove_node_def Let_def elim!: bind_okE split: if_splits)
qed

lemma each_reconnect_inv:
  assumes "each_ok (\<lambda>u. each_ok (reconnect repr u) downs) ups g = Inr g'" "P g"
    "\<And>u d g g'. u \<in> set ups \<Longrightarrow> d \<in> set downs \<Longrightarrow> P g \<Longrightarrow> reconnect repr u d g = Inr g' \<Longrightarrow> P g'"
  shows "P g'"
  using assms(1,2)
proof (rule each_ok_inv)
  fix u g g' assume u: "u \<in> set ups" "P g" and "each_ok (reconnect repr u) downs g = Inr g'"
  from this(3,2) show "P g'" by (rule each_ok_inv) (rule assms(3) [OF u(1)])
qed

lemma apply_op_unique:
  assumes g: "ids_unique g" and "apply_op repr v g = Inr g'"
  shows "ids_unique g'"
  using apply_op_cases [OF assms(2)]
proof (elim disjE exE)
  fix op assume "op_add_node repr op g = Inr g'"
  then show ?thesis
  proof (rule add_node_steps)
    fix new after before g2
    let ?g1 = "g\<lparr>g_nodes := g_nodes g @ [new],
      g_edges := filter (\<lambda>e. \<not> (is_main e \<and> kmem (jget e ''from'') after \<and> kmem (jget e ''to'') before)) (g_edges g)\<rparr>"
    assume n: "\<not> list_ex (has_id (jget new ''id'')) (g_nodes g)"
      and a: "each_ok (\<lambda>a. add_edge (main_edge repr a (jget new ''id''))) after ?g1 = Inr g2"
      and b: "each_ok (\<lambda>b. add_edge (main_edge repr (jget new ''id'') b)) before g2 = Inr g'"
    have "ids_unique ?g1" using g n by (simp add: ids_unique_def ids_differ_snoc ids_differ_filter)
    with a have "ids_unique g2" by (rule each_ok_inv) (rule add_edge_unique)
    with b show ?thesis by (rule each_ok_inv) (rule add_edge_unique)
  qed
next
  fix op assume "op_remove_node repr op g = Inr g'"
  then show ?thesis
  proof (rule remove_node_steps)
    fix nid ups downs g1
    assume g1: "g1 = g\<lparr>g_nodes := filter (\<lambda>n. \<not> has_id nid n) (g_nodes g),
       g_edges := filter (\<lambda>e. \<not> key_eq (jget e ''from'') nid \<and> \<not> key_eq (jget e ''to'') nid) (g_edges g)\<rparr>"
      and r: "if truthy (dget_or op ''reconnect'' (JBool True))
        then each_ok (\<lambda>u. each_ok (reconnect repr u) downs) ups g1 = Inr g' else g' = g1"
    have "ids_unique g1" using g by (simp add: ids_unique_def ids_differ_filter g1)
    with r show ?thesis by (auto split: if_splits intro: each_reconnect_inv [where P = ids_unique] reconnect_unique)
  qed
next
  fix op assume "node_op op g g'"
  from node_op_shape [OF this] g show ?thesis by (simp add: same_shape_def ids_unique_def)
next
  fix op assume "op_add_edge repr op g = Inr g'"
  with g show ?thesis
    by (auto simp: op_add_edge_def Let_def elim!: bind_okE dest: add_edge_unique split: jval.splits option.splits if_splits)
next
  fix op assume "op_remove_edge op g = Inr g'"
  with g show ?thesis by (auto simp: op_remove_edge_def Let_def ids_unique_def ids_differ_filter split: if_splits)
qed (use g in simp)

text \<open>no sequence of edits makes two nodes, or two edges, share an id.\<close>

theorem edits_keep_ids_unique:
  assumes "ids_unique g" "apply_graph_ops repr g ops = Inr g'"
  shows "ids_unique g'"
  using assms by (auto simp: apply_graph_ops_def split: jval.splits intro: each_ok_inv [where P = ids_unique] apply_op_unique)


section \<open>Removing a node keeps what is upstream of what\<close>

text \<open>The relation that is left when a vertex is cut out and its neighbours are joined.\<close>

definition bypass :: "'a \<Rightarrow> ('a \<times> 'a) set \<Rightarrow> ('a \<times> 'a) set" where
  "bypass n R = {(s, t). (s, t) \<in> R \<and> s \<noteq> n \<and> t \<noteq> n} \<union> {(s, t). (s, n) \<in> R \<and> (n, t) \<in> R}"

lemma bypass_trancl:
  assumes "(n, n) \<notin> R" "s \<noteq> n" "t \<noteq> n"
  shows "(s, t) \<in> (bypass n R)\<^sup>+ \<longleftrightarrow> (s, t) \<in> R\<^sup>+"
proof
  assume "(s, t) \<in> (bypass n R)\<^sup>+"
  then show "(s, t) \<in> R\<^sup>+"
    by (induction rule: trancl_induct) (auto simp: bypass_def intro: trancl_into_trancl trancl_trans)
next
  assume "(s, t) \<in> R\<^sup>+"
  then have "if t = n then \<exists>u. (s = u \<or> (s, u) \<in> (bypass n R)\<^sup>+) \<and> (u, n) \<in> R \<and> u \<noteq> n else (s, t) \<in> (bypass n R)\<^sup>+"
  proof (induction rule: trancl_induct)
    case (base y)
    with assms show ?case by (auto simp: bypass_def)
  next
    case (step y z)
    show ?case
    proof (cases "y = n")
      case True
      with step assms(1) obtain u where u: "s = u \<or> (s, u) \<in> (bypass n R)\<^sup>+" "(u, n) \<in> R" "u \<noteq> n" and z: "z \<noteq> n"
        by auto
      with True step have "(u, z) \<in> bypass n R" by (auto simp: bypass_def)
      with u z show ?thesis by (auto intro: trancl_into_trancl)
    next
      case False
      with step have sy: "(s, y) \<in> (bypass n R)\<^sup>+" by simp
      show ?thesis
      proof (cases "z = n")
        case True
        with sy step False show ?thesis by auto
      next
        case z: False
        with step False have "(y, z) \<in> bypass n R" by (auto simp: bypass_def)
        with sy z show ?thesis by (auto intro: trancl_into_trancl)
      qed
    qed
  qed
  with assms show "(s, t) \<in> (bypass n R)\<^sup>+" by simp
qed


text \<open>The edges that \<open>remove_node\<close> adds, and the ones it drops, for edges between nodes with text ids.\<close>

definition text_ends :: "pgraph \<Rightarrow> bool" where
  "text_ends g \<longleftrightarrow> (\<forall>e \<in> set (g_edges g). ends_of e \<noteq> None)"

lemma ends_of_iff: "ends_of e = Some (s, t) \<longleftrightarrow> jget e ''from'' = JStr s \<and> jget e ''to'' = JStr t"
  by (auto simp: ends_of.simps split: jval.splits)

lemma is_main_edge_kind: "is_main e \<longleftrightarrow> edge_kind e = JStr ''main''"
  by (simp add: is_main_def)

lemma ends_where_main:
  assumes "\<forall>e \<in> set es. ends_of e \<noteq> None" "ends_where get other (JStr n) es = Inr vs" "get = ''from'' \<and> other = ''to'' \<or> get = ''to'' \<and> other = ''from''"
  shows "set vs = JStr ` {s. if get = ''from'' then (s, n) \<in> main_rel es else (n, s) \<in> main_rel es}"
  using assms(1,2)
proof (induction es arbitrary: vs)
  case Nil
  then show ?case by (simp add: main_rel_def)
next
  case (Cons e es)
  from Cons.prems(1) obtain s t where e: "ends_of e = Some (s, t)" by (cases "ends_of e") auto
  have split: "main_rel (e # es) = (if is_main e then insert (s, t) (main_rel es) else main_rel es)"
    using e by (auto simp: main_rel_def is_main_edge_kind)
  have "jget e get = v \<Longrightarrow> v \<noteq> JNull \<Longrightarrow> dget e get = Some v" for v by (auto simp: jget_def split: option.splits)
  with e assms(3) have g: "dget e get = Some (if get = ''from'' then JStr s else JStr t)" "jget e other = (if get = ''from'' then JStr t else JStr s)"
    by (auto simp: ends_of_iff)
  show ?case
  proof (cases "is_main e \<and> key_eq (jget e other) (JStr n)")
    case True
    with Cons.prems(2) g obtain ws where w: "ends_where get other (JStr n) es = Inr ws"
      "vs = (if get = ''from'' then JStr s else JStr t) # ws" by (auto elim: bind_okE)
    with Cons.IH [of ws] Cons.prems(1) True g split show ?thesis by auto
  next
    case False
    with Cons.prems(2) have "ends_where get other (JStr n) es = Inr vs" by auto
    with Cons.IH [of vs] Cons.prems(1) False g split show ?thesis by auto
  qed
qed

lemma main_edge_ends: "ends_of (main_edge repr (JStr u) (JStr d)) = Some (u, d)" "is_main (main_edge repr a b)"
  by (auto simp: main_edge_def ends_of_iff jget_def is_main_def edge_kind_def or_main_def)

lemma reconnect_main:
  assumes "text_ends g" "reconnect repr (JStr u) (JStr d) g = Inr g'"
  shows "text_ends g' \<and> main_rel (g_edges g') = insert (u, d) (main_rel (g_edges g))"
proof (cases "has_main (JStr u) (JStr d) g")
  case True
  with assms(2) have "g' = g" by (simp add: reconnect_def)
  moreover from True have "(u, d) \<in> main_rel (g_edges g)"
    by (auto simp: has_main_def main_rel_def list_ex_iff ends_of_iff is_main_edge_kind)
  ultimately show ?thesis using assms(1) by auto
next
  case False
  with assms(2) have "g_edges g' = g_edges g @ [main_edge repr (JStr u) (JStr d)]"
    by (auto simp: reconnect_def add_edge_def split: if_splits)
  with assms(1) main_edge_ends(1) [of repr u d] main_edge_ends(2) [of repr "JStr u" "JStr d"] show ?thesis
    by (auto simp: text_ends_def main_rel_append) (auto simp: main_rel_def is_main_edge_kind [symmetric])
qed


lemma reconnect_row:
  "each_ok (reconnect repr (JStr u)) (map JStr ds) g = Inr g' \<Longrightarrow> text_ends g \<Longrightarrow>
   text_ends g' \<and> main_rel (g_edges g') = main_rel (g_edges g) \<union> {u} \<times> set ds"
proof (induction ds arbitrary: g)
  case (Cons d ds)
  from Cons.prems(1) obtain g1 where g1: "reconnect repr (JStr u) (JStr d) g = Inr g1"
    "each_ok (reconnect repr (JStr u)) (map JStr ds) g1 = Inr g'" by (auto elim: bind_okE)
  from reconnect_main [OF Cons.prems(2) g1(1)] Cons.IH [OF g1(2)] show ?case by auto
qed simp

lemma reconnect_all:
  "each_ok (\<lambda>u. each_ok (reconnect repr u) (map JStr ds)) (map JStr us) g = Inr g' \<Longrightarrow> text_ends g \<Longrightarrow>
   text_ends g' \<and> main_rel (g_edges g') = main_rel (g_edges g) \<union> set us \<times> set ds"
proof (induction us arbitrary: g)
  case (Cons u us)
  from Cons.prems(1) obtain g1 where g1: "each_ok (reconnect repr (JStr u)) (map JStr ds) g = Inr g1"
    "each_ok (\<lambda>u. each_ok (reconnect repr u) (map JStr ds)) (map JStr us) g1 = Inr g'" by (auto elim: bind_okE)
  from reconnect_row [OF g1(1) Cons.prems(2)] Cons.IH [OF g1(2)] show ?case by auto
qed simp

lemma JStr_list: "set vs = JStr ` S \<Longrightarrow> \<exists>ss. vs = map JStr ss \<and> set ss = S"
proof -
  assume v: "set vs = JStr ` S"
  then obtain ss where ss: "vs = map JStr ss" using ex_map_conv [of vs JStr] by blast
  with v have "set ss = S" by (auto simp: inj_image_eq_iff inj_def)
  with ss show ?thesis by blast
qed

lemma remove_node_main:
  assumes ends: "text_ends g" and id: "jget op ''id'' = JStr n" and rec: "truthy (dget_or op ''reconnect'' (JBool True))"
    and op: "op_remove_node repr op g = Inr g'"
  shows "main_rel (g_edges g') = bypass n (main_rel (g_edges g))"
proof -
  let ?R = "main_rel (g_edges g)"
  obtain ups downs g1 where u: "upstream_of g (JStr n) = Inr ups" "downstream_of g (JStr n) = Inr downs"
    and g1: "g_edges g1 = filter (\<lambda>e. jget e ''from'' \<noteq> JStr n \<and> jget e ''to'' \<noteq> JStr n) (g_edges g)"
    and all: "each_ok (\<lambda>u. each_ok (reconnect repr u) downs) ups g1 = Inr g'"
  proof (rule remove_node_steps [OF op])
    fix nid ups downs g1
    assume "nid = jget op ''id''" "upstream_of g nid = Inr ups" "downstream_of g nid = Inr downs"
      "g1 = g\<lparr>g_nodes := filter (\<lambda>n. \<not> has_id nid n) (g_nodes g),
         g_edges := filter (\<lambda>e. \<not> key_eq (jget e ''from'') nid \<and> \<not> key_eq (jget e ''to'') nid) (g_edges g)\<rparr>"
      "if truthy (dget_or op ''reconnect'' (JBool True))
       then each_ok (\<lambda>u. each_ok (reconnect repr u) downs) ups g1 = Inr g' else g' = g1"
    with id rec show thesis by (intro that [of ups downs g1]) simp_all
  qed
  have "set ups = JStr ` {s. (s, n) \<in> ?R}" "set downs = JStr ` {t. (n, t) \<in> ?R}"
    using ends_where_main [of "g_edges g" "''from''" "''to''" n ups] ends_where_main [of "g_edges g" "''to''" "''from''" n downs]
      u ends by (simp_all add: upstream_of_def downstream_of_def text_ends_def)
  then obtain us ds where us: "ups = map JStr us" "set us = {s. (s, n) \<in> ?R}" "downs = map JStr ds" "set ds = {t. (n, t) \<in> ?R}"
    using JStr_list by metis
  have "text_ends g1" using ends by (auto simp: text_ends_def g1)
  with reconnect_all [of repr ds us g1 g'] all us(1,3)
  have "main_rel (g_edges g') = main_rel (g_edges g1) \<union> set us \<times> set ds" by simp
  moreover have "main_rel (g_edges g1) = {(s, t). (s, t) \<in> ?R \<and> s \<noteq> n \<and> t \<noteq> n}"
    by (auto simp: main_rel_def g1 ends_of_iff)
  ultimately show ?thesis by (auto simp: bypass_def us)
qed

text \<open>
  removing a node and joining its neighbours leaves unchanged which of the other nodes are upstream of which.
\<close>

theorem remove_node_keeps_upstream:
  assumes "text_ends g" "jget op ''id'' = JStr n" "truthy (dget_or op ''reconnect'' (JBool True))"
    and "(n, n) \<notin> main_rel (g_edges g)" "op_remove_node repr op g = Inr g'" "s \<noteq> n" "t \<noteq> n"
  shows "(s, t) \<in> (main_rel (g_edges g'))\<^sup>+ \<longleftrightarrow> (s, t) \<in> (main_rel (g_edges g))\<^sup>+"
  unfolding remove_node_main [OF assms(1-3,5)] by (rule bypass_trancl [OF assms(4,6,7)])

lemma remove_node_keeps_upstream_witness:
  "\<exists>g'. op_remove_node (\<lambda>_. []) [(''id'', JStr ''a'')] small_graph = Inr g' \<and>
     (''t'', ''b'') \<in> (main_rel (g_edges g'))\<^sup>+"
proof -
  have "\<not> isl (op_remove_node (\<lambda>_. []) [(''id'', JStr ''a'')] small_graph)" by code_simp
  then obtain g' where g': "op_remove_node (\<lambda>_. []) [(''id'', JStr ''a'')] small_graph = Inr g'"
    by (cases "op_remove_node (\<lambda>_. []) [(''id'', JStr ''a'')] small_graph") auto
  have m: "main_rel (g_edges small_graph) = {(''t'', ''a''), (''a'', ''b'')}"
    by (auto simp: main_rel_def small_graph_def ends_of_iff edge_kind_def or_main_def jget_def)
  have "text_ends small_graph" by (simp add: text_ends_def small_graph_def ends_of.simps jget_def)
  moreover have "(''t'', ''b'') \<in> (main_rel (g_edges small_graph))\<^sup>+"
    unfolding m by (rule trancl_into_trancl [of _ "''a''"]) auto
  ultimately show ?thesis
    using remove_node_keeps_upstream [OF _ _ _ _ g', of "''a''" "''t''" "''b''"] g' by (auto simp: jget_def dget_or_def m)
qed


lemma edits_keep_ids_unique_witness:
  "\<exists>g'. apply_graph_ops (\<lambda>_. []) small_graph
       (JList [JDict [(''op'', JStr ''add_node''), (''node'', JDict [(''id'', JStr ''c''), (''kind'', JStr ''gate'')]),
                      (''after'', JList [JStr ''b''])]]) = Inr g' \<and> ids_unique g'"
    (is "\<exists>g'. apply_graph_ops _ _ ?ops = _ \<and> _")
proof -
  have "\<not> isl (apply_graph_ops (\<lambda>_. []) small_graph ?ops)" by code_simp
  then obtain g' where g': "apply_graph_ops (\<lambda>_. []) small_graph ?ops = Inr g'"
    by (cases "apply_graph_ops (\<lambda>_. []) small_graph ?ops") auto
  have "ids_unique small_graph"
    by (simp add: ids_unique_def ids_of_def ids_differ_def small_graph_def jget_def)
  from edits_keep_ids_unique [OF this g'] g' show ?thesis by blast
qed


section \<open>Declared properties of a role\<close>

definition ROLE_PROPERTY_TYPES :: "string list" where
  "ROLE_PROPERTY_TYPES = [''string'', ''text'', ''template'', ''number'', ''boolean'', ''options'']"

datatype role_error =
    PropsNotList
  | PropNotObject
  | NameRequired
  | DuplicateName string
  | BadType string
  | OptionsNeedList string
  | DisplayOnlyShowHide string
  | ShowHideNeedLists string

definition cond_ok :: "jval \<Rightarrow> bool" where
  "cond_ok cond =
     (case cond of JDict d \<Rightarrow> list_all (\<lambda>(k, v). case v of JList _ \<Rightarrow> True | _ \<Rightarrow> False) d | _ \<Rightarrow> False)"

definition prop_name :: "(jval \<Rightarrow> string) \<Rightarrow> jdict \<Rightarrow> string" where
  "prop_name repr p = py_strip (if truthy (jget p ''name'') then py_str repr (jget p ''name'') else [])"

definition check_property :: "(jval \<Rightarrow> string) \<Rightarrow> string list \<Rightarrow> jval \<Rightarrow> role_error + string" where
  "check_property repr seen v =
     (case v of
        JDict p \<Rightarrow>
          (let name = prop_name repr p; ptype = jget p ''type'' in
           if name = [] then Inl NameRequired
           else if name \<in> set seen then Inl (DuplicateName name)
           else if \<not> str_in ptype ROLE_PROPERTY_TYPES then Inl (BadType name)
           else if ptype = JStr ''options'' \<and> (case jget p ''options'' of JList _ \<Rightarrow> False | _ \<Rightarrow> True) then Inl (OptionsNeedList name)
           else
             (case jget p ''displayOptions'' of
                JNull \<Rightarrow> Inr name
              | JDict disp \<Rightarrow>
                  (if list_ex (\<lambda>k. k \<noteq> ''show'' \<and> k \<noteq> ''hide'') (keys disp) then Inl (DisplayOnlyShowHide name)
                   else if list_all (\<lambda>(k, c). cond_ok c) disp then Inr name
                   else Inl (ShowHideNeedLists name))
              | _ \<Rightarrow> Inl (DisplayOnlyShowHide name)))
      | _ \<Rightarrow> Inl PropNotObject)"

fun check_properties :: "(jval \<Rightarrow> string) \<Rightarrow> string list \<Rightarrow> jval list \<Rightarrow> jval list \<Rightarrow> role_error + jval list" where
  "check_properties repr seen out [] = Inr out"
| "check_properties repr seen out (p # ps) =
     bind_ok (check_property repr seen p) (\<lambda>name. check_properties repr (seen @ [name]) (out @ [p]) ps)"

definition validate_role_properties :: "(jval \<Rightarrow> string) \<Rightarrow> jval \<Rightarrow> role_error + jval list" where
  "validate_role_properties repr props =
     (case props of JList ps \<Rightarrow> check_properties repr [] [] ps | _ \<Rightarrow> Inl PropsNotList)"

lemma check_property_Inr:
  "check_property repr seen v = Inr name \<Longrightarrow>
   \<exists>p. v = JDict p \<and> name = prop_name repr p \<and> name \<noteq> [] \<and> name \<notin> set seen \<and> str_in (jget p ''type'') ROLE_PROPERTY_TYPES"
  by (auto simp: check_property_def Let_def split: jval.splits if_splits)

lemma check_properties_Inr:
  "check_properties repr seen out ps = Inr out' \<Longrightarrow>
   out' = out @ ps \<and> (\<exists>ds. ps = map JDict ds \<and> (\<forall>d \<in> set ds. str_in (jget d ''type'') ROLE_PROPERTY_TYPES) \<and>
     [] \<notin> set (map (prop_name repr) ds) \<and> distinct (map (prop_name repr) ds) \<and> set (map (prop_name repr) ds) \<inter> set seen = {})"
proof (induction repr seen out ps rule: check_properties.induct)
  case (2 repr seen out p ps)
  from 2(2) obtain name where n: "check_property repr seen p = Inr name"
    "check_properties repr (seen @ [name]) (out @ [p]) ps = Inr out'" by (auto elim: bind_okE)
  from check_property_Inr [OF n(1)] obtain d where d: "p = JDict d" "name = prop_name repr d" "name \<noteq> []" "name \<notin> set seen"
    "str_in (jget d ''type'') ROLE_PROPERTY_TYPES" by blast
  from 2(1) [OF n(2)] obtain ds where ds: "out' = (out @ [p]) @ ps" "ps = map JDict ds"
    "\<forall>d \<in> set ds. str_in (jget d ''type'') ROLE_PROPERTY_TYPES" "[] \<notin> set (map (prop_name repr) ds)"
    "distinct (map (prop_name repr) ds)" "set (map (prop_name repr) ds) \<inter> set (seen @ [name]) = {}" by blast
  show ?case
    by (intro conjI exI [of _ "d # ds"]) (use d ds in \<open>auto simp del: str_in_iff\<close>)
qed simp

text \<open>
  declared properties that pass the check are kept as they are: a list of objects with known types, whose names are
  not blank and differ from each other.
\<close>

theorem role_properties_checked:
  assumes "validate_role_properties repr props = Inr out"
  shows "props = JList out \<and> (\<exists>ds. out = map JDict ds \<and> distinct (map (prop_name repr) ds) \<and> [] \<notin> set (map (prop_name repr) ds) \<and>
    (\<forall>d \<in> set ds. \<exists>t \<in> set ROLE_PROPERTY_TYPES. jget d ''type'' = JStr t))"
proof -
  from assms obtain ps where ps: "props = JList ps" "check_properties repr [] [] ps = Inr out"
    by (auto simp: validate_role_properties_def split: jval.splits)
  from check_properties_Inr [OF ps(2)] obtain ds where ds: "out = ps" "ps = map JDict ds"
    "\<forall>d \<in> set ds. str_in (jget d ''type'') ROLE_PROPERTY_TYPES" "[] \<notin> set (map (prop_name repr) ds)"
    "distinct (map (prop_name repr) ds)" by auto
  then show ?thesis using ps(1) by (intro conjI exI [of _ ds]) (simp_all, blast)
qed

lemma role_properties_checked_witness:
  "\<exists>out. validate_role_properties (\<lambda>_. []) (JList [JDict [(''name'', JStr '' tone ''), (''type'', JStr ''text'')]]) = Inr out \<and> length out = 1"
proof -
  let ?p = "JList [JDict [(''name'', JStr '' tone ''), (''type'', JStr ''text'')]]"
  have "\<not> isl (validate_role_properties (\<lambda>_. []) ?p)" by code_simp
  then obtain out where out: "validate_role_properties (\<lambda>_. []) ?p = Inr out"
    by (cases "validate_role_properties (\<lambda>_. []) ?p") auto
  from role_properties_checked [OF this] have "?p = JList out" by (rule conjunct1)
  with out show ?thesis by (intro exI [of _ out]) (auto simp: length_Suc_conv)
qed

end
