(* ===== verification/Confirm_Token.thy ===== *)
theory Confirm_Token
  imports Pipeline_Graph "HOL-Library.Multiset"
begin

text \<open>
  \<open>backend/agent_team_backend/confirm_token.py\<close>: the one-time confirmation of an action that changes trust. The key and the spent
  nonces are the state; the clock is an argument of each check. HMAC-SHA-256 is the argument \<open>hmac\<close> (key, payload, hex
  digest); \<open>repr\<close> is the text of values that are floats, lists or objects; \<open>rnd\<close> is the rounding of a decimal to the
  nearest double.
\<close>

section \<open>Numbers as text\<close>

text \<open>\<open>float(s)\<close>: surrounding space is ignored, an underscore may stand between two digits.\<close>

datatype fvalue = VNan | VInf | VNegInf | VNum rat

definition dec_value :: "string \<Rightarrow> int" where
  "dec_value s = foldl (\<lambda>n c. n * 10 + (of_char c - 48)) 0 s"

fun drop_underscores :: "bool \<Rightarrow> string \<Rightarrow> string option" where
  "drop_underscores prev [] = Some []"
| "drop_underscores prev (c # s) =
     (if c = CHR ''_''
      then (if prev \<and> s \<noteq> [] \<and> is_digit (hd s) then drop_underscores False s else None)
      else map_option ((#) c) (drop_underscores (is_digit c) s))"

definition split_sign :: "string \<Rightarrow> bool \<times> string" where
  "split_sign s = (case s of c # r \<Rightarrow> if c = CHR ''-'' then (True, r) else if c = CHR ''+'' then (False, r) else (False, s) | [] \<Rightarrow> (False, s))"

definition ten_pow :: "int \<Rightarrow> rat" where
  "ten_pow e = (if 0 \<le> e then 10 ^ nat e else 1 / 10 ^ nat (- e))"

text \<open>The exponent part of a literal, if the rest of the text is one.\<close>

definition parse_exponent :: "string \<Rightarrow> int option" where
  "parse_exponent s =
     (case s of
        [] \<Rightarrow> Some 0
      | c # r \<Rightarrow>
          (let (neg, ds) = split_sign r in
           if ascii_lower c = CHR ''e'' \<and> ds \<noteq> [] \<and> list_all is_digit ds
           then Some (if neg then - dec_value ds else dec_value ds) else None))"

definition parse_unsigned :: "string \<Rightarrow> rat option" where
  "parse_unsigned s =
     (let a = takeWhile is_digit s; r = dropWhile is_digit s;
          (b, r') = (case r of c # t \<Rightarrow> if c = CHR ''.'' then (takeWhile is_digit t, dropWhile is_digit t) else ([], r) | [] \<Rightarrow> ([], r))
      in if a = [] \<and> b = [] then None
         else (case parse_exponent r' of
                 None \<Rightarrow> None
               | Some e \<Rightarrow> Some (of_int (dec_value (a @ b)) * ten_pow (e - int (length b)))))"

definition parse_float :: "(rat \<Rightarrow> fvalue) \<Rightarrow> string \<Rightarrow> fvalue option" where
  "parse_float rnd s =
     (case drop_underscores False (py_strip s) of
        None \<Rightarrow> None
      | Some t \<Rightarrow>
          (let (neg, u) = split_sign t; w = map ascii_lower u in
           if w = ''inf'' \<or> w = ''infinity'' then Some (if neg then VNegInf else VInf)
           else if w = ''nan'' then Some VNan
           else map_option (\<lambda>q. rnd (if neg then - q else q)) (parse_unsigned u)))"

text \<open>\<open>now > deadline\<close>: false for a deadline that is not a number.\<close>

definition later_than :: "rat \<Rightarrow> fvalue \<Rightarrow> bool" where
  "later_than now d = (case d of VNum q \<Rightarrow> q < now | VNegInf \<Rightarrow> True | _ \<Rightarrow> False)"


section \<open>The check\<close>

definition TOKEN_TTL_S :: rat where "TOKEN_TTL_S = 30"
definition NONCE_MEMORY_S :: rat where "NONCE_MEMORY_S = TOKEN_TTL_S * 2"

record confirm_state =
  ct_key :: string
  ct_spent :: "(string \<times> rat) list"

datatype confirm_refusal =
    NoKey
  | NotAToken
  | Incomplete
  | WrongAction
  | NoExpiry
  | Expired
  | AlreadyUsed
  | NotAscii

definition set_key :: "string \<Rightarrow> confirm_state \<Rightarrow> bool \<times> confirm_state" where
  "set_key raw st = (let material = py_strip raw in if material = [] then (False, st) else (True, st\<lparr>ct_key := material\<rparr>))"

definition configured :: "confirm_state \<Rightarrow> bool" where
  "configured st = (ct_key st \<noteq> [])"

definition confirm_payload :: "string \<Rightarrow> string \<Rightarrow> string \<Rightarrow> string \<Rightarrow> string \<Rightarrow> string" where
  "confirm_payload nonce expires action device subject =
     join_with [CHR 0x00] [''navide/trust-confirm/v2'', nonce, expires, action, device, subject]"

definition confirm_mac :: "(string \<Rightarrow> string \<Rightarrow> string) \<Rightarrow> string \<Rightarrow> string \<Rightarrow> string \<Rightarrow> string \<Rightarrow> string \<Rightarrow> string \<Rightarrow> string" where
  "confirm_mac hmac key nonce expires action device subject = hmac key (confirm_payload nonce expires action device subject)"

definition forget_old :: "rat \<Rightarrow> (string \<times> rat) list \<Rightarrow> (string \<times> rat) list" where
  "forget_old now spent = foldl (\<lambda>acc (nonce, seen). if now - seen > NONCE_MEMORY_S then dpop nonce acc else acc) spent spent"

text \<open>\<open>str(token.get(k) or "")\<close>.\<close>

definition token_text :: "(jval \<Rightarrow> string) \<Rightarrow> jdict \<Rightarrow> string \<Rightarrow> string" where
  "token_text repr t k = (if truthy (jget t k) then py_str repr (jget t k) else [])"

definition ascii_text :: "string \<Rightarrow> bool" where
  "ascii_text s = list_all (\<lambda>c. (of_char c :: nat) < 128) s"

text \<open>
  \<open>check\<close>: \<open>None\<close> when the action may proceed. \<open>compare_digest\<close> raises \<open>TypeError\<close> for a text that is not ASCII; the
  exception is the value \<open>NotAscii\<close>.
\<close>

definition check ::
    "(string \<Rightarrow> string \<Rightarrow> string) \<Rightarrow> (rat \<Rightarrow> fvalue) \<Rightarrow> (jval \<Rightarrow> string) \<Rightarrow> rat \<Rightarrow> jval \<Rightarrow> string \<Rightarrow> string \<Rightarrow> string \<Rightarrow>
     confirm_state \<Rightarrow> confirm_refusal option \<times> confirm_state" where
  "check hmac rnd repr now token action device subject st =
     (if ct_key st = [] then (Some NoKey, st)
      else (case token of
              JDict t \<Rightarrow>
                (let nonce = token_text repr t ''nonce''; expires = token_text repr t ''expires''; mac = token_text repr t ''mac'' in
                 if nonce = [] \<or> expires = [] \<or> mac = [] then (Some Incomplete, st)
                 else if \<not> ascii_text mac then (Some NotAscii, st)
                 else if mac \<noteq> confirm_mac hmac (ct_key st) nonce expires action device subject then (Some WrongAction, st)
                 else (case parse_float rnd expires of
                         None \<Rightarrow> (Some NoExpiry, st)
                       | Some deadline \<Rightarrow>
                           (if later_than now deadline then (Some Expired, st)
                            else
                              (let spent = forget_old now (ct_spent st) in
                               if has_key nonce spent then (Some AlreadyUsed, st\<lparr>ct_spent := spent\<rparr>)
                               else (None, st\<lparr>ct_spent := dset nonce now spent\<rparr>)))))
            | _ \<Rightarrow> (Some NotAToken, st)))"


section \<open>Canonical documents\<close>

definition hex_digit :: "nat \<Rightarrow> char" where
  "hex_digit n = (if n < 10 then char_of (n + 48) else char_of (n + 87))"

definition json_char :: "char \<Rightarrow> string" where
  "json_char c =
     (let n = of_char c :: nat in
      if n = 34 then [CHR 0x5C, CHR 0x22]
      else if n = 92 then [CHR 0x5C, CHR 0x5C]
      else if n = 10 then [CHR 0x5C, CHR ''n'']
      else if n = 13 then [CHR 0x5C, CHR ''r'']
      else if n = 9 then [CHR 0x5C, CHR ''t'']
      else if n = 12 then [CHR 0x5C, CHR ''f'']
      else if n = 8 then [CHR 0x5C, CHR ''b'']
      else if 32 \<le> n \<and> n \<le> 126 then [c]
      else [CHR 0x5C, CHR ''u'', CHR ''0'', CHR ''0'', hex_digit (n div 16), hex_digit (n mod 16)])"

definition json_str :: "string \<Rightarrow> string" where
  "json_str s = [CHR 0x22] @ concat (map json_char s) @ [CHR 0x22]"

text \<open>\<open>json.dumps(value, sort_keys=True, separators=(",", ":"), ensure_ascii=True)\<close>; \<open>frepr\<close> is the text of a finite float.\<close>

fun canonical_json :: "(pyfloat \<Rightarrow> string) \<Rightarrow> jval \<Rightarrow> string" where
  "canonical_json frepr JNull = ''null''"
| "canonical_json frepr (JBool b) = (if b then ''true'' else ''false'')"
| "canonical_json frepr (JInt i) = int_str i"
| "canonical_json frepr (JFloat f) =
     (case f of FNan \<Rightarrow> ''NaN'' | FInf \<Rightarrow> ''Infinity'' | FNegInf \<Rightarrow> ''-Infinity'' | FFin m e \<Rightarrow> frepr f)"
| "canonical_json frepr (JStr s) = json_str s"
| "canonical_json frepr (JList vs) = [CHR 0x5B] @ join_with '','' (map (canonical_json frepr) vs) @ [CHR 0x5D]"
| "canonical_json frepr (JDict d) =
     [CHR 0x7B] @ join_with '','' (map (\<lambda>(k, t). json_str k @ '':'' @ t) (sort_key fst (map (\<lambda>(k, v). (k, canonical_json frepr v)) d))) @ [CHR 0x7D]"



section \<open>What an accepted token is bound to\<close>

lemma sep_cancel: "c \<notin> set a \<Longrightarrow> c \<notin> set b \<Longrightarrow> a @ c # r = b @ c # r' \<longleftrightarrow> a = b \<and> r = r'"
  by (auto simp: append_eq_append_conv2 Cons_eq_append_conv append_eq_Cons_conv)

lemma confirm_payload_inj:
  assumes "CHR 0x00 \<notin> set action \<union> set device \<union> set action' \<union> set device'"
    and "confirm_payload nonce expires action device subject = confirm_payload nonce expires action' device' subject'"
  shows "action = action' \<and> device = device' \<and> subject = subject'"
  using assms by (simp add: confirm_payload_def sep_cancel)

definition accepted_by ::
    "(string \<Rightarrow> string \<Rightarrow> string) \<Rightarrow> (rat \<Rightarrow> fvalue) \<Rightarrow> (jval \<Rightarrow> string) \<Rightarrow> rat \<Rightarrow> jdict \<Rightarrow> string \<Rightarrow> string \<Rightarrow> string \<Rightarrow>
     confirm_state \<Rightarrow> confirm_state \<Rightarrow> bool" where
  "accepted_by hmac rnd repr now t action device subject st st' \<longleftrightarrow> ct_key st \<noteq> [] \<and>
     token_text repr t ''mac'' =
       confirm_mac hmac (ct_key st) (token_text repr t ''nonce'') (token_text repr t ''expires'') action device subject \<and>
     (\<exists>deadline. parse_float rnd (token_text repr t ''expires'') = Some deadline \<and> \<not> later_than now deadline) \<and>
     \<not> has_key (token_text repr t ''nonce'') (forget_old now (ct_spent st)) \<and>
     st' = st\<lparr>ct_spent := dset (token_text repr t ''nonce'') now (forget_old now (ct_spent st))\<rparr>"

lemma check_accepts:
  "check hmac rnd repr now (JDict t) action device subject st = (None, st') \<Longrightarrow> accepted_by hmac rnd repr now t action device subject st st'"
  unfolding check_def accepted_by_def Let_def
  by (simp del: not_None_eq split: if_split_asm option.split_asm)

lemma accepted_token: "fst (check hmac rnd repr now token action device subject st) = None \<Longrightarrow> \<exists>t. token = JDict t"
  by (cases token) (auto simp: check_def split: if_splits)

lemma accepted_step:
  assumes "fst (check hmac rnd repr now token action device subject st) = None"
  obtains t st' where "token = JDict t" "check hmac rnd repr now token action device subject st = (None, st')"
    "accepted_by hmac rnd repr now t action device subject st st'"
proof -
  from accepted_token [OF assms] obtain t where t: "token = JDict t" by blast
  from assms obtain st' where c: "check hmac rnd repr now token action device subject st = (None, st')"
    by (cases "check hmac rnd repr now token action device subject st") auto
  show thesis by (rule that [OF t c check_accepts]) (use c t in simp)
qed



section \<open>A token is spent once\<close>

record confirm_request =
  cr_token :: jval
  cr_action :: string
  cr_device :: string
  cr_subject :: string
  cr_now :: rat

fun check_all ::
    "(string \<Rightarrow> string \<Rightarrow> string) \<Rightarrow> (rat \<Rightarrow> fvalue) \<Rightarrow> (jval \<Rightarrow> string) \<Rightarrow> confirm_state \<Rightarrow> confirm_request list \<Rightarrow> confirm_refusal option list" where
  "check_all hmac rnd repr st [] = []"
| "check_all hmac rnd repr st (r # rs) =
     (case check hmac rnd repr (cr_now r) (cr_token r) (cr_action r) (cr_device r) (cr_subject r) st of
        (answer, st') \<Rightarrow> answer # check_all hmac rnd repr st' rs)"

lemma foldl_dpop_if:
  "foldl (\<lambda>acc (k, v). if P v then dpop k acc else acc) acc xs = foldl (\<lambda>acc k. dpop k acc) acc (map fst (filter (\<lambda>(k, v). P v) xs))"
  by (induction xs arbitrary: acc) auto

lemma forget_old_lookup:
  assumes "distinct (keys spent)"
  shows "dget (forget_old now spent) n =
      (case dget spent n of Some seen \<Rightarrow> if now - seen > NONCE_MEMORY_S then None else Some seen | None \<Rightarrow> None)"
    and "distinct (keys (forget_old now spent))"
proof -
  let ?old = "set (map fst (filter (\<lambda>(n, seen). now - seen > NONCE_MEMORY_S) spent))"
  have f: "forget_old now spent = filter (\<lambda>e. fst e \<notin> ?old) spent"
    unfolding forget_old_def foldl_dpop_if foldl_dpop ..
  have "n \<in> ?old \<longleftrightarrow> (\<exists>seen. dget spent n = Some seen \<and> now - seen > NONCE_MEMORY_S)"
    using dget_iff_mem [OF assms] by force
  then show "dget (forget_old now spent) n =
      (case dget spent n of Some seen \<Rightarrow> if now - seen > NONCE_MEMORY_S then None else Some seen | None \<Rightarrow> None)"
    unfolding f dget_filter_key by (auto split: option.splits)
  show "distinct (keys (forget_old now spent))" unfolding f using assms by (rule distinct_keys_filter)
qed

text \<open>What stays true of the nonce of a token accepted at \<open>t\<close>, up to the time \<open>now\<close>.\<close>

definition remembers :: "string \<Rightarrow> rat \<Rightarrow> rat \<Rightarrow> confirm_state \<Rightarrow> bool" where
  "remembers n t now st \<longleftrightarrow> distinct (keys (ct_spent st)) \<and>
     ((\<exists>seen. dget (ct_spent st) n = Some seen \<and> t \<le> seen) \<or> t + NONCE_MEMORY_S < now)"

lemma remembers_forget:
  assumes "remembers n t now st" "now \<le> now'"
  shows "remembers n t now' (st\<lparr>ct_spent := forget_old now' (ct_spent st)\<rparr>)"
proof -
  have d: "distinct (keys (ct_spent st))" using assms(1) by (simp add: remembers_def)
  show ?thesis
    using assms forget_old_lookup [OF d, of now'] unfolding remembers_def by (auto split: option.splits)
qed

lemma remembers_later: "remembers n t now st \<Longrightarrow> now \<le> now' \<Longrightarrow> remembers n t now' st"
  unfolding remembers_def by force

lemma remembers_set:
  assumes "remembers n t now st" "t \<le> now"
  shows "remembers n t now (st\<lparr>ct_spent := dset m now (ct_spent st)\<rparr>)"
  using assms unfolding remembers_def by (auto simp: distinct_dset)

lemma check_remembers:
  assumes r: "remembers n t now st" and le: "now \<le> now'" "t \<le> now"
  shows "remembers n t now' (snd (check hmac rnd repr now' token action device subject st))"
proof -
  note f = remembers_forget [OF r le(1)]
  have s: "remembers n t now' (st\<lparr>ct_spent := dset m now' (forget_old now' (ct_spent st))\<rparr>)" for m
    using remembers_set [OF f, of m] le by simp
  show ?thesis
    unfolding check_def Let_def
    by (simp add: f s remembers_later [OF r le(1)] split: jval.split option.split)
qed

lemma remembered_refused:
  assumes r: "remembers (token_text repr tok ''nonce'') t now st" and le: "now \<le> now'"
    and dl: "\<And>d. parse_float rnd (token_text repr tok ''expires'') = Some d \<Longrightarrow> \<exists>q \<le> t + NONCE_MEMORY_S. d = VNum q"
  shows "fst (check hmac rnd repr now' (JDict tok) action device subject st) \<noteq> None"
proof
  assume "fst (check hmac rnd repr now' (JDict tok) action device subject st) = None"
  then obtain st' where a: "accepted_by hmac rnd repr now' tok action device subject st st'"
    by (rule accepted_step) simp
  then obtain d where "parse_float rnd (token_text repr tok ''expires'') = Some d" "\<not> later_than now' d"
    by (auto simp: accepted_by_def)
  with dl obtain q where "q \<le> t + NONCE_MEMORY_S" "now' \<le> q" by (auto simp: later_than_def)
  moreover have "t + NONCE_MEMORY_S < now'"
  proof -
    have "\<not> has_key (token_text repr tok ''nonce'') (forget_old now' (ct_spent st))" using a by (simp add: accepted_by_def)
    with remembers_forget [OF r le] show ?thesis by (auto simp: remembers_def dget_None_iff [symmetric])
  qed
  ultimately show False by simp
qed

lemma accepted_remembers:
  assumes "accepted_by hmac rnd repr now tok action device subject st st'" "distinct (keys (ct_spent st))"
  shows "remembers (token_text repr tok ''nonce'') now now st'"
  using assms forget_old_lookup(2) [of "ct_spent st" now] by (auto simp: accepted_by_def remembers_def distinct_dset)

lemma check_keeps_distinct:
  "distinct (keys (ct_spent st)) \<Longrightarrow> distinct (keys (ct_spent (snd (check hmac rnd repr now token action device subject st))))"
  unfolding check_def Let_def
  by (simp add: forget_old_lookup(2) distinct_dset split: jval.split option.split)

lemma remembered_run:
  assumes "remembers (token_text repr tok ''nonce'') t now st" "t \<le> now"
    and "\<And>d. parse_float rnd (token_text repr tok ''expires'') = Some d \<Longrightarrow> \<exists>q \<le> t + NONCE_MEMORY_S. d = VNum q"
    and "sorted (now # map cr_now rs)" "j < length rs" "cr_token (rs ! j) = JDict tok"
  shows "check_all hmac rnd repr st rs ! j \<noteq> None"
  using assms
proof (induction rs arbitrary: st now j)
  case (Cons r rs)
  let ?c = "check hmac rnd repr (cr_now r) (cr_token r) (cr_action r) (cr_device r) (cr_subject r) st"
  have le: "now \<le> cr_now r" using Cons.prems(4) by simp
  show ?case
  proof (cases j)
    case 0
    with Cons.prems(6) remembered_refused [OF Cons.prems(1) le Cons.prems(3)] show ?thesis
      by (simp add: case_prod_unfold)
  next
    case (Suc k)
    have "check_all hmac rnd repr (snd ?c) rs ! k \<noteq> None"
      using Cons.prems Suc le by (intro Cons.IH [where now = "cr_now r"] check_remembers [OF Cons.prems(1) le]) auto
    with Suc show ?thesis by (simp add: case_prod_unfold)
  qed
qed simp

text \<open>
  C28: a token is spent once. In any sequence of checks under a clock that does not go back, a token that was accepted and
  whose expiry lies within a minute of that moment is refused ever after, whatever action it is presented for.
\<close>

theorem token_spent_once:
  assumes "distinct (keys (ct_spent st))" "sorted (map cr_now rs)"
    and "i < j" "j < length rs" "cr_token (rs ! i) = JDict tok" "cr_token (rs ! j) = JDict tok"
    and "check_all hmac rnd repr st rs ! i = None"
    and "\<And>d. parse_float rnd (token_text repr tok ''expires'') = Some d \<Longrightarrow> \<exists>q \<le> cr_now (rs ! i) + NONCE_MEMORY_S. d = VNum q"
  shows "check_all hmac rnd repr st rs ! j \<noteq> None"
  using assms
proof (induction rs arbitrary: st i j)
  case (Cons r rs)
  let ?c = "check hmac rnd repr (cr_now r) (cr_token r) (cr_action r) (cr_device r) (cr_subject r) st"
  obtain k where j: "j = Suc k" using Cons.prems(3) by (cases j) auto
  have run: "check_all hmac rnd repr st (r # rs) ! Suc m = check_all hmac rnd repr (snd ?c) rs ! m" for m
    by (simp add: case_prod_unfold)
  show ?case
  proof (cases i)
    case 0
    with Cons.prems have tok: "cr_token r = JDict tok" "fst ?c = None" by (simp_all add: case_prod_unfold)
    from tok(2) obtain st' where "?c = (None, st')" "accepted_by hmac rnd repr (cr_now r) tok (cr_action r) (cr_device r) (cr_subject r) st st'"
      by (rule accepted_step) (use tok(1) in auto)
    with accepted_remembers Cons.prems(1) have "remembers (token_text repr tok ''nonce'') (cr_now r) (cr_now r) (snd ?c)" by fastforce
    from remembered_run [OF this order_refl] Cons.prems 0 j show ?thesis unfolding j run by auto
  next
    case (Suc m)
    show ?thesis
      unfolding j run
      by (rule Cons.IH [of _ m]) (use Cons.prems Suc j run check_keeps_distinct in auto)
  qed
qed simp

text \<open>without a key no action is ever confirmed.\<close>

theorem no_key_refuses: "ct_key st = [] \<Longrightarrow> check hmac rnd repr now token action device subject st = (Some NoKey, st)"
  by (simp add: check_def)


definition demo_hmac :: "string \<Rightarrow> string \<Rightarrow> string" where
  "demo_hmac key payload = payload"

definition demo_token :: jdict where
  "demo_token = [(''nonce'', JStr ''n1''), (''expires'', JStr ''130''),
     (''mac'', JStr (confirm_payload ''n1'' ''130'' ''approve'' ''dev'' []))]"

definition demo_state :: confirm_state where
  "demo_state = \<lparr>ct_key = ''k'', ct_spent = []\<rparr>"

definition demo_request :: "rat \<Rightarrow> confirm_request" where
  "demo_request now = \<lparr>cr_token = JDict demo_token, cr_action = ''approve'', cr_device = ''dev'', cr_subject = [], cr_now = now\<rparr>"

lemma demo_float: "parse_float VNum (token_text (\<lambda>_. []) demo_token ''expires'') = Some (VNum 130)"
  by code_simp


lemma token_spent_once_witness:
  "check_all demo_hmac VNum (\<lambda>_. []) demo_state [demo_request 100, demo_request 120] ! 1 \<noteq> None"
proof (rule token_spent_once [where i = 0 and tok = demo_token])
  show "check_all demo_hmac VNum (\<lambda>_. []) demo_state [demo_request 100, demo_request 120] ! 0 = None" by code_simp
qed (simp_all add: demo_state_def demo_request_def demo_float NONCE_MEMORY_S_def TOKEN_TTL_S_def)

lemma no_key_refuses_witness:
  "check demo_hmac VNum (\<lambda>_. []) 100 (JDict demo_token) ''approve'' ''dev'' [] \<lparr>ct_key = [], ct_spent = []\<rparr> =
     (Some NoKey, \<lparr>ct_key = [], ct_spent = []\<rparr>)"
  by (rule no_key_refuses) simp

text \<open>
  A confirmation whose text says \<open>nan\<close> has no expiry: the comparison with the clock is false, and the memory of spent nonces
  forgets it after a minute.
\<close>

lemma nan_never_expires: "parse_float rnd (token_text repr t ''expires'') = Some VNan \<Longrightarrow> \<not> later_than now VNan"
  by (simp add: later_than_def)


section \<open>Canonical text\<close>

definition printable :: "string \<Rightarrow> bool" where
  "printable s = list_all (\<lambda>c. 32 \<le> (of_char c :: nat) \<and> of_char c \<le> (126 :: nat)) s"

lemma printable_append [simp]: "printable (a @ b) \<longleftrightarrow> printable a \<and> printable b"
  by (simp add: printable_def)

lemma printable_join: "printable sep \<Longrightarrow> (\<And>w. w \<in> set ws \<Longrightarrow> printable w) \<Longrightarrow> printable (join_with sep ws)"
  by (induction sep ws rule: join_with.induct) (auto simp: printable_def)

lemma of_char_less: "(of_char c :: nat) < 256"
  by (cases c) (simp add: of_char_def)

lemma hex_digit_printable: "n < 16 \<Longrightarrow> 32 \<le> (of_char (hex_digit n) :: nat) \<and> of_char (hex_digit n) \<le> (126 :: nat)"
  by (simp add: hex_digit_def)

lemma json_char_printable: "printable (json_char c)"
proof -
  have "(of_char c :: nat) div 16 < 16" using of_char_less [of c] by (simp add: less_mult_imp_div_less)
  then have "printable [hex_digit (of_char c div 16)]" "printable [hex_digit (of_char c mod 16)]"
    using hex_digit_printable by (simp_all add: printable_def)
  then show ?thesis by (simp add: json_char_def printable_def Let_def)
qed

lemma json_str_printable [simp]: "printable (json_str s)"
proof -
  have "printable (concat (map json_char s))" by (induction s) (simp_all add: json_char_printable, simp add: printable_def)
  then show ?thesis by (simp add: json_str_def) (simp add: printable_def)
qed

lemma int_digits_printable: "0 \<le> i \<Longrightarrow> printable (int_digits i)"
proof (induction i rule: int_digits.induct)
  case (1 i)
  have "0 \<le> k \<Longrightarrow> k < 10 \<Longrightarrow> printable [char_of (k + 48 :: int)]" for k
  proof -
    assume k: "0 \<le> k" "k < 10"
    then have "(of_char (char_of (k + 48) :: char) :: int) = k + 48" by (simp only: of_char_of) simp
    then have "int (of_char (char_of (k + 48) :: char)) = k + 48" by (metis of_nat_of_char)
    with k show "printable [char_of (k + 48)]" by (simp add: printable_def)
  qed
  with 1 show ?case by (subst int_digits.simps) (simp add: pos_imp_zdiv_nonneg_iff)
qed

text \<open>canonical text is printable ASCII, so it never contains the separator of the signed payload.\<close>

theorem canonical_json_printable:
  assumes "\<And>f. printable (frepr f)"
  shows "printable (canonical_json frepr v)"
  using assms
proof (induction frepr v rule: canonical_json.induct)
  case (3 frepr i)
  have "printable [CHR ''-'']" by (simp add: printable_def)
  then show ?case
    using int_digits_printable [of i] int_digits_printable [of "- i"] by (auto simp: int_str_def printable_def)
next
  case (4 frepr f)
  then show ?case by (cases f) (simp_all add: printable_def)
next
  case (6 frepr vs)
  have "printable (join_with '','' (map (canonical_json frepr) vs))"
    using 6 by (intro printable_join) (auto, simp add: printable_def)
  then show ?case by (simp add: printable_def)
next
  case (7 frepr d)
  have "printable (join_with '','' (map (\<lambda>(k, t). json_str k @ '':'' @ t) (sort_key fst (map (\<lambda>(k, v). (k, canonical_json frepr v)) d))))"
    using 7 by (intro printable_join) (auto, simp_all add: printable_def)
  then show ?case by (simp add: printable_def)
qed (simp_all, simp_all add: printable_def)

text \<open>two objects with the same entries in another order have the same canonical text.\<close>

theorem canonical_json_order:
  assumes "distinct (keys d)" "mset d = mset d'"
  shows "canonical_json frepr (JDict d) = canonical_json frepr (JDict d')"
proof -
  let ?f = "map (\<lambda>(k, v). (k, canonical_json frepr v))"
  have k: "map fst (?f d) = keys d" by (induction d) auto
  have "inj_on fst (set (?f d))" using assms(1) unfolding k [symmetric] by (rule distinct_map [THEN iffD1, THEN conjunct2])
  moreover have "mset (?f d) = mset (sort_key fst (?f d'))" using assms(2) by simp
  ultimately have "sort_key fst (?f d) = sort_key fst (?f d')" by (intro sort_key_inj_key_eq) simp_all
  then show ?thesis by simp
qed

lemma canonical_json_order_witness:
  "canonical_json (\<lambda>_. []) (JDict [(''b'', JInt 1), (''a'', JNull)]) = canonical_json (\<lambda>_. []) (JDict [(''a'', JNull), (''b'', JInt 1)])"
  by (rule canonical_json_order) simp_all

lemma canonical_json_printable_witness: "printable (canonical_json (\<lambda>_. []) (JStr [CHR 0x00]))"
  by (rule canonical_json_printable) (simp add: printable_def)

end
