(* ===== verification/Account_History.thy ===== *)
theory Account_History
  imports Py_Prelude
begin

text \<open>
  \<open>backend/agent_team_backend/pane_account_history.py\<close>: which account a pane was pinned to, and when. The two tables of the database
  and the mirror in memory are one record; the clock is an argument of each write. Moments are rational numbers of
  seconds, ids of panes and sessions are texts.
\<close>

section \<open>State\<close>

definition UNKNOWN_PROFILE_ID :: string where "UNKNOWN_PROFILE_ID = ''unknown''"
definition PIN_LEAD_TOLERANCE_S :: rat where "PIN_LEAD_TOLERANCE_S = 15"

text \<open>\<open>str(profile_id or "").strip() or "unknown"\<close> for a profile that is a text or None (the empty text).\<close>

definition normalize_profile_id :: "string \<Rightarrow> string" where
  "normalize_profile_id p = str_or (py_strip p) UNKNOWN_PROFILE_ID"

record interval =
  iv_row :: int
  iv_profile :: string
  iv_since :: rat
  iv_until :: "rat option"

record history_row =
  hr_id :: int
  hr_pane :: string
  hr_profile :: string
  hr_since :: rat
  hr_until :: "rat option"

record history =
  ph_rows :: "history_row list"
  ph_next_id :: int
  ph_bindings :: "(string \<times> string) list"
  ph_by_pane :: "(string \<times> interval list) list"
  ph_sessions :: "(string \<times> string list) list"

definition intervals_of :: "history \<Rightarrow> string \<Rightarrow> interval list" where
  "intervals_of st pane = (case dget (ph_by_pane st) pane of Some ivs \<Rightarrow> ivs | None \<Rightarrow> [])"


section \<open>Loading\<close>

text \<open>\<open>ORDER BY pane_id, since, id\<close>, and the grouping by pane.\<close>

definition row_key :: "history_row \<Rightarrow> string \<times> rat \<times> int" where
  "row_key r = (hr_pane r, hr_since r, hr_id r)"

definition row_interval :: "history_row \<Rightarrow> interval" where
  "row_interval r = \<lparr>iv_row = hr_id r, iv_profile = hr_profile r, iv_since = hr_since r, iv_until = hr_until r\<rparr>"

definition append_to :: "'k \<Rightarrow> 'v \<Rightarrow> ('k \<times> 'v list) list \<Rightarrow> ('k \<times> 'v list) list" where
  "append_to k v d = dset k ((case dget d k of Some vs \<Rightarrow> vs | None \<Rightarrow> []) @ [v]) d"

definition add_member :: "'k \<Rightarrow> 'v \<Rightarrow> ('k \<times> 'v list) list \<Rightarrow> ('k \<times> 'v list) list" where
  "add_member k v d = (case dget d k of Some vs \<Rightarrow> if v \<in> set vs then d else dset k (vs @ [v]) d | None \<Rightarrow> dset k [v] d)"

definition load_history :: "history \<Rightarrow> history" where
  "load_history st = st\<lparr>
     ph_by_pane := foldl (\<lambda>d r. append_to (hr_pane r) (row_interval r) d) [] (sort_key row_key (ph_rows st)),
     ph_sessions := foldl (\<lambda>d (s, p). add_member s p d) [] (ph_bindings st)\<rparr>"


section \<open>Writes\<close>

definition close_interval :: "string \<Rightarrow> rat \<Rightarrow> history \<Rightarrow> history" where
  "close_interval pane now st =
     (let ivs = intervals_of st pane; iv = last ivs; until = max now (iv_since iv) in
      st\<lparr>ph_rows := map (\<lambda>r. if hr_id r = iv_row iv then r\<lparr>hr_until := Some until\<rparr> else r) (ph_rows st),
         ph_by_pane := dset pane (butlast ivs @ [iv\<lparr>iv_until := Some until\<rparr>]) (ph_by_pane st)\<rparr>)"

definition open_interval :: "history \<Rightarrow> string \<Rightarrow> interval option" where
  "open_interval st pane =
     (let ivs = intervals_of st pane in if ivs \<noteq> [] \<and> iv_until (last ivs) = None then Some (last ivs) else None)"

definition start_interval :: "string \<Rightarrow> string \<Rightarrow> rat \<Rightarrow> history \<Rightarrow> history" where
  "start_interval pane profile now st =
     st\<lparr>ph_rows := ph_rows st @ [\<lparr>hr_id = ph_next_id st, hr_pane = pane, hr_profile = profile, hr_since = now, hr_until = None\<rparr>],
        ph_next_id := ph_next_id st + 1,
        ph_by_pane := append_to pane \<lparr>iv_row = ph_next_id st, iv_profile = profile, iv_since = now, iv_until = None\<rparr> (ph_by_pane st)\<rparr>"

text \<open>\<open>self._by_pane.setdefault(pane_id, [])\<close>.\<close>

definition touch_pane :: "string \<Rightarrow> history \<Rightarrow> history" where
  "touch_pane pane st = (if has_key pane (ph_by_pane st) then st else st\<lparr>ph_by_pane := dset pane [] (ph_by_pane st)\<rparr>)"

definition pin_pane :: "string \<Rightarrow> string \<Rightarrow> rat \<Rightarrow> history \<Rightarrow> bool \<times> history" where
  "pin_pane pane profile_id now st =
     (if pane = [] then (False, st)
      else
        (let profile = normalize_profile_id profile_id;
             st1 = touch_pane pane st
         in case open_interval st1 pane of
              Some iv \<Rightarrow>
                (if iv_profile iv = profile then (False, st1)
                 else (True, start_interval pane profile now (close_interval pane now st1)))
            | None \<Rightarrow> (True, start_interval pane profile now st1)))"

definition release_pane :: "string \<Rightarrow> rat \<Rightarrow> history \<Rightarrow> bool \<times> history" where
  "release_pane pane now st =
     (if pane = [] then (False, st)
      else if open_interval st pane = None then (False, st)
      else (True, close_interval pane now st))"

definition bind_session :: "string \<Rightarrow> string \<Rightarrow> history \<Rightarrow> history" where
  "bind_session session pane st =
     (if session = [] \<or> pane = [] then st
      else
        (let panes = (case dget (ph_sessions st) session of Some ps \<Rightarrow> ps | None \<Rightarrow> []) in
         if pane \<in> set panes then st
         else st\<lparr>ph_bindings := (if (session, pane) \<in> set (ph_bindings st) then ph_bindings st else ph_bindings st @ [(session, pane)]),
                 ph_sessions := dset session (panes @ [pane]) (ph_sessions st)\<rparr>))"


section \<open>Reads\<close>

text \<open>\<open>bisect.bisect_right\<close>: the binary search of the standard library.\<close>

function bisect_loop :: "rat list \<Rightarrow> rat \<Rightarrow> nat \<Rightarrow> nat \<Rightarrow> nat" where
  "bisect_loop xs x lo hi =
     (if lo < hi then (let mid = (lo + hi) div 2 in if x < xs ! mid then bisect_loop xs x lo mid else bisect_loop xs x (mid + 1) hi)
      else lo)"
  by pat_completeness auto
termination by (relation "measure (\<lambda>(xs, x, lo, hi). hi - lo)") auto

declare bisect_loop.simps [simp del]

definition bisect_right :: "rat list \<Rightarrow> rat \<Rightarrow> nat" where
  "bisect_right xs x = bisect_loop xs x 0 (length xs)"

definition covering :: "interval list \<Rightarrow> rat \<Rightarrow> interval option" where
  "covering ivs when =
     (if ivs = [] then None
      else
        (let n = bisect_right (map iv_since ivs) when in
         if 0 < n then
           (let iv = ivs ! (n - 1) in
            case iv_until iv of None \<Rightarrow> Some iv | Some u \<Rightarrow> if when < u then Some iv else None)
         else if iv_since (hd ivs) - PIN_LEAD_TOLERANCE_S \<le> when then Some (hd ivs)
         else None))"

definition profile_at :: "history \<Rightarrow> string \<Rightarrow> rat option \<Rightarrow> string" where
  "profile_at st pane ts =
     (if pane = [] then UNKNOWN_PROFILE_ID
      else
        (let ivs = intervals_of st pane in
         if ivs = [] then UNKNOWN_PROFILE_ID
         else
           (case ts of
              None \<Rightarrow> if iv_until (last ivs) = None then iv_profile (last ivs) else UNKNOWN_PROFILE_ID
            | Some t \<Rightarrow> (case covering ivs t of Some iv \<Rightarrow> iv_profile iv | None \<Rightarrow> UNKNOWN_PROFILE_ID))))"

definition current_profile :: "history \<Rightarrow> string \<Rightarrow> string" where
  "current_profile st pane = profile_at st pane None"

text \<open>The loop over the panes of a session; a Python set is visited in the order the list gives.\<close>

definition better :: "interval option \<Rightarrow> interval option \<Rightarrow> interval option" where
  "better best iv =
     (case iv of
        None \<Rightarrow> best
      | Some i \<Rightarrow> (case best of None \<Rightarrow> Some i | Some b \<Rightarrow> if iv_since b < iv_since i then Some i else Some b))"

definition profile_for_panes :: "history \<Rightarrow> string list \<Rightarrow> rat \<Rightarrow> string" where
  "profile_for_panes st panes t =
     (case foldl (\<lambda>best p. better best (covering (intervals_of st p) t)) None panes of
        Some iv \<Rightarrow> iv_profile iv | None \<Rightarrow> UNKNOWN_PROFILE_ID)"

definition session_panes :: "history \<Rightarrow> string \<Rightarrow> string \<Rightarrow> string list" where
  "session_panes st session pane =
     (let ps = (case dget (ph_sessions st) session of Some ps \<Rightarrow> ps | None \<Rightarrow> []) in
      if pane = [] \<or> pane \<in> set ps then ps else ps @ [pane])"

definition profile_for_session :: "history \<Rightarrow> string \<Rightarrow> string \<Rightarrow> rat option \<Rightarrow> string" where
  "profile_for_session st session pane ts =
     (case ts of None \<Rightarrow> profile_at st pane None | Some t \<Rightarrow> profile_for_panes st (session_panes st session pane) t)"



section \<open>The search\<close>

lemma bisect_loop_spec:
  assumes "sorted xs" "hi \<le> length xs" "\<forall>i < lo. xs ! i \<le> x" "\<forall>i < length xs. hi \<le> i \<longrightarrow> x < xs ! i" "lo \<le> hi"
  shows "(\<forall>i < bisect_loop xs x lo hi. xs ! i \<le> x) \<and> (\<forall>i < length xs. bisect_loop xs x lo hi \<le> i \<longrightarrow> x < xs ! i) \<and>
    bisect_loop xs x lo hi \<le> length xs"
  using assms
proof (induction xs x lo hi rule: bisect_loop.induct)
  case (1 xs x lo hi)
  show ?case
  proof (cases "lo < hi")
    case False
    then have lo: "bisect_loop xs x lo hi = lo" by (subst bisect_loop.simps) simp
    have "lo = hi" using False 1(7) by simp
    with lo show ?thesis using 1(4,5,6) by simp
  next
    case True
    let ?mid = "(lo + hi) div 2"
    have mid: "lo \<le> ?mid" "?mid < hi" using True by auto
    show ?thesis
    proof (cases "x < xs ! ?mid")
      case less: True
      have "\<forall>i < length xs. ?mid \<le> i \<longrightarrow> x < xs ! i"
        using less 1(3) by (meson less_le_trans sorted_nth_mono)
      moreover have "bisect_loop xs x lo hi = bisect_loop xs x lo ?mid" using True less by (subst bisect_loop.simps) (simp add: Let_def)
      ultimately show ?thesis
        using 1(1) [OF True refl less 1(3) _ 1(5) _ mid(1)] order.strict_implies_order [OF mid(2)] order_trans [OF _ 1(4)] by metis
    next
      case ge: False
      have "\<forall>i < ?mid + 1. xs ! i \<le> x"
      proof (intro allI impI)
        fix i assume "i < ?mid + 1"
        then have "xs ! i \<le> xs ! ?mid" using mid 1(3,4) by (intro sorted_nth_mono) auto
        with ge show "xs ! i \<le> x" by simp
      qed
      moreover have "bisect_loop xs x lo hi = bisect_loop xs x (?mid + 1) hi" using True ge by (subst bisect_loop.simps) (simp add: Let_def)
      ultimately show ?thesis using 1(2) [OF True refl ge 1(3,4) _ 1(6)] mid(2) by (metis Suc_eq_plus1 Suc_leI)
    qed
  qed
qed

lemma sorted_filter_le:
  "sorted xs \<Longrightarrow> n \<le> length xs \<Longrightarrow> \<forall>i < n. xs ! i \<le> x \<Longrightarrow> \<forall>i < length xs. n \<le> i \<longrightarrow> x < xs ! i \<Longrightarrow>
   length (filter (\<lambda>y. y \<le> x) xs) = n" for x :: rat
proof (induction xs arbitrary: n)
  case (Cons a xs)
  show ?case
  proof (cases n)
    case 0
    then have "\<forall>y \<in> set (a # xs). \<not> y \<le> x" using Cons.prems(4) by (metis in_set_conv_nth le0 not_le)
    with 0 show ?thesis by (simp add: filter_empty_conv)
  next
    case (Suc m)
    have a: "a \<le> x" using Cons.prems(3) Suc by force
    have "length (filter (\<lambda>y. y \<le> x) xs) = m"
    proof (rule Cons.IH)
      show "\<forall>i < m. xs ! i \<le> x" using Cons.prems(3) Suc by force
      show "\<forall>i < length xs. m \<le> i \<longrightarrow> x < xs ! i" using Cons.prems(4) Suc by force
    qed (use Cons.prems Suc in auto)
    with a Suc show ?thesis by simp
  qed
qed simp

lemma bisect_right_count:
  assumes "sorted xs"
  shows "bisect_right xs x = length (filter (\<lambda>y. y \<le> x) xs)"
proof -
  have "(\<forall>i < bisect_right xs x. xs ! i \<le> x) \<and> (\<forall>i < length xs. bisect_right xs x \<le> i \<longrightarrow> x < xs ! i) \<and> bisect_right xs x \<le> length xs"
    unfolding bisect_right_def by (rule bisect_loop_spec [OF assms]) simp_all
  then show ?thesis using sorted_filter_le [OF assms, of "bisect_right xs x" x] by presburger
qed

text \<open>The interval a moment falls in, said with the intervals that start no later.\<close>

definition live_at :: "rat \<Rightarrow> interval \<Rightarrow> interval option" where
  "live_at t iv = (case iv_until iv of None \<Rightarrow> Some iv | Some u \<Rightarrow> if t < u then Some iv else None)"

definition started_by :: "rat \<Rightarrow> interval list \<Rightarrow> interval list" where
  "started_by t ivs = filter (\<lambda>iv. iv_since iv \<le> t) ivs"

lemma started_by_take:
  "sorted (map iv_since ivs) \<Longrightarrow> started_by t ivs = take (length (started_by t ivs)) ivs"
proof (induction ivs)
  case (Cons a ivs)
  show ?case
  proof (cases "iv_since a \<le> t")
    case False
    then have "started_by t (a # ivs) = []" using Cons.prems by (auto simp: started_by_def filter_empty_conv)
    then show ?thesis by simp
  qed (use Cons in \<open>auto simp: started_by_def\<close>)
qed (simp add: started_by_def)

lemma covering_started:
  assumes "sorted (map iv_since ivs)"
  shows "covering ivs t =
    (if started_by t ivs \<noteq> [] then live_at t (last (started_by t ivs))
     else if ivs \<noteq> [] \<and> iv_since (hd ivs) - PIN_LEAD_TOLERANCE_S \<le> t then Some (hd ivs) else None)"
proof -
  let ?n = "length (started_by t ivs)"
  have n: "bisect_right (map iv_since ivs) t = ?n"
    using assms by (simp add: bisect_right_count started_by_def filter_map o_def)
  have "last (started_by t ivs) = ivs ! (?n - 1)" if "started_by t ivs \<noteq> []"
    using that started_by_take [OF assms, of t] by (metis last_conv_nth length_greater_0_conv diff_less less_numeral_extra(1) nth_take)
  then show ?thesis
    unfolding covering_def n Let_def by (auto simp: live_at_def started_by_def split: option.splits)
qed


section \<open>Runs\<close>

text \<open>
  The writes a backend makes over its life. \<open>at_or_after\<close> is the clock the refinement needs: the moments of the
  writes do not go back. Nothing in the code enforces it: each write reads the wall clock.
\<close>

datatype history_op = Pin string string rat | Release string rat | Bind string string | Restart

fun op_time :: "history_op \<Rightarrow> rat option" where
  "op_time (Pin _ _ t) = Some t"
| "op_time (Release _ t) = Some t"
| "op_time _ = None"

fun history_step :: "history \<Rightarrow> history_op \<Rightarrow> history" where
  "history_step st (Pin pane profile t) = snd (pin_pane pane profile t st)"
| "history_step st (Release pane t) = snd (release_pane pane t st)"
| "history_step st (Bind session pane) = bind_session session pane st"
| "history_step st Restart = load_history st"

fun clock_ok :: "rat \<Rightarrow> history_op list \<Rightarrow> bool" where
  "clock_ok c [] = True"
| "clock_ok c (op # ops) = (case op_time op of None \<Rightarrow> clock_ok c ops | Some t \<Rightarrow> c \<le> t \<and> clock_ok t ops)"

fun last_time :: "rat \<Rightarrow> history_op list \<Rightarrow> rat" where
  "last_time c [] = c"
| "last_time c (op # ops) = last_time (case op_time op of None \<Rightarrow> c | Some t \<Rightarrow> t) ops"

definition fresh_history :: history where
  "fresh_history = \<lparr>ph_rows = [], ph_next_id = 1, ph_bindings = [], ph_by_pane = [], ph_sessions = []\<rparr>"

definition history_after :: "history_op list \<Rightarrow> history" where
  "history_after ops = run_ops history_step fresh_history ops"

lemma clock_ok_snoc: "clock_ok c (ops @ [op]) \<longleftrightarrow> clock_ok c ops \<and> (\<forall>t. op_time op = Some t \<longrightarrow> last_time c ops \<le> t)"
  by (induction ops arbitrary: c) (auto split: option.splits)

lemma last_time_snoc: "last_time c (ops @ [op]) = (case op_time op of None \<Rightarrow> last_time c ops | Some t \<Rightarrow> t)"
  by (induction ops arbitrary: c) (auto split: option.splits)

text \<open>
  The specification: the log of a pane's events, each with the account it put the pane on (none: released). The
  account at a moment is that of the last event no later; a moment up to the tolerance before the first pin counts for it.
\<close>

fun pane_event :: "string \<Rightarrow> history_op \<Rightarrow> (rat \<times> string option) option" where
  "pane_event pane (Pin p profile t) = (if p = pane then Some (t, Some (normalize_profile_id profile)) else None)"
| "pane_event pane (Release p t) = (if p = pane then Some (t, None) else None)"
| "pane_event pane _ = None"

definition pane_log :: "string \<Rightarrow> history_op list \<Rightarrow> (rat \<times> string option) list" where
  "pane_log pane ops = dropWhile (\<lambda>e. snd e = None) (List.map_filter (pane_event pane) ops)"

definition log_at :: "(rat \<times> string option) list \<Rightarrow> rat \<Rightarrow> string option" where
  "log_at es t =
     (let before = filter (\<lambda>e. fst e \<le> t) es in
      if before \<noteq> [] then snd (last before)
      else if es \<noteq> [] \<and> fst (hd es) - PIN_LEAD_TOLERANCE_S \<le> t then snd (hd es) else None)"

definition or_unknown :: "string option \<Rightarrow> string" where
  "or_unknown p = (case p of None \<Rightarrow> UNKNOWN_PROFILE_ID | Some s \<Rightarrow> s)"


section \<open>One write on the intervals of a pane\<close>

fun put_event :: "int \<Rightarrow> interval list \<Rightarrow> rat \<times> string option \<Rightarrow> interval list" where
  "put_event row ivs (now, Some profile) =
     (if ivs \<noteq> [] \<and> iv_until (last ivs) = None
      then (if iv_profile (last ivs) = profile then ivs
            else butlast ivs @ [(last ivs)\<lparr>iv_until := Some (max now (iv_since (last ivs)))\<rparr>,
                                \<lparr>iv_row = row, iv_profile = profile, iv_since = now, iv_until = None\<rparr>])
      else ivs @ [\<lparr>iv_row = row, iv_profile = profile, iv_since = now, iv_until = None\<rparr>])"
| "put_event row ivs (now, None) =
     (if ivs \<noteq> [] \<and> iv_until (last ivs) = None
      then butlast ivs @ [(last ivs)\<lparr>iv_until := Some (max now (iv_since (last ivs)))\<rparr>] else ivs)"

lemma intervals_of_dset [simp]:
  "intervals_of (st\<lparr>ph_by_pane := dset p ivs d\<rparr>) q = (if q = p then ivs else intervals_of (st\<lparr>ph_by_pane := d\<rparr>) q)"
  by (simp add: intervals_of_def)

lemma intervals_of_bind [simp]: "intervals_of (bind_session s p st) q = intervals_of st q"
  by (simp add: bind_session_def Let_def intervals_of_def)

lemma intervals_of_close:
  "intervals_of (close_interval pane now st) q =
    (if q = pane then butlast (intervals_of st pane) @ [(last (intervals_of st pane))\<lparr>iv_until := Some (max now (iv_since (last (intervals_of st pane))))\<rparr>]
     else intervals_of st q)"
  by (simp add: close_interval_def Let_def intervals_of_def)

lemma intervals_of_start:
  "intervals_of (start_interval pane profile now st) q =
    (if q = pane then intervals_of st pane @ [\<lparr>iv_row = ph_next_id st, iv_profile = profile, iv_since = now, iv_until = None\<rparr>]
     else intervals_of st q)"
  by (simp add: start_interval_def append_to_def intervals_of_def)

lemma intervals_of_touch [simp]:
  "intervals_of (touch_pane p st) q = intervals_of st q"
  by (auto simp: touch_pane_def intervals_of_def dget_None_iff [symmetric])

lemma next_id_close [simp]: "ph_next_id (close_interval pane now st) = ph_next_id st"
  by (simp add: close_interval_def Let_def)

lemma next_id_touch [simp]:
  "ph_next_id (touch_pane p st) = ph_next_id st"
  by (simp add: touch_pane_def)

lemma rows_touch [simp]: "ph_rows (touch_pane p st) = ph_rows st"
  by (simp add: touch_pane_def)

lemma open_touch [simp]: "open_interval (touch_pane p st) q = open_interval st q"
  by (simp add: open_interval_def)

lemma intervals_of_pin:
  assumes "pane \<noteq> []"
  shows "intervals_of (snd (pin_pane pane profile now st)) q =
    (if q = pane then put_event (ph_next_id st) (intervals_of st pane) (now, Some (normalize_profile_id profile))
     else intervals_of st q)"
  using assms unfolding pin_pane_def Let_def open_interval_def
  by (auto simp: intervals_of_start intervals_of_close split: option.splits)

lemma intervals_of_release:
  assumes "pane \<noteq> []"
  shows "intervals_of (snd (release_pane pane now st)) q =
    (if q = pane then put_event row (intervals_of st pane) (now, None) else intervals_of st q)"
  using assms unfolding release_pane_def Let_def open_interval_def
  by (auto simp: intervals_of_close)


section \<open>The table and its mirror\<close>

definition mirrored :: "history \<Rightarrow> bool" where
  "mirrored st \<longleftrightarrow> (\<forall>pane. intervals_of st pane = map row_interval (filter (\<lambda>r. hr_pane r = pane) (ph_rows st)))"

definition rows_ordered :: "rat \<Rightarrow> history \<Rightarrow> bool" where
  "rows_ordered c st \<longleftrightarrow> sorted (map hr_since (ph_rows st)) \<and> sorted_wrt (<) (map hr_id (ph_rows st)) \<and>
     (\<forall>r \<in> set (ph_rows st). hr_since r \<le> c \<and> hr_id r < ph_next_id st)"

lemma fold_append_to:
  "(case dget (foldl (\<lambda>d r. append_to (f r) (g r) d) d rs) p of Some vs \<Rightarrow> vs | None \<Rightarrow> []) =
   (case dget d p of Some vs \<Rightarrow> vs | None \<Rightarrow> []) @ map g (filter (\<lambda>r. f r = p) rs)"
  by (induction rs arbitrary: d) (auto simp: append_to_def)

lemma sorted_row_key:
  assumes "rows_ordered c st"
  shows "sorted (map row_key (filter (\<lambda>r. hr_pane r = pane) (ph_rows st)))"
proof -
  have "sorted_wrt (\<lambda>a b. hr_since a \<le> hr_since b \<and> hr_id a < hr_id b) (ph_rows st)"
    using assms by (auto simp: rows_ordered_def sorted_wrt_map sorted_wrt_iff_nth_less)
  then have "sorted_wrt (\<lambda>a b. hr_since a \<le> hr_since b \<and> hr_id a < hr_id b) (filter (\<lambda>r. hr_pane r = pane) (ph_rows st))"
    by (rule sorted_wrt_filter)
  then show ?thesis unfolding sorted_map
    by (rule sorted_wrt_mono_rel [rotated]) (auto simp: row_key_def less_eq_prod_def)
qed

lemma intervals_of_load:
  assumes "rows_ordered c st"
  shows "intervals_of (load_history st) pane = map row_interval (filter (\<lambda>r. hr_pane r = pane) (ph_rows st))"
proof -
  have "filter (\<lambda>r. hr_pane r = pane) (sort_key row_key (ph_rows st)) = filter (\<lambda>r. hr_pane r = pane) (ph_rows st)"
    using sort_key_id_if_sorted [OF sorted_row_key [OF assms]] by (simp only: filter_sort)
  then show ?thesis by (simp add: load_history_def intervals_of_def fold_append_to)
qed

lemma mirrored_start: "mirrored st \<Longrightarrow> mirrored (start_interval pane profile now st)"
  unfolding mirrored_def intervals_of_start by (auto simp: start_interval_def row_interval_def)

lemma distinct_ids: "rows_ordered c st \<Longrightarrow> distinct (map hr_id (ph_rows st))"
  by (auto simp: rows_ordered_def strict_sorted_iff)

lemma map_update_last:
  assumes "distinct (map hr_id xs)" "xs \<noteq> []"
  shows "map (\<lambda>r. if hr_id r = hr_id (last xs) then f r else r) xs = butlast xs @ [f (last xs)]"
proof -
  obtain ys y where xs: "xs = ys @ [y]" using assms(2) by (cases xs rule: rev_cases) auto
  have "map (\<lambda>r. if hr_id r = hr_id y then f r else r) ys = ys"
    using assms(1) unfolding xs by (intro map_idI) (auto simp: rev_image_eqI)
  then show ?thesis using xs by simp
qed

lemma mirrored_close:
  assumes "mirrored st" "rows_ordered c st" "intervals_of st pane \<noteq> []"
  shows "mirrored (close_interval pane now st)"
proof -
  let ?rs = "filter (\<lambda>r. hr_pane r = pane) (ph_rows st)"
  let ?l = "last ?rs"
  have iv: "intervals_of st pane = map row_interval ?rs" using assms(1) by (simp add: mirrored_def)
  then have ne: "?rs \<noteq> []" using assms(3) by auto
  then have l: "?l \<in> set (ph_rows st)" "hr_pane ?l = pane" using last_in_set [OF ne] by auto
  have last: "last (intervals_of st pane) = row_interval ?l" using ne iv by (simp add: last_map)
  let ?u = "\<lambda>r. if hr_id r = hr_id ?l then r\<lparr>hr_until := Some (max now (hr_since ?l))\<rparr> else r"
  have rows: "ph_rows (close_interval pane now st) = map ?u (ph_rows st)"
    unfolding close_interval_def Let_def last by (simp add: row_interval_def)
  have pane_u: "hr_pane (?u r) = hr_pane r" for r by simp
  have filt: "filter (\<lambda>r. hr_pane r = q) (map ?u (ph_rows st)) = map ?u (filter (\<lambda>r. hr_pane r = q) (ph_rows st))" for q
    unfolding filter_map o_def pane_u ..
  show ?thesis unfolding mirrored_def
  proof
    fix q
    show "intervals_of (close_interval pane now st) q = map row_interval (filter (\<lambda>r. hr_pane r = q) (ph_rows (close_interval pane now st)))"
    proof (cases "q = pane")
      case True
      have "distinct (map hr_id ?rs)" using distinct_ids [OF assms(2)] by (rule distinct_map_filter)
      then have "map ?u ?rs = butlast ?rs @ [?l\<lparr>hr_until := Some (max now (hr_since ?l))\<rparr>]" using ne by (rule map_update_last)
      then show ?thesis unfolding rows filt intervals_of_close True iv
        using last iv by (simp add: map_butlast row_interval_def)
    next
      case False
      have "?u r = r" if "r \<in> set (filter (\<lambda>r. hr_pane r = q) (ph_rows st))" for r
        using that l False distinct_ids [OF assms(2)] by (auto simp: distinct_map inj_on_def)
      then have "map ?u (filter (\<lambda>r. hr_pane r = q) (ph_rows st)) = filter (\<lambda>r. hr_pane r = q) (ph_rows st)" by (rule map_idI)
      then show ?thesis unfolding rows filt intervals_of_close using False assms(1) by (simp add: mirrored_def)
    qed
  qed
qed

lemma ordered_close: "rows_ordered c st \<Longrightarrow> rows_ordered c (close_interval pane now st)"
  unfolding rows_ordered_def close_interval_def Let_def by (auto simp: o_def if_distrib cong: if_cong)

lemma ordered_start: "rows_ordered c st \<Longrightarrow> c \<le> now \<Longrightarrow> rows_ordered now (start_interval pane profile now st)"
  unfolding rows_ordered_def start_interval_def by (force simp: sorted_append sorted_wrt_append)

lemma ordered_mono: "rows_ordered c st \<Longrightarrow> c \<le> d \<Longrightarrow> rows_ordered d st"
  unfolding rows_ordered_def by force

definition history_ok :: "rat \<Rightarrow> history \<Rightarrow> bool" where
  "history_ok c st \<longleftrightarrow> mirrored st \<and> rows_ordered c st"

lemma history_ok_touch: "history_ok c (touch_pane p st) = history_ok c st"
  by (simp add: history_ok_def mirrored_def rows_ordered_def)

lemma history_ok_close: "history_ok c st \<Longrightarrow> intervals_of st pane \<noteq> [] \<Longrightarrow> history_ok c (close_interval pane now st)"
  unfolding history_ok_def using mirrored_close ordered_close by blast

lemma history_ok_start: "history_ok c st \<Longrightarrow> c \<le> now \<Longrightarrow> history_ok now (start_interval pane profile now st)"
  unfolding history_ok_def using mirrored_start ordered_start by blast

lemma history_ok_mono: "history_ok c st \<Longrightarrow> c \<le> d \<Longrightarrow> history_ok d st"
  unfolding history_ok_def using ordered_mono by blast

lemma open_interval_nonempty: "open_interval st pane = Some iv \<Longrightarrow> intervals_of st pane \<noteq> []"
  by (auto simp: open_interval_def Let_def split: if_splits)

lemma history_ok_pin:
  assumes "history_ok c st" "c \<le> now"
  shows "history_ok now (snd (pin_pane pane profile now st))"
proof (cases "pane = []")
  case True
  then show ?thesis using assms by (auto simp: pin_pane_def intro: history_ok_mono)
next
  case False
  have t: "history_ok c (touch_pane pane st)" using assms(1) by (simp add: history_ok_touch)
  show ?thesis
  proof (cases "open_interval st pane")
    case None
    then show ?thesis using False history_ok_start [OF t assms(2)] by (simp add: pin_pane_def Let_def)
  next
    case (Some iv)
    have "history_ok c (close_interval pane now (touch_pane pane st))"
      using t by (rule history_ok_close) (simp add: open_interval_nonempty [OF Some])
    from history_ok_start [OF this assms(2)] show ?thesis
      using False Some history_ok_mono [OF t assms(2)] by (simp add: pin_pane_def Let_def)
  qed
qed

lemma history_ok_release:
  assumes "history_ok c st" "c \<le> now"
  shows "history_ok now (snd (release_pane pane now st))"
proof (cases "open_interval st pane")
  case None
  then show ?thesis using assms by (auto simp: release_pane_def intro: history_ok_mono)
next
  case (Some iv)
  have "history_ok now (close_interval pane now st)"
    using history_ok_mono [OF assms] open_interval_nonempty [OF Some] by (rule history_ok_close)
  then show ?thesis using Some history_ok_mono [OF assms] by (simp add: release_pane_def)
qed

lemma history_ok_bind: "history_ok c st \<Longrightarrow> history_ok c (bind_session s p st)"
  unfolding history_ok_def mirrored_def rows_ordered_def intervals_of_bind by (simp add: bind_session_def Let_def)

lemma history_ok_load: "history_ok c st \<Longrightarrow> history_ok c (load_history st) \<and> intervals_of (load_history st) = intervals_of st"
  unfolding history_ok_def mirrored_def using intervals_of_load
  by (auto simp: fun_eq_iff rows_ordered_def load_history_def)

lemma history_ok_step:
  assumes "history_ok c st" "\<forall>t. op_time op = Some t \<longrightarrow> c \<le> t"
  shows "history_ok (case op_time op of None \<Rightarrow> c | Some t \<Rightarrow> t) (history_step st op)"
  using assms history_ok_pin history_ok_release history_ok_bind history_ok_load by (cases op) auto

lemma history_ok_run: "clock_ok 0 ops \<Longrightarrow> history_ok (last_time 0 ops) (history_after ops)"
proof (induction ops rule: rev_induct)
  case Nil
  show ?case by (simp add: history_after_def fresh_history_def history_ok_def mirrored_def rows_ordered_def intervals_of_def)
next
  case (snoc op ops)
  then show ?case using history_ok_step [of "last_time 0 ops" "history_after ops" op]
    by (simp add: history_after_def run_ops_append clock_ok_snoc last_time_snoc)
qed


section \<open>The refinement\<close>

text \<open>What the intervals answer for a moment, and the relation between a pane's intervals and its log.\<close>

definition interval_at :: "interval list \<Rightarrow> rat \<Rightarrow> string option" where
  "interval_at ivs t = map_option iv_profile (covering ivs t)"

definition follows :: "rat \<Rightarrow> interval list \<Rightarrow> (rat \<times> string option) list \<Rightarrow> bool" where
  "follows c ivs es \<longleftrightarrow>
     sorted (map iv_since ivs) \<and> (\<forall>iv \<in> set ivs. iv_since iv \<le> c \<and> (\<forall>u. iv_until iv = Some u \<longrightarrow> u \<le> c)) \<and>
     (\<forall>e \<in> set es. fst e \<le> c) \<and> (ivs = [] \<longleftrightarrow> es = []) \<and>
     (\<forall>t. interval_at ivs t = log_at es t)"

definition log_add :: "(rat \<times> string option) list \<Rightarrow> rat \<times> string option \<Rightarrow> (rat \<times> string option) list" where
  "log_add es e = (if es = [] \<and> snd e = None then [] else es @ [e])"

lemma log_at_append:
  assumes "es \<noteq> []"
  shows "log_at (es @ [(now, p)]) t = (if now \<le> t then p else log_at es t)"
  using assms by (auto simp: log_at_def Let_def)

lemma log_at_single: "log_at [(now, p)] t = (if now - PIN_LEAD_TOLERANCE_S \<le> t then p else None)"
  by (auto simp: log_at_def Let_def PIN_LEAD_TOLERANCE_S_def)

lemma started_by_append: "started_by t (xs @ ys) = started_by t xs @ started_by t ys"
  by (simp add: started_by_def)


lemma interval_at_started:
  assumes "sorted (map iv_since ivs)"
  shows "interval_at ivs t =
    (if started_by t ivs \<noteq> [] then map_option iv_profile (live_at t (last (started_by t ivs)))
     else if ivs \<noteq> [] \<and> iv_since (hd ivs) - PIN_LEAD_TOLERANCE_S \<le> t then Some (iv_profile (hd ivs)) else None)"
  unfolding interval_at_def covering_started [OF assms] by simp

lemma interval_at_new:
  assumes "sorted (map iv_since ivs)" "\<forall>iv \<in> set ivs. iv_since iv \<le> now" "ivs \<noteq> []" "iv_since n = now" "iv_until n = None"
  shows "interval_at (ivs @ [n]) t = (if now \<le> t then Some (iv_profile n) else interval_at ivs t)"
proof -
  have s: "sorted (map iv_since (ivs @ [n]))" using assms by (auto simp: sorted_append)
  have "started_by t [n] = (if now \<le> t then [n] else [])" using assms by (simp add: started_by_def)
  then show ?thesis
    unfolding interval_at_started [OF s] interval_at_started [OF assms(1)] started_by_append
    using assms by (auto simp: live_at_def)
qed

lemma interval_at_close:
  assumes "sorted (map iv_since (xs @ [iv]))" "iv_since iv \<le> now" "iv_until iv = None"
  shows "interval_at (xs @ [iv\<lparr>iv_until := Some now\<rparr>]) t = (if now \<le> t then None else interval_at (xs @ [iv]) t)"
proof -
  let ?c = "iv\<lparr>iv_until := Some now\<rparr>"
  have s: "sorted (map iv_since (xs @ [?c]))" using assms(1) by simp
  have one: "started_by t [iv] = (if iv_since iv \<le> t then [iv] else [])" "started_by t [?c] = (if iv_since iv \<le> t then [?c] else [])"
    by (simp_all add: started_by_def)
  have hd: "iv_since (hd (xs @ [?c])) = iv_since (hd (xs @ [iv]))" "iv_profile (hd (xs @ [?c])) = iv_profile (hd (xs @ [iv]))"
    by (cases xs; simp)+
  show ?thesis
  proof (cases "iv_since iv \<le> t")
    case True
    then show ?thesis unfolding interval_at_started [OF s] interval_at_started [OF assms(1)] started_by_append one
      using assms by (simp add: live_at_def)
  next
    case False
    then have "\<not> now \<le> t" using assms(2) by simp
    with False show ?thesis unfolding interval_at_started [OF s] interval_at_started [OF assms(1)] started_by_append one hd by simp
  qed
qed

lemma interval_at_open:
  assumes "sorted (map iv_since (xs @ [iv]))" "iv_since iv \<le> t" "iv_until iv = None"
  shows "interval_at (xs @ [iv]) t = Some (iv_profile iv)"
  unfolding interval_at_started [OF assms(1)] started_by_append using assms by (simp add: started_by_def live_at_def)

lemma interval_at_closed:
  assumes "sorted (map iv_since (xs @ [iv]))" "iv_since iv \<le> t" "iv_until iv = Some u" "u \<le> t"
  shows "interval_at (xs @ [iv]) t = None"
  unfolding interval_at_started [OF assms(1)] started_by_append using assms by (simp add: started_by_def live_at_def)

lemma follows_put:
  assumes f: "follows c ivs es" and now: "c \<le> now"
  shows "follows now (put_event row ivs (now, p)) (log_add es (now, p))"
proof -
  note F = f [unfolded follows_def]
  show ?thesis
  proof (cases ivs rule: rev_cases)
    case Nil
    then have es: "es = []" using F by simp
    show ?thesis
    proof (cases p)
      case None
      then show ?thesis using F Nil es by (simp add: follows_def log_add_def)
    next
      case (Some pr)
      let ?n = "\<lparr>iv_row = row, iv_profile = pr, iv_since = now, iv_until = None\<rparr>"
      have s: "sorted (map iv_since [?n])" by simp
      have "interval_at [?n] t = log_at [(now, Some pr)] t" for t
        unfolding interval_at_started [OF s] log_at_single
        by (auto simp: started_by_def live_at_def PIN_LEAD_TOLERANCE_S_def)
      then show ?thesis using Nil es Some by (simp add: follows_def log_add_def)
    qed
  next
    case (snoc xs iv)
    have ne: "es \<noteq> []" using F snoc by simp
    have srt: "sorted (map iv_since (xs @ [iv]))" using F snoc by simp
    have since: "iv_since i \<le> now" if "i \<in> set ivs" for i using F that now by (meson order_trans)
    have upto: "u \<le> now" if "i \<in> set ivs" "iv_until i = Some u" for i u using F that now by (meson order_trans)
    have early: "fst e \<le> now" if "e \<in> set es" for e using F that now by (meson order_trans)
    have at: "interval_at (xs @ [iv]) t = log_at es t" for t using F snoc by simp
    have iv: "iv_since iv \<le> now" and mx: "max now (iv_since iv) = now" using since [of iv] snoc by auto
    have add: "log_add es (now, p) = es @ [(now, p)]" using ne by (simp add: log_add_def)
    let ?ivs = "put_event row ivs (now, p)"
    let ?c = "iv\<lparr>iv_until := Some now\<rparr>"
    let ?n = "\<lambda>pr. \<lparr>iv_row = row, iv_profile = pr, iv_since = now, iv_until = None\<rparr>"
    have cs: "sorted (map iv_since (xs @ [?c]))" using srt by simp
    have "?ivs \<in> {xs @ [iv], xs @ [?c]} \<union> {(xs @ [?c]) @ [?n pr] | pr. True} \<union> {(xs @ [iv]) @ [?n pr] | pr. True}"
      using snoc mx by (cases p) auto
    moreover have "\<forall>i \<in> set (xs @ [iv]). iv_since i \<le> now" "\<forall>i \<in> set (xs @ [?c]). iv_since i \<le> now" using since snoc by auto
    moreover have "\<forall>i \<in> set (xs @ [iv]). \<forall>u. iv_until i = Some u \<longrightarrow> u \<le> now" using upto snoc by blast
    ultimately have 1: "sorted (map iv_since ?ivs)" and 2: "\<forall>i \<in> set ?ivs. iv_since i \<le> now \<and> (\<forall>u. iv_until i = Some u \<longrightarrow> u \<le> now)"
      using srt cs by (auto simp: sorted_append)
    have 3: "interval_at ?ivs t = (if now \<le> t then p else interval_at (xs @ [iv]) t)" for t
    proof (cases "iv_until iv")
      case None
      note close = interval_at_close [OF srt iv None]
      show ?thesis
      proof (cases p)
        case p: None
        then have "?ivs = xs @ [?c]" using snoc None mx by simp
        then show ?thesis using close p by simp
      next
        case p: (Some pr)
        show ?thesis
        proof (cases "iv_profile iv = pr")
          case True
          then have "?ivs = xs @ [iv]" using snoc None p by simp
          then show ?thesis using interval_at_open [OF srt order_trans [OF iv] None] p True by simp
        next
          case False
          then have "?ivs = (xs @ [?c]) @ [?n pr]" using snoc None p mx by simp
          moreover have "interval_at ((xs @ [?c]) @ [?n pr]) t = (if now \<le> t then Some pr else interval_at (xs @ [?c]) t)"
            by (subst interval_at_new [OF cs, where now = now]) (use since snoc in auto)
          ultimately show ?thesis using close p by simp
        qed
      qed
    next
      case (Some u)
      have u: "u \<le> now" using upto [of iv u] Some snoc by simp
      show ?thesis
      proof (cases p)
        case None
        then have "?ivs = xs @ [iv]" using snoc Some by simp
        then show ?thesis using interval_at_closed [OF srt order_trans [OF iv] Some order_trans [OF u]] None by simp
      next
        case p: (Some pr)
        then have "?ivs = (xs @ [iv]) @ [?n pr]" using snoc Some by simp
        moreover have "interval_at ((xs @ [iv]) @ [?n pr]) t = (if now \<le> t then Some pr else interval_at (xs @ [iv]) t)"
          by (subst interval_at_new [OF srt, where now = now]) (use since snoc in auto)
        ultimately show ?thesis using p by simp
      qed
    qed
    have 4: "?ivs \<noteq> []" using snoc by (cases p) auto
    show ?thesis unfolding add follows_def
      using 1 2 4 early 3 at log_at_append [OF ne, of now p] by auto
  qed
qed

text \<open>Every run whose clock does not go back leaves each pane's intervals following its log.\<close>

lemma pane_log_snoc:
  "pane_log pane (ops @ [op]) = (case pane_event pane op of None \<Rightarrow> pane_log pane ops | Some e \<Rightarrow> log_add (pane_log pane ops) e)"
proof -
  have "dropWhile (\<lambda>e. snd e = None) (xs @ [e]) = log_add (dropWhile (\<lambda>e. snd e = None) xs) e" for xs and e :: "rat \<times> string option"
    by (induction xs) (auto simp: log_add_def)
  then show ?thesis by (cases "pane_event pane op") (simp_all add: pane_log_def map_filter_def)
qed

lemma follows_mono: "follows c ivs es \<Longrightarrow> c \<le> d \<Longrightarrow> follows d ivs es"
  unfolding follows_def by (meson order_trans)

lemma pin_empty: "pin_pane [] profile t st = (False, st)"
  by (simp add: pin_pane_def)

lemma release_empty: "release_pane [] t st = (False, st)"
  by (simp add: release_pane_def)

lemma follows_step:
  assumes "follows c (intervals_of st pane) es" "history_ok c st" "\<forall>t. op_time op = Some t \<longrightarrow> c \<le> t" "pane \<noteq> []"
  shows "follows (case op_time op of None \<Rightarrow> c | Some t \<Rightarrow> t) (intervals_of (history_step st op) pane)
    (case pane_event pane op of None \<Rightarrow> es | Some e \<Rightarrow> log_add es e)"
proof (cases op)
  case (Pin p profile t)
  then have "c \<le> t" using assms(3) by simp
  then show ?thesis using Pin assms(1,4) follows_put [OF assms(1)] follows_mono [OF assms(1)]
    by (cases "p = []") (auto simp: intervals_of_pin pin_empty simp del: put_event.simps)
next
  case (Release p t)
  then have "c \<le> t" using assms(3) by simp
  then show ?thesis using Release assms(1,4) follows_put [OF assms(1), where row = 0] follows_mono [OF assms(1)]
    by (cases "p = []") (auto simp: intervals_of_release [where row = 0] release_empty simp del: put_event.simps)
next
  case (Bind s p)
  then show ?thesis using assms(1) by simp
next
  case Restart
  then show ?thesis using assms(1) history_ok_load [OF assms(2)] by simp
qed

lemma follows_run:
  assumes "clock_ok 0 ops" "pane \<noteq> []"
  shows "follows (last_time 0 ops) (intervals_of (history_after ops) pane) (pane_log pane ops)"
  using assms(1)
proof (induction ops rule: rev_induct)
  case Nil
  show ?case by (simp add: follows_def history_after_def fresh_history_def intervals_of_def pane_log_def map_filter_def interval_at_def covering_def log_at_def)
next
  case (snoc op ops)
  then have "history_ok (last_time 0 ops) (history_after ops)" "clock_ok 0 ops" "\<forall>t. op_time op = Some t \<longrightarrow> last_time 0 ops \<le> t"
    by (auto simp: clock_ok_snoc history_ok_run)
  then show ?case using follows_step [OF snoc.IH _ _ assms(2)]
    by (simp add: history_after_def run_ops_append last_time_snoc pane_log_snoc)
qed


section \<open>What the history promises\<close>

text \<open>
  C38: as long as the clock does not go back, \<open>profile_at\<close> answers what the log of the pane's pins and releases says:
  the account of the last one no later than the moment asked about, \<open>unknown\<close> after a release, and the first pin's
  account for the fifteen seconds before it. Restarts of the backend and the pins and releases of other panes do not change it.
\<close>

theorem history_answers_log:
  assumes "clock_ok 0 ops" and "pane \<noteq> []"
  shows "profile_at (history_after ops) pane (Some t) = or_unknown (log_at (pane_log pane ops) t)"
proof -
  have "interval_at (intervals_of (history_after ops) pane) t = log_at (pane_log pane ops) t"
    using follows_run [OF assms] by (simp add: follows_def)
  moreover have "profile_at (history_after ops) pane (Some t) = or_unknown (interval_at (intervals_of (history_after ops) pane) t)"
    using assms(2) by (auto simp: profile_at_def Let_def or_unknown_def interval_at_def covering_def [of "[]"] split: option.splits)
  ultimately show ?thesis by simp
qed

lemma history_answers_log_witness:
  "profile_at (history_after [Pin ''p'' ''work'' 100, Restart, Release ''p'' 160, Pin ''q'' ''home'' 170, Pin ''p'' '' '' 200]) ''p'' (Some 165)
     = ''unknown'' \<and>
   or_unknown (log_at (pane_log ''p'' [Pin ''p'' ''work'' 100, Restart]) 86) = ''work''"
proof -
  have "clock_ok 0 [Pin ''p'' ''work'' 100, Restart, Release ''p'' 160, Pin ''q'' ''home'' 170, Pin ''p'' '' '' 200]" by simp
  moreover have "or_unknown (log_at (pane_log ''p'' [Pin ''p'' ''work'' 100, Restart, Release ''p'' 160, Pin ''q'' ''home'' 170, Pin ''p'' '' '' 200]) 165) = ''unknown''"
    by code_simp
  moreover have "or_unknown (log_at (pane_log ''p'' [Pin ''p'' ''work'' 100, Restart]) 86) = ''work''" by code_simp
  ultimately show ?thesis using history_answers_log [of _ "''p''" 165] by simp
qed

text \<open>
  C39: the table is the truth: reading it back at a restart gives every pane the intervals it had in memory, in the
  same order, however many pins and releases came before, as long as the clock did not go back.
\<close>

theorem restart_keeps_intervals:
  "clock_ok 0 ops \<Longrightarrow> intervals_of (load_history (history_after ops)) pane = intervals_of (history_after ops) pane"
  using history_ok_load [OF history_ok_run] by simp

lemma restart_keeps_intervals_witness:
  "intervals_of (load_history (history_after [Pin ''p'' ''a'' 5, Pin ''p'' ''b'' 5])) ''p'' =
   intervals_of (history_after [Pin ''p'' ''a'' 5, Pin ''p'' ''b'' 5]) ''p''"
  by (rule restart_keeps_intervals) simp

text \<open>
  When the clock goes back between two pins the order in memory (the order of the writes) is not the order a restart
  reads, so the same question about the same moment is answered differently after one.
\<close>

lemma clock_step_back_reorders:
  "let st = history_after [Pin ''p'' ''a'' 100, Pin ''p'' ''b'' 50] in
   profile_at st ''p'' None = ''b'' \<and> profile_at (load_history st) ''p'' None = ''unknown''"
  by code_simp

text \<open>
  The panes of a session: the answer is the account of an interval that covers the moment, and none of the intervals
  that do, over all the panes of the session, was pinned later.
\<close>

lemma better_fold:
  "foldl (\<lambda>best p. better best (g p)) b ps = Some iv \<Longrightarrow>
   (b = Some iv \<or> (\<exists>p \<in> set ps. g p = Some iv)) \<and>
   (\<forall>i. b = Some i \<or> (\<exists>p \<in> set ps. g p = Some i) \<longrightarrow> iv_since i \<le> iv_since iv)"
proof (induction ps arbitrary: b)
  case (Cons p ps)
  then have IH: "(better b (g p) = Some iv \<or> (\<exists>p \<in> set ps. g p = Some iv)) \<and>
      (\<forall>i. better b (g p) = Some i \<or> (\<exists>p \<in> set ps. g p = Some i) \<longrightarrow> iv_since i \<le> iv_since iv)" by simp
  let ?c = "better b (g p)"
  have grow: "\<exists>c. ?c = Some c \<and> iv_since i \<le> iv_since c" if "b = Some i \<or> g p = Some i" for i
    using that by (force simp: better_def split: option.splits)
  have either: "?c = b \<or> ?c = g p" by (auto simp: better_def split: option.splits)
  have "b = Some iv \<or> (\<exists>p \<in> set (p # ps). g p = Some iv)" using IH either by auto
  moreover have "iv_since i \<le> iv_since iv" if i: "b = Some i \<or> (\<exists>p \<in> set (p # ps). g p = Some i)" for i
  proof (cases "b = Some i \<or> g p = Some i")
    case True
    then obtain c where "?c = Some c" "iv_since i \<le> iv_since c" using grow by blast
    then show ?thesis using IH by (meson order_trans)
  next
    case False
    then show ?thesis using i IH by auto
  qed
  ultimately show ?case by blast
qed simp

text \<open>
  a turn of a session is charged to the most recent pin, over every pane the session was ever bound to, that covers
  the moment of the turn: unless the answer is \<open>unknown\<close>, it is the account of a covering interval, and no covering
  interval of any of these panes was pinned later.
\<close>

theorem session_charged_to_latest_pin:
  assumes "profile_for_session st session pane (Some t) \<noteq> UNKNOWN_PROFILE_ID"
  shows "\<exists>p \<in> set (session_panes st session pane). \<exists>iv.
    covering (intervals_of st p) t = Some iv \<and> iv_profile iv = profile_for_session st session pane (Some t) \<and>
    (\<forall>q \<in> set (session_panes st session pane). \<forall>i. covering (intervals_of st q) t = Some i \<longrightarrow> iv_since i \<le> iv_since iv)"
proof -
  let ?ps = "session_panes st session pane"
  let ?f = "foldl (\<lambda>best p. better best (covering (intervals_of st p) t)) None ?ps"
  from assms obtain iv where iv: "?f = Some iv" and p: "profile_for_session st session pane (Some t) = iv_profile iv"
    by (auto simp: profile_for_session_def profile_for_panes_def split: option.splits)
  show ?thesis using better_fold [OF iv] p by auto
qed

definition two_pane_history :: history where
  "two_pane_history = history_after [Pin ''p'' ''a'' 10, Bind ''s'' ''p'', Pin ''q'' ''b'' 20, Bind ''s'' ''q'']"

lemma session_charged_to_latest_pin_witness:
  "\<exists>p \<in> set (session_panes two_pane_history ''s'' ''q''). \<exists>iv.
    covering (intervals_of two_pane_history p) 30 = Some iv \<and> iv_profile iv = ''b'' \<and>
    (\<forall>q \<in> set (session_panes two_pane_history ''s'' ''q''). \<forall>i. covering (intervals_of two_pane_history q) 30 = Some i \<longrightarrow> iv_since i \<le> iv_since iv)"
proof -
  have "profile_for_session two_pane_history ''s'' ''q'' (Some 30) = ''b''" "''b'' \<noteq> UNKNOWN_PROFILE_ID" by code_simp+
  then show ?thesis using session_charged_to_latest_pin [of two_pane_history "''s''" "''q''" 30] by simp
qed

end
