(* ===== verification/Quota_Ledger.thy ===== *)
theory Quota_Ledger
  imports Account_History
begin

text \<open>
  \<open>backend/agent_team_backend/quota_ledger.py\<close> with \<open>quota_windows.py\<close> and \<open>tokens_store.slice_coverage\<close>: what one
  account spent per quota window. The two tables are lists of rows in id order; the clock is an argument of each
  operation, and moments are rational numbers of seconds. Snapshots are arbitrary JSON documents. What Python's library
  does with texts is in \<open>ledger_env\<close>: \<open>str\<close> of a document value, \<open>datetime.fromisoformat(..).timestamp()\<close> and the
  formatting of a moment. An integer too large for a double, which \<open>math.isfinite\<close> refuses with an exception, does not occur.
\<close>

section \<open>Rows\<close>

definition RESET_MATCH_TOLERANCE_S :: rat where "RESET_MATCH_TOLERANCE_S = 120"
definition EXHAUSTED_MATCH_TOLERANCE_S :: rat where "EXHAUSTED_MATCH_TOLERANCE_S = 3600"
definition WEEKLY_KINDS :: "string list" where "WEEKLY_KINDS = [''weekly'', ''weekly-model'', ''secondary'']"
definition LABELLED_KINDS :: "string list" where "LABELLED_KINDS = [''weekly-model'']"
definition SLICE_S :: int where "SLICE_S = 300"
definition SLICE_RETENTION_S :: rat where "SLICE_RETENTION_S = 40 * 86400"

record tokens =
  tk_input :: int
  tk_cache_read :: int
  tk_cache_creation :: int
  tk_output :: int
  tk_calls :: int
  tk_turns :: int

definition no_tokens :: tokens where
  "no_tokens = \<lparr>tk_input = 0, tk_cache_read = 0, tk_cache_creation = 0, tk_output = 0, tk_calls = 0, tk_turns = 0\<rparr>"

definition tokens_total :: "tokens \<Rightarrow> int" where
  "tokens_total t = tk_input t + tk_cache_read t + tk_cache_creation t + tk_output t"

record sample_row =
  qs_id :: int
  qs_agent :: string
  qs_profile :: string
  qs_kind :: string
  qs_pct :: rat
  qs_resets :: rat
  qs_fetched :: rat

record cycle_row =
  qc_id :: int
  qc_agent :: string
  qc_profile :: string
  qc_kind :: string
  qc_started :: "rat option"
  qc_resets :: rat
  qc_max :: rat
  qc_exhausted :: "rat option"
  qc_source :: "string option"
  qc_tokens :: tokens
  qc_closed :: bool
  qc_samples :: int
  qc_cov_state :: "string option"
  qc_cov_reason :: "string option"
  qc_reconciled :: "rat option"
  qc_last_sample :: "rat option"

type_synonym cycle_key = "string \<times> string \<times> string"

record ledger =
  lg_cycles :: "cycle_row list"
  lg_next_cycle :: int
  lg_samples :: "sample_row list"
  lg_next_sample :: int
  lg_last :: "(cycle_key \<times> (rat \<times> rat)) list"
  lg_since :: rat

record ledger_env =
  le_str :: "jval \<Rightarrow> string"
  le_fromiso :: "string \<Rightarrow> rat option"
  le_isoformat :: "rat \<Rightarrow> string"
  le_period :: "rat \<Rightarrow> string \<Rightarrow> string"

record totals =
  tt_tokens :: tokens
  tt_coverage :: "(string \<times> string option) option"

type_synonym totals_provider = "string \<Rightarrow> string \<Rightarrow> rat option \<Rightarrow> rat \<Rightarrow> totals"

datatype ledger_error = OverflowErr | TypeErr | Invalid string

definition cycle_key_of :: "cycle_row \<Rightarrow> cycle_key" where
  "cycle_key_of r = (qc_agent r, qc_profile r, qc_kind r)"

definition sample_key_of :: "sample_row \<Rightarrow> cycle_key" where
  "sample_key_of s = (qs_agent s, qs_profile s, qs_kind s)"

text \<open>\<open>UPDATE quota_cycles SET .. WHERE ..\<close>.\<close>

definition update_cycles :: "(cycle_row \<Rightarrow> bool) \<Rightarrow> (cycle_row \<Rightarrow> cycle_row) \<Rightarrow> ledger \<Rightarrow> ledger" where
  "update_cycles P f st = st\<lparr>lg_cycles := map (\<lambda>r. if P r then f r else r) (lg_cycles st)\<rparr>"


section \<open>Times and windows\<close>

definition digits_value :: "string \<Rightarrow> int" where
  "digits_value s = foldl (\<lambda>n c. n * 10 + (of_char c - 48)) 0 s"

definition parse_event_time :: "ledger_env \<Rightarrow> string \<Rightarrow> rat option" where
  "parse_event_time env raw =
     (let t = py_strip raw in
      if t = [] then None
      else if list_all is_digit t
      then (let v = digits_value t in Some (if 100000000000 < v then of_int v / 1000 else of_int v))
      else le_fromiso env (if last t = CHR ''Z'' \<or> last t = CHR ''z'' then butlast t @ ''+00:00'' else t))"

text \<open>\<open>str(x or "")\<close>.\<close>

definition text_or_empty :: "ledger_env \<Rightarrow> jval \<Rightarrow> string" where
  "text_or_empty env v = (if truthy v then le_str env v else [])"

definition HOUR :: int where "HOUR = 3600"
definition DAY :: int where "DAY = 86400"

definition WINDOW_SECONDS :: "(string \<times> (string \<times> int) list) list" where
  "WINDOW_SECONDS =
    [(''claude'', [(''session'', 5 * HOUR), (''weekly'', 7 * DAY), (''weekly-model'', 7 * DAY)]),
     (''codex'', [(''session'', 5 * HOUR), (''primary'', 5 * HOUR), (''weekly'', 7 * DAY), (''secondary'', 7 * DAY)]),
     (''kimi'', [(''session'', 5 * HOUR), (''weekly'', 7 * DAY)]),
     (''opencode'', [(''session'', 5 * HOUR), (''weekly'', 7 * DAY)]),
     (''qwen'', [(''session'', 5 * HOUR), (''weekly'', 7 * DAY)]),
     (''antigravity'', [(''session'', 5 * HOUR), (''weekly'', 7 * DAY)]),
     (''pi'', [(''session'', 5 * HOUR), (''weekly'', 7 * DAY)])]"

text \<open>\<open>int(window_minutes) * 60\<close> when that is a positive number; the infinity has no integer.\<close>

definition base_kind :: "string \<Rightarrow> string" where
  "base_kind k = fst (str_partition CHR '':'' k)"

definition window_seconds :: "string \<Rightarrow> string \<Rightarrow> jval \<Rightarrow> ledger_error + int option" where
  "window_seconds agent kind minutes =
     (let table = (case dget WINDOW_SECONDS agent of None \<Rightarrow> None | Some d \<Rightarrow> dget d (base_kind kind)) in
      case minutes of
        JInt i \<Rightarrow> Inr (if 0 < i then Some (i * 60) else table)
      | JFloat FInf \<Rightarrow> Inl OverflowErr
      | JFloat f \<Rightarrow> Inr (case float_rat f of Some q \<Rightarrow> if 0 < q then Some (\<lfloor>q\<rfloor> * 60) else table | None \<Rightarrow> table)
      | _ \<Rightarrow> Inr table)"

definition slice_coverage :: "rat option \<Rightarrow> rat \<Rightarrow> rat \<Rightarrow> rat \<Rightarrow> string \<times> string option" where
  "slice_coverage start fin since wall =
     (case start of
        None \<Rightarrow> (''unavailable'', Some ''start_unknown'')
      | Some s \<Rightarrow>
          (let cutoff = wall - SLICE_RETENTION_S; available_since = max since cutoff in
           if available_since \<le> s then (''available'', None)
           else (if available_since < min fin wall then ''partial'' else ''unavailable'',
                 Some (if since < cutoff then ''retention_expired'' else ''collection_started_late''))))"

type_synonym jdict = "(string \<times> jval) list"

fun dicts_of :: "jval list \<Rightarrow> jdict list" where
  "dicts_of [] = []"
| "dicts_of (JDict d # vs) = d # dicts_of vs"
| "dicts_of (_ # vs) = dicts_of vs"

definition snapshot_windows :: "jdict \<Rightarrow> ledger_error + jdict list" where
  "snapshot_windows snapshot =
     (case dget snapshot ''windows'' of
        None \<Rightarrow> Inr []
      | Some (JList vs) \<Rightarrow> Inr (dicts_of vs)
      | Some (JDict _) \<Rightarrow> Inr []
      | Some (JStr _) \<Rightarrow> Inr []
      | Some _ \<Rightarrow> Inl TypeErr)"

definition kind_text :: "ledger_env \<Rightarrow> jdict \<Rightarrow> string" where
  "kind_text env w = text_or_empty env (jget w ''kind'')"

definition labelled :: "ledger_env \<Rightarrow> jdict list \<Rightarrow> jdict \<Rightarrow> string" where
  "labelled env windows w =
     (let kind = kind_text env w in
      if kind \<in> set LABELLED_KINDS \<or> 1 < length (filter (\<lambda>v. kind_text env v = kind) windows)
      then kind @ '':'' @ text_or_empty env (jget w ''label'') else kind)"

definition window_kinds_of :: "ledger_env \<Rightarrow> jdict list \<Rightarrow> (jdict \<times> string) list" where
  "window_kinds_of env windows =
     map (\<lambda>w. (w, labelled env windows w)) (filter (\<lambda>w. kind_text env w \<noteq> []) windows)"


section \<open>Filing a snapshot\<close>

definition same_key :: "cycle_key \<Rightarrow> cycle_row \<Rightarrow> bool" where
  "same_key key r = (cycle_key_of r = key)"

definition near :: "rat \<Rightarrow> rat \<Rightarrow> cycle_row \<Rightarrow> bool" where
  "near tol resets r = (\<bar>qc_resets r - resets\<bar> \<le> tol)"

text \<open>\<open>MAX(COALESCE(last_sample_at, x), x)\<close>.\<close>

definition fresher :: "rat option \<Rightarrow> rat \<Rightarrow> rat" where
  "fresher old x = (case old of None \<Rightarrow> x | Some y \<Rightarrow> max y x)"

definition earlier :: "rat \<Rightarrow> rat option \<Rightarrow> bool" where
  "earlier x old = (case old of None \<Rightarrow> True | Some y \<Rightarrow> x < y)"

definition closest_cycle :: "cycle_key \<Rightarrow> rat \<Rightarrow> ledger \<Rightarrow> cycle_row option" where
  "closest_cycle key resets st =
     (case sort_key (\<lambda>r. \<bar>qc_resets r - resets\<bar>)
        (filter (\<lambda>r. same_key key r \<and> near RESET_MATCH_TOLERANCE_S resets r) (lg_cycles st)) of
        [] \<Rightarrow> None | r # _ \<Rightarrow> Some r)"

text \<open>The start of a calendar window: \<open>MAX(resets_at)\<close> of the cycles of this key that reset before.\<close>

definition previous_reset :: "cycle_key \<Rightarrow> rat \<Rightarrow> ledger \<Rightarrow> rat option" where
  "previous_reset key resets st =
     (case map qc_resets (filter (\<lambda>r. same_key key r \<and> qc_resets r < resets) (lg_cycles st)) of
        [] \<Rightarrow> None | q # qs \<Rightarrow> Some (foldl max q qs))"

definition new_cycle :: "cycle_key \<Rightarrow> rat option \<Rightarrow> rat \<Rightarrow> rat \<Rightarrow> rat \<Rightarrow> ledger \<Rightarrow> ledger" where
  "new_cycle key started pct resets fetched st =
     (case key of (agent, profile, kind) \<Rightarrow>
      st\<lparr>lg_cycles := lg_cycles st @
          [\<lparr>qc_id = lg_next_cycle st, qc_agent = agent, qc_profile = profile, qc_kind = kind, qc_started = started,
            qc_resets = resets, qc_max = pct, qc_exhausted = (if 100 \<le> pct then Some fetched else None),
            qc_source = (if 100 \<le> pct then Some ''sample'' else None), qc_tokens = no_tokens, qc_closed = False,
            qc_samples = 1, qc_cov_state = None, qc_cov_reason = None, qc_reconciled = None, qc_last_sample = Some fetched\<rparr>],
         lg_next_cycle := lg_next_cycle st + 1\<rparr>)"

definition take_sample :: "rat \<Rightarrow> rat \<Rightarrow> cycle_row \<Rightarrow> cycle_row" where
  "take_sample pct fetched r =
     r\<lparr>qc_max := max (qc_max r) pct,
       qc_exhausted := (if 100 \<le> pct \<and> earlier fetched (qc_exhausted r) then Some fetched else qc_exhausted r),
       qc_source := (if 100 \<le> pct \<and> earlier fetched (qc_exhausted r) then Some ''sample'' else qc_source r),
       qc_last_sample := Some (fresher (qc_last_sample r) fetched),
       qc_samples := qc_samples r + 1\<rparr>"

definition fold_sample :: "cycle_key \<Rightarrow> rat \<Rightarrow> rat \<Rightarrow> rat \<Rightarrow> jval \<Rightarrow> ledger \<Rightarrow> ledger_error + ledger" where
  "fold_sample key pct resets fetched minutes st =
     (case closest_cycle key resets st of
        None \<Rightarrow>
          (case window_seconds (fst key) (snd (snd key)) minutes of
             Inl e \<Rightarrow> Inl e
           | Inr (Some len) \<Rightarrow> Inr (new_cycle key (Some (resets - of_int len)) pct resets fetched st)
           | Inr None \<Rightarrow> Inr (new_cycle key (previous_reset key resets st) pct resets fetched st))
      | Some r \<Rightarrow>
          if qc_closed r then Inr st
          else Inr (update_cycles (\<lambda>q. qc_id q = qc_id r \<and> \<not> qc_closed q) (take_sample pct fetched) st))"

definition add_sample :: "cycle_key \<Rightarrow> rat \<Rightarrow> rat \<Rightarrow> rat \<Rightarrow> ledger \<Rightarrow> ledger" where
  "add_sample key pct resets fetched st =
     (case key of (agent, profile, kind) \<Rightarrow>
      st\<lparr>lg_samples := lg_samples st @
          [\<lparr>qs_id = lg_next_sample st, qs_agent = agent, qs_profile = profile, qs_kind = kind, qs_pct = pct,
            qs_resets = resets, qs_fetched = fetched\<rparr>],
         lg_next_sample := lg_next_sample st + 1\<rparr>)"

text \<open>A repeated reading: freshness on every near cycle, and earlier evidence on the open ones.\<close>

definition refresh_cycle :: "rat \<Rightarrow> cycle_row \<Rightarrow> cycle_row" where
  "refresh_cycle fetched r = r\<lparr>qc_last_sample := Some (fresher (qc_last_sample r) fetched)\<rparr>"

definition stamp_full :: "rat \<Rightarrow> cycle_row \<Rightarrow> cycle_row" where
  "stamp_full fetched r = r\<lparr>qc_exhausted := Some fetched, qc_source := Some ''sample''\<rparr>"

definition full_target :: "cycle_key \<Rightarrow> rat \<Rightarrow> rat \<Rightarrow> cycle_row \<Rightarrow> bool" where
  "full_target key resets fetched r =
     (same_key key r \<and> \<not> qc_closed r \<and> near RESET_MATCH_TOLERANCE_S resets r \<and> earlier fetched (qc_exhausted r))"

definition repeat_sample :: "cycle_key \<Rightarrow> rat \<Rightarrow> rat \<Rightarrow> rat \<Rightarrow> ledger \<Rightarrow> ledger \<times> bool" where
  "repeat_sample key pct resets fetched st =
     (let st1 = update_cycles (\<lambda>r. same_key key r \<and> near RESET_MATCH_TOLERANCE_S resets r) (refresh_cycle fetched) st in
      if 100 \<le> pct
      then (update_cycles (full_target key resets fetched) (stamp_full fetched) st1,
            list_ex (full_target key resets fetched) (lg_cycles st1))
      else (st1, False))"

text \<open>A number the snapshot states, and the reading of a window: its percentage, clamped, and its reset.\<close>

definition number_of :: "jval \<Rightarrow> rat option" where
  "number_of v = (case v of JInt i \<Rightarrow> Some (of_int i) | JFloat f \<Rightarrow> float_rat f | _ \<Rightarrow> None)"

definition reading :: "ledger_env \<Rightarrow> jdict \<Rightarrow> (rat \<times> rat) option" where
  "reading env w =
     (case number_of (jget w ''usedPercent'') of
        None \<Rightarrow> None
      | Some p \<Rightarrow> (case parse_event_time env (text_or_empty env (jget w ''resetsAt'')) of
                    None \<Rightarrow> None | Some resets \<Rightarrow> Some (max 0 (min 100 p), resets)))"

text \<open>
  One window. \<open>_last_sample\<close> is set before the transaction, so it stays set when the transaction is rolled back.
\<close>

definition observe_window ::
  "ledger_env \<Rightarrow> string \<Rightarrow> string \<Rightarrow> rat \<Rightarrow> jdict \<times> string \<Rightarrow> ledger \<times> cycle_key list \<Rightarrow> ledger \<times> (ledger_error + cycle_key list)" where
  "observe_window env agent profile fetched wk sc =
     (case (wk, sc) of ((w, kind), (st, changed)) \<Rightarrow>
      (case reading env w of
         None \<Rightarrow> (st, Inr changed)
       | Some (pct, resets) \<Rightarrow>
           (let key = (agent, profile, kind) in
            if dget (lg_last st) key = Some (pct, resets)
            then (case repeat_sample key pct resets fetched st of (st1, stamped) \<Rightarrow> (st1, Inr (if stamped then changed @ [key] else changed)))
            else
              (let st1 = st\<lparr>lg_last := dset key (pct, resets) (lg_last st)\<rparr> in
               case fold_sample key pct resets fetched (jget w ''windowMinutes'') (add_sample key pct resets fetched st1) of
                 Inl e \<Rightarrow> (st1, Inl e)
               | Inr st2 \<Rightarrow> (st2, Inr (changed @ [key]))))))"

fun observe_windows ::
  "ledger_env \<Rightarrow> string \<Rightarrow> string \<Rightarrow> rat \<Rightarrow> (jdict \<times> string) list \<Rightarrow> ledger \<times> cycle_key list \<Rightarrow> ledger \<times> (ledger_error + cycle_key list)" where
  "observe_windows env agent profile fetched [] (st, changed) = (st, Inr changed)"
| "observe_windows env agent profile fetched (wk # wks) sc =
     (case observe_window env agent profile fetched wk sc of
        (st, Inl e) \<Rightarrow> (st, Inl e)
      | (st, Inr changed) \<Rightarrow> observe_windows env agent profile fetched wks (st, changed))"


section \<open>Closing\<close>

definition local_totals :: "totals_provider \<Rightarrow> rat \<Rightarrow> rat \<Rightarrow> cycle_row \<Rightarrow> tokens \<times> string \<times> string option" where
  "local_totals tot since wall r =
     (let t = tot (qc_agent r) (qc_profile r) (qc_started r) (qc_resets r) in
      (tt_tokens t, case tt_coverage t of Some c \<Rightarrow> c | None \<Rightarrow> slice_coverage (qc_started r) (qc_resets r) since wall))"

definition freeze :: "tokens \<times> string \<times> string option \<Rightarrow> rat \<Rightarrow> cycle_row \<Rightarrow> cycle_row" where
  "freeze ts wall r =
     (case ts of (t, state, reason) \<Rightarrow>
      r\<lparr>qc_tokens := t, qc_closed := True, qc_cov_state := Some state, qc_cov_reason := reason, qc_reconciled := Some wall\<rparr>)"

definition expired_open :: "rat \<Rightarrow> cycle_row \<Rightarrow> bool" where
  "expired_open wall r = (\<not> qc_closed r \<and> qc_resets r \<le> wall)"

definition close_row :: "totals_provider \<Rightarrow> rat \<Rightarrow> ledger \<Rightarrow> cycle_row \<Rightarrow> ledger" where
  "close_row tot wall st r = update_cycles (\<lambda>q. qc_id q = qc_id r) (freeze (local_totals tot (lg_since st) wall r) wall) st"

definition close_expired :: "totals_provider \<Rightarrow> rat \<Rightarrow> ledger \<Rightarrow> ledger \<times> cycle_key list" where
  "close_expired tot wall st =
     (let rows = filter (expired_open wall) (lg_cycles st) in
      (foldl (close_row tot wall) st rows, map cycle_key_of rows))"

definition observe ::
  "ledger_env \<Rightarrow> totals_provider \<Rightarrow> string \<Rightarrow> string \<Rightarrow> jval \<Rightarrow> rat \<Rightarrow> ledger \<Rightarrow> ledger \<times> (ledger_error + cycle_key list)" where
  "observe env tot agent profile_id snapshot wall st =
     (case snapshot of
        JDict d \<Rightarrow>
          if agent = [] \<or> jget d ''status'' \<noteq> JStr ''ok'' \<or> truthy (jget d ''stale'') then (st, Inr [])
          else
            (let profile = normalize_profile_id profile_id;
                 fetched = (case parse_event_time env (text_or_empty env (jget d ''fetchedAt'')) of
                              None \<Rightarrow> wall | Some t \<Rightarrow> if t = 0 then wall else t) in
             case snapshot_windows d of
               Inl e \<Rightarrow> (st, Inl e)
             | Inr windows \<Rightarrow>
                 (case observe_windows env agent profile fetched (window_kinds_of env windows) (st, []) of
                    (st1, Inl e) \<Rightarrow> (st1, Inl e)
                  | (st1, Inr changed) \<Rightarrow>
                      (case close_expired tot wall st1 of
                         (st2, expired) \<Rightarrow> (st2, Inr (foldl (\<lambda>acc k. if k \<in> set acc then acc else acc @ [k]) changed expired)))))
      | _ \<Rightarrow> (st, Inr []))"


section \<open>Limit messages\<close>

text \<open>
  \<open>\b(weekly|week|only|model|models)\b|[^a-z0-9]\<close> replaced by nothing, from left to right; \<open>before\<close> says whether the
  character before is a word character.
\<close>

definition is_word :: "char \<Rightarrow> bool" where
  "is_word c = (let n = of_char c :: nat in is_digit c \<or> c = CHR ''_'' \<or> (65 \<le> n \<and> n \<le> 90) \<or> (97 \<le> n \<and> n \<le> 122) \<or>
     n \<in> {170, 178, 179, 181, 185, 186, 188, 189, 190} \<or> (192 \<le> n \<and> n \<noteq> 215 \<and> n \<noteq> 247))"

definition NOISE_WORDS :: "string list" where
  "NOISE_WORDS = [''weekly'', ''week'', ''only'', ''model'', ''models'']"

definition noise_word :: "string \<Rightarrow> string option" where
  "noise_word s = find (\<lambda>w. prefix w s \<and> (case drop (length w) s of [] \<Rightarrow> True | c # _ \<Rightarrow> \<not> is_word c)) NOISE_WORDS"

definition label_char :: "char \<Rightarrow> bool" where
  "label_char c = (let n = of_char c :: nat in is_digit c \<or> (97 \<le> n \<and> n \<le> 122))"

function label_scan :: "bool \<Rightarrow> string \<Rightarrow> string" where
  "label_scan before [] = []"
| "label_scan before (c # s) =
     (case (if before then None else noise_word (c # s)) of
        Some w \<Rightarrow> label_scan True (drop (length w - 1) s)
      | None \<Rightarrow> (if label_char c then c # label_scan (is_word c) s else label_scan (is_word c) s))"
  by pat_completeness auto
termination by (relation "measure (\<lambda>(b, s). length s)") simp_all

definition model_label :: "string \<Rightarrow> string" where
  "model_label v = label_scan False (py_casefold v)"

definition compatible :: "string option \<Rightarrow> string option \<Rightarrow> string \<Rightarrow> bool" where
  "compatible window_kind model_scope kind =
     (let base = base_kind kind; label = snd (snd (str_partition CHR '':'' kind));
          wanted = (case window_kind of None \<Rightarrow> [] | Some k \<Rightarrow> k);
          requested = base_kind wanted;
          scope = (case model_scope of None \<Rightarrow> [] | Some m \<Rightarrow> m) in
      if CHR '':'' \<in> set wanted \<and> kind \<noteq> wanted then False
      else if requested = ''weekly'' \<and> base \<notin> {''weekly'', ''weekly-model''} then False
      else if requested \<noteq> ''weekly'' \<and> requested \<noteq> [] \<and> base \<noteq> requested then False
      else if scope = ''all'' then base \<noteq> ''weekly-model'' \<and> label = []
      else if scope \<noteq> [] then label \<noteq> [] \<and> model_label label = model_label scope
      else True)"

definition exhausted_candidate :: "string \<Rightarrow> string \<Rightarrow> rat \<Rightarrow> rat \<Rightarrow> rat \<Rightarrow> cycle_row \<Rightarrow> bool" where
  "exhausted_candidate agent profile at1 resets tol r =
     (qc_agent r = agent \<and> qc_profile r = profile \<and> \<not> qc_closed r \<and> at1 < qc_resets r \<and>
      (case qc_started r of None \<Rightarrow> True | Some s \<Rightarrow> s \<le> at1) \<and> near tol resets r)"

text \<open>The block under the lock: exactly one candidate is stamped, unless it already ran out earlier.\<close>

definition stamp_candidate ::
  "string \<Rightarrow> string \<Rightarrow> rat \<Rightarrow> rat \<Rightarrow> rat \<Rightarrow> string option \<Rightarrow> string option \<Rightarrow> ledger \<Rightarrow> ledger \<times> string list" where
  "stamp_candidate agent profile at1 resets tol window_kind model_scope st =
     (case filter (\<lambda>r. exhausted_candidate agent profile at1 resets tol r \<and> compatible window_kind model_scope (qc_kind r)) (lg_cycles st) of
        [r] \<Rightarrow>
          if \<not> earlier at1 (qc_exhausted r) then (st, [])
          else (update_cycles (\<lambda>q. qc_id q = qc_id r) (\<lambda>q. q\<lparr>qc_exhausted := Some at1, qc_source := Some ''cli''\<rparr>) st, [qc_kind r])
      | _ \<Rightarrow> (st, []))"

definition mark_exhausted ::
  "string \<Rightarrow> string \<Rightarrow> pyfloat \<Rightarrow> pyfloat option \<Rightarrow> string option \<Rightarrow> string option \<Rightarrow> string \<Rightarrow> ledger \<Rightarrow> ledger \<times> string list" where
  "mark_exhausted agent profile_id at_f resets_f window_kind model_scope precision st =
     (case (float_rat at_f, Option.bind resets_f float_rat) of
        (Some at1, Some resets) \<Rightarrow>
          if precision \<notin> {''exact'', ''minute'', ''hour'', ''clock_only''} then (st, [])
          else if precision = ''clock_only'' \<and> window_kind \<noteq> Some ''session'' then (st, [])
          else
            (let tol = (if precision = ''hour'' then EXHAUSTED_MATCH_TOLERANCE_S else RESET_MATCH_TOLERANCE_S);
                 profile = normalize_profile_id profile_id in
             if profile = ''unknown'' then (st, [])
             else stamp_candidate agent profile at1 resets tol window_kind model_scope st)
      | _ \<Rightarrow> (st, []))"


section \<open>Late slices\<close>

definition touched :: "rat \<Rightarrow> (string \<times> string \<times> int) \<Rightarrow> cycle_row \<Rightarrow> bool" where
  "touched wall change r =
     (case change of (agent, profile, bucket) \<Rightarrow>
      qc_agent r = agent \<and> qc_profile r = profile \<and> qc_closed r \<and>
      (case qc_started r of None \<Rightarrow> False | Some s \<Rightarrow> s \<le> of_int bucket \<and> wall - SLICE_RETENTION_S \<le> s) \<and>
      of_int bucket < qc_resets r)"

definition rows_touched :: "rat \<Rightarrow> (string \<times> string \<times> int) list \<Rightarrow> ledger \<Rightarrow> (int \<times> cycle_row) list" where
  "rows_touched wall changes st =
     foldl (\<lambda>d c. foldl (\<lambda>d r. dset (qc_id r) r d) d (filter (touched wall c) (lg_cycles st))) [] changes"

definition reconcile_row :: "totals_provider \<Rightarrow> rat \<Rightarrow> ledger \<times> cycle_key list \<Rightarrow> int \<times> cycle_row \<Rightarrow> ledger \<times> cycle_key list" where
  "reconcile_row tot wall sc ir =
     (case (sc, ir) of ((st, changed), (_, r)) \<Rightarrow>
      (case local_totals tot (lg_since st) wall r of (t, state, reason) \<Rightarrow>
         if state \<noteq> ''available'' then (st, changed)
         else if qc_cov_state r = Some ''available'' \<and> qc_tokens r = t then (st, changed)
         else
           (update_cycles (\<lambda>q. qc_id q = qc_id r \<and> qc_closed q)
              (\<lambda>q. q\<lparr>qc_tokens := t, qc_cov_state := Some ''available'', qc_cov_reason := None, qc_reconciled := Some wall\<rparr>) st,
            if cycle_key_of r \<in> set changed then changed else changed @ [cycle_key_of r])))"

definition reconcile_pending :: "totals_provider \<Rightarrow> (string \<times> string \<times> int) list \<Rightarrow> rat \<Rightarrow> ledger \<Rightarrow> ledger \<times> cycle_key list" where
  "reconcile_pending tot changes wall st = foldl (reconcile_row tot wall) (st, []) (rows_touched wall changes st)"


section \<open>Start and reset\<close>

definition ledger_reset :: "ledger \<Rightarrow> ledger" where
  "ledger_reset st = st\<lparr>lg_samples := [], lg_cycles := [], lg_last := []\<rparr>"

text \<open>\<open>WHERE id IN (SELECT MAX(id) .. GROUP BY key)\<close>: the rows no later row of their key follows.\<close>

definition newest_samples :: "sample_row list \<Rightarrow> sample_row list" where
  "newest_samples rows = filter (\<lambda>s. list_all (\<lambda>t. sample_key_of t = sample_key_of s \<longrightarrow> qs_id t \<le> qs_id s) rows) rows"

definition load_last_samples :: "ledger \<Rightarrow> ledger" where
  "load_last_samples st = st\<lparr>lg_last := foldl (\<lambda>d s. dset (sample_key_of s) (qs_pct s, qs_resets s) d) [] (newest_samples (lg_samples st))\<rparr>"


section \<open>Readers\<close>

text \<open>\<open>_iso\<close>: the offset of UTC is written \<open>Z\<close>.\<close>

definition iso_z :: "ledger_env \<Rightarrow> rat \<Rightarrow> string" where
  "iso_z env t = (let s = le_isoformat env t in if suffix ''+00:00'' s then take (length s - 6) s @ ''Z'' else s)"

definition identities :: "ledger \<Rightarrow> (string \<times> string) set" where
  "identities st = (\<lambda>r. (qc_agent r, qc_profile r)) ` set (lg_cycles st)"

text \<open>The cycle as it is sent: the moments are formatted, the sums are shown only when the detail is known.\<close>

record cycle_dto =
  cd_id :: int
  cd_agent :: string
  cd_profile :: string
  cd_kind :: string
  cd_started :: "string option"
  cd_resets :: string
  cd_closed :: bool
  cd_max :: rat
  cd_exhausted :: "string option"
  cd_source :: "string option"
  cd_sums :: "tokens option"
  cd_recorded :: tokens
  cd_samples :: int
  cd_detail_known :: bool
  cd_state :: "string option"
  cd_reason :: "string option"
  cd_last_sample :: "string option"
  cd_reconciled :: "string option"
  cd_eligible :: bool

definition exclusion :: "cycle_dto \<Rightarrow> string option" where
  "exclusion c =
     (if \<not> cd_closed c then Some ''ongoing''
      else if cd_exhausted c = None then Some ''no_limit''
      else if cd_source c \<notin> {Some ''sample'', Some ''cli''} then Some ''untrusted_source''
      else if \<not> cd_detail_known c then Some ''unavailable_detail''
      else None)"

definition row_to_cycle :: "ledger_env \<Rightarrow> totals_provider \<Rightarrow> rat \<Rightarrow> rat \<Rightarrow> cycle_row \<Rightarrow> cycle_dto" where
  "row_to_cycle env tot since wall r =
     (case (if qc_closed r then (qc_tokens r, qc_cov_state r, qc_cov_reason r)
            else (case local_totals tot since wall r of (t, state, reason) \<Rightarrow> (t, Some state, reason))) of
        (t, state, reason) \<Rightarrow>
        (let c = \<lparr>cd_id = qc_id r, cd_agent = qc_agent r, cd_profile = qc_profile r, cd_kind = qc_kind r,
                  cd_started = map_option (iso_z env) (qc_started r), cd_resets = iso_z env (qc_resets r),
                  cd_closed = qc_closed r, cd_max = qc_max r, cd_exhausted = map_option (iso_z env) (qc_exhausted r),
                  cd_source = qc_source r, cd_sums = (if state = Some ''available'' then Some t else None), cd_recorded = t,
                  cd_samples = qc_samples r, cd_detail_known = (state = Some ''available''), cd_state = state, cd_reason = reason,
                  cd_last_sample = map_option (iso_z env) (qc_last_sample r),
                  cd_reconciled = map_option (iso_z env) (qc_reconciled r), cd_eligible = False\<rparr>
         in c\<lparr>cd_eligible := (exclusion c = None)\<rparr>))"

text \<open>\<open>summarize\<close>: per kind, how many cycles, how many ran out, and the average over the ones that count.\<close>

record summary =
  su_cycles :: nat
  su_exhausted :: nat
  su_sum :: int
  su_eligible :: nat
  su_excluded :: nat
  su_exclusions :: "(string \<times> nat) list"

definition empty_summary :: summary where
  "empty_summary = \<lparr>su_cycles = 0, su_exhausted = 0, su_sum = 0, su_eligible = 0, su_excluded = 0,
     su_exclusions = [(''ongoing'', 0), (''no_limit'', 0), (''untrusted_source'', 0), (''unavailable_detail'', 0)]\<rparr>"

definition count_at :: "string \<Rightarrow> (string \<times> nat) list \<Rightarrow> nat" where
  "count_at k d = (case dget d k of Some n \<Rightarrow> n | None \<Rightarrow> 0)"

definition sum_of :: "cycle_dto \<Rightarrow> int" where
  "sum_of c = (case cd_sums c of Some t \<Rightarrow> tokens_total t | None \<Rightarrow> 0)"

definition add_cycle :: "cycle_dto \<Rightarrow> summary \<Rightarrow> summary" where
  "add_cycle c e =
     (let e1 = e\<lparr>su_cycles := su_cycles e + 1, su_exhausted := su_exhausted e + (if cd_exhausted c \<noteq> None then 1 else 0)\<rparr> in
      case exclusion c of
        None \<Rightarrow> e1\<lparr>su_sum := su_sum e1 + sum_of c, su_eligible := su_eligible e1 + 1\<rparr>
      | Some reason \<Rightarrow> e1\<lparr>su_excluded := su_excluded e1 + 1,
                         su_exclusions := dset reason (count_at reason (su_exclusions e1) + 1) (su_exclusions e1)\<rparr>)"

definition summary_entry :: "(string \<times> summary) list \<Rightarrow> string \<Rightarrow> summary" where
  "summary_entry d k = (case dget d k of Some e \<Rightarrow> e | None \<Rightarrow> empty_summary)"

definition summarize_by :: "(cycle_dto \<Rightarrow> string) \<Rightarrow> cycle_dto list \<Rightarrow> (string \<times> summary) list" where
  "summarize_by kind cycles = foldl (\<lambda>d c. dset (kind c) (add_cycle c (summary_entry d (kind c))) d) [] cycles"

definition summarize :: "cycle_dto list \<Rightarrow> (string \<times> summary) list" where
  "summarize cycles = summarize_by cd_kind cycles"

definition avg_exhausted :: "summary \<Rightarrow> rat option" where
  "avg_exhausted e = (if su_eligible e = 0 then None else Some (of_int (su_sum e) / of_nat (su_eligible e)))"

text \<open>\<open>ORDER BY resets_at DESC, id DESC\<close>.\<close>

definition newest_first :: "cycle_row list \<Rightarrow> cycle_row list" where
  "newest_first rows = rev (sort_key (\<lambda>r. (qc_resets r, qc_id r)) rows)"

definition kind_selected :: "string option \<Rightarrow> cycle_row \<Rightarrow> bool" where
  "kind_selected kind r = (case kind of None \<Rightarrow> True | Some k \<Rightarrow> k = [] \<or> qc_kind r = k)"

definition cycles :: "ledger_env \<Rightarrow> totals_provider \<Rightarrow> string \<Rightarrow> string \<Rightarrow> string option \<Rightarrow> rat \<Rightarrow> ledger \<Rightarrow> ledger \<times> cycle_dto list" where
  "cycles env tot agent profile_id kind wall st =
     (let profile = normalize_profile_id profile_id; st1 = fst (close_expired tot wall st) in
      (st1, map (row_to_cycle env tot (lg_since st1) wall)
         (newest_first (filter (\<lambda>r. qc_agent r = agent \<and> qc_profile r = profile \<and> kind_selected kind r) (lg_cycles st1)))))"


subsection \<open>Pages\<close>

text \<open>
  The arguments of \<open>query_cycles\<close> arrive from a connection: the limit, the flags, the cursor and the snapshot are document
  values. Every check of them is an error before anything is read; \<open>range-too-large\<close> comes after the reading.
\<close>

definition int_arg :: "jval \<Rightarrow> int option" where
  "int_arg v = (case v of JInt i \<Rightarrow> Some i | _ \<Rightarrow> None)"

definition bool_arg :: "jval \<Rightarrow> bool option" where
  "bool_arg v = (case v of JBool b \<Rightarrow> Some b | _ \<Rightarrow> None)"

definition cutoff_of :: "ledger_env \<Rightarrow> rat \<Rightarrow> jval \<Rightarrow> ledger_error + (rat \<times> int option)" where
  "cutoff_of env wall snapshot =
     (case snapshot of
        JNull \<Rightarrow> Inr (wall, None)
      | JDict d \<Rightarrow>
          (case (parse_event_time env (text_or_empty env (jget d ''at'')), int_arg (jget d ''max_cycle_id'')) of
             (Some c, Some m) \<Rightarrow> if m < 0 \<or> wall < c then Inl (Invalid ''invalid-snapshot'') else Inr (c, Some m)
           | _ \<Rightarrow> Inl (Invalid ''invalid-snapshot''))
      | _ \<Rightarrow> Inl (Invalid ''invalid-snapshot''))"

definition before_of :: "ledger_env \<Rightarrow> jval \<Rightarrow> ledger_error + (rat \<times> int) option" where
  "before_of env cursor =
     (case cursor of
        JNull \<Rightarrow> Inr None
      | JDict d \<Rightarrow>
          (case (parse_event_time env (text_or_empty env (jget d ''resets_at'')), int_arg (jget d ''id'')) of
             (Some c, Some m) \<Rightarrow> if m < 1 then Inl (Invalid ''invalid-cursor'') else Inr (Some (c, m))
           | _ \<Rightarrow> Inl (Invalid ''invalid-cursor''))
      | _ \<Rightarrow> Inl (Invalid ''invalid-cursor''))"

definition range_edge :: "ledger_env \<Rightarrow> jval \<Rightarrow> rat \<Rightarrow> rat option" where
  "range_edge env v deflt = (if v = JNull then Some deflt else parse_event_time env (le_str env v))"

record query =
  qy_limit :: nat
  qy_current :: bool
  qy_export :: bool
  qy_cutoff :: rat
  qy_max_id :: "int option"
  qy_start :: rat
  qy_end :: rat
  qy_before :: "(rat \<times> int) option"

definition read_query ::
  "ledger_env \<Rightarrow> jval \<Rightarrow> jval \<Rightarrow> jval \<Rightarrow> jval \<Rightarrow> jval \<Rightarrow> jval \<Rightarrow> jval \<Rightarrow> rat \<Rightarrow> ledger_error + query" where
  "read_query env range_start range_end include_current limit cursor snapshot export wall =
     (case int_arg limit of
        None \<Rightarrow> Inl (Invalid ''invalid-limit'')
      | Some n \<Rightarrow>
        if n < 1 \<or> 200 < n then Inl (Invalid ''invalid-limit'')
        else
          (case (bool_arg include_current, bool_arg export) of
             (Some current, Some ex) \<Rightarrow>
               if ex \<and> (cursor \<noteq> JNull \<or> snapshot \<noteq> JNull) then Inl (Invalid ''export-requires-fresh-query'')
               else
                 (case cutoff_of env wall snapshot of
                    Inl e \<Rightarrow> Inl e
                  | Inr (cutoff, max_id) \<Rightarrow>
                      (case (range_edge env range_start (cutoff - 30 * 86400), range_edge env range_end cutoff) of
                         (Some start, Some fin) \<Rightarrow>
                           if fin \<le> start then Inl (Invalid ''invalid-range'')
                           else
                             (case before_of env cursor of
                                Inl e \<Rightarrow> Inl e
                              | Inr before \<Rightarrow>
                                  Inr \<lparr>qy_limit = nat n, qy_current = current, qy_export = ex, qy_cutoff = cutoff, qy_max_id = max_id,
                                       qy_start = start, qy_end = fin, qy_before = before\<rparr>)
                       | _ \<Rightarrow> Inl (Invalid ''invalid-range'')))
           | _ \<Rightarrow> Inl (Invalid ''invalid-query'')))"

definition in_query :: "string \<Rightarrow> string \<Rightarrow> string option \<Rightarrow> query \<Rightarrow> int \<Rightarrow> cycle_row \<Rightarrow> bool" where
  "in_query agent profile kind q max_id r =
     (qc_agent r = agent \<and> qc_profile r = profile \<and> qc_id r \<le> max_id \<and> kind_selected kind r \<and>
      ((qy_start q \<le> qc_resets r \<and> qc_resets r < qy_end q) \<or>
       (qy_current q \<and> qy_cutoff q \<le> qy_end q \<and> qy_cutoff q < qc_resets r \<and>
        (case qc_started r of None \<Rightarrow> True | Some s \<Rightarrow> s \<le> qy_cutoff q))))"

definition max_id_of :: "ledger \<Rightarrow> int" where
  "max_id_of st = foldl max 0 (map qc_id (lg_cycles st))"

record cycle_page =
  pg_cycles :: "cycle_dto list"
  pg_summary :: "(string \<times> summary) list"
  pg_total :: nat
  pg_next :: "(string \<times> int) option"
  pg_at :: string
  pg_max_id :: int
  pg_range :: "string \<times> string"

definition before_key :: "(rat \<times> int) option \<Rightarrow> cycle_row \<Rightarrow> bool" where
  "before_key b r = (case b of None \<Rightarrow> True | Some (c, i) \<Rightarrow> qc_resets r < c \<or> (qc_resets r = c \<and> qc_id r < i))"

definition page_rows :: "query \<Rightarrow> cycle_row list \<Rightarrow> cycle_row list" where
  "page_rows q rows =
     (let pairs = filter (before_key (qy_before q)) rows in if qy_export q then pairs else take (qy_limit q) pairs)"

definition page_cursor :: "ledger_env \<Rightarrow> query \<Rightarrow> cycle_row list \<Rightarrow> (string \<times> int) option" where
  "page_cursor env q rows =
     (let pairs = filter (before_key (qy_before q)) rows; page = page_rows q rows in
      if length page < length pairs then Some (le_isoformat env (qc_resets (last page)), qc_id (last page)) else None)"

definition query_cycles ::
  "ledger_env \<Rightarrow> totals_provider \<Rightarrow> string \<Rightarrow> string \<Rightarrow> string option \<Rightarrow> jval \<Rightarrow> jval \<Rightarrow> jval \<Rightarrow> jval \<Rightarrow> jval \<Rightarrow> jval \<Rightarrow> jval \<Rightarrow> rat \<Rightarrow>
   ledger \<Rightarrow> ledger \<times> (ledger_error + cycle_page)" where
  "query_cycles env tot agent profile_id kind range_start range_end include_current limit cursor snapshot export wall st =
     (case read_query env range_start range_end include_current limit cursor snapshot export wall of
        Inl e \<Rightarrow> (st, Inl e)
      | Inr q \<Rightarrow>
          (let profile = normalize_profile_id profile_id;
               st1 = fst (close_expired tot wall st);
               max_id = (case qy_max_id q of Some m \<Rightarrow> m | None \<Rightarrow> max_id_of st1);
               rows = newest_first (filter (in_query agent profile kind q max_id) (lg_cycles st1)) in
           if 10000 < length rows then (st1, Inl (Invalid ''range-too-large''))
           else
             (st1, Inr \<lparr>pg_cycles = map (row_to_cycle env tot (lg_since st1) wall) (page_rows q rows),
                        pg_summary = summarize (map (row_to_cycle env tot (lg_since st1) wall) rows),
                        pg_total = length rows, pg_next = page_cursor env q rows,
                        pg_at = iso_z env (qy_cutoff q), pg_max_id = max_id,
                        pg_range = (iso_z env (qy_start q), iso_z env (qy_end q))\<rparr>)))"


subsection \<open>Periods\<close>

record period_entry =
  pe_cycles :: "cycle_dto list"
  pe_weekly :: nat

definition period_row ::
  "ledger_env \<Rightarrow> totals_provider \<Rightarrow> string \<Rightarrow> string option \<Rightarrow> rat \<Rightarrow> rat \<Rightarrow> (cycle_key \<times> period_entry) list \<Rightarrow> cycle_row \<Rightarrow> (cycle_key \<times> period_entry) list" where
  "period_row env tot granularity kind since wall d r =
     (let anchor = (case qc_started r of Some s \<Rightarrow> s | None \<Rightarrow> qc_resets r);
          key = (le_period env anchor granularity, qc_agent r, qc_profile r);
          e = (case dget d key of Some e \<Rightarrow> e | None \<Rightarrow> \<lparr>pe_cycles = [], pe_weekly = 0\<rparr>);
          weekly = base_kind (qc_kind r) \<in> set WEEKLY_KINDS;
          e1 = (if weekly then e\<lparr>pe_weekly := pe_weekly e + (if qc_exhausted r \<noteq> None then 1 else 0)\<rparr> else e);
          filtered = (case kind of None \<Rightarrow> False | Some k \<Rightarrow> k \<noteq> []) in
      dset key (if weekly \<and> \<not> filtered then e1
                else e1\<lparr>pe_cycles := pe_cycles e1 @ [(row_to_cycle env tot since wall r)\<lparr>cd_kind := ''selected''\<rparr>]\<rparr>) d)"

definition period_stats ::
  "ledger_env \<Rightarrow> totals_provider \<Rightarrow> string \<Rightarrow> rat \<Rightarrow> string option \<Rightarrow> ledger \<Rightarrow> ledger \<times> (cycle_key \<times> (summary \<times> nat)) list" where
  "period_stats env tot granularity wall kind st =
     (let st1 = fst (close_expired tot wall st);
          grouped = foldl (period_row env tot granularity kind (lg_since st1) wall) [] (filter (kind_selected kind) (lg_cycles st1)) in
      (st1, map (\<lambda>(k, e). (k, (summary_entry (summarize (pe_cycles e)) ''selected'', pe_weekly e))) grouped))"

end
