(* ===== verification/Quota_Facts.thy ===== *)
theory Quota_Facts
  imports Quota_Ledger
begin

text \<open>
  What the operations of the quota ledger keep: the cycles of one window never overlap, evidence only gets earlier, and
  the quota side of a closed cycle is final.
\<close>

section \<open>How a cycle may change\<close>

definition evolved :: "cycle_row \<Rightarrow> cycle_row \<Rightarrow> bool" where
  "evolved r r' \<longleftrightarrow>
     qc_id r' = qc_id r \<and> cycle_key_of r' = cycle_key_of r \<and> qc_started r' = qc_started r \<and> qc_resets r' = qc_resets r \<and>
     qc_max r \<le> qc_max r' \<and> qc_samples r \<le> qc_samples r' \<and>
     (\<forall>x. qc_exhausted r = Some x \<longrightarrow> (\<exists>y \<le> x. qc_exhausted r' = Some y)) \<and>
     (qc_closed r \<longrightarrow> qc_closed r' \<and> qc_max r' = qc_max r \<and> qc_samples r' = qc_samples r \<and>
        qc_exhausted r' = qc_exhausted r \<and> qc_source r' = qc_source r)"

lemma evolved_refl [simp, intro]: "evolved r r"
  by (auto simp: evolved_def)

lemma evolved_trans:
  assumes ab: "evolved a b" and bc: "evolved b c"
  shows "evolved a c"
proof -
  have "\<exists>z \<le> x. qc_exhausted c = Some z" if x: "qc_exhausted a = Some x" for x
  proof -
    obtain y where y: "y \<le> x" "qc_exhausted b = Some y" using ab x unfolding evolved_def by blast
    then obtain z where "z \<le> y" "qc_exhausted c = Some z" using bc unfolding evolved_def by blast
    with y show ?thesis by (meson order_trans)
  qed
  then show ?thesis using ab bc unfolding evolved_def by (simp add: order_trans [of _ "qc_max b"] order_trans [of _ "qc_samples b"])
qed

definition kept :: "ledger \<Rightarrow> ledger \<Rightarrow> bool" where
  "kept st st' \<longleftrightarrow> (\<exists>xs ys. lg_cycles st' = xs @ ys \<and> list_all2 evolved (lg_cycles st) xs)"

lemma kept_refl [simp, intro]: "kept st st"
  unfolding kept_def by (metis append_Nil2 evolved_refl list_all2_refl)

lemma kept_trans [trans]: "kept a b \<Longrightarrow> kept b c \<Longrightarrow> kept a c"
proof -
  assume "kept a b" "kept b c"
  then obtain xs ys us vs where b: "lg_cycles b = xs @ ys" "list_all2 evolved (lg_cycles a) xs"
    and c: "lg_cycles c = us @ vs" "list_all2 evolved (xs @ ys) us" unfolding kept_def by metis
  from c(2) obtain us1 us2 where us: "us = us1 @ us2" "list_all2 evolved xs us1" by (auto simp: list_all2_append1)
  have "list_all2 evolved (lg_cycles a) us1" using b(2) us(2) evolved_trans unfolding list_all2_conv_all_nth by metis
  then show "kept a c" unfolding kept_def using c(1) us(1) by (metis append_assoc)
qed

lemma kept_same [intro]: "lg_cycles st' = lg_cycles st \<Longrightarrow> kept st st'"
  unfolding kept_def by (metis append_Nil2 evolved_refl list_all2_refl)

lemma kept_update:
  "(\<And>r. r \<in> set (lg_cycles st) \<Longrightarrow> P r \<Longrightarrow> evolved r (f r)) \<Longrightarrow> kept st (update_cycles P f st)"
  unfolding kept_def update_cycles_def
  by (rule exI [of _ "map (\<lambda>r. if P r then f r else r) (lg_cycles st)"]) (auto simp: list_all2_conv_all_nth)

lemma kept_member: "kept st st' \<Longrightarrow> r \<in> set (lg_cycles st) \<Longrightarrow> \<exists>r' \<in> set (lg_cycles st'). evolved r r'"
  unfolding kept_def by (metis Un_iff in_set_conv_nth list_all2_conv_all_nth set_append)


section \<open>The invariant\<close>

definition apart :: "cycle_row \<Rightarrow> cycle_row \<Rightarrow> bool" where
  "apart a b \<longleftrightarrow> (cycle_key_of a = cycle_key_of b \<longrightarrow> RESET_MATCH_TOLERANCE_S < \<bar>qc_resets a - qc_resets b\<bar>)"

definition row_ok :: "cycle_row \<Rightarrow> bool" where
  "row_ok r \<longleftrightarrow> 0 \<le> qc_max r \<and> qc_max r \<le> 100 \<and> 1 \<le> qc_id r \<and> 1 \<le> qc_samples r \<and>
     (qc_exhausted r = None \<longleftrightarrow> qc_source r = None) \<and> qc_source r \<in> {None, Some ''sample'', Some ''cli''} \<and>
     (qc_closed r \<longrightarrow> qc_cov_state r \<noteq> None \<and> qc_reconciled r \<noteq> None)"

definition ledger_ok :: "ledger \<Rightarrow> bool" where
  "ledger_ok st \<longleftrightarrow> sorted_wrt (<) (map qc_id (lg_cycles st)) \<and> sorted_wrt apart (lg_cycles st) \<and>
     (\<forall>r \<in> set (lg_cycles st). row_ok r \<and> qc_id r < lg_next_cycle st) \<and> 1 \<le> lg_next_cycle st"

lemma ledger_ids: "ledger_ok st \<Longrightarrow> distinct (map qc_id (lg_cycles st))"
  by (simp add: ledger_ok_def strict_sorted_iff)

lemma row_of_id: "ledger_ok st \<Longrightarrow> r \<in> set (lg_cycles st) \<Longrightarrow> q \<in> set (lg_cycles st) \<Longrightarrow> qc_id r = qc_id q \<Longrightarrow> r = q"
  using ledger_ids by (metis distinct_map inj_onD)

lemma ledger_ok_update:
  assumes "ledger_ok st"
    and "\<And>r. r \<in> set (lg_cycles st) \<Longrightarrow> P r \<Longrightarrow> evolved r (f r) \<and> row_ok (f r)"
  shows "ledger_ok (update_cycles P f st)"
proof -
  let ?g = "\<lambda>r. if P r then f r else r"
  have e: "evolved r (?g r)" and ok: "row_ok (?g r)" if "r \<in> set (lg_cycles st)" for r
    using that assms by (auto simp: ledger_ok_def)
  have ids: "map qc_id (map ?g (lg_cycles st)) = map qc_id (lg_cycles st)"
    using e by (simp add: evolved_def)
  have "apart (?g a) (?g b)" if "a \<in> set (lg_cycles st)" "b \<in> set (lg_cycles st)" "apart a b" for a b
    using e [OF that(1)] e [OF that(2)] that(3) unfolding evolved_def apart_def by metis
  then have "sorted_wrt apart (map ?g (lg_cycles st))"
    using assms(1) by (simp add: ledger_ok_def sorted_wrt_map sorted_wrt_iff_nth_less)
  moreover have "\<forall>r \<in> set (map ?g (lg_cycles st)). row_ok r \<and> qc_id r < lg_next_cycle st"
    using e ok assms(1) unfolding ledger_ok_def evolved_def by (metis (no_types, lifting) list.set_map imageE)
  moreover have c: "lg_cycles (update_cycles P f st) = map ?g (lg_cycles st)" "lg_next_cycle (update_cycles P f st) = lg_next_cycle st"
    by (simp_all add: update_cycles_def)
  ultimately show ?thesis using assms(1) unfolding ledger_ok_def c ids by blast
qed

lemma ledger_ok_same:
  "ledger_ok st \<Longrightarrow> lg_cycles st' = lg_cycles st \<Longrightarrow> lg_next_cycle st' = lg_next_cycle st \<Longrightarrow> ledger_ok st'"
  by (simp add: ledger_ok_def)

text \<open>A write is fine when it keeps the invariant and lets every cycle only evolve.\<close>

definition sound :: "ledger \<Rightarrow> ledger \<Rightarrow> bool" where
  "sound st st' \<longleftrightarrow> ledger_ok st' \<and> kept st st'"

lemma sound_trans [trans]: "sound a b \<Longrightarrow> sound b c \<Longrightarrow> sound a c"
  unfolding sound_def using kept_trans by blast

lemma sound_refl: "ledger_ok st \<Longrightarrow> sound st st"
  by (auto simp: sound_def)

lemma sound_update:
  assumes "ledger_ok st" "\<And>r. r \<in> set (lg_cycles st) \<Longrightarrow> row_ok r \<Longrightarrow> P r \<Longrightarrow> evolved r (f r) \<and> row_ok (f r)"
  shows "sound st (update_cycles P f st)"
proof -
  have "row_ok r" if "r \<in> set (lg_cycles st)" for r using assms(1) that by (simp add: ledger_ok_def)
  then show ?thesis unfolding sound_def using assms ledger_ok_update [of st P f] kept_update [of st P f] by blast
qed

lemma sound_same:
  "ledger_ok st \<Longrightarrow> lg_cycles st' = lg_cycles st \<Longrightarrow> lg_next_cycle st' = lg_next_cycle st \<Longrightarrow> sound st st'"
  unfolding sound_def using ledger_ok_same by blast


section \<open>The operations\<close>

lemma closest_none:
  "closest_cycle key resets st = None \<longleftrightarrow> (\<forall>r \<in> set (lg_cycles st). cycle_key_of r = key \<longrightarrow> RESET_MATCH_TOLERANCE_S < \<bar>qc_resets r - resets\<bar>)"
proof -
  let ?xs = "filter (\<lambda>r. same_key key r \<and> near RESET_MATCH_TOLERANCE_S resets r) (lg_cycles st)"
  let ?ys = "sort_key (\<lambda>r. \<bar>qc_resets r - resets\<bar>) ?xs"
  have "closest_cycle key resets st = None \<longleftrightarrow> ?ys = []" by (simp add: closest_cycle_def split: list.split)
  also have "\<dots> \<longleftrightarrow> ?xs = []" by (metis set_empty set_sort)
  finally show ?thesis by (auto simp: same_key_def near_def not_le filter_empty_conv)
qed

lemma closest_some:
  assumes "closest_cycle key resets st = Some r"
  shows "r \<in> set (lg_cycles st)" "cycle_key_of r = key"
proof -
  have "r \<in> set (sort_key (\<lambda>r. \<bar>qc_resets r - resets\<bar>)
      (filter (\<lambda>r. same_key key r \<and> near RESET_MATCH_TOLERANCE_S resets r) (lg_cycles st)))"
    using assms unfolding closest_cycle_def by (metis (no_types, lifting) list.case_eq_if list.set_sel(1) option.distinct(1) option.inject)
  then show "r \<in> set (lg_cycles st)" "cycle_key_of r = key" by (auto simp: same_key_def)
qed

lemma sound_new:
  assumes "ledger_ok st" "closest_cycle key resets st = None" "0 \<le> pct" "pct \<le> 100"
  shows "sound st (new_cycle key started pct resets fetched st)"
proof -
  obtain a p k where key: "key = (a, p, k)" by (cases key)
  define r where "r = \<lparr>qc_id = lg_next_cycle st, qc_agent = a, qc_profile = p, qc_kind = k, qc_started = started,
            qc_resets = resets, qc_max = pct, qc_exhausted = (if 100 \<le> pct then Some fetched else None),
            qc_source = (if 100 \<le> pct then Some ''sample'' else None), qc_tokens = no_tokens, qc_closed = False,
            qc_samples = 1, qc_cov_state = None, qc_cov_reason = None, qc_reconciled = None, qc_last_sample = Some fetched\<rparr>"
  have new: "lg_cycles (new_cycle key started pct resets fetched st) = lg_cycles st @ [r]"
    "lg_next_cycle (new_cycle key started pct resets fetched st) = lg_next_cycle st + 1"
    by (simp_all add: new_cycle_def key r_def)
  have "row_ok r" using assms(1,3,4) by (auto simp: row_ok_def r_def ledger_ok_def)
  moreover have "\<forall>q \<in> set (lg_cycles st). apart q r"
    using assms(2) unfolding closest_none by (auto simp: apart_def r_def key cycle_key_of_def)
  moreover have "qc_id r = lg_next_cycle st" by (simp add: r_def)
  ultimately have "ledger_ok (new_cycle key started pct resets fetched st)"
    using assms(1) unfolding ledger_ok_def new by (auto simp: sorted_wrt_append)
  moreover have "kept st (new_cycle key started pct resets fetched st)"
    unfolding kept_def new by (metis evolved_refl list_all2_refl)
  ultimately show ?thesis by (simp add: sound_def)
qed

lemma sound_fold_sample:
  assumes ok: "ledger_ok st" and pct: "0 \<le> pct" "pct \<le> 100" and "fold_sample key pct resets fetched minutes st = Inr st'"
  shows "sound st st'"
proof (cases "closest_cycle key resets st")
  case None
  then show ?thesis using assms(4) sound_new [OF ok None pct] by (auto simp: fold_sample_def split: sum.splits option.splits)
next
  case (Some r)
  have "sound st (update_cycles (\<lambda>q. qc_id q = qc_id r \<and> \<not> qc_closed q) (take_sample pct fetched) st)"
    using ok
  proof (rule sound_update)
    fix q assume "row_ok q" "qc_id q = qc_id r \<and> \<not> qc_closed q"
    then show "evolved q (take_sample pct fetched q) \<and> row_ok (take_sample pct fetched q)"
      using pct by (auto simp: evolved_def row_ok_def take_sample_def earlier_def cycle_key_of_def split: option.splits)
  qed
  then show ?thesis using Some assms(4) sound_refl [OF ok] by (auto simp: fold_sample_def split: if_splits)
qed


lemma sound_repeat:
  assumes ok: "ledger_ok st"
  shows "sound st (fst (repeat_sample key pct resets fetched st))"
proof -
  let ?P = "\<lambda>r. same_key key r \<and> near RESET_MATCH_TOLERANCE_S resets r"
  let ?st1 = "update_cycles ?P (refresh_cycle fetched) st"
  have 1: "sound st ?st1"
    by (rule sound_update [OF ok]) (auto simp: evolved_def row_ok_def refresh_cycle_def cycle_key_of_def)
  then have ok1: "ledger_ok ?st1" by (simp add: sound_def)
  have 2: "sound ?st1 (update_cycles (full_target key resets fetched) (stamp_full fetched) ?st1)"
    by (rule sound_update [OF ok1])
      (auto simp: evolved_def row_ok_def stamp_full_def full_target_def earlier_def cycle_key_of_def split: option.splits)
  show ?thesis using 1 sound_trans [OF 1 2] by (simp add: repeat_sample_def Let_def)
qed

lemma reading_bounds: "reading env w = Some (pct, resets) \<Longrightarrow> 0 \<le> pct \<and> pct \<le> 100"
  by (auto simp: reading_def split: option.splits)

lemma sound_observe_window:
  assumes ok: "ledger_ok st"
  shows "sound st (fst (observe_window env agent profile fetched wk (st, changed)))"
proof -
  obtain w kind where wk: "wk = (w, kind)" by (cases wk)
  show ?thesis
  proof (cases "reading env w")
    case None
    then show ?thesis using ok by (simp add: observe_window_def wk sound_refl)
  next
    case (Some pr)
    obtain pct resets where pr: "pr = (pct, resets)" by (cases pr)
    let ?key = "(agent, profile, kind)"
    let ?st1 = "st\<lparr>lg_last := dset ?key (pct, resets) (lg_last st)\<rparr>"
    let ?st2 = "add_sample ?key pct resets fetched ?st1"
    have pct: "0 \<le> pct" "pct \<le> 100" using reading_bounds Some pr by auto
    have s1: "sound st ?st1" and s2: "sound st ?st2" by (rule sound_same [OF ok]; simp add: add_sample_def)+
    have s3: "sound st st3" if "fold_sample ?key pct resets fetched (jget w ''windowMinutes'') ?st2 = Inr st3" for st3
      using s2 sound_fold_sample [OF _ pct that] sound_trans by (auto simp: sound_def)
    show ?thesis
      using Some pr wk s1 s3 sound_repeat [OF ok, of ?key pct resets fetched]
      by (auto simp: observe_window_def Let_def split: prod.splits sum.splits)
  qed
qed

lemma sound_observe_windows: "ledger_ok st \<Longrightarrow> sound st (fst (observe_windows env agent profile fetched wks (st, changed)))"
proof (induction wks arbitrary: st changed)
  case Nil
  then show ?case by (simp add: sound_refl)
next
  case (Cons wk wks)
  obtain st1 res where w: "observe_window env agent profile fetched wk (st, changed) = (st1, res)" by force
  have s: "sound st st1" using sound_observe_window [OF Cons.prems, of env agent profile fetched wk changed] w by simp
  then have "ledger_ok st1" by (simp add: sound_def)
  then have "sound st1 (fst (observe_windows env agent profile fetched wks (st1, c)))" for c by (rule Cons.IH)
  then show ?case using w s sound_trans by (cases res) auto
qed

text \<open>Closing the expired cycles one by one is one pass over the table.\<close>

lemma close_row_lists [simp]:
  "lg_since (close_row tot wall st r) = lg_since st" "lg_next_cycle (close_row tot wall st r) = lg_next_cycle st"
  "lg_samples (close_row tot wall st r) = lg_samples st" "lg_last (close_row tot wall st r) = lg_last st"
  "lg_next_sample (close_row tot wall st r) = lg_next_sample st"
  by (simp_all add: close_row_def update_cycles_def)

lemma foldl_close_lists [simp]:
  "lg_since (foldl (close_row tot wall) st rs) = lg_since st" "lg_next_cycle (foldl (close_row tot wall) st rs) = lg_next_cycle st"
  "lg_samples (foldl (close_row tot wall) st rs) = lg_samples st" "lg_last (foldl (close_row tot wall) st rs) = lg_last st"
  "lg_next_sample (foldl (close_row tot wall) st rs) = lg_next_sample st"
  by (induction rs arbitrary: st) auto

definition by_id :: "cycle_row list \<Rightarrow> int \<Rightarrow> cycle_row option" where
  "by_id rs = map_of (map (\<lambda>r. (qc_id r, r)) rs)"

lemma by_id_Some: "distinct (map qc_id rs) \<Longrightarrow> by_id rs i = Some r \<longleftrightarrow> r \<in> set rs \<and> qc_id r = i"
  unfolding by_id_def by (subst dget_iff_mem) (auto simp: o_def)

lemma by_id_None: "by_id rs i = None \<longleftrightarrow> i \<notin> qc_id ` set rs"
  unfolding by_id_def dget_None_iff by force

lemma foldl_close_cycles:
  "distinct (map qc_id rs) \<Longrightarrow>
   lg_cycles (foldl (close_row tot wall) st rs) =
     map (\<lambda>q. case by_id rs (qc_id q) of Some r \<Rightarrow> freeze (local_totals tot (lg_since st) wall r) wall q | None \<Rightarrow> q) (lg_cycles st)"
proof (induction rs arbitrary: st)
  case (Cons r rs)
  let ?f = "freeze (local_totals tot (lg_since st) wall r) wall"
  have none: "by_id rs (qc_id r) = None" using Cons.prems by (simp add: by_id_None)
  have id: "qc_id (?f q) = qc_id q" for q by (simp add: freeze_def split: prod.splits)
  have step: "by_id (r # rs) i = (if i = qc_id r then Some r else by_id rs i)" for i by (simp add: by_id_def)
  have IH: "lg_cycles (foldl (close_row tot wall) (close_row tot wall st r) rs) =
     map (\<lambda>q. case by_id rs (qc_id q) of Some r \<Rightarrow> freeze (local_totals tot (lg_since st) wall r) wall q | None \<Rightarrow> q)
       (lg_cycles (close_row tot wall st r))"
    using Cons.IH [of "close_row tot wall st r"] Cons.prems by (simp only: close_row_lists distinct.simps list.map simp_thms)
  have one: "lg_cycles (close_row tot wall st r) = map (\<lambda>q. if qc_id q = qc_id r then ?f q else q) (lg_cycles st)"
    by (simp add: close_row_def update_cycles_def)
  show ?case unfolding foldl_Cons IH one
    by (auto simp: step id none split: option.splits)
qed (simp add: by_id_def)

definition close_one :: "totals_provider \<Rightarrow> rat \<Rightarrow> rat \<Rightarrow> cycle_row \<Rightarrow> cycle_row" where
  "close_one tot since wall r = (if expired_open wall r then freeze (local_totals tot since wall r) wall r else r)"

lemma close_expired_cycles:
  assumes ok: "ledger_ok st"
  shows "lg_cycles (fst (close_expired tot wall st)) = map (close_one tot (lg_since st) wall) (lg_cycles st)"
proof -
  let ?rs = "filter (expired_open wall) (lg_cycles st)"
  have d: "distinct (map qc_id ?rs)" using ledger_ids [OF ok] by (rule distinct_map_filter)
  have "(case by_id ?rs (qc_id q) of Some r \<Rightarrow> freeze (local_totals tot (lg_since st) wall r) wall q | None \<Rightarrow> q) = close_one tot (lg_since st) wall q"
    if q: "q \<in> set (lg_cycles st)" for q
  proof (cases "expired_open wall q")
    case True
    then have "by_id ?rs (qc_id q) = Some q" using q by (simp add: by_id_Some [OF d])
    with True show ?thesis by (simp add: close_one_def)
  next
    case False
    have "by_id ?rs (qc_id q) = None" using False q row_of_id [OF ok] by (auto simp: by_id_None)
    with False show ?thesis by (simp add: close_one_def)
  qed
  then show ?thesis unfolding close_expired_def Let_def fst_conv foldl_close_cycles [OF d] by (intro map_cong refl) auto
qed

lemma sound_map:
  assumes ok: "ledger_ok st" and c: "lg_cycles st' = map g (lg_cycles st)" and n: "lg_next_cycle st' = lg_next_cycle st"
    and g: "\<And>r. r \<in> set (lg_cycles st) \<Longrightarrow> row_ok r \<Longrightarrow> evolved r (g r) \<and> row_ok (g r)"
  shows "sound st st'"
proof -
  let ?u = "update_cycles (\<lambda>_. True) g st"
  have u: "sound st ?u" using ok g by (rule sound_update)
  have eq: "lg_cycles st' = lg_cycles ?u" "lg_next_cycle st' = lg_next_cycle ?u" by (simp_all add: update_cycles_def c n)
  have "ledger_ok st'" using u ledger_ok_same [OF _ eq] by (simp add: sound_def)
  moreover have "kept st st'" using u unfolding sound_def kept_def eq by blast
  ultimately show ?thesis by (simp add: sound_def)
qed

lemma close_one_fine: "row_ok r \<Longrightarrow> evolved r (close_one tot since wall r) \<and> row_ok (close_one tot since wall r)"
  by (auto simp: close_one_def evolved_def row_ok_def freeze_def expired_open_def cycle_key_of_def split: prod.splits)

lemma sound_close: "ledger_ok st \<Longrightarrow> sound st (fst (close_expired tot wall st))"
  by (rule sound_map [OF _ close_expired_cycles]) (simp_all add: close_expired_def Let_def close_one_fine)

lemma sound_observe: "ledger_ok st \<Longrightarrow> sound st (fst (observe env tot agent profile snapshot wall st))"
proof -
  assume ok: "ledger_ok st"
  show ?thesis
  proof (cases snapshot)
    case (JDict d)
    let ?fetched = "(case parse_event_time env (text_or_empty env (jget d ''fetchedAt'')) of None \<Rightarrow> wall | Some t \<Rightarrow> if t = 0 then wall else t)"
    have "sound st (fst (case observe_windows env agent (normalize_profile_id profile) ?fetched wks (st, []) of
                    (st1, Inl e) \<Rightarrow> (st1, Inl e)
                  | (st1, Inr changed) \<Rightarrow>
                      (case close_expired tot wall st1 of
                         (st2, expired) \<Rightarrow> (st2, Inr (foldl (\<lambda>acc k. if k \<in> set acc then acc else acc @ [k]) changed expired)))))" for wks
    proof -
      obtain st1 res where w: "observe_windows env agent (normalize_profile_id profile) ?fetched wks (st, []) = (st1, res)" by force
      have s: "sound st st1" using sound_observe_windows [OF ok, of env agent "normalize_profile_id profile" ?fetched wks "[]"] w by simp
      then have "sound st (fst (close_expired tot wall st1))" using sound_close [of st1] sound_trans by (auto simp: sound_def)
      then show ?thesis using w s by (cases res) (auto split: prod.splits)
    qed
    then show ?thesis using JDict sound_refl [OF ok] by (simp add: observe_def Let_def split: sum.splits)
  qed (use sound_refl [OF ok] in \<open>simp_all add: observe_def\<close>)
qed

lemma sound_stamp:
  fixes agent p :: string and x y tol :: rat
  assumes ok: "ledger_ok st"
  shows "sound st (fst (stamp_candidate agent p x y tol kind scope st))"
proof (cases "\<exists>r. filter (\<lambda>r. exhausted_candidate agent p x y tol r \<and> compatible kind scope (qc_kind r)) (lg_cycles st) = [r]")
  case True
  then obtain r where f: "filter (\<lambda>r. exhausted_candidate agent p x y tol r \<and> compatible kind scope (qc_kind r)) (lg_cycles st) = [r]" ..
  have "r \<in> set (filter (\<lambda>r. exhausted_candidate agent p x y tol r \<and> compatible kind scope (qc_kind r)) (lg_cycles st))" unfolding f by simp
  then have r: "r \<in> set (lg_cycles st)" "\<not> qc_closed r" by (simp_all add: exhausted_candidate_def)
  have "sound st (update_cycles (\<lambda>q. qc_id q = qc_id r) (\<lambda>q. q\<lparr>qc_exhausted := Some x, qc_source := Some ''cli''\<rparr>) st)"
    if x: "earlier x (qc_exhausted r)"
  proof (rule sound_update [OF ok])
    fix q assume q: "q \<in> set (lg_cycles st)" "row_ok q" "qc_id q = qc_id r"
    have "q = r" using row_of_id [OF ok q(1) r(1) q(3)] .
    then show "evolved q (q\<lparr>qc_exhausted := Some x, qc_source := Some ''cli''\<rparr>) \<and> row_ok (q\<lparr>qc_exhausted := Some x, qc_source := Some ''cli''\<rparr>)"
      using q(2) r(2) x by (auto simp: evolved_def row_ok_def earlier_def cycle_key_of_def)
  qed
  then show ?thesis using sound_refl [OF ok] by (simp add: stamp_candidate_def f)
next
  case False
  then have "stamp_candidate agent p x y tol kind scope st = (st, [])"
    unfolding stamp_candidate_def by (auto split: list.split)
  then show ?thesis using sound_refl [OF ok] by simp
qed

lemma mark_cases:
  "mark_exhausted agent profile a resets kind scope precision st = (st, []) \<or>
   (\<exists>x y tol. float_rat a = Some x \<and> Option.bind resets float_rat = Some y \<and> normalize_profile_id profile \<noteq> ''unknown'' \<and>
      mark_exhausted agent profile a resets kind scope precision st = stamp_candidate agent (normalize_profile_id profile) x y tol kind scope st)"
proof (cases "float_rat a")
  case (Some x)
  show ?thesis
  proof (cases "Option.bind resets float_rat")
    case y: (Some y)
    have "\<exists>tol. mark_exhausted agent profile a resets kind scope precision st \<in>
      {(st, []), if normalize_profile_id profile = ''unknown'' then (st, [])
         else stamp_candidate agent (normalize_profile_id profile) x y tol kind scope st}"
      unfolding mark_exhausted_def Some y Let_def prod.case option.case
      by (cases "precision \<notin> {''exact'', ''minute'', ''hour'', ''clock_only''}";
          cases "precision = ''clock_only'' \<and> kind \<noteq> Some ''session''") (simp_all only: if_True if_False simp_thms, blast+)
    then show ?thesis using Some y by (auto split: if_splits)
  qed (simp add: mark_exhausted_def Some)
qed (simp add: mark_exhausted_def)

lemma sound_mark: "ledger_ok st \<Longrightarrow> sound st (fst (mark_exhausted agent profile a resets kind scope precision st))"
  using mark_cases [of agent profile a resets kind scope precision st] sound_stamp [of st] sound_refl [of st] by auto

lemma sound_reconcile_row: "ledger_ok (fst sc) \<Longrightarrow> sound (fst sc) (fst (reconcile_row tot wall sc ir))"
proof -
  assume ok: "ledger_ok (fst sc)"
  obtain st changed i r where sc: "sc = (st, changed)" "ir = (i, r)" by (cases sc, cases ir)
  have "sound st (update_cycles (\<lambda>q. qc_id q = qc_id r \<and> qc_closed q)
              (\<lambda>q. q\<lparr>qc_tokens := t, qc_cov_state := Some ''available'', qc_cov_reason := None, qc_reconciled := Some wall\<rparr>) st)" for t
    using ok sc by (intro sound_update) (auto simp: evolved_def row_ok_def cycle_key_of_def)
  then show ?thesis using sc ok sound_refl by (auto simp: reconcile_row_def split: prod.splits)
qed

lemma sound_reconcile: "ledger_ok st \<Longrightarrow> sound st (fst (reconcile_pending tot changes wall st))"
proof -
  have "ledger_ok (fst sc) \<Longrightarrow> sound (fst sc) (fst (foldl (reconcile_row tot wall) sc irs))" for sc irs
  proof (induction irs arbitrary: sc)
    case Nil
    then show ?case by (simp add: sound_refl)
  next
    case (Cons ir irs)
    have "sound (fst sc) (fst (reconcile_row tot wall sc ir))" using Cons.prems by (rule sound_reconcile_row)
    moreover from this have "ledger_ok (fst (reconcile_row tot wall sc ir))" by (simp add: sound_def)
    ultimately show ?case using Cons.IH sound_trans by (simp only: foldl_Cons)
  qed
  from this [of "(st, [])"] show "ledger_ok st \<Longrightarrow> ?thesis" by (simp add: reconcile_pending_def)
qed


section \<open>Runs\<close>

datatype ledger_op =
    Observe totals_provider string string jval rat
  | Mark string string pyfloat "pyfloat option" "string option" "string option" string
  | Reconcile totals_provider "(string \<times> string \<times> int) list" rat
  | CloseExpired totals_provider rat
  | ReloadLedger

text \<open>\<open>reset\<close> is the user's "delete all statistics"; the runs below are the ones between two resets.\<close>

fun ledger_step :: "ledger_env \<Rightarrow> ledger \<Rightarrow> ledger_op \<Rightarrow> ledger" where
  "ledger_step env st (Observe tot agent profile snapshot wall) = fst (observe env tot agent profile snapshot wall st)"
| "ledger_step env st (Mark agent profile a resets kind scope precision) = fst (mark_exhausted agent profile a resets kind scope precision st)"
| "ledger_step env st (Reconcile tot changes wall) = fst (reconcile_pending tot changes wall st)"
| "ledger_step env st (CloseExpired tot wall) = fst (close_expired tot wall st)"
| "ledger_step env st ReloadLedger = load_last_samples st"

definition empty_ledger :: "rat \<Rightarrow> ledger" where
  "empty_ledger since = \<lparr>lg_cycles = [], lg_next_cycle = 1, lg_samples = [], lg_next_sample = 1, lg_last = [], lg_since = since\<rparr>"

lemma sound_step: "ledger_ok st \<Longrightarrow> sound st (ledger_step env st op)"
  using sound_observe sound_mark sound_reconcile sound_close
  by (cases op) (auto simp: load_last_samples_def intro: sound_same)

lemma sound_run: "ledger_ok st \<Longrightarrow> sound st (run_ops (ledger_step env) st ops)"
proof (induction ops arbitrary: st)
  case (Cons op ops)
  have s: "sound st (ledger_step env st op)" using Cons.prems by (rule sound_step)
  then have "ledger_ok (ledger_step env st op)" by (simp add: sound_def)
  from sound_trans [OF s Cons.IH [OF this]] show ?case by simp
qed (simp add: sound_refl)

lemma ledger_ok_empty: "ledger_ok (empty_ledger since)"
  by (simp add: ledger_ok_def empty_ledger_def)

interpretation ledger_machine: state_machine "empty_ledger since" "ledger_step env" ledger_ok for since env
  by unfold_locales (use ledger_ok_empty sound_step in \<open>auto simp: sound_def\<close>)

definition ledger_after :: "ledger_env \<Rightarrow> rat \<Rightarrow> ledger_op list \<Rightarrow> ledger" where
  "ledger_after env since ops = run_ops (ledger_step env) (empty_ledger since) ops"

lemma ledger_ok_after: "ledger_ok (ledger_after env since ops)"
  unfolding ledger_after_def using ledger_ok_empty by (rule ledger_machine.inv_run)


section \<open>What the ledger promises\<close>

text \<open>
  after any run, two cycles of one window of one account reset more than two minutes apart, and no two cycles have
  the same id: no reading can ever be filed in two cycles.
\<close>

theorem cycles_never_overlap:
  "\<forall>a \<in> set (lg_cycles (ledger_after env since ops)). \<forall>b \<in> set (lg_cycles (ledger_after env since ops)).
     a = b \<or> qc_id a \<noteq> qc_id b \<and> (cycle_key_of a = cycle_key_of b \<longrightarrow> 120 < \<bar>qc_resets a - qc_resets b\<bar>)"
proof (intro ballI)
  let ?st = "ledger_after env since ops"
  fix a b assume m: "a \<in> set (lg_cycles ?st)" "b \<in> set (lg_cycles ?st)"
  have ok: "ledger_ok ?st" by (rule ledger_ok_after)
  obtain i j where ij: "i < length (lg_cycles ?st)" "lg_cycles ?st ! i = a" "j < length (lg_cycles ?st)" "lg_cycles ?st ! j = b"
    using m by (auto simp: in_set_conv_nth)
  have w: "sorted_wrt apart (lg_cycles ?st)" using ok by (simp add: ledger_ok_def)
  have "apart a b" if "a \<noteq> b"
  proof (cases "i < j")
    case True
    then show ?thesis using w ij by (auto simp: sorted_wrt_iff_nth_less)
  next
    case False
    with that ij have "j < i" by (metis linorder_neqE_nat)
    then have "apart b a" using w ij by (auto simp: sorted_wrt_iff_nth_less)
    then show ?thesis by (simp add: apart_def abs_minus_commute)
  qed
  then show "a = b \<or> qc_id a \<noteq> qc_id b \<and> (cycle_key_of a = cycle_key_of b \<longrightarrow> 120 < \<bar>qc_resets a - qc_resets b\<bar>)"
    using row_of_id [OF ok m] by (auto simp: apart_def RESET_MATCH_TOLERANCE_S_def)
qed

text \<open>
  C36: the quota side of a closed cycle is final. Whatever is observed, marked, reconciled or closed later, the cycle
  keeps its window, highest percentage, sample count, exhaustion moment and the source of that moment. An open cycle keeps its window, its
  percentage and count only grow, and once it has an exhaustion moment that moment only gets earlier.
\<close>

theorem closed_quota_is_final:
  assumes "r \<in> set (lg_cycles (ledger_after env since ops))"
  shows "\<exists>r' \<in> set (lg_cycles (ledger_after env since (ops @ later))).
    qc_id r' = qc_id r \<and> cycle_key_of r' = cycle_key_of r \<and> qc_started r' = qc_started r \<and> qc_resets r' = qc_resets r \<and>
    qc_max r \<le> qc_max r' \<and> qc_samples r \<le> qc_samples r' \<and>
    (\<forall>x. qc_exhausted r = Some x \<longrightarrow> (\<exists>y \<le> x. qc_exhausted r' = Some y)) \<and>
    (qc_closed r \<longrightarrow> qc_closed r' \<and> qc_max r' = qc_max r \<and> qc_samples r' = qc_samples r \<and>
       qc_exhausted r' = qc_exhausted r \<and> qc_source r' = qc_source r)"
proof -
  have "kept (ledger_after env since ops) (ledger_after env since (ops @ later))"
    using sound_run [OF ledger_ok_after, of env since ops env later] by (simp add: sound_def ledger_after_def run_ops_append)
  from kept_member [OF this assms] show ?thesis unfolding evolved_def .
qed


text \<open>A concrete library and run for the instances below: stamps are digits, so \<open>fromisoformat\<close> is never asked.\<close>

definition demo_env :: ledger_env where
  "demo_env = \<lparr>le_str = (\<lambda>v. case v of JStr s \<Rightarrow> s | _ \<Rightarrow> []), le_fromiso = (\<lambda>_. None), le_isoformat = (\<lambda>t. int_str \<lfloor>t\<rfloor>),
     le_period = (\<lambda>_ _. ''2026'')\<rparr>"

definition demo_totals :: totals_provider where
  "demo_totals = (\<lambda>_ _ _ _. \<lparr>tt_tokens = no_tokens\<lparr>tk_input := 7\<rparr>, tt_coverage = Some (''available'', None)\<rparr>)"

definition demo_snapshot :: "int \<Rightarrow> string \<Rightarrow> string \<Rightarrow> jval" where
  "demo_snapshot pct resets at1 = JDict [(''status'', JStr ''ok''), (''fetchedAt'', JStr at1),
     (''windows'', JList [JDict [(''kind'', JStr ''session''), (''usedPercent'', JInt pct), (''resetsAt'', JStr resets)]])]"

definition demo_ops :: "ledger_op list" where
  "demo_ops = [Observe demo_totals ''claude'' ''work'' (demo_snapshot 40 ''90000'' ''80000'') 80000,
     Observe demo_totals ''claude'' ''work'' (demo_snapshot 130 ''90060'' ''85000'') 85000,
     Observe demo_totals ''claude'' ''work'' (demo_snapshot 5 ''108000'' ''90100'') 90100]"

lemma demo_run:
  "map (\<lambda>r. (qc_id r, qc_resets r, qc_max r, qc_exhausted r, qc_closed r, tk_input (qc_tokens r))) (lg_cycles (ledger_after demo_env 0 demo_ops)) =
     [(1, 90000, 100, Some 85000, True, 7), (2, 108000, 5, None, False, 0)]"
  by code_simp

lemma cycles_never_overlap_witness:
  "\<exists>a \<in> set (lg_cycles (ledger_after demo_env 0 demo_ops)). \<exists>b \<in> set (lg_cycles (ledger_after demo_env 0 demo_ops)).
     a \<noteq> b \<and> cycle_key_of a = cycle_key_of b \<and> 120 < \<bar>qc_resets a - qc_resets b\<bar>"
proof -
  let ?c = "lg_cycles (ledger_after demo_env 0 demo_ops)"
  have "length ?c = 2" "cycle_key_of (?c ! 0) = cycle_key_of (?c ! 1)" "qc_id (?c ! 0) \<noteq> qc_id (?c ! 1)" by code_simp+
  then have m: "?c ! 0 \<in> set ?c" "?c ! 1 \<in> set ?c" "?c ! 0 \<noteq> ?c ! 1" "cycle_key_of (?c ! 0) = cycle_key_of (?c ! 1)" by auto
  then show ?thesis using cycles_never_overlap [of demo_env 0 demo_ops] by blast
qed

lemma closed_quota_is_final_witness:
  "\<exists>r' \<in> set (lg_cycles (ledger_after demo_env 0 (demo_ops @ [Mark ''claude'' ''work'' (FFin 80500 0) (Some (FFin 90000 0)) None None ''exact'']))).
     qc_id r' = 1 \<and> qc_exhausted r' = Some 85000 \<and> qc_source r' = Some ''sample''"
proof -
  let ?r = "hd (lg_cycles (ledger_after demo_env 0 demo_ops))"
  have "?r \<in> set (lg_cycles (ledger_after demo_env 0 demo_ops))" by (rule hd_in_set) code_simp
  moreover have "qc_closed ?r" "qc_id ?r = 1" "qc_exhausted ?r = Some 85000" "qc_source ?r = Some ''sample''" by code_simp+
  moreover obtain r' where "r' \<in> set (lg_cycles (ledger_after demo_env 0
        (demo_ops @ [Mark ''claude'' ''work'' (FFin 80500 0) (Some (FFin 90000 0)) None None ''exact''])))"
      and "qc_id r' = qc_id ?r" "qc_closed ?r \<longrightarrow> qc_exhausted r' = qc_exhausted ?r \<and> qc_source r' = qc_source ?r"
    using closed_quota_is_final [OF calculation(1)] by blast
  ultimately show ?thesis by (intro bexI [of _ r']) simp_all
qed

text \<open>
  a limit message stamps at most one cycle. When it stamps one, that is the only open cycle of the account the message can mean,
  its window contains the moment of the message, it was not known to have run out by then, and nothing else of the table
  changes; otherwise nothing changes.
\<close>

theorem limit_message_stamps_one:
  assumes "mark_exhausted agent profile a resets kind scope precision (ledger_after env since ops) = (st', kinds)"
  shows "kinds = [] \<and> st' = ledger_after env since ops \<or>
    (\<exists>r \<in> set (lg_cycles (ledger_after env since ops)). \<exists>x.
       kinds = [qc_kind r] \<and> float_rat a = Some x \<and> qc_agent r = agent \<and> qc_profile r = normalize_profile_id profile \<and>
       \<not> qc_closed r \<and> x < qc_resets r \<and> (\<forall>s. qc_started r = Some s \<longrightarrow> s \<le> x) \<and> compatible kind scope (qc_kind r) \<and>
       (\<forall>y. qc_exhausted r = Some y \<longrightarrow> x < y) \<and>
       lg_cycles st' = map (\<lambda>q. if q = r then r\<lparr>qc_exhausted := Some x, qc_source := Some ''cli''\<rparr> else q) (lg_cycles (ledger_after env since ops)))"
proof -
  let ?st = "ledger_after env since ops"
  have ok: "ledger_ok ?st" by (rule ledger_ok_after)
  consider (none) "mark_exhausted agent profile a resets kind scope precision ?st = (?st, [])"
    | (stamp) x y tol where "float_rat a = Some x"
      "mark_exhausted agent profile a resets kind scope precision ?st = stamp_candidate agent (normalize_profile_id profile) x y tol kind scope ?st"
    using mark_cases by blast
  then show ?thesis
  proof cases
    case none
    then show ?thesis using assms by simp
  next
    case stamp
    let ?c = "filter (\<lambda>r. exhausted_candidate agent (normalize_profile_id profile) x y tol r \<and> compatible kind scope (qc_kind r)) (lg_cycles ?st)"
    show ?thesis
    proof (cases "\<exists>r. ?c = [r] \<and> earlier x (qc_exhausted r)")
      case False
      then have "stamp_candidate agent (normalize_profile_id profile) x y tol kind scope ?st = (?st, [])"
        unfolding stamp_candidate_def by (auto split: list.split)
      then show ?thesis using assms stamp by simp
    next
      case True
      then obtain r where c: "?c = [r]" and e: "earlier x (qc_exhausted r)" by blast
      have "r \<in> set ?c" unfolding c by simp
      then have r: "r \<in> set (lg_cycles ?st)" "exhausted_candidate agent (normalize_profile_id profile) x y tol r" "compatible kind scope (qc_kind r)" by auto
      have res: "(st', kinds) = (update_cycles (\<lambda>q. qc_id q = qc_id r) (\<lambda>q. q\<lparr>qc_exhausted := Some x, qc_source := Some ''cli''\<rparr>) ?st, [qc_kind r])"
        using assms stamp(2) e by (simp add: stamp_candidate_def c)
      have "lg_cycles st' = map (\<lambda>q. if q = r then r\<lparr>qc_exhausted := Some x, qc_source := Some ''cli''\<rparr> else q) (lg_cycles ?st)"
        using res row_of_id [OF ok _ r(1)] by (auto simp: update_cycles_def)
      then show ?thesis using r res e stamp(1)
        by (intro disjI2 bexI [OF _ r(1)] exI [of _ x]) (auto simp: exhausted_candidate_def earlier_def split: option.splits)
    qed
  qed
qed

lemma limit_message_stamps_one_witness:
  "\<exists>r \<in> set (lg_cycles (ledger_after demo_env 0 demo_ops)). qc_id r = 2 \<and> \<not> qc_closed r"
proof -
  let ?st = "ledger_after demo_env 0 demo_ops"
  obtain st' kinds where m: "mark_exhausted ''claude'' ''work'' (FFin 100000 0) (Some (FFin 108050 0)) None None ''exact'' ?st = (st', kinds)" by force
  have "snd (mark_exhausted ''claude'' ''work'' (FFin 100000 0) (Some (FFin 108050 0)) None None ''exact'' ?st) = [''session'']" by code_simp
  then have k: "kinds = [''session'']" using m by simp
  obtain r where r: "r \<in> set (lg_cycles ?st)" "\<not> qc_closed r" using limit_message_stamps_one [OF m] k by auto
  have "list_all (\<lambda>q. qc_closed q \<or> qc_id q = 2) (lg_cycles ?st)" by code_simp
  then show ?thesis using r by (auto simp: list_all_iff)
qed

text \<open>A message whose precision is not stated, as the account switch sends it, stamps nothing.\<close>

lemma unstated_precision_stamps_nothing: "mark_exhausted agent profile a resets kind scope ''unknown'' st = (st, [])"
  by (simp add: mark_exhausted_def split: option.split)

lemma none_expired:
  "ledger_ok st \<Longrightarrow> list_all (\<lambda>r. qc_closed r \<or> wall < qc_resets r) (lg_cycles (fst (close_expired tot wall st)))"
  unfolding close_expired_cycles by (auto simp: list_all_iff close_one_def expired_open_def freeze_def split: prod.splits)

lemma close_again:
  assumes "ledger_ok st"
  shows "close_expired tot wall (fst (close_expired tot wall st)) = (fst (close_expired tot wall st), [])"
proof -
  have "filter (expired_open wall) (lg_cycles (fst (close_expired tot wall st))) = []"
    using none_expired [OF assms, of wall tot] by (auto simp: filter_empty_conv list_all_iff expired_open_def)
  then show ?thesis by (simp add: close_expired_def [of tot wall "fst (close_expired tot wall st)"])
qed

text \<open>
  closing the expired cycles one row at a time is one pass that freezes exactly the open cycles whose reset has come,
  with the sums of their own window, and leaves none open; doing it again at the same moment changes nothing.
\<close>

theorem close_is_one_pass:
  "lg_cycles (fst (close_expired tot wall (ledger_after env since ops))) =
     map (\<lambda>r. if \<not> qc_closed r \<and> qc_resets r \<le> wall
              then freeze (local_totals tot (lg_since (ledger_after env since ops)) wall r) wall r else r)
       (lg_cycles (ledger_after env since ops)) \<and>
   list_all (\<lambda>r. qc_closed r \<or> wall < qc_resets r) (lg_cycles (fst (close_expired tot wall (ledger_after env since ops)))) \<and>
   close_expired tot wall (fst (close_expired tot wall (ledger_after env since ops))) = (fst (close_expired tot wall (ledger_after env since ops)), [])"
  using close_expired_cycles [OF ledger_ok_after] none_expired [OF ledger_ok_after] close_again [OF ledger_ok_after]
  by (simp add: close_one_def expired_open_def)

end
