(* ===== verification/Quota_Pages.thy ===== *)
theory Quota_Pages
  imports Quota_Facts
begin

text \<open>
  The readers of the quota ledger: the pages of a query put together are the whole range, the summary counts every
  cycle once, and the table of readings alone restores what the ledger remembers of them.
\<close>

section \<open>Pages\<close>

definition key_of :: "cycle_row \<Rightarrow> rat \<times> int" where
  "key_of r = (qc_resets r, qc_id r)"

definition descending :: "cycle_row list \<Rightarrow> bool" where
  "descending rows = sorted_wrt (\<lambda>a b. key_of b < key_of a) rows"

lemma before_key_some: "before_key (Some (key_of x)) r \<longleftrightarrow> key_of r < key_of x"
  by (auto simp: before_key_def key_of_def less_prod_def)

lemma newest_first_descending:
  assumes "distinct (map qc_id rows)"
  shows "descending (newest_first rows)"
proof -
  have inj: "inj_on key_of (set rows)" using assms by (auto simp: distinct_map inj_on_def key_of_def)
  have eq: "sort_key (\<lambda>r. (qc_resets r, qc_id r)) rows = sort_key key_of rows" by (simp add: key_of_def [abs_def])
  have "distinct (map key_of (sort_key key_of rows))"
    using assms inj by (simp add: distinct_map)
  then have "sorted_wrt (<) (map key_of (sort_key key_of rows))" by (simp add: strict_sorted_iff)
  then show ?thesis unfolding descending_def newest_first_def eq by (simp add: sorted_wrt_map sorted_wrt_rev)
qed

lemma set_newest_first [simp]: "set (newest_first rows) = set rows"
  by (simp add: newest_first_def)

lemma distinct_newest_first: "distinct (map qc_id rows) \<Longrightarrow> distinct (map qc_id (newest_first rows))"
  by (simp add: newest_first_def distinct_map)

lemma descending_after:
  assumes "descending (xs @ x # ys)"
  shows "filter (before_key (Some (key_of x))) (xs @ x # ys) = ys"
proof -
  have "filter (before_key (Some (key_of x))) xs = []" "filter (before_key (Some (key_of x))) ys = ys"
    using assms by (auto simp: descending_def sorted_wrt_append filter_empty_conv filter_id_conv before_key_some)
  then show ?thesis by (simp add: before_key_some)
qed

lemma descending_filter_suffix:
  assumes "descending rows"
  shows "\<exists>p. rows = p @ filter (before_key b) rows"
  using assms
proof (induction rows)
  case (Cons r rows)
  then obtain p where p: "rows = p @ filter (before_key b) rows" by (auto simp: descending_def)
  show ?case
  proof (cases "before_key b r")
    case True
    have "before_key b q" if "q \<in> set rows" for q
    proof -
      have "key_of q < key_of r" using Cons.prems that by (simp add: descending_def)
      then show ?thesis using True by (cases b) (auto simp: before_key_def key_of_def less_prod_def)
    qed
    then show ?thesis using True by (intro exI [of _ "[]"]) (simp add: filter_id_conv)
  next
    case False
    then show ?thesis using p by (metis append_Cons filter.simps(2))
  qed
qed simp

lemma page_advances:
  assumes "descending rows" and ps: "ps = filter (before_key b) rows" and n: "0 < n" "n < length ps"
  shows "filter (before_key (Some (key_of (last (take n ps))))) rows = drop n ps"
proof -
  obtain p where p: "rows = p @ ps" using descending_filter_suffix [OF assms(1)] ps by blast
  let ?x = "ps ! (n - 1)"
  have t: "take n ps = take (n - 1) ps @ [?x]" using n by (metis Suc_diff_1 less_imp_diff_less take_Suc_conv_app_nth)
  then have x: "last (take n ps) = ?x" by simp
  from t have "ps = take (n - 1) ps @ ?x # drop n ps" by (metis append.assoc append_Cons append_Nil append_take_drop_id)
  then have "rows = (p @ take (n - 1) ps) @ ?x # drop n ps" using p by simp
  then show ?thesis using descending_after assms(1) x by metis
qed

text \<open>The caller's loop: ask for a page, follow its cursor, until there is none.\<close>

fun all_pages ::
  "ledger_env \<Rightarrow> totals_provider \<Rightarrow> string \<Rightarrow> string \<Rightarrow> string option \<Rightarrow> jval \<Rightarrow> jval \<Rightarrow> jval \<Rightarrow> jval \<Rightarrow> rat \<Rightarrow>
   nat \<Rightarrow> jval \<Rightarrow> ledger \<Rightarrow> cycle_dto list option" where
  "all_pages env tot agent profile kind rs re cur limit wall 0 cursor st = None"
| "all_pages env tot agent profile kind rs re cur limit wall (Suc n) cursor st =
     (case query_cycles env tot agent profile kind rs re cur limit cursor JNull (JBool False) wall st of
        (st1, Inl e) \<Rightarrow> None
      | (st1, Inr pg) \<Rightarrow>
          (case pg_next pg of
             None \<Rightarrow> Some (pg_cycles pg)
           | Some (t, i) \<Rightarrow>
               map_option (\<lambda>rest. pg_cycles pg @ rest)
                 (all_pages env tot agent profile kind rs re cur limit wall n (JDict [(''resets_at'', JStr t), (''id'', JInt i)]) st1)))"

text \<open>What the cursors need of the library: a moment survives being written into a cursor and read back.\<close>

definition cursors_read_back :: "ledger_env \<Rightarrow> ledger \<Rightarrow> bool" where
  "cursors_read_back env st = list_all (\<lambda>r. parse_event_time env (text_or_empty env (JStr (le_isoformat env (qc_resets r)))) = Some (qc_resets r)) (lg_cycles st)"

lemma query_args [simp]:
  "bool_arg (JBool b) = Some b" "cutoff_of env wall JNull = Inr (wall, None)" "before_of env JNull = Inr None"
  by (simp_all add: bool_arg_def cutoff_of_def before_of_def)

lemma read_query_paged:
  assumes "read_query env rs re cur limit JNull JNull (JBool True) wall = Inr q" and "before_of env cursor = Inr b"
  shows "read_query env rs re cur limit cursor JNull (JBool False) wall = Inr (q\<lparr>qy_export := False, qy_before := b\<rparr>)"
    and "qy_export q" "qy_before q = None" "0 < qy_limit q" "qy_max_id q = None"
  using assms by (auto simp: read_query_def split: option.splits if_splits)

definition query_rows :: "string \<Rightarrow> string \<Rightarrow> string option \<Rightarrow> query \<Rightarrow> ledger \<Rightarrow> cycle_row list" where
  "query_rows agent profile kind q st = newest_first (filter (in_query agent profile kind q (max_id_of st)) (lg_cycles st))"

lemma query_paged:
  assumes "read_query env rs re cur limit JNull JNull (JBool True) wall = Inr q" and "before_of env cursor = Inr b"
    and "close_expired tot wall st = (st, [])" and "length (query_rows agent (normalize_profile_id profile) kind q st) \<le> 10000"
  defines "rows \<equiv> query_rows agent (normalize_profile_id profile) kind q st"
  shows "\<exists>pg. query_cycles env tot agent profile kind rs re cur limit cursor JNull (JBool False) wall st = (st, Inr pg) \<and>
    pg_cycles pg = map (row_to_cycle env tot (lg_since st) wall) (take (qy_limit q) (filter (before_key b) rows)) \<and>
    pg_next pg = (if qy_limit q < length (filter (before_key b) rows)
       then Some (le_isoformat env (qc_resets (last (take (qy_limit q) (filter (before_key b) rows)))),
                  qc_id (last (take (qy_limit q) (filter (before_key b) rows)))) else None)"
proof -
  note R = read_query_paged [OF assms(1,2)]
  have same: "in_query agent (normalize_profile_id profile) kind (q\<lparr>qy_export := False, qy_before := b\<rparr>) m = in_query agent (normalize_profile_id profile) kind q m" for m
    by (rule ext) (simp add: in_query_def split: option.split)
  show ?thesis
    using assms(3,4) R(5)
    by (auto simp: query_cycles_def R(1) Let_def same rows_def query_rows_def page_rows_def page_cursor_def)
qed


lemma before_cursor:
  assumes "cursors_read_back env st" "r \<in> set (lg_cycles st)" "1 \<le> qc_id r"
  shows "before_of env (JDict [(''resets_at'', JStr (le_isoformat env (qc_resets r))), (''id'', JInt (qc_id r))]) = Inr (Some (key_of r))"
  using assms by (simp add: before_of_def jget_def cursors_read_back_def list_all_iff int_arg_def key_of_def)

lemma all_pages_from:
  assumes q: "read_query env rs re cur limit JNull JNull (JBool True) wall = Inr q"
    and st: "close_expired tot wall st = (st, [])" "ledger_ok st" "cursors_read_back env st"
    and len: "length (query_rows agent (normalize_profile_id profile) kind q st) \<le> 10000"
  defines "rows \<equiv> query_rows agent (normalize_profile_id profile) kind q st"
  shows "before_of env cursor = Inr b \<Longrightarrow> length (filter (before_key b) rows) < n \<Longrightarrow>
    all_pages env tot agent profile kind rs re cur limit wall n cursor st =
      Some (map (row_to_cycle env tot (lg_since st) wall) (filter (before_key b) rows))"
proof (induction n arbitrary: cursor b)
  case (Suc n)
  let ?ps = "filter (before_key b) rows"
  let ?l = "qy_limit q"
  have l: "0 < ?l" by (rule read_query_paged [OF q Suc.prems(1)])
  obtain pg where pg: "query_cycles env tot agent profile kind rs re cur limit cursor JNull (JBool False) wall st = (st, Inr pg)"
    "pg_cycles pg = map (row_to_cycle env tot (lg_since st) wall) (take ?l ?ps)"
    "pg_next pg = (if ?l < length ?ps then Some (le_isoformat env (qc_resets (last (take ?l ?ps))), qc_id (last (take ?l ?ps))) else None)"
    using query_paged [OF q Suc.prems(1) st(1) len] unfolding rows_def by blast
  show ?case
  proof (cases "?l < length ?ps")
    case False
    then show ?thesis using pg by simp
  next
    case True
    let ?x = "last (take ?l ?ps)"
    have "take ?l ?ps \<noteq> []" using True l by auto
    then have "?x \<in> set (take ?l ?ps)" by (rule last_in_set)
    then have x: "?x \<in> set (lg_cycles st)" using set_take_subset [of ?l ?ps] by (auto simp: rows_def query_rows_def)
    then have "1 \<le> qc_id ?x" using st(2) by (auto simp: ledger_ok_def row_ok_def)
    note b = before_cursor [OF st(3) x this]
    have "distinct (map qc_id (filter (in_query agent (normalize_profile_id profile) kind q (max_id_of st)) (lg_cycles st)))"
      using ledger_ids [OF st(2)] by (rule distinct_map_filter)
    then have "descending rows" unfolding rows_def query_rows_def by (rule newest_first_descending)
    then have f: "filter (before_key (Some (key_of ?x))) rows = drop ?l ?ps" using refl l True by (rule page_advances)
    have "length (filter (before_key (Some (key_of ?x))) rows) < n" unfolding f using Suc.prems(2) l True by simp
    from Suc.IH [OF b this] have "all_pages env tot agent profile kind rs re cur limit wall n
        (JDict [(''resets_at'', JStr (le_isoformat env (qc_resets ?x))), (''id'', JInt (qc_id ?x))]) st =
      Some (map (row_to_cycle env tot (lg_since st) wall) (drop ?l ?ps))" unfolding f .
    then show ?thesis using pg True by (simp add: map_append [symmetric] del: map_append)
  qed
qed simp





section \<open>The summary\<close>

lemma summary_entry_fold:
  "summary_entry (foldl (\<lambda>d c. dset (kind c) (add_cycle c (summary_entry d (kind c))) d) d cs) k =
   foldl (\<lambda>e c. add_cycle c e) (summary_entry d k) (filter (\<lambda>c. kind c = k) cs)"
proof (induction cs arbitrary: d)
  case (Cons c cs)
  have "summary_entry (dset k' e d) k = (if k = k' then e else summary_entry d k)" for k' e
    by (simp add: summary_entry_def)
  with Cons show ?case by simp
qed simp

definition eligible_sum :: "cycle_dto list \<Rightarrow> int" where
  "eligible_sum cs = sum_list (map sum_of (filter (\<lambda>c. exclusion c = None) cs))"

lemma fold_add_cycle:
  "let e' = foldl (\<lambda>e c. add_cycle c e) e cs in
   su_cycles e' = su_cycles e + length cs \<and>
   su_exhausted e' = su_exhausted e + length (filter (\<lambda>c. cd_exhausted c \<noteq> None) cs) \<and>
   su_eligible e' = su_eligible e + length (filter (\<lambda>c. exclusion c = None) cs) \<and>
   su_excluded e' = su_excluded e + length (filter (\<lambda>c. exclusion c \<noteq> None) cs) \<and>
   su_sum e' = su_sum e + eligible_sum cs \<and>
   count_at reason (su_exclusions e') = count_at reason (su_exclusions e) + length (filter (\<lambda>c. exclusion c = Some reason) cs)"
proof (induction cs arbitrary: e)
  case (Cons c cs)
  show ?case using Cons.IH [of "add_cycle c e"]
    by (cases "exclusion c") (auto simp: Let_def add_cycle_def eligible_sum_def count_at_def)
qed (simp add: eligible_sum_def)

text \<open>
  the summary of a query counts every cycle of a kind exactly once: as one that counts, or as one left out for
  exactly one reason; the average is over the cycles that count, all closed, out of quota by trusted evidence and with known
  detail, and there is none when none counts.
\<close>

theorem summary_partitions_cycles:
  "let mine = filter (\<lambda>c. cd_kind c = k) cs; e = summary_entry (summarize cs) k; good = filter (\<lambda>c. exclusion c = None) mine in
   su_cycles e = length mine \<and> su_cycles e = su_eligible e + su_excluded e \<and> su_eligible e = length good \<and>
   su_exhausted e = length (filter (\<lambda>c. cd_exhausted c \<noteq> None) mine) \<and>
   count_at reason (su_exclusions e) = length (filter (\<lambda>c. exclusion c = Some reason) mine) \<and>
   su_excluded e = sum_list (map (\<lambda>r. count_at r (su_exclusions e)) [''ongoing'', ''no_limit'', ''untrusted_source'', ''unavailable_detail'']) \<and>
   avg_exhausted e = (if good = [] then None else Some (of_int (sum_list (map sum_of good)) / of_nat (length good))) \<and>
   list_all (\<lambda>c. cd_closed c \<and> cd_exhausted c \<noteq> None \<and> cd_source c \<in> {Some ''sample'', Some ''cli''} \<and> cd_detail_known c) good"
proof -
  let ?mine = "filter (\<lambda>c. cd_kind c = k) cs"
  let ?e = "summary_entry (summarize cs) k"
  let ?good = "filter (\<lambda>c. exclusion c = None) ?mine"
  have e: "?e = foldl (\<lambda>e c. add_cycle c e) empty_summary ?mine"
    using summary_entry_fold [of cd_kind "[]" cs k] by (simp add: summarize_def summarize_by_def summary_entry_def [of "[]"])
  have zero: "count_at r (su_exclusions empty_summary) = 0" for r by (simp add: count_at_def empty_summary_def)
  note f = fold_add_cycle [of empty_summary ?mine, folded e, unfolded Let_def zero]
  have z: "su_cycles empty_summary = 0" "su_exhausted empty_summary = 0" "su_eligible empty_summary = 0" "su_excluded empty_summary = 0"
    "su_sum empty_summary = 0" by (simp_all add: empty_summary_def)
  have parts: "length (filter (\<lambda>c. exclusion c \<noteq> None) xs) =
      length (filter (\<lambda>c. exclusion c = Some ''ongoing'') xs) + length (filter (\<lambda>c. exclusion c = Some ''no_limit'') xs) +
      length (filter (\<lambda>c. exclusion c = Some ''untrusted_source'') xs) + length (filter (\<lambda>c. exclusion c = Some ''unavailable_detail'') xs)" for xs
    by (induction xs) (auto simp: exclusion_def)
  have split: "length xs = length (filter (\<lambda>c. exclusion c = None) xs) + length (filter (\<lambda>c. exclusion c \<noteq> None) xs)" for xs
    by (induction xs) auto
  have good: "list_all (\<lambda>c. cd_closed c \<and> cd_exhausted c \<noteq> None \<and> cd_source c \<in> {Some ''sample'', Some ''cli''} \<and> cd_detail_known c) ?good"
    by (auto simp: list_all_iff exclusion_def split: if_splits)
  have n: "su_cycles ?e = length ?mine" "su_eligible ?e = length ?good" "su_excluded ?e = length (filter (\<lambda>c. exclusion c \<noteq> None) ?mine)"
    "su_exhausted ?e = length (filter (\<lambda>c. cd_exhausted c \<noteq> None) ?mine)" "su_sum ?e = sum_list (map sum_of ?good)"
    "count_at r (su_exclusions ?e) = length (filter (\<lambda>c. exclusion c = Some r) ?mine)" for r
    using f unfolding z eligible_sum_def by simp_all
  show ?thesis
    unfolding Let_def avg_exhausted_def n using split [of ?mine] parts [of ?mine] good by simp
qed


section \<open>Restart\<close>

text \<open>The last reading of a window, from the table.\<close>

definition samples_ok :: "ledger \<Rightarrow> bool" where
  "samples_ok st \<longleftrightarrow> sorted_wrt (<) (map qs_id (lg_samples st)) \<and> (\<forall>s \<in> set (lg_samples st). qs_id s < lg_next_sample st) \<and>
     (\<forall>key. dget (lg_last st) key =
        (case rev (filter (\<lambda>s. sample_key_of s = key) (lg_samples st)) of [] \<Rightarrow> None | s # _ \<Rightarrow> Some (qs_pct s, qs_resets s)))"

lemma newest_samples_key:
  assumes "sorted_wrt (<) (map qs_id rows)"
  shows "filter (\<lambda>s. sample_key_of s = key) (newest_samples rows) =
    (case rev (filter (\<lambda>s. sample_key_of s = key) rows) of [] \<Rightarrow> [] | s # _ \<Rightarrow> [s])"
proof (cases "filter (\<lambda>s. sample_key_of s = key) rows" rule: rev_cases)
  case Nil
  then show ?thesis by (auto simp: newest_samples_def filter_empty_conv)
next
  case (snoc xs s)
  have srt: "sorted_wrt (\<lambda>a b. qs_id a < qs_id b) (xs @ [s])"
    using assms sorted_wrt_filter [of "\<lambda>a b. qs_id a < qs_id b" rows "\<lambda>s. sample_key_of s = key"] by (simp add: sorted_wrt_map snoc)
  have key: "t \<in> set (xs @ [s]) \<longleftrightarrow> t \<in> set rows \<and> sample_key_of t = key" for t
    unfolding snoc [symmetric] by auto
  have s: "sample_key_of s = key" using key [of s] by simp
  have top: "list_all (\<lambda>t. sample_key_of t = sample_key_of u \<longrightarrow> qs_id t \<le> qs_id u) rows \<longleftrightarrow> (\<forall>t \<in> set (xs @ [s]). qs_id t \<le> qs_id u)"
    if "sample_key_of u = key" for u unfolding list_all_iff that using key by blast
  have "filter (\<lambda>s. sample_key_of s = key) (newest_samples rows) =
      filter (\<lambda>u. \<forall>t \<in> set (xs @ [s]). qs_id t \<le> qs_id u) (filter (\<lambda>s. sample_key_of s = key) rows)"
    unfolding newest_samples_def filter_filter using top by (intro filter_cong) auto
  also have "\<dots> = [s]" unfolding snoc
  proof -
    have "filter (\<lambda>u. \<forall>t \<in> set (xs @ [s]). qs_id t \<le> qs_id u) xs = []"
      using srt by (force simp: filter_empty_conv sorted_wrt_append)
    moreover have "\<forall>t \<in> set (xs @ [s]). qs_id t \<le> qs_id s" using srt by (force simp: sorted_wrt_append)
    ultimately show "filter (\<lambda>u. \<forall>t \<in> set (xs @ [s]). qs_id t \<le> qs_id u) (xs @ [s]) = [s]" by simp
  qed
  finally show ?thesis by (simp add: snoc)
qed


lemma dget_load:
  assumes "\<forall>s \<in> set (filter (\<lambda>s. sample_key_of s = key) rows). s = t" "filter (\<lambda>s. sample_key_of s = key) rows \<noteq> []"
  shows "dget (foldl (\<lambda>d s. dset (sample_key_of s) (f s) d) d rows) key = Some (f t)"
  using assms
proof (induction rows arbitrary: d rule: rev_induct)
  case (snoc r rows)
  then show ?case by (cases "sample_key_of r = key") auto
qed simp

lemma dget_load_none:
  "filter (\<lambda>s. sample_key_of s = key) rows = [] \<Longrightarrow> dget (foldl (\<lambda>d s. dset (sample_key_of s) (f s) d) d rows) key = dget d key"
  by (induction rows arbitrary: d) (auto split: if_splits)

lemma reload_last:
  assumes "samples_ok st"
  shows "dget (lg_last (load_last_samples st)) key = dget (lg_last st) key"
proof -
  let ?fs = "filter (\<lambda>s. sample_key_of s = key) (lg_samples st)"
  have n: "filter (\<lambda>s. sample_key_of s = key) (newest_samples (lg_samples st)) = (case rev ?fs of [] \<Rightarrow> [] | s # _ \<Rightarrow> [s])"
    using assms by (intro newest_samples_key) (simp add: samples_ok_def)
  have l: "dget (lg_last st) key = (case rev ?fs of [] \<Rightarrow> None | s # _ \<Rightarrow> Some (qs_pct s, qs_resets s))"
    using assms unfolding samples_ok_def by blast
  show ?thesis
  proof (cases "rev ?fs")
    case Nil
    then show ?thesis using n l by (simp add: load_last_samples_def dget_load_none)
  next
    case (Cons s ss)
    then have "dget (foldl (\<lambda>d s. dset (sample_key_of s) (qs_pct s, qs_resets s) d) [] (newest_samples (lg_samples st))) key = Some (qs_pct s, qs_resets s)"
      using n by (intro dget_load [where t = s and f = "\<lambda>s. (qs_pct s, qs_resets s)"]) auto
    then show ?thesis using Cons l by (simp add: load_last_samples_def)
  qed
qed

lemma samples_same:
  "samples_ok st \<Longrightarrow> lg_samples st' = lg_samples st \<Longrightarrow> lg_next_sample st' = lg_next_sample st \<Longrightarrow> lg_last st' = lg_last st \<Longrightarrow> samples_ok st'"
  by (simp add: samples_ok_def)

lemma update_lists [simp]:
  "lg_samples (update_cycles P f st) = lg_samples st" "lg_next_sample (update_cycles P f st) = lg_next_sample st" "lg_last (update_cycles P f st) = lg_last st"
  by (simp_all add: update_cycles_def)

lemma new_cycle_lists [simp]:
  "lg_samples (new_cycle key started pct resets fetched st) = lg_samples st" "lg_next_sample (new_cycle key started pct resets fetched st) = lg_next_sample st"
  "lg_last (new_cycle key started pct resets fetched st) = lg_last st"
  by (simp_all add: new_cycle_def split: prod.splits)

lemma fold_sample_lists:
  "fold_sample key pct resets fetched m st = Inr st' \<Longrightarrow>
   lg_samples st' = lg_samples st \<and> lg_next_sample st' = lg_next_sample st \<and> lg_last st' = lg_last st"
  by (auto simp: fold_sample_def split: option.splits sum.splits if_splits)

lemma samples_observe_window:
  assumes ok: "samples_ok st" and res: "observe_window env agent profile fetched wk (st, changed) = (st', Inr c)"
  shows "samples_ok st'"
proof -
  obtain w kind where wk: "wk = (w, kind)" by (cases wk)
  show ?thesis
  proof (cases "reading env w")
    case None
    then show ?thesis using ok res by (simp add: observe_window_def wk)
  next
    case (Some pr)
    obtain pct resets where pr: "pr = (pct, resets)" by (cases pr)
    let ?key = "(agent, profile, kind)"
    show ?thesis
    proof (cases "dget (lg_last st) ?key = Some (pct, resets)")
      case True
      then have "st' = fst (repeat_sample ?key pct resets fetched st)"
        using res Some pr by (auto simp: observe_window_def wk Let_def split: prod.splits)
      then show ?thesis using samples_same [OF ok] by (simp add: repeat_sample_def Let_def)
    next
      case False
      let ?st1 = "st\<lparr>lg_last := dset ?key (pct, resets) (lg_last st)\<rparr>"
      let ?st2 = "add_sample ?key pct resets fetched ?st1"
      have "fold_sample ?key pct resets fetched (jget w ''windowMinutes'') ?st2 = Inr st'"
        using res Some pr False by (auto simp: observe_window_def wk Let_def split: sum.splits)
      note f = fold_sample_lists [OF this]
      have "samples_ok ?st2"
        using ok by (auto simp: samples_ok_def add_sample_def sample_key_of_def sorted_wrt_append)
      then show ?thesis using samples_same f by blast
    qed
  qed
qed

lemma samples_observe_windows:
  "samples_ok st \<Longrightarrow> observe_windows env agent profile fetched wks (st, changed) = (st', Inr c) \<Longrightarrow> samples_ok st'"
proof (induction wks arbitrary: st changed)
  case (Cons wk wks)
  obtain st1 res where w: "observe_window env agent profile fetched wk (st, changed) = (st1, res)" by force
  then obtain c1 where res: "res = Inr c1" using Cons.prems(2) by (cases res) auto
  have "samples_ok st1" using samples_observe_window [OF Cons.prems(1)] w res by blast
  then show ?case using Cons w res by auto
qed auto

lemma window_only_overflows: "observe_window env agent profile fetched wk (st, changed) = (st', Inl e) \<Longrightarrow> e = OverflowErr"
  by (auto simp: observe_window_def fold_sample_def window_seconds_def Let_def split: prod.splits option.splits sum.splits if_splits jval.splits pyfloat.splits)

lemma observe_only_overflows: "observe_windows env agent profile fetched wks (st, changed) = (st', Inl e) \<Longrightarrow> e = OverflowErr"
proof (induction wks arbitrary: st changed)
  case (Cons wk wks)
  obtain st1 res where w: "observe_window env agent profile fetched wk (st, changed) = (st1, res)" by force
  then show ?case using Cons window_only_overflows [of env agent profile fetched wk st changed st1] by (cases res) auto
qed simp

lemma close_lists:
  "lg_samples (fst (close_expired tot wall st)) = lg_samples st" "lg_next_sample (fst (close_expired tot wall st)) = lg_next_sample st"
  "lg_last (fst (close_expired tot wall st)) = lg_last st"
  by (simp_all add: close_expired_def Let_def)

lemma samples_observe:
  assumes ok: "samples_ok st" and res: "snd (observe env tot agent profile snapshot wall st) \<noteq> Inl OverflowErr"
  shows "samples_ok (fst (observe env tot agent profile snapshot wall st))"
proof (cases snapshot)
  case (JDict d)
  let ?fetched = "(case parse_event_time env (text_or_empty env (jget d ''fetchedAt'')) of None \<Rightarrow> wall | Some t \<Rightarrow> if t = 0 then wall else t)"
  show ?thesis
  proof (cases "agent = [] \<or> jget d ''status'' \<noteq> JStr ''ok'' \<or> truthy (jget d ''stale'')")
    case False
    show ?thesis
    proof (cases "snapshot_windows d")
      case (Inl e)
      then show ?thesis using ok JDict False by (simp add: observe_def Let_def)
    next
      case (Inr ws)
      obtain st1 r where w: "observe_windows env agent (normalize_profile_id profile) ?fetched (window_kinds_of env ws) (st, []) = (st1, r)" by force
      show ?thesis
      proof (cases r)
        case r: (Inr c)
        have "samples_ok st1" using samples_observe_windows [OF ok] w r by blast
        then have "samples_ok (fst (close_expired tot wall st1))" by (rule samples_same) (simp_all add: close_lists)
        then show ?thesis using JDict False Inr w r by (cases "close_expired tot wall st1") (simp add: observe_def Let_def)
      next
        case r: (Inl e)
        show ?thesis using res JDict False Inr w r observe_only_overflows [OF w [unfolded r]] by (simp add: observe_def Let_def)
      qed
    qed
  qed (use ok JDict in \<open>simp add: observe_def\<close>)
qed (use ok in \<open>simp_all add: observe_def\<close>)


lemma samples_mark: "samples_ok st \<Longrightarrow> samples_ok (fst (mark_exhausted agent profile a resets kind scope precision st))"
proof -
  assume ok: "samples_ok st"
  have "samples_ok (fst (stamp_candidate agent p x y tol kind scope st))" for p x y tol
    by (rule samples_same [OF ok]) (auto simp: stamp_candidate_def split: list.split)
  then show ?thesis using mark_cases [of agent profile a resets kind scope precision st] ok by auto
qed

lemma samples_reconcile: "samples_ok st \<Longrightarrow> samples_ok (fst (reconcile_pending tot changes wall st))"
proof -
  have row: "lg_samples (fst (reconcile_row tot wall sc ir)) = lg_samples (fst sc) \<and>
      lg_next_sample (fst (reconcile_row tot wall sc ir)) = lg_next_sample (fst sc) \<and> lg_last (fst (reconcile_row tot wall sc ir)) = lg_last (fst sc)" for sc ir
    by (auto simp: reconcile_row_def split: prod.splits)
  have "lg_samples (fst (foldl (reconcile_row tot wall) sc irs)) = lg_samples (fst sc) \<and>
      lg_next_sample (fst (foldl (reconcile_row tot wall) sc irs)) = lg_next_sample (fst sc) \<and>
      lg_last (fst (foldl (reconcile_row tot wall) sc irs)) = lg_last (fst sc)" for sc irs
    by (induction irs arbitrary: sc) (simp_all add: row)
  note f = this [of "(st, [])" "rows_touched wall changes st"]
  assume "samples_ok st"
  then show ?thesis by (rule samples_same) (use f in \<open>simp_all add: reconcile_pending_def\<close>)
qed

text \<open>The runs in which no snapshot stated an infinite window length.\<close>

fun no_overflow :: "ledger_env \<Rightarrow> ledger \<Rightarrow> ledger_op list \<Rightarrow> bool" where
  "no_overflow env st [] = True"
| "no_overflow env st (op # ops) =
     ((case op of Observe tot agent profile snapshot wall \<Rightarrow> snd (observe env tot agent profile snapshot wall st) \<noteq> Inl OverflowErr | _ \<Rightarrow> True) \<and>
      no_overflow env (ledger_step env st op) ops)"

lemma samples_reload: "samples_ok st \<Longrightarrow> samples_ok (load_last_samples st)"
  using reload_last [of st] by (simp add: samples_ok_def load_last_samples_def)

lemma samples_run: "samples_ok st \<Longrightarrow> no_overflow env st ops \<Longrightarrow> samples_ok (run_ops (ledger_step env) st ops)"
proof (induction ops arbitrary: st)
  case (Cons op ops)
  have "samples_ok (ledger_step env st op)"
  proof (cases op)
    case (CloseExpired tot wall)
    show ?thesis unfolding CloseExpired by (rule samples_same [OF Cons.prems(1)]) (simp_all add: close_lists)
  qed (use Cons.prems samples_observe samples_mark samples_reconcile samples_reload in auto)
  then show ?case using Cons by simp
qed simp

text \<open>
  the table of readings restores what the ledger remembers of them: after a restart the last reading of every window is the
  one it was before, so a repeated reading is still recognised as one, and a changed one is still filed. This needs that no snapshot
  made the filing fail half-way.
\<close>

theorem restart_keeps_last_readings:
  assumes "no_overflow env (empty_ledger since) ops"
  shows "dget (lg_last (load_last_samples (ledger_after env since ops))) key = dget (lg_last (ledger_after env since ops)) key"
proof -
  have "samples_ok (empty_ledger since)" by (simp add: samples_ok_def empty_ledger_def)
  from samples_run [OF this assms] show ?thesis unfolding ledger_after_def by (rule reload_last)
qed

lemma restart_keeps_last_readings_witness:
  "dget (lg_last (load_last_samples (ledger_after demo_env 0 demo_ops))) (''claude'', ''work'', ''session'') = Some (5, 108000)"
proof -
  have "no_overflow demo_env (empty_ledger 0) demo_ops" by code_simp
  moreover have "dget (lg_last (ledger_after demo_env 0 demo_ops)) (''claude'', ''work'', ''session'') = Some (5, 108000)" by code_simp
  ultimately show ?thesis using restart_keeps_last_readings [of demo_env 0 demo_ops "(''claude'', ''work'', ''session'')"] by simp
qed

text \<open>
  With an infinite \<open>windowMinutes\<close> the filing raises after the reading was remembered and before it is written: the same
  reading with a finite length is then taken for a repetition and never filed.
\<close>

definition bad_snapshot :: "pyfloat \<Rightarrow> jval" where
  "bad_snapshot minutes = JDict [(''status'', JStr ''ok''), (''fetchedAt'', JStr ''80000''),
     (''windows'', JList [JDict [(''kind'', JStr ''session''), (''usedPercent'', JInt 40), (''resetsAt'', JStr ''90000''), (''windowMinutes'', JFloat minutes)]])]"

lemma failed_filing_is_remembered:
  "let st = fst (observe demo_env demo_totals ''codex'' ''work'' (bad_snapshot FInf) 80000 (empty_ledger 0)) in
   lg_samples st = [] \<and> observe demo_env demo_totals ''codex'' ''work'' (bad_snapshot (FFin 300 0)) 80000 st = (st, Inr []) \<and>
   snd (observe demo_env demo_totals ''codex'' ''work'' (bad_snapshot (FFin 300 0)) 80000 (empty_ledger 0)) = Inr [(''codex'', ''work'', ''session'')]"
  by code_simp

end
