(* ===== verification/Shell_Lexer.thy ===== *)
theory Shell_Lexer
  imports Py_Prelude
begin

text \<open>
  The lexical part of \<open>backend/agent_team_backend/guard/classify.py\<close>: cutting heredocs and substitutions out of a command,
  and the words and pipelines that are left, read by the standard library's \<open>shlex\<close> (POSIX rules, punctuation
  characters, split at whitespace, no comments). A Python loop over an index is a recursion over the rest of the text.
\<close>

section \<open>Characters\<close>

definition NUL :: char where "NUL = CHR 0x00"
definition NEWLINE :: char where "NEWLINE = CHR 0x0A"
definition BACKSLASH :: char where "BACKSLASH = CHR 0x5C"
definition SQUOTE :: char where "SQUOTE = CHR 0x27"
definition DQUOTE :: char where "DQUOTE = CHR 0x22"
definition BACKTICK :: char where "BACKTICK = CHR 0x60"
definition TAB :: char where "TAB = CHR 0x09"

definition PLACEHOLDER :: string where "PLACEHOLDER = NUL # ''SUBST''"
definition HEREDOC :: string where "HEREDOC = NUL # ''HEREDOC''"

definition before_newline :: "string \<Rightarrow> string" where
  "before_newline s = takeWhile (\<lambda>c. c \<noteq> NEWLINE) s"

definition from_newline :: "string \<Rightarrow> string" where
  "from_newline s = dropWhile (\<lambda>c. c \<noteq> NEWLINE) s"

lemma from_newline_le: "length (from_newline s) \<le> length s"
  by (simp add: from_newline_def length_dropWhile_le)

definition quoted_marker :: "string \<Rightarrow> nat \<Rightarrow> string" where
  "quoted_marker pre n = pre @ nat_str n @ [NUL]"

text \<open>The value and the rest when a text starts with a marker.\<close>

definition marker_at :: "string \<Rightarrow> string \<Rightarrow> (nat \<times> string) option" where
  "marker_at pre s =
     (if prefix pre s
      then (let t = drop (length pre) s; ds = takeWhile is_digit t; r = dropWhile is_digit t in
            if ds \<noteq> [] \<and> r \<noteq> [] \<and> hd r = NUL then Some (foldl (\<lambda>n c. n * 10 + (of_char c - 48)) 0 ds, tl r) else None)
      else None)"

text \<open>\<open>_sub_index\<close>: the first substitution marker in an argument.\<close>

fun sub_index :: "string \<Rightarrow> nat option" where
  "sub_index [] = None"
| "sub_index (c # cs) = (case marker_at PLACEHOLDER (c # cs) of Some (n, _) \<Rightarrow> Some n | None \<Rightarrow> sub_index cs)"

definition marker_whole :: "string \<Rightarrow> string \<Rightarrow> nat option" where
  "marker_whole pre s = (case marker_at pre s of Some (n, []) \<Rightarrow> Some n | _ \<Rightarrow> None)"


section \<open>Heredocs\<close>

text \<open>A heredoc body with the flag that its delimiter was quoted, and the failure of the code: a marker without its end.\<close>

datatype scan_result = Scanned string "(string \<times> bool) list" | Unparsed | NoMarkerEnd

fun scan_add :: "string \<Rightarrow> scan_result \<Rightarrow> scan_result" where
  "scan_add s (Scanned out hds) = Scanned (s @ out) hds"
| "scan_add s r = r"

text \<open>Inside double quotes of a delimiter: the characters and what follows the closing quote.\<close>

fun delim_dquoted :: "string \<Rightarrow> (string \<times> string) option" where
  "delim_dquoted [] = None"
| "delim_dquoted (c # cs) =
     (if c = DQUOTE then Some ([], cs)
      else if c = CHR ''$'' \<or> c = BACKTICK then None
      else if c = BACKSLASH \<and> cs \<noteq> [] \<and> (hd cs = DQUOTE \<or> hd cs = BACKSLASH)
      then map_option (\<lambda>(w, r). (hd cs # w, r)) (delim_dquoted (tl cs))
      else map_option (\<lambda>(w, r). (c # w, r)) (delim_dquoted cs))"

lemma delim_dquoted_le: "delim_dquoted s = Some (w, r) \<Longrightarrow> length r < length s"
proof (induction s arbitrary: w r rule: delim_dquoted.induct)
  case (2 c cs)
  then show ?case by (cases cs) (fastforce split: if_splits)+
qed simp

text \<open>
  \<open>_heredoc_delimiter\<close>: the word, whether a part was quoted, and the rest. \<open>some\<close> says whether anything was appended yet
  (an empty single-quoted part counts).
\<close>

function delim_scan :: "bool \<Rightarrow> bool \<Rightarrow> string \<Rightarrow> string \<Rightarrow> (string \<times> bool \<times> string) option" where
  "delim_scan some quoted word [] = (if some then Some (word, quoted, []) else None)"
| "delim_scan some quoted word (c # cs) =
     (if py_isspace c \<or> c \<in> set '';&|<>()'' then (if some then Some (word, quoted, c # cs) else None)
      else if c = CHR ''$'' \<or> c = BACKTICK then None
      else if c = BACKSLASH
      then (case cs of [] \<Rightarrow> None | d # ds \<Rightarrow> if d = NEWLINE then None else delim_scan True True (word @ [d]) ds)
      else if c = SQUOTE
      then (if SQUOTE \<in> set cs
            then delim_scan True True (word @ takeWhile (\<lambda>x. x \<noteq> SQUOTE) cs) (drop 1 (dropWhile (\<lambda>x. x \<noteq> SQUOTE) cs)) else None)
      else if c = DQUOTE
      then (case delim_dquoted cs of None \<Rightarrow> None | Some (w, r) \<Rightarrow> delim_scan (some \<or> w \<noteq> []) True (word @ w) r)
      else delim_scan True quoted (word @ [c]) cs)"
  by pat_completeness auto
termination
  by (relation "measure (\<lambda>(_, _, _, s). length s)")
    (auto dest: delim_dquoted_le simp: less_Suc_eq_le intro: order_trans [OF diff_le_self length_dropWhile_le])

definition heredoc_delimiter :: "string \<Rightarrow> (string \<times> bool \<times> string) option" where
  "heredoc_delimiter s = delim_scan False False [] s"

text \<open>The lines of one body up to its delimiter, and of all pending bodies.\<close>

function read_body :: "string \<Rightarrow> bool \<Rightarrow> string \<Rightarrow> (string list \<times> string) option" where
  "read_body word strip s =
     (if s = [] then None
      else
        (let line = (if strip then dropWhile (\<lambda>c. c = TAB) (before_newline s) else before_newline s);
             rest = drop 1 (from_newline s) in
         if line = word then Some ([], rest) else map_option (\<lambda>(ls, r). (line # ls, r)) (read_body word strip rest)))"
  by pat_completeness auto
termination
  by (relation "measure (\<lambda>(_, _, s). length s)") (auto simp: from_newline_def less_diff_conv2 intro: le_less_trans [OF diff_le_mono [OF length_dropWhile_le]])

declare read_body.simps [simp del]

fun read_bodies :: "(string \<times> bool \<times> nat) list \<Rightarrow> (string \<times> bool) list \<Rightarrow> string \<Rightarrow> ((string \<times> bool) list \<times> string) option" where
  "read_bodies [] hds s = Some (hds, s)"
| "read_bodies ((word, strip, idx) # ps) hds s =
     (case read_body word strip s of
        None \<Rightarrow> None
      | Some (lines, rest) \<Rightarrow> read_bodies ps (hds[idx := (join_with [NEWLINE] lines, snd (hds ! idx))]) rest)"

text \<open>\<open>((\<close>: up to the parenthesis that closes the first one, or to the end.\<close>

fun paren_span :: "nat \<Rightarrow> string \<Rightarrow> string" where
  "paren_span d [] = []"
| "paren_span d (c # cs) =
     (let d1 = (if c = CHR ''('' then d + 1 else if c = CHR '')'' then d - 1 else d) in
      c # (if d1 = 0 then [] else paren_span d1 cs))"

definition word_start :: "char option \<Rightarrow> string \<Rightarrow> bool" where
  "word_start prev seps = (case prev of None \<Rightarrow> True | Some c \<Rightarrow> c \<in> set seps)"

definition COMMENT_BEFORE :: string where "COMMENT_BEFORE = '' '' @ [TAB, NEWLINE] @ '';&|()''"
definition COMMENT_BEFORE_FLAT :: string where "COMMENT_BEFORE_FLAT = COMMENT_BEFORE @ ''<>''"

definition skip_blanks :: "string \<Rightarrow> string" where
  "skip_blanks s = dropWhile (\<lambda>c. c = CHR '' '' \<or> c = TAB) s"

text \<open>After \<open><<\<close>: the flag to strip tabs and the text where the delimiter starts.\<close>

definition heredoc_head :: "string \<Rightarrow> bool \<times> string" where
  "heredoc_head s = (let strip = (s \<noteq> [] \<and> hd s = CHR ''-'') in (strip, skip_blanks (if strip then tl s else s)))"

lemma read_body_le: "read_body word strip s = Some (ls, r) \<Longrightarrow> length r \<le> length s"
proof (induction word strip s arbitrary: ls rule: read_body.induct)
  case (1 word strip s)
  have d: "length (drop 1 (from_newline s)) \<le> length s" using from_newline_le [of s] by simp
  from 1(2) have ne: "s \<noteq> []" by (auto simp: read_body.simps)
  let ?line = "if strip then dropWhile (\<lambda>c. c = TAB) (before_newline s) else before_newline s"
  show ?case
  proof (cases "?line = word")
    case True
    then have "r = drop 1 (from_newline s)" using 1(2) ne by (subst (asm) read_body.simps) (simp add: Let_def)
    then show ?thesis using d by simp
  next
    case False
    then obtain ls' where "read_body word strip (drop 1 (from_newline s)) = Some (ls', r)"
      using 1(2) ne by (subst (asm) read_body.simps) (auto simp: Let_def)
    from 1(1) [OF ne refl refl False this] d show ?thesis by simp
  qed
qed

lemma read_bodies_le: "read_bodies ps hds s = Some (hds', r) \<Longrightarrow> length r \<le> length s"
proof (induction ps hds s rule: read_bodies.induct)
  case (2 word strip idx ps hds s)
  then obtain ls rest where b: "read_body word strip s = Some (ls, rest)" by (auto split: option.splits)
  then have "read_bodies ps (hds[idx := (join_with [NEWLINE] ls, snd (hds ! idx))]) rest = Some (hds', r)" using 2 by simp
  from 2(1) [OF b refl this] read_body_le [OF b] show ?case by simp
qed simp

lemma delim_scan_le: "delim_scan some quoted word s = Some (w, q, r) \<Longrightarrow> length r \<le> length s"
proof (induction some quoted word s rule: delim_scan.induct)
  case (2 some quoted word c cs)
  have d: "length (drop 1 (dropWhile (\<lambda>x. x \<noteq> SQUOTE) cs)) \<le> length cs"
    using length_dropWhile_le [of "\<lambda>x. x \<noteq> SQUOTE" cs] by simp
  from 2(5) consider "r = c # cs" | "length r \<le> length cs"
    using 2(1) 2(2) 2(3) 2(4) d
    by (fastforce split: if_splits list.splits option.splits prod.splits dest: delim_dquoted_le)
  then show ?case by cases simp_all
qed (simp split: if_splits)


lemma paren_span_le: "length (drop (length (paren_span d s)) s) \<le> length s"
  by simp

lemma paren_span_nonempty: "s \<noteq> [] \<Longrightarrow> paren_span d s \<noteq> []"
  by (cases s) (simp_all add: Let_def)

lemma heredoc_head_le: "length (snd (heredoc_head s)) \<le> length s"
  by (cases s) (auto simp: heredoc_head_def skip_blanks_def Let_def intro: order_trans [OF length_dropWhile_le])

lemma comment_shrinks: "length (from_newline (CHR ''#'' # cs)) \<le> length cs" "from_newline ''#'' = []"
  by (simp_all add: from_newline_def NEWLINE_def length_dropWhile_le)

lemma heredoc_rest: "length (snd (heredoc_head (drop (Suc 0) cs))) \<le> length cs"
  using heredoc_head_le [of "drop (Suc 0) cs"] by simp

lemma delimiter_shrinks: "heredoc_delimiter (snd (heredoc_head (drop (Suc 0) cs))) = Some (w, q, r) \<Longrightarrow> length r \<le> length cs"
  using heredoc_rest [of cs] delim_scan_le unfolding heredoc_delimiter_def by (meson order_trans)

lemma marker_shrinks: "length (dropWhile P (tl (snd (heredoc_head (drop (Suc 0) cs))))) - Suc 0 \<le> length cs"
  using length_dropWhile_le [of P "tl (snd (heredoc_head (drop (Suc 0) cs)))"] heredoc_rest [of cs] by simp

text \<open>
  \<open>_extract_heredocs\<close>. \<open>prev\<close> is the character before, \<open>sq\<close> and \<open>dq\<close> the quoting, \<open>pend\<close> the delimiters whose bodies
  start at the next line, \<open>hds\<close> the bodies so far.
\<close>

function heredoc_scan :: "char option \<Rightarrow> bool \<Rightarrow> bool \<Rightarrow> (string \<times> bool \<times> nat) list \<Rightarrow> (string \<times> bool) list \<Rightarrow> string \<Rightarrow> scan_result" where
  "heredoc_scan prev sq dq pend hds [] = (if pend \<noteq> [] then Unparsed else Scanned [] hds)"
| "heredoc_scan prev sq dq pend hds (c # cs) =
     (if c = BACKSLASH \<and> \<not> sq \<and> cs \<noteq> []
      then scan_add [c, hd cs] (heredoc_scan (Some (hd cs)) sq dq pend hds (tl cs))
      else if c = SQUOTE \<and> \<not> dq then scan_add [c] (heredoc_scan (Some c) (\<not> sq) dq pend hds cs)
      else if c = DQUOTE \<and> \<not> sq then scan_add [c] (heredoc_scan (Some c) sq (\<not> dq) pend hds cs)
      else if \<not> sq \<and> \<not> dq \<and> c = CHR ''#'' \<and> word_start prev COMMENT_BEFORE
      then scan_add (before_newline (c # cs)) (heredoc_scan (Some (last (before_newline (c # cs)))) sq dq pend hds (from_newline (c # cs)))
      else if \<not> sq \<and> \<not> dq \<and> prefix ''(('' (c # cs)
      then (let span = paren_span 0 (c # cs) in
            scan_add span (heredoc_scan (Some (last span)) sq dq pend hds (drop (length span) (c # cs))))
      else if \<not> sq \<and> \<not> dq \<and> prefix ''<<<'' (c # cs)
      then scan_add ''<<<'' (heredoc_scan (Some (CHR ''<'')) sq dq pend hds (drop 2 cs))
      else if \<not> sq \<and> \<not> dq \<and> prefix ''<<'' (c # cs)
      then
        (let body = drop 1 cs; strip = fst (heredoc_head body); r = snd (heredoc_head body) in
         if prefix HEREDOC r
         then (if NUL \<in> set (tl r)
               then (let r1 = drop 1 (dropWhile (\<lambda>x. x \<noteq> NUL) (tl r)); span = take (length (c # cs) - length r1) (c # cs) in
                     scan_add span (heredoc_scan (Some NUL) sq dq pend hds r1))
               else NoMarkerEnd)
         else (case heredoc_delimiter r of
                 None \<Rightarrow> Unparsed
               | Some (word, quoted, r1) \<Rightarrow>
                   scan_add (''<< '' @ quoted_marker HEREDOC (length hds) @ '' '')
                     (heredoc_scan (Some (last (take (length (c # cs) - length r1) (c # cs)))) sq dq
                        (pend @ [(word, strip, length hds)]) (hds @ [([], quoted)]) r1)))
      else if c = NEWLINE \<and> pend \<noteq> [] \<and> \<not> sq \<and> \<not> dq
      then (case read_bodies pend hds cs of
              None \<Rightarrow> Unparsed
            | Some (hds1, r) \<Rightarrow> scan_add [c] (heredoc_scan (Some NEWLINE) sq dq [] hds1 r))
      else scan_add [c] (heredoc_scan (Some c) sq dq pend hds cs))"
  by pat_completeness auto
termination
proof (relation "measure (\<lambda>(_, _, _, _, _, s). length s)", goal_cases)
  case 1
  then show ?case by simp
qed (auto simp: comment_shrinks paren_span_nonempty Let_def less_Suc_eq_le
    intro: delimiter_shrinks marker_shrinks dest: read_bodies_le)


definition extract_heredocs :: "string \<Rightarrow> (string \<times> bool) list \<Rightarrow> scan_result" where
  "extract_heredocs text hds = heredoc_scan None False False [] hds text"


section \<open>Substitutions\<close>

datatype sub_kind = CommandSub | ProcessSub | ArithSub

fun close_paren :: "nat \<Rightarrow> string \<Rightarrow> string \<times> string" where
  "close_paren d [] = ([], [])"
| "close_paren d (c # cs) =
     (if c = CHR '')'' \<and> d \<le> 1 then ([], cs)
      else (case close_paren (if c = CHR ''('' then d + 1 else if c = CHR '')'' then d - 1 else d) cs of (inner, rest) \<Rightarrow> (c # inner, rest)))"

lemma close_paren_le: "length (snd (close_paren d s)) \<le> length s"
proof (induction s arbitrary: d)
  case (Cons c cs)
  show ?case using Cons.IH by (auto split: prod.split intro: le_SucI) (metis le_SucI snd_conv)+
qed simp

definition next_backtick :: "string \<Rightarrow> string \<times> string" where
  "next_backtick s = (takeWhile (\<lambda>c. c \<noteq> BACKTICK) s, drop 1 (dropWhile (\<lambda>c. c \<noteq> BACKTICK) s))"

lemma next_backtick_le: "length (snd (next_backtick s)) \<le> length s"
  using length_dropWhile_le [of "\<lambda>c. c \<noteq> BACKTICK" s] by (simp add: next_backtick_def)

fun sub_add :: "string \<Rightarrow> string \<times> (sub_kind \<times> string) list \<Rightarrow> string \<times> (sub_kind \<times> string) list" where
  "sub_add s (out, subs) = (s @ out, subs)"

fun sub_found :: "sub_kind \<Rightarrow> string \<Rightarrow> nat \<Rightarrow> string \<times> (sub_kind \<times> string) list \<Rightarrow> string \<times> (sub_kind \<times> string) list" where
  "sub_found k inner n (out, subs) = (quoted_marker PLACEHOLDER n @ out, (k, inner) # subs)"

text \<open>\<open>_extract_substitutions\<close>: \<open>prev\<close> is the last character written, \<open>n\<close> the number of substitutions so far.\<close>

function subst_scan :: "char option \<Rightarrow> nat \<Rightarrow> bool \<Rightarrow> bool \<Rightarrow> string \<Rightarrow> string \<times> (sub_kind \<times> string) list" where
  "subst_scan prev n sq dq [] = ([], [])"
| "subst_scan prev n sq dq (c # cs) =
     (if c = BACKSLASH \<and> \<not> sq \<and> cs \<noteq> []
      then (if hd cs = NEWLINE then subst_scan prev n sq dq (tl cs)
            else sub_add [c, hd cs] (subst_scan (Some (hd cs)) n sq dq (tl cs)))
      else if c = SQUOTE \<and> \<not> dq then sub_add [c] (subst_scan (Some c) n (\<not> sq) dq cs)
      else if c = DQUOTE \<and> \<not> sq then sub_add [c] (subst_scan (Some c) n sq (\<not> dq) cs)
      else if \<not> sq \<and> (prefix ''$('' (c # cs) \<or> (\<not> dq \<and> (prefix ''<('' (c # cs) \<or> prefix ''>('' (c # cs))))
      then (let kind = (if c = CHR ''<'' \<or> c = CHR ''>'' then ProcessSub else if prefix ''$(('' (c # cs) then ArithSub else CommandSub) in
            sub_found kind (fst (close_paren 1 (tl cs))) n
              (subst_scan (Some NUL) (n + 1) sq dq (snd (close_paren 1 (tl cs)))))
      else if c = BACKTICK \<and> \<not> sq
      then sub_found CommandSub (fst (next_backtick cs)) n (subst_scan (Some NUL) (n + 1) sq dq (snd (next_backtick cs)))
      else if c = CHR ''#'' \<and> \<not> sq \<and> \<not> dq \<and> word_start prev COMMENT_BEFORE_FLAT
      then subst_scan prev n sq dq (from_newline (c # cs))
      else if c = NEWLINE \<and> \<not> sq \<and> \<not> dq then sub_add '';'' (subst_scan (Some (CHR '';'')) n sq dq cs)
      else sub_add [c] (subst_scan (Some c) n sq dq cs))"
  by pat_completeness auto
termination
  by (relation "measure (\<lambda>(_, _, _, _, s). length s)")
    (auto simp: comment_shrinks less_Suc_eq_le le_SucI intro: order_trans [OF close_paren_le] next_backtick_le)

definition extract_substitutions :: "string \<Rightarrow> string \<times> (sub_kind \<times> string) list" where
  "extract_substitutions text = subst_scan None 0 False False text"


section \<open>Words\<close>

text \<open>\<open>shlex\<close>: the states, and what the next character does in the state between words.\<close>

datatype lex_state = LSpace | LWord | LPunct | LQuote char | LEsc bool

definition LEX_SPACE :: string where "LEX_SPACE = '' '' @ [TAB, CHR 0x0D, NEWLINE]"
definition LEX_PUNCT :: string where "LEX_PUNCT = ''();<>|&''"
definition LEX_QUOTES :: string where "LEX_QUOTES = [SQUOTE, DQUOTE]"

definition lex_start :: "char \<Rightarrow> lex_state \<times> string" where
  "lex_start c =
     (if c \<in> set LEX_SPACE then (LSpace, [])
      else if c = BACKSLASH then (LEsc False, [])
      else if c \<in> set LEX_PUNCT then (LPunct, [c])
      else if c \<in> set LEX_QUOTES then (LQuote c, [])
      else (LWord, [c]))"

definition emit_word :: "bool \<Rightarrow> string \<Rightarrow> string list option \<Rightarrow> string list option" where
  "emit_word quoted t rest = (if t \<noteq> [] \<or> quoted then map_option ((#) t) rest else rest)"

fun shlex_scan :: "lex_state \<Rightarrow> bool \<Rightarrow> string \<Rightarrow> string \<Rightarrow> string list option" where
  "shlex_scan LSpace q t [] = Some []"
| "shlex_scan LWord q t [] = emit_word q t (Some [])"
| "shlex_scan LPunct q t [] = Some [t]"
| "shlex_scan (LQuote _) q t [] = None"
| "shlex_scan (LEsc _) q t [] = None"
| "shlex_scan LSpace q t (c # cs) = shlex_scan (fst (lex_start c)) False (snd (lex_start c)) cs"
| "shlex_scan (LQuote e) q t (c # cs) =
     (if c = e then shlex_scan LWord True t cs
      else if c = BACKSLASH \<and> e = DQUOTE then shlex_scan (LEsc True) True t cs
      else shlex_scan (LQuote e) True (t @ [c]) cs)"
| "shlex_scan (LEsc dq) q t (c # cs) =
     (if dq then shlex_scan (LQuote DQUOTE) q (t @ (if c = BACKSLASH \<or> c = DQUOTE then [c] else [BACKSLASH, c])) cs
      else shlex_scan LWord q (t @ [c]) cs)"
| "shlex_scan LWord q t (c # cs) =
     (if c \<in> set LEX_SPACE then emit_word q t (shlex_scan LSpace False [] cs)
      else if c \<in> set LEX_QUOTES then shlex_scan (LQuote c) q t cs
      else if c = BACKSLASH then shlex_scan (LEsc False) q t cs
      else if c \<in> set LEX_PUNCT then emit_word q t (shlex_scan (fst (lex_start c)) False (snd (lex_start c)) cs)
      else shlex_scan LWord q (t @ [c]) cs)"
| "shlex_scan LPunct q t (c # cs) =
     (if c \<in> set LEX_SPACE then map_option ((#) t) (shlex_scan LSpace False [] cs)
      else if c \<in> set LEX_PUNCT then shlex_scan LPunct q (t @ [c]) cs
      else map_option ((#) t) (shlex_scan (fst (lex_start c)) False (snd (lex_start c)) cs))"

definition shlex_words :: "string \<Rightarrow> string list option" where
  "shlex_words text = shlex_scan LSpace False [] text"


section \<open>Pipelines\<close>

record cmd =
  cm_argv :: "string list"
  cm_redirects :: "(string \<times> string) list"

definition SEPARATORS :: "string list" where
  "SEPARATORS = ['';'', ''&&'', ''||'', ''&'', '';;'', ''('', '')'', [NEWLINE]]"

definition PIPES :: "string list" where
  "PIPES = [''|'', ''|&'']"

record split_state =
  sp_pipelines :: "cmd list list"
  sp_pipeline :: "cmd list"
  sp_cur :: cmd
  sp_pending :: "string option"

definition no_cmd :: cmd where
  "no_cmd = \<lparr>cm_argv = [], cm_redirects = []\<rparr>"

definition close_cmd :: "split_state \<Rightarrow> split_state" where
  "close_cmd s =
     s\<lparr>sp_pipeline := sp_pipeline s @ (if cm_argv (sp_cur s) \<noteq> [] \<or> cm_redirects (sp_cur s) \<noteq> [] then [sp_cur s] else []), sp_cur := no_cmd\<rparr>"

definition close_pipeline :: "split_state \<Rightarrow> split_state" where
  "close_pipeline s = s\<lparr>sp_pipelines := sp_pipelines s @ (if sp_pipeline s \<noteq> [] then [sp_pipeline s] else []), sp_pipeline := []\<rparr>"

definition only_chars :: "string \<Rightarrow> string \<Rightarrow> bool" where
  "only_chars tok cs = (tok \<noteq> [] \<and> list_all (\<lambda>c. c \<in> set cs) tok)"

definition split_token :: "split_state \<Rightarrow> string \<Rightarrow> split_state" where
  "split_token s tok =
     (case sp_pending s of
        Some op \<Rightarrow> s\<lparr>sp_cur := (sp_cur s)\<lparr>cm_redirects := cm_redirects (sp_cur s) @ [(op, tok)]\<rparr>, sp_pending := None\<rparr>
      | None \<Rightarrow>
          if tok \<in> set PIPES then close_cmd s
          else if tok \<in> set SEPARATORS \<or> only_chars tok '';&|()'' then close_pipeline (close_cmd s)
          else if only_chars tok ''<>&'' \<and> (CHR ''<'' \<in> set tok \<or> CHR ''>'' \<in> set tok)
          then (if last tok = CHR ''&'' then s else s\<lparr>sp_pending := Some tok\<rparr>)
          else s\<lparr>sp_cur := (sp_cur s)\<lparr>cm_argv := cm_argv (sp_cur s) @ [tok]\<rparr>\<rparr>)"

definition split_words :: "string list \<Rightarrow> cmd list list" where
  "split_words toks =
     sp_pipelines (close_pipeline (close_cmd (foldl split_token \<lparr>sp_pipelines = [], sp_pipeline = [], sp_cur = no_cmd, sp_pending = None\<rparr> toks)))"

text \<open>\<open>_split\<close>; none is the \<open>ValueError\<close> of unbalanced quotes.\<close>

definition split_script :: "string \<Rightarrow> cmd list list option" where
  "split_script text = map_option split_words (shlex_words text)"

end
