(* ===== verification/Guard_Paths.thy ===== *)
theory Guard_Paths
  imports Guard_Policy Shell_Lexer
begin

text \<open>
  The path rules of \<open>backend/agent_team_backend/guard/classify.py\<close> on Linux and macOS (the Windows branches are not
  modelled), with the parts of \<open>posixpath\<close> they use, and the accumulator of a classification. What the machine says (the home
  directory, \<open>TMPDIR\<close>, whether paths are compared without case, \<open>expanduser\<close>) is a record.
\<close>

section \<open>The machine and the context\<close>

record machine =
  mc_fold :: bool
  mc_home :: string
  mc_tmpdir :: string
  mc_expanduser :: "string \<Rightarrow> string"
  mc_str :: "jval \<Rightarrow> string"

record ctx =
  cx_cwd :: string
  cx_workspace :: string
  cx_home :: string
  cx_downloaded :: "string list"
  cx_protected :: "string list"
  cx_heredocs :: "(string \<times> bool) list"
  cx_unparsed :: bool

text \<open>\<open>str.lower\<close> on the characters of the model.\<close>

definition lower_char :: "char \<Rightarrow> char" where
  "lower_char c = (let n = of_char c :: nat in
     if (65 \<le> n \<and> n \<le> 90) \<or> (192 \<le> n \<and> n \<le> 222 \<and> n \<noteq> 215) then char_of (n + 32) else c)"

definition py_lower :: "string \<Rightarrow> string" where
  "py_lower s = map lower_char s"

definition fold_path :: "machine \<Rightarrow> string \<Rightarrow> string" where
  "fold_path mc p = (if mc_fold mc then py_lower p else p)"


section \<open>posixpath\<close>

definition SLASH :: char where "SLASH = CHR ''/''"

definition keep_comp :: "bool \<Rightarrow> string list \<Rightarrow> string \<Rightarrow> string list" where
  "keep_comp rooted kept part =
     (if part = [] \<or> part = ''.'' then kept
      else if part \<noteq> ''..'' \<or> (\<not> rooted \<and> kept = []) \<or> (kept \<noteq> [] \<and> last kept = ''..'') then kept @ [part]
      else if kept \<noteq> [] then butlast kept else kept)"

definition initial_slashes :: "string \<Rightarrow> nat" where
  "initial_slashes p = (if prefix ''//'' p \<and> \<not> prefix ''///'' p then 2 else if prefix ''/'' p then 1 else 0)"

definition normpath :: "string \<Rightarrow> string" where
  "normpath p =
     (if p = [] then ''.''
      else
        (let comps = foldl (keep_comp (0 < initial_slashes p)) [] (split_on SLASH p);
             q = replicate (initial_slashes p) SLASH @ join_with [SLASH] comps in
         if q = [] then ''.'' else q))"

definition path_join :: "string \<Rightarrow> string \<Rightarrow> string" where
  "path_join a b = (if prefix ''/'' b then b else if a = [] \<or> last a = SLASH then a @ b else a @ [SLASH] @ b)"

definition path_dirname :: "string \<Rightarrow> string" where
  "path_dirname p =
     (let head = rev (dropWhile (\<lambda>c. c \<noteq> SLASH) (rev p)) in
      if head \<noteq> [] \<and> \<not> list_all (\<lambda>c. c = SLASH) head then rstrip_char SLASH head else head)"


section \<open>Paths\<close>

definition norm_path :: "machine \<Rightarrow> string \<Rightarrow> string" where
  "norm_path mc p = (if p = [] then p else fold_path mc (normpath p))"

definition is_abs :: "string \<Rightarrow> bool" where
  "is_abs p = prefix ''/'' p"

definition HOME_TOKENS :: "string list" where
  "HOME_TOKENS = [''${HOME}'', ''$HOME'', ''${env:USERPROFILE}'', ''$env:USERPROFILE'', ''$USERPROFILE'', ''%USERPROFILE%'']"

definition expand_token :: "ctx \<Rightarrow> string \<Rightarrow> string \<Rightarrow> string" where
  "expand_token cx p token =
     (if p = token \<or> prefix (token @ ''/'') p then cx_home cx @ drop (length token) p else p)"

definition resolve_path :: "machine \<Rightarrow> ctx \<Rightarrow> string \<Rightarrow> string option" where
  "resolve_path mc cx arg =
     (if py_in PLACEHOLDER arg then None
      else
        (let p = foldl (expand_token cx) arg HOME_TOKENS in
         if CHR ''$'' \<in> set p then None
         else if p = ''~'' \<or> prefix ''~/'' p then
           (let q = cx_home cx @ drop 1 p in
            if is_abs q then Some (norm_path mc q)
            else if cx_cwd cx = [] then None else Some (norm_path mc (path_join (cx_cwd cx) q)))
         else if prefix ''~'' p then None
         else if is_abs p then Some (norm_path mc p)
         else if cx_cwd cx = [] then None
         else Some (norm_path mc (path_join (cx_cwd cx) p))))"

definition GLOB_CHARS :: string where "GLOB_CHARS = ''*?[''"

definition is_glob :: "string \<Rightarrow> bool" where
  "is_glob part = list_ex (\<lambda>c. c \<in> set GLOB_CHARS) part"

definition glob_base :: "string \<Rightarrow> string" where
  "glob_base path =
     (let parts = split_on SLASH path in
      if list_ex is_glob parts
      then (let base = join_with [SLASH] (takeWhile (\<lambda>p. \<not> is_glob p) parts) in if base = [] then ''/'' else base)
      else path)"

definition inside :: "string \<Rightarrow> string \<Rightarrow> bool" where
  "inside dir path = (dir \<noteq> [] \<and> (path = dir \<or> prefix (rstrip_char SLASH dir @ ''/'') path))"

definition TEMP_ROOTS :: "string list" where
  "TEMP_ROOTS = [''/tmp'', ''/private/tmp'', ''/var/tmp'', ''/private/var/tmp'', ''/var/folders'', ''/private/var/folders'']"

definition is_temp :: "machine \<Rightarrow> string \<Rightarrow> bool" where
  "is_temp mc path =
     list_ex (\<lambda>r. path \<noteq> r \<and> inside r path) (TEMP_ROOTS @ (if mc_tmpdir mc = [] then [] else [norm_path mc (mc_tmpdir mc)]))"

definition SECRET_DIRS :: "string list" where
  "SECRET_DIRS = [''.ssh'', ''.aws'', ''.gnupg'', ''.netrc'', ''.kube'', ''.docker'', ''.azure'', ''.gcloud'']"

text \<open>What the loop over the home directories decides for one: an answer, or to go on.\<close>

definition home_credential :: "machine \<Rightarrow> string \<Rightarrow> string \<Rightarrow> bool option" where
  "home_credential mc h path =
     (if \<not> inside h path \<or> path = h then None
      else
        (let rel = drop (length h + 1) path; first = fst (str_partition SLASH rel); base = py_basename path in
         if first \<in> set SECRET_DIRS
         then (if first = ''.kube'' \<and> \<not> prefix ''.kube/config'' rel then Some False
               else if first = ''.docker'' \<and> rel \<noteq> ''.docker/config.json'' then Some False
               else Some True)
         else if prefix (fold_path mc ''Library/Keychains'') rel then Some True
         else if prefix ''.config/gcloud'' rel \<or> rel = ''.config/gh/hosts.yml'' then Some True
         else if prefix ''.claude/'' rel \<and> prefix ''.credentials'' base then Some True
         else if prefix ''.codex/'' rel \<and> prefix ''auth'' base then Some True
         else None))"

definition is_credential :: "machine \<Rightarrow> ctx \<Rightarrow> string \<Rightarrow> bool" where
  "is_credential mc cx path =
     (case home_credential mc (cx_home cx) path of
        Some b \<Rightarrow> b
      | None \<Rightarrow> prefix (fold_path mc ''/Library/Keychains'') path \<or> suffix ''.keychain'' path \<or> suffix ''.keychain-db'' path)"

definition is_dotenv :: "string \<Rightarrow> bool" where
  "is_dotenv path =
     (let base = py_basename path in
      base = ''.env'' \<or> (prefix ''.env.'' base \<and> base \<notin> {''.env.example'', ''.env.sample'', ''.env.template''}))"

definition agent_config :: "ctx \<Rightarrow> string \<Rightarrow> bool" where
  "agent_config cx path =
     ((fnmatchcase (py_basename path) ''settings*.json'' \<and> path_dirname path = path_join (cx_home cx) ''.claude'') \<or>
      path = path_join (path_join (cx_home cx) ''.codex'') ''config.toml'')"


section \<open>The accumulator\<close>

record acc =
  ac_level :: level
  ac_rules :: "string list"
  ac_parseable :: bool
  ac_levels :: "(string \<times> level) list"

definition empty_acc :: acc where
  "empty_acc = \<lparr>ac_level = Normal, ac_rules = [], ac_parseable = True, ac_levels = []\<rparr>"

definition add_rule :: "string \<Rightarrow> acc \<Rightarrow> acc" where
  "add_rule rule a = (if rule \<in> set (ac_rules a) then a else a\<lparr>ac_rules := ac_rules a @ [rule]\<rparr>)"

definition rule_mark :: "acc \<Rightarrow> string \<Rightarrow> level" where
  "rule_mark a rule = (case dget (ac_levels a) rule of Some l \<Rightarrow> l | None \<Rightarrow> Normal)"

definition hit :: "level \<Rightarrow> string \<Rightarrow> acc \<Rightarrow> acc" where
  "hit l rule a =
     add_rule rule
       (a\<lparr>ac_level := (if ac_level a < l then l else ac_level a),
          ac_levels := (if rule_mark a rule < l then dset rule l (ac_levels a) else ac_levels a)\<rparr>)"

definition opaque :: "string \<Rightarrow> acc \<Rightarrow> acc" where
  "opaque rule a = add_rule rule (a\<lparr>ac_parseable := False\<rparr>)"


section \<open>One path\<close>

text \<open>\<open>s.split(sep, 1)[1:]\<close>: what follows the first occurrence.\<close>

fun after_first :: "string \<Rightarrow> string \<Rightarrow> string option" where
  "after_first sep [] = (if sep = [] then Some [] else None)"
| "after_first sep (c # cs) = (if prefix sep (c # cs) then Some (drop (length sep) (c # cs)) else after_first sep cs)"

definition is_git_hook :: "string \<Rightarrow> bool" where
  "is_git_hook path = (py_in ''/.git/hooks/'' (path @ ''/'') \<and> after_first ''/.git/hooks'' (rstrip_char SLASH path) \<noteq> Some [])"

definition check_path :: "machine \<Rightarrow> ctx \<Rightarrow> string \<Rightarrow> bool \<Rightarrow> bool \<Rightarrow> acc \<Rightarrow> acc" where
  "check_path mc cx path writes list_only a =
     (if is_credential mc cx path
      then (if list_only then hit High ''credential-path-list'' a else hit Critical ''credential-access'' a)
      else if is_dotenv path \<and> \<not> inside (cx_workspace cx) path then hit Critical ''dotenv-outside-workspace'' a
      else if \<not> writes then a
      else if is_git_hook path then hit High ''git-hooks-write'' a
      else if py_in ''/.github/workflows/'' path then hit High ''ci-workflow-write'' a
      else if agent_config cx path then hit High ''agent-config-write'' a
      else a)"

end
