(* ===== verification/Guard_Commands.thy ===== *)
theory Guard_Commands
  imports Guard_Paths
begin

text \<open>
  The command rules of \<open>backend/agent_team_backend/guard/classify.py\<close>: stripping wrappers, and what one command with its words
  means for the classification. A function that may record something returns the accumulator (and the context when it changes it).
\<close>

section \<open>Names\<close>

definition WRAPPERS_NO_ARG :: "string list" where
  "WRAPPERS_NO_ARG = [''nohup'', ''time'', ''command'', ''builtin'', ''exec'', ''caffeinate'', ''stdbuf'']"
definition SHELLS :: "string list" where
  "SHELLS = [''sh'', ''bash'', ''zsh'', ''dash'', ''ksh'', ''fish'', ''csh'', ''tcsh'']"
definition INTERPRETERS :: "string list" where
  "INTERPRETERS = SHELLS @ [''python'', ''python2'', ''python3'', ''perl'', ''ruby'', ''node'', ''php'', ''osascript'', ''deno'', ''bun'', ''pwsh'']"
definition DOWNLOADERS :: "string list" where
  "DOWNLOADERS = [''curl'', ''wget'', ''fetch'', ''http'', ''https'', ''aria2c'']"
definition DECODERS :: "string list" where
  "DECODERS = [''base64'', ''base32'', ''xxd'', ''openssl'', ''gunzip'', ''zcat'', ''uudecode'']"
definition LIST_ONLY :: "string list" where
  "LIST_ONLY = [''ls'', ''stat'', ''test'', ''['', ''[['', ''file'', ''du'', ''exa'', ''eza'', ''tree'']"
definition NON_PATH_CMDS :: "string list" where
  "NON_PATH_CMDS = [''echo'', ''printf'', ''true'', ''false'', '':'', ''export'', ''unset'', ''alias'']"
definition LEADING_KEYWORDS :: "string list" where
  "LEADING_KEYWORDS = [''if'', ''then'', ''else'', ''elif'', ''do'', ''while'', ''until'', ''!'', ''{'', ''}'', ''fi'', ''done'']"
definition SKIP_SEGMENT_KEYWORDS :: "string list" where
  "SKIP_SEGMENT_KEYWORDS = [''for'', ''case'', ''esac'', ''select'', ''function'']"
definition PUBLISH :: "(string \<times> string) list" where
  "PUBLISH = [(''npm'', ''publish''), (''pnpm'', ''publish''), (''yarn'', ''publish''), (''twine'', ''upload''),
    (''uv'', ''publish''), (''poetry'', ''publish''), (''cargo'', ''publish''), (''gem'', ''push''), (''flit'', ''publish''), (''hatch'', ''publish'')]"
definition PROTECTED_BRANCHES :: "string list" where "PROTECTED_BRANCHES = [''main'', ''master'']"
definition SYSTEM_BIN_PREFIXES :: "string list" where
  "SYSTEM_BIN_PREFIXES = [''/usr/'', ''/bin/'', ''/sbin/'', ''/opt/homebrew/'', ''/opt/local/'', ''/Applications/'', ''/System/'', ''/Library/'', ''/nix/'']"
definition STDIN_PATHS :: "string list" where
  "STDIN_PATHS = [''-'', ''/dev/stdin'', ''/dev/fd/0'', ''/proc/self/fd/0'']"


section \<open>Wrappers\<close>

definition starts_dash :: "string \<Rightarrow> bool" where
  "starts_dash a = prefix ''-'' a"

text \<open>\<open>while argv and argv[0]...: drop it, and its argument when it takes one\<close>.\<close>

fun skip_options :: "(string \<Rightarrow> bool) \<Rightarrow> string list \<Rightarrow> string list \<Rightarrow> string list" where
  "skip_options P takes [] = []"
| "skip_options P takes (a # as) =
     (if P a then (if a \<in> set takes then (case as of [] \<Rightarrow> [] | _ # bs \<Rightarrow> skip_options P takes bs) else skip_options P takes as)
      else a # as)"

lemma skip_options_le: "length (skip_options P takes as) \<le> length as"
proof (induction P takes as rule: skip_options.induct)
  case (2 P takes a as)
  show ?case
  proof (cases "P a \<and> a \<in> set takes")
    case True
    then show ?thesis using 2(1) by (cases as) (auto simp: le_SucI)
  next
    case False
    then show ?thesis using 2(2) by (auto simp: le_SucI)
  qed
qed simp

text \<open>\<open>^[A-Za-z_][A-Za-z0-9_]*=\<close>\<close>

definition ident_start :: "char \<Rightarrow> bool" where
  "ident_start c = (let n = of_char c :: nat in c = CHR ''_'' \<or> (65 \<le> n \<and> n \<le> 90) \<or> (97 \<le> n \<and> n \<le> 122))"

definition is_assignment :: "string \<Rightarrow> bool" where
  "is_assignment a =
     (a \<noteq> [] \<and> ident_start (hd a) \<and> prefix ''='' (dropWhile (\<lambda>c. ident_start c \<or> is_digit c) a))"

definition base_word :: "string \<Rightarrow> string" where
  "base_word a = py_basename a"

function unwrap :: "string list \<Rightarrow> bool \<Rightarrow> acc \<Rightarrow> string list \<times> bool \<times> acc" where
  "unwrap [] from_stdin a = ([], from_stdin, a)"
| "unwrap (w # ws) from_stdin a =
     (let word = base_word w in
      if word \<in> set LEADING_KEYWORDS then unwrap ws from_stdin a
      else if is_assignment w then unwrap ws from_stdin a
      else if word \<in> {''sudo'', ''doas''}
      then unwrap (skip_options starts_dash [''-u'', ''-g'', ''-C'', ''-h'', ''-p'', ''-U'', ''-r'', ''-t''] ws) from_stdin (hit Critical ''sudo'' a)
      else if word = ''su'' then ([], from_stdin, hit Critical ''sudo'' a)
      else if word = ''env''
      then unwrap (skip_options (\<lambda>s. starts_dash s \<or> CHR ''='' \<in> set s) [''-u'', ''-C'', ''-S''] ws) from_stdin a
      else if word \<in> set WRAPPERS_NO_ARG then unwrap (skip_options starts_dash [] ws) from_stdin a
      else if word \<in> {''nice'', ''timeout'', ''ionice''}
      then (let r = skip_options starts_dash [''-n'', ''-s'', ''-k'', ''-c''] ws in
            unwrap (if word = ''timeout'' then drop 1 r else r) from_stdin a)
      else if word = ''xargs''
      then unwrap (skip_options starts_dash [''-I'', ''-n'', ''-P'', ''-L'', ''-d'', ''-E'', ''-s''] ws) True a
      else (w # ws, from_stdin, a))"
  by pat_completeness auto
termination
  by (relation "measure (\<lambda>(ws, _, _). length ws)")
    (auto simp: Let_def less_Suc_eq_le skip_options_le intro: order_trans [OF diff_le_self skip_options_le])


section \<open>Arguments\<close>

fun flags :: "string list \<Rightarrow> string list" where
  "flags [] = []"
| "flags (a # as) =
     (if a = ''--'' then []
      else if prefix ''--'' a then fst (str_partition CHR ''='' a) # flags as
      else if prefix ''-'' a \<and> 1 < length a then map (\<lambda>c. [CHR ''-'', c]) (tl a) @ flags as
      else flags as)"

fun positionals_from :: "bool \<Rightarrow> string list \<Rightarrow> string list" where
  "positionals_from dd [] = []"
| "positionals_from dd (a # as) =
     (if dd then a # positionals_from dd as
      else if a = ''--'' then positionals_from True as
      else if \<not> prefix ''-'' a \<or> a = ''-'' then a # positionals_from dd as
      else positionals_from dd as)"

definition positionals :: "string list \<Rightarrow> string list" where
  "positionals as = positionals_from False as"

definition any_of :: "string list \<Rightarrow> string list \<Rightarrow> bool" where
  "any_of xs ys = list_ex (\<lambda>x. x \<in> set ys) xs"

text \<open>\<open>a.split("=", 1)[1]\<close>.\<close>

definition after_char :: "char \<Rightarrow> string \<Rightarrow> string" where
  "after_char c s = drop 1 (dropWhile (\<lambda>x. x \<noteq> c) s)"

definition at_stripped :: "string \<Rightarrow> string" where
  "at_stripped a = (if prefix ''@'' a then tl a else a)"

definition path_like :: "string \<Rightarrow> string list" where
  "path_like a =
     (let b = at_stripped a in
      if list_ex (\<lambda>p. prefix p b) ([''/'', ''~'', ''.''] @ HOME_TOKENS) \<or> SLASH \<in> set b \<or> prefix ''.env'' b then [b] else [])"

definition arg_paths :: "string \<Rightarrow> string list" where
  "arg_paths a =
     (if a = [] \<or> a = ''-'' then []
      else if prefix ''-'' a then (if CHR ''='' \<in> set a then path_like (after_char CHR ''='' a) else [])
      else if CHR ''='' \<in> set a \<and> \<not> (prefix ''/'' a \<or> prefix ''~'' a \<or> prefix ''.'' a) then path_like (after_char CHR ''='' a)
      else path_like a)"


section \<open>rm\<close>

definition rm_target :: "machine \<Rightarrow> ctx \<Rightarrow> bool \<Rightarrow> bool \<Rightarrow> string \<Rightarrow> acc \<Rightarrow> acc" where
  "rm_target mc cx recursive filtered raw a =
     (case resolve_path mc cx raw of
        None \<Rightarrow> opaque ''rm-unresolved-target'' (hit High ''rm-unresolved-target'' a)
      | Some path \<Rightarrow>
          (let base = glob_base path; ws = cx_workspace cx in
           if is_credential mc cx base \<or> is_credential mc cx path then hit Critical ''credential-access'' a
           else if base = ''/'' \<or> base = cx_home cx \<or> (ws \<noteq> [] \<and> inside base ws \<and> base \<noteq> ws)
           then hit Critical ''rm-root-or-home'' a
           else if ws \<noteq> [] \<and> inside ws path
           then (if \<not> recursive then a
                 else if path = ws \<and> \<not> filtered then hit Critical ''rm-workspace-root'' a
                 else hit High ''rm-recursive-in-workspace'' a)
           else if is_temp mc base then a
           else if recursive then hit Critical ''rm-outside-workspace'' a
           else hit High ''rm-file-outside-workspace'' a))"

definition classify_rm :: "machine \<Rightarrow> ctx \<Rightarrow> string list \<Rightarrow> bool \<Rightarrow> bool \<Rightarrow> bool \<Rightarrow> acc \<Rightarrow> acc" where
  "classify_rm mc cx targets from_stdin recursive filtered a =
     (let paths = positionals targets in
      if from_stdin \<and> paths = [] \<and> recursive
      then opaque ''rm-unresolved-target'' (hit High ''rm-unresolved-target'' a)
      else foldl (\<lambda>a raw. rm_target mc cx recursive filtered raw a) a paths)"


section \<open>git\<close>

fun git_subcommand :: "string list \<Rightarrow> (string \<times> string list) option" where
  "git_subcommand [] = None"
| "git_subcommand (a # as) =
     (if prefix ''-'' a
      then (if a \<in> {''-C'', ''-c'', ''--git-dir'', ''--work-tree'', ''--namespace''}
            then (case as of [] \<Rightarrow> None | _ # bs \<Rightarrow> git_subcommand bs) else git_subcommand as)
      else Some (a, as))"

definition ref_dst :: "string \<Rightarrow> string" where
  "ref_dst r0 =
     (let r = lstrip_by (\<lambda>c. c = CHR ''+'') r0; dst = (if CHR '':'' \<in> set r then after_char CHR '':'' r else r) in
      if prefix ''refs/heads/'' dst then drop (length ''refs/heads/'') dst else dst)"

definition classify_push :: "ctx \<Rightarrow> string list \<Rightarrow> acc \<Rightarrow> acc" where
  "classify_push cx rest a =
     (let fl = flags rest; refspecs = drop 1 (positionals rest);
          force = (any_of fl [''-f'', ''--force'', ''--force-with-lease'', ''--force-if-includes'', ''--mirror''] \<or> list_ex (prefix ''+'') refspecs);
          delete = (any_of fl [''-d'', ''--delete''] \<or> list_ex (\<lambda>r. prefix '':'' (lstrip_by (\<lambda>c. c = CHR ''+'') r)) refspecs);
          protected = any_of (map ref_dst refspecs) (cx_protected cx) in
      if (force \<or> delete) \<and> protected then hit Critical ''git-force-push-protected'' a
      else if force then hit High ''git-push-force'' a
      else hit High ''git-push'' a)"

definition classify_git :: "ctx \<Rightarrow> string list \<Rightarrow> acc \<Rightarrow> acc" where
  "classify_git cx args a =
     (case git_subcommand args of
        None \<Rightarrow> a
      | Some (sub, rest) \<Rightarrow>
          if sub = ''push'' then classify_push cx rest a
          else if sub = ''reset'' \<and> ''--hard'' \<in> set (flags rest) then hit High ''git-reset-hard'' a
          else if sub = ''clean'' \<and> any_of (flags rest) [''-f'', ''--force''] then hit High ''git-clean-force'' a
          else a)"


section \<open>Uploads\<close>

definition upload_file :: "string \<Rightarrow> string \<Rightarrow> string list" where
  "upload_file a nxt =
     (if a \<in> {''-d'', ''--data'', ''--data-binary'', ''--data-raw'', ''--data-urlencode'', ''-F'', ''--form''}
      then (if CHR ''@'' \<in> set nxt then [fst (str_partition CHR '';'' (after_char CHR ''@'' nxt))] else [])
      else if (prefix ''--data='' a \<or> prefix ''--data-binary='' a \<or> prefix ''--form='' a) \<and> CHR ''@'' \<in> set a
      then [after_char CHR ''@'' a]
      else if a \<in> {''-T'', ''--upload-file'', ''--post-file'', ''--body-file''} then [nxt]
      else if prefix ''--post-file='' a \<or> prefix ''--body-file='' a then [after_char CHR ''='' a]
      else [])"

fun upload_files :: "string list \<Rightarrow> string list" where
  "upload_files [] = []"
| "upload_files (a # as) = upload_file a (case as of [] \<Rightarrow> [] | b # _ \<Rightarrow> b) @ upload_files as"

definition url_rest :: "string \<Rightarrow> string option" where
  "url_rest a = (if prefix ''http://'' a then Some (drop 7 a) else if prefix ''https://'' a then Some (drop 8 a) else None)"

definition local_host :: "string \<Rightarrow> bool" where
  "local_host r =
     list_ex (\<lambda>h. prefix h r \<and> (let t = drop (length h) r in t = [] \<or> t = [NEWLINE] \<or> hd t = CHR '':'' \<or> hd t = SLASH))
       [''localhost'', ''127.0.0.1'', ''[::1]'']"

definition upload_target :: "machine \<Rightarrow> ctx \<Rightarrow> bool \<Rightarrow> string \<Rightarrow> acc \<Rightarrow> acc" where
  "upload_target mc cx local f a =
     (case resolve_path mc cx f of
        Some path \<Rightarrow>
          if path \<noteq> [] \<and> (is_credential mc cx path \<or> is_dotenv path) then hit Critical ''credential-exfil'' a
          else if \<not> local then hit High ''http-upload-file'' a else a
      | None \<Rightarrow> if \<not> local then hit High ''http-upload-file'' a else a)"

definition classify_upload :: "machine \<Rightarrow> ctx \<Rightarrow> string list \<Rightarrow> acc \<Rightarrow> acc" where
  "classify_upload mc cx args a =
     (let hosts = List.map_filter url_rest args; local = (hosts \<noteq> [] \<and> list_all local_host hosts) in
      foldl (\<lambda>a f. upload_target mc cx local f a) a (upload_files args))"


section \<open>Scripts and downloads\<close>

fun downloads_in :: "string \<Rightarrow> string list \<Rightarrow> string list" where
  "downloads_in word [] = []"
| "downloads_in word (a # as) =
     (if a \<in> {''-o'', ''--output'', ''-O'', ''--output-document''} \<and> as \<noteq> []
      then (if word = ''curl'' \<and> a = ''-O'' then [] else [hd as])
      else if prefix ''--output='' a \<or> prefix ''--output-document='' a then [after_char CHR ''='' a]
      else []) @ downloads_in word as"

definition track_downloads :: "machine \<Rightarrow> string \<Rightarrow> string list \<Rightarrow> ctx \<Rightarrow> ctx" where
  "track_downloads mc word args cx =
     foldl (\<lambda>cx t. case (if t = [] then None else resolve_path mc cx t) of
        Some path \<Rightarrow> (if path = [] then cx else cx\<lparr>cx_downloaded := List.insert path (cx_downloaded cx)\<rparr>) | None \<Rightarrow> cx) cx (downloads_in word args)"

definition check_script_exec :: "machine \<Rightarrow> ctx \<Rightarrow> nat list \<Rightarrow> string \<Rightarrow> acc \<Rightarrow> acc" where
  "check_script_exec mc cx downs script a =
     (case sub_index script of
        Some i \<Rightarrow> if i \<in> set downs then hit Critical ''pipe-download-to-shell'' a else opaque ''unknown-script'' a
      | None \<Rightarrow>
          (case resolve_path mc cx script of
             None \<Rightarrow> opaque ''unknown-script'' a
           | Some path \<Rightarrow>
               if path \<in> set (cx_downloaded cx) then opaque ''download-then-exec'' (hit Critical ''download-then-exec'' a)
               else if inside (cx_workspace cx) path \<or> list_ex (\<lambda>p. prefix (fold_path mc p) path) SYSTEM_BIN_PREFIXES then a
               else if inside (path_join (path_join (cx_home cx) ''.local'') ''bin'') path then a
               else opaque ''unknown-script'' a))"


section \<open>One command\<close>

definition find_deletes :: "string list \<Rightarrow> bool" where
  "find_deletes args =
     (''-delete'' \<in> set args \<or> (''-exec'' \<in> set args \<and> ''rm'' \<in> set args) \<or> (''-execdir'' \<in> set args \<and> ''rm'' \<in> set args))"

definition starts_any :: "string list \<Rightarrow> string \<Rightarrow> bool" where
  "starts_any ps s = list_ex (\<lambda>p. prefix p s) ps"

definition diskutil_erases :: "string list \<Rightarrow> bool" where
  "diskutil_erases args =
     (let sub = py_lower (hd args) in
      starts_any [''erase'', ''zero'', ''random'', ''secureerase'', ''partition'', ''reformat''] sub \<or>
      (sub \<in> {''apfs'', ''cs'', ''ar''} \<and> 1 < length args \<and> starts_any [''delete'', ''erase''] (py_lower (args ! 1))))"

definition KEYCHAIN_CMDS :: "string list" where
  "KEYCHAIN_CMDS = [''find-generic-password'', ''find-internet-password'', ''dump-keychain'', ''export'', ''delete-'',
     ''unlock-keychain'', ''set-generic-password'', ''add-generic-password'']"

definition aws_destroys :: "string list \<Rightarrow> bool" where
  "aws_destroys args =
     (let pos = positionals args in
      list_ex (starts_any [''delete-'', ''terminate-'']) pos \<or> take 2 pos = [''s3'', ''rb''] \<or>
      (take 2 pos = [''s3'', ''rm''] \<and> ''--recursive'' \<in> set args))"

definition WRITING_CMDS :: "string list" where
  "WRITING_CMDS = [''cp'', ''mv'', ''tee'', ''install'', ''ln'', ''rsync'', ''scp'', ''touch'', ''chmod'', ''sed'', ''truncate'']"

definition check_args :: "machine \<Rightarrow> ctx \<Rightarrow> bool \<Rightarrow> bool \<Rightarrow> string list \<Rightarrow> acc \<Rightarrow> acc" where
  "check_args mc cx writes list_only args a =
     foldl (\<lambda>a cand. case resolve_path mc cx cand of
        Some path \<Rightarrow> (if path = [] then a else check_path mc cx path writes list_only a) | None \<Rightarrow> a) a (concat (map arg_paths args))"

definition classify_command :: "machine \<Rightarrow> string \<Rightarrow> string list \<Rightarrow> bool \<Rightarrow> ctx \<times> acc \<Rightarrow> ctx \<times> acc" where
  "classify_command mc word args from_stdin s =
     (case s of (cx, a) \<Rightarrow>
      (if word \<in> set NON_PATH_CMDS then (cx, a)
       else if word \<in> {''cd'', ''pushd''}
       then (let pos = positionals args; target = (if pos = [] then ''~'' else hd pos) in
             (cx\<lparr>cx_cwd := (case resolve_path mc cx target of None \<Rightarrow> [] | Some p \<Rightarrow> p)\<rparr>, a))
       else (cx,
         if word = ''rm''
         then classify_rm mc cx args from_stdin (any_of (flags args) [''-r'', ''-R'', ''--recursive'']) False a
         else if word = ''find'' \<and> find_deletes args
         then (let roots = takeWhile (\<lambda>x. \<not> (prefix ''-'' x \<or> x \<in> {''('', ''!'', '')''})) args in
               classify_rm mc cx (if roots = [] then [''.''] else roots) False True True a)
         else if word = ''dd''
         then (if list_ex (prefix ''of=/dev/'') args then hit Critical ''disk-write'' a else hit High ''dd'' a)
         else if prefix ''mkfs'' word \<or> prefix ''newfs'' word \<or> word \<in> {''fdisk'', ''sfdisk'', ''gpt'', ''wipefs''}
         then hit Critical ''disk-format'' a
         else if word = ''diskutil'' \<and> args \<noteq> []
         then (if diskutil_erases args then hit Critical ''disk-format'' a else a)
         else if word = ''security'' \<and> args \<noteq> []
         then (if starts_any KEYCHAIN_CMDS (hd args) then hit Critical ''keychain-access'' a else a)
         else if word = ''git'' then classify_git cx args a
         else if (args \<noteq> [] \<and> (word, hd args) \<in> set PUBLISH) \<or> (word = ''yarn'' \<and> take 2 args = [''npm'', ''publish''])
         then hit High ''package-publish'' a
         else if word \<in> {''terraform'', ''tofu''} \<and> args \<noteq> [] \<and> (hd args = ''destroy'' \<or> (hd args = ''apply'' \<and> ''-destroy'' \<in> set args))
         then hit Critical ''cloud-destroy'' a
         else if word = ''kubectl'' \<and> ''delete'' \<in> set (positionals args) then hit Critical ''cloud-destroy'' a
         else if word = ''aws'' then (if aws_destroys args then hit Critical ''cloud-destroy'' a else a)
         else if word \<in> {''gcloud'', ''az''} \<and> ''delete'' \<in> set (positionals args) then hit Critical ''cloud-destroy'' a
         else if word \<in> set DOWNLOADERS then classify_upload mc cx args a
         else check_args mc cx (word \<in> set WRITING_CMDS) (word \<in> set LIST_ONLY) args a)))"

end
