(* ===== verification/Guard_Classify.thy ===== *)
theory Guard_Classify
  imports Guard_Commands Guard_Engine
begin

text \<open>
  The classifier itself: \<open>_classify_pipeline\<close>, \<open>_classify_script\<close> and \<open>classify\<close> of
  \<open>backend/agent_team_backend/guard/classify.py\<close>. The three recursive functions call each other through
  \<open>_classify_script\<close> only, so the ones around it take it as an argument; it runs on fuel, the interpreter's recursion
  limit, and running out of it is the exception \<open>RecursionError\<close>. The texts of the reasons are left out.
\<close>

section \<open>State\<close>

datatype crash = RecursionLimit | MarkerMissing

type_synonym guard_run = "ctx \<times> acc"
type_synonym script_fun = "nat \<Rightarrow> string \<Rightarrow> guard_run \<Rightarrow> crash + guard_run"

fun run_each :: "('x \<Rightarrow> guard_run \<Rightarrow> crash + guard_run) \<Rightarrow> 'x list \<Rightarrow> guard_run \<Rightarrow> crash + guard_run" where
  "run_each f [] s = Inr s"
| "run_each f (x # xs) s = (case f x s of Inl e \<Rightarrow> Inl e | Inr s1 \<Rightarrow> run_each f xs s1)"

definition then_run :: "crash + guard_run \<Rightarrow> (guard_run \<Rightarrow> crash + guard_run) \<Rightarrow> crash + guard_run" where
  "then_run r f = (case r of Inl e \<Rightarrow> Inl e | Inr s \<Rightarrow> f s)"

definition on_acc :: "(ctx \<Rightarrow> acc \<Rightarrow> acc) \<Rightarrow> guard_run \<Rightarrow> guard_run" where
  "on_acc f s = (fst s, f (fst s) (snd s))"


section \<open>Interpreters\<close>

datatype program = InlineCode string | ScriptFile string | NamedModule | FromStdin

fun interpreter_args :: "string \<Rightarrow> string list \<Rightarrow> program" where
  "interpreter_args word [] = FromStdin"
| "interpreter_args word (a # as) =
     (let shell = word \<in> set SHELLS in
      if a \<in> set (if shell then [''-c''] else [''-c'', ''-e'', ''-E'', ''--eval'', ''-r'']) \<or>
         (shell \<and> prefix ''-'' a \<and> \<not> prefix ''--'' a \<and> CHR ''c'' \<in> set (tl a))
      then InlineCode (case as of [] \<Rightarrow> [] | b # _ \<Rightarrow> b)
      else if a = ''-'' \<or> a = ''-s'' then FromStdin
      else if prefix ''-'' a then (if \<not> shell \<and> a = ''-m'' then NamedModule else interpreter_args word as)
      else if a \<in> set STDIN_PATHS then FromStdin
      else ScriptFile a)"

definition shell_reads_stdin :: "string list \<Rightarrow> bool" where
  "shell_reads_stdin argv =
     (case argv of
        [] \<Rightarrow> False
      | w # ws \<Rightarrow>
          (let word = base_word w in
           if word = ''source'' \<or> word = ''.'' then ws \<noteq> [] \<and> hd ws \<in> set STDIN_PATHS
           else if word \<notin> set SHELLS then False
           else interpreter_args word ws \<in> {FromStdin, NamedModule}))"

text \<open>\<open>str.isdigit\<close> on the characters of the model.\<close>

definition digit_text :: "string \<Rightarrow> bool" where
  "digit_text s = (s \<noteq> [] \<and> list_all (\<lambda>c. is_digit c \<or> (of_char c :: nat) \<in> {178, 179, 185}) s)"

definition stdout_to_file :: "machine \<Rightarrow> ctx \<Rightarrow> cmd \<Rightarrow> bool" where
  "stdout_to_file mc cx c =
     (if list_ex digit_text (cm_argv c) then False
      else
        (let targets = map snd (filter (\<lambda>(op, _). CHR ''>'' \<in> set op) (cm_redirects c)) in
         case (if targets = [] then None else resolve_path mc cx (last targets)) of
           None \<Rightarrow> False
         | Some path \<Rightarrow> path \<noteq> [] \<and> \<not> prefix ''/dev/'' path \<and> \<not> prefix ''/proc/'' path))"

definition heredoc_bodies :: "ctx \<Rightarrow> cmd \<Rightarrow> (string \<times> bool) list" where
  "heredoc_bodies cx c =
     List.map_filter (\<lambda>(op, target).
        if op = ''<<'' \<or> op = ''<<-''
        then (case marker_whole HEREDOC target of
                Some i \<Rightarrow> if i < length (cx_heredocs cx) then Some (cx_heredocs cx ! i) else None
              | None \<Rightarrow> None)
        else None) (cm_redirects c)"

text \<open>\<open>re.search(rf"(^|[\s;|&(/]){d}(\s|$)", text)\<close>.\<close>

fun word_in :: "bool \<Rightarrow> string \<Rightarrow> string \<Rightarrow> bool" where
  "word_in start d [] = False"
| "word_in start d (c # cs) =
     ((start \<and> prefix d (c # cs) \<and> (let t = drop (length d) (c # cs) in t = [] \<or> py_isspace (hd t))) \<or>
      word_in (py_isspace c \<or> c \<in> set '';|&(/'') d cs)"

definition mentions_downloader :: "string \<Rightarrow> bool" where
  "mentions_downloader text = list_ex (\<lambda>d. word_in True d text) DOWNLOADERS"


section \<open>Screening data\<close>

text \<open>\<open>str.splitlines\<close>.\<close>

definition line_end :: "char \<Rightarrow> bool" where
  "line_end c = ((of_char c :: nat) \<in> {10, 11, 12, 13, 28, 29, 30, 133})"

fun split_lines_from :: "string \<Rightarrow> string \<Rightarrow> string list" where
  "split_lines_from cur [] = (if cur = [] then [] else [cur])"
| "split_lines_from cur (c # cs) =
     (if line_end c
      then cur # (if c = CHR 0x0D \<and> cs \<noteq> [] \<and> hd cs = NEWLINE then split_lines_from [] (tl cs) else split_lines_from [] cs)
      else split_lines_from (cur @ [c]) cs)"

definition split_lines :: "string \<Rightarrow> string list" where
  "split_lines s = split_lines_from [] s"

definition unquote_text :: "string \<Rightarrow> string" where
  "unquote_text s = map (\<lambda>c. if c \<in> {DQUOTE, SQUOTE, BACKTICK} then CHR '' '' else c) s"

definition SCREEN_IGNORED :: "string list" where
  "SCREEN_IGNORED = [''unknown-script'', ''dynamic-command'']"

definition merge_screen :: "acc \<Rightarrow> acc \<Rightarrow> acc" where
  "merge_screen sub a =
     foldl (\<lambda>a rule. case dget (ac_levels sub) rule of
        Some l \<Rightarrow> (if rule \<notin> set SCREEN_IGNORED then hit l rule a else a) | None \<Rightarrow> a) a (ac_rules sub)"

text \<open>One line, read as a script of its own; read again without its quotes when they are not balanced.\<close>

definition line_verdict :: "script_fun \<Rightarrow> nat \<Rightarrow> string \<Rightarrow> ctx \<Rightarrow> crash + (ctx \<times> acc)" where
  "line_verdict script depth line cx =
     (case script depth line (cx, empty_acc) of
        Inl e \<Rightarrow> Inl e
      | Inr (cx1, sub) \<Rightarrow>
          if ''unbalanced-quotes'' \<in> set (ac_rules sub) then script depth (unquote_text line) (cx1, empty_acc) else Inr (cx1, sub))"

fun screen_lines :: "script_fun \<Rightarrow> nat \<Rightarrow> string list \<Rightarrow> ctx \<Rightarrow> acc \<Rightarrow> crash + acc" where
  "screen_lines script depth [] copy a = Inr a"
| "screen_lines script depth (l # ls) copy a =
     (case line_verdict script depth l copy of
        Inl e \<Rightarrow> Inl e
      | Inr (copy1, sub) \<Rightarrow> screen_lines script depth ls copy1 (merge_screen sub a))"

definition fresh_copy :: "ctx \<Rightarrow> ctx" where
  "fresh_copy cx = cx\<lparr>cx_heredocs := [], cx_unparsed := False\<rparr>"

definition screen_data :: "script_fun \<Rightarrow> nat \<Rightarrow> string \<Rightarrow> guard_run \<Rightarrow> crash + guard_run" where
  "screen_data script depth body s =
     (case screen_lines script (depth + 1) (split_lines body) (fresh_copy (fst s)) (snd s) of
        Inl e \<Rightarrow> Inl e | Inr a \<Rightarrow> Inr (fst s, a))"


section \<open>One stage of a pipeline\<close>

datatype producer = Download | Decode | OtherOutput

definition hit_if :: "bool \<Rightarrow> level \<Rightarrow> string \<Rightarrow> acc \<Rightarrow> acc" where
  "hit_if b l rule a = (if b then hit l rule a else a)"

definition in_downloads :: "nat list \<Rightarrow> string \<Rightarrow> bool" where
  "in_downloads downs arg = (case sub_index arg of Some i \<Rightarrow> i \<in> set downs | None \<Rightarrow> False)"

definition stdin_body :: "script_fun \<Rightarrow> nat list \<Rightarrow> nat \<Rightarrow> string \<Rightarrow> guard_run \<Rightarrow> crash + guard_run" where
  "stdin_body script downs depth body s =
     script (depth + 1) body
       (case sub_index body of
          None \<Rightarrow> s
        | Some i \<Rightarrow> on_acc (\<lambda>_ a. opaque ''dynamic-stdin-script''
            (if i \<in> set downs then hit Critical ''pipe-download-to-shell'' a else hit High ''dynamic-stdin-script'' a)) s)"

definition classify_interpreter ::
  "script_fun \<Rightarrow> machine \<Rightarrow> nat list \<Rightarrow> nat \<Rightarrow> string \<Rightarrow> string list \<Rightarrow> producer list \<Rightarrow> string list \<Rightarrow> string list \<Rightarrow> guard_run \<Rightarrow> crash + guard_run" where
  "classify_interpreter script mc downs depth word args up inputs piped s =
     (case interpreter_args word args of
        NamedModule \<Rightarrow> Inr s
      | InlineCode code \<Rightarrow>
          if word \<in> set SHELLS
          then script (depth + 1) code (on_acc (\<lambda>_. hit_if (in_downloads downs code) Critical ''pipe-download-to-shell'') s)
          else Inr (on_acc (\<lambda>_. opaque ''interpreter-inline-code'') s)
      | ScriptFile file \<Rightarrow>
          Inr (on_acc (\<lambda>cx a. if in_downloads downs file then hit Critical ''pipe-download-to-shell'' a else check_script_exec mc cx downs file a) s)
      | FromStdin \<Rightarrow>
          if inputs \<noteq> []
          then (if word \<in> set SHELLS then run_each (stdin_body script downs depth) inputs s
                else Inr (on_acc (\<lambda>_. opaque ''interpreter-inline-code'') s))
          else if Download \<in> set up then Inr (on_acc (\<lambda>_. hit Critical ''pipe-download-to-shell'') s)
          else if Decode \<in> set up then Inr (on_acc (\<lambda>_ a. opaque ''decode-and-exec'' (hit High ''decode-and-exec'' a)) s)
          else if up \<noteq> []
          then then_run (Inr (on_acc (\<lambda>_. opaque ''stdin-script'') s))
                 (\<lambda>s1. if word \<in> set SHELLS then run_each (script (depth + 1)) piped s1 else Inr s1)
          else Inr s)"

definition produces :: "string \<Rightarrow> string list \<Rightarrow> producer" where
  "produces word args =
     (if word \<in> set DOWNLOADERS then Download
      else if word \<in> set DECODERS \<and> list_ex (\<lambda>a. a \<in> {''-D'', ''--decode'', ''-r''} \<or> prefix ''-d'' a) args then Decode
      else OtherOutput)"

definition check_redirect :: "machine \<Rightarrow> string \<times> string \<Rightarrow> ctx \<Rightarrow> acc \<Rightarrow> acc" where
  "check_redirect mc r cx a =
     (if fst r = ''<<'' \<or> fst r = ''<<-'' then a
      else (case resolve_path mc cx (snd r) of
              Some path \<Rightarrow> (if path = [] then a else check_path mc cx path (CHR ''>'' \<in> set (fst r)) False a) | None \<Rightarrow> a))"

text \<open>The bodies and here-strings of a command: what runs in them, and whether they are screened.\<close>

definition body_subs :: "script_fun \<Rightarrow> nat \<Rightarrow> string \<times> bool \<Rightarrow> guard_run \<Rightarrow> crash + guard_run" where
  "body_subs script depth b s =
     (if snd b then Inr s else run_each (script (depth + 1)) (map snd (snd (extract_substitutions (fst b)))) s)"

definition cmd_inputs :: "ctx \<Rightarrow> cmd \<Rightarrow> string list" where
  "cmd_inputs cx c = map fst (heredoc_bodies cx c) @ map snd (filter (\<lambda>(op, _). op = ''<<<'') (cm_redirects c))"

definition screens_inputs :: "machine \<Rightarrow> bool \<Rightarrow> cmd \<Rightarrow> string list \<Rightarrow> ctx \<Rightarrow> bool" where
  "screens_inputs mc is_last c argv cx =
     (\<not> (is_last \<and> stdout_to_file mc cx c \<and> base_word (if argv = [] then [] else hd argv) \<notin> set INTERPRETERS))"

text \<open>What the words of a command mean, once its wrappers and redirections are dealt with; \<open>None\<close> stands for the early \<open>continue\<close>.\<close>

definition classify_word ::
  "script_fun \<Rightarrow> machine \<Rightarrow> nat list \<Rightarrow> nat \<Rightarrow> bool \<Rightarrow> string list \<Rightarrow> producer list \<Rightarrow> string list \<Rightarrow> string list \<Rightarrow> guard_run \<Rightarrow>
   crash + (guard_run \<times> producer option)" where
  "classify_word script mc downs depth from_stdin argv up inputs piped s =
     (case argv of
        [] \<Rightarrow> Inr (s, None)
      | raw # args \<Rightarrow>
          (let word = base_word raw; stop = (\<lambda>r. case r of Inl e \<Rightarrow> Inl e | Inr s1 \<Rightarrow> Inr (s1, None)) in
           if raw \<in> set SKIP_SEGMENT_KEYWORDS then Inr (s, None)
           else if py_in PLACEHOLDER raw \<or> CHR ''$'' \<in> set raw then Inr (on_acc (\<lambda>_. opaque ''dynamic-command'') s, None)
           else if word = ''eval''
           then stop (script (depth + 1) (join_with '' '' args)
                  (on_acc (\<lambda>_ a. hit_if (list_ex (in_downloads downs) args) Critical ''pipe-download-to-shell'' (opaque ''eval'' a)) s))
           else if word \<in> {''source'', ''.''} \<and> args \<noteq> []
           then (if hd args \<in> set STDIN_PATHS
                 then stop (classify_interpreter script mc downs depth ''sh'' [] up inputs piped s)
                 else Inr (on_acc (\<lambda>cx. check_script_exec mc cx downs (hd args)) s, None))
           else
             (case (if word \<in> set INTERPRETERS then classify_interpreter script mc downs depth word args up inputs piped s
                    else Inr (classify_command mc word args from_stdin
                           (on_acc (\<lambda>cx a. if SLASH \<in> set raw then check_script_exec mc cx downs raw a else a) s))) of
                Inl e \<Rightarrow> Inl e
              | Inr s1 \<Rightarrow>
                  Inr ((if word \<in> set DOWNLOADERS then track_downloads mc word args (fst s1) else fst s1, snd s1), Some (produces word args)))))"

definition classify_stage ::
  "script_fun \<Rightarrow> machine \<Rightarrow> nat list \<Rightarrow> nat \<Rightarrow> bool \<Rightarrow> bool \<Rightarrow> cmd \<Rightarrow> producer list \<Rightarrow> string list \<Rightarrow> guard_run \<Rightarrow>
   crash + (guard_run \<times> producer list \<times> string list)" where
  "classify_stage script mc downs depth is_first is_last c up piped s =
     (case unwrap (cm_argv c) False (snd s) of (argv, stdin0, a1) \<Rightarrow>
      (let bodies = heredoc_bodies (fst s) c; inputs = cmd_inputs (fst s) c; data = (inputs \<noteq> [] \<and> \<not> shell_reads_stdin argv) in
       case then_run (run_each (body_subs script depth) bodies (fst s, a1))
              (\<lambda>s2. if data \<and> screens_inputs mc is_last c argv (fst s2) then run_each (screen_data script depth) inputs s2 else Inr s2) of
         Inl e \<Rightarrow> Inl e
       | Inr s3 \<Rightarrow>
           (let piped1 = (if data \<and> \<not> is_last then piped @ inputs else piped);
                s4 = foldl (\<lambda>s r. on_acc (check_redirect mc r) s) s3 (cm_redirects c) in
            case classify_word script mc downs depth (stdin0 \<or> \<not> is_first) argv up inputs piped1 s4 of
              Inl e \<Rightarrow> Inl e
            | Inr (s5, p) \<Rightarrow> Inr (s5, (case p of None \<Rightarrow> up | Some k \<Rightarrow> up @ [k]), piped1))))"

fun classify_stages ::
  "script_fun \<Rightarrow> machine \<Rightarrow> nat list \<Rightarrow> nat \<Rightarrow> bool \<Rightarrow> cmd list \<Rightarrow> producer list \<Rightarrow> string list \<Rightarrow> guard_run \<Rightarrow> crash + guard_run" where
  "classify_stages script mc downs depth is_first [] up piped s = Inr s"
| "classify_stages script mc downs depth is_first (c # cs) up piped s =
     (case classify_stage script mc downs depth is_first (cs = []) c up piped s of
        Inl e \<Rightarrow> Inl e
      | Inr (s1, up1, piped1) \<Rightarrow> classify_stages script mc downs depth False cs up1 piped1 s1)"

definition classify_pipeline :: "script_fun \<Rightarrow> machine \<Rightarrow> nat list \<Rightarrow> nat \<Rightarrow> cmd list \<Rightarrow> guard_run \<Rightarrow> crash + guard_run" where
  "classify_pipeline script mc downs depth pipeline s = classify_stages script mc downs depth True pipeline [] [] s"


section \<open>Scripts\<close>

text \<open>\<open>re.sub(r"\$\(|[`()]", " ", text)\<close>.\<close>

fun flatten_nesting :: "string \<Rightarrow> string" where
  "flatten_nesting [] = []"
| "flatten_nesting (c # cs) =
     (if c = CHR ''$'' \<and> cs \<noteq> [] \<and> hd cs = CHR ''('' then CHR '' '' # flatten_nesting (tl cs)
      else if c = BACKTICK \<or> c = CHR ''('' \<or> c = CHR '')'' then CHR '' '' # flatten_nesting cs
      else c # flatten_nesting cs)"

definition sub_scripts :: "sub_kind \<times> string \<Rightarrow> string list" where
  "sub_scripts k = (if fst k = ArithSub then map snd (snd (extract_substitutions (snd k))) else [snd k])"

definition download_subs :: "(sub_kind \<times> string) list \<Rightarrow> nat list" where
  "download_subs subs = filter (\<lambda>i. mentions_downloader (snd (subs ! i))) [0..<length subs]"

definition cut_heredocs :: "string \<Rightarrow> guard_run \<Rightarrow> crash + (string \<times> guard_run)" where
  "cut_heredocs text s =
     (case extract_heredocs text (cx_heredocs (fst s)) of
        NoMarkerEnd \<Rightarrow> Inl MarkerMissing
      | Unparsed \<Rightarrow> Inr (text, (fst s)\<lparr>cx_unparsed := True\<rparr>, snd s)
      | Scanned out hds \<Rightarrow> Inr (out, (fst s)\<lparr>cx_heredocs := hds\<rparr>, snd s))"

definition deep_script :: "script_fun \<Rightarrow> machine \<Rightarrow> nat \<Rightarrow> string \<Rightarrow> guard_run \<Rightarrow> crash + guard_run" where
  "deep_script script mc depth text s =
     (let s1 = on_acc (\<lambda>_. opaque ''nesting-too-deep'') s in
      case split_script (flatten_nesting text) of
        None \<Rightarrow> Inr s1
      | Some pls \<Rightarrow> run_each (classify_pipeline script mc [] depth) pls s1)"

definition flat_script :: "script_fun \<Rightarrow> machine \<Rightarrow> nat \<Rightarrow> string \<Rightarrow> guard_run \<Rightarrow> crash + guard_run" where
  "flat_script script mc depth text s =
     (case cut_heredocs text s of
        Inl e \<Rightarrow> Inl e
      | Inr (out, s1) \<Rightarrow>
          (let subs = snd (extract_substitutions out);
               s2 = on_acc (\<lambda>cx a. if cx_unparsed cx then opaque ''heredoc-unparsed'' a else a) s1 in
           case split_script (fst (extract_substitutions out)) of
             None \<Rightarrow> Inr (on_acc (\<lambda>_. opaque ''unbalanced-quotes'') s2)
           | Some pls \<Rightarrow>
               then_run (run_each (script (depth + 1)) (concat (map sub_scripts subs)) s2)
                 (run_each (classify_pipeline script mc (download_subs subs) depth) pls)))"

definition MAX_DEPTH :: nat where "MAX_DEPTH = 6"

fun classify_script :: "nat \<Rightarrow> machine \<Rightarrow> nat \<Rightarrow> string \<Rightarrow> guard_run \<Rightarrow> crash + guard_run" where
  "classify_script 0 mc depth text s = Inl RecursionLimit"
| "classify_script (Suc fuel) mc depth text s =
     (if MAX_DEPTH < depth then deep_script (classify_script fuel mc) mc depth text s
      else flat_script (classify_script fuel mc) mc depth text s)"


section \<open>Entry points\<close>

definition make_ctx :: "machine \<Rightarrow> string \<Rightarrow> string \<Rightarrow> string list option \<Rightarrow> ctx" where
  "make_ctx mc cwd workspace protected =
     (let home = norm_path mc (mc_home mc);
          ws = (if workspace = [] then [] else norm_path mc (mc_expanduser mc workspace));
          base = (if cwd \<noteq> [] then norm_path mc (mc_expanduser mc cwd) else if ws \<noteq> [] then ws else home) in
      \<lparr>cx_cwd = base, cx_workspace = ws, cx_home = home, cx_downloaded = [],
       cx_protected = (case protected of None \<Rightarrow> PROTECTED_BRANCHES | Some bs \<Rightarrow> bs), cx_heredocs = [], cx_unparsed = False\<rparr>)"

definition verdict_of :: "acc \<Rightarrow> verdict" where
  "verdict_of a = \<lparr>vd_level = ac_level a, vd_rule_ids = ac_rules a, vd_parseable = ac_parseable a\<rparr>"

definition SHELL_TOOLS :: "string list" where
  "SHELL_TOOLS = [''shell'', ''bash'', ''exec'', ''exec_command'', ''local_shell'', ''run_shell_command'', ''shell_command'',
     ''run_command'', ''terminal'', ''powershell'']"
definition WRITE_TOOLS :: "string list" where
  "WRITE_TOOLS = [''write'', ''edit'', ''multiedit'', ''notebookedit'', ''write_file'', ''edit_file'', ''replace'', ''apply_patch'',
     ''str_replace_editor'', ''create'']"
definition READ_TOOLS :: "string list" where
  "READ_TOOLS = [''read'', ''read_file'', ''view'', ''cat'', ''notebookread'']"
definition MAX_COMMAND_CHARS :: nat where "MAX_COMMAND_CHARS = 64000"

text \<open>\<open>shlex.join\<close> of the standard library.\<close>

definition safe_char :: "char \<Rightarrow> bool" where
  "safe_char c = (ident_start c \<or> is_digit c \<or> c \<in> set ''@%+=:,./-'')"

definition shell_quote :: "string \<Rightarrow> string" where
  "shell_quote s =
     (if s = [] then [SQUOTE, SQUOTE]
      else if list_all safe_char s then s
      else [SQUOTE] @ concat (map (\<lambda>c. if c = SQUOTE then [SQUOTE, DQUOTE, SQUOTE, DQUOTE, SQUOTE] else [c]) s) @ [SQUOTE])"

definition tool_command :: "machine \<Rightarrow> (string \<times> jval) list \<Rightarrow> string option" where
  "tool_command mc d =
     (case (case dget d ''command'' of Some v \<Rightarrow> v | None \<Rightarrow> jget d ''cmd'') of
        JList vs \<Rightarrow> Some (join_with '' '' (map (\<lambda>v. shell_quote (mc_str mc v)) vs))
      | JStr s \<Rightarrow> Some s
      | _ \<Rightarrow> None)"

definition tool_paths :: "(string \<times> jval) list \<Rightarrow> string list" where
  "tool_paths d =
     List.map_filter (\<lambda>k. case jget d k of JStr s \<Rightarrow> (if s = [] then None else Some s) | _ \<Rightarrow> None)
       [''file_path'', ''path'', ''notebook_path'', ''filename'', ''target_file'', ''absolute_path'']"

definition check_tool_path :: "machine \<Rightarrow> ctx \<Rightarrow> bool \<Rightarrow> acc \<Rightarrow> string \<Rightarrow> acc" where
  "check_tool_path mc cx writes a raw =
     (case resolve_path mc cx raw of None \<Rightarrow> opaque ''dynamic-path'' a | Some path \<Rightarrow> check_path mc cx path writes False a)"

subsection \<open>The text of a permission prompt\<close>

text \<open>The box characters within the characters of the model.\<close>

definition BOX_CHARS :: string where "BOX_CHARS = ''|>* '' @ [TAB]"

definition strip_chars :: "string \<Rightarrow> string \<Rightarrow> string" where
  "strip_chars cs s = rstrip_by (\<lambda>c. c \<in> set cs) (lstrip_by (\<lambda>c. c \<in> set cs) s)"

definition prompt_line :: "string \<Rightarrow> string" where
  "prompt_line raw =
     (let line = py_strip (strip_chars BOX_CHARS (py_strip raw)) in if prefix ''$ '' line then drop 2 line else line)"

fun split_by :: "(char \<Rightarrow> bool) \<Rightarrow> string \<Rightarrow> string \<Rightarrow> string list" where
  "split_by P cur [] = [cur]"
| "split_by P cur (c # cs) = (if P c then cur # split_by P [] cs else split_by P (cur @ [c]) cs)"

definition prompt_words :: "string \<Rightarrow> string list" where
  "prompt_words line = split_by (\<lambda>c. py_isspace c \<or> c \<in> {CHR ''('', CHR '')'', SQUOTE, DQUOTE, BACKTICK, CHR '',''}) [] line"

text \<open>\<open>\b[A-Z][A-Za-z]*\((.+)\)\s*$\<close>: the argument of the first tool call that reaches to the end of the line.\<close>

definition upper_letter :: "char \<Rightarrow> bool" where "upper_letter c = (let n = of_char c :: nat in 65 \<le> n \<and> n \<le> 90)"
definition letter :: "char \<Rightarrow> bool" where "letter c = (ident_start c \<and> c \<noteq> CHR ''_'')"

definition word_char :: "char \<Rightarrow> bool" where
  "word_char c = (let n = of_char c :: nat in ident_start c \<or> is_digit c \<or>
     n \<in> {170, 178, 179, 181, 185, 186, 188, 189, 190} \<or> (192 \<le> n \<and> n \<noteq> 215 \<and> n \<noteq> 247))"

fun call_argument :: "bool \<Rightarrow> string \<Rightarrow> string option" where
  "call_argument after_word [] = None"
| "call_argument after_word (c # cs) =
     (let rest = dropWhile letter (c # cs); trimmed = rstrip_by py_isspace rest in
      if \<not> after_word \<and> upper_letter c \<and> prefix ''('' rest \<and> 3 \<le> length trimmed \<and> last trimmed = CHR '')''
      then Some (butlast (tl trimmed))
      else call_argument (word_char c) cs)"

fun adopt_rules :: "string list \<Rightarrow> acc \<Rightarrow> acc" where
  "adopt_rules [] a = a"
| "adopt_rules (r # rs) a = adopt_rules rs (if r \<noteq> ''unbalanced-quotes'' then add_rule r a else a)"

definition adopt_line :: "acc \<Rightarrow> acc \<Rightarrow> acc" where
  "adopt_line sub a =
     (let a1 = adopt_rules (ac_rules sub) a in
      a1\<lparr>ac_level := (if ac_level a1 < ac_level sub then ac_level sub else ac_level a1),
         ac_parseable := (if \<not> ac_parseable sub \<and> list_ex (\<lambda>r. r \<noteq> ''unbalanced-quotes'') (ac_rules sub) then False else ac_parseable a1)\<rparr>)"

definition screen_candidate :: "nat \<Rightarrow> machine \<Rightarrow> ctx \<Rightarrow> string \<Rightarrow> acc \<Rightarrow> crash + acc" where
  "screen_candidate fuel mc cx cand a =
     (case classify_script fuel mc 0 cand (cx, empty_acc) of
        Inl e \<Rightarrow> Inl e
      | Inr (_, sub) \<Rightarrow>
          if ''unbalanced-quotes'' \<in> set (ac_rules sub)
          then (case classify_script fuel mc 0 (unquote_text cand) (cx, empty_acc) of Inl e \<Rightarrow> Inl e | Inr (_, sub1) \<Rightarrow> Inr (adopt_line sub1 a))
          else Inr (adopt_line sub a))"

definition screen_prompt_line :: "nat \<Rightarrow> machine \<Rightarrow> ctx \<Rightarrow> string \<Rightarrow> acc \<Rightarrow> crash + acc" where
  "screen_prompt_line fuel mc cx raw a =
     (let line = prompt_line raw in
      if py_strip (strip_chars BOX_CHARS (py_strip raw)) = [] then Inr a
      else
        (case screen_candidate fuel mc cx line (check_args mc cx False False (prompt_words line) a) of
           Inl e \<Rightarrow> Inl e
         | Inr a1 \<Rightarrow> (case call_argument False line of None \<Rightarrow> Inr a1 | Some arg \<Rightarrow> screen_candidate fuel mc cx arg a1)))"

fun screen_prompt :: "nat \<Rightarrow> machine \<Rightarrow> ctx \<Rightarrow> string list \<Rightarrow> acc \<Rightarrow> crash + acc" where
  "screen_prompt fuel mc cx [] a = Inr a"
| "screen_prompt fuel mc cx (l # ls) a = (case screen_prompt_line fuel mc cx l a of Inl e \<Rightarrow> Inl e | Inr a1 \<Rightarrow> screen_prompt fuel mc cx ls a1)"

definition classify_prompt_text :: "nat \<Rightarrow> machine \<Rightarrow> string \<Rightarrow> string \<Rightarrow> string list option \<Rightarrow> crash + verdict" where
  "classify_prompt_text fuel mc text workspace protected =
     (case screen_prompt fuel mc (make_ctx mc workspace workspace protected) (split_lines text) empty_acc of
        Inl e \<Rightarrow> Inl e | Inr a \<Rightarrow> Inr (verdict_of a))"

definition classify :: "nat \<Rightarrow> machine \<Rightarrow> string \<Rightarrow> jval \<Rightarrow> string \<Rightarrow> string \<Rightarrow> string list option \<Rightarrow> crash + verdict" where
  "classify fuel mc tool input cwd workspace protected =
     (let cx = make_ctx mc cwd workspace protected; name = py_lower (py_strip tool);
          d = (case input of JDict d \<Rightarrow> d | _ \<Rightarrow> []) in
      if name = ''prompt''
      then classify_prompt_text fuel mc (if truthy (jget d ''text'') then mc_str mc (jget d ''text'') else []) workspace protected
      else if name \<in> set SHELL_TOOLS
      then (case tool_command mc d of
              None \<Rightarrow> Inr (verdict_of empty_acc)
            | Some raw \<Rightarrow>
                (let command = (if name = ''powershell'' then map (\<lambda>c. if c = BACKSLASH then SLASH else c) raw else raw) in
                 if raw = [] then Inr (verdict_of empty_acc)
                 else if MAX_COMMAND_CHARS < length command
                 then Inr (verdict_of (opaque ''too-long'' (hit High ''too-long'' empty_acc)))
                 else (case classify_script fuel mc 0 command (cx, empty_acc) of
                         Inl e \<Rightarrow> Inl e | Inr (_, a) \<Rightarrow> Inr (verdict_of a))))
      else if name \<in> set WRITE_TOOLS \<or> name \<in> set READ_TOOLS
      then Inr (verdict_of (foldl (check_tool_path mc cx (name \<in> set WRITE_TOOLS)) empty_acc (tool_paths d)))
      else Inr (verdict_of empty_acc))"

end
