(* ===== verification/Guard_Verdicts.thy ===== *)
theory Guard_Verdicts
  imports Guard_Classify
begin

text \<open>
  What a classification promises. Everything the classifier does to its state is one of three moves: it records a hit, it
  records that something cannot be judged, or it changes the working directory, the downloads or the heredocs of the context. A
  relation on states that the three moves keep is therefore kept by a whole script, whatever the fuel; the locale \<open>run_relation\<close>
  says so once, and its interpretations are that nothing a command contributed is ever taken back and that the level is the
  highest of the recorded ones.
\<close>

section \<open>Relations that the moves keep\<close>

definition same_machine :: "ctx \<Rightarrow> ctx \<Rightarrow> bool" where
  "same_machine cx cx' =
     (cx_home cx' = cx_home cx \<and> cx_workspace cx' = cx_workspace cx \<and> cx_protected cx' = cx_protected cx \<and>
      set (cx_downloaded cx) \<subseteq> set (cx_downloaded cx'))"

lemma same_machine_refl [simp]: "same_machine cx cx"
  by (simp add: same_machine_def)

lemma same_machine_trans: "same_machine a b \<Longrightarrow> same_machine b c \<Longrightarrow> same_machine a c"
  by (auto simp: same_machine_def)

definition keeps :: "(guard_run \<Rightarrow> guard_run \<Rightarrow> bool) \<Rightarrow> script_fun \<Rightarrow> bool" where
  "keeps R f = (\<forall>d t s s'. f d t s = Inr s' \<longrightarrow> R s s')"

lemma keepsD: "keeps R f \<Longrightarrow> f d t s = Inr s' \<Longrightarrow> R s s'"
  unfolding keeps_def by blast

lemma Inr_cases:
  "then_run r f = Inr s' \<Longrightarrow> (\<And>s1. r = Inr s1 \<Longrightarrow> f s1 = Inr s' \<Longrightarrow> P) \<Longrightarrow> P"
  by (cases r) (simp_all add: then_run_def)

lemma track_downloads_same: "same_machine cx (track_downloads mc word args cx)"
proof -
  have "same_machine cx (foldl (\<lambda>cx t. case (if t = [] then None else resolve_path mc cx t) of
        Some path \<Rightarrow> (if path = [] then cx else cx\<lparr>cx_downloaded := List.insert path (cx_downloaded cx)\<rparr>) | None \<Rightarrow> cx) cx ts)" for ts
  proof (induction ts arbitrary: cx)
    case (Cons t ts)
    let ?cx1 = "case (if t = [] then None else resolve_path mc cx t) of
        Some path \<Rightarrow> (if path = [] then cx else cx\<lparr>cx_downloaded := List.insert path (cx_downloaded cx)\<rparr>) | None \<Rightarrow> cx"
    have "same_machine cx ?cx1" by (auto simp: same_machine_def split: option.split)
    from same_machine_trans [OF this Cons.IH] show ?case by simp
  qed simp
  then show ?thesis unfolding track_downloads_def .
qed

lemma cut_heredocs_same: "cut_heredocs text s = Inr (out, s1) \<Longrightarrow> same_machine (fst s) (fst s1) \<and> snd s1 = snd s"
  by (auto simp: cut_heredocs_def same_machine_def split: scan_result.splits)

text \<open>Every rule the classifier names is in the table of built-in rules, and a hit has the level the table gives it.\<close>

definition listed :: "string \<Rightarrow> level \<Rightarrow> bool" where
  "listed r l = (dget BUILTIN_RULES r = Some l)"

lemma listed_critical [simp]:
  "listed ''credential-access'' Critical" "listed ''credential-exfil'' Critical" "listed ''dotenv-outside-workspace'' Critical"
  "listed ''keychain-access'' Critical" "listed ''sudo'' Critical" "listed ''pipe-download-to-shell'' Critical"
  "listed ''download-then-exec'' Critical" "listed ''disk-write'' Critical" "listed ''disk-format'' Critical"
  "listed ''rm-root-or-home'' Critical" "listed ''rm-workspace-root'' Critical" "listed ''rm-outside-workspace'' Critical"
  "listed ''git-force-push-protected'' Critical" "listed ''cloud-destroy'' Critical"
  by (simp_all add: listed_def BUILTIN_RULES_def)

lemma listed_high [simp]:
  "listed ''credential-path-list'' High" "listed ''git-hooks-write'' High" "listed ''ci-workflow-write'' High"
  "listed ''agent-config-write'' High" "listed ''dd'' High" "listed ''package-publish'' High" "listed ''git-push'' High"
  "listed ''git-push-force'' High" "listed ''git-reset-hard'' High" "listed ''git-clean-force'' High"
  "listed ''rm-recursive-in-workspace'' High" "listed ''rm-file-outside-workspace'' High" "listed ''rm-unresolved-target'' High"
  "listed ''decode-and-exec'' High" "listed ''http-upload-file'' High" "listed ''too-long'' High" "listed ''dynamic-stdin-script'' High"
  by (simp_all add: listed_def BUILTIN_RULES_def)

lemma listed_normal [simp]:
  "listed ''dynamic-command'' Normal" "listed ''eval'' Normal" "listed ''unbalanced-quotes'' Normal" "listed ''nesting-too-deep'' Normal"
  "listed ''interpreter-inline-code'' Normal" "listed ''stdin-script'' Normal" "listed ''heredoc-unparsed'' Normal"
  "listed ''unknown-script'' Normal" "listed ''dynamic-path'' Normal"
  by (simp_all add: listed_def BUILTIN_RULES_def)

definition marks_listed :: "acc \<Rightarrow> bool" where
  "marks_listed a = (\<forall>r l. dget (ac_levels a) r = Some l \<longrightarrow> listed r l \<and> l \<noteq> Normal)"

lemma marks_listed_empty [simp]: "marks_listed empty_acc"
  by (simp add: marks_listed_def empty_acc_def)

lemma add_rule_simps [simp]:
  "ac_level (add_rule r a) = ac_level a" "ac_levels (add_rule r a) = ac_levels a" "ac_parseable (add_rule r a) = ac_parseable a"
  by (simp_all add: add_rule_def)

lemma hit_simps [simp]:
  "ac_level (hit l r a) = max (ac_level a) l" "ac_parseable (hit l r a) = ac_parseable a"
  "ac_rules (hit l r a) = (if r \<in> set (ac_rules a) then ac_rules a else ac_rules a @ [r])"
  by (auto simp: hit_def add_rule_def)

lemma opaque_simps [simp]:
  "ac_level (opaque r a) = ac_level a" "\<not> ac_parseable (opaque r a)" "ac_levels (opaque r a) = ac_levels a"
  "ac_rules (opaque r a) = (if r \<in> set (ac_rules a) then ac_rules a else ac_rules a @ [r])"
  by (auto simp: opaque_def add_rule_def)

lemma marks_listed_hit: "listed r l \<Longrightarrow> l \<noteq> Normal \<Longrightarrow> marks_listed a \<Longrightarrow> marks_listed (hit l r a)"
  by (auto simp: marks_listed_def hit_def)

lemma marks_listed_opaque: "marks_listed a \<Longrightarrow> marks_listed (opaque r a)"
  by (simp add: marks_listed_def)

locale run_relation =
  fixes R :: "guard_run \<Rightarrow> guard_run \<Rightarrow> bool"
  assumes stays: "R s s"
    and chain: "R s t \<Longrightarrow> R t u \<Longrightarrow> R s u"
    and hits: "listed r l \<Longrightarrow> l \<noteq> Normal \<Longrightarrow> R (cx, a) (cx, hit l r a)"
    and opaques: "listed r l \<Longrightarrow> l \<le> ac_level a \<Longrightarrow> R (cx, a) (cx, opaque r a)"
    and moves: "same_machine cx cx' \<Longrightarrow> R (cx, a) (cx', a)"
    and marks: "R s t \<Longrightarrow> marks_listed (snd s) \<Longrightarrow> marks_listed (snd t)"
begin

lemma adds_fold: "(\<And>x a. R (cx, a) (cx, f a x)) \<Longrightarrow> R (cx, a) (cx, foldl f a xs)"
  by (induction xs arbitrary: a) (auto intro: stays chain)

lemma unjudged: "listed r Normal \<Longrightarrow> R (cx, a) (cx, opaque r a)"
  by (erule opaques) (simp add: less_eq_level_def)

lemma hit_opaque: "listed r l \<Longrightarrow> listed r' l' \<Longrightarrow> l' \<le> l \<Longrightarrow> l \<noteq> Normal \<Longrightarrow> R (cx, a) (cx, opaque r' (hit l r a))"
  by (rule chain [OF hits opaques]) (auto simp: le_max_iff_disj)

lemma hit_opaque_same: "listed r l \<Longrightarrow> l \<noteq> Normal \<Longrightarrow> R (cx, a) (cx, opaque r (hit l r a))"
  by (rule hit_opaque [of r l r l]) simp_all

lemma hit_when: "listed r l \<Longrightarrow> l \<noteq> Normal \<Longrightarrow> R (cx, a) (cx, hit_if b l r a)"
  by (simp add: hit_if_def hits stays)

lemma opaque_hit_when: "listed r' Normal \<Longrightarrow> listed r l \<Longrightarrow> l \<noteq> Normal \<Longrightarrow> R (cx, a) (cx, hit_if b l r (opaque r' a))"
  by (rule chain [OF unjudged hit_when])

lemma sudo_then: "R (cx, hit Critical ''sudo'' a) t \<Longrightarrow> R (cx, a) t"
  by (rule chain [OF hits]) simp_all

lemmas adds = stays hits unjudged hit_opaque hit_opaque_same hit_when opaque_hit_when

lemma unwrap_R: "unwrap ws b a = (ws', b', a') \<Longrightarrow> R (cx, a) (cx, a')"
proof (induction ws b a rule: unwrap.induct)
  case (2 w ws b a)
  note ih = 2(1-7) [OF refl]
  from 2(8) show ?case
    by (auto simp: Let_def split: if_splits intro: sudo_then hits stays ih)
qed (auto intro: stays)

lemma check_path_R: "R (cx, a) (cx, check_path mc cx' path w l a)"
  by (simp add: check_path_def adds)

lemma check_args_R: "R (cx, a) (cx, check_args mc cx' w l args a)"
  unfolding check_args_def by (rule adds_fold) (simp add: adds check_path_R split: option.split)

lemma rm_target_R: "R (cx, a) (cx, rm_target mc cx' r f raw a)"
  by (simp add: rm_target_def Let_def adds split: option.split)

lemma classify_rm_R: "R (cx, a) (cx, classify_rm mc cx' ts b r f a)"
  by (simp add: classify_rm_def Let_def adds adds_fold rm_target_R)

lemma classify_git_R: "R (cx, a) (cx, classify_git cx' args a)"
  by (simp add: classify_git_def classify_push_def Let_def adds split: option.split prod.split)

lemma classify_upload_R: "R (cx, a) (cx, classify_upload mc cx' args a)"
  unfolding classify_upload_def Let_def by (rule adds_fold) (simp add: upload_target_def adds split: option.split)

lemma check_script_exec_R: "R (cx, a) (cx, check_script_exec mc cx' downs p a)"
  by (simp add: check_script_exec_def adds split: option.split)

lemma classify_command_R: "R s (classify_command mc word args b s)"
proof -
  obtain cx a where s: "s = (cx, a)" by (cases s)
  show ?thesis unfolding classify_command_def Let_def s prod.case
    by (simp add: adds classify_rm_R classify_git_R classify_upload_R check_args_R moves same_machine_def)
qed

lemma check_redirect_R: "R (cx, a) (cx, check_redirect mc r cx' a)"
  by (simp add: check_redirect_def adds check_path_R split: option.split)

lemma on_acc_R: "(\<And>cx a. R (cx, a) (cx, f cx a)) \<Longrightarrow> R s (on_acc f s)"
  by (cases s) (simp add: on_acc_def)

lemma redirects_R: "R s (foldl (\<lambda>s r. on_acc (check_redirect mc r) s) s rs)"
proof (induction rs arbitrary: s)
  case (Cons r rs)
  have "R s (on_acc (check_redirect mc r) s)" by (rule on_acc_R) (rule check_redirect_R)
  from chain [OF this Cons.IH] show ?case by simp
qed (simp add: stays)

lemma run_each_R: "(\<And>x s s'. x \<in> set xs \<Longrightarrow> f x s = Inr s' \<Longrightarrow> R s s') \<Longrightarrow> run_each f xs s = Inr s' \<Longrightarrow> R s s'"
proof (induction xs arbitrary: s)
  case (Cons x xs)
  from Cons.prems(2) obtain s1 where f: "f x s = Inr s1" "run_each f xs s1 = Inr s'" by (auto split: sum.splits)
  have "R s1 s'" by (rule Cons.IH [OF Cons.prems(1) f(2)]) simp_all
  from chain [OF Cons.prems(1) [OF _ f(1)] this] show ?case by simp
qed (auto intro: stays)

lemma merge_screen_R: "marks_listed sub \<Longrightarrow> R (cx, a) (cx, merge_screen sub a)"
  unfolding merge_screen_def by (rule adds_fold) (auto simp: adds marks_listed_def split: option.split)

lemma line_verdict_marks:
  assumes k: "keeps R script" and r: "line_verdict script d l copy = Inr (copy', sub)"
  shows "marks_listed sub"
proof -
  have m: "marks_listed a'" if "script d t (c, empty_acc) = Inr (c', a')" for t c c' a'
    using marks [OF keepsD [OF k that]] by simp
  obtain c1 a1 where "script d l (copy, empty_acc) = Inr (c1, a1)"
    using r by (auto simp: line_verdict_def split: sum.splits)
  with r m show ?thesis by (auto simp: line_verdict_def split: if_splits)
qed

lemma screen_lines_R: "keeps R script \<Longrightarrow> screen_lines script d ls copy a = Inr a' \<Longrightarrow> R (cx, a) (cx, a')"
proof (induction ls arbitrary: copy a)
  case (Cons l ls)
  then obtain copy' sub where l: "line_verdict script d l copy = Inr (copy', sub)"
    and r: "screen_lines script d ls copy' (merge_screen sub a) = Inr a'" by (auto split: sum.splits prod.splits)
  show ?case
    by (rule chain [OF merge_screen_R [OF line_verdict_marks [OF Cons.prems(1) l]] Cons.IH [OF Cons.prems(1) r]])
qed (simp add: stays)

lemma screen_data_R: "keeps R script \<Longrightarrow> screen_data script d b s = Inr s' \<Longrightarrow> R s s'"
  by (cases s) (auto simp: screen_data_def split: sum.splits dest: screen_lines_R)

lemma stdin_body_R:
  assumes k: "keeps R script" and r: "stdin_body script downs d b s = Inr s'"
  shows "R s s'"
proof (cases "sub_index b")
  case None
  then show ?thesis using r keepsD [OF k] by (simp add: stdin_body_def)
next
  case (Some i)
  let ?s1 = "on_acc (\<lambda>_ a. opaque ''dynamic-stdin-script''
    (if i \<in> set downs then hit Critical ''pipe-download-to-shell'' a else hit High ''dynamic-stdin-script'' a)) s"
  have "R s ?s1" by (rule on_acc_R) (auto intro!: hit_opaque_same hit_opaque [where l' = High] simp: less_eq_level_def)
  moreover have "R ?s1 s'" using r Some keepsD [OF k] by (simp add: stdin_body_def)
  ultimately show ?thesis by (rule chain)
qed

lemma classify_interpreter_R:
  assumes k: "keeps R script" and r: "classify_interpreter script mc downs d word args up inputs piped s = Inr s'"
  shows "R s s'"
proof (cases "interpreter_args word args")
  case (InlineCode code)
  let ?s1 = "on_acc (\<lambda>_. hit_if (in_downloads downs code) Critical ''pipe-download-to-shell'') s"
  have "R s ?s1" "R s (on_acc (\<lambda>_. opaque ''interpreter-inline-code'') s)" by (auto intro!: on_acc_R simp: adds)
  then show ?thesis using r InlineCode chain [OF _ keepsD [OF k]] unfolding classify_interpreter_def
    by (auto split: if_splits)
next
  case (ScriptFile f)
  then show ?thesis using r unfolding classify_interpreter_def by (auto intro!: on_acc_R simp: adds check_script_exec_R)
next
  case NamedModule
  then show ?thesis using r unfolding classify_interpreter_def by (auto simp: stays)
next
  case FromStdin
  have o: "listed r Normal \<Longrightarrow> R s (on_acc (\<lambda>_. opaque r) s)"
    "listed r l \<Longrightarrow> l \<noteq> Normal \<Longrightarrow> R s (on_acc (\<lambda>_. hit l r) s)"
    "listed r l \<Longrightarrow> l \<noteq> Normal \<Longrightarrow> R s (on_acc (\<lambda>_ a. opaque r (hit l r a)) s)" for l r
    by (auto intro!: on_acc_R simp: adds)
  have pipe: "run_each (script (d + 1)) piped s1 = Inr s' \<Longrightarrow> R s1 s'" for s1
    by (rule run_each_R) (rule keepsD [OF k])
  have bodies: "run_each (stdin_body script downs d) inputs s = Inr s' \<Longrightarrow> R s s'"
    by (rule run_each_R) (rule stdin_body_R [OF k])
  show ?thesis using r FromStdin o pipe chain [OF o(1) [OF listed_normal(6)] pipe] bodies unfolding classify_interpreter_def
    by (auto simp: stays then_run_def split: if_splits)
qed

lemma classify_word_R:
  assumes k: "keeps R script" and r: "classify_word script mc downs d b argv up inputs piped s = Inr (s', p)"
  shows "R s s'"
proof (cases argv)
  case Nil
  then show ?thesis using r by (simp add: classify_word_def stays)
next
  case (Cons raw args)
  define word where "word = base_word raw"
  have o: "R s (on_acc (\<lambda>_. opaque ''dynamic-command'') s)" by (rule on_acc_R) (simp add: adds)
  have e: "R s (on_acc (\<lambda>_ a. hit_if c Critical ''pipe-download-to-shell'' (opaque ''eval'' a)) s)" for c
    by (rule on_acc_R) (rule opaque_hit_when; simp)
  have x: "R s (on_acc (\<lambda>cx. check_script_exec mc cx downs f) s)" for f by (rule on_acc_R) (rule check_script_exec_R)
  have ev: "R s s1" if "script n line (on_acc (\<lambda>_ a. hit_if c Critical ''pipe-download-to-shell'' (opaque ''eval'' a)) s) = Inr s1" for c n line s1
    by (rule chain [OF e keepsD [OF k that]])
  let ?run = "if word \<in> set INTERPRETERS then classify_interpreter script mc downs d word args up inputs piped s
     else Inr (classify_command mc word args b (on_acc (\<lambda>cx a. if SLASH \<in> set raw then check_script_exec mc cx downs raw a else a) s))"
  have "R s (classify_command mc word args b (on_acc (\<lambda>cx a. if SLASH \<in> set raw then check_script_exec mc cx downs raw a else a) s))"
    by (rule chain [OF on_acc_R classify_command_R]) (simp add: stays check_script_exec_R)
  then have run: "R s s1" if "?run = Inr s1" for s1
    using that classify_interpreter_R [OF k, of mc downs d word args up inputs piped s s1] by (auto split: if_splits)
  show ?thesis
  proof (cases "raw \<in> set SKIP_SEGMENT_KEYWORDS \<or> py_in PLACEHOLDER raw \<or> CHR ''$'' \<in> set raw \<or> word = ''eval'' \<or> word \<in> {''source'', ''.''} \<and> args \<noteq> []")
    case True
    then show ?thesis using r Cons unfolding classify_word_def Let_def list.case word_def
      by (auto simp: stays o x split: if_splits sum.splits intro: ev classify_interpreter_R [OF k])
  next
    case False
    then obtain s1 where s1: "?run = Inr s1"
      and s': "s' = (if word \<in> set DOWNLOADERS then track_downloads mc word args (fst s1) else fst s1, snd s1)"
      using r Cons unfolding classify_word_def Let_def list.case word_def by (auto split: sum.splits)
    have "R s1 s'" unfolding s' using moves [of "fst s1" "if word \<in> set DOWNLOADERS then track_downloads mc word args (fst s1) else fst s1" "snd s1"]
      by (simp add: track_downloads_same)
    with run [OF s1] show ?thesis by (rule chain)
  qed
qed

lemma classify_stage_after:
  assumes k: "keeps R script" and u: "unwrap (cm_argv c) False (snd s) = (argv, b, a1)"
    and r: "classify_stage script mc downs d i l c up piped s = Inr (s', up', piped')"
  shows "R (fst s, a1) s'"
proof -
  let ?bodies = "run_each (body_subs script d) (heredoc_bodies (fst s) c) (fst s, a1)"
  let ?data = "cmd_inputs (fst s) c \<noteq> [] \<and> \<not> shell_reads_stdin argv"
  let ?screen = "\<lambda>s2. if ?data \<and> screens_inputs mc l c argv (fst s2) then run_each (screen_data script d) (cmd_inputs (fst s) c) s2 else Inr s2"
  obtain s3 where s3: "then_run ?bodies ?screen = Inr s3"
    and w: "\<exists>p piped1. classify_word script mc downs d (b \<or> \<not> i) argv up (cmd_inputs (fst s) c) piped1
              (foldl (\<lambda>s r. on_acc (check_redirect mc r) s) s3 (cm_redirects c)) = Inr (s', p)"
    using r unfolding classify_stage_def u prod.case Let_def
    by (auto split: sum.splits)
  from s3 obtain s2 where s2: "?bodies = Inr s2" "?screen s2 = Inr s3" by (rule Inr_cases)
  have "R (fst s, a1) s2" using s2(1)
    by (rule run_each_R [rotated]) (auto simp: body_subs_def split: if_splits intro: stays run_each_R [rotated] keepsD [OF k])
  moreover have "R s2 s3" using s2(2) by (auto split: if_splits intro: stays run_each_R [rotated] screen_data_R [OF k])
  ultimately have "R (fst s, a1) s3" by (rule chain)
  moreover from w have "R s3 s'" using chain [OF redirects_R classify_word_R [OF k]] by blast
  ultimately show ?thesis by (rule chain)
qed

lemma classify_stage_R:
  assumes k: "keeps R script" and r: "classify_stage script mc downs d i l c up piped s = Inr (s', up', piped')"
  shows "R s s'"
proof -
  obtain argv b a1 where u: "unwrap (cm_argv c) False (snd s) = (argv, b, a1)" by (metis prod_cases3)
  have "R s (fst s, a1)" using unwrap_R [OF u, of "fst s"] by simp
  then show ?thesis using classify_stage_after [OF k u r] by (rule chain)
qed

lemma classify_stages_R: "keeps R script \<Longrightarrow> classify_stages script mc downs d i cs up piped s = Inr s' \<Longrightarrow> R s s'"
  by (induction cs arbitrary: i up piped s) (auto intro: stays chain dest: classify_stage_R split: sum.splits)

lemma pipelines_R: "keeps R script \<Longrightarrow> run_each (classify_pipeline script mc downs d) pls s = Inr s' \<Longrightarrow> R s s'"
  by (rule run_each_R) (auto simp: classify_pipeline_def intro: classify_stages_R)

lemma deep_script_R: "keeps R script \<Longrightarrow> deep_script script mc d text s = Inr s' \<Longrightarrow> R s s'"
  by (rule chain [where t = "on_acc (\<lambda>_. opaque ''nesting-too-deep'') s"])
    (auto simp: deep_script_def Let_def adds split: option.splits intro!: on_acc_R intro: stays pipelines_R)

lemma flat_script_R:
  assumes k: "keeps R script" and r: "flat_script script mc d text s = Inr s'"
  shows "R s s'"
proof -
  obtain out s1 where cut: "cut_heredocs text s = Inr (out, s1)"
    using r by (auto simp: flat_script_def split: sum.splits)
  have 1: "R s s1" using cut_heredocs_same [OF cut] moves [of "fst s" "fst s1" "snd s"] by (metis prod.collapse)
  let ?s2 = "on_acc (\<lambda>cx a. if cx_unparsed cx then opaque ''heredoc-unparsed'' a else a) s1"
  have 2: "R s1 ?s2" by (rule on_acc_R) (simp add: adds)
  have "R ?s2 s'"
  proof (cases "split_script (fst (extract_substitutions out))")
    case None
    then show ?thesis using r by (auto simp: flat_script_def cut Let_def adds intro: on_acc_R)
  next
    case (Some pls)
    then have "then_run (run_each (script (d + 1)) (concat (map sub_scripts (snd (extract_substitutions out)))) ?s2)
       (run_each (classify_pipeline script mc (download_subs (snd (extract_substitutions out))) d) pls) = Inr s'"
      using r by (simp add: flat_script_def cut Let_def)
    then obtain s3 where s3: "run_each (script (d + 1)) (concat (map sub_scripts (snd (extract_substitutions out)))) ?s2 = Inr s3"
      "run_each (classify_pipeline script mc (download_subs (snd (extract_substitutions out))) d) pls s3 = Inr s'" by (rule Inr_cases)
    have "R ?s2 s3" using s3(1) by (rule run_each_R [rotated]) (rule keepsD [OF k])
    then show ?thesis using pipelines_R [OF k s3(2)] by (rule chain)
  qed
  with 1 2 show ?thesis using chain by blast
qed

theorem script_R: "keeps R (classify_script fuel mc)"
proof (induction fuel)
  case (Suc fuel)
  then show ?case unfolding keeps_def [of R "classify_script (Suc fuel) mc"] using deep_script_R flat_script_R by (auto split: if_splits)
qed (simp add: keeps_def)

end


section \<open>Nothing is taken back\<close>

definition rises :: "guard_run \<Rightarrow> guard_run \<Rightarrow> bool" where
  "rises s s' =
     (same_machine (fst s) (fst s') \<and> ac_level (snd s) \<le> ac_level (snd s') \<and> prefix (ac_rules (snd s)) (ac_rules (snd s')) \<and>
      (ac_parseable (snd s') \<longrightarrow> ac_parseable (snd s)) \<and> (marks_listed (snd s) \<longrightarrow> marks_listed (snd s')))"

interpretation rising: run_relation rises
proof unfold_locales
  fix s t u
  assume "rises s t" "rises t u"
  then show "rises s u" unfolding rises_def by (auto intro: same_machine_trans prefix_order.trans order_trans)
qed (auto simp: rises_def marks_listed_hit marks_listed_opaque)

section \<open>Every grade is explained by its rules\<close>

definition table_level :: "string \<Rightarrow> level" where
  "table_level r = (case dget BUILTIN_RULES r of Some l \<Rightarrow> l | None \<Rightarrow> Normal)"

definition worst :: "(string \<Rightarrow> level) \<Rightarrow> string list \<Rightarrow> level" where
  "worst f rs = foldl (\<lambda>l r. max l (f r)) Normal rs"

lemma worst_Nil [simp]: "worst f [] = Normal"
  by (simp add: worst_def)

lemma worst_snoc [simp]: "worst f (rs @ [r]) = max (worst f rs) (f r)"
  by (simp add: worst_def)

lemma worst_cong: "(\<And>r. r \<in> set rs \<Longrightarrow> f r = g r) \<Longrightarrow> worst f rs = worst g rs"
  by (induction rs rule: rev_induct) simp_all

lemma worst_ge: "r \<in> set rs \<Longrightarrow> f r \<le> worst f rs"
  by (induction rs rule: rev_induct) (auto simp: le_max_iff_disj)

lemma max_normal [simp]: "max Normal l = l" "max l Normal = l"
  by (simp_all add: max_absorb1 max_absorb2)

definition explained :: "acc \<Rightarrow> bool" where
  "explained a =
     (distinct (ac_rules a) \<and> (\<forall>r \<in> set (ac_rules a). has_key r BUILTIN_RULES) \<and> ac_level a = worst table_level (ac_rules a) \<and>
      (ac_parseable a \<or> ac_rules a \<noteq> []))"

lemma explained_empty [simp]: "explained empty_acc"
  by (simp add: explained_def empty_acc_def)

lemma listed_level: "listed r l \<Longrightarrow> table_level r = l \<and> has_key r BUILTIN_RULES"
  unfolding listed_def table_level_def by (simp add: dget_has_key)

lemma explained_hit: "listed r l \<Longrightarrow> explained a \<Longrightarrow> explained (hit l r a)"
  using worst_ge [of r "ac_rules a" table_level] by (auto simp: explained_def dest: listed_level intro!: max_absorb1)

lemma explained_opaque: "listed r l \<Longrightarrow> l \<le> ac_level a \<Longrightarrow> explained a \<Longrightarrow> explained (opaque r a)"
  by (auto simp: explained_def max_absorb1 dest: listed_level)

definition grounded :: "guard_run \<Rightarrow> guard_run \<Rightarrow> bool" where
  "grounded s s' = ((explained (snd s) \<longrightarrow> explained (snd s')) \<and> (marks_listed (snd s) \<longrightarrow> marks_listed (snd s')))"

interpretation grounding: run_relation grounded
  by unfold_locales (auto simp: grounded_def marks_listed_hit marks_listed_opaque explained_hit explained_opaque)

lemma explained_script: "classify_script fuel mc d t (cx, empty_acc) = Inr (cx', a) \<Longrightarrow> explained a"
  using keepsD [OF grounding.script_R [of fuel mc], of d t "(cx, empty_acc)" "(cx', a)"] by (simp add: grounded_def)

lemma adopt_rules_simps [simp]:
  "ac_level (adopt_rules rs a) = ac_level a" "ac_parseable (adopt_rules rs a) = ac_parseable a"
  by (induction rs arbitrary: a) auto

lemma adopt_rules_explained:
  assumes "\<forall>r \<in> set rs. has_key r BUILTIN_RULES" "distinct (ac_rules a)" "\<forall>r \<in> set (ac_rules a). has_key r BUILTIN_RULES"
  shows "distinct (ac_rules (adopt_rules rs a)) \<and> (\<forall>r \<in> set (ac_rules (adopt_rules rs a)). has_key r BUILTIN_RULES) \<and>
    set (ac_rules (adopt_rules rs a)) = set (ac_rules a) \<union> (set rs - {''unbalanced-quotes''}) \<and>
    worst table_level (ac_rules (adopt_rules rs a)) = max (worst table_level (ac_rules a)) (worst table_level rs)"
  using assms
proof (induction rs arbitrary: a)
  case (Cons r rs)
  have w: "worst table_level (r # rs) = max (table_level r) (worst table_level rs)"
    by (induction rs rule: rev_induct) (simp_all add: worst_def max.assoc)
  have u: "table_level ''unbalanced-quotes'' = Normal" using listed_level [OF listed_normal(3)] by simp
  let ?a = "if r \<noteq> ''unbalanced-quotes'' then add_rule r a else a"
  have k: "has_key r BUILTIN_RULES" using Cons.prems by simp
  have a: "distinct (ac_rules ?a)" "\<forall>r \<in> set (ac_rules ?a). has_key r BUILTIN_RULES"
    "set (ac_rules ?a) = set (ac_rules a) \<union> ({r} - {''unbalanced-quotes''})"
    "worst table_level (ac_rules ?a) = max (worst table_level (ac_rules a)) (table_level r)"
    using Cons.prems k u worst_ge [of r "ac_rules a" table_level] by (auto simp: add_rule_def max_absorb1)
  show ?case using Cons.IH [of ?a] Cons.prems a w by (auto simp: max.assoc)
qed simp

lemma adopt_line_explained: "explained sub \<Longrightarrow> explained a \<Longrightarrow> explained (adopt_line sub a)"
  using adopt_rules_explained [of "ac_rules sub" a]
  by (auto simp: explained_def adopt_line_def Let_def max_def list_ex_iff not_le split: if_splits) 

end
