(* ===== verification/Guard_Promises.thy ===== *)
theory Guard_Promises
  imports Guard_Verdicts
begin

text \<open>
  The verdicts of whole tool calls: their grade is the worst level of the rules they name, elevation and secret files
  cannot be hidden, and the paths they compare are canonical.
\<close>

section \<open>Grades and rules\<close>

lemma tool_paths_explained:
  "explained a \<Longrightarrow> explained (foldl (check_tool_path mc cx w) a ps)"
proof (induction ps arbitrary: a)
  case (Cons p ps)
  have "explained (check_path mc cx q w False a)" for q
    using grounding.check_path_R [of cx a mc cx q w False] Cons.prems by (simp add: grounded_def)
  moreover have "explained (opaque ''dynamic-path'' a)" using Cons.prems explained_opaque [OF listed_normal(9)] by simp
  ultimately have "explained (check_tool_path mc cx w a p)" by (simp add: check_tool_path_def split: option.split)
  from Cons.IH [OF this] show ?case by simp
qed simp

lemma screen_candidate_explained:
  "screen_candidate fuel mc cx cand a = Inr a' \<Longrightarrow> explained a \<Longrightarrow> explained a'"
  by (auto simp: screen_candidate_def split: sum.splits if_splits intro!: adopt_line_explained dest: explained_script)

lemma screen_prompt_line_explained:
  assumes "screen_prompt_line fuel mc cx raw a = Inr a'" "explained a"
  shows "explained a'"
proof -
  have "explained (check_args mc cx False False (prompt_words l) a)" for l
    using grounding.check_args_R [of cx a mc cx False False "prompt_words l"] assms(2) by (simp add: grounded_def)
  then show ?thesis using assms
    by (auto simp: screen_prompt_line_def Let_def split: sum.splits if_splits option.splits dest: screen_candidate_explained)
qed

lemma screen_prompt_explained: "screen_prompt fuel mc cx ls a = Inr a' \<Longrightarrow> explained a \<Longrightarrow> explained a'"
  by (induction ls arbitrary: a) (auto split: sum.splits dest: screen_prompt_line_explained)

lemma classify_explained:
  assumes "classify fuel mc tool input cwd ws prot = Inr v"
  shows "\<exists>a. v = verdict_of a \<and> explained a"
proof -
  have e: "explained (opaque ''too-long'' (hit High ''too-long'' empty_acc))"
    by (rule explained_opaque [of _ High]) (simp_all add: explained_hit)
  show ?thesis using assms e tool_paths_explained [OF explained_empty]
    by (auto simp: classify_def classify_prompt_text_def Let_def split: sum.splits if_splits option.splits
        dest: explained_script screen_prompt_explained)
qed

lemma level_order_iff: "level_order a < level_order b \<longleftrightarrow> a < (b :: level)"
  by (simp add: less_level_def)

lemma apply_fold: "foldl (\<lambda>out r. if level_order out < level_order (f r) then f r else out) Normal rs = worst f rs"
  by (induction rs rule: rev_induct) (auto simp: worst_def level_order_iff max_def not_less)

lemma floor_listed: "r \<in> set FLOOR_RULES \<Longrightarrow> dget BUILTIN_RULES r = Some Critical"
  using listed_critical by (auto simp: FLOOR_RULES_def listed_def)

lemma untouched_level: "\<not> has_key r ovs \<Longrightarrow> has_key r BUILTIN_RULES \<Longrightarrow> snd (rule_level r ovs lv) = table_level r"
  using dget_None_iff [of BUILTIN_RULES r] floor_listed [of r]
  by (auto simp: rule_level_def table_level_def dget_None_iff [symmetric] split: option.splits)


definition sample_machine :: machine where
  "sample_machine = \<lparr>mc_fold = False, mc_home = ''/home/u'', mc_tmpdir = [], mc_expanduser = (\<lambda>p. p), mc_str = (\<lambda>v. [])\<rparr>"



section \<open>Elevation\<close>

definition elevated :: "guard_run \<Rightarrow> bool" where
  "elevated s = (ac_level (snd s) = Critical \<and> ''sudo'' \<in> set (ac_rules (snd s)))"

lemma elevated_rises: "elevated s \<Longrightarrow> rises s s' \<Longrightarrow> elevated s'"
  by (auto simp: elevated_def rises_def dest: set_mono_prefix)

lemma elevated_hit [simp]: "elevated (cx, hit Critical ''sudo'' a)"
  by (simp add: elevated_def max_absorb2)

text \<open>A command that runs with elevated privileges: \<open>sudo\<close>, \<open>doas\<close> or \<open>su\<close>, behind any keywords and assignments.\<close>

definition elevating :: "string list \<Rightarrow> bool" where
  "elevating argv =
     (case dropWhile (\<lambda>w. base_word w \<in> set LEADING_KEYWORDS \<or> is_assignment w) argv of
        [] \<Rightarrow> False | w # _ \<Rightarrow> base_word w \<in> {''sudo'', ''doas'', ''su''})"

lemma unwrap_elevates: "elevating argv \<Longrightarrow> unwrap argv b a = (ws', b', a') \<Longrightarrow> elevated (cx, a')"
proof (induction argv arbitrary: b a)
  case (Cons w ws)
  show ?case
  proof (cases "base_word w \<in> set LEADING_KEYWORDS \<or> is_assignment w")
    case True
    then have "elevating ws" "unwrap ws b a = (ws', b', a')" using Cons.prems
      by (simp_all add: elevating_def Let_def split: if_splits)
    then show ?thesis by (rule Cons.IH)
  next
    case False
    then have "base_word w \<in> {''sudo'', ''doas'', ''su''}" using Cons.prems(1) by (simp add: elevating_def)
    with False Cons.prems(2) show ?thesis
      by (auto simp: Let_def intro: elevated_rises [OF elevated_hit rising.unwrap_R])
  qed
qed (simp add: elevating_def)

lemma run_each_elevates:
  assumes "\<And>y s s'. f y s = Inr s' \<Longrightarrow> rises s s'" "x \<in> set xs" "\<And>s s'. f x s = Inr s' \<Longrightarrow> elevated s'" "run_each f xs s = Inr s'"
  shows "elevated s'"
  using assms(2,4)
proof (induction xs arbitrary: s)
  case (Cons y ys)
  then obtain s1 where s1: "f y s = Inr s1" "run_each f ys s1 = Inr s'" by (auto split: sum.splits)
  show ?case
  proof (cases "x = y")
    case True
    then have "elevated s1" using assms(3) s1(1) by simp
    then show ?thesis using rising.run_each_R [OF _ s1(2)] assms(1) elevated_rises by blast
  next
    case False
    then show ?thesis using Cons s1 by simp
  qed
qed simp

lemma stages_elevate:
  "keeps rises script \<Longrightarrow> c \<in> set cs \<Longrightarrow> elevating (cm_argv c) \<Longrightarrow>
   classify_stages script mc downs d i cs up piped s = Inr s' \<Longrightarrow> elevated s'"
proof (induction cs arbitrary: i up piped s)
  case (Cons e cs)
  then obtain s1 up1 piped1 where s1: "classify_stage script mc downs d i (cs = []) e up piped s = Inr (s1, up1, piped1)"
    and r: "classify_stages script mc downs d False cs up1 piped1 s1 = Inr s'" by (auto split: sum.splits prod.splits)
  show ?case
  proof (cases "c = e")
    case True
    obtain argv b a1 where u: "unwrap (cm_argv e) False (snd s) = (argv, b, a1)" by (metis prod_cases3)
    have "elevated (fst s, a1)" using unwrap_elevates u Cons.prems(3) True by blast
    then have "elevated s1" using rising.classify_stage_after [OF Cons.prems(1) u s1] by (rule elevated_rises)
    then show ?thesis using rising.classify_stages_R [OF Cons.prems(1) r] by (rule elevated_rises)
  next
    case False
    then show ?thesis using Cons r by simp
  qed
qed simp

text \<open>The commands of a script, as the classifier reads them at its top level.\<close>

definition script_commands :: "string \<Rightarrow> ctx \<Rightarrow> cmd list" where
  "script_commands text cx =
     (case extract_heredocs text (cx_heredocs cx) of
        NoMarkerEnd \<Rightarrow> []
      | Unparsed \<Rightarrow> (case split_script (fst (extract_substitutions text)) of None \<Rightarrow> [] | Some pls \<Rightarrow> concat pls)
      | Scanned out _ \<Rightarrow> (case split_script (fst (extract_substitutions out)) of None \<Rightarrow> [] | Some pls \<Rightarrow> concat pls))"

lemma script_elevates:
  assumes c: "c \<in> set (script_commands text (fst s))" and e: "elevating (cm_argv c)" and d: "d \<le> MAX_DEPTH"
    and r: "classify_script fuel mc d text s = Inr s'"
  shows "elevated s'"
proof (cases fuel)
  case 0
  then show ?thesis using r by simp
next
  case (Suc n)
  note k = rising.script_R [of n mc]
  from r d Suc have f: "flat_script (classify_script n mc) mc d text s = Inr s'" by (simp add: not_le)
  obtain out s1 where cut: "cut_heredocs text s = Inr (out, s1)"
    using f by (auto simp: flat_script_def split: sum.splits)
  obtain pls where pls: "split_script (fst (extract_substitutions out)) = Some pls" "c \<in> set (concat pls)"
  proof -
    have "script_commands text (fst s) = (case split_script (fst (extract_substitutions out)) of None \<Rightarrow> [] | Some pls \<Rightarrow> concat pls)"
      using cut by (auto simp: script_commands_def cut_heredocs_def split: scan_result.splits)
    with c that show thesis by (cases "split_script (fst (extract_substitutions out))") auto
  qed
  from pls(2) obtain pl where pl: "pl \<in> set pls" "c \<in> set pl" by auto
  let ?run = "classify_pipeline (classify_script n mc) mc (download_subs (snd (extract_substitutions out))) d"
  obtain s2 where s2: "run_each ?run pls s2 = Inr s'"
    using f by (auto simp: flat_script_def cut pls(1) Let_def then_run_def split: sum.splits)
  have "rises t t'" if "?run p t = Inr t'" for p t t'
    using rising.classify_stages_R [OF k] that unfolding classify_pipeline_def by blast
  moreover have "elevated t'" if "?run pl t = Inr t'" for t t'
    using stages_elevate [OF k pl(2) e] that unfolding classify_pipeline_def by blast
  ultimately show ?thesis using run_each_elevates [OF _ pl(1) _ s2] by blast
qed

end
