(* ===== verification/Guard_Fuel.thy ===== *)
theory Guard_Fuel
  imports Guard_Promises
begin

text \<open>
  When the classification of a script ends. The code recurses into substitutions, inline scripts, \<open>eval\<close> and inputs; beyond depth
  six it goes on with the flattened text. Each such step below depth six drops a word with a small letter, so a text without
  \<open><\<close> (no heredoc, no here-string) needs no more levels than seven and its small letters. The levels are Python frames: the
  bound is met, and more than the interpreter's recursion limit are reached by a short text.
\<close>

section \<open>Small letters\<close>

definition small_letter :: "char \<Rightarrow> bool" where
  "small_letter c = (let n = of_char c :: nat in 97 \<le> n \<and> n \<le> 122)"

definition low :: "string \<Rightarrow> nat" where
  "low s = length (filter small_letter s)"

definition low_words :: "string list \<Rightarrow> nat" where
  "low_words ws = sum_list (map low ws)"

lemma low_simps [simp]: "low [] = 0" "low (a @ b) = low a + low b"
  by (simp_all add: low_def)

lemma low_Cons: "low (c # s) = (if small_letter c then Suc (low s) else low s)"
  by (simp add: low_def)

lemma low_Cons_le: "low s \<le> low (c # s)" "low (c # s) \<le> Suc (low s)"
  by (simp_all add: low_Cons)

lemma low_words_simps [simp]: "low_words [] = 0" "low_words (w # ws) = low w + low_words ws" "low_words (vs @ ws) = low_words vs + low_words ws"
  by (simp_all add: low_words_def)

lemma low_suffix: "suffix a b \<Longrightarrow> low a \<le> low b"
  by (auto simp: suffix_def)

lemma low_words_suffix: "suffix a b \<Longrightarrow> low_words a \<le> low_words b"
  by (auto simp: suffix_def)

lemma low_words_mem: "w \<in> set ws \<Longrightarrow> low w \<le> low_words ws"
  by (induction ws) auto

lemma not_small [simp]:
  "\<not> small_letter NUL" "\<not> small_letter BACKSLASH" "\<not> small_letter NEWLINE" "\<not> small_letter SQUOTE" "\<not> small_letter DQUOTE"
  "\<not> small_letter BACKTICK" "\<not> small_letter CHR ''$''" "\<not> small_letter CHR ''<''" "\<not> small_letter CHR '';''" "\<not> small_letter CHR '' ''"
  "\<not> small_letter CHR ''#''"
  by (simp_all add: small_letter_def Let_def NUL_def BACKSLASH_def NEWLINE_def SQUOTE_def DQUOTE_def BACKTICK_def)

definition plain :: "string \<Rightarrow> bool" where
  "plain s = (CHR ''<'' \<notin> set s)"

lemma backslash_plain: "BACKSLASH \<noteq> CHR ''<''"
  by (simp add: BACKSLASH_def)

lemma plain_simps [simp]: "plain []" "plain (c # s) \<longleftrightarrow> c \<noteq> CHR ''<'' \<and> plain s" "plain (a @ b) \<longleftrightarrow> plain a \<and> plain b"
  by (auto simp: plain_def)

lemma int_digits_digits: "0 \<le> i \<Longrightarrow> c \<in> set (int_digits i) \<Longrightarrow> is_digit c"
proof (induction i rule: int_digits.induct)
  case (1 i)
  have "\<forall>j \<in> {0..9 :: int}. is_digit (char_of (j + 48))" by code_simp
  then have d: "is_digit (char_of (j + 48))" if "0 \<le> j" "j < 10" for j :: int using that by simp
  show ?case
  proof (cases "i < 10")
    case True
    then show ?thesis using 1(2,3) d by (subst (asm) int_digits.simps) simp
  next
    case False
    then have "c \<in> set (int_digits (i div 10)) \<or> c = char_of (i mod 10 + 48)"
      using 1(3) by (subst (asm) int_digits.simps) auto
    then show ?thesis using 1(1) [OF False] 1(2) d [of "i mod 10"] by auto
  qed
qed

lemma digit_plain: "is_digit c \<Longrightarrow> \<not> small_letter c \<and> c \<noteq> CHR ''<''"
  by (auto simp: is_digit_def small_letter_def Let_def)

lemma nat_str_plain [simp]: "plain (nat_str n)" "low (nat_str n) = 0"
  using int_digits_digits [of "int n"] digit_plain by (auto simp: nat_str_def plain_def low_def filter_empty_conv)

lemma marker_plain [simp]: "plain (quoted_marker PLACEHOLDER n)" "low (quoted_marker PLACEHOLDER n) = 0"
  by (simp_all add: quoted_marker_def PLACEHOLDER_def low_Cons NUL_def small_letter_def)


section \<open>Heredocs and substitutions\<close>

lemma paren_span_take: "paren_span d s @ drop (length (paren_span d s)) s = s"
  by (induction s arbitrary: d) (auto simp: Let_def)

lemma plain_prefix [simp]: "plain (c # cs) \<Longrightarrow> \<not> prefix (CHR ''<'' # xs) (c # cs)"
  by auto

lemma newline_parts: "before_newline s @ from_newline s = s"
  by (simp add: before_newline_def from_newline_def)

lemma plain_parts: "plain s \<Longrightarrow> plain (from_newline s)" "plain s \<Longrightarrow> plain (drop n s)" "plain s \<Longrightarrow> plain (tl s)"
  unfolding plain_def from_newline_def by (metis set_dropWhileD) (metis in_set_dropD, metis list.set_sel(2) list.sel(2))

lemma heredoc_scan_plain: "plain t \<Longrightarrow> heredoc_scan prev sq dq [] hds t = Scanned t hds"
proof (induction t arbitrary: prev sq dq rule: length_induct)
  case (1 t)
  show ?case
  proof (cases t)
    case (Cons c cs)
    have ih: "heredoc_scan p q q' [] hds r = Scanned r hds" if "length r < Suc (length cs)" "plain r" for p q q' r
      using 1 that Cons by simp
    have p: "c \<noteq> CHR ''<''" "plain cs" using 1(2) Cons by simp_all
    let ?sp = "paren_span 0 (c # cs)"
    have sp: "heredoc_scan p q q' [] hds (drop (length ?sp) (c # cs)) = Scanned (drop (length ?sp) (c # cs)) hds" for p q q'
    proof (rule ih)
      have "0 < length ?sp" using paren_span_nonempty [of "c # cs" 0] by (simp del: paren_span.simps)
      then show "length (drop (length ?sp) (c # cs)) < Suc (length cs)" unfolding length_drop length_Cons by linarith
      show "plain (drop (length ?sp) (c # cs))" by (rule plain_parts(2)) (simp add: p)
    qed
    have nl: "heredoc_scan p q q' [] hds (from_newline (CHR ''#'' # cs)) = Scanned (from_newline (CHR ''#'' # cs)) hds" for p q q'
      by (rule ih) (use p comment_shrinks(1) [of cs] plain_parts(1) [of "CHR ''#'' # cs"] in \<open>auto simp: less_Suc_eq_le\<close>)
    have tlc: "heredoc_scan p q q' [] hds (tl cs) = Scanned (tl cs) hds" for p q q'
      by (rule ih) (use p plain_parts(3) in \<open>auto simp: less_Suc_eq_le\<close>)
    have cs: "heredoc_scan p q q' [] hds cs = Scanned cs hds" for p q q' by (rule ih) (simp_all add: p)
    show ?thesis using p paren_span_take [of 0 "c # cs"]
      unfolding Cons heredoc_scan.simps(2) Let_def
      by (simp add: sp tlc cs nl newline_parts del: paren_span.simps)
  qed simp
qed

lemma extract_heredocs_plain: "plain t \<Longrightarrow> extract_heredocs t hds = Scanned t hds"
  by (simp add: extract_heredocs_def heredoc_scan_plain)

definition tame :: "string \<Rightarrow> string \<times> (sub_kind \<times> string) list \<Rightarrow> bool" where
  "tame t r =
     (low (fst r) \<le> low t \<and> (\<forall>x \<in> set (snd r). low (snd x) \<le> low t) \<and>
      (plain t \<longrightarrow> plain (fst r) \<and> (\<forall>x \<in> set (snd r). plain (snd x))))"

lemma tame_add: "tame t' r \<Longrightarrow> low s + low t' \<le> low t \<Longrightarrow> (plain t \<Longrightarrow> plain s \<and> plain t') \<Longrightarrow> tame t (sub_add s r)"
  by (cases r) (fastforce simp: tame_def)

lemma tame_found:
  "tame t' r \<Longrightarrow> low i \<le> low t \<Longrightarrow> low t' \<le> low t \<Longrightarrow> (plain t \<Longrightarrow> plain i \<and> plain t') \<Longrightarrow> tame t (sub_found k i n r)"
  by (cases r) (fastforce simp: tame_def)

lemma tame_skip: "tame t' r \<Longrightarrow> low t' \<le> low t \<Longrightarrow> (plain t \<Longrightarrow> plain t') \<Longrightarrow> tame t r"
  by (fastforce simp: tame_def)

lemma if_tame: "(P \<Longrightarrow> tame t a) \<Longrightarrow> (\<not> P \<Longrightarrow> tame t b) \<Longrightarrow> tame t (if P then a else b)"
  by simp

lemma close_paren_parts: "close_paren d s = (a, b) \<Longrightarrow> low a \<le> low s \<and> low b \<le> low s \<and> (plain s \<longrightarrow> plain a \<and> plain b)"
proof (induction s arbitrary: d a b)
  case (Cons c cs)
  show ?case
  proof (cases "c = CHR '')'' \<and> d \<le> 1")
    case True
    then show ?thesis using Cons.prems by (auto simp: low_Cons)
  next
    case False
    obtain a' b' where r: "close_paren (if c = CHR ''('' then d + 1 else if c = CHR '')'' then d - 1 else d) cs = (a', b')"
      by (metis surj_pair)
    then have "a = c # a'" "b = b'" using Cons.prems False by (auto simp del: close_paren.simps simp: close_paren.simps(2))
    with Cons.IH [OF r] show ?thesis by (auto simp: low_Cons)
  qed
qed simp

lemma low_mono: "suffix a b \<Longrightarrow> low a \<le> low b" "suffix a b \<Longrightarrow> plain b \<Longrightarrow> plain a"
  by (auto simp: suffix_def)

lemma low_take: "low (takeWhile P s) \<le> low s" "plain s \<Longrightarrow> plain (takeWhile P s)"
  by (induction s) (auto simp: low_Cons)

lemma suffix_drop_while: "suffix (drop n (dropWhile P s)) s"
  by (meson suffix_drop suffix_dropWhile suffix_order.trans)

lemma subst_scan_tame: "tame t (subst_scan prev n sq dq t)"
proof (induction t arbitrary: prev n sq dq rule: length_induct)
  case (1 t)
  show ?case
  proof (cases t)
    case Nil
    then show ?thesis by (simp add: tame_def)
  next
    case (Cons c cs)
    have ih: "tame r (subst_scan p m q q' r)" if "length r < Suc (length cs)" for p m q q' r
      using 1 that Cons by simp
    have cs: "tame cs (subst_scan p m q q' cs)" for p m q q' by (rule ih) simp
    have tlc: "tame (tl cs) (subst_scan p m q q' (tl cs))" for p m q q' by (rule ih) (simp add: less_Suc_eq_le)
    have nl: "tame (from_newline (c # cs)) (subst_scan p m q q' (from_newline (c # cs)))" if "c = CHR ''#''" for p m q q'
      by (rule ih) (use that comment_shrinks(1) [of cs] in \<open>auto simp: less_Suc_eq_le\<close>)
    have cp: "tame (snd (close_paren 1 (tl cs))) (subst_scan p m q q' (snd (close_paren 1 (tl cs))))" for p m q q'
      by (rule ih) (use close_paren_le [of 1 "tl cs"] in \<open>simp add: less_Suc_eq_le\<close>)
    have bt: "tame (snd (next_backtick cs)) (subst_scan p m q q' (snd (next_backtick cs)))" for p m q q'
      by (rule ih) (use next_backtick_le [of cs] in \<open>simp add: less_Suc_eq_le\<close>)
    have one: "tame (c # cs) (sub_add [c] (subst_scan p m q q' cs))" for p m q q'
      by (rule tame_add [OF cs]) (simp_all add: low_Cons)
    have two: "tame (c # cs) (sub_add [c, hd cs] (subst_scan p m q q' (tl cs)))" if "cs \<noteq> []" for p m q q'
      by (rule tame_add [OF tlc]) (use that in \<open>cases cs; simp add: low_Cons\<close>)+
    have skip2: "tame (c # cs) (subst_scan p m q q' (tl cs))" for p m q q'
      by (rule tame_skip [OF tlc]) (use low_mono [of "tl cs" "c # cs"] in \<open>auto simp: suffix_Cons\<close>)
    have comment: "tame (c # cs) (subst_scan p m q q' (from_newline (c # cs)))" if "c = CHR ''#''" for p m q q'
      by (rule tame_skip [OF nl [OF that]]) (unfold from_newline_def, rule low_mono(1) [OF suffix_dropWhile], rule low_mono(2) [OF suffix_dropWhile])
    have paren: "tame (c # cs) (sub_found k (fst (close_paren 1 (tl cs))) m (subst_scan p m' q q' (snd (close_paren 1 (tl cs)))))" for k p m m' q q'
    proof (rule tame_found [OF cp])
      obtain a b where ab: "close_paren 1 (tl cs) = (a, b)" by (metis surj_pair)
      have "low (tl cs) \<le> low (c # cs)" "plain (c # cs) \<Longrightarrow> plain (tl cs)"
        using low_mono [of "tl cs" "c # cs"] by (auto simp: suffix_Cons)
      with close_paren_parts [OF ab] ab
      show "low (fst (close_paren 1 (tl cs))) \<le> low (c # cs)" "low (snd (close_paren 1 (tl cs))) \<le> low (c # cs)"
        "plain (c # cs) \<Longrightarrow> plain (fst (close_paren 1 (tl cs))) \<and> plain (snd (close_paren 1 (tl cs)))" by auto
    qed
    have tick: "tame (c # cs) (sub_found k (fst (next_backtick cs)) m (subst_scan p m' q q' (snd (next_backtick cs))))" for k p m m' q q'
      by (rule tame_found [OF bt])
        (use low_take [where s = cs] low_mono [OF suffix_drop_while [where s = cs and n = 1]] low_Cons_le(1) [of cs c] in
          \<open>auto simp: next_backtick_def simp del: One_nat_def intro: order_trans\<close>)
    have semi: "tame (c # cs) (sub_add '';'' (subst_scan p m q q' cs))" for p m q q'
      by (rule tame_add [OF cs]) (simp_all add: low_Cons)
    show ?thesis unfolding Cons subst_scan.simps(2) Let_def
      by (intro if_tame; (rule one semi skip2 paren tick | (rule two, simp) | (rule comment, simp)))
  qed
qed


section \<open>Words and commands\<close>

definition words_within :: "string list \<Rightarrow> nat \<Rightarrow> bool \<Rightarrow> bool" where
  "words_within ws n p = (low_words ws \<le> n \<and> (p \<longrightarrow> (\<forall>w \<in> set ws. plain w)))"

lemma words_within_Nil [simp]: "words_within [] n p"
  by (simp add: words_within_def)

lemma words_within_Cons: "words_within ws n p \<Longrightarrow> low w + n \<le> m \<Longrightarrow> (p' \<Longrightarrow> p \<and> plain w) \<Longrightarrow> words_within (w # ws) m p'"
  by (auto simp: words_within_def)

lemma words_within_mono: "words_within ws n p \<Longrightarrow> n \<le> m \<Longrightarrow> (p' \<Longrightarrow> p) \<Longrightarrow> words_within ws m p'"
  by (auto simp: words_within_def)

lemma words_within_emit:
  "words_within r n p \<Longrightarrow> ws = t # r \<or> ws = r \<Longrightarrow> low t + n \<le> m \<Longrightarrow> (p' \<Longrightarrow> p \<and> plain t) \<Longrightarrow> words_within ws m p'"
  by (auto simp: words_within_def)

lemma lex_start_low: "low (snd (lex_start c)) \<le> low [c]" "c \<noteq> CHR ''<'' \<Longrightarrow> plain (snd (lex_start c))"
  by (simp_all add: lex_start_def low_Cons)

lemma emit_word_Some: "emit_word q t rest = Some ws \<Longrightarrow> \<exists>r. rest = Some r \<and> (ws = t # r \<or> ws = r)"
  by (auto simp: emit_word_def split: if_splits)

lemma shlex_within: "shlex_scan st q t s = Some ws \<Longrightarrow> words_within ws (low t + low s) (plain t \<and> plain s)"
proof (induction st q t s arbitrary: ws rule: shlex_scan.induct)
  case (6 q t c cs)
  then have "words_within ws (low (snd (lex_start c)) + low cs) (plain (snd (lex_start c)) \<and> plain cs)" by simp
  then show ?case by (rule words_within_mono) (use lex_start_low [of c] in \<open>auto simp: low_Cons split: if_splits\<close>)
next
  case (9 q t c cs)
  consider (space) "c \<in> set LEX_SPACE" | (quote) "c \<notin> set LEX_SPACE" "c \<in> set LEX_QUOTES" | (esc) "c \<notin> set LEX_SPACE" "c \<notin> set LEX_QUOTES" "c = BACKSLASH"
    | (punct) "c \<notin> set LEX_SPACE" "c \<notin> set LEX_QUOTES" "c \<noteq> BACKSLASH" "c \<in> set LEX_PUNCT"
    | (word) "c \<notin> set LEX_SPACE" "c \<notin> set LEX_QUOTES" "c \<noteq> BACKSLASH" "c \<notin> set LEX_PUNCT" by blast
  then show ?case
  proof cases
    case space
    then obtain r where r: "shlex_scan LSpace False [] cs = Some r" "ws = t # r \<or> ws = r"
      using 9(6) emit_word_Some [of q t _ ws] by auto
    show ?thesis by (rule words_within_emit [OF 9(1) [OF space r(1)] r(2)]) (auto simp: low_Cons)
  next
    case quote
    then have "words_within ws (low t + low cs) (plain t \<and> plain cs)" using 9(2) 9(6) by simp
    then show ?thesis by (rule words_within_mono) (auto simp: low_Cons)
  next
    case esc
    then have "words_within ws (low t + low cs) (plain t \<and> plain cs)" using 9(3) 9(6) by simp
    then show ?thesis by (rule words_within_mono) (auto simp: low_Cons)
  next
    case punct
    then obtain r where r: "shlex_scan (fst (lex_start c)) False (snd (lex_start c)) cs = Some r" "ws = t # r \<or> ws = r"
      using 9(6) emit_word_Some [of q t _ ws] by auto
    have w: "words_within r (low [c] + low cs) (c \<noteq> CHR ''<'' \<and> plain cs)"
      by (rule words_within_mono [OF 9(4) [OF punct r(1)]]) (use lex_start_low [of c] in auto)
    show ?thesis by (rule words_within_emit [OF w r(2)]) (auto simp: low_Cons)
  next
    case word
    then have "words_within ws (low (t @ [c]) + low cs) (plain (t @ [c]) \<and> plain cs)" using 9(5) 9(6) by simp
    then show ?thesis by (rule words_within_mono) (auto simp: low_Cons)
  qed
next
  case (10 q t c cs)
  consider (space) "c \<in> set LEX_SPACE" | (punct) "c \<notin> set LEX_SPACE" "c \<in> set LEX_PUNCT" | (word) "c \<notin> set LEX_SPACE" "c \<notin> set LEX_PUNCT" by blast
  then show ?case
  proof cases
    case space
    then obtain r where r: "shlex_scan LSpace False [] cs = Some r" "ws = t # r" using 10 by auto
    show ?thesis unfolding r(2) by (rule words_within_Cons [OF 10(1) [OF space r(1)]]) (auto simp: low_Cons)
  next
    case punct
    then have "words_within ws (low (t @ [c]) + low cs) (plain (t @ [c]) \<and> plain cs)" using 10(2) 10(4) by simp
    then show ?thesis by (rule words_within_mono) (auto simp: low_Cons)
  next
    case word
    then obtain r where r: "shlex_scan (fst (lex_start c)) False (snd (lex_start c)) cs = Some r" "ws = t # r" using 10 by auto
    have w: "words_within r (low [c] + low cs) (c \<noteq> CHR ''<'' \<and> plain cs)"
      by (rule words_within_mono [OF 10(3) [OF word r(1)]]) (use lex_start_low [of c] in auto)
    show ?thesis unfolding r(2) by (rule words_within_Cons [OF w]) (auto simp: low_Cons)
  qed
next
  case (2 q t)
  then have "ws = t # [] \<or> ws = []" using emit_word_Some by fastforce
  then show ?case by (rule words_within_emit [OF words_within_Nil [of 0 True]]) simp_all
next
  case (7 e q t c cs)
  consider (shut) "c = e" | (esc) "c \<noteq> e" "c = BACKSLASH \<and> e = DQUOTE" | (in_quotes) "c \<noteq> e" "\<not> (c = BACKSLASH \<and> e = DQUOTE)" by blast
  then show ?case
  proof cases
    case shut
    then have "words_within ws (low t + low cs) (plain t \<and> plain cs)" using 7(1) 7(4) by simp
    then show ?thesis by (rule words_within_mono) (auto simp: low_Cons)
  next
    case esc
    then have "words_within ws (low t + low cs) (plain t \<and> plain cs)" using 7(2) 7(4) by simp
    then show ?thesis by (rule words_within_mono) (auto simp: low_Cons)
  next
    case in_quotes
    have "shlex_scan (LQuote e) True (t @ [c]) cs = Some ws" using 7(4) in_quotes by (subst (asm) shlex_scan.simps(7)) (simp only: if_False)
    from 7(3) [OF in_quotes this] have "words_within ws (low (t @ [c]) + low cs) (plain (t @ [c]) \<and> plain cs)" .
    then show ?thesis by (rule words_within_mono) (auto simp: low_Cons)
  qed
next
  case (8 dq q t c cs)
  show ?case
  proof (cases dq)
    case True
    have "words_within ws (low (t @ (if c = BACKSLASH \<or> c = DQUOTE then [c] else [BACKSLASH, c])) + low cs)
      (plain (t @ (if c = BACKSLASH \<or> c = DQUOTE then [c] else [BACKSLASH, c])) \<and> plain cs)"
      using 8(1) [OF True] 8(3) True by (simp only: shlex_scan.simps if_True)
    then show ?thesis by (rule words_within_mono) (auto simp: low_Cons backslash_plain)
  next
    case False
    then have "words_within ws (low (t @ [c]) + low cs) (plain (t @ [c]) \<and> plain cs)" using 8(2) 8(3) by simp
    then show ?thesis by (rule words_within_mono) (auto simp: low_Cons)
  qed
qed (simp_all add: words_within_def)

lemma shlex_words_within: "shlex_words s = Some ws \<Longrightarrow> words_within ws (low s) (plain s)"
  using shlex_within [of LSpace False "[]" s ws] by (simp add: shlex_words_def)

text \<open>Every command of a split text keeps the bound, and its operators and targets are words of the text.\<close>

definition cmd_within :: "nat \<Rightarrow> bool \<Rightarrow> cmd \<Rightarrow> bool" where
  "cmd_within n p c = (words_within (cm_argv c) n p \<and> (p \<longrightarrow> (\<forall>(op, tgt) \<in> set (cm_redirects c). plain op)))"

definition split_within :: "nat \<Rightarrow> bool \<Rightarrow> split_state \<Rightarrow> bool" where
  "split_within n p s =
     (cmd_within n p (sp_cur s) \<and> (\<forall>c \<in> set (sp_pipeline s). cmd_within n p c) \<and>
      (\<forall>pl \<in> set (sp_pipelines s). \<forall>c \<in> set pl. cmd_within n p c) \<and> (p \<longrightarrow> (\<forall>op. sp_pending s = Some op \<longrightarrow> plain op)))"

lemma cmd_within_mono: "cmd_within n p c \<Longrightarrow> n \<le> m \<Longrightarrow> (p' \<Longrightarrow> p) \<Longrightarrow> cmd_within m p' c"
  by (auto simp: cmd_within_def intro: words_within_mono)

lemma split_within_mono: "split_within n p s \<Longrightarrow> n \<le> m \<Longrightarrow> (p' \<Longrightarrow> p) \<Longrightarrow> split_within m p' s"
  unfolding split_within_def by (blast intro: cmd_within_mono)

lemma close_cmd_within: "split_within n p s \<Longrightarrow> split_within n p (close_cmd s)"
  by (auto simp: split_within_def close_cmd_def no_cmd_def cmd_within_def)

lemma close_pipeline_within: "split_within n p s \<Longrightarrow> split_within n p (close_pipeline s)"
  by (auto simp: split_within_def close_pipeline_def)

lemma split_token_within:
  assumes "split_within n p s"
  shows "split_within (n + low tok) (p \<and> plain tok) (split_token s tok)"
proof -
  have m: "split_within (n + low tok) (p \<and> plain tok) s" by (rule split_within_mono [OF assms]) simp_all
  have add: "split_within (n + low tok) (p \<and> plain tok) (s\<lparr>sp_cur := (sp_cur s)\<lparr>cm_argv := cm_argv (sp_cur s) @ [tok]\<rparr>\<rparr>)"
  proof -
    have "cmd_within n p (sp_cur s)" using assms by (simp add: split_within_def)
    then have "cmd_within (n + low tok) (p \<and> plain tok) ((sp_cur s)\<lparr>cm_argv := cm_argv (sp_cur s) @ [tok]\<rparr>)"
      unfolding cmd_within_def words_within_def by auto
    with m show ?thesis by (simp add: split_within_def)
  qed
  have pend: "split_within (n + low tok) (p \<and> plain tok) (s\<lparr>sp_pending := Some tok\<rparr>)" using m by (simp add: split_within_def)
  show ?thesis
  proof (cases "sp_pending s")
    case None
    show ?thesis unfolding split_token_def None option.case
      by (simp only: m add pend close_cmd_within [OF m] close_pipeline_within [OF close_cmd_within [OF m]] if_True if_False split: if_split) simp
  next
    case (Some op)
    have "p \<and> plain tok \<longrightarrow> plain op" using m Some by (simp add: split_within_def)
    then show ?thesis using m unfolding split_token_def Some option.case by (auto simp: split_within_def cmd_within_def)
  qed
qed

lemma split_words_within:
  assumes "pl \<in> set (split_words toks)" "c \<in> set pl"
  shows "cmd_within (low_words toks) (\<forall>t \<in> set toks. plain t) c"
proof -
  have "split_within n p s \<Longrightarrow> split_within (n + low_words toks) (p \<and> (\<forall>t \<in> set toks. plain t)) (foldl split_token s toks)" for n p s
  proof (induction toks arbitrary: n p s)
    case (Cons t ts)
    from Cons.IH [OF split_token_within [OF Cons.prems, of t]] show ?case by (simp add: add.assoc)
  qed simp
  moreover have "split_within 0 True \<lparr>sp_pipelines = [], sp_pipeline = [], sp_cur = no_cmd, sp_pending = None\<rparr>"
    by (simp add: split_within_def cmd_within_def no_cmd_def)
  ultimately have "split_within (0 + low_words toks) (True \<and> (\<forall>t \<in> set toks. plain t))
    (foldl split_token \<lparr>sp_pipelines = [], sp_pipeline = [], sp_cur = no_cmd, sp_pending = None\<rparr> toks)" by blast
  from close_pipeline_within [OF close_cmd_within [OF this]] assms show ?thesis
    unfolding split_words_def split_within_def by auto
qed

lemma split_script_within:
  assumes "split_script s = Some pls" "pl \<in> set pls" "c \<in> set pl"
  shows "cmd_within (low s) (plain s) c"
proof -
  obtain toks where t: "shlex_words s = Some toks" "pls = split_words toks" using assms(1) by (auto simp: split_script_def)
  have "cmd_within (low_words toks) (\<forall>t \<in> set toks. plain t) c" using split_words_within assms(2,3) t(2) by blast
  with shlex_words_within [OF t(1)] show ?thesis by (auto simp: words_within_def elim!: cmd_within_mono)
qed


section \<open>An answer for every text\<close>

definition answers :: "(guard_run \<Rightarrow> crash + 'r) \<Rightarrow> bool" where
  "answers f = (\<forall>s. \<exists>r. f s = Inr r)"

lemma answersI: "(\<And>s. \<exists>r. f s = Inr r) \<Longrightarrow> answers f"
  by (simp add: answers_def)

lemma answersD: "answers f \<Longrightarrow> \<exists>r. f s = Inr r"
  unfolding answers_def by blast

lemma answers_Inr [simp]: "answers (\<lambda>s. Inr (g s))"
  by (simp add: answers_def)

lemma run_each_answers: "(\<And>x. x \<in> set xs \<Longrightarrow> answers (f x)) \<Longrightarrow> answers (run_each f xs)"
proof (induction xs)
  case (Cons x xs)
  show ?case
  proof (rule answersI)
    fix s
    obtain s1 where "f x s = Inr s1" using Cons.prems [of x] answersD by fastforce
    moreover obtain s2 where "run_each f xs s1 = Inr s2" using Cons answersD by fastforce
    ultimately show "\<exists>r. run_each f (x # xs) s = Inr r" by simp
  qed
qed (simp add: answers_def)

lemma skip_options_suffix: "suffix (skip_options P takes as) as"
proof (induction P takes as rule: skip_options.induct)
  case (2 P takes a as)
  then show ?case
  proof (cases as)
    case (Cons b bs)
    then show ?thesis using 2(1) [OF _ _ Cons] 2(2) by (cases "a \<in> set takes") (simp_all add: suffix_ConsI del: skip_options.simps, simp_all add: suffix_ConsI)
  qed simp
qed simp

lemma skip_suffix_Cons: "suffix ws' (skip_options P takes ws) \<Longrightarrow> suffix ws' (w # ws)"
  using skip_options_suffix by (meson suffix_ConsI suffix_order.trans)

lemma drop_suffix_Cons: "suffix ws' (drop n (skip_options P takes ws)) \<Longrightarrow> suffix ws' (w # ws)"
  by (rule skip_suffix_Cons [OF suffix_order.trans [OF _ suffix_drop]])

lemma unwrap_suffix: "unwrap ws b a = (ws', b', a') \<Longrightarrow> suffix ws' ws"
proof (induction ws b a rule: unwrap.induct)
  case (2 w ws b a)
  note ih = 2(1-5) [OF refl] 2(7) [OF refl]
  let ?r = "skip_options starts_dash [''-n'', ''-s'', ''-k'', ''-c''] ws"
  show ?case
  proof (cases "base_word w \<notin> set LEADING_KEYWORDS \<and> \<not> is_assignment w \<and> base_word w \<notin> {''sudo'', ''doas'', ''su'', ''env''} \<and>
      base_word w \<notin> set WRAPPERS_NO_ARG \<and> base_word w \<in> {''nice'', ''timeout'', ''ionice''}")
    case True
    then have "unwrap (if base_word w = ''timeout'' then drop 1 ?r else ?r) b a = (ws', b', a')"
      using 2(8) by (simp only: unwrap.simps Let_def) (auto split: if_splits)
    then have "suffix ws' (if base_word w = ''timeout'' then drop 1 ?r else ?r)"
      using True by (intro 2(6) [OF refl _ _ _ _ _ _ _ refl]) auto
    then consider "suffix ws' (drop 1 ?r)" | "suffix ws' ?r" by (cases "base_word w = ''timeout''") simp_all
    then show ?thesis by cases (rule drop_suffix_Cons, assumption, rule skip_suffix_Cons, assumption)
  next
    case False
    with 2(8) show ?thesis
      by (auto simp: Let_def split: if_splits intro: suffix_ConsI skip_suffix_Cons [OF ih(3)] skip_suffix_Cons [OF ih(4)]
          skip_suffix_Cons [OF ih(5)] skip_suffix_Cons [OF ih(6)] ih(1,2))
  qed
qed simp

text \<open>A command word of the shells, and \<open>eval\<close>, has a small letter; so has the word it is the base name of.\<close>

lemma base_word_low: "low (base_word w) \<le> low w"
proof (cases "CHR ''/'' \<in> set w")
  case True
  then obtain a b where "w = a @ CHR ''/'' # b" "CHR ''/'' \<notin> set b" by (metis split_list_last)
  then show ?thesis by (simp add: base_word_def py_basename_def str_rpartition_found low_Cons)
next
  case False
  then show ?thesis by (simp add: base_word_def py_basename_def str_rpartition_none)
qed

lemma script_words_low: "w \<in> set SHELLS \<Longrightarrow> 0 < low w" "0 < low ''eval''"
  by (auto simp: SHELLS_def low_Cons small_letter_def)

lemma low_join: "low (join_with '' '' ws) = low_words ws"
  by (induction ws rule: induct_list012) (auto simp: low_Cons)

lemma plain_join: "(\<And>w. w \<in> set ws \<Longrightarrow> plain w) \<Longrightarrow> plain (join_with '' '' ws)"
  by (induction ws rule: induct_list012) auto

lemma interpreter_code: "interpreter_args w args = InlineCode code \<Longrightarrow> code = [] \<or> code \<in> set args"
  by (induction w args rule: interpreter_args.induct) (auto simp: Let_def split: if_splits list.splits)

definition below :: "script_fun \<Rightarrow> nat \<Rightarrow> nat \<Rightarrow> bool" where
  "below script d n = (\<forall>t. plain t \<longrightarrow> low t < n \<longrightarrow> answers (script d t))"

lemma classify_interpreter_answers:
  assumes b: "below script (d + 1) n" and w: "\<forall>w \<in> set args. plain w" and l: "low_words args < n" "word \<in> set SHELLS \<longrightarrow> 0 < n"
  shows "answers (classify_interpreter script mc downs d word args up [] [])"
proof (rule answersI)
  fix s
  show "\<exists>r. classify_interpreter script mc downs d word args up [] [] s = Inr r"
  proof (cases "interpreter_args word args")
    case (InlineCode code)
    have "plain code \<and> low code < n"
      using interpreter_code [OF InlineCode] w l low_words_mem [of code args] by (auto intro: le_less_trans)
    then have "answers (script (d + 1) code)" using b by (simp add: below_def)
    then have "\<exists>r. script (d + 1) code s1 = Inr r" for s1 by (rule answersD)
    then show ?thesis using InlineCode unfolding classify_interpreter_def by simp
  qed (auto simp: classify_interpreter_def then_run_def)
qed

lemma if_ex: "(P \<Longrightarrow> \<exists>r. x = Inr r) \<Longrightarrow> (\<not> P \<Longrightarrow> \<exists>r. y = Inr r) \<Longrightarrow> \<exists>r. (if P then x else y) = Inr r"
  by simp

lemma case_ex: "\<exists>r. x = Inr r \<Longrightarrow> \<exists>r. (case x of Inl e \<Rightarrow> Inl e | Inr s \<Rightarrow> Inr (g s)) = Inr r"
  by auto

lemma classify_word_answers:
  assumes b: "below script (d + 1) (low_words argv)" and w: "\<forall>w \<in> set argv. plain w"
  shows "answers (classify_word script mc downs d b' argv up [] [])"
proof (rule answersI)
  fix s
  show "\<exists>r. classify_word script mc downs d b' argv up [] [] s = Inr r"
  proof (cases argv)
    case (Cons raw args)
    define word where "word = base_word raw"
    have wp: "\<forall>w \<in> set args. plain w" using w Cons by simp
    have small: "low_words args < low_words argv" if "0 < low word"
      using that base_word_low [of raw] Cons unfolding word_def by simp
    have code: "\<exists>r. classify_interpreter script mc downs d word args up [] [] s = Inr r" if "word \<in> set SHELLS"
      using classify_interpreter_answers [OF b wp] small script_words_low(1) [OF that] answersD by (metis gr_zeroI not_less_zero)
    have other: "\<exists>r. classify_interpreter script mc downs d word args up [] [] s = Inr r" if "word \<notin> set SHELLS"
      using that by (cases "interpreter_args word args") (auto simp: classify_interpreter_def then_run_def)
    have src: "\<exists>r. classify_interpreter script mc downs d ''sh'' [] up [] [] s = Inr r"
      by (auto simp: classify_interpreter_def then_run_def)
    have ev: "\<exists>r. script (d + 1) (join_with '' '' args) s1 = Inr r" if "word = ''eval''" for s1
    proof -
      have "low_words args < low_words argv" using small script_words_low(2) that by simp
      then show ?thesis using b plain_join wp answersD unfolding below_def by (metis low_join)
    qed
    from code other have run: "\<exists>r. classify_interpreter script mc downs d word args up [] [] s = Inr r" by blast
    show ?thesis unfolding Cons classify_word_def list.case Let_def word_def [symmetric]
      by (intro if_ex case_ex) (use run src ev in \<open>simp_all del: split_paired_Ex\<close>)
  qed (simp add: classify_word_def)
qed

lemma plain_no_inputs:
  assumes "cmd_within n True c"
  shows "heredoc_bodies cx c = []" "cmd_inputs cx c = []"
proof -
  have "op \<noteq> ''<<'' \<and> op \<noteq> ''<<-'' \<and> op \<noteq> ''<<<''" if "(op, tgt) \<in> set (cm_redirects c)" for op tgt
    using assms that by (auto simp: cmd_within_def)
  then have f: "filter (\<lambda>(op, _). op = ''<<<'') (cm_redirects c) = []"
    and h: "\<forall>x \<in> set (cm_redirects c). (case x of (op, tgt) \<Rightarrow> if op = ''<<'' \<or> op = ''<<-''
        then (case marker_whole HEREDOC tgt of Some i \<Rightarrow> if i < length (cx_heredocs cx) then Some (cx_heredocs cx ! i) else None | None \<Rightarrow> None)
        else None) = None"
    by (auto simp: filter_empty_conv)
  show b: "heredoc_bodies cx c = []" using h unfolding heredoc_bodies_def
    by (induction "cm_redirects c" arbitrary: c) (auto simp: List.map_filter_def filter_empty_conv split: if_splits)
  show "cmd_inputs cx c = []" unfolding cmd_inputs_def b f by simp
qed

lemma classify_stage_answers:
  assumes b: "below script (d + 1) n" and c: "cmd_within n True c"
  shows "\<exists>s' up'. classify_stage script mc downs d i l c up [] s = Inr (s', up', [])"
proof -
  obtain argv b1 a1 where u: "unwrap (cm_argv c) False (snd s) = (argv, b1, a1)" by (metis prod_cases3)
  have sfx: "suffix argv (cm_argv c)" by (rule unwrap_suffix [OF u])
  have "low_words argv \<le> n" "\<forall>w \<in> set argv. plain w"
    using c low_words_suffix [OF sfx] set_mono_suffix [OF sfx] by (auto simp: cmd_within_def words_within_def)
  then have "answers (classify_word script mc downs d b' argv up [] [])" for b'
    using classify_word_answers [of script d argv] b unfolding below_def by (meson less_le_trans)
  then obtain r where "classify_word script mc downs d (b1 \<or> \<not> i) argv up [] []
      (foldl (\<lambda>s r. on_acc (check_redirect mc r) s) (fst s, a1) (cm_redirects c)) = Inr r" using answersD by blast
  then show ?thesis
    unfolding classify_stage_def u prod.case Let_def plain_no_inputs [OF c]
    by (cases r) (simp add: then_run_def)
qed

lemma classify_pipeline_answers:
  assumes b: "below script (d + 1) n" and c: "\<And>c. c \<in> set pl \<Longrightarrow> cmd_within n True c"
  shows "answers (classify_pipeline script mc downs d pl)"
proof -
  have "\<exists>r. classify_stages script mc downs d i pl up [] s = Inr r" for i up s
    using c
  proof (induction pl arbitrary: i up s)
    case (Cons e pl)
    obtain s1 up1 where "classify_stage script mc downs d i (pl = []) e up [] s = Inr (s1, up1, [])"
      using classify_stage_answers [OF b] Cons.prems by (metis list.set_intros(1))
    then show ?case using Cons.IH [of False up1 s1] Cons.prems by simp
  qed simp
  then show ?thesis by (simp add: answers_def classify_pipeline_def)
qed

lemma flatten_nesting_plain: "low (flatten_nesting s) \<le> low s \<and> (plain s \<longrightarrow> plain (flatten_nesting s))"
proof (induction s rule: flatten_nesting.induct)
  case (2 c cs)
  show ?case
  proof (cases "c = CHR ''$'' \<and> cs \<noteq> [] \<and> hd cs = CHR ''(''")
    case True
    then show ?thesis using 2(1) by (cases cs) (auto simp: low_Cons small_letter_def)
  next
    case False
    then show ?thesis using 2(2) [OF False] 2(3) [OF False]
      by (auto simp: low_Cons intro: le_SucI)
  qed
qed simp

lemma deep_script_answers:
  assumes "below script (d + 1) (low t)" "plain t"
  shows "answers (deep_script script mc d t)"
proof (rule answersI)
  fix s
  show "\<exists>r. deep_script script mc d t s = Inr r"
  proof (cases "split_script (flatten_nesting t)")
    case (Some pls)
    have "cmd_within (low t) True c" if "pl \<in> set pls" "c \<in> set pl" for pl c
      using split_script_within [OF Some that] flatten_nesting_plain [of t] assms(2) cmd_within_mono by blast
    then have "answers (run_each (classify_pipeline script mc [] d) pls)"
      by (intro run_each_answers classify_pipeline_answers [OF assms(1)])
    then have "\<exists>r. run_each (classify_pipeline script mc [] d) pls s1 = Inr r" for s1 by (rule answersD)
    then show ?thesis using Some by (simp add: deep_script_def Let_def del: split_paired_Ex)
  qed (simp add: deep_script_def Let_def)
qed

lemma sub_scripts_plain:
  assumes "plain t" "x \<in> set (concat (map sub_scripts (snd (extract_substitutions t))))"
  shows "plain x \<and> low x \<le> low t"
proof -
  obtain k where k: "k \<in> set (snd (extract_substitutions t))" "x \<in> set (sub_scripts k)" using assms(2) by auto
  have t: "plain (snd k)" "low (snd k) \<le> low t"
    using subst_scan_tame [of t None 0 False False] k(1) assms(1) by (auto simp: tame_def extract_substitutions_def)
  have "x = snd k \<or> x \<in> snd ` set (snd (extract_substitutions (snd k)))"
    using k(2) by (auto simp: sub_scripts_def split: if_splits)
  then show ?thesis
    using t subst_scan_tame [of "snd k" None 0 False False] by (force simp: tame_def extract_substitutions_def)
qed

lemma flat_script_answers:
  assumes b: "below script (d + 1) (Suc (low t))" and p: "plain t"
  shows "answers (flat_script script mc d t)"
proof (rule answersI)
  fix s
  have cut: "cut_heredocs t s = Inr (t, s)" by (simp add: cut_heredocs_def extract_heredocs_plain [OF p])
  let ?s = "on_acc (\<lambda>cx a. if cx_unparsed cx then opaque ''heredoc-unparsed'' a else a) s"
  show "\<exists>r. flat_script script mc d t s = Inr r"
  proof (cases "split_script (fst (extract_substitutions t))")
    case (Some pls)
    have fl: "low (fst (extract_substitutions t)) \<le> low t" "plain (fst (extract_substitutions t))"
      using subst_scan_tame [of t None 0 False False] p by (simp_all add: tame_def extract_substitutions_def)
    have "cmd_within (Suc (low t)) True c" if "pl \<in> set pls" "c \<in> set pl" for pl c
      by (rule cmd_within_mono [OF split_script_within [OF Some that]]) (use fl in auto)
    then have run: "answers (run_each (classify_pipeline script mc downs d) pls)" for downs
      by (intro run_each_answers classify_pipeline_answers [OF b])
    have "answers (run_each (script (d + 1)) (concat (map sub_scripts (snd (extract_substitutions t)))))"
      using sub_scripts_plain [OF p] b by (intro run_each_answers) (auto simp: below_def less_Suc_eq_le)
    then obtain s1 where "run_each (script (d + 1)) (concat (map sub_scripts (snd (extract_substitutions t)))) ?s = Inr s1"
      using answersD by blast
    with run [THEN answersD] Some show ?thesis unfolding flat_script_def cut sum.case prod.case Let_def
      by (simp add: then_run_def)
  qed (simp add: flat_script_def cut Let_def)
qed

definition levels_needed :: "nat \<Rightarrow> string \<Rightarrow> nat" where
  "levels_needed d t = (MAX_DEPTH + 1 - d) + low t + 1"

theorem script_answers: "plain t \<Longrightarrow> levels_needed d t \<le> fuel \<Longrightarrow> answers (classify_script fuel mc d t)"
proof (induction fuel arbitrary: d t)
  case 0
  then show ?case by (simp add: levels_needed_def)
next
  case (Suc fuel)
  have e: "classify_script (Suc fuel) mc d t =
      (if MAX_DEPTH < d then deep_script (classify_script fuel mc) mc d t else flat_script (classify_script fuel mc) mc d t)"
    by (rule ext) simp
  show ?case
  proof (cases "MAX_DEPTH < d")
    case True
    have "below (classify_script fuel mc) (d + 1) (low t)"
      using Suc.IH [of _ "d + 1"] Suc.prems(2) True by (auto simp: below_def levels_needed_def)
    then show ?thesis using deep_script_answers Suc.prems(1) e True by simp
  next
    case False
    have "below (classify_script fuel mc) (d + 1) (Suc (low t))"
      using Suc.IH [of _ "d + 1"] Suc.prems(2) False by (auto simp: below_def levels_needed_def MAX_DEPTH_def)
    then show ?thesis using flat_script_answers Suc.prems(1) e False by simp
  qed
qed

end
