(* ===== verification/Guard_Limits.thy ===== *)
theory Guard_Limits
  imports Guard_Fuel
begin

text \<open>
  What the classifier answers within a limit on its levels, and what happens beyond it: more levels never change an answer, every text
  without \<open><\<close> has one, and a short text exhausts any limit.
\<close>

section \<open>More levels never change an answer\<close>

text \<open>A result other than that the limit was reached stays.\<close>

definition extends :: "crash + 'r \<Rightarrow> crash + 'r \<Rightarrow> bool" where
  "extends r' r = (r \<noteq> Inl RecursionLimit \<longrightarrow> r' = r)"

lemma extends_refl: "extends r r"
  by (simp add: extends_def)

lemma extends_if:
  "(P \<Longrightarrow> extends x a) \<Longrightarrow> (\<not> P \<Longrightarrow> extends y b) \<Longrightarrow> extends (if P then x else y) (if P then a else b)"
  by simp

lemma extends_case:
  assumes "extends r' r" "\<And>x. extends (k x) (h x)"
  shows "extends (case r' of Inl e \<Rightarrow> Inl e | Inr x \<Rightarrow> k x) (case r of Inl e \<Rightarrow> Inl e | Inr x \<Rightarrow> h x)"
  using assms by (cases r) (auto simp: extends_def)

lemma extends_then: "extends r' r \<Longrightarrow> (\<And>s. extends (k s) (h s)) \<Longrightarrow> extends (then_run r' k) (then_run r h)"
  unfolding then_run_def by (rule extends_case)

lemma extends_each: "(\<And>x s. extends (g x s) (f x s)) \<Longrightarrow> extends (run_each g xs s) (run_each f xs s)"
  by (induction xs arbitrary: s) (simp_all add: extends_refl extends_case)

locale script_extension =
  fixes f g :: script_fun
  assumes step: "extends (g d t s) (f d t s)"
begin

lemma line_verdict_extends: "extends (line_verdict g d l cx) (line_verdict f d l cx)"
  unfolding line_verdict_def by (intro extends_case step) (auto intro: extends_refl step split: prod.split)

lemma screen_lines_extends: "extends (screen_lines g d ls cx a) (screen_lines f d ls cx a)"
proof (induction ls arbitrary: cx a)
  case (Cons l ls)
  show ?case unfolding screen_lines.simps by (intro extends_case line_verdict_extends) (auto intro: Cons.IH split: prod.split)
qed (simp add: extends_refl)

lemma screen_data_extends: "extends (screen_data g d b s) (screen_data f d b s)"
  unfolding screen_data_def by (intro extends_case screen_lines_extends extends_refl)

lemma stdin_body_extends: "extends (stdin_body g downs d b s) (stdin_body f downs d b s)"
  unfolding stdin_body_def by (rule step)

lemma classify_interpreter_extends:
  "extends (classify_interpreter g mc downs d w args up inputs piped s) (classify_interpreter f mc downs d w args up inputs piped s)"
  unfolding classify_interpreter_def
  by (cases "interpreter_args w args"; simp only: program.case)
    (intro extends_if extends_then extends_each stdin_body_extends step extends_refl)+

lemma classify_word_extends:
  "extends (classify_word g mc downs d b argv up inputs piped s) (classify_word f mc downs d b argv up inputs piped s)"
  unfolding classify_word_def Let_def
  by (cases argv; simp only: list.case) (intro extends_if extends_case classify_interpreter_extends step extends_refl)+

lemma body_subs_extends: "extends (body_subs g d b s) (body_subs f d b s)"
  unfolding body_subs_def by (intro extends_if extends_each step extends_refl)

lemma classify_stage_extends:
  "extends (classify_stage g mc downs d i l c up piped s) (classify_stage f mc downs d i l c up piped s)"
proof -
  obtain argv b a1 where u: "unwrap (cm_argv c) False (snd s) = (argv, b, a1)" by (metis prod_cases3)
  show ?thesis unfolding classify_stage_def u prod.case Let_def
    by (intro extends_case extends_then extends_each extends_if body_subs_extends screen_data_extends extends_refl)
      (auto intro: classify_word_extends extends_refl extends_case split: prod.split)
qed

lemma classify_stages_extends:
  "extends (classify_stages g mc downs d i cs up piped s) (classify_stages f mc downs d i cs up piped s)"
proof (induction cs arbitrary: i up piped s)
  case (Cons c cs)
  show ?case unfolding classify_stages.simps
    by (intro extends_case classify_stage_extends) (auto intro: Cons.IH split: prod.split)
qed (simp add: extends_refl)

lemma pipelines_extend:
  "extends (run_each (classify_pipeline g mc downs d) pls s) (run_each (classify_pipeline f mc downs d) pls s)"
  unfolding classify_pipeline_def by (intro extends_each classify_stages_extends)

lemma deep_script_extends: "extends (deep_script g mc d t s) (deep_script f mc d t s)"
  unfolding deep_script_def Let_def by (auto intro: pipelines_extend extends_refl split: option.split)

lemma flat_script_extends: "extends (flat_script g mc d t s) (flat_script f mc d t s)"
proof (cases "cut_heredocs t s")
  case (Inr r)
  obtain out s1 where r: "r = (out, s1)" by (cases r)
  show ?thesis unfolding flat_script_def Inr r sum.case prod.case Let_def
    by (cases "split_script (fst (extract_substitutions out))"; simp only: option.case)
      (intro extends_then extends_each step pipelines_extend extends_refl)+
qed (simp add: flat_script_def extends_refl)

end

lemma levels_extend: "script_extension (classify_script n mc) (classify_script (n + k) mc)"
proof (induction n)
  case 0
  then show ?case by unfold_locales (simp add: extends_def)
next
  case (Suc n)
  show ?case by unfold_locales
    (simp add: script_extension.deep_script_extends [OF Suc] script_extension.flat_script_extends [OF Suc])
qed

interpretation more_levels: script_extension "classify_script n mc" "classify_script (n + k) mc" for n mc k
  by (rule levels_extend)


section \<open>Simple commands\<close>

text \<open>Words without a character that means something to the shell.\<close>

definition simple_char :: "char \<Rightarrow> bool" where
  "simple_char c = (c \<notin> set (LEX_SPACE @ LEX_PUNCT @ LEX_QUOTES @ ''$#'' @ [BACKSLASH, BACKTICK]))"

definition simple_words :: "string list \<Rightarrow> bool" where
  "simple_words ws = (\<forall>w \<in> set ws. w \<noteq> [] \<and> list_all simple_char w)"

lemma simple_charD:
  assumes "simple_char c"
  shows "c \<notin> set LEX_SPACE" "c \<notin> set LEX_PUNCT" "c \<notin> set LEX_QUOTES" "c \<noteq> CHR ''$''" "c \<noteq> CHR ''#''" "c \<noteq> BACKSLASH"
    "c \<noteq> BACKTICK" "c \<noteq> SQUOTE" "c \<noteq> DQUOTE" "c \<noteq> NEWLINE" "c \<noteq> CHR '' ''" "c \<noteq> CHR ''<''" "c \<noteq> CHR ''>''" "c \<noteq> CHR ''(''" "c \<noteq> CHR '')''"
  using assms by (auto simp: simple_char_def LEX_SPACE_def LEX_PUNCT_def LEX_QUOTES_def)

lemma lex_start_simple: "simple_char c \<Longrightarrow> lex_start c = (LWord, [c])"
  by (simp add: lex_start_def simple_charD)

lemma shlex_word: "list_all simple_char w \<Longrightarrow> shlex_scan LWord q t (w @ r) = shlex_scan LWord q (t @ w) r"
  by (induction w arbitrary: t) (simp_all add: simple_charD)

lemma space_lex [simp]: "CHR '' '' \<in> set LEX_SPACE"
  by (simp add: LEX_SPACE_def)

lemma shlex_join:
  assumes "simple_words ws"
  shows "shlex_words (join_with '' '' ws) = Some ws"
proof -
  have one: "shlex_scan LSpace False [] (w @ r) = shlex_scan LWord False w r" if "w \<noteq> []" "list_all simple_char w" for w r
  proof -
    obtain c cs where w: "w = c # cs" using \<open>w \<noteq> []\<close> by (cases w) auto
    then show ?thesis using that shlex_word [of cs False "[c]" r] by (simp add: lex_start_simple)
  qed
  have "shlex_scan LSpace False [] (join_with '' '' ws) = Some ws"
    using assms
  proof (induction ws rule: induct_list012)
    case (2 w)
    then show ?case using one [of w "[]"] by (simp add: simple_words_def emit_word_def)
  next
    case (3 v w ws)
    then have "shlex_scan LSpace False [] (join_with '' '' (w # ws)) = Some (w # ws)" by (simp add: simple_words_def)
    then show ?case using 3(3) one [of v "CHR '' '' # join_with '' '' (w # ws)"] by (simp add: simple_words_def emit_word_def)
  qed simp
  then show ?thesis by (simp add: shlex_words_def)
qed

lemma simple_not_operator:
  assumes "w \<noteq> []" "list_all simple_char w"
  shows "w \<notin> set PIPES" "w \<notin> set SEPARATORS" "\<not> only_chars w '';&|()''" "\<not> only_chars w ''<>&''"
proof -
  obtain c cs where w: "w = c # cs" using assms(1) by (cases w) auto
  have c: "c \<notin> set LEX_PUNCT" "c \<noteq> NEWLINE" using assms(2) w simple_charD by simp_all
  then show "w \<notin> set PIPES" "w \<notin> set SEPARATORS" "\<not> only_chars w '';&|()''" "\<not> only_chars w ''<>&''"
    unfolding w by (auto simp: PIPES_def SEPARATORS_def only_chars_def LEX_PUNCT_def)
qed

text \<open>Splitting a simple command gives back its words.\<close>

lemma split_simple:
  assumes "simple_words ws" "ws \<noteq> []"
  shows "split_script (join_with '' '' ws) = Some [[\<lparr>cm_argv = ws, cm_redirects = []\<rparr>]]"
proof -
  have "foldl split_token \<lparr>sp_pipelines = [], sp_pipeline = [], sp_cur = \<lparr>cm_argv = vs, cm_redirects = []\<rparr>, sp_pending = None\<rparr> ws =
     \<lparr>sp_pipelines = [], sp_pipeline = [], sp_cur = \<lparr>cm_argv = vs @ ws, cm_redirects = []\<rparr>, sp_pending = None\<rparr>" for vs
    using assms(1)
  proof (induction ws arbitrary: vs)
    case (Cons w ws)
    then show ?case using simple_not_operator [of w] by (simp add: simple_words_def split_token_def)
  qed simp
  from this [of "[]"] show ?thesis using assms(2)
    by (simp add: split_script_def shlex_join [OF assms(1)] split_words_def no_cmd_def close_cmd_def close_pipeline_def)
qed

definition simple_text :: "string \<Rightarrow> bool" where
  "simple_text t = list_all (\<lambda>c. simple_char c \<or> c = CHR '' '') t"

lemma simple_text_join: "simple_words ws \<Longrightarrow> simple_text (join_with '' '' ws)"
  by (induction ws rule: induct_list012) (auto simp: simple_words_def simple_text_def list_all_iff)

lemma simple_text_plain: "simple_text t \<Longrightarrow> plain t"
  by (induction t) (auto simp: simple_text_def dest: simple_charD(12))

lemma blank_chars: "CHR '' '' \<noteq> BACKSLASH" "CHR '' '' \<noteq> BACKTICK" "CHR '' '' \<noteq> SQUOTE" "CHR '' '' \<noteq> DQUOTE" "CHR '' '' \<noteq> NEWLINE"
  by (simp_all add: BACKSLASH_def BACKTICK_def SQUOTE_def DQUOTE_def NEWLINE_def)

lemma extract_simple: "simple_text t \<Longrightarrow> extract_substitutions t = (t, [])"
proof -
  have "simple_text t \<Longrightarrow> subst_scan prev n False False t = (t, [])" for prev n
  proof (induction t arbitrary: prev)
    case (Cons c cs)
    have c: "c \<noteq> BACKSLASH" "c \<noteq> SQUOTE" "c \<noteq> DQUOTE" "c \<noteq> CHR ''$''" "c \<noteq> CHR ''<''" "c \<noteq> CHR ''>''" "c \<noteq> BACKTICK"
      "c \<noteq> CHR ''#''" "c \<noteq> NEWLINE"
      using Cons.prems simple_charD [of c] blank_chars by (auto simp: simple_text_def)
    have "simple_text cs" using Cons.prems by (simp add: simple_text_def)
    with c show ?case using Cons.IH by simp
  qed simp
  then show "simple_text t \<Longrightarrow> extract_substitutions t = (t, [])" by (simp add: extract_substitutions_def)
qed

lemma flatten_simple: "simple_text t \<Longrightarrow> flatten_nesting t = t"
proof (induction t)
  case (Cons c cs)
  have c: "c \<noteq> CHR ''$''" "c \<noteq> BACKTICK" "c \<noteq> CHR ''(''" "c \<noteq> CHR '')''"
    using Cons.prems simple_charD [of c] blank_chars by (auto simp: simple_text_def)
  then show ?case using Cons by (simp add: simple_text_def)
qed simp


section \<open>Nested evals\<close>

definition evals :: "nat \<Rightarrow> string list \<Rightarrow> string" where
  "evals n ws = join_with '' '' (replicate n ''eval'' @ ws)"

lemma eval_words: "simple_words (replicate n ''eval'' @ ws) \<longleftrightarrow> simple_words ws"
  by (auto simp: simple_words_def simple_char_def LEX_SPACE_def LEX_PUNCT_def LEX_QUOTES_def BACKSLASH_def BACKTICK_def SQUOTE_def DQUOTE_def
      TAB_def NEWLINE_def)

lemma unwrap_eval: "unwrap (''eval'' # ws) b a = (''eval'' # ws, b, a)"
proof -
  have "base_word ''eval'' = ''eval''" "\<not> is_assignment ''eval''" by code_simp+
  moreover have "''eval'' \<notin> set LEADING_KEYWORDS" "''eval'' \<notin> set WRAPPERS_NO_ARG" by code_simp+
  ultimately show ?thesis by simp
qed

lemma eval_stage:
  "classify_pipeline script mc downs d [\<lparr>cm_argv = ''eval'' # ws, cm_redirects = []\<rparr>] s =
   script (d + 1) (join_with '' '' ws)
     (on_acc (\<lambda>_ a. hit_if (list_ex (in_downloads downs) ws) Critical ''pipe-download-to-shell'' (opaque ''eval'' a)) s)"
proof -
  have w: "base_word ''eval'' = ''eval''" "''eval'' \<notin> set SKIP_SEGMENT_KEYWORDS" "\<not> py_in PLACEHOLDER ''eval''" by code_simp+
  have s: "(fst s, snd s) = s" by simp
  show ?thesis
    unfolding classify_pipeline_def classify_stages.simps classify_stage_def cmd.simps unwrap_eval prod.case Let_def heredoc_bodies_def cmd_inputs_def
      classify_word_def list.case w(1)
    using w(2,3) by (auto simp: then_run_def map_filter_simps split: sum.split)
qed

lemma eval_level:
  assumes "simple_words ws" "ws \<noteq> []"
  shows "\<exists>s1. classify_script (Suc n) mc d (join_with '' '' (''eval'' # ws)) s = classify_script n mc (d + 1) (join_with '' '' ws) s1"
proof -
  have e: "simple_words (''eval'' # ws)" using eval_words [of 1 ws] assms(1) by simp
  let ?t = "join_with '' '' (''eval'' # ws)"
  have t: "simple_text ?t" by (rule simple_text_join [OF e])
  have one: "run_each f [x] s = f x s" for f :: "cmd list \<Rightarrow> guard_run \<Rightarrow> crash + guard_run" and x s
    by (cases "f x s") simp_all
  note split = split_simple [OF e list.distinct(2)]
  show ?thesis
  proof (cases "MAX_DEPTH < d")
    case True
    then have "classify_script (Suc n) mc d ?t s = deep_script (classify_script n mc) mc d ?t s" by simp
    then show ?thesis unfolding deep_script_def flatten_simple [OF t] split Let_def option.case one eval_stage by blast
  next
    case False
    then have "classify_script (Suc n) mc d ?t s = flat_script (classify_script n mc) mc d ?t s" by simp
    moreover have "cut_heredocs ?t s = Inr (?t, s)"
      by (simp only: cut_heredocs_def extract_heredocs_plain [OF simple_text_plain [OF t]] scan_result.case) simp
    ultimately show ?thesis
      unfolding flat_script_def by (simp only: sum.case prod.case extract_simple [OF t] fst_conv snd_conv split Let_def option.case one eval_stage
        then_run_def list.map concat.simps run_each.simps(1) sum.case) blast
  qed
qed

lemma evals_Suc: "ws \<noteq> [] \<Longrightarrow> evals (Suc n) ws = join_with '' '' (''eval'' # (replicate n ''eval'' @ ws))"
  by (simp add: evals_def)

lemma evals_exhaust:
  assumes "simple_words ws" "ws \<noteq> []" "fuel \<le> n"
  shows "classify_script fuel mc d (evals n ws) s = Inl RecursionLimit"
  using assms(3)
proof (induction fuel arbitrary: n d s)
  case (Suc fuel)
  then obtain m where n: "n = Suc m" "fuel \<le> m" by (cases n) auto
  have "simple_words (replicate m ''eval'' @ ws)" "replicate m ''eval'' @ ws \<noteq> []" using eval_words assms(1,2) by simp_all
  from eval_level [OF this] obtain s1 where
    "classify_script (Suc fuel) mc d (evals n ws) s = classify_script fuel mc (d + 1) (evals m ws) s1"
    unfolding n(1) evals_Suc [OF assms(2)] by (metis evals_def)
  then show ?case using Suc.IH [OF n(2)] by simp
qed simp

lemma evals_reach:
  assumes "simple_words ws" "ws \<noteq> []"
  shows "\<exists>s1. classify_script (n + k) mc d (evals n ws) s = classify_script k mc (d + n) (join_with '' '' ws) s1"
proof (induction n arbitrary: d s)
  case 0
  show ?case by (intro exI [of _ s]) (simp add: evals_def)
next
  case (Suc n)
  have "simple_words (replicate n ''eval'' @ ws)" "replicate n ''eval'' @ ws \<noteq> []" using eval_words assms(1,2) by simp_all
  from eval_level [OF this] obtain s1 where
    "classify_script (Suc (n + k)) mc d (evals (Suc n) ws) s = classify_script (n + k) mc (d + 1) (evals n ws) s1"
    unfolding evals_Suc [OF assms(2)] by (metis evals_def)
  then show ?case using Suc.IH [of "d + 1" s1] by simp
qed

lemma length_evals: "ws \<noteq> [] \<Longrightarrow> length (evals n ws) = 5 * n + length (join_with '' '' ws)"
proof (induction n)
  case (Suc n)
  have "replicate n ''eval'' @ ws \<noteq> []" using Suc.prems by simp
  then have "evals (Suc n) ws = ''eval '' @ evals n ws"
    unfolding evals_Suc [OF Suc.prems] evals_def by (cases "replicate n ''eval'' @ ws") simp_all
  then show ?case using Suc by simp
qed (simp add: evals_def)


section \<open>Elevation and secrets are always seen\<close>

lemma script_commands_simple:
  assumes "simple_words ws" "ws \<noteq> []"
  shows "script_commands (join_with '' '' ws) cx = [\<lparr>cm_argv = ws, cm_redirects = []\<rparr>]"
  using simple_text_join [OF assms(1)]
  by (simp add: script_commands_def extract_heredocs_plain simple_text_plain extract_simple split_simple [OF assms])

lemma simple_elevates:
  assumes w: "simple_words ws" "elevating ws" and r: "classify_script k mc d (join_with '' '' ws) s = Inr s'"
  shows "elevated s'"
proof (cases "d \<le> MAX_DEPTH")
  case True
  have "ws \<noteq> []" using w(2) by (auto simp: elevating_def)
  then show ?thesis using script_elevates [OF _ _ True r] script_commands_simple [OF w(1)] w(2) by simp
next
  case False
  then obtain n where k: "k = Suc n" "deep_script (classify_script n mc) mc d (join_with '' '' ws) s = Inr s'"
    using r by (cases k) auto
  have ne: "ws \<noteq> []" using w(2) by (auto simp: elevating_def)
  have "run_each (classify_pipeline (classify_script n mc) mc [] d) [[\<lparr>cm_argv = ws, cm_redirects = []\<rparr>]]
      (on_acc (\<lambda>_. opaque ''nesting-too-deep'') s) = Inr s'"
    using k(2) unfolding deep_script_def flatten_simple [OF simple_text_join [OF w(1)]] split_simple [OF w(1) ne] Let_def by simp
  then have "classify_stages (classify_script n mc) mc [] d True [\<lparr>cm_argv = ws, cm_redirects = []\<rparr>] [] []
      (on_acc (\<lambda>_. opaque ''nesting-too-deep'') s) = Inr s'"
    by (simp add: classify_pipeline_def del: classify_stages.simps split: sum.splits)
  from stages_elevate [OF rising.script_R _ _ this] w(2) show ?thesis by simp
qed


definition sample_run :: guard_run where
  "sample_run = (make_ctx sample_machine ''/w'' ''/w'' None, empty_acc)"





lemma hit_survives:
  assumes "rises (cx, hit l r a) (cx', b)"
  shows "l \<le> ac_level b" "r \<in> set (ac_rules b)"
proof -
  have "r \<in> set (ac_rules (hit l r a))" by simp
  then show "r \<in> set (ac_rules b)" using assms set_mono_prefix unfolding rises_def snd_conv by blast
  have "l \<le> ac_level (hit l r a)" by simp
  then show "l \<le> ac_level b" using assms order_trans unfolding rises_def snd_conv by blast
qed

text \<open>
  C14: A file tool on a secret is critical. If any of the paths in the input of a read or write tool names, after the home directory, relative
  parts and dots are resolved, a credential store, the verdict is critical and names the rule, whatever the other paths are.
\<close>

theorem secret_paths_critical:
  assumes "py_lower (py_strip tool) \<in> set READ_TOOLS \<union> set WRITE_TOOLS" and "p \<in> set (tool_paths d)"
    and "resolve_path mc (make_ctx mc cwd ws prot) p = Some q" and "is_credential mc (make_ctx mc cwd ws prot) q"
  shows "\<exists>v. classify fuel mc tool (JDict d) cwd ws prot = Inr v \<and> vd_level v = Critical \<and> ''credential-access'' \<in> set (vd_rule_ids v)"
proof -
  let ?cx = "make_ctx mc cwd ws prot" and ?w = "py_lower (py_strip tool) \<in> set WRITE_TOOLS"
  have name: "py_lower (py_strip tool) \<noteq> ''prompt''" "py_lower (py_strip tool) \<notin> set SHELL_TOOLS"
    using assms(1) by (auto simp: READ_TOOLS_def WRITE_TOOLS_def SHELL_TOOLS_def)
  have rise: "rises (cx, a) (cx, foldl (check_tool_path mc ?cx ?w) a ps)" for cx a ps
    by (rule rising.adds_fold) (auto simp: check_tool_path_def rising.check_path_R rising.unjudged split: option.split)
  obtain ps qs where split: "tool_paths d = ps @ p # qs" using assms(2) by (metis split_list)
  let ?a = "foldl (check_tool_path mc ?cx ?w) empty_acc ps"
  have hit: "check_tool_path mc ?cx ?w ?a p = hit Critical ''credential-access'' ?a"
    using assms(3,4) by (simp add: check_tool_path_def check_path_def)
  have "rises (?cx, hit Critical ''credential-access'' ?a) (?cx, foldl (check_tool_path mc ?cx ?w) empty_acc (tool_paths d))"
    unfolding split foldl_append foldl_Cons hit by (rule rise)
  from hit_survives [OF this] have "ac_level (foldl (check_tool_path mc ?cx ?w) empty_acc (tool_paths d)) = Critical \<and>
      ''credential-access'' \<in> set (ac_rules (foldl (check_tool_path mc ?cx ?w) empty_acc (tool_paths d)))" by simp
  then show ?thesis using name assms(1) by (auto simp: classify_def Let_def verdict_of_def)
qed

lemma secret_paths_critical_witness:
  "\<exists>v. classify 0 sample_machine ''Read'' (JDict [(''path'', JStr ''../.ssh/id_rsa'')]) ''/home/u/w'' ''/home/u/w'' None = Inr v \<and>
     vd_level v = Critical \<and> ''credential-access'' \<in> set (vd_rule_ids v)"
proof (rule secret_paths_critical)
  show "py_lower (py_strip ''Read'') \<in> set READ_TOOLS \<union> set WRITE_TOOLS" by code_simp
  show "''../.ssh/id_rsa'' \<in> set (tool_paths [(''path'', JStr ''../.ssh/id_rsa'')])" by code_simp
  show "resolve_path sample_machine (make_ctx sample_machine ''/home/u/w'' ''/home/u/w'' None) ''../.ssh/id_rsa'' = Some ''/home/u/.ssh/id_rsa''"
    by code_simp
  show "is_credential sample_machine (make_ctx sample_machine ''/home/u/w'' ''/home/u/w'' None) ''/home/u/.ssh/id_rsa''" by code_simp
qed

text \<open>
  The same file behind two leading slashes, which the operating system reads as one, is graded normal: \<open>posixpath.normpath\<close> keeps
  exactly two of them, and the path is then not inside the home directory.
\<close>

lemma double_slash_escapes:
  "classify 0 sample_machine ''Read'' (JDict [(''path'', JStr ''//home/u/.ssh/id_rsa'')]) ''/home/u/w'' ''/home/u/w'' None =
   Inr \<lparr>vd_level = Normal, vd_rule_ids = [], vd_parseable = True\<rparr>"
  by code_simp

text \<open>A text that looks like a heredoc marker without its end makes the classifier raise.\<close>

lemma torn_marker_raises: "classify_script (Suc n) mc 0 (''cat <<'' @ HEREDOC) s = Inl MarkerMissing"
proof -
  have "heredoc_scan None False False [] hds (''cat <<'' @ HEREDOC) = NoMarkerEnd" for hds
    by (simp add: HEREDOC_def NUL_def BACKSLASH_def SQUOTE_def DQUOTE_def NEWLINE_def heredoc_head_def skip_blanks_def TAB_def word_start_def)
  then show ?thesis by (simp add: MAX_DEPTH_def flat_script_def cut_heredocs_def extract_heredocs_def)
qed


section \<open>Beyond the limit\<close>

text \<open>The guard with this classifier: what it raises is what makes an evaluation fail.\<close>

definition guard_classifier :: "nat \<Rightarrow> machine \<Rightarrow> string \<Rightarrow> string \<Rightarrow> tool_call \<Rightarrow> string list \<Rightarrow> verdict option" where
  "guard_classifier limit mc cwd ws c branches =
     (case classify limit mc (tc_tool c) (tc_input c) cwd ws (Some branches) of Inl _ \<Rightarrow> None | Inr v \<Rightarrow> Some v)"

definition eval_call :: "nat \<Rightarrow> string \<Rightarrow> tool_call" where
  "eval_call n src = \<lparr>tc_pane = ''p1'', tc_vendor = ''claude'', tc_tool = ''Bash'',
     tc_input = JDict [(''command'', JStr (evals n [''sudo'', ''id'']))], tc_source = src\<rparr>"

lemma bash_classify:
  assumes "t \<noteq> []" "length t \<le> MAX_COMMAND_CHARS"
  shows "classify limit mc ''Bash'' (JDict [(''command'', JStr t)]) cwd ws prot =
    (case classify_script limit mc 0 t (make_ctx mc cwd ws prot, empty_acc) of Inl e \<Rightarrow> Inl e | Inr (_, a) \<Rightarrow> Inr (verdict_of a))"
proof -
  have n: "py_lower (py_strip ''Bash'') = ''bash''" "''bash'' \<in> set SHELL_TOOLS" by code_simp+
  have c: "tool_command mc [(''command'', JStr t)] = Some t" by (simp add: tool_command_def)
  show ?thesis using assms unfolding classify_def Let_def n(1) using n(2) by (simp add: c)
qed

text \<open>
  C15: The limit can be exhausted by a command well under the length limit. \<open>eval eval ... eval sudo id\<close> with as many words
  \<open>eval\<close> as there are levels makes the classifier raise, so for a pane that is not the relay the guard allows it, although with fifteen
  levels more the same command is graded critical. The nesting limit of six does not stop the recursion.
\<close>

theorem nested_evals_disarm_guard:
  assumes "src \<noteq> ''relay''" and "limit \<le> 12798"
  shows "length (evals limit [''sudo'', ''id'']) = 5 * limit + 7 \<and>
    gd_action (snd (evaluate (guard_classifier limit mc cwd ws) py_str excerpt fl now (eval_call limit src) st)) = Allow \<and>
    (\<exists>v. classify (limit + 15) mc ''Bash'' (tc_input (eval_call limit src)) cwd ws prot = Inr v \<and> vd_level v = Critical)"
proof -
  let ?ws = "[''sudo'', ''id'']" and ?t = "evals limit [''sudo'', ''id'']"
  have w: "simple_words ?ws" "elevating ?ws" by code_simp+
  have len: "length ?t = 5 * limit + 7" using length_evals [of ?ws limit] by simp
  then have t: "?t \<noteq> []" "length ?t \<le> MAX_COMMAND_CHARS" using assms(2) by (auto simp: MAX_COMMAND_CHARS_def)
  note c = bash_classify [OF t]
  have "classify limit mc ''Bash'' (JDict [(''command'', JStr ?t)]) cwd ws p = Inl RecursionLimit" for p
    unfolding c evals_exhaust [OF w(1) list.distinct(2) order_refl] by simp
  then have "guard_classifier limit mc cwd ws (eval_call limit src) bs = None" for bs
    by (simp add: guard_classifier_def eval_call_def)
  then have "gd_action (snd (evaluate (guard_classifier limit mc cwd ws) py_str excerpt fl now (eval_call limit src) st)) = Allow"
    using assms(1) by (simp add: evaluate_def evaluate_inner_def Let_def eval_call_def)
  moreover have "\<exists>v. classify (limit + 15) mc ''Bash'' (tc_input (eval_call limit src)) cwd ws prot = Inr v \<and> vd_level v = Critical"
  proof -
    let ?s = "(make_ctx mc cwd ws prot, empty_acc)"
    obtain s1 where s1: "classify_script (limit + 15) mc 0 ?t ?s = classify_script 15 mc (0 + limit) (join_with '' '' ?ws) s1"
      using evals_reach [OF w(1) list.distinct(2)] by blast
    have "low (join_with '' '' ?ws) = 6" by code_simp
    then have "levels_needed (0 + limit) (join_with '' '' ?ws) \<le> 15" by (simp add: levels_needed_def MAX_DEPTH_def)
    then obtain cx a where r: "classify_script 15 mc (0 + limit) (join_with '' '' ?ws) s1 = Inr (cx, a)"
      using answersD [OF script_answers [OF simple_text_plain [OF simple_text_join [OF w(1)]]]] by (metis surj_pair)
    from simple_elevates [OF w r] s1 r c show ?thesis by (simp add: eval_call_def elevated_def verdict_of_def)
  qed
  ultimately show ?thesis using len by blast
qed

lemma nested_evals_disarm_guard_witness:
  "gd_action (snd (evaluate (guard_classifier 500 sample_machine ''/w'' ''/w'') (\<lambda>x. []) (\<lambda>x. []) no_faults 7 (eval_call 500 ''agent'') sample_guard)) = Allow"
  using nested_evals_disarm_guard [of "''agent''" 500 sample_machine "''/w''" "''/w''" "\<lambda>x. []" "\<lambda>x. []" no_faults 7 sample_guard None] by simp

end
