(* ===== verification/Guard_Canonical.thy ===== *)
theory Guard_Canonical
  imports Guard_Limits
begin

text \<open>
  The paths the guard compares are canonical: what \<open>_resolve\<close> returns is absolute, has no empty, \<open>.\<close> or \<open>..\<close> part after its
  root, and is left alone by normalising it again, so a rule that compares prefixes cannot be passed by with relative parts.
\<close>

section \<open>Parts\<close>

lemma split_on_free: "c \<notin> set s \<Longrightarrow> split_on c s = [s]"
  by (induction s) auto

lemma split_on_sep_free: "w \<in> set (split_on c s) \<Longrightarrow> c \<notin> set w"
proof (induction s arbitrary: w)
  case (Cons x xs)
  then show ?case by (cases "split_on c xs") (auto split: if_splits)
qed simp

lemma split_on_append: "c \<notin> set w \<Longrightarrow> split_on c (w @ c # s) = w # split_on c s"
  by (induction w) auto

lemma split_join: "ws \<noteq> [] \<Longrightarrow> (\<And>w. w \<in> set ws \<Longrightarrow> c \<notin> set w) \<Longrightarrow> split_on c (join_with [c] ws) = ws"
  by (induction ws rule: induct_list012) (simp_all add: split_on_free split_on_append)

definition part_ok :: "string \<Rightarrow> bool" where
  "part_ok p = (p \<noteq> [] \<and> p \<noteq> ''.'' \<and> p \<noteq> ''..'' \<and> SLASH \<notin> set p)"

lemma keep_comp_ok:
  assumes "list_all part_ok kept" "SLASH \<notin> set part"
  shows "list_all part_ok (keep_comp True kept part)"
  using assms by (auto simp: keep_comp_def part_ok_def list_all_iff dest: in_set_butlastD)
    (use last_in_set in \<open>fastforce\<close>)?

lemma comps_ok:
  assumes "\<And>w. w \<in> set ps \<Longrightarrow> SLASH \<notin> set w" "list_all part_ok kept"
  shows "list_all part_ok (foldl (keep_comp True) kept ps)"
  using assms by (induction ps arbitrary: kept) (auto intro: keep_comp_ok)

lemma comps_fixed: "list_all part_ok ps \<Longrightarrow> foldl (keep_comp True) kept ps = kept @ ps"
  by (induction ps arbitrary: kept) (simp_all add: keep_comp_def part_ok_def)

definition slash_count :: "string \<Rightarrow> nat" where
  "slash_count p = (if prefix ''//'' p \<and> \<not> prefix ''///'' p then 2 else 1)"

text \<open>An absolute path in normal form: one slash, or exactly two, and its parts.\<close>

definition canonical :: "string \<Rightarrow> bool" where
  "canonical p = (\<exists>n ps. n \<in> {1, 2} \<and> list_all part_ok ps \<and> p = replicate n SLASH @ join_with [SLASH] ps)"

lemma join_head: "list_all part_ok ps \<Longrightarrow> ps \<noteq> [] \<Longrightarrow> \<exists>c r. join_with [SLASH] ps = c # r \<and> c \<noteq> SLASH"
proof (induction ps rule: induct_list012)
  case (2 p)
  then show ?case by (cases p) (auto simp: part_ok_def)
next
  case (3 p q ps)
  then show ?case by (cases p) (auto simp: part_ok_def)
qed simp

lemma canonical_slashes:
  assumes "n \<in> {1, 2}" "list_all part_ok ps"
  shows "initial_slashes (replicate n SLASH @ join_with [SLASH] ps) = n"
proof (cases "ps = []")
  case True
  then show ?thesis using assms(1) by (auto simp: initial_slashes_def SLASH_def numeral_2_eq_2)
next
  case False
  obtain c r where "join_with [SLASH] ps = c # r" "c \<noteq> SLASH" using join_head [OF assms(2) False] by blast
  then show ?thesis using assms(1) by (auto simp: initial_slashes_def SLASH_def numeral_2_eq_2)
qed

lemma normpath_canonical:
  assumes "prefix ''/'' p"
  shows "canonical (normpath p)"
proof -
  have n: "initial_slashes p \<in> {1, 2}" using assms by (auto simp: initial_slashes_def)
  have ok: "list_all part_ok (foldl (keep_comp True) [] (split_on SLASH p))"
    by (rule comps_ok) (auto dest: split_on_sep_free)
  have "p \<noteq> []" using assms by auto
  then have "normpath p = replicate (initial_slashes p) SLASH @ join_with [SLASH] (foldl (keep_comp True) [] (split_on SLASH p))"
    using n by (auto simp: normpath_def Let_def)
  with n ok show ?thesis unfolding canonical_def by blast
qed

lemma canonical_parts:
  assumes "n \<in> {1, 2}" "list_all part_ok ps"
  shows "split_on SLASH (replicate n SLASH @ join_with [SLASH] ps) = replicate n [] @ (if ps = [] then [[]] else ps)"
proof -
  have "split_on SLASH (join_with [SLASH] ps) = (if ps = [] then [[]] else ps)"
    using assms(2) split_join [of ps SLASH] by (auto simp: list_all_iff part_ok_def)
  then show ?thesis using assms(1) by (auto simp: numeral_2_eq_2)
qed

lemma normpath_fixed:
  assumes "canonical p"
  shows "normpath p = p"
proof -
  obtain n ps where p: "n \<in> {1, 2}" "list_all part_ok ps" "p = replicate n SLASH @ join_with [SLASH] ps"
    using assms by (auto simp: canonical_def)
  have e: "keep_comp True ks [] = ks" for ks by (simp add: keep_comp_def)
  have "foldl (keep_comp True) [] (split_on SLASH p) = ps"
    unfolding p(3) canonical_parts [OF p(1,2)] using p(1) comps_fixed [OF p(2), of "[]"] by (auto simp: e numeral_2_eq_2)
  moreover have "initial_slashes p = n" unfolding p(3) by (rule canonical_slashes [OF p(1,2)])
  moreover have "p \<noteq> []" using p(1,3) by auto
  ultimately show ?thesis using p(1,3) by (auto simp: normpath_def Let_def)
qed


section \<open>Case folding\<close>

lemma lower_char_code:
  "of_char (lower_char c) = (let n = of_char c :: nat in if (65 \<le> n \<and> n \<le> 90) \<or> (192 \<le> n \<and> n \<le> 222 \<and> n \<noteq> 215) then n + 32 else n)"
  by (auto simp: lower_char_def Let_def)

lemma lower_char_keeps: "lower_char c = SLASH \<longleftrightarrow> c = SLASH" "lower_char c = CHR ''.'' \<longleftrightarrow> c = CHR ''.''"
proof -
  have eq: "a = b \<longleftrightarrow> (of_char a :: nat) = of_char b" for a b :: char by (metis char_of_char)
  show "lower_char c = SLASH \<longleftrightarrow> c = SLASH" "lower_char c = CHR ''.'' \<longleftrightarrow> c = CHR ''.''"
    unfolding eq [of "lower_char c"] eq [of c] lower_char_code by (auto simp: Let_def SLASH_def)
qed

lemma py_lower_part: "part_ok p \<Longrightarrow> part_ok (py_lower p)"
proof -
  have sl: "SLASH \<in> set (py_lower p) \<longleftrightarrow> SLASH \<in> set p"
    by (induction p) (auto simp: py_lower_def lower_char_keeps eq_commute [of SLASH])
  have dots: "py_lower p = ''.'' \<longleftrightarrow> p = ''.''" "py_lower p = ''..'' \<longleftrightarrow> p = ''..''"
    by (auto simp: py_lower_def map_eq_Cons_conv lower_char_keeps)
  show "part_ok p \<Longrightarrow> part_ok (py_lower p)" using sl dots by (auto simp: part_ok_def py_lower_def)
qed

lemma py_lower_join: "py_lower (join_with [SLASH] ps) = join_with [SLASH] (map py_lower ps)"
  by (induction ps rule: induct_list012) (simp_all add: py_lower_def lower_char_keeps)

lemma canonical_fold: "canonical p \<Longrightarrow> canonical (fold_path mc p)"
proof -
  assume "canonical p"
  then obtain n ps where p: "n \<in> {1, 2}" "list_all part_ok ps" "p = replicate n SLASH @ join_with [SLASH] ps"
    by (auto simp: canonical_def)
  have s: "lower_char SLASH = SLASH" using lower_char_keeps by blast
  have "py_lower p = replicate n SLASH @ join_with [SLASH] (map py_lower ps)"
    unfolding p(3) using py_lower_join [of ps] s by (simp add: py_lower_def map_replicate_const)
  moreover have "list_all part_ok (map py_lower ps)" using p(2) py_lower_part by (auto simp: list_all_iff)
  ultimately have "canonical (py_lower p)" using p(1) unfolding canonical_def by blast
  then show ?thesis using \<open>canonical p\<close> by (simp add: fold_path_def)
qed


section \<open>Resolved paths\<close>

lemma norm_canonical: "prefix ''/'' p \<Longrightarrow> canonical (norm_path mc p)"
  by (cases p) (simp_all add: norm_path_def canonical_fold normpath_canonical)



end
