(* ===== verification/Device_Pairing.thy ===== *)
theory Device_Pairing
  imports Py_Prelude
begin

text \<open>
  \<open>backend/agent_team_backend/device_pairing.py\<close>: the exchange by which two machines learn each other's keys from one code that two
  people compare. The state is the dictionary of exchanges in flight, one per device. The clock and the random nonces are arguments of
  each operation, the first four bytes of SHA-256 (read as a number) an argument of the code.
\<close>

section \<open>Exchanges\<close>

datatype pair_state = AwaitingResponse | AwaitingLocal | AwaitingRemote

datatype pair_role = Initiator | Responder

record pairing =
  pr_device :: string
  pr_name :: string
  pr_role :: pair_role
  pr_state :: pair_state
  pr_their_key :: string
  pr_our_nonce :: string
  pr_their_enc :: string
  pr_their_nonce :: string
  pr_started :: rat
  pr_deadline :: rat
  pr_extended :: bool
  pr_we_confirmed :: bool
  pr_peer_confirmed :: bool

definition REQUEST_TTL_S :: rat where "REQUEST_TTL_S = 300"

text \<open>\<open>Pairing.expired\<close>, \<open>extend_once\<close> and \<open>__post_init__\<close>.\<close>

definition pair_expired :: "rat \<Rightarrow> pairing \<Rightarrow> bool" where
  "pair_expired now p = (pr_deadline p < now)"

definition extend_once :: "rat \<Rightarrow> pairing \<Rightarrow> pairing" where
  "extend_once now p = (if pr_extended p then p else p\<lparr>pr_extended := True, pr_deadline := now + REQUEST_TTL_S\<rparr>)"

definition new_pairing :: "string \<Rightarrow> string \<Rightarrow> pair_role \<Rightarrow> pair_state \<Rightarrow> string \<Rightarrow> string \<Rightarrow> string \<Rightarrow> string \<Rightarrow> rat \<Rightarrow> pairing" where
  "new_pairing dev name role st key enc nonce their_nonce started =
     \<lparr>pr_device = dev, pr_name = name, pr_role = role, pr_state = st, pr_their_key = key, pr_our_nonce = nonce, pr_their_enc = enc,
      pr_their_nonce = their_nonce, pr_started = started, pr_deadline = started + REQUEST_TTL_S, pr_extended = False,
      pr_we_confirmed = False, pr_peer_confirmed = False\<rparr>"


section \<open>The code\<close>

definition ENVELOPE_MARKER :: string where "ENVELOPE_MARKER = ''navide/pair/v1''"

definition PAIR_KINDS :: "string list" where
  "PAIR_KINDS = [''pair-request'', ''pair-response'', ''pair-confirm'', ''pair-reject'', ''pair-revoked'', ''sync-key-request'', ''sync-key-offer'']"

text \<open>
  \<open>envelope\<close> writes the object of a frame; only its kind is checked. \<open>parse\<close> reads one back, with \<open>json.loads\<close> as an argument. The test
  \<open>kind not in PAIR_KINDS\<close> hashes the value, so a list or an object there raises.
\<close>

definition envelope :: "string \<Rightarrow> (string \<times> string) list \<Rightarrow> jval option" where
  "envelope kind extra =
     (if kind \<in> set PAIR_KINDS
      then Some (JDict ((''marker'', JStr ENVELOPE_MARKER) # (''kind'', JStr kind) # map (\<lambda>(k, v). (k, JStr v)) extra)) else None)"

datatype parsed_frame = NotAFrame | Frame "(string \<times> jval) list" | FrameUnhashable

definition parse_frame :: "(string \<Rightarrow> jval option) \<Rightarrow> jval \<Rightarrow> parsed_frame" where
  "parse_frame loads v =
     (case v of
        JStr t \<Rightarrow>
          (if \<not> py_in ENVELOPE_MARKER t then NotAFrame
           else case loads t of
             Some (JDict d) \<Rightarrow>
               (if jget d ''marker'' \<noteq> JStr ENVELOPE_MARKER then NotAFrame
                else case jget d ''kind'' of
                  JStr k \<Rightarrow> if k \<in> set PAIR_KINDS then Frame d else NotAFrame
                | JList _ \<Rightarrow> FrameUnhashable
                | JDict _ \<Rightarrow> FrameUnhashable
                | _ \<Rightarrow> NotAFrame)
           | _ \<Rightarrow> NotAFrame)
      | _ \<Rightarrow> NotAFrame)"

definition zeros_to :: "nat \<Rightarrow> string \<Rightarrow> string" where
  "zeros_to n s = replicate (n - length s) CHR ''0'' @ s"

definition sas_payload :: "string \<times> string \<times> string \<Rightarrow> string \<times> string \<times> string \<Rightarrow> string" where
  "sas_payload x y =
     (case x of (k1, e1, n1) \<Rightarrow> case y of (k2, e2, n2) \<Rightarrow> join_with [CHR 0x00] [ENVELOPE_MARKER, k1, k2, e1, e2, n1, n2])"

definition sas_order :: "string \<times> string \<times> string \<Rightarrow> string \<times> string \<times> string \<Rightarrow> (string \<times> string \<times> string) \<times> (string \<times> string \<times> string)" where
  "sas_order a b = (if fst a \<le> fst b then (a, b) else (b, a))"

definition code_text :: "nat \<Rightarrow> string" where
  "code_text n = (let t = zeros_to 6 (nat_str (n mod 1000000)) in take 3 t @ '' '' @ drop 3 t)"

definition sas :: "(string \<Rightarrow> nat) \<Rightarrow> string \<times> string \<times> string \<Rightarrow> string \<times> string \<times> string \<Rightarrow> string" where
  "sas digest a b =
     (case a of (ka, ea, na) \<Rightarrow> case b of (kb, eb, nb) \<Rightarrow>
        if ka = [] \<or> kb = [] \<or> ea = [] \<or> eb = [] \<or> na = [] \<or> nb = [] then []
        else code_text (digest (case sas_order a b of (x, y) \<Rightarrow> sas_payload x y)))"

definition code_for :: "(string \<Rightarrow> nat) \<Rightarrow> string \<Rightarrow> string \<Rightarrow> pairing \<Rightarrow> string" where
  "code_for digest our_key our_enc p =
     sas digest (our_key, our_enc, pr_our_nonce p) (pr_their_key p, pr_their_enc p, pr_their_nonce p)"


section \<open>Operations\<close>

type_synonym pairings = "(string \<times> pairing) list"

datatype pair_error = InProgress | NotInProgress | WrongState pair_state | NoKeyOrNonce | NoEncKey | NoNonce | OtherSignKey | OtherEncKey

definition pair_sweep :: "rat \<Rightarrow> pairings \<Rightarrow> pairings" where
  "pair_sweep now ps = filter (\<lambda>(dev, p). \<not> pair_expired now p) ps"

definition pair_get :: "rat \<Rightarrow> string \<Rightarrow> pairings \<Rightarrow> pairings \<times> pairing option" where
  "pair_get now dev ps = (let ps1 = pair_sweep now ps in (ps1, dget ps1 dev))"

definition pair_active :: "rat \<Rightarrow> pairings \<Rightarrow> pairings \<times> pairing list" where
  "pair_active now ps = (let ps1 = pair_sweep now ps in (ps1, map snd ps1))"

definition pair_begin :: "rat \<Rightarrow> rat \<Rightarrow> string \<Rightarrow> string \<Rightarrow> string \<Rightarrow> string \<Rightarrow> string \<Rightarrow> pairings \<Rightarrow> pairings \<times> (pair_error + pairing)" where
  "pair_begin now started nonce dev name key enc ps =
     (let ps1 = pair_sweep now ps in
      if has_key dev ps1 then (ps1, Inl InProgress)
      else (let p = new_pairing dev name Initiator AwaitingResponse key enc nonce [] started in (dset dev p ps1, Inr p)))"

definition accept_request ::
    "rat \<Rightarrow> rat \<Rightarrow> string \<Rightarrow> string \<Rightarrow> string \<Rightarrow> string \<Rightarrow> string \<Rightarrow> string \<Rightarrow> pairings \<Rightarrow> pairings \<times> (pair_error + pairing)" where
  "accept_request now started nonce dev name key enc their_nonce ps =
     (if key = [] \<or> their_nonce = [] then (ps, Inl NoKeyOrNonce)
      else if enc = [] then (ps, Inl NoEncKey)
      else
        (let ps1 = pair_sweep now ps in
         if has_key dev ps1 then (ps1, Inl InProgress)
         else (let p = extend_once now (new_pairing dev name Responder AwaitingLocal key enc nonce their_nonce started)
               in (dset dev p ps1, Inr p))))"

definition accept_response ::
    "rat \<Rightarrow> rat \<Rightarrow> string \<Rightarrow> string \<Rightarrow> string \<Rightarrow> string \<Rightarrow> pairings \<Rightarrow> pairings \<times> (pair_error + pairing)" where
  "accept_response now later dev key enc their_nonce ps =
     (let ps1 = pair_sweep now ps in
      case dget ps1 dev of
        None \<Rightarrow> (ps1, Inl NotInProgress)
      | Some p \<Rightarrow>
          if pr_state p \<noteq> AwaitingResponse then (ps1, Inl (WrongState (pr_state p)))
          else if their_nonce = [] then (ps1, Inl NoNonce)
          else if pr_their_key p \<noteq> [] \<and> key \<noteq> [] \<and> key \<noteq> pr_their_key p then (ps1, Inl OtherSignKey)
          else if enc = [] then (ps1, Inl NoEncKey)
          else if pr_their_enc p \<noteq> [] \<and> enc \<noteq> pr_their_enc p then (ps1, Inl OtherEncKey)
          else
            (let q = extend_once later
                   (p\<lparr>pr_their_key := (if pr_their_key p \<noteq> [] then pr_their_key p else key),
                      pr_their_enc := (if pr_their_enc p \<noteq> [] then pr_their_enc p else enc),
                      pr_their_nonce := their_nonce, pr_state := AwaitingLocal\<rparr>)
             in (dset dev q ps1, Inr q)))"

definition pair_confirm :: "rat \<Rightarrow> string \<Rightarrow> pairings \<Rightarrow> pairings \<times> (pair_error + pairing)" where
  "pair_confirm now dev ps =
     (let ps1 = pair_sweep now ps in
      case dget ps1 dev of
        None \<Rightarrow> (ps1, Inl NotInProgress)
      | Some p \<Rightarrow>
          if pr_state p \<noteq> AwaitingLocal then (ps1, Inl (WrongState (pr_state p)))
          else (let q = p\<lparr>pr_we_confirmed := True, pr_state := AwaitingRemote\<rparr> in (dset dev q ps1, Inr q)))"

definition note_peer_confirmed :: "rat \<Rightarrow> string \<Rightarrow> pairings \<Rightarrow> pairings \<times> pairing option" where
  "note_peer_confirmed now dev ps =
     (let ps1 = pair_sweep now ps in
      case dget ps1 dev of
        None \<Rightarrow> (ps1, None)
      | Some p \<Rightarrow> (let q = p\<lparr>pr_peer_confirmed := True\<rparr> in (dset dev q ps1, Some q)))"

definition pair_complete :: "rat \<Rightarrow> string \<Rightarrow> pairings \<Rightarrow> pairings \<times> pairing option" where
  "pair_complete now dev ps =
     (let ps1 = pair_sweep now ps in
      case dget ps1 dev of
        None \<Rightarrow> (ps1, None)
      | Some p \<Rightarrow> if pr_we_confirmed p \<and> pr_peer_confirmed p then (dpop dev ps1, Some p) else (ps1, None))"

definition pair_cancel :: "string \<Rightarrow> pairings \<Rightarrow> pairings \<times> pairing option" where
  "pair_cancel dev ps = (dpop dev ps, dget ps dev)"


section \<open>Runs\<close>

datatype pair_op =
    GetPairing rat string
  | ListActive rat
  | BeginPairing rat rat string string string string string
  | AcceptRequest rat rat string string string string string string
  | AcceptResponse rat rat string string string string
  | ConfirmPairing rat string
  | PeerConfirmed rat string
  | CompletePairing rat string
  | CancelPairing string

fun pair_step :: "pairings \<Rightarrow> pair_op \<Rightarrow> pairings" where
  "pair_step ps (GetPairing now dev) = fst (pair_get now dev ps)"
| "pair_step ps (ListActive now) = fst (pair_active now ps)"
| "pair_step ps (BeginPairing now started nonce dev name key enc) = fst (pair_begin now started nonce dev name key enc ps)"
| "pair_step ps (AcceptRequest now started nonce dev name key enc tn) = fst (accept_request now started nonce dev name key enc tn ps)"
| "pair_step ps (AcceptResponse now later dev key enc tn) = fst (accept_response now later dev key enc tn ps)"
| "pair_step ps (ConfirmPairing now dev) = fst (pair_confirm now dev ps)"
| "pair_step ps (PeerConfirmed now dev) = fst (note_peer_confirmed now dev ps)"
| "pair_step ps (CompletePairing now dev) = fst (pair_complete now dev ps)"
| "pair_step ps (CancelPairing dev) = fst (pair_cancel dev ps)"

end
