(* ===== verification/Pairing_Facts.thy ===== *)
theory Pairing_Facts
  imports Device_Pairing
begin

text \<open>
  What the pairing exchange promises: the six digits bind the keys of both ends, an exchange completes only after the person at
  this machine has confirmed the digits of the very keys it completes with, and no frame prolongs an exchange whose digits are on a screen.
\<close>

section \<open>The digits are a number\<close>

definition digits_value :: "string \<Rightarrow> int" where
  "digits_value s = foldl (\<lambda>a c. 10 * a + (of_char c - 48)) 0 s"

lemma digits_value_snoc: "digits_value (s @ [c]) = 10 * digits_value s + (of_char c - 48)"
  by (simp add: digits_value_def)

lemma digits_value_int: "0 \<le> i \<Longrightarrow> digits_value (int_digits i) = i"
proof (induction i rule: int_digits.induct)
  case (1 i)
  show ?case
  proof (cases "i < 10")
    case True
    with 1(2) show ?thesis using digits_value_snoc [of "[]" "char_of (i + 48)"]
      by (subst int_digits.simps) (simp add: digits_value_def)
  next
    case False
    then have "digits_value (int_digits (i div 10)) = i div 10" using 1 by simp
    moreover have "(i mod 10 + 48) mod 256 = i mod 10 + 48" by (rule mod_pos_pos_trivial) (simp_all add: pos_mod_bound add.commute)
    ultimately show ?thesis using False
      by (subst int_digits.simps) (simp add: digits_value_snoc)
  qed
qed

lemma digits_value_zeros: "digits_value (replicate k CHR ''0'' @ s) = digits_value s"
  by (induction k) (simp_all add: digits_value_def)

lemma digits_value_text: "digits_value (zeros_to n (nat_str m)) = int m"
  by (simp add: zeros_to_def digits_value_zeros nat_str_def digits_value_int)

lemma length_int_digits: "0 \<le> i \<Longrightarrow> i < 10 ^ n \<Longrightarrow> 0 < n \<Longrightarrow> length (int_digits i) \<le> n"
proof (induction i arbitrary: n rule: int_digits.induct)
  case (1 i)
  show ?case
  proof (cases "i < 10")
    case True
    with 1(4) show ?thesis by (subst int_digits.simps) simp
  next
    case False
    then obtain m where m: "n = Suc m" "0 < m" using 1(3,4) by (cases n; cases "n = 1") auto
    then have "i div 10 < 10 ^ m" using 1(3) by simp
    from 1(1) [OF False _ this m(2)] False m(1) show ?thesis by (subst int_digits.simps) simp
  qed
qed

lemma code_length: "length (code_text n) = 7"
proof -
  have "length (nat_str (n mod 1000000)) \<le> 6"
    using length_int_digits [of "int (n mod 1000000)" 6] by (simp add: nat_str_def zmod_int)
  then show ?thesis by (simp add: code_text_def Let_def zeros_to_def)
qed

lemma code_text_inj: "code_text m = code_text n \<Longrightarrow> m mod 1000000 = n mod 1000000"
proof -
  let ?t = "\<lambda>k. zeros_to 6 (nat_str (k mod 1000000))"
  assume e: "code_text m = code_text n"
  have len: "length (?t k) = 6" for k
    using length_int_digits [of "int (k mod 1000000)" 6] by (simp add: nat_str_def zmod_int zeros_to_def)
  from e have "take 3 (?t m) = take 3 (?t n)" "drop 3 (?t m) = drop 3 (?t n)"
    using len by (simp_all add: code_text_def Let_def)
  then have "?t m = ?t n" by (metis append_take_drop_id)
  then have "int (m mod 1000000) = int (n mod 1000000)" by (metis digits_value_text)
  then show ?thesis by simp
qed


section \<open>What the digits cover\<close>

abbreviation nul_free :: "string \<Rightarrow> bool" where
  "nul_free s \<equiv> CHR 0x00 \<notin> set s"

lemma nul_split: "nul_free a \<Longrightarrow> nul_free b \<Longrightarrow> a @ CHR 0x00 # u = b @ CHR 0x00 # v \<longleftrightarrow> a = b \<and> u = v"
  by (induction a arbitrary: b) (case_tac b; auto)+

lemma payload_text: "sas_payload (k1, e1, n1) (k2, e2, n2) =
    ENVELOPE_MARKER @ [CHR 0x00] @ k1 @ CHR 0x00 # k2 @ CHR 0x00 # e1 @ CHR 0x00 # e2 @ CHR 0x00 # n1 @ CHR 0x00 # n2"
  by (simp add: sas_payload_def)

text \<open>The payload determines the keys when these hold no zero byte, and everything else when nothing does.\<close>

lemma payload_keys:
  assumes "nul_free k1" "nul_free k2" "nul_free k1'" "nul_free k2'"
  shows "sas_payload (k1, e1, n1) (k2, e2, n2) = sas_payload (k1', e1', n1') (k2', e2', n2') \<longleftrightarrow>
     k1 = k1' \<and> k2 = k2' \<and> e1 @ CHR 0x00 # e2 @ CHR 0x00 # n1 @ CHR 0x00 # n2 = e1' @ CHR 0x00 # e2' @ CHR 0x00 # n1' @ CHR 0x00 # n2'"
  using assms by (simp add: payload_text nul_split)

lemma payload_rest:
  assumes "nul_free e1" "nul_free e2" "nul_free n1" "nul_free e1'" "nul_free e2'" "nul_free n1'"
  shows "e1 @ CHR 0x00 # e2 @ CHR 0x00 # n1 @ CHR 0x00 # n2 = e1' @ CHR 0x00 # e2' @ CHR 0x00 # n1' @ CHR 0x00 # n2' \<longleftrightarrow>
     e1 = e1' \<and> e2 = e2' \<and> n1 = n1' \<and> n2 = n2'"
  using assms by (simp add: nul_split)

definition sas_material :: "string \<times> string \<times> string \<Rightarrow> string \<times> string \<times> string \<Rightarrow> string" where
  "sas_material a b = (case sas_order a b of (x, y) \<Rightarrow> sas_payload x y)"

lemma sas_nonempty: "sas digest a b \<noteq> [] \<Longrightarrow> sas digest a b = code_text (digest (sas_material a b))"
  by (auto simp: sas_def sas_material_def split: prod.splits if_splits)

lemma same_code_same_digest:
  assumes "sas digest a b = sas digest c d" "sas digest a b \<noteq> []"
  shows "digest (sas_material a b) mod 1000000 = digest (sas_material c d) mod 1000000"
proof -
  have "code_text (digest (sas_material a b)) = code_text (digest (sas_material c d))"
    using assms sas_nonempty [of digest a b] sas_nonempty [of digest c d] by simp
  then show ?thesis by (rule code_text_inj)
qed

text \<open>Two machines with different keys that work on the same material have each other's keys, whatever the rest of it is.\<close>

lemma material_cases:
  "sas_material (ka, ea, na) (kb, eb, nb) =
     (if ka \<le> kb then sas_payload (ka, ea, na) (kb, eb, nb) else sas_payload (kb, eb, nb) (ka, ea, na))"
  by (simp add: sas_material_def sas_order_def)

lemma same_material_keys:
  assumes "sas_material (kA, eA, nA) (k1, e1, n1) = sas_material (kB, eB, nB) (k2, e2, n2)"
    and nf: "nul_free kA" "nul_free k1" "nul_free kB" "nul_free k2" and ne: "kA \<noteq> kB"
  shows "k1 = kB \<and> k2 = kA"
proof (cases "kA \<le> k1"; cases "kB \<le> k2")
qed (use assms(1) ne in \<open>simp_all add: material_cases payload_keys [OF nf(1,2) nf(3,4)] payload_keys [OF nf(1,2) nf(4,3)]
    payload_keys [OF nf(2,1) nf(3,4)] payload_keys [OF nf(2,1) nf(4,3)]\<close>)

lemma same_material_all:
  assumes e: "sas_material (kA, eA, nA) (k1, e1, n1) = sas_material (kB, eB, nB) (k2, e2, n2)"
    and nf: "nul_free kA" "nul_free k1" "nul_free kB" "nul_free k2"
      "nul_free eA" "nul_free e1" "nul_free eB" "nul_free e2" "nul_free nA" "nul_free n1" "nul_free nB" "nul_free n2"
    and ne: "kA \<noteq> kB"
  shows "(k1, e1, n1) = (kB, eB, nB) \<and> (k2, e2, n2) = (kA, eA, nA)"
proof -
  have k: "k1 = kB" "k2 = kA" using same_material_keys [OF e nf(1-4) ne] by simp_all
  show ?thesis
  proof (cases "kA \<le> kB")
    case True
    with ne have "\<not> kB \<le> kA" by simp
    with True e show ?thesis using nf ne by (simp add: k material_cases payload_keys payload_rest)
  next
    case False
    then have "kB \<le> kA" by simp
    with False e show ?thesis using nf ne by (simp add: k material_cases payload_keys payload_rest)
  qed
qed

lemma material_symmetric: "fst a \<noteq> fst b \<Longrightarrow> sas_material a b = sas_material b a"
  by (cases a; cases b) (auto simp: material_cases)

lemma sas_symmetric: "fst a \<noteq> fst b \<Longrightarrow> sas digest a b = sas digest b a"
  using material_symmetric [of a b] by (cases a; cases b) (auto simp: sas_def sas_material_def)


section \<open>What one operation does to one exchange\<close>

text \<open>An exchange that an operation creates, and the three ways in which one changes an exchange in flight.\<close>

fun pair_fresh :: "pair_op \<Rightarrow> string \<Rightarrow> pairing \<Rightarrow> bool" where
  "pair_fresh (BeginPairing now started nonce d name key enc) dev q =
     (d = dev \<and> q = new_pairing dev name Initiator AwaitingResponse key enc nonce [] started)"
| "pair_fresh (AcceptRequest now started nonce d name key enc tn) dev q =
     (d = dev \<and> key \<noteq> [] \<and> enc \<noteq> [] \<and> tn \<noteq> [] \<and>
      q = extend_once now (new_pairing dev name Responder AwaitingLocal key enc nonce tn started))"
| "pair_fresh _ dev q = False"

definition answered :: "rat \<Rightarrow> string \<Rightarrow> string \<Rightarrow> string \<Rightarrow> pairing \<Rightarrow> pairing" where
  "answered later key enc tn p = extend_once later
     (p\<lparr>pr_their_key := (if pr_their_key p \<noteq> [] then pr_their_key p else key),
        pr_their_enc := (if pr_their_enc p \<noteq> [] then pr_their_enc p else enc),
        pr_their_nonce := tn, pr_state := AwaitingLocal\<rparr>)"

fun pair_moves :: "pair_op \<Rightarrow> string \<Rightarrow> pairing \<Rightarrow> pairing \<Rightarrow> bool" where
  "pair_moves (AcceptResponse now later d key enc tn) dev p q =
     (d = dev \<and> pr_state p = AwaitingResponse \<and> tn \<noteq> [] \<and> enc \<noteq> [] \<and> (pr_their_key p = [] \<or> key = [] \<or> key = pr_their_key p) \<and>
      (pr_their_enc p = [] \<or> enc = pr_their_enc p) \<and> q = answered later key enc tn p)"
| "pair_moves (ConfirmPairing now d) dev p q =
     (d = dev \<and> \<not> pair_expired now p \<and> pr_state p = AwaitingLocal \<and> q = p\<lparr>pr_we_confirmed := True, pr_state := AwaitingRemote\<rparr>)"
| "pair_moves (PeerConfirmed now d) dev p q = (d = dev \<and> q = p\<lparr>pr_peer_confirmed := True\<rparr>)"
| "pair_moves _ dev p q = False"

lemma sweep_get: "distinct (keys ps) \<Longrightarrow> dget (pair_sweep now ps) dev =
    (case dget ps dev of None \<Rightarrow> None | Some p \<Rightarrow> if pair_expired now p then None else Some p)"
  unfolding pair_sweep_def by (subst dget_filter_val) (auto split: option.split)

lemma sweep_distinct [intro]: "distinct (keys ps) \<Longrightarrow> distinct (keys (pair_sweep now ps))"
  unfolding pair_sweep_def by (rule distinct_keys_filter)

lemmas pair_op_defs = pair_get_def pair_active_def pair_begin_def accept_request_def accept_response_def pair_confirm_def
  note_peer_confirmed_def pair_complete_def pair_cancel_def

lemma pair_step_distinct: "distinct (keys ps) \<Longrightarrow> distinct (keys (pair_step ps op))"
  by (cases op) (auto simp: pair_op_defs Let_def split: option.split)

lemma swept: "distinct (keys ps) \<Longrightarrow> dget (pair_sweep now ps) d = Some p \<Longrightarrow> dget ps d = Some p \<and> \<not> pair_expired now p"
  by (simp add: sweep_get split: option.splits if_splits)

lemma response_view:
  "distinct (keys ps) \<Longrightarrow> dget (fst (accept_response now later d key enc tn ps)) dev = Some q \<Longrightarrow>
   \<exists>p. dget ps dev = Some p \<and> (q = p \<or> pair_moves (AcceptResponse now later d key enc tn) dev p q)"
  unfolding accept_response_def Let_def answered_def [symmetric] by (auto dest: swept split: option.splits if_splits)

lemma pair_step_view:
  assumes "distinct (keys ps)" and "dget (pair_step ps op) dev = Some q"
  shows "pair_fresh op dev q \<or> (\<exists>p. dget ps dev = Some p \<and> (q = p \<or> pair_moves op dev p q))"
proof (cases op)
  case (AcceptResponse now later d key enc tn)
  with assms(2) show ?thesis using response_view [OF assms(1)] by auto
qed (use assms in \<open>auto simp: pair_get_def pair_active_def pair_begin_def accept_request_def pair_confirm_def note_peer_confirmed_def
    pair_complete_def pair_cancel_def Let_def dest: swept split: option.splits if_splits\<close>)

interpretation pair_sm: state_machine "[]" pair_step "\<lambda>ps. distinct (keys ps)"
  by unfold_locales (simp_all add: pair_step_distinct)

definition pair_ok :: "string \<Rightarrow> pairing \<Rightarrow> bool" where
  "pair_ok dev p =
     (pr_device p = dev \<and> (pr_we_confirmed p \<longleftrightarrow> pr_state p = AwaitingRemote) \<and> (pr_extended p \<longleftrightarrow> pr_state p \<noteq> AwaitingResponse) \<and>
      (pr_their_nonce p \<noteq> [] \<longleftrightarrow> pr_state p \<noteq> AwaitingResponse) \<and> (pr_state p \<noteq> AwaitingResponse \<longrightarrow> pr_their_enc p \<noteq> []) \<and>
      (pr_role p = Responder \<longrightarrow> pr_state p \<noteq> AwaitingResponse \<and> pr_their_key p \<noteq> []))"

lemma fresh_ok: "pair_fresh op dev q \<Longrightarrow> pair_ok dev q"
  by (cases op) (auto simp: pair_ok_def new_pairing_def extend_once_def)

lemma moves_ok: "pair_moves op dev p q \<Longrightarrow> pair_ok dev p \<Longrightarrow> pair_ok dev q"
  by (cases op) (auto simp: pair_ok_def answered_def extend_once_def)

definition pair_inv :: "pairings \<Rightarrow> bool" where
  "pair_inv ps = (distinct (keys ps) \<and> (\<forall>dev p. dget ps dev = Some p \<longrightarrow> pair_ok dev p))"

lemma pair_inv_step:
  assumes "pair_inv ps"
  shows "pair_inv (pair_step ps op)"
proof -
  have d: "distinct (keys ps)" using assms by (simp add: pair_inv_def)
  have "pair_ok dev q" if q: "dget (pair_step ps op) dev = Some q" for dev q
    using pair_step_view [OF d q] assms fresh_ok moves_ok unfolding pair_inv_def by blast
  then show ?thesis using pair_step_distinct [OF d] by (simp add: pair_inv_def)
qed

interpretation pair_ok_sm: state_machine "[]" pair_step pair_inv
  by unfold_locales (simp_all add: pair_inv_step, simp add: pair_inv_def)


section \<open>Completion needs the person\<close>

definition same_exchange :: "pairing \<Rightarrow> pairing \<Rightarrow> bool" where
  "same_exchange q p =
     (pr_their_key q = pr_their_key p \<and> pr_their_enc q = pr_their_enc p \<and> pr_their_nonce q = pr_their_nonce p \<and> pr_our_nonce q = pr_our_nonce p)"

lemma same_exchange_code: "same_exchange q p \<Longrightarrow> code_for digest k e q = code_for digest k e p"
  by (simp add: same_exchange_def code_for_def)

text \<open>During \<open>ops\<close> the person confirmed an exchange with \<open>dev\<close> that had the keys and nonces of \<open>p\<close>.\<close>

definition confirmed_during :: "pair_op list \<Rightarrow> string \<Rightarrow> pairing \<Rightarrow> bool" where
  "confirmed_during ops dev p =
     (\<exists>xs t ys q. ops = xs @ ConfirmPairing t dev # ys \<and> dget (run_ops pair_step [] xs) dev = Some q \<and> \<not> pair_expired t q \<and>
        pr_state q = AwaitingLocal \<and> same_exchange q p)"

lemma confirmed_during_snoc: "confirmed_during ops dev p \<Longrightarrow> same_exchange p p' \<Longrightarrow> confirmed_during (ops @ [op]) dev p'"
  unfolding confirmed_during_def same_exchange_def by (metis append_Cons append_assoc)

lemma confirmed_by_person:
  "dget (run_ops pair_step [] ops) dev = Some p \<Longrightarrow> pr_we_confirmed p \<Longrightarrow> confirmed_during ops dev p"
proof (induction ops arbitrary: p rule: rev_induct)
  case (snoc op ops)
  let ?ps = "run_ops pair_step [] ops"
  have d: "distinct (keys ?ps)" and ok: "\<And>p. dget ?ps dev = Some p \<Longrightarrow> pair_ok dev p"
    using pair_ok_sm.inv_run [of "[]" ops] by (simp_all add: pair_inv_def)
  have q: "dget (pair_step ?ps op) dev = Some p" using snoc.prems(1) by (simp add: run_ops_append)
  have "\<not> pair_fresh op dev p" using snoc.prems(2) by (cases op) (auto simp: new_pairing_def extend_once_def)
  with pair_step_view [OF d q] obtain p0 where p0: "dget ?ps dev = Some p0" and mv: "p = p0 \<or> pair_moves op dev p0 p" by blast
  have same: "confirmed_during (ops @ [op]) dev p" if "pr_we_confirmed p0" "same_exchange p0 p"
    using confirmed_during_snoc [OF snoc.IH [OF p0 that(1)] that(2)] .
  show ?case
  proof (cases "p = p0")
    case True
    with snoc.prems(2) show ?thesis by (intro same) (simp_all add: same_exchange_def)
  next
    case False
    with mv have mv: "pair_moves op dev p0 p" by simp
    then show ?thesis
    proof (cases op)
      case (ConfirmPairing t d)
      with mv p0 have "d = dev" "\<not> pair_expired t p0" "pr_state p0 = AwaitingLocal" "same_exchange p0 p"
        by (simp_all add: same_exchange_def)
      with ConfirmPairing p0 show ?thesis unfolding confirmed_during_def by blast
    next
      case (PeerConfirmed t d)
      with mv snoc.prems(2) show ?thesis by (intro same) (simp_all add: same_exchange_def)
    next
      case (AcceptResponse now later d key enc tn)
      with mv ok [OF p0] snoc.prems(2) show ?thesis by (auto simp: pair_ok_def answered_def extend_once_def split: if_splits)
    qed simp_all
  qed
qed simp

lemma peer_has_confirmed:
  "dget (run_ops pair_step [] ops) dev = Some p \<Longrightarrow> pr_peer_confirmed p \<Longrightarrow> \<exists>t. PeerConfirmed t dev \<in> set ops"
proof (induction ops arbitrary: p rule: rev_induct)
  case (snoc op ops)
  let ?ps = "run_ops pair_step [] ops"
  have d: "distinct (keys ?ps)" using pair_sm.inv_run [of "[]" ops] by simp
  have q: "dget (pair_step ?ps op) dev = Some p" using snoc.prems(1) by (simp add: run_ops_append)
  have "\<not> pair_fresh op dev p" using snoc.prems(2) by (cases op) (auto simp: new_pairing_def extend_once_def)
  with pair_step_view [OF d q] obtain p0 where p0: "dget ?ps dev = Some p0" and mv: "p = p0 \<or> pair_moves op dev p0 p" by blast
  show ?case
  proof (cases "pr_peer_confirmed p0")
    case True
    from snoc.IH [OF p0 True] show ?thesis by auto
  next
    case False
    with mv snoc.prems(2) have "pair_moves op dev p0 p" by auto
    with False snoc.prems(2) show ?thesis by (cases op) (auto simp: answered_def extend_once_def split: if_splits)
  qed
qed simp

lemma completed_exchange:
  assumes "distinct (keys ps)" and "pair_complete now dev ps = (ps', Some p)"
  shows "dget ps dev = Some p" "pr_we_confirmed p" "pr_peer_confirmed p" "dget ps' dev = None"
  using assms by (auto simp: pair_complete_def Let_def sweep_get split: option.splits if_splits)


section \<open>The window for comparing\<close>

fun opens_exchange :: "string \<Rightarrow> pair_op \<Rightarrow> bool" where
  "opens_exchange dev (BeginPairing now started nonce d name key enc) = (d = dev)"
| "opens_exchange dev (AcceptRequest now started nonce d name key enc tn) = (d = dev)"
| "opens_exchange dev _ = False"

lemma shown_stays:
  assumes "pair_inv ps" "dget ps dev = Some p" "pr_extended p" "list_all (\<lambda>op. \<not> opens_exchange dev op) ops"
    and "dget (run_ops pair_step ps ops) dev = Some q"
  shows "pr_deadline q = pr_deadline p \<and> same_exchange q p"
  using assms(4,5)
proof (induction ops arbitrary: q rule: rev_induct)
  case Nil
  with assms(2) show ?case by (simp add: same_exchange_def)
next
  case (snoc op ops)
  let ?ps = "run_ops pair_step ps ops"
  have inv: "pair_inv ?ps" by (rule pair_ok_sm.inv_run [OF assms(1)])
  then have d: "distinct (keys ?ps)" by (simp add: pair_inv_def)
  have q: "dget (pair_step ?ps op) dev = Some q" using snoc.prems(2) by (simp add: run_ops_append)
  have "\<not> pair_fresh op dev q" using snoc.prems(1) by (cases op) auto
  with pair_step_view [OF d q] obtain p0 where p0: "dget ?ps dev = Some p0" and mv: "q = p0 \<or> pair_moves op dev p0 q" by blast
  have IH: "pr_deadline p0 = pr_deadline p \<and> same_exchange p0 p" using snoc.IH [OF _ p0] snoc.prems(1) by simp
  have "pair_ok dev p0" using inv p0 by (simp add: pair_inv_def)
  moreover have "pair_ok dev p" using assms(1,2) by (simp add: pair_inv_def)
  ultimately have "pr_state p0 \<noteq> AwaitingResponse" using IH assms(3) by (auto simp: pair_ok_def same_exchange_def)
  with mv have "pr_deadline q = pr_deadline p0 \<and> same_exchange q p0" by (cases op) (auto simp: same_exchange_def)
  with IH show ?case by (simp add: same_exchange_def)
qed

end
