(* ===== verification/Pairing_Promises.thy ===== *)
theory Pairing_Promises
  imports Pairing_Facts
begin

text \<open>
  The pairing exchange as a whole: what a completed exchange rests on, what two equal codes mean, and that two
  machines whose people both agree do finish, whatever else happens meanwhile.
\<close>

section \<open>Safety\<close>

text \<open>
  C17: No exchange completes without the person at this machine. In every run of the store from its start, an exchange that completes was confirmed here,
  earlier in the run, while its code was on the screen: at that moment it held the keys and nonces it completes with, so the code that was compared is the
  code of these keys. The other side has reported its own confirmation, and the exchange is used up.
\<close>

theorem completion_needs_confirmation:
  assumes "pair_complete now dev (run_ops pair_step [] ops) = (ps', Some p)"
  shows "(\<exists>xs t ys q. ops = xs @ ConfirmPairing t dev # ys \<and> dget (run_ops pair_step [] xs) dev = Some q \<and> \<not> pair_expired t q \<and>
      pr_state q = AwaitingLocal \<and> pr_their_key q = pr_their_key p \<and> pr_their_enc q = pr_their_enc p \<and>
      (\<forall>digest k e. code_for digest k e q = code_for digest k e p)) \<and>
    (\<exists>t. PeerConfirmed t dev \<in> set ops) \<and> dget ps' dev = None"
proof -
  have d: "distinct (keys (run_ops pair_step [] ops))" using pair_sm.inv_run [of "[]" ops] by simp
  note c = completed_exchange [OF d assms]
  from confirmed_by_person [OF c(1,2)] obtain xs t ys q where q: "ops = xs @ ConfirmPairing t dev # ys" "dget (run_ops pair_step [] xs) dev = Some q"
      "\<not> pair_expired t q" "pr_state q = AwaitingLocal" "same_exchange q p" unfolding confirmed_during_def by blast
  from q(5) have "pr_their_key q = pr_their_key p \<and> pr_their_enc q = pr_their_enc p" by (simp add: same_exchange_def)
  with q same_exchange_code [OF q(5)] peer_has_confirmed [OF c(1,3)] c(4) show ?thesis by blast
qed

definition sample_pair_ops :: "pair_op list" where
  "sample_pair_ops = [BeginPairing 0 0 ''na'' ''lap'' ''Laptop'' [] [], AcceptResponse 1 1 ''lap'' ''kb'' ''eb'' ''nb'',
     PeerConfirmed 2 ''lap'', ConfirmPairing 3 ''lap'']"

lemma completion_needs_confirmation_witness:
  "let p = the (snd (pair_complete 4 ''lap'' (run_ops pair_step [] sample_pair_ops))) in
   \<exists>xs t ys q. sample_pair_ops = xs @ ConfirmPairing t ''lap'' # ys \<and> dget (run_ops pair_step [] xs) ''lap'' = Some q \<and> \<not> pair_expired t q \<and>
      pr_state q = AwaitingLocal \<and> pr_their_key q = pr_their_key p \<and> pr_their_enc q = pr_their_enc p \<and>
      (\<forall>digest k e. code_for digest k e q = code_for digest k e p)"
proof -
  obtain ps' p where c: "pair_complete 4 ''lap'' (run_ops pair_step [] sample_pair_ops) = (ps', Some p)"
  proof -
    have "snd (pair_complete 4 ''lap'' (run_ops pair_step [] sample_pair_ops)) \<noteq> None" by code_simp
    then show thesis using that by (metis eq_snd_iff not_None_eq)
  qed
  from completion_needs_confirmation [OF c] c show ?thesis by (simp add: Let_def)
qed

text \<open>What the code of an exchange digests.\<close>

definition exchange_material :: "string \<Rightarrow> string \<Rightarrow> pairing \<Rightarrow> string" where
  "exchange_material k e p = sas_material (k, e, pr_our_nonce p) (pr_their_key p, pr_their_enc p, pr_their_nonce p)"

text \<open>
  C18: Equal codes mean the right keys. When the screens of two machines show the same code, each machine holds the key of the other, or the code has failed: the
  two digested different strings, and these collide modulo a million. Nothing is assumed of what happened on the way, nor of the
  encryption keys and nonces, which arrive from the network as they are.
\<close>

theorem same_code_same_keys:
  assumes "code_for digest kA eA p = code_for digest kB eB q" and "code_for digest kA eA p \<noteq> []"
    and "nul_free kA" "nul_free kB" "nul_free (pr_their_key p)" "nul_free (pr_their_key q)" and "kA \<noteq> kB"
  shows "(pr_their_key p = kB \<and> pr_their_key q = kA) \<or>
    (exchange_material kA eA p \<noteq> exchange_material kB eB q \<and>
     digest (exchange_material kA eA p) mod 1000000 = digest (exchange_material kB eB q) mod 1000000)"
proof -
  have "digest (exchange_material kA eA p) mod 1000000 = digest (exchange_material kB eB q) mod 1000000"
    using assms(1,2) unfolding code_for_def exchange_material_def by (rule same_code_same_digest)
  then show ?thesis using same_material_keys [of kA eA _ _ _ _ kB eB] assms(3-7) unfolding exchange_material_def by blast
qed

definition sample_end :: "pair_role \<Rightarrow> string \<Rightarrow> string \<Rightarrow> string \<Rightarrow> string \<Rightarrow> pairing" where
  "sample_end role key nonce enc their_nonce = new_pairing ''peer'' ''Peer'' role AwaitingLocal key enc nonce their_nonce 0"

lemma code_nonempty: "code_text n \<noteq> []"
  using code_length [of n] by auto

lemma sample_order: "sas_order (''ka'', ''ea'', ''na'') (''kb'', ''eb'', ''nb'') = sas_order (''kb'', ''eb'', ''nb'') (''ka'', ''ea'', ''na'')"
  by code_simp

lemma same_code_same_keys_witness:
  "let p = sample_end Initiator ''kb'' ''na'' ''eb'' ''nb''; q = sample_end Responder ''ka'' ''nb'' ''ea'' ''na'' in
   (pr_their_key p = ''kb'' \<and> pr_their_key q = ''ka'') \<or>
    (exchange_material ''ka'' ''ea'' p \<noteq> exchange_material ''kb'' ''eb'' q \<and>
     length (exchange_material ''ka'' ''ea'' p) mod 1000000 = length (exchange_material ''kb'' ''eb'' q) mod 1000000)"
  unfolding Let_def
  by (rule same_code_same_keys [where digest = length])
    (simp_all add: sample_end_def new_pairing_def code_for_def sas_def code_nonempty, simp add: sample_order)


section \<open>Liveness\<close>

text \<open>What a step in time does to an exchange whose code is shown, when it neither withdraws nor completes it.\<close>

fun undisturbed :: "string \<Rightarrow> rat \<Rightarrow> pair_op \<Rightarrow> bool" where
  "undisturbed dev limit (GetPairing now d) = (now \<le> limit)"
| "undisturbed dev limit (ListActive now) = (now \<le> limit)"
| "undisturbed dev limit (BeginPairing now started nonce d name key enc) = (now \<le> limit)"
| "undisturbed dev limit (AcceptRequest now started nonce d name key enc tn) = (now \<le> limit)"
| "undisturbed dev limit (AcceptResponse now later d key enc tn) = (now \<le> limit)"
| "undisturbed dev limit (ConfirmPairing now d) = (now \<le> limit)"
| "undisturbed dev limit (PeerConfirmed now d) = (now \<le> limit)"
| "undisturbed dev limit (CompletePairing now d) = (now \<le> limit)"
| "undisturbed dev limit (CancelPairing d) = (d \<noteq> dev)"

fun advanced :: "string \<Rightarrow> pair_op \<Rightarrow> pairing \<Rightarrow> pairing" where
  "advanced dev (ConfirmPairing now d) p =
     (if d = dev \<and> pr_state p = AwaitingLocal then p\<lparr>pr_we_confirmed := True, pr_state := AwaitingRemote\<rparr> else p)"
| "advanced dev (PeerConfirmed now d) p = (if d = dev then p\<lparr>pr_peer_confirmed := True\<rparr> else p)"
| "advanced dev _ p = p"

lemma step_advances:
  assumes d: "distinct (keys ps)" and p: "dget ps dev = Some p" "pr_state p \<noteq> AwaitingResponse" and u: "undisturbed dev (pr_deadline p) op"
    and c: "\<And>t. op = CompletePairing t dev \<Longrightarrow> \<not> (pr_we_confirmed p \<and> pr_peer_confirmed p)"
  shows "dget (pair_step ps op) dev = Some (advanced dev op p)"
proof -
  have live: "now \<le> pr_deadline p \<Longrightarrow> dget (pair_sweep now ps) dev = Some p" for now
    using p(1) by (simp add: sweep_get [OF d] pair_expired_def)
  have key: "has_key dev qs" if "dget qs dev = Some p" for qs :: pairings using that by (metis dget_None_iff option.distinct(1))
  show ?thesis
    using p(1) u c live by (cases op) (auto simp: pair_op_defs Let_def p(2) key split: option.split)
qed

definition asked_both :: "string \<Rightarrow> pair_op list \<Rightarrow> bool" where
  "asked_both dev ops = ((\<exists>t. ConfirmPairing t dev \<in> set ops) \<and> (\<exists>t. PeerConfirmed t dev \<in> set ops))"

definition completed_in :: "pairings \<Rightarrow> string \<Rightarrow> pairing \<Rightarrow> pair_op list \<Rightarrow> bool" where
  "completed_in ps dev p ops =
     (\<exists>xs t ys q. ops = xs @ CompletePairing t dev # ys \<and> snd (pair_complete t dev (run_ops pair_step ps xs)) = Some q \<and> same_exchange q p)"

lemma completed_in_more: "completed_in ps dev p ops \<Longrightarrow> completed_in ps dev p (ops @ more_ops)"
  unfolding completed_in_def by fastforce

text \<open>Until it completes, the exchange stands, with the answers that have come in.\<close>

definition standing :: "pairings \<Rightarrow> string \<Rightarrow> pairing \<Rightarrow> pair_op list \<Rightarrow> pairing \<Rightarrow> bool" where
  "standing ps dev p ops q =
     (dget (run_ops pair_step ps ops) dev = Some q \<and> same_exchange q p \<and> pr_deadline q = pr_deadline p \<and> pr_state q \<noteq> AwaitingResponse \<and>
      (pr_we_confirmed q \<longleftrightarrow> pr_state q = AwaitingRemote) \<and> ((\<exists>t. ConfirmPairing t dev \<in> set ops) \<longrightarrow> pr_we_confirmed q) \<and>
      ((\<exists>t. PeerConfirmed t dev \<in> set ops) \<longrightarrow> pr_peer_confirmed q))"

lemma advanced_fields [simp]:
  "same_exchange (advanced dev op q) p = same_exchange q p" "pr_deadline (advanced dev op q) = pr_deadline q"
  by (cases op; simp add: same_exchange_def)+

lemma shown_states: "st \<noteq> AwaitingResponse \<Longrightarrow> (st \<noteq> AwaitingRemote) = (st = AwaitingLocal)"
  by (cases st) simp_all

lemma standing_step:
  assumes "pair_inv ps" and s: "standing ps dev p ops q" and u: "undisturbed dev (pr_deadline p) op"
    and n: "\<not> completed_in ps dev p (ops @ [op])"
  shows "standing ps dev p (ops @ [op]) (advanced dev op q)"
proof -
  let ?ps = "run_ops pair_step ps ops"
  have d: "distinct (keys ?ps)" using pair_ok_sm.inv_run [OF assms(1), of ops] by (simp add: pair_inv_def)
  have q: "dget ?ps dev = Some q" "pr_state q \<noteq> AwaitingResponse" "pr_deadline q = pr_deadline p" "same_exchange q p"
    using s by (simp_all add: standing_def)
  have "\<not> (pr_we_confirmed q \<and> pr_peer_confirmed q)" if op: "op = CompletePairing t dev" for t
  proof
    assume "pr_we_confirmed q \<and> pr_peer_confirmed q"
    moreover have "t \<le> pr_deadline q" using u op q(3) by simp
    ultimately have "snd (pair_complete t dev ?ps) = Some q" using q(1) by (simp add: pair_complete_def Let_def sweep_get [OF d] pair_expired_def)
    with n op q(4) show False unfolding completed_in_def by blast
  qed
  with step_advances [OF d q(1,2), of op] u q(3) have "dget (pair_step ?ps op) dev = Some (advanced dev op q)" by simp
  with s show ?thesis unfolding standing_def
    by (cases op) (auto simp: run_ops_append same_exchange_def shown_states)
qed

lemma stands_or_completes:
  assumes inv: "pair_inv ps" and p: "dget ps dev = Some p" "pr_state p = AwaitingLocal"
  shows "list_all (undisturbed dev (pr_deadline p)) ops \<Longrightarrow> completed_in ps dev p ops \<or> (\<exists>q. standing ps dev p ops q)"
proof (induction ops rule: rev_induct)
  case Nil
  have "pair_ok dev p" using inv p(1) by (simp add: pair_inv_def)
  with p show ?case by (intro disjI2 exI [of _ p]) (simp add: standing_def same_exchange_def pair_ok_def)
next
  case (snoc op ops)
  then show ?case using completed_in_more [of ps dev p ops "[op]"] standing_step [OF inv, of dev p ops _ op] by auto
qed

text \<open>
  C5: Two people who agree do finish. An exchange whose code is on the screen completes, with the keys on the screen, in every run in
  which both confirmations arrive before its deadline and the code asks for completion after them, in whatever order they come and whatever else
  is done to the store meanwhile: other exchanges, other requests or responses in the name of the same device, repeated confirmations.
  Only a withdrawal could stop it.
\<close>

theorem confirmed_exchange_completes:
  assumes "pair_inv ps" and "dget ps dev = Some p" and "pr_state p = AwaitingLocal"
    and "list_all (undisturbed dev (pr_deadline p)) (ops @ [CompletePairing t dev])" and "asked_both dev ops"
  shows "\<exists>xs t' ys q. ops @ [CompletePairing t dev] = xs @ CompletePairing t' dev # ys \<and>
    snd (pair_complete t' dev (run_ops pair_step ps xs)) = Some q \<and> same_exchange q p"
proof -
  have "completed_in ps dev p (ops @ [CompletePairing t dev])"
  proof (rule ccontr)
    assume n: "\<not> completed_in ps dev p (ops @ [CompletePairing t dev])"
    then have "\<not> completed_in ps dev p ops" using completed_in_more by blast
    with stands_or_completes [OF assms(1-3), of ops] assms(4) obtain q where "standing ps dev p ops q" by auto
    moreover from this assms(5) have "pr_we_confirmed q" "pr_peer_confirmed q" by (auto simp: standing_def asked_both_def)
    moreover have "t \<le> pr_deadline q" using assms(4) \<open>standing ps dev p ops q\<close> by (simp add: standing_def)
    moreover have "distinct (keys (run_ops pair_step ps ops))" using pair_ok_sm.inv_run [OF assms(1), of ops] by (simp add: pair_inv_def)
    ultimately have "snd (pair_complete t dev (run_ops pair_step ps ops)) = Some q" "same_exchange q p"
      by (simp_all add: standing_def pair_complete_def Let_def sweep_get pair_expired_def)
    with n show False unfolding completed_in_def by blast
  qed
  then show ?thesis unfolding completed_in_def .
qed

lemma confirmed_exchange_completes_witness:
  "let ps = run_ops pair_step [] (take 2 sample_pair_ops); p = the (dget ps ''lap'');
     ops = [PeerConfirmed 2 ''lap'', AcceptRequest 3 3 ''nx'' ''lap'' ''Laptop'' ''kx'' ''ex'' ''nx'', CompletePairing 4 ''lap'', ConfirmPairing 301 ''lap''] in
   \<exists>xs t' ys q. ops @ [CompletePairing 301 ''lap''] = xs @ CompletePairing t' ''lap'' # ys \<and>
     snd (pair_complete t' ''lap'' (run_ops pair_step ps xs)) = Some q \<and> same_exchange q p"
proof -
  have ps: "run_ops pair_step [] (take 2 sample_pair_ops) = [(''lap'', extend_once 1
      ((new_pairing ''lap'' ''Laptop'' Initiator AwaitingLocal ''kb'' ''eb'' ''na'' ''nb'' 0)))]" by code_simp
  show ?thesis unfolding Let_def
    by (rule confirmed_exchange_completes [OF pair_ok_sm.inv_run])
      (simp_all add: pair_inv_def asked_both_def, simp_all only: ps, simp_all add: extend_once_def new_pairing_def REQUEST_TTL_S_def)
qed

end
