(* ===== verification/Device_Trust.thy ===== *)
theory Device_Trust
  imports Pane_Policy Trust_Facts
begin

text \<open>
  \<open>backend/agent_team_backend/device_signing.py\<close>, what is signed and how a signature is checked, and \<open>device_trust.py\<close>, the trust ring of
  a sender, the block list and the ledger of refused attempts. The Ed25519 check of the \<open>cryptography\<close> package is an argument:
  it gets a key, the signed context and document, and the signature. The log lines are left out.
\<close>

section \<open>Signatures\<close>

definition base64_char :: "char \<Rightarrow> bool" where
  "base64_char c = ((CHR ''A'' \<le> c \<and> c \<le> CHR ''Z'') \<or> (CHR ''a'' \<le> c \<and> c \<le> CHR ''z'') \<or> is_digit c \<or> c = CHR ''+'' \<or> c = CHR ''/'')"

text \<open>\<open>len(base64.b64decode(value, validate=True)) == n\<close>: the characters that hold \<open>n\<close> bytes, then the padding.\<close>

definition base64_of_length :: "nat \<Rightarrow> string \<Rightarrow> bool" where
  "base64_of_length n s =
     (let k = (4 * n + 2) div 3; pad = (3 - n mod 3) mod 3
      in length s = k + pad \<and> list_all base64_char (take k s) \<and> drop k s = replicate pad CHR ''='')"

definition KEY_LEN :: nat where "KEY_LEN = 32"
definition SIG_LEN :: nat where "SIG_LEN = 64"

definition is_public_key :: "string \<Rightarrow> bool" where
  "is_public_key s = base64_of_length KEY_LEN s"

datatype signing_context = MessageContext | PolicyContext | SyncContext

type_synonym ed25519 = "string \<Rightarrow> signing_context \<times> jval \<Rightarrow> string \<Rightarrow> bool"

definition verify_signature :: "ed25519 \<Rightarrow> signing_context \<Rightarrow> jval \<Rightarrow> string \<Rightarrow> string \<Rightarrow> bool" where
  "verify_signature ed ctx payload sig key = (is_public_key key \<and> base64_of_length SIG_LEN sig \<and> ed key (ctx, payload) sig)"

definition message_payload :: "(string \<Rightarrow> string) \<Rightarrow> string \<Rightarrow> string \<Rightarrow> string \<Rightarrow> string \<Rightarrow> string \<Rightarrow> jval" where
  "message_payload body_digest msg_key from_device to_device kind body =
     JDict [(''msgKey'', JStr msg_key), (''from'', JStr from_device), (''to'', JStr to_device), (''kind'', JStr kind),
       (''body'', JStr (body_digest body))]"

definition policy_payload :: "string \<Rightarrow> int \<Rightarrow> jval \<Rightarrow> jval" where
  "policy_payload device_id seq document = JDict [(''deviceId'', JStr device_id), (''seq'', JInt seq), (''policy'', document)]"

definition verify_message ::
    "ed25519 \<Rightarrow> (string \<Rightarrow> string) \<Rightarrow> string \<Rightarrow> string \<Rightarrow> string \<Rightarrow> string \<Rightarrow> string \<Rightarrow> string \<Rightarrow> string \<Rightarrow> bool" where
  "verify_message ed dig sig key msg_key from_device to_device kind body =
     verify_signature ed MessageContext (message_payload dig msg_key from_device to_device kind body) sig key"

definition verify_policy :: "ed25519 \<Rightarrow> string \<Rightarrow> string \<Rightarrow> string \<Rightarrow> int \<Rightarrow> jval \<Rightarrow> bool" where
  "verify_policy ed sig key device_id seq document = verify_signature ed PolicyContext (policy_payload device_id seq document) sig key"


section \<open>The block list and the rings\<close>

datatype ring = RingSelf | RingBlocked | RingMember

text \<open>\<open>_entries\<close>: the objects of a list-valued field of the policy.\<close>

definition policy_entries :: "jval \<Rightarrow> string \<Rightarrow> (string \<times> jval) list list" where
  "policy_entries policy fld =
     (case policy of
        JDict p \<Rightarrow> (case jget p fld of JList es \<Rightarrow> List.map_filter as_dict es | _ \<Rightarrow> [])
      | _ \<Rightarrow> [])"

definition entry_blocks :: "string \<Rightarrow> string \<Rightarrow> (string \<times> jval) list \<Rightarrow> bool" where
  "entry_blocks member dev e =
     ((usable (jget e ''deviceId'') \<and> jget e ''deviceId'' = JStr dev) \<or> (usable (jget e ''memberId'') \<and> jget e ''memberId'' = JStr member))"

definition is_blocked :: "jval \<Rightarrow> string \<Rightarrow> string \<Rightarrow> tstate \<Rightarrow> tstate \<times> bool" where
  "is_blocked policy member dev st =
     (if list_ex (entry_blocks member dev) (policy_entries policy ''blocked'') then (st, True) else is_blocked_locally dev member st)"

definition ring_of :: "jval \<Rightarrow> string \<Rightarrow> string \<Rightarrow> bool \<Rightarrow> tstate \<Rightarrow> tstate \<times> ring" where
  "ring_of policy member dev own st =
     (case is_blocked policy member dev st of
        (st1, b) \<Rightarrow> (st1, if b then RingBlocked else if own then RingSelf else RingMember))"

record blocked_row =
  bk_device :: string
  bk_member :: string
  bk_name :: string
  bk_at :: string
  bk_reason :: string

definition usable_text :: "(string \<times> jval) list \<Rightarrow> string \<Rightarrow> string" where
  "usable_text e k = (case jget e k of JStr s \<Rightarrow> if usable (JStr s) then s else [] | _ \<Rightarrow> [])"

definition blocked_entries :: "jval \<Rightarrow> blocked_row list" where
  "blocked_entries policy =
     concat (map (\<lambda>e. let dev = usable_text e ''deviceId''; mem = usable_text e ''memberId''
                      in if dev = [] \<and> mem = [] then []
                         else [\<lparr>bk_device = dev, bk_member = mem, bk_name = usable_text e ''deviceName'',
                                bk_at = usable_text e ''at'', bk_reason = usable_text e ''reason''\<rparr>])
            (policy_entries policy ''blocked''))"

datatype block_refusal = BlockPolicyNotObject | BlockedNotList | BlockedNotObject nat | BlockedNeedsId nat

fun validate_entries :: "nat \<Rightarrow> jval list \<Rightarrow> block_refusal option" where
  "validate_entries i [] = None"
| "validate_entries i (v # vs) =
     (case v of
        JDict e \<Rightarrow> if \<not> usable (jget e ''deviceId'') \<and> \<not> usable (jget e ''memberId'') then Some (BlockedNeedsId i)
                  else validate_entries (Suc i) vs
      | _ \<Rightarrow> Some (BlockedNotObject i))"

definition validate_blocked :: "jval \<Rightarrow> block_refusal option" where
  "validate_blocked policy =
     (case policy of
        JDict p \<Rightarrow> (case jget p ''blocked'' of JNull \<Rightarrow> None | JList vs \<Rightarrow> validate_entries 0 vs | _ \<Rightarrow> Some BlockedNotList)
      | _ \<Rightarrow> Some BlockPolicyNotObject)"


section \<open>Refused attempts\<close>

record knock =
  kn_key :: string
  kn_member :: string
  kn_device :: string
  kn_name :: string
  kn_workspace :: string
  kn_pane :: string
  kn_first :: rat
  kn_last :: rat
  kn_attempts :: nat

type_synonym knocks = "(string \<times> knock) list"

definition REQUESTS_MAX :: nat where "REQUESTS_MAX = 100"
definition REQUESTS_TTL_S :: rat where "REQUESTS_TTL_S = 86400"

definition knocks_evict :: "rat \<Rightarrow> knocks \<Rightarrow> knocks" where
  "knocks_evict now rows =
     (let live = filter (\<lambda>(k, r). \<not> REQUESTS_TTL_S \<le> now - kn_last r) rows in drop (length live - REQUESTS_MAX) live)"

definition knock_key :: "string \<Rightarrow> string \<Rightarrow> string \<Rightarrow> string" where
  "knock_key dev ws pane = dev @ [CHR 0x0A] @ ws @ [CHR 0x0A] @ pane"

definition knocks_record :: "rat \<Rightarrow> rat \<Rightarrow> string \<Rightarrow> string \<Rightarrow> string \<Rightarrow> string \<Rightarrow> string \<Rightarrow> knocks \<Rightarrow> knocks \<times> knock" where
  "knocks_record t now member dev name ws pane rows =
     (let rows1 = knocks_evict t rows; key = knock_key dev ws pane;
          row = (case dget rows1 key of
                   None \<Rightarrow> \<lparr>kn_key = key, kn_member = member, kn_device = dev, kn_name = name, kn_workspace = ws, kn_pane = pane,
                            kn_first = now, kn_last = now, kn_attempts = 0\<rparr>
                 | Some r \<Rightarrow> r);
          row1 = row\<lparr>kn_name := (if name \<noteq> [] then name else kn_name row), kn_last := now, kn_attempts := kn_attempts row + 1\<rparr>
      in (dset key row1 rows1, row1))"

definition knocks_list :: "rat \<Rightarrow> knocks \<Rightarrow> knocks \<times> knock list" where
  "knocks_list now rows =
     (let rows1 = knocks_evict now rows in (rows1, rev (sort_key kn_last (rev (map snd rows1)))))"

definition knocks_forget :: "string \<Rightarrow> knocks \<Rightarrow> knocks \<times> bool" where
  "knocks_forget key rows = (dpop key rows, has_key key rows)"

definition knocks_forget_device :: "string \<Rightarrow> knocks \<Rightarrow> knocks \<times> nat" where
  "knocks_forget_device dev rows =
     (let gone = map fst (filter (\<lambda>(k, r). kn_device r = dev) rows)
      in (foldl (\<lambda>acc k. dpop k acc) rows gone, length gone))"

definition knocks_clear :: "knocks \<Rightarrow> knocks" where
  "knocks_clear rows = []"


section \<open>Facts\<close>

lemma base64_nul_free: "base64_of_length n s \<Longrightarrow> CHR 0x00 \<notin> set s"
proof -
  assume s: "base64_of_length n s"
  define k where "k = (4 * n + 2) div 3"
  have "list_all base64_char (take k s)" "drop k s = replicate ((3 - n mod 3) mod 3) CHR ''=''"
    using s by (simp_all add: base64_of_length_def Let_def k_def)
  then have "CHR 0x00 \<notin> set (take k s)" "CHR 0x00 \<notin> set (drop k s)"
    by (auto simp: list_all_iff base64_char_def is_digit_def)
  then show ?thesis by (metis Un_iff append_take_drop_id set_append)
qed

lemma public_key_nul_free: "is_public_key s \<Longrightarrow> CHR 0x00 \<notin> set s"
  unfolding is_public_key_def by (rule base64_nul_free)

text \<open>Python's descending stable sort keeps the original order of equal rows.\<close>

lemma knocks_evict_bounded: "length (knocks_evict now rows) \<le> REQUESTS_MAX"
  by (simp add: knocks_evict_def Let_def)

lemma distinct_keys_drop: "distinct (keys d) \<Longrightarrow> distinct (keys (drop n d))"
  by (simp flip: drop_map)

lemma knocks_evict_distinct: "distinct (keys rows) \<Longrightarrow> distinct (keys (knocks_evict now rows))"
  unfolding knocks_evict_def Let_def by (intro distinct_keys_drop distinct_keys_filter)

lemma blocked_forever: "snd (is_blocked policy member dev st) \<Longrightarrow> snd (ring_of policy member dev own st) = RingBlocked"
  by (cases "is_blocked policy member dev st") (simp add: ring_of_def)

end
