(* ===== verification/Server_Link.thy ===== *)
theory Server_Link
  imports Device_Pairing Device_Trust Guard_Taint
begin

text \<open>
  The part of \<open>backend/agent_team_backend/server_link.py\<close> that decides about other machines: the pane policy and its signature, the
  pairing frames, and the messages that arrive for a pane here, from the first look to the hand-over. The state is the link object together
  with the stores its handlers write. A handler is one step at one time of day; what an \<open>await\<close> lets in between two of its lines
  is left out. Sent requests, broadcast events and acks are a list of outputs. The world around it is an argument: the two
  libraries of \<open>cryptography\<close> (with the sealing of the sync key), SHA-256, \<open>json.loads\<close>, \<open>str\<close>, and the fresh nonces.
\<close>

section \<open>State\<close>

record world =
  wd_ed25519 :: ed25519
  wd_sign :: "signing_context \<times> jval \<Rightarrow> string"
  wd_digest :: "string \<Rightarrow> string"
  wd_open :: "string \<Rightarrow> string \<Rightarrow> string \<Rightarrow> string option"
  wd_wrap :: "string \<Rightarrow> string \<Rightarrow> string option"
  wd_loads :: "string \<Rightarrow> jval option"
  wd_str :: "jval \<Rightarrow> string"
  wd_fingerprint :: "string \<Rightarrow> string"
  wd_sign_key :: string
  wd_enc_key :: string

record ack =
  ak_key :: string
  ak_state :: string
  ak_reason :: string
  ak_pane :: string

record inbound =
  ib_created :: rat
  ib_pane :: string
  ib_acked :: bool
  ib_ack :: "ack option"
  ib_unsent :: bool

record delivery =
  dv_key :: string
  dv_pane :: string
  dv_workspace_path :: string
  dv_name :: string
  dv_agent :: string
  dv_display :: string
  dv_content :: string

datatype outgoing =
    SentAck ack
  | SentFrame string jval
  | DeliverEvent delivery
  | AdoptKey string string
  | NoticesChanged
  | KnocksChanged

record directory_row =
  dr_device :: string
  dr_name :: string
  dr_member :: string

record link =
  ln_device :: string
  ln_own_member :: string
  ln_up :: bool
  ln_trust_locked :: bool
  ln_policy :: jval
  ln_revision :: "int option"
  ln_directory :: "directory_row list"
  ln_online :: "string list option"
  ln_has_key :: bool
  ln_roster :: roster
  ln_registry :: registry
  ln_taint :: taint_state
  ln_inbound :: "(string \<times> inbound) list"
  ln_knocks :: knocks
  ln_pairs :: pairings
  ln_trust :: tstate
  ln_out :: "outgoing list"

definition MESSAGE_MEMORY_MAX :: nat where "MESSAGE_MEMORY_MAX = 500"
definition MESSAGE_MEMORY_TTL_S :: rat where "MESSAGE_MEMORY_TTL_S = 3600"
definition POLICY_SIGNATURE_FIELD :: string where "POLICY_SIGNATURE_FIELD = ''_sig''"
definition PAIRING_WORKSPACE :: string where "PAIRING_WORKSPACE = ''_navide''"
definition PAIRING_PANE :: string where "PAIRING_PANE = ''_pairing''"

text \<open>A handler ends normally or with an exception. A call into the trust store may raise.\<close>

type_synonym handled = "link \<times> bool"

definition emit :: "outgoing \<Rightarrow> link \<Rightarrow> link" where
  "emit e s = s\<lparr>ln_out := ln_out s @ [e]\<rparr>"

definition via_trust :: "(tstate \<Rightarrow> tstate \<times> (trust_error + 'a)) \<Rightarrow> ('a \<Rightarrow> link \<Rightarrow> handled) \<Rightarrow> link \<Rightarrow> handled" where
  "via_trust f k s =
     (case f (ln_trust s) of
        (t, Inl e) \<Rightarrow> (s\<lparr>ln_trust := t\<rparr>, False)
      | (t, Inr x) \<Rightarrow> k x (s\<lparr>ln_trust := t\<rparr>))"

definition and_then :: "handled \<Rightarrow> (link \<Rightarrow> handled) \<Rightarrow> handled" where
  "and_then r f = (case r of (s, ok) \<Rightarrow> if ok then f s else (s, False))"

text \<open>\<open>str(d.get(k) or "")\<close>.\<close>

definition str_field :: "world \<Rightarrow> (string \<times> jval) list \<Rightarrow> string \<Rightarrow> string" where
  "str_field w d k = (if truthy (jget d k) then (case jget d k of JStr t \<Rightarrow> t | v \<Rightarrow> wd_str w v) else [])"

definition dict_field :: "(string \<times> jval) list \<Rightarrow> string \<Rightarrow> (string \<times> jval) list" where
  "dict_field d k = (case jget d k of JDict e \<Rightarrow> e | _ \<Rightarrow> [])"

definition device_name_for :: "string \<Rightarrow> link \<Rightarrow> string" where
  "device_name_for dev s = (case find (\<lambda>r. dr_device r = dev) (ln_directory s) of None \<Rightarrow> [] | Some r \<Rightarrow> dr_name r)"

definition member_id_for :: "string \<Rightarrow> link \<Rightarrow> string" where
  "member_id_for dev s = (case find (\<lambda>r. dr_device r = dev) (ln_directory s) of None \<Rightarrow> [] | Some r \<Rightarrow> dr_member r)"

definition device_online :: "string \<Rightarrow> link \<Rightarrow> bool" where
  "device_online dev s =
     (case ln_online s of
        Some devs \<Rightarrow> dev \<in> set devs
      | None \<Rightarrow> list_ex (\<lambda>p. rm_device_id p = dev \<and> rm_host_online p) (roster_list (ln_roster s)))"

definition announce_trust_notices :: "world \<Rightarrow> link \<Rightarrow> link" where
  "announce_trust_notices w s =
     emit NoticesChanged (s\<lparr>ln_trust := fst (unapproved_devices (wd_fingerprint w) (fst (notices (ln_trust s))))\<rparr>)"

definition announce_access_requests :: "rat \<Rightarrow> link \<Rightarrow> link" where
  "announce_access_requests now s = emit KnocksChanged (s\<lparr>ln_knocks := fst (knocks_list now (ln_knocks s))\<rparr>)"


section \<open>Acks\<close>

definition send_ack :: "string \<Rightarrow> ack \<Rightarrow> link \<Rightarrow> link" where
  "send_ack key a s =
     (let s1 = (if ln_up s then emit (SentAck a) s else s)
      in case dget (ln_inbound s1) key of
           None \<Rightarrow> s1
         | Some e \<Rightarrow> s1\<lparr>ln_inbound := dset key (e\<lparr>ib_unsent := \<not> ln_up s\<rparr>) (ln_inbound s1)\<rparr>)"

definition ack_message :: "string \<Rightarrow> string \<Rightarrow> string \<Rightarrow> string \<Rightarrow> link \<Rightarrow> link" where
  "ack_message key state reason pane s =
     (let a = \<lparr>ak_key = key, ak_state = state, ak_reason = reason, ak_pane = pane\<rparr>
      in send_ack key a
           (case dget (ln_inbound s) key of
              None \<Rightarrow> s
            | Some e \<Rightarrow> s\<lparr>ln_inbound := dset key (e\<lparr>ib_acked := True, ib_ack := Some a\<rparr>) (ln_inbound s)\<rparr>))"

definition resend_unsent_acks :: "link \<Rightarrow> link" where
  "resend_unsent_acks s =
     foldl (\<lambda>s' (key, e). case ib_ack e of Some a \<Rightarrow> if ib_unsent e then send_ack key a s' else s' | None \<Rightarrow> s') s (ln_inbound s)"

definition reason_key :: "world \<Rightarrow> string \<Rightarrow> string" where
  "reason_key w reason =
     (case wd_loads w reason of
        Some (JDict d) \<Rightarrow> (case jget d ''key'' of JStr k \<Rightarrow> k | _ \<Rightarrow> reason)
      | _ \<Rightarrow> reason)"

definition note_delivery_result :: "world \<Rightarrow> string \<Rightarrow> bool \<Rightarrow> string \<Rightarrow> link \<Rightarrow> link \<times> bool" where
  "note_delivery_result w key ok reason s =
     (case dget (ln_inbound s) key of
        None \<Rightarrow> (s, False)
      | Some e \<Rightarrow>
          if ib_acked e \<or> ib_pane e = [] then (s, False)
          else
            (let k = reason_key w reason
             in (ack_message key (if ok \<or> k = ''delivery-unconfirmed'' then ''delivered'' else ''failed'') k (ib_pane e)
                   (s\<lparr>ln_inbound := dset key (e\<lparr>ib_acked := True\<rparr>) (ln_inbound s)\<rparr>), True)))"


section \<open>The pane policy\<close>

text \<open>
  \<open>_verified_policy\<close>: what the machine will enforce of the document the server hands back. \<open>offered\<close> is the sequence under the signature.
\<close>

datatype policy_check = NoPolicy | RefusePolicy string jval | TakePolicy jval int

definition check_policy :: "world \<Rightarrow> string \<Rightarrow> int \<Rightarrow> jval \<Rightarrow> policy_check" where
  "check_policy w dev seq raw =
     (case raw of
        JDict d \<Rightarrow>
          (let document = JDict (dpop POLICY_SIGNATURE_FIELD d) in
           case jget d POLICY_SIGNATURE_FIELD of
             JDict e \<Rightarrow>
               (case jget e ''seq'' of
                  JInt offered \<Rightarrow>
                    if offered < seq then RefusePolicy ''the stored policy is older than the last one written here'' (JInt offered)
                    else if \<not> verify_policy (wd_ed25519 w) (str_field w e ''sig'') (wd_sign_key w) dev offered document
                    then RefusePolicy ''the stored policy was not signed by this machine'' (JInt offered)
                    else TakePolicy document offered
                | _ \<Rightarrow> RefusePolicy ''the stored policy has no usable sequence'' JNull)
           | _ \<Rightarrow> if seq \<noteq> 0 then RefusePolicy ''the stored policy carries no signature'' JNull else NoPolicy)
      | _ \<Rightarrow> if seq \<noteq> 0 then RefusePolicy ''the server returned no policy document'' JNull else NoPolicy)"

definition verified_policy :: "world \<Rightarrow> rat \<Rightarrow> jval \<Rightarrow> (jval \<Rightarrow> link \<Rightarrow> handled) \<Rightarrow> link \<Rightarrow> handled" where
  "verified_policy w now raw k s =
     (if ln_trust_locked s then k JNull s
      else via_trust (policy_seq (ln_device s)) (\<lambda>seq s1.
        case check_policy w (ln_device s1) seq raw of
          NoPolicy \<Rightarrow> k JNull s1
        | RefusePolicy why n \<Rightarrow> via_trust (note_policy_unverified now why (ln_device s1) n) (\<lambda>_. k JNull) s1
        | TakePolicy document offered \<Rightarrow>
            via_trust (note_policy_seq (ln_device s1) offered) (\<lambda>_. via_trust clear_policy_notice (\<lambda>_. k document)) s1) s)"

text \<open>The server's answer to \<open>policy.get\<close>: the revision and the document, or nothing when the request failed.\<close>

type_synonym policy_reply = "(jval \<times> jval) option"

fun revision_number :: "jval \<Rightarrow> int" where
  "revision_number (JInt n) = n"
| "revision_number (JBool b) = (if b then 1 else 0)"
| "revision_number _ = 0"

definition refresh_policy :: "world \<Rightarrow> rat \<Rightarrow> int option \<Rightarrow> policy_reply \<Rightarrow> link \<Rightarrow> handled" where
  "refresh_policy w now revision reply s =
     (if revision \<noteq> None \<and> revision = ln_revision s then (s, True)
      else case reply of
        None \<Rightarrow> (s, True)
      | Some (raw_revision, document) \<Rightarrow>
          verified_policy w now document (\<lambda>p s'. (s'\<lparr>ln_policy := p\<rparr>, True))
            (s\<lparr>ln_revision := Some (revision_number raw_revision)\<rparr>))"

definition ensure_policy :: "world \<Rightarrow> rat \<Rightarrow> policy_reply \<Rightarrow> link \<Rightarrow> handled" where
  "ensure_policy w now reply s = (if ln_revision s = None then refresh_policy w now None reply s else (s, True))"

text \<open>
  \<open>_signed_policy\<close>: the sequence is reserved first. Unpacking a document that is not an object then raises.
\<close>

definition signed_policy :: "world \<Rightarrow> jval \<Rightarrow> link \<Rightarrow> link \<times> jval option" where
  "signed_policy w policy s =
     (let document = (case policy of JDict d \<Rightarrow> JDict (dpop POLICY_SIGNATURE_FIELD d) | v \<Rightarrow> v) in
      case reserve_policy_seq (ln_device s) (ln_trust s) of
        (t, Inl e) \<Rightarrow> (s\<lparr>ln_trust := t\<rparr>, None)
      | (t, Inr seq) \<Rightarrow>
          (s\<lparr>ln_trust := t\<rparr>,
           case document of
             JDict d \<Rightarrow>
               Some (JDict (dset POLICY_SIGNATURE_FIELD
                 (JDict [(''seq'', JInt seq), (''sig'', JStr (wd_sign w (PolicyContext, policy_payload (ln_device s) seq document)))]) d))
           | _ \<Rightarrow> None))"

text \<open>
  \<open>set_policy\<close>: \<open>answer\<close> is the server's reply to the write, its revision when it accepted, or nothing when the request failed.
\<close>

datatype set_answer = SetFailed | SetRejected | SetAccepted jval

datatype set_result = SetUnavailable | SetTrustRefused | SetOffline | SetReplied

definition set_policy :: "world \<Rightarrow> rat \<Rightarrow> jval \<Rightarrow> set_answer \<Rightarrow> policy_reply \<Rightarrow> link \<Rightarrow> handled \<times> set_result" where
  "set_policy w now policy answer reply s =
     (if \<not> ln_up s then ((s, True), SetUnavailable)
      else if ln_trust_locked s then ((s, True), SetTrustRefused)
      else case signed_policy w policy s of
        (s1, None) \<Rightarrow> ((s1, True), SetTrustRefused)
      | (s1, Some doc) \<Rightarrow>
          (case answer of
             SetFailed \<Rightarrow> ((s1, True), SetOffline)
           | SetRejected \<Rightarrow> ((s1, True), SetReplied)
           | SetAccepted (JInt n) \<Rightarrow>
               (via_trust clear_policy_notice (\<lambda>_ s2. (s2, True)) (s1\<lparr>ln_policy := policy, ln_revision := Some n\<rparr>), SetReplied)
           | SetAccepted _ \<Rightarrow> (refresh_policy w now None reply s1, SetReplied)))"


section \<open>Pairing\<close>

text \<open>\<open>_send_pair_frame\<close>: signed, in the clear; whether the relay took it.\<close>

definition send_pair_frame :: "string \<Rightarrow> string \<Rightarrow> (string \<times> string) list \<Rightarrow> link \<Rightarrow> link \<times> bool" where
  "send_pair_frame dev kind extra s =
     (if \<not> ln_up s then (s, False)
      else case envelope kind extra of None \<Rightarrow> (s, False) | Some body \<Rightarrow> (emit (SentFrame dev body) s, True))"

definition own_keys :: "world \<Rightarrow> string \<Rightarrow> (string \<times> string) list" where
  "own_keys w nonce = [(''nonce'', nonce), (''signKey'', wd_sign_key w), (''encKey'', wd_enc_key w)]"

text \<open>\<open>_sync_key_peer\<close>: the key the account's sync key may be sealed for, or nothing.\<close>

definition sync_key_peer :: "string \<Rightarrow> pin option \<Rightarrow> string" where
  "sync_key_peer own_member pin =
     (case pin of
        None \<Rightarrow> []
      | Some p \<Rightarrow>
          if \<not> pn_approved p then []
          else if own_member = [] \<or> pn_member_id p \<noteq> own_member then []
          else pn_enc_key p)"

text \<open>\<open>_offer_sync_key\<close> never raises. The frame carries the key sealed for the recipient.\<close>

definition offer_sync_key :: "world \<Rightarrow> string \<Rightarrow> link \<Rightarrow> link" where
  "offer_sync_key w dev s =
     (if \<not> ln_has_key s then s
      else case pin_for dev (ln_trust s) of
        (t, Inl e) \<Rightarrow> s\<lparr>ln_trust := t\<rparr>
      | (t, Inr pin) \<Rightarrow>
          (let s1 = s\<lparr>ln_trust := t\<rparr>; recipient = sync_key_peer (ln_own_member s) pin
           in if recipient = [] then s1
              else case wd_wrap w recipient dev of
                None \<Rightarrow> s1
              | Some wrapped \<Rightarrow> fst (send_pair_frame dev ''sync-key-offer'' [(''wrapped'', wrapped)] s1)))"

definition finish_pairing :: "world \<Rightarrow> rat \<Rightarrow> string \<Rightarrow> string \<Rightarrow> link \<Rightarrow> handled" where
  "finish_pairing w now dev member s =
     (case pair_complete now dev (ln_pairs s) of
        (ps, None) \<Rightarrow> (s\<lparr>ln_pairs := ps\<rparr>, True)
      | (ps, Some p) \<Rightarrow>
          (let s1 = s\<lparr>ln_pairs := ps\<rparr> in
           case pin_paired_device (wd_fingerprint w) now dev (pr_their_key p) (pr_their_enc p) (str_or member (member_id_for dev s1))
                  (ln_own_member s1) (ln_trust s1) of
             (t, Inl e) \<Rightarrow> (s1\<lparr>ln_trust := t\<rparr>, True)
           | (t, Inr _) \<Rightarrow>
               via_trust (note_pairing now dev ''paired'' (str_or (pr_name p) (device_name_for dev s1)))
                 (\<lambda>_ s2. (offer_sync_key w dev s2, True)) (s1\<lparr>ln_trust := t\<rparr>)))"

text \<open>
  The branches of \<open>_on_pair_frame\<close>. A \<open>PairingError\<close> is answered; any other exception leaves the handler.
\<close>

datatype frame_outcome = FrameDone | FrameRefused | FrameRaised

definition outcome_of :: "handled \<Rightarrow> link \<times> frame_outcome" where
  "outcome_of r = (fst r, if snd r then FrameDone else FrameRaised)"

definition frame_branch ::
    "world \<Rightarrow> rat \<Rightarrow> string \<Rightarrow> string \<Rightarrow> string \<Rightarrow> string \<Rightarrow> string \<Rightarrow> pin option \<Rightarrow> string \<Rightarrow> (string \<times> jval) list \<Rightarrow> link \<Rightarrow>
     link \<times> frame_outcome" where
  "frame_branch w now nonce kind dev member name pin key frame s =
     (let enc = str_field w frame ''encKey''; their_nonce = str_field w frame ''nonce'' in
      if kind = ''pair-request'' then
        (case accept_request now now nonce dev name key enc their_nonce (ln_pairs s) of
           (ps, Inl e) \<Rightarrow> (s\<lparr>ln_pairs := ps\<rparr>, FrameRefused)
         | (ps, Inr p) \<Rightarrow> (fst (send_pair_frame dev ''pair-response'' (own_keys w (pr_our_nonce p)) (s\<lparr>ln_pairs := ps\<rparr>)), FrameDone))
      else if kind = ''pair-response'' then
        (case accept_response now now dev key enc their_nonce (ln_pairs s) of
           (ps, Inl e) \<Rightarrow> (s\<lparr>ln_pairs := ps\<rparr>, FrameRefused)
         | (ps, Inr p) \<Rightarrow> (s\<lparr>ln_pairs := ps\<rparr>, FrameDone))
      else if kind = ''sync-key-request'' \<or> kind = ''sync-key-offer'' then
        (if sync_key_peer (ln_own_member s) pin = [] then (s, FrameDone)
         else if kind = ''sync-key-request'' then (offer_sync_key w dev s, FrameDone)
         else (emit (AdoptKey dev (str_field w frame ''wrapped'')) s, FrameDone))
      else if kind = ''pair-confirm'' then
        outcome_of (finish_pairing w now dev member (s\<lparr>ln_pairs := fst (note_peer_confirmed now dev (ln_pairs s))\<rparr>))
      else if kind = ''pair-reject'' then
        (case pair_cancel dev (ln_pairs s) of
           (ps, None) \<Rightarrow> (s\<lparr>ln_pairs := ps\<rparr>, FrameDone)
         | (ps, Some p) \<Rightarrow> outcome_of (via_trust (note_pairing now dev ''refused'' name) (\<lambda>_ s2. (s2, True)) (s\<lparr>ln_pairs := ps\<rparr>)))
      else if kind = ''pair-revoked'' then
        outcome_of (via_trust (forget_device dev)
          (\<lambda>removed s1. if fg_found removed then via_trust (note_pairing now dev ''revoked'' name) (\<lambda>_ s2. (s2, True)) s1 else (s1, True))
          (s\<lparr>ln_pairs := fst (pair_cancel dev (ln_pairs s))\<rparr>))
      else (s, FrameDone))"

definition frame_key :: "world \<Rightarrow> pin option \<Rightarrow> pairing option \<Rightarrow> (string \<times> jval) list \<Rightarrow> string" where
  "frame_key w pin existing frame =
     str_or (case pin of None \<Rightarrow> [] | Some p \<Rightarrow> pn_sign_key p)
       (str_or (case existing of None \<Rightarrow> [] | Some p \<Rightarrow> pr_their_key p) (str_field w frame ''signKey''))"

definition on_pair_frame ::
    "world \<Rightarrow> rat \<Rightarrow> string \<Rightarrow> (string \<times> jval) list \<Rightarrow> (string \<times> jval) list \<Rightarrow> string \<Rightarrow> string \<Rightarrow> string \<Rightarrow> link \<Rightarrow> handled" where
  "on_pair_frame w now nonce frame data msg_key dev member s =
     (let kind = str_field w frame ''kind'' in
      case is_blocked (ln_policy s) member dev (ln_trust s) of (t, blocked) \<Rightarrow>
      let s1 = s\<lparr>ln_trust := t\<rparr> in
      if blocked then (ack_message msg_key ''rejected'' ''policy-denied'' [] s1, True)
      else case pair_get now dev (ln_pairs s1) of (ps, existing) \<Rightarrow>
      via_trust (pin_for dev) (\<lambda>pin s2.
        let key = frame_key w pin existing frame in
        if key = [] \<or> \<not> verify_message (wd_ed25519 w) (wd_digest w) (str_field w data ''sig'') key msg_key dev (ln_device s2) ''text'' (str_field w data ''text'')
        then (ack_message msg_key ''rejected'' ''unauthenticated'' [] s2, True)
        else
          (case frame_branch w now nonce kind dev member (device_name_for dev s2) pin key frame s2 of
             (s3, FrameRaised) \<Rightarrow> (s3, False)
           | (s3, FrameRefused) \<Rightarrow> (ack_message msg_key ''rejected'' ''pairing-refused'' [] s3, True)
           | (s3, FrameDone) \<Rightarrow> (ack_message msg_key ''delivered'' [] [] (announce_trust_notices w s3), True)))
        (s1\<lparr>ln_pairs := ps\<rparr>))"

datatype pair_reply = PairUnavailable | AlreadyPaired | TargetOffline string | PairBusy | PairState pair_error | PairOk string

fun state_text :: "pair_state \<Rightarrow> string" where
  "state_text AwaitingResponse = ''awaiting-response''"
| "state_text AwaitingLocal = ''awaiting-local''"
| "state_text AwaitingRemote = ''awaiting-remote''"

text \<open>The three calls of the user's own windows: an exception has no reply.\<close>

definition start_pairing :: "world \<Rightarrow> rat \<Rightarrow> string \<Rightarrow> string \<Rightarrow> link \<Rightarrow> link \<times> pair_reply option" where
  "start_pairing w now nonce dev s =
     (if \<not> ln_up s then (s, Some PairUnavailable)
      else case pin_for dev (ln_trust s) of
        (t, Inl e) \<Rightarrow> (s\<lparr>ln_trust := t\<rparr>, None)
      | (t, Inr (Some p)) \<Rightarrow> (s\<lparr>ln_trust := t\<rparr>, Some AlreadyPaired)
      | (t, Inr None) \<Rightarrow>
          (let s1 = s\<lparr>ln_trust := t\<rparr>; name = device_name_for dev s1 in
           if \<not> device_online dev s1 then (s1, Some (TargetOffline (str_or name dev)))
           else case pair_begin now now nonce dev name [] [] (ln_pairs s1) of
             (ps, Inl e) \<Rightarrow> (s1\<lparr>ln_pairs := ps\<rparr>, Some PairBusy)
           | (ps, Inr p) \<Rightarrow>
               (case send_pair_frame dev ''pair-request'' (own_keys w (pr_our_nonce p)) (s1\<lparr>ln_pairs := ps\<rparr>) of
                  (s2, sent) \<Rightarrow>
                    if sent then (s2, Some (PairOk (state_text (pr_state p))))
                    else (s2\<lparr>ln_pairs := fst (pair_cancel dev (ln_pairs s2))\<rparr>, Some PairUnavailable))))"

definition confirm_pairing :: "world \<Rightarrow> rat \<Rightarrow> string \<Rightarrow> bool \<Rightarrow> link \<Rightarrow> link \<times> pair_reply option" where
  "confirm_pairing w now dev accept s =
     (if \<not> accept then
        (case pair_cancel dev (ln_pairs s) of
           (ps, cancelled) \<Rightarrow>
             let s1 = s\<lparr>ln_pairs := ps\<rparr>;
                 s2 = (if cancelled = None then s1 else fst (send_pair_frame dev ''pair-reject'' [] s1))
             in (announce_trust_notices w s2, Some (PairOk ''rejected'')))
      else case pair_confirm now dev (ln_pairs s) of
        (ps, Inl e) \<Rightarrow> (s\<lparr>ln_pairs := ps\<rparr>, Some (PairState e))
      | (ps, Inr p) \<Rightarrow>
          (case finish_pairing w now dev (member_id_for dev s) (fst (send_pair_frame dev ''pair-confirm'' [] (s\<lparr>ln_pairs := ps\<rparr>))) of
             (s1, ok) \<Rightarrow> if ok then (announce_trust_notices w s1, Some (PairOk ''confirmed'')) else (s1, None)))"

definition revoke_pairing :: "string \<Rightarrow> link \<Rightarrow> link" where
  "revoke_pairing dev s = fst (send_pair_frame dev ''pair-revoked'' [] (s\<lparr>ln_pairs := fst (pair_cancel dev (ln_pairs s))\<rparr>))"

record pair_row =
  pw_device :: string
  pw_name :: string
  pw_role :: pair_role
  pw_state :: pair_state
  pw_code :: string
  pw_fingerprint :: string
  pw_started :: rat

definition pairing_rows :: "(string \<Rightarrow> nat) \<Rightarrow> world \<Rightarrow> rat \<Rightarrow> link \<Rightarrow> link \<times> pair_row list" where
  "pairing_rows sha w now s =
     (case pair_active now (ln_pairs s) of
        (ps, active) \<Rightarrow>
          (s\<lparr>ln_pairs := ps\<rparr>,
           map (\<lambda>p. \<lparr>pw_device = pr_device p, pw_name = str_or (pr_name p) (device_name_for (pr_device p) s), pw_role = pr_role p,
                    pw_state = pr_state p, pw_code = code_for sha (wd_sign_key w) (wd_enc_key w) p,
                    pw_fingerprint = wd_fingerprint w (pr_their_key p), pw_started = pr_started p\<rparr>) active))"


section \<open>A message for a pane on this machine\<close>

text \<open>
  \<open>_note_inbound\<close>: claim the key in memory, then ask and write the durable ledger. The ledger may be unable to save: that exception is
  \<open>Inl\<close>. \<open>tick\<close> is the monotonic clock.
\<close>

definition claim_inbound :: "rat \<Rightarrow> string \<Rightarrow> (string \<times> inbound) list \<Rightarrow> (string \<times> inbound) list" where
  "claim_inbound tick key m =
     (let live = filter (\<lambda>(k, e). \<not> MESSAGE_MEMORY_TTL_S \<le> tick - ib_created e) m;
          room = drop (Suc (length live) - MESSAGE_MEMORY_MAX) live
      in dset key \<lparr>ib_created = tick, ib_pane = [], ib_acked = False, ib_ack = None, ib_unsent = False\<rparr> room)"

definition note_inbound :: "rat \<Rightarrow> rat \<Rightarrow> string \<Rightarrow> link \<Rightarrow> link \<times> (trust_error + bool)" where
  "note_inbound tick now key s =
     (if has_key key (ln_inbound s) then (s, Inr False)
      else
        (let s1 = s\<lparr>ln_inbound := claim_inbound tick key (ln_inbound s)\<rparr> in
         case has_seen_message key (ln_trust s1) of
           (t, True) \<Rightarrow> (s1\<lparr>ln_trust := t\<rparr>, Inr False)
         | (t, False) \<Rightarrow>
             (case note_seen_message now key t of
                (t1, Inl e) \<Rightarrow> (s1\<lparr>ln_trust := t1\<rparr>, Inl e)
              | (t1, Inr u) \<Rightarrow> (s1\<lparr>ln_trust := t1\<rparr>, Inr True))))"

text \<open>\<open>_own_device\<close>, and \<open>_authenticate_sender\<close>: nothing when the message must be refused.\<close>

definition own_device :: "string \<Rightarrow> pin \<Rightarrow> bool" where
  "own_device own_member p = (own_member \<noteq> [] \<and> pn_member_id p = own_member \<and> pn_approved p)"

definition message_body :: "world \<Rightarrow> (string \<times> jval) list \<Rightarrow> string \<times> string" where
  "message_body w data =
     (let cipher = str_field w data ''cipher'' in if cipher \<noteq> [] then (''cipher'', cipher) else (''text'', str_field w data ''text''))"

definition authenticate_sender ::
    "world \<Rightarrow> rat \<Rightarrow> (string \<times> jval) list \<Rightarrow> string \<Rightarrow> string \<Rightarrow> string \<Rightarrow> (bool option \<Rightarrow> link \<Rightarrow> handled) \<Rightarrow> link \<Rightarrow> handled" where
  "authenticate_sender w now data msg_key dev member k s =
     (let sig = str_field w data ''sig''; (kind, body) = message_body w data in
      if dev = [] \<or> sig = [] then k None s
      else via_trust (pin_for dev) (\<lambda>pin s1.
        let advertised = sign_public_key_for (ln_roster s1) dev in
        case pin of
          None \<Rightarrow> k None s1
        | Some p \<Rightarrow>
            if advertised \<noteq> [] \<and> advertised \<noteq> pn_sign_key p
            then via_trust (note_key_change (wd_fingerprint w) now dev (pn_sign_key p) advertised member)
                   (\<lambda>_ s2. k None (announce_trust_notices w s2)) s1
            else if \<not> verify_message (wd_ed25519 w) (wd_digest w) sig (pn_sign_key p) msg_key dev (ln_device s1) kind body then k None s1
            else via_trust (note_knock dev)
                   (\<lambda>knocked s2. k (Some (own_device (ln_own_member s2) p)) (if knocked then announce_trust_notices w s2 else s2)) s1) s)"

text \<open>\<open>_deliver\<close>: the hand-over to the window that owns the pane.\<close>

definition from_display :: "world \<Rightarrow> (string \<times> jval) list \<Rightarrow> string" where
  "from_display w source =
     join_with ''/'' (filter (\<lambda>x. x \<noteq> []) [str_field w source ''deviceId'', str_field w source ''workspace'', str_field w source ''paneName''])"

definition deliver :: "world \<Rightarrow> rat \<Rightarrow> string \<Rightarrow> reg_pane \<Rightarrow> (string \<times> jval) list \<Rightarrow> string \<Rightarrow> link \<Rightarrow> link" where
  "deliver w now msg_key pane source txt s =
     (if rp_agent_key pane = ''terminal'' then ack_message msg_key ''rejected'' ''terminal-external'' [] s
      else
        (let display = from_display w source;
             (reg, taint) = mark_tainted now (rp_pane_id pane) ''remote'' (''message from device '' @ display) msg_key (ln_registry s, ln_taint s)
         in emit (DeliverEvent \<lparr>dv_key = msg_key, dv_pane = rp_pane_id pane, dv_workspace_path = rp_workspace_path pane, dv_name = rp_name pane,
                   dv_agent = rp_agent_key pane, dv_display = str_or display ''another device'', dv_content = txt\<rparr>)
              (s\<lparr>ln_registry := reg, ln_taint := taint\<rparr>)))"

text \<open>The stages of \<open>_receive_message\<close>, last first: open the message for a pane that was found.\<close>

definition set_inbound_pane :: "string \<Rightarrow> string \<Rightarrow> link \<Rightarrow> link option" where
  "set_inbound_pane key pane s =
     (case dget (ln_inbound s) key of
        None \<Rightarrow> None
      | Some e \<Rightarrow> Some (s\<lparr>ln_inbound := dset key (e\<lparr>ib_pane := pane\<rparr>) (ln_inbound s)\<rparr>))"

definition hand_over :: "world \<Rightarrow> rat \<Rightarrow> string \<Rightarrow> reg_pane \<Rightarrow> (string \<times> jval) list \<Rightarrow> string \<Rightarrow> link \<Rightarrow> handled" where
  "hand_over w now msg_key pane source txt s =
     (case set_inbound_pane msg_key (rp_pane_id pane) s of
        None \<Rightarrow> (s, False)
      | Some s1 \<Rightarrow> (deliver w now msg_key pane source txt s1, True))"

definition open_message :: "world \<Rightarrow> rat \<Rightarrow> (string \<times> jval) list \<Rightarrow> string \<Rightarrow> reg_pane \<Rightarrow> (string \<times> jval) list \<Rightarrow> link \<Rightarrow> handled" where
  "open_message w now data msg_key pane source s =
     (let cipher = str_field w data ''cipher''; dev = str_field w source ''deviceId'' in
      if cipher \<noteq> [] then
        (case wd_open w cipher dev (ln_device s) of
           None \<Rightarrow> (ack_message msg_key ''rejected'' ''undecryptable'' [] s, True)
         | Some txt \<Rightarrow> hand_over w now msg_key pane source txt s)
      else
        (let plain = hand_over w now msg_key pane source (str_field w data ''text'') in
         if dev = [] then plain s
         else via_trust (is_encrypted_peer dev)
           (\<lambda>encrypting s1.
              if encrypting then
                (ack_message msg_key ''rejected'' ''plaintext-downgrade'' []
                   (s1\<lparr>ln_trust := fst (note_plaintext_refused now dev msg_key (ln_trust s1))\<rparr>), True)
              else plain s1) s))"

text \<open>Resolve the pane, and record that something is about to drive it.\<close>

definition resolve_message :: "world \<Rightarrow> string list \<Rightarrow> rat \<Rightarrow> (string \<times> jval) list \<Rightarrow> string \<Rightarrow> link \<Rightarrow> handled" where
  "resolve_message w local_ids now data msg_key s =
     (let source = dict_field data ''from''; target = dict_field data ''to''; dev = str_field w source ''deviceId'';
          ws = str_field w target ''workspace''; name = str_field w target ''paneName'' in
      case resolve_address local_ids now (ln_registry s) []
             \<lparr>ad_pane_name = name, ad_workspace = ws, ad_device_id = [], ad_pane_id = str_field w target ''paneId''\<rparr> of
        (reg, Inl e) \<Rightarrow> (ack_message msg_key ''failed'' (error_code e) [] (s\<lparr>ln_registry := reg\<rparr>), True)
      | (reg, Inr (pane, cross)) \<Rightarrow>
          via_trust (note_remote_command now dev (device_name_for dev s) ws name)
            (\<lambda>_ s1. open_message w now data msg_key pane source (announce_trust_notices w s1)) (s\<lparr>ln_registry := reg\<rparr>))"

text \<open>The three rings: refuse, or go on.\<close>

definition authorize_message :: "world \<Rightarrow> string list \<Rightarrow> rat \<Rightarrow> (string \<times> jval) list \<Rightarrow> string \<Rightarrow> bool \<Rightarrow> link \<Rightarrow> handled" where
  "authorize_message w local_ids now data msg_key own s =
     (let source = dict_field data ''from''; target = dict_field data ''to'';
          dev = str_field w source ''deviceId''; member = str_field w source ''memberId'';
          ws = str_field w target ''workspace''; name = str_field w target ''paneName'' in
      case ring_of (ln_policy s) member dev own (ln_trust s) of (t, ring) \<Rightarrow>
      let s1 = s\<lparr>ln_trust := t\<rparr> in
      if ring = RingBlocked then (ack_message msg_key ''rejected'' ''policy-denied'' [] s1, True)
      else if ring \<noteq> RingSelf \<and> \<not> is_allowed (ln_policy s1) \<lparr>rq_member = member, rq_device = dev, rq_workspace = ws, rq_pane = name\<rparr> then
        (ack_message msg_key ''rejected'' ''policy-denied'' []
           (announce_access_requests now
              (s1\<lparr>ln_knocks := fst (knocks_record now now member dev (device_name_for dev s1) ws name (ln_knocks s1))\<rparr>)), True)
      else resolve_message w local_ids now data msg_key s1)"

definition refuse_unauthenticated :: "string \<Rightarrow> string \<Rightarrow> link \<Rightarrow> handled" where
  "refuse_unauthenticated msg_key dev s =
     via_trust (pin_for dev)
       (\<lambda>pin s1. (ack_message msg_key ''rejected'' (if pin = None then ''not-paired'' else ''unauthenticated'') [] s1, True)) s"

definition receive_claimed ::
    "world \<Rightarrow> string list \<Rightarrow> rat \<Rightarrow> string \<Rightarrow> policy_reply \<Rightarrow> (string \<times> jval) list \<Rightarrow> string \<Rightarrow> link \<Rightarrow> handled" where
  "receive_claimed w local_ids now nonce reply data msg_key s =
     (if ln_trust_locked s then (ack_message msg_key ''rejected'' ''trust-unavailable'' [] s, True)
      else
        (let source = dict_field data ''from''; target = dict_field data ''to'';
             dev = str_field w source ''deviceId''; member = str_field w source ''memberId'' in
         case parse_frame (wd_loads w) (jget data ''text'') of
           FrameUnhashable \<Rightarrow> (s, False)
         | Frame frame \<Rightarrow> on_pair_frame w now nonce frame data msg_key dev member s
         | NotAFrame \<Rightarrow>
             if str_field w target ''workspace'' = PAIRING_WORKSPACE \<or> str_field w target ''paneName'' = PAIRING_PANE
             then (ack_message msg_key ''rejected'' ''pairing-refused'' [] s, True)
             else authenticate_sender w now data msg_key dev member
               (\<lambda>own s1. case own of
                  None \<Rightarrow> refuse_unauthenticated msg_key dev s1
                | Some b \<Rightarrow> and_then (ensure_policy w now reply s1) (authorize_message w local_ids now data msg_key b)) s))"

definition receive_message ::
    "world \<Rightarrow> string list \<Rightarrow> rat \<Rightarrow> rat \<Rightarrow> string \<Rightarrow> policy_reply \<Rightarrow> (string \<times> jval) list \<Rightarrow> string \<Rightarrow> link \<Rightarrow> handled" where
  "receive_message w local_ids tick now nonce reply data msg_key s =
     (if msg_key = [] then (s, True)
      else case note_inbound tick now msg_key s of
        (s1, Inl e) \<Rightarrow> (s1, False)
      | (s1, Inr False) \<Rightarrow>
          ((case dget (ln_inbound s1) msg_key of
              Some e \<Rightarrow> (case ib_ack e of Some a \<Rightarrow> send_ack msg_key a s1 | None \<Rightarrow> s1) | None \<Rightarrow> s1), True)
      | (s1, Inr True) \<Rightarrow> receive_claimed w local_ids now nonce reply data msg_key s1)"

text \<open>\<open>_on_message_pending\<close>: an exception is answered, when the claim is still there.\<close>

definition on_message_pending ::
    "world \<Rightarrow> string list \<Rightarrow> rat \<Rightarrow> rat \<Rightarrow> string \<Rightarrow> policy_reply \<Rightarrow> jval \<Rightarrow> link \<Rightarrow> link" where
  "on_message_pending w local_ids tick now nonce reply payload s =
     (let data = (case payload of JDict d \<Rightarrow> d | _ \<Rightarrow> []); msg_key = str_field w data ''msgKey'' in
      case receive_message w local_ids tick now nonce reply data msg_key s of
        (s1, True) \<Rightarrow> s1
      | (s1, False) \<Rightarrow>
          (case dget (ln_inbound s1) msg_key of
             None \<Rightarrow> s1
           | Some e \<Rightarrow> if ib_acked e then s1 else ack_message msg_key ''failed'' ''receiver-error'' [] s1))"

end
