(* ===== verification/Link_Facts.thy ===== *)
theory Link_Facts
  imports Server_Link
begin

text \<open>
  Facts about the handlers of the server link. \<open>calm\<close> is the relation between the states before and after everything in the delivery path but
  the hand-over itself: nothing is delivered, the trust store takes only steps that change no pin, and the identity of this machine stays.
\<close>

section \<open>What is handed over\<close>

definition deliveries :: "link \<Rightarrow> delivery list" where
  "deliveries s = List.map_filter (\<lambda>e. case e of DeliverEvent d \<Rightarrow> Some d | _ \<Rightarrow> None) (ln_out s)"

lemma map_filter_append: "List.map_filter f (xs @ ys) = List.map_filter f xs @ List.map_filter f ys"
  by (induction xs) (simp_all add: List.map_filter_simps split: option.split)

lemma deliveries_emit [simp]:
  "deliveries (emit (SentAck a) s) = deliveries s"
  "deliveries (emit (SentFrame dev f) s) = deliveries s"
  "deliveries (emit (AdoptKey dev x) s) = deliveries s"
  "deliveries (emit NoticesChanged s) = deliveries s"
  "deliveries (emit KnocksChanged s) = deliveries s"
  "deliveries (emit (DeliverEvent d) s) = deliveries s @ [d]"
  by (simp_all add: deliveries_def emit_def map_filter_append List.map_filter_simps)

lemma deliveries_update [simp]:
  "deliveries (s\<lparr>ln_trust := t\<rparr>) = deliveries s" "deliveries (s\<lparr>ln_pairs := ps\<rparr>) = deliveries s"
  "deliveries (s\<lparr>ln_inbound := m\<rparr>) = deliveries s" "deliveries (s\<lparr>ln_knocks := k\<rparr>) = deliveries s"
  "deliveries (s\<lparr>ln_policy := p\<rparr>) = deliveries s" "deliveries (s\<lparr>ln_revision := r\<rparr>) = deliveries s"
  "deliveries (s\<lparr>ln_registry := g\<rparr>) = deliveries s" "deliveries (s\<lparr>ln_taint := tn\<rparr>) = deliveries s"
  by (simp_all add: deliveries_def)

lemma emit_fields [simp]:
  "ln_device (emit e s) = ln_device s" "ln_own_member (emit e s) = ln_own_member s" "ln_up (emit e s) = ln_up s"
  "ln_trust_locked (emit e s) = ln_trust_locked s" "ln_policy (emit e s) = ln_policy s" "ln_revision (emit e s) = ln_revision s"
  "ln_directory (emit e s) = ln_directory s" "ln_roster (emit e s) = ln_roster s" "ln_registry (emit e s) = ln_registry s"
  "ln_taint (emit e s) = ln_taint s" "ln_inbound (emit e s) = ln_inbound s" "ln_knocks (emit e s) = ln_knocks s"
  "ln_pairs (emit e s) = ln_pairs s" "ln_trust (emit e s) = ln_trust s" "ln_has_key (emit e s) = ln_has_key s" "ln_online (emit e s) = ln_online s"
  by (simp_all add: emit_def)


section \<open>Steps of the trust store that change no pin\<close>

fun quiet_op :: "trust_op \<Rightarrow> bool" where
  "quiet_op (OpPin now dev k m own) = False"
| "quiet_op (OpApprove dev) = False"
| "quiet_op (OpPair now dev k e m own) = False"
| "quiet_op (OpForget dev) = False"
| "quiet_op OpRebuild = False"
| "quiet_op (OpVault r w) = False"
| "quiet_op OpRestart = False"
| "quiet_op (OpUnblock dev m) = False"
| "quiet_op _ = True"

definition trust_path :: "world \<Rightarrow> (trust_op \<Rightarrow> bool) \<Rightarrow> tstate \<Rightarrow> tstate \<Rightarrow> bool" where
  "trust_path w permitted t t' = (\<exists>ops. list_all permitted ops \<and> t' = run_ops (trust_step (wd_fingerprint w) (\<lambda>u v. [])) t ops)"

lemma trust_path_refl [simp]: "trust_path w P t t"
  unfolding trust_path_def by (rule exI [of _ "[]"]) simp

lemma trust_path_trans: "trust_path w P t u \<Longrightarrow> trust_path w P u v \<Longrightarrow> trust_path w P t v"
  unfolding trust_path_def by (metis list_all_append run_ops_append)

lemma trust_path_op: "P op \<Longrightarrow> trust_path w P t (trust_step (wd_fingerprint w) (\<lambda>u v. []) t op)"
  unfolding trust_path_def by (rule exI [of _ "[op]"]) simp

text \<open>The calls of the handlers as operations of the store.\<close>

lemma read_op: "fst (load_locked t) = trust_step fp dg t OpRead" by simp

lemma try_load_fst: "fst (try_load t) = fst (load_locked t)"
  by (simp add: try_load_def split: prod.splits sum.splits)

lemma pin_for_fst: "dev \<noteq> [] \<Longrightarrow> fst (pin_for dev t) = fst (load_locked t)"
  by (simp add: pin_for_loaded)

lemma with_keep_fst: "fst (with_doc (\<lambda>d. Keep (g d)) t) = fst (load_locked t)"
  by (simp add: with_doc_keep)


abbreviation quiet_path :: "world \<Rightarrow> tstate \<Rightarrow> tstate \<Rightarrow> bool" where
  "quiet_path w \<equiv> trust_path w quiet_op"

lemma path_by_op: "P op \<Longrightarrow> trust_step (wd_fingerprint w) (\<lambda>u v. []) t op = t' \<Longrightarrow> trust_path w P t t'"
  using trust_path_op by blast

lemma quiet_read: "quiet_path w t (fst (load_locked t))"
  by (rule path_by_op [of _ OpRead]) simp_all

lemma reading_calls:
  "fst (notices t) = fst (load_locked t)"
  "fst (unapproved_devices fp t) = fst (load_locked t)"
  "fst (is_blocked_locally dev m t) = fst (load_locked t)"
  "fst (has_seen_message k t) = (if has_key k (ts_pending t) then t else fst (load_locked t))"
  unfolding try_load_fst [symmetric]
  by (auto simp: notices_def unapproved_devices_def is_blocked_locally_def has_seen_message_def split: prod.split option.split)

lemma quiet_calls:
  "quiet_path w t (fst (pin_for dev t))"
  "quiet_path w t (fst (policy_seq dev t))"
  "quiet_path w t (fst (is_encrypted_peer dev t))"
  "quiet_path w t (fst (notices t))"
  "quiet_path w t (fst (unapproved_devices fp t))"
  "quiet_path w t (fst (is_blocked_locally dev m t))"
  "quiet_path w t (fst (has_seen_message k t))"
  "quiet_path w t (fst (note_policy_unverified now why dev n t))"
  "quiet_path w t (fst (note_policy_seq dev i t))"
  "quiet_path w t (fst (clear_policy_notice t))"
  "quiet_path w t (fst (note_key_change (wd_fingerprint w) now dev k k' m t))"
  "quiet_path w t (fst (note_knock dev t))"
  "quiet_path w t (fst (note_plaintext_refused now dev k t))"
  "quiet_path w t (fst (note_remote_command now dev name ws pane t))"
  "quiet_path w t (fst (note_pairing now dev kind name t))"
  "quiet_path w t (fst (note_seen_message now k t))"
  subgoal by (cases "dev = []") (simp_all add: pin_for_fst quiet_read, simp add: pin_for_def)
  subgoal by (simp add: policy_seq_def with_keep_fst quiet_read)
  subgoal by (simp add: is_encrypted_peer_def with_keep_fst quiet_read)
  subgoal by (simp add: reading_calls quiet_read)
  subgoal by (simp add: reading_calls quiet_read)
  subgoal by (simp add: reading_calls quiet_read)
  subgoal by (simp add: reading_calls quiet_read)
  subgoal by (rule path_by_op [of _ "OpUnverified now why dev n"]) simp_all
  subgoal by (rule path_by_op [of _ "OpNoteSeq dev i"]) simp_all
  subgoal by (rule path_by_op [of _ OpClearPolicy]) simp_all
  subgoal by (rule path_by_op [of _ "OpKeyChange now dev k k' m"]) simp_all
  subgoal by (rule path_by_op [of _ "OpKnock dev"]) simp_all
  subgoal by (rule path_by_op [of _ "OpRefused now dev k"]) simp_all
  subgoal by (rule path_by_op [of _ "OpCommand now dev name ws pane"]) simp_all
  subgoal by (rule path_by_op [of _ "OpPairing now dev kind name"]) simp_all
  subgoal by (rule path_by_op [of _ "OpSeen now k"]) simp_all
  done

lemma quiet_is_blocked: "quiet_path w t (fst (is_blocked policy m dev t))"
  using quiet_calls(6) by (auto simp: is_blocked_def)

lemma quiet_ring: "quiet_path w t (fst (ring_of policy m dev own t))"
  using quiet_is_blocked [of w t policy m dev] by (cases "is_blocked policy m dev t") (simp add: ring_of_def)


section \<open>Calm handlers\<close>

text \<open>The claimed keys with the time of their claim, oldest first.\<close>

definition stamps :: "(string \<times> inbound) list \<Rightarrow> (string \<times> rat) list" where
  "stamps m = map (\<lambda>(k, e). (k, ib_created e)) m"

definition calm :: "world \<Rightarrow> link \<Rightarrow> link \<Rightarrow> bool" where
  "calm w s s' =
     (deliveries s' = deliveries s \<and> quiet_path w (ln_trust s) (ln_trust s') \<and> stamps (ln_inbound s') = stamps (ln_inbound s) \<and>
      ln_device s' = ln_device s \<and> ln_own_member s' = ln_own_member s \<and> ln_roster s' = ln_roster s \<and> ln_trust_locked s' = ln_trust_locked s \<and>
      ln_directory s' = ln_directory s \<and> ln_pairs s' = ln_pairs s \<and> ln_policy s' = ln_policy s)"

lemma calm_refl [simp]: "calm w s s"
  by (simp add: calm_def)

lemma calm_trans [trans]: "calm w s s' \<Longrightarrow> calm w s' s'' \<Longrightarrow> calm w s s''"
  using trust_path_trans [of w quiet_op "ln_trust s" "ln_trust s'" "ln_trust s''"] by (simp add: calm_def)

lemma calm_trust: "quiet_path w (ln_trust s) t \<Longrightarrow> calm w s (s\<lparr>ln_trust := t\<rparr>)"
  by (simp add: calm_def)

lemma calm_simps [simp]:
  "calm w s (s\<lparr>ln_revision := r\<rparr>)" "calm w s (s\<lparr>ln_registry := g\<rparr>)" "calm w s (s\<lparr>ln_taint := tn\<rparr>)"
  "calm w s (s\<lparr>ln_knocks := k\<rparr>)"
  by (simp_all add: calm_def)

lemma stamps_dset: "dget m k = Some e \<Longrightarrow> ib_created e' = ib_created e \<Longrightarrow> stamps (dset k e' m) = stamps m"
  by (induction m) (auto simp: stamps_def split: if_splits)

lemma calm_send_ack: "calm w s (send_ack key a s)"
  by (cases "dget (ln_inbound s) key") (simp_all add: send_ack_def calm_def Let_def stamps_dset)

lemma calm_ack: "calm w s (ack_message key st reason pane s)"
proof -
  have "calm w s (case dget (ln_inbound s) key of
      None \<Rightarrow> s | Some e \<Rightarrow> s\<lparr>ln_inbound := dset key (e\<lparr>ib_acked := True, ib_ack := a\<rparr>) (ln_inbound s)\<rparr>)" for a
    by (auto simp: calm_def stamps_dset split: option.split)
  from calm_trans [OF this calm_send_ack] show ?thesis by (simp add: ack_message_def Let_def)
qed

lemma calm_announce: "calm w s (announce_trust_notices w s)"
  using trust_path_trans [OF quiet_calls(4) quiet_calls(5)] by (simp add: announce_trust_notices_def calm_def)

lemma calm_announce_knocks: "calm w s (announce_access_requests now s)"
  by (simp add: announce_access_requests_def calm_def)

text \<open>A call into the store ends the handler with its exception, or goes on.\<close>

lemma via_trust_cases:
  assumes "via_trust f k s = r" and "\<And>t. quiet_path w t (fst (f t))"
  obtains s1 where "calm w s s1" "r = (s1, False)"
  | s1 x where "calm w s s1" "s1 = s\<lparr>ln_trust := fst (f (ln_trust s))\<rparr>" "snd (f (ln_trust s)) = Inr x" "r = k x s1"
proof (cases "f (ln_trust s)")
  case (Pair t res)
  have c: "calm w s (s\<lparr>ln_trust := t\<rparr>)" using assms(2) [of "ln_trust s"] Pair by (intro calm_trust) simp
  show thesis
  proof (cases res)
    case (Inl e)
    with assms(1) Pair have "r = (s\<lparr>ln_trust := t\<rparr>, False)" by (simp add: via_trust_def)
    with c show thesis by (rule that(1))
  next
    case (Inr x)
    with assms(1) Pair have "r = k x (s\<lparr>ln_trust := t\<rparr>)" by (simp add: via_trust_def)
    with c Pair Inr show thesis by (intro that(2)) simp_all
  qed
qed

lemma calm_via:
  assumes "\<And>t. quiet_path w t (fst (f t))" and "\<And>x s1. calm w s s1 \<Longrightarrow> calm w s1 (fst (k x s1))"
  shows "calm w s (fst (via_trust f k s))"
proof (rule via_trust_cases [where f = f and k = k and s = s, OF refl assms(1)])
  fix s1 x assume c: "calm w s s1" and r: "via_trust f k s = k x s1"
  show ?thesis unfolding r by (rule calm_trans [OF c assms(2) [OF c]])
qed simp


section \<open>The stages of the delivery path\<close>

definition genuine :: "world \<Rightarrow> (string \<times> jval) list \<Rightarrow> string \<Rightarrow> string \<Rightarrow> link \<Rightarrow> pin \<Rightarrow> bool" where
  "genuine w data msg_key dev s p =
     (verify_message (wd_ed25519 w) (wd_digest w) (str_field w data ''sig'') (pn_sign_key p) msg_key dev (ln_device s)
        (fst (message_body w data)) (snd (message_body w data)) \<and>
      (sign_public_key_for (ln_roster s) dev = [] \<or> sign_public_key_for (ln_roster s) dev = pn_sign_key p))"

lemma authenticate_cases:
  assumes "authenticate_sender w now data msg_key dev member k s = r"
  obtains s1 where "calm w s s1" "r = (s1, False)"
  | s1 where "calm w s s1" "r = k None s1"
  | s1 p t where "calm w s s1" "r = k (Some (own_device (ln_own_member s) p)) s1" "quiet_path w (ln_trust s) t" "dev \<noteq> []"
      "snd (pin_for dev t) = Inr (Some p)" "genuine w data msg_key dev s p"
proof -
  obtain kind body where kb: "message_body w data = (kind, body)" by (cases "message_body w data")
  let ?sig = "str_field w data ''sig''"
  show thesis
  proof (cases "dev = [] \<or> ?sig = []")
    case True
    with assms have "r = k None s" by (simp add: authenticate_sender_def Let_def kb)
    then show thesis by (intro that(2) [of s]) simp_all
  next
    case False
    let ?adv = "\<lambda>s1. sign_public_key_for (ln_roster s1) dev"
    let ?rest = "\<lambda>pin s1. case pin of None \<Rightarrow> k None s1
        | Some p \<Rightarrow>
            if ?adv s1 \<noteq> [] \<and> ?adv s1 \<noteq> pn_sign_key p
            then via_trust (note_key_change (wd_fingerprint w) now dev (pn_sign_key p) (?adv s1) member)
                   (\<lambda>_ s2. k None (announce_trust_notices w s2)) s1
            else if \<not> verify_message (wd_ed25519 w) (wd_digest w) ?sig (pn_sign_key p) msg_key dev (ln_device s1) kind body then k None s1
            else via_trust (note_knock dev)
                   (\<lambda>knocked s2. k (Some (own_device (ln_own_member s2) p)) (if knocked then announce_trust_notices w s2 else s2)) s1"
    from False assms have r: "via_trust (pin_for dev) ?rest s = r" by (simp add: authenticate_sender_def Let_def kb)
    show thesis
    proof (rule via_trust_cases [OF r quiet_calls(1)])
      fix s1 pin
      assume c: "calm w s s1" and s1: "s1 = s\<lparr>ln_trust := fst (pin_for dev (ln_trust s))\<rparr>" and pin: "snd (pin_for dev (ln_trust s)) = Inr pin"
        and r1: "r = ?rest pin s1"
      have same: "ln_device s1 = ln_device s" "ln_own_member s1 = ln_own_member s" "ln_roster s1 = ln_roster s" by (simp_all add: s1)
      show thesis
      proof (cases pin)
        case None
        with c r1 show thesis by (intro that(2)) simp_all
      next
        case (Some p)
        consider (changed) "?adv s1 \<noteq> [] \<and> ?adv s1 \<noteq> pn_sign_key p"
          | (forged) "\<not> (?adv s1 \<noteq> [] \<and> ?adv s1 \<noteq> pn_sign_key p)"
              "\<not> verify_message (wd_ed25519 w) (wd_digest w) ?sig (pn_sign_key p) msg_key dev (ln_device s1) kind body"
          | (good) "\<not> (?adv s1 \<noteq> [] \<and> ?adv s1 \<noteq> pn_sign_key p)"
              "verify_message (wd_ed25519 w) (wd_digest w) ?sig (pn_sign_key p) msg_key dev (ln_device s1) kind body" by blast
        then show thesis
        proof cases
          case changed
          with r1 Some have "via_trust (note_key_change (wd_fingerprint w) now dev (pn_sign_key p) (?adv s1) member)
              (\<lambda>_ s2. k None (announce_trust_notices w s2)) s1 = r" by simp
          then show thesis
          proof (rule via_trust_cases [OF _ quiet_calls(11)])
            fix s2 assume "calm w s1 s2" "r = (s2, False)"
            with c show thesis using calm_trans that(1) by blast
          next
            fix s2 assume "calm w s1 s2" "r = k None (announce_trust_notices w s2)"
            with c show thesis using calm_trans calm_announce that(2) by blast
          qed
        next
          case forged
          with r1 Some c show thesis by (intro that(2)) auto
        next
          case good
          have g: "genuine w data msg_key dev s p" using good by (auto simp: genuine_def kb same)
          from good r1 Some have "via_trust (note_knock dev)
              (\<lambda>knocked s2. k (Some (own_device (ln_own_member s2) p)) (if knocked then announce_trust_notices w s2 else s2)) s1 = r" by auto
          then show thesis
          proof (rule via_trust_cases [OF _ quiet_calls(12)])
            fix s2 assume "calm w s1 s2" "r = (s2, False)"
            with c show thesis using calm_trans that(1) by blast
          next
            fix s2 knocked
            assume s2: "calm w s1 s2" and r2: "r = k (Some (own_device (ln_own_member s2) p)) (if knocked then announce_trust_notices w s2 else s2)"
            have "ln_own_member s2 = ln_own_member s" using s2 same(2) by (simp add: calm_def)
            moreover have "calm w s (if knocked then announce_trust_notices w s2 else s2)"
              using calm_trans [OF c s2] calm_trans [OF _ calm_announce] by simp
            ultimately show thesis using r2 False pin Some g by (intro that(3)) auto
          qed
        qed
      qed
    qed (rule that(1))
  qed
qed


text \<open>
  A document the machine takes was signed by this machine's own key for this device, and its sequence is not behind the recorded one.
\<close>

definition signed_here :: "world \<Rightarrow> string \<Rightarrow> jval \<Rightarrow> jval \<Rightarrow> int \<Rightarrow> bool" where
  "signed_here w dev raw document offered =
     (\<exists>d e. raw = JDict d \<and> document = JDict (dpop POLICY_SIGNATURE_FIELD d) \<and> jget d POLICY_SIGNATURE_FIELD = JDict e \<and>
        jget e ''seq'' = JInt offered \<and> verify_policy (wd_ed25519 w) (str_field w e ''sig'') (wd_sign_key w) dev offered document)"

lemma check_policy_taken:
  "check_policy w dev seq raw = TakePolicy document offered \<Longrightarrow> seq \<le> offered \<and> signed_here w dev raw document offered"
  by (auto simp: check_policy_def signed_here_def Let_def split: jval.splits if_splits)

lemma verified_policy_cases:
  assumes "verified_policy w now raw k s = r"
  obtains (raised) s1 where "calm w s s1" "r = (s1, False)"
  | (none) s1 where "calm w s s1" "r = k JNull s1"
  | (taken) s1 document offered seq t where "calm w s s1" "r = k document s1" "signed_here w (ln_device s) raw document offered" "\<not> ln_trust_locked s"
      "snd (policy_seq (ln_device s) (ln_trust s)) = Inr seq" "seq \<le> offered"
      "note_policy_seq (ln_device s) offered (fst (policy_seq (ln_device s) (ln_trust s))) = (t, Inr ())" "quiet_path w t (ln_trust s1)"
proof (cases "ln_trust_locked s")
  case True
  with assms none [of s] show thesis by (simp add: verified_policy_def)
next
  case False
  let ?body = "\<lambda>seq s1. case check_policy w (ln_device s1) seq raw of
          NoPolicy \<Rightarrow> k JNull s1
        | RefusePolicy why n \<Rightarrow> via_trust (note_policy_unverified now why (ln_device s1) n) (\<lambda>_. k JNull) s1
        | TakePolicy document offered \<Rightarrow>
            via_trust (note_policy_seq (ln_device s1) offered) (\<lambda>_. via_trust clear_policy_notice (\<lambda>_. k document)) s1"
  from assms False have r: "via_trust (policy_seq (ln_device s)) ?body s = r" by (simp add: verified_policy_def)
  show thesis
  proof (rule via_trust_cases [OF r quiet_calls(2)])
    fix s1 seq
    assume c: "calm w s s1" and s1: "s1 = s\<lparr>ln_trust := fst (policy_seq (ln_device s) (ln_trust s))\<rparr>"
      and seq: "snd (policy_seq (ln_device s) (ln_trust s)) = Inr seq" and r1: "r = ?body seq s1"
    have dev: "ln_device s1 = ln_device s" by (simp add: s1)
    show thesis
    proof (cases "check_policy w (ln_device s1) seq raw")
      case NoPolicy
      with c r1 show thesis by (intro none) simp_all
    next
      case (RefusePolicy why n)
      with r1 have "via_trust (note_policy_unverified now why (ln_device s1) n) (\<lambda>_. k JNull) s1 = r" by simp
      then show thesis
        by (rule via_trust_cases [OF _ quiet_calls(8)]) (rule raised none, rule calm_trans [OF c], assumption+)+
    next
      case (TakePolicy document offered)
      with r1 have "via_trust (note_policy_seq (ln_device s1) offered) (\<lambda>_. via_trust clear_policy_notice (\<lambda>_. k document)) s1 = r" by simp
      then show thesis
      proof (rule via_trust_cases [OF _ quiet_calls(9)])
        fix s2 assume "calm w s1 s2" "r = (s2, False)"
        then show thesis by (intro raised [OF calm_trans [OF c]])
      next
        fix s2 u
        assume s2: "calm w s1 s2" "s2 = s1\<lparr>ln_trust := fst (note_policy_seq (ln_device s1) offered (ln_trust s1))\<rparr>"
          and noted: "snd (note_policy_seq (ln_device s1) offered (ln_trust s1)) = Inr u" and r2: "r = via_trust clear_policy_notice (\<lambda>_. k document) s2"
        show thesis
        proof (rule via_trust_cases [OF r2 [symmetric] quiet_calls(10)])
          fix s3 assume "calm w s2 s3" "r = (s3, False)"
          then show thesis by (intro raised [OF calm_trans [OF calm_trans [OF c s2(1)]]])
        next
          fix s3 v assume s3: "calm w s2 s3" "r = k document s3"
          have "note_policy_seq (ln_device s) offered (fst (policy_seq (ln_device s) (ln_trust s))) = (ln_trust s2, Inr ())"
            using noted by (simp add: s2(2) dev s1 prod_eq_iff)
          moreover have "quiet_path w (ln_trust s2) (ln_trust s3)" using s3(1) by (simp add: calm_def)
          ultimately show thesis
            using taken [OF calm_trans [OF calm_trans [OF c s2(1)] s3(1)] s3(2)] check_policy_taken [OF TakePolicy] False seq dev by auto
        qed
      qed
    qed
  qed (rule raised)
qed


text \<open>The policy in force after a refresh: the one before, none, or the document that was taken.\<close>

definition enforceable :: "world \<Rightarrow> link \<Rightarrow> policy_reply \<Rightarrow> jval \<Rightarrow> bool" where
  "enforceable w s reply p =
     (p = ln_policy s \<or> p = JNull \<or> (\<exists>rev raw n. reply = Some (rev, raw) \<and> signed_here w (ln_device s) raw p n))"

lemma calm_set_policy: "calm w s s1 \<Longrightarrow> calm w (s\<lparr>ln_policy := p\<rparr>) (s1\<lparr>ln_policy := p\<rparr>)"
  by (simp add: calm_def)

lemma refresh_result:
  "\<exists>p. enforceable w s reply p \<and> calm w (s\<lparr>ln_policy := p\<rparr>) (fst (refresh_policy w now revision reply s))"
proof -
  have idle: "\<exists>p. enforceable w s reply p \<and> calm w (s\<lparr>ln_policy := p\<rparr>) s'" if "calm w s s'" for s'
    by (rule exI [of _ "ln_policy s"]) (use that in \<open>simp add: enforceable_def\<close>)
  show ?thesis
  proof (cases "reply = None \<or> revision \<noteq> None \<and> revision = ln_revision s")
    case True
    then show ?thesis using idle [OF calm_refl] by (auto simp: refresh_policy_def)
  next
    case False
    then obtain rev raw where reply: "reply = Some (rev, raw)" by auto
    let ?s0 = "s\<lparr>ln_revision := Some (revision_number rev)\<rparr>" and ?k = "\<lambda>p s'. (s'\<lparr>ln_policy := p\<rparr>, True)"
    have r: "refresh_policy w now revision reply s = verified_policy w now raw ?k ?s0" using False reply by (auto simp: refresh_policy_def)
    have start: "calm w s ?s0" by simp
    have took: "\<exists>p. enforceable w s reply p \<and> calm w (s\<lparr>ln_policy := p\<rparr>) (s1\<lparr>ln_policy := q\<rparr>)"
      if "calm w ?s0 s1" "enforceable w s reply q" for s1 q
      using that(2) calm_set_policy [OF calm_trans [OF start that(1)]] by blast
    show ?thesis
    proof (rule verified_policy_cases [OF r [symmetric]])
      fix s1 assume c: "calm w ?s0 s1" and e: "refresh_policy w now revision reply s = (s1, False)"
      show ?thesis unfolding e fst_conv by (rule idle [OF calm_trans [OF start c]])
    next
      fix s1 assume c: "calm w ?s0 s1" and e: "refresh_policy w now revision reply s = ?k JNull s1"
      show ?thesis unfolding e fst_conv by (rule took [OF c]) (simp add: enforceable_def)
    next
      fix s1 document offered
      assume c: "calm w ?s0 s1" and e: "refresh_policy w now revision reply s = ?k document s1"
        and d: "signed_here w (ln_device ?s0) raw document offered"
      show ?thesis unfolding e fst_conv by (rule took [OF c]) (use d reply in \<open>auto simp: enforceable_def\<close>)
    qed
  qed
qed

lemma ensure_result:
  "\<exists>p. enforceable w s reply p \<and> calm w (s\<lparr>ln_policy := p\<rparr>) (fst (ensure_policy w now reply s))"
proof (cases "ln_revision s = None")
  case True
  then show ?thesis using refresh_result by (simp add: ensure_policy_def)
next
  case False
  then show ?thesis by (intro exI [of _ "ln_policy s"]) (auto simp: ensure_policy_def enforceable_def)
qed

section \<open>Pairing frames deliver nothing\<close>

definition mute :: "link \<Rightarrow> link \<Rightarrow> bool" where
  "mute s s' = (deliveries s' = deliveries s \<and> stamps (ln_inbound s') = stamps (ln_inbound s))"

lemma calm_mute: "calm w s s' \<Longrightarrow> mute s s'"
  by (simp add: calm_def mute_def)

lemma mute_refl [simp]: "mute s s" by (simp add: mute_def)

lemma mute_trans [trans]: "mute s s' \<Longrightarrow> mute s' s'' \<Longrightarrow> mute s s''"
  by (simp add: mute_def)

lemma mute_send: "mute s (fst (send_pair_frame dev kind extra s))"
  by (auto simp: send_pair_frame_def mute_def split: option.split)

lemma mute_fields [simp]: "mute s (s\<lparr>ln_trust := t\<rparr>)" "mute s (s\<lparr>ln_pairs := ps\<rparr>)"
  by (simp_all add: mute_def)

lemma mute_via: "(\<And>x s1. mute s s1 \<Longrightarrow> mute s (fst (k x s1))) \<Longrightarrow> mute s (fst (via_trust f k s))"
  by (simp add: via_trust_def split: prod.split sum.split)

lemma mute_offer: "mute s (offer_sync_key w dev s)"
proof -
  have "mute s (fst (send_pair_frame dev k e (s\<lparr>ln_trust := t\<rparr>)))" for k e t
    by (rule mute_trans [OF _ mute_send]) simp
  then show ?thesis by (auto simp: offer_sync_key_def Let_def split: prod.split sum.split option.split)
qed

lemma mute_finish: "mute s (fst (finish_pairing w now dev member s))"
proof -
  have v: "mute s1 (fst (via_trust f (\<lambda>_ s2. (offer_sync_key w dev s2, True)) s1))" for f :: "tstate \<Rightarrow> tstate \<times> (trust_error + unit)" and s1
    by (rule mute_via) (auto intro: mute_trans [OF _ mute_offer])
  have "mute s (fst (via_trust f (\<lambda>_ s2. (offer_sync_key w dev s2, True)) (s\<lparr>ln_pairs := ps, ln_trust := t\<rparr>)))"
    for f :: "tstate \<Rightarrow> tstate \<times> (trust_error + unit)" and ps t
    by (rule mute_trans [OF _ v]) (simp add: mute_def)
  then show ?thesis by (auto simp: finish_pairing_def Let_def split: prod.split sum.split option.split) (simp_all add: mute_def)
qed

lemma mute_noted: "mute s (fst (via_trust f (\<lambda>_ s2. (s2, True)) (s\<lparr>ln_pairs := ps\<rparr>)))"
  by (rule mute_trans [OF _ mute_via]) simp_all

lemma mute_branch: "mute s (fst (frame_branch w now nonce kind dev member name pin key frame s))"
proof -
  have a: "mute s (fst (send_pair_frame dev k e (s\<lparr>ln_pairs := ps\<rparr>)))" for k e ps by (rule mute_trans [OF _ mute_send]) simp
  have b: "mute s (fst (finish_pairing w now dev member (s\<lparr>ln_pairs := ps\<rparr>)))" for ps by (rule mute_trans [OF _ mute_finish]) simp
  have c: "mute s (emit (AdoptKey dev x) s)" for x by (simp add: mute_def)
  have d: "mute s (fst (via_trust (forget_device dev)
          (\<lambda>removed s1. if fg_found removed then via_trust (note_pairing now dev ''revoked'' name) (\<lambda>_ s2. (s2, True)) s1 else (s1, True))
          (s\<lparr>ln_pairs := ps\<rparr>)))" for ps
    by (rule mute_trans [OF _ mute_via]) (auto intro!: mute_trans [OF _ mute_via])
  show ?thesis unfolding frame_branch_def Let_def
    by (auto simp: outcome_of_def a b c d mute_noted mute_offer split: prod.split sum.split option.split)
qed

lemma mute_ack: "mute s (ack_message key st reason pane s)"
  by (rule calm_mute [OF calm_ack])

lemma mute_pair_frame: "mute s (fst (on_pair_frame w now nonce frame data msg_key dev member s))"
proof -
  have fin: "mute s2 (fst (case frame_branch w now nonce kind dev member name pin key frame s2 of
             (s3, FrameRaised) \<Rightarrow> (s3, False)
           | (s3, FrameRefused) \<Rightarrow> (ack_message msg_key ''rejected'' ''pairing-refused'' [] s3, True)
           | (s3, FrameDone) \<Rightarrow> (ack_message msg_key ''delivered'' [] [] (announce_trust_notices w s3), True)))" for kind name pin key s2
    using mute_branch [of s2 w now nonce kind dev member name pin key frame] mute_ack calm_mute [OF calm_announce]
    by (auto split: prod.split frame_outcome.split intro: mute_trans) (meson mute_trans)
  obtain t b where tb: "is_blocked (ln_policy s) member dev (ln_trust s) = (t, b)" by (cases "is_blocked (ln_policy s) member dev (ln_trust s)")
  obtain ps ex where pe: "pair_get now dev (ln_pairs s) = (ps, ex)" by (cases "pair_get now dev (ln_pairs s)")
  show ?thesis
  proof (cases b)
    case True
    then show ?thesis using mute_trans [OF mute_fields(1) mute_ack] by (simp add: on_pair_frame_def tb Let_def)
  next
    case False
    show ?thesis unfolding on_pair_frame_def Let_def
      by (simp add: tb pe False) (rule mute_trans [OF _ mute_via], simp add: mute_def, auto intro: mute_trans [OF _ mute_ack] mute_trans [OF _ fin])
  qed
qed


section \<open>What a delivery rests on\<close>

text \<open>At most one delivery is added, and \<open>Q\<close> holds of it.\<close>

definition adds :: "(delivery \<Rightarrow> bool) \<Rightarrow> link \<Rightarrow> link \<Rightarrow> bool" where
  "adds Q s s' = (stamps (ln_inbound s') = stamps (ln_inbound s) \<and>
     (deliveries s' = deliveries s \<or> (\<exists>d. deliveries s' = deliveries s @ [d] \<and> Q d)))"

lemma adds_mute: "mute s s' \<Longrightarrow> adds Q s s'"
  by (simp add: adds_def mute_def)

lemma adds_calm: "calm w s s' \<Longrightarrow> adds Q s s'"
  by (rule adds_mute [OF calm_mute])

lemma adds_after: "mute s s1 \<Longrightarrow> adds Q s1 s2 \<Longrightarrow> adds Q s s2"
  by (simp add: adds_def mute_def)

lemma adds_mono: "adds Q s s' \<Longrightarrow> (\<And>d. Q d \<Longrightarrow> Q' d) \<Longrightarrow> adds Q' s s'"
  by (auto simp: adds_def)

lemma adds_deliver: "adds (\<lambda>d. dv_key d = msg_key \<and> dv_content d = txt \<and> rp_agent_key pane \<noteq> ''terminal'') s (deliver w now msg_key pane source txt s)"
  using mute_ack [of s msg_key "''rejected''" "''terminal-external''" "[]"]
  by (auto simp: deliver_def Let_def adds_def mute_def split: prod.split)

lemma adds_hand_over: "adds (\<lambda>d. dv_key d = msg_key \<and> dv_content d = txt \<and> rp_agent_key pane \<noteq> ''terminal'') s (fst (hand_over w now msg_key pane source txt s))"
proof (cases "dget (ln_inbound s) msg_key")
  case None
  then show ?thesis by (simp add: hand_over_def set_inbound_pane_def adds_mute)
next
  case (Some e)
  let ?s1 = "s\<lparr>ln_inbound := dset msg_key (e\<lparr>ib_pane := rp_pane_id pane\<rparr>) (ln_inbound s)\<rparr>"
  have "mute s ?s1" using Some by (simp add: mute_def stamps_dset)
  from adds_after [OF this adds_deliver] show ?thesis by (simp add: hand_over_def set_inbound_pane_def Some)
qed

text \<open>The text handed over: the opened ciphertext, or plain text from a device that is not known to encrypt.\<close>

definition opened :: "world \<Rightarrow> (string \<times> jval) list \<Rightarrow> string \<Rightarrow> link \<Rightarrow> string \<Rightarrow> bool" where
  "opened w data dev s txt =
     (if str_field w data ''cipher'' \<noteq> [] then wd_open w (str_field w data ''cipher'') dev (ln_device s) = Some txt
      else txt = str_field w data ''text'' \<and> (dev \<noteq> [] \<longrightarrow> (\<exists>t. quiet_path w (ln_trust s) t \<and> snd (is_encrypted_peer dev t) = Inr False)))"

lemma opened_plain:
  "str_field w data ''cipher'' = [] \<Longrightarrow> quiet_path w (ln_trust s) t \<Longrightarrow> snd (is_encrypted_peer dev t) = Inr False \<Longrightarrow>
   opened w data dev s (str_field w data ''text'')"
  unfolding opened_def by auto

lemma adds_open:
  "adds (\<lambda>d. dv_key d = msg_key \<and> opened w data (str_field w source ''deviceId'') s (dv_content d)) s (fst (open_message w now data msg_key pane source s))"
proof -
  let ?dev = "str_field w source ''deviceId''" and ?cipher = "str_field w data ''cipher''"
  let ?Q = "\<lambda>d. dv_key d = msg_key \<and> opened w data ?dev s (dv_content d)"
  show ?thesis
  proof (cases "?cipher = []")
    case False
    then show ?thesis
      by (auto simp: open_message_def Let_def opened_def adds_mute [OF mute_ack] split: option.split intro: adds_mono [OF adds_hand_over])
  next
    case True
    show ?thesis
    proof (cases "?dev = []")
      case True
      with \<open>?cipher = []\<close> show ?thesis by (auto simp: open_message_def Let_def opened_def intro: adds_mono [OF adds_hand_over])
    next
      case False
      let ?plain = "hand_over w now msg_key pane source (str_field w data ''text'')"
      let ?body = "\<lambda>encrypting s1. if encrypting then (ack_message msg_key ''rejected'' ''plaintext-downgrade'' []
          (s1\<lparr>ln_trust := fst (note_plaintext_refused now ?dev msg_key (ln_trust s1))\<rparr>), True) else ?plain s1"
      have eq: "open_message w now data msg_key pane source s = via_trust (is_encrypted_peer ?dev) ?body s"
        using True False by (simp add: open_message_def Let_def)
      show ?thesis unfolding eq
      proof (rule via_trust_cases [where w = w and f = "is_encrypted_peer ?dev" and k = ?body and s = s, OF refl quiet_calls(3)])
        fix s1 assume "calm w s s1" "via_trust (is_encrypted_peer ?dev) ?body s = (s1, False)"
        then show "adds ?Q s (fst (via_trust (is_encrypted_peer ?dev) ?body s))" by (simp add: adds_calm)
      next
        fix s1 b
        assume c: "calm w s s1" and b: "snd (is_encrypted_peer ?dev (ln_trust s)) = Inr b" and r: "via_trust (is_encrypted_peer ?dev) ?body s = ?body b s1"
        show "adds ?Q s (fst (via_trust (is_encrypted_peer ?dev) ?body s))"
        proof (cases b)
          case True
          then show ?thesis unfolding r using mute_trans [OF calm_mute [OF c] mute_trans [OF mute_fields(1) mute_ack]] by (simp add: adds_mute)
        next
          case nb: False
          have q: "opened w data ?dev s (str_field w data ''text'')"
            by (rule opened_plain [OF True trust_path_refl]) (use b nb in simp)
          have e: "?body b s1 = ?plain s1" using nb by simp
          show ?thesis unfolding r e
            by (rule adds_after [OF calm_mute [OF c] adds_mono [OF adds_hand_over]]) (use q in auto)
        qed
      qed
    qed
  qed
qed


lemma opened_calm:
  assumes c: "calm w s0 s" and o: "opened w data dev s txt"
  shows "opened w data dev s0 txt"
proof -
  have p: "quiet_path w (ln_trust s0) (ln_trust s)" and d: "ln_device s = ln_device s0" using c by (simp_all add: calm_def)
  show ?thesis
  proof (cases "str_field w data ''cipher'' = []")
    case True
    then have "txt = str_field w data ''text'' \<and> (dev \<noteq> [] \<longrightarrow> (\<exists>t. quiet_path w (ln_trust s) t \<and> snd (is_encrypted_peer dev t) = Inr False))"
      using o unfolding opened_def by simp
    with trust_path_trans [OF p] True show ?thesis unfolding opened_def by auto
  next
    case False
    with o d show ?thesis unfolding opened_def by simp
  qed
qed

lemma adds_resolve:
  "adds (\<lambda>d. dv_key d = msg_key \<and> opened w data (str_field w (dict_field data ''from'') ''deviceId'') s (dv_content d)) s
     (fst (resolve_message w ids now data msg_key s))"
proof -
  let ?source = "dict_field data ''from''" and ?target = "dict_field data ''to''"
  let ?dev = "str_field w ?source ''deviceId''"
  let ?Q = "\<lambda>d. dv_key d = msg_key \<and> opened w data ?dev s (dv_content d)"
  obtain reg res where rr: "resolve_address ids now (ln_registry s) []
      \<lparr>ad_pane_name = str_field w ?target ''paneName'', ad_workspace = str_field w ?target ''workspace'', ad_device_id = [],
        ad_pane_id = str_field w ?target ''paneId''\<rparr> = (reg, res)" by fastforce
  have c0: "calm w s (s\<lparr>ln_registry := reg\<rparr>)" by simp
  show ?thesis
  proof (cases res)
    case (Inl e)
    with rr show ?thesis using mute_trans [OF calm_mute [OF c0] mute_ack] by (simp add: resolve_message_def Let_def adds_mute)
  next
    case (Inr pc)
    obtain pane cross where pc: "pc = (pane, cross)" by (cases pc)
    let ?f = "note_remote_command now ?dev (device_name_for ?dev s) (str_field w ?target ''workspace'') (str_field w ?target ''paneName'')"
    let ?k = "\<lambda>_ s1. open_message w now data msg_key pane ?source (announce_trust_notices w s1)"
    have eq: "resolve_message w ids now data msg_key s = via_trust ?f ?k (s\<lparr>ln_registry := reg\<rparr>)"
      using rr Inr pc by (simp add: resolve_message_def Let_def)
    show ?thesis unfolding eq
    proof (rule via_trust_cases [where w = w and f = ?f and k = ?k and s = "s\<lparr>ln_registry := reg\<rparr>", OF refl quiet_calls(14)])
      fix s1 assume c1: "calm w (s\<lparr>ln_registry := reg\<rparr>) s1" and r: "via_trust ?f ?k (s\<lparr>ln_registry := reg\<rparr>) = (s1, False)"
      show "adds ?Q s (fst (via_trust ?f ?k (s\<lparr>ln_registry := reg\<rparr>)))" unfolding r fst_conv by (rule adds_calm [OF calm_trans [OF c0 c1]])
    next
      fix s1 u
      assume "calm w (s\<lparr>ln_registry := reg\<rparr>) s1" and r: "via_trust ?f ?k (s\<lparr>ln_registry := reg\<rparr>) = ?k u s1"
      then have c: "calm w s (announce_trust_notices w s1)" using calm_trans [OF c0] calm_trans [OF _ calm_announce] by blast
      show "adds ?Q s (fst (via_trust ?f ?k (s\<lparr>ln_registry := reg\<rparr>)))" unfolding r
        by (rule adds_after [OF calm_mute [OF c] adds_mono [OF adds_open]]) (simp add: opened_calm [OF c])
    qed
  qed
qed

definition sender_request :: "world \<Rightarrow> (string \<times> jval) list \<Rightarrow> request" where
  "sender_request w data =
     \<lparr>rq_member = str_field w (dict_field data ''from'') ''memberId'', rq_device = str_field w (dict_field data ''from'') ''deviceId'',
      rq_workspace = str_field w (dict_field data ''to'') ''workspace'', rq_pane = str_field w (dict_field data ''to'') ''paneName''\<rparr>"

text \<open>The sender is not blocked, and is one of the user's own approved devices or has a rule.\<close>

definition permitted_by :: "world \<Rightarrow> (string \<times> jval) list \<Rightarrow> jval \<Rightarrow> bool \<Rightarrow> tstate \<Rightarrow> bool" where
  "permitted_by w data policy own t =
     (let r = sender_request w data in
      (\<exists>t'. quiet_path w t t' \<and> \<not> snd (is_blocked policy (rq_member r) (rq_device r) t')) \<and> (own \<or> is_allowed policy r))"

lemma permitted_earlier: "quiet_path w t0 t \<Longrightarrow> permitted_by w data policy own t \<Longrightarrow> permitted_by w data policy own t0"
  unfolding permitted_by_def Let_def using trust_path_trans by blast

lemma adds_authorize:
  "adds (\<lambda>d. dv_key d = msg_key \<and> opened w data (rq_device (sender_request w data)) s (dv_content d) \<and> permitted_by w data (ln_policy s) own (ln_trust s)) s
     (fst (authorize_message w ids now data msg_key own s))"
proof -
  let ?r = "sender_request w data"
  obtain t ring where tr: "ring_of (ln_policy s) (rq_member ?r) (rq_device ?r) own (ln_trust s) = (t, ring)" by fastforce
  let ?s1 = "s\<lparr>ln_trust := t\<rparr>"
  have c: "calm w s ?s1" using quiet_ring [of w "ln_trust s" "ln_policy s" "rq_member ?r" "rq_device ?r" own] tr by (intro calm_trust) simp
  note tr' = tr [unfolded sender_request_def request.simps]
  consider (blocked) "ring = RingBlocked"
    | (denied) "ring \<noteq> RingBlocked" "ring \<noteq> RingSelf" "\<not> is_allowed (ln_policy s) ?r"
    | (granted) "ring \<noteq> RingBlocked" "ring = RingSelf \<or> is_allowed (ln_policy s) ?r" by blast
  then show ?thesis
  proof cases
    case blocked
    then show ?thesis using mute_trans [OF calm_mute [OF c] mute_ack] by (simp add: authorize_message_def Let_def tr' adds_mute)
  next
    case denied
    have m: "mute s (ack_message msg_key ''rejected'' ''policy-denied'' [] (announce_access_requests now (?s1\<lparr>ln_knocks := kn\<rparr>)))" for kn
      by (rule mute_trans [OF calm_mute [OF calm_trans [OF calm_trans [OF c calm_simps(4)] calm_announce_knocks]] mute_ack])
    show ?thesis using denied by (simp add: authorize_message_def Let_def tr' sender_request_def adds_mute [OF m])
  next
    case granted
    then have eq: "authorize_message w ids now data msg_key own s = resolve_message w ids now data msg_key ?s1"
      by (auto simp: authorize_message_def Let_def tr' sender_request_def)
    have free: "\<not> snd (is_blocked (ln_policy s) (rq_member ?r) (rq_device ?r) (ln_trust s))" "ring = RingSelf \<Longrightarrow> own"
      using tr granted(1) by (auto simp: ring_of_def split: prod.splits if_splits)
    with granted(2) have "permitted_by w data (ln_policy s) own (ln_trust s)"
      unfolding permitted_by_def Let_def using trust_path_refl by blast
    then show ?thesis unfolding eq
      by (intro adds_after [OF calm_mute [OF c] adds_mono [OF adds_resolve]]) (simp add: opened_calm [OF c] sender_request_def)
  qed
qed


section \<open>The whole path\<close>

text \<open>
  What a delivery shows: the sending device is pinned, the message is signed with the pinned key over exactly this key, sender, recipient and body, the
  policy in force permits it, the text is the one that was signed or sealed, and the key is new.
\<close>

definition delivery_grounds :: "world \<Rightarrow> policy_reply \<Rightarrow> (string \<times> jval) list \<Rightarrow> string \<Rightarrow> link \<Rightarrow> delivery \<Rightarrow> bool" where
  "delivery_grounds w reply data msg_key s d =
     (let dev = rq_device (sender_request w data) in
      dv_key d = msg_key \<and> msg_key \<noteq> [] \<and> \<not> ln_trust_locked s \<and> dev \<noteq> [] \<and> opened w data dev s (dv_content d) \<and>
      (\<exists>p t. quiet_path w (ln_trust s) t \<and> snd (pin_for dev t) = Inr (Some p) \<and> genuine w data msg_key dev s p \<and>
         (\<exists>policy. enforceable w s reply policy \<and> permitted_by w data policy (own_device (ln_own_member s) p) (ln_trust s))))"

lemma enforceable_calm: "calm w s s1 \<Longrightarrow> enforceable w s1 reply p \<Longrightarrow> enforceable w s reply p"
  by (auto simp: enforceable_def calm_def)

lemma opened_policy [simp]: "opened w data dev (s\<lparr>ln_policy := p\<rparr>) txt = opened w data dev s txt"
  by (simp add: opened_def)

lemma mute_policy [simp]: "mute s (s\<lparr>ln_policy := p\<rparr>)"
  by (simp add: mute_def)

lemma adds_claimed:
  assumes "msg_key \<noteq> []"
  shows "adds (delivery_grounds w reply data msg_key s) s (fst (receive_claimed w ids now nonce reply data msg_key s))"
proof (cases "ln_trust_locked s")
  case True
  then show ?thesis by (simp add: receive_claimed_def adds_mute [OF mute_ack])
next
  case unlocked: False
  let ?source = "dict_field data ''from''" and ?target = "dict_field data ''to''"
  let ?dev = "str_field w ?source ''deviceId''" and ?member = "str_field w ?source ''memberId''"
  let ?Q = "delivery_grounds w reply data msg_key s"
  let ?k = "\<lambda>own s1. case own of None \<Rightarrow> refuse_unauthenticated msg_key ?dev s1
      | Some b \<Rightarrow> and_then (ensure_policy w now reply s1) (authorize_message w ids now data msg_key b)"
  let ?auth = "authenticate_sender w now data msg_key ?dev ?member ?k s"
  have dev: "rq_device (sender_request w data) = ?dev" by (simp add: sender_request_def)
  have path: "adds ?Q s (fst ?auth)"
  proof (rule authenticate_cases [where r = ?auth, OF refl])
    fix s1 assume c: "calm w s s1" and e: "?auth = (s1, False)"
    show ?thesis unfolding e fst_conv by (rule adds_calm [OF c])
  next
    fix s1 assume c: "calm w s s1" and e: "?auth = ?k None s1"
    have "mute s1 (fst (refuse_unauthenticated msg_key ?dev s1))"
      unfolding refuse_unauthenticated_def by (rule mute_via) (auto intro: mute_trans [OF _ mute_ack])
    from mute_trans [OF calm_mute [OF c] this] show ?thesis unfolding e by (simp add: adds_mute)
  next
    fix s1 p t
    assume c: "calm w s s1" and e: "?auth = ?k (Some (own_device (ln_own_member s) p)) s1"
      and t: "quiet_path w (ln_trust s) t" "?dev \<noteq> []" "snd (pin_for ?dev t) = Inr (Some p)" "genuine w data msg_key ?dev s p"
    let ?own = "own_device (ln_own_member s) p"
    obtain q where q: "enforceable w s1 reply q" "calm w (s1\<lparr>ln_policy := q\<rparr>) (fst (ensure_policy w now reply s1))"
      using ensure_result by blast
    obtain s2 ok where s2: "ensure_policy w now reply s1 = (s2, ok)" by (cases "ensure_policy w now reply s1")
    have c2: "calm w (s1\<lparr>ln_policy := q\<rparr>) s2" using q(2) s2 by simp
    have m: "mute s s2" by (rule mute_trans [OF calm_mute [OF c] mute_trans [OF mute_policy calm_mute [OF c2]]])
    show ?thesis
    proof (cases ok)
      case False
      then show ?thesis unfolding e by (simp add: s2 and_then_def adds_mute [OF m])
    next
      case True
      have eq: "fst ?auth = fst (authorize_message w ids now data msg_key ?own s2)" unfolding e by (simp add: s2 and_then_def True)
      have p2: "ln_policy s2 = q" "quiet_path w (ln_trust s) (ln_trust s2)"
        using c c2 trust_path_trans [of w quiet_op "ln_trust s" "ln_trust s1" "ln_trust s2"] by (simp_all add: calm_def)
      show ?thesis unfolding eq
      proof (rule adds_after [OF m adds_mono [OF adds_authorize]])
        fix d :: delivery assume d: "dv_key d = msg_key \<and> opened w data (rq_device (sender_request w data)) s2 (dv_content d) \<and>
            permitted_by w data (ln_policy s2) ?own (ln_trust s2)"
        have "opened w data ?dev s (dv_content d)"
          using opened_calm [OF c, of data ?dev "dv_content d"] opened_calm [OF c2, of data ?dev "dv_content d"] d dev by simp
        moreover have "permitted_by w data q ?own (ln_trust s)" using permitted_earlier [OF p2(2)] d p2(1) by simp
        ultimately show "?Q d" unfolding delivery_grounds_def Let_def dev
          using d assms unlocked t enforceable_calm [OF c q(1)] by blast
      qed
    qed
  qed
  have frame: "adds ?Q s (fst (on_pair_frame w now nonce f data msg_key ?dev ?member s))" for f by (rule adds_mute [OF mute_pair_frame])
  show ?thesis unfolding receive_claimed_def Let_def using path frame
    by (simp add: unlocked adds_mute [OF mute_ack] adds_mute [OF mute_refl] split: parsed_frame.split)
qed

end
