(* ===== verification/Link_Promises.thy ===== *)
theory Link_Promises
  imports Link_Facts
begin

text \<open>
  What the server link promises about messages that arrive and about the policy it enforces.
\<close>

section \<open>The claim of a message key\<close>

lemma note_inbound_cases:
  assumes "note_inbound tick now key s = r"
  obtains (duplicate) "has_key key (ln_inbound s)" "r = (s, Inr False)"
  | (claimed) t res where "\<not> has_key key (ln_inbound s)" "quiet_path w (ln_trust s) t"
      "r = (s\<lparr>ln_inbound := claim_inbound tick key (ln_inbound s), ln_trust := t\<rparr>, res)"
      "res = Inr True \<Longrightarrow> \<not> snd (has_seen_message key (ln_trust s))"
proof (cases "has_key key (ln_inbound s)")
  case True
  with assms duplicate show thesis by (simp add: note_inbound_def)
next
  case False
  let ?s1 = "s\<lparr>ln_inbound := claim_inbound tick key (ln_inbound s)\<rparr>"
  obtain t seen where hs: "has_seen_message key (ln_trust s) = (t, seen)" by fastforce
  have t: "quiet_path w (ln_trust s) t" using quiet_calls(7) [of w "ln_trust s" key] hs by simp
  show thesis
  proof (cases seen)
    case True
    with assms False hs have "r = (?s1\<lparr>ln_trust := t\<rparr>, Inr False)" by (simp add: note_inbound_def Let_def)
    with False t show thesis by (intro claimed [of t "Inr False"]) auto
  next
    case ns: False
    obtain t1 res where nt: "note_seen_message now key t = (t1, res)" by fastforce
    have "quiet_path w t t1" using quiet_calls(16) [of w t now key] nt by simp
    then have t1: "quiet_path w (ln_trust s) t1" by (rule trust_path_trans [OF t])
    have "r = (?s1\<lparr>ln_trust := t1\<rparr>, case res of Inl e \<Rightarrow> Inl e | Inr u \<Rightarrow> Inr True)"
      using assms False hs ns nt by (auto simp: note_inbound_def Let_def split: sum.split)
    with False t1 hs ns show thesis by (intro claimed) simp_all
  qed
qed

lemma grounds_earlier:
  assumes p: "quiet_path w (ln_trust s0) (ln_trust s)"
    and same: "ln_device s = ln_device s0" "ln_own_member s = ln_own_member s0" "ln_roster s = ln_roster s0"
      "ln_trust_locked s = ln_trust_locked s0" "ln_policy s = ln_policy s0"
    and g: "delivery_grounds w reply data msg_key s d"
  shows "delivery_grounds w reply data msg_key s0 d"
proof -
  let ?dev = "rq_device (sender_request w data)"
  obtain q t policy where q: "quiet_path w (ln_trust s) t" "snd (pin_for ?dev t) = Inr (Some q)" "genuine w data msg_key ?dev s q"
      "enforceable w s reply policy" "permitted_by w data policy (own_device (ln_own_member s) q) (ln_trust s)"
    using g unfolding delivery_grounds_def Let_def by blast
  have "opened w data ?dev s (dv_content d)" using g unfolding delivery_grounds_def Let_def by blast
  then have "opened w data ?dev (s\<lparr>ln_trust := ln_trust s\<rparr>) (dv_content d)" by simp
  moreover have "opened w data ?dev s tx \<Longrightarrow> opened w data ?dev s0 tx" for tx
    unfolding opened_def same using trust_path_trans [OF p] by (auto split: if_splits)
  moreover have "genuine w data msg_key ?dev s0 q" using q(3) by (simp add: genuine_def same)
  moreover have "enforceable w s0 reply policy" using q(4) by (simp add: enforceable_def same)
  moreover have "permitted_by w data policy (own_device (ln_own_member s0) q) (ln_trust s0)"
    using permitted_earlier [OF p q(5)] same by simp
  ultimately show ?thesis using g q(2) trust_path_trans [OF p q(1)] unfolding delivery_grounds_def Let_def same by blast
qed

definition new_message :: "world \<Rightarrow> string \<Rightarrow> link \<Rightarrow> bool" where
  "new_message w key s = (\<not> has_key key (ln_inbound s) \<and> \<not> snd (has_seen_message key (ln_trust s)))"

lemma receive_result:
  "deliveries (fst (receive_message w ids tick now nonce reply data key s)) = deliveries s \<or>
    (\<exists>d. deliveries (fst (receive_message w ids tick now nonce reply data key s)) = deliveries s @ [d] \<and>
       delivery_grounds w reply data key s d \<and> new_message w key s)"
proof (cases "key = []")
  case True
  then show ?thesis by (simp add: receive_message_def)
next
  case key: False
  show ?thesis
  proof (rule note_inbound_cases [where w = w and tick = tick and now = now and key = key and s = s, OF refl])
    assume e: "note_inbound tick now key s = (s, Inr False)"
    have "mute s (send_ack key a s)" for a by (rule calm_mute [OF calm_send_ack])
    then have "deliveries (send_ack key a s) = deliveries s" for a by (simp add: mute_def)
    with key e show ?thesis by (simp add: receive_message_def split: option.split)
  next
    fix t res
    let ?s1 = "s\<lparr>ln_inbound := claim_inbound tick key (ln_inbound s), ln_trust := t\<rparr>"
    assume n: "\<not> has_key key (ln_inbound s)" and t: "quiet_path w (ln_trust s) t" and e: "note_inbound tick now key s = (?s1, res)"
      and seen: "res = Inr True \<Longrightarrow> \<not> snd (has_seen_message key (ln_trust s))"
    have same: "deliveries ?s1 = deliveries s" by (simp add: deliveries_def)
    show ?thesis
    proof (cases res)
      case (Inl err)
      with key e same show ?thesis by (simp add: receive_message_def)
    next
      case (Inr b)
      show ?thesis
      proof (cases b)
        case False
        have "deliveries (send_ack key a ?s1) = deliveries s" for a
          using calm_mute [OF calm_send_ack, of ?s1 key a] same by (simp add: mute_def)
        with False Inr key e same show ?thesis by (simp add: receive_message_def split: option.split)
      next
        case True
        with Inr key e have r: "fst (receive_message w ids tick now nonce reply data key s) = fst (receive_claimed w ids now nonce reply data key ?s1)" by (simp add: receive_message_def)
        have new: "new_message w key s" using n seen Inr True by (simp add: new_message_def)
        have "delivery_grounds w reply data key s d" if "delivery_grounds w reply data key ?s1 d" for d
          by (rule grounds_earlier [OF _ _ _ _ _ _ that]) (use t in simp_all)
        with adds_claimed [OF key, of w reply data ?s1 ids now nonce] same new show ?thesis
          unfolding adds_def r by auto
      qed
    qed
  qed
qed

lemma pending_deliveries:
  "deliveries (on_message_pending w ids tick now nonce reply (JDict data) s) =
   deliveries (fst (receive_message w ids tick now nonce reply data (str_field w data ''msgKey'') s))"
proof -
  obtain s1 ok where r: "receive_message w ids tick now nonce reply data (str_field w data ''msgKey'') s = (s1, ok)" by fastforce
  have "deliveries (ack_message k st reason pane s1) = deliveries s1" for k st reason pane
    using mute_ack [of s1 k st reason pane] by (simp add: mute_def)
  with r show ?thesis by (cases ok) (auto simp: on_message_pending_def Let_def split: option.split)
qed

text \<open>
  C1: Nothing reaches a pane without authority. Whatever the relay pushes, a message adds at most one delivery, and one that is added rests on all
  of this: its key is new, in memory and in the ledger; its sender is a device pinned in the trust store; the signature over exactly this
  key, sender, recipient and body verifies under the pinned key, which the directory does not contradict; the policy in force, the one already here or one
  this machine signed itself, neither blocks the sender nor lacks a rule for it unless it is an approved device of the same account;
  and the text is the sealed one, or plain text from a device that never encrypted.
\<close>

theorem delivery_authorised:
  "let s' = on_message_pending w ids tick now nonce reply (JDict data) s; key = str_field w data ''msgKey'' in
   deliveries s' = deliveries s \<or>
   (\<exists>d. deliveries s' = deliveries s @ [d] \<and> delivery_grounds w reply data key s d \<and> new_message w key s)"
  unfolding Let_def pending_deliveries by (rule receive_result)

end
