(* ===== verification/Link_Samples.thy ===== *)
theory Link_Samples
  imports Link_Facts Trust_Promises
begin

text \<open>
  A concrete link for the examples: the machine \<open>desk\<close> has paired \<open>lap\<close> of the same account, whose key verifies everything it signs, and one
  pane, \<open>alice\<close> in the workspace \<open>web\<close>, is registered.
\<close>

definition sample_key :: string where "sample_key = replicate 43 CHR ''A'' @ ''=''"

definition sample_sig :: string where "sample_sig = replicate 86 CHR ''B'' @ ''==''"

definition sample_world :: world where
  "sample_world = \<lparr>wd_ed25519 = (\<lambda>k p s. k = sample_key), wd_sign = (\<lambda>p. sample_sig), wd_digest = id, wd_open = (\<lambda>c f t. Some c),
     wd_wrap = (\<lambda>r d. Some r), wd_loads = (\<lambda>t. None), wd_str = (\<lambda>v. []), wd_fingerprint = id, wd_sign_key = sample_key, wd_enc_key = ''ek''\<rparr>"

definition sample_trust :: tstate where
  "sample_trust = run_ops (trust_step (\<lambda>k. k) (\<lambda>u t. [])) fresh_state [OpPair 7 ''lap'' sample_key ''ek'' ''mem'' ''mem'']"

definition sample_link :: link where
  "sample_link = \<lparr>ln_device = ''desk'', ln_own_member = ''mem'', ln_up = True, ln_trust_locked = False, ln_policy = JNull, ln_revision = Some 1,
     ln_directory = [], ln_online = None, ln_has_key = False, ln_roster = [], ln_registry = sample_registry, ln_taint = no_taint,
     ln_inbound = [], ln_knocks = [], ln_pairs = [], ln_trust = sample_trust, ln_out = []\<rparr>"

definition sample_message :: "string \<Rightarrow> (string \<times> jval) list" where
  "sample_message k = [(''msgKey'', JStr k), (''sig'', JStr sample_sig), (''text'', JStr ''hi''),
     (''from'', JDict [(''deviceId'', JStr ''lap''), (''memberId'', JStr ''mem'')]),
     (''to'', JDict [(''workspace'', JStr ''web''), (''paneName'', JStr ''alice'')])]"

text \<open>The message of the sample is delivered.\<close>

lemma sample_delivered:
  "map dv_content (deliveries (on_message_pending sample_world [] 0 7 [] None (JDict (sample_message ''k1'')) sample_link)) = [''hi'']"
  by code_simp

end
