(* ===== verification/Link_Runs.thy ===== *)
theory Link_Runs
  imports Link_Promises Link_Samples Pairing_Facts
begin

text \<open>
  Runs of the server link: every handler of the model as one operation, with the changes the environment makes. A message key is delivered once, and
  no device is trusted without the person at this machine.
\<close>

section \<open>Operations\<close>

datatype link_op =
    LPending rat rat string policy_reply jval
  | LStart rat string string
  | LConfirm rat string bool
  | LRevoke string
  | LRows rat
  | LResult string bool string
  | LResend
  | LRefresh rat "int option" policy_reply
  | LSetPolicy rat jval set_answer policy_reply
  | LForgetKnock string
  | LUp bool
  | LDirectory "directory_row list" "string list option" roster
  | LRegistry registry
  | LTrust trust_op

fun link_step :: "world \<Rightarrow> (string \<Rightarrow> nat) \<Rightarrow> string list \<Rightarrow> link \<Rightarrow> link_op \<Rightarrow> link" where
  "link_step w sha ids s (LPending tick now nonce reply payload) = on_message_pending w ids tick now nonce reply payload s"
| "link_step w sha ids s (LStart now nonce dev) = fst (start_pairing w now nonce dev s)"
| "link_step w sha ids s (LConfirm now dev accept) = fst (confirm_pairing w now dev accept s)"
| "link_step w sha ids s (LRevoke dev) = revoke_pairing dev s"
| "link_step w sha ids s (LRows now) = fst (pairing_rows sha w now s)"
| "link_step w sha ids s (LResult key ok reason) = fst (note_delivery_result w key ok reason s)"
| "link_step w sha ids s LResend = resend_unsent_acks s"
| "link_step w sha ids s (LRefresh now revision reply) = fst (refresh_policy w now revision reply s)"
| "link_step w sha ids s (LSetPolicy now policy answer reply) = fst (fst (set_policy w now policy answer reply s))"
| "link_step w sha ids s (LForgetKnock key) = s\<lparr>ln_knocks := fst (knocks_forget key (ln_knocks s))\<rparr>"
| "link_step w sha ids s (LUp up) = s\<lparr>ln_up := up\<rparr>"
| "link_step w sha ids s (LDirectory rows online ro) = s\<lparr>ln_directory := rows, ln_online := online, ln_roster := ro\<rparr>"
| "link_step w sha ids s (LRegistry reg) = s\<lparr>ln_registry := reg\<rparr>"
| "link_step w sha ids s (LTrust op) = s\<lparr>ln_trust := trust_step (wd_fingerprint w) (\<lambda>u v. []) (ln_trust s) op\<rparr>"


section \<open>Everything but a message is mute\<close>

lemma mute_more [simp]:
  "mute s (s\<lparr>ln_knocks := k\<rparr>)" "mute s (s\<lparr>ln_up := up\<rparr>)" "mute s (s\<lparr>ln_directory := rows, ln_online := online, ln_roster := ro\<rparr>)"
  "mute s (s\<lparr>ln_registry := reg\<rparr>)" "mute s (s\<lparr>ln_revision := r\<rparr>)"
  by (simp_all add: mute_def deliveries_def)

lemma mute_start: "mute s (fst (start_pairing w now nonce dev s))"
proof -
  have a: "mute s s2" if "send_pair_frame dev k e (s\<lparr>ln_trust := t, ln_pairs := ps\<rparr>) = (s2, b)" for k e t ps s2 b
    using mute_trans [OF _ mute_send, of s "s\<lparr>ln_trust := t, ln_pairs := ps\<rparr>" dev k e] that by (simp add: mute_def deliveries_def)
  have "mute s (s2\<lparr>ln_pairs := qs\<rparr>)" if "send_pair_frame dev k e (s\<lparr>ln_trust := t, ln_pairs := ps\<rparr>) = (s2, b)" for k e t ps s2 b qs
    by (rule mute_trans [OF a [OF that]]) simp
  then show ?thesis using a
    by (auto simp: start_pairing_def Let_def split: prod.split sum.split option.split) (simp_all add: mute_def deliveries_def)
qed

lemma mute_confirm: "mute s (fst (confirm_pairing w now dev accept s))"
proof -
  have n: "mute s1 (announce_trust_notices w s1)" for s1 by (rule calm_mute [OF calm_announce])
  have sent: "mute s (fst (send_pair_frame dev k e (s\<lparr>ln_pairs := ps\<rparr>)))" for k e ps by (rule mute_trans [OF _ mute_send]) simp
  have fin: "mute s s1" if "finish_pairing w now dev m (fst (send_pair_frame dev k e (s\<lparr>ln_pairs := ps\<rparr>))) = (s1, b)" for m k e ps s1 b
    using mute_trans [OF sent mute_finish] that by (metis fst_conv)
  show ?thesis
  proof (cases accept)
    case False
    then show ?thesis
      by (auto simp: confirm_pairing_def Let_def split: prod.split intro: mute_trans [OF sent n] mute_trans [OF mute_fields(2) n])
  next
    case True
    then show ?thesis
      by (auto simp: confirm_pairing_def split: prod.split sum.split intro: mute_trans [OF fin n] fin)
  qed
qed

lemma mute_revoke: "mute s (revoke_pairing dev s)"
  unfolding revoke_pairing_def by (rule mute_trans [OF _ mute_send]) simp

lemma mute_result: "mute s (fst (note_delivery_result w key ok reason s))"
proof (cases "dget (ln_inbound s) key")
  case (Some e)
  have "mute s (s\<lparr>ln_inbound := dset key (e\<lparr>ib_acked := True\<rparr>) (ln_inbound s)\<rparr>)" by (simp add: mute_def stamps_dset [OF Some])
  from mute_trans [OF this mute_ack] show ?thesis by (simp add: note_delivery_result_def Some Let_def)
qed (simp add: note_delivery_result_def)

lemma mute_resend: "mute s (resend_unsent_acks s)"
proof -
  have "mute s (foldl (\<lambda>s' (key, e). case ib_ack e of Some a \<Rightarrow> if ib_unsent e then send_ack key a s' else s' | None \<Rightarrow> s') s m)" for m :: "(string \<times> inbound) list"
    by (induction m rule: rev_induct) (auto split: option.split intro: mute_trans [OF _ calm_mute [OF calm_send_ack]])
  then show ?thesis by (simp add: resend_unsent_acks_def)
qed

lemma mute_refresh: "mute s (fst (refresh_policy w now revision reply s))"
  using refresh_result [of w s reply now revision] mute_trans [OF mute_policy calm_mute] by blast

lemma mute_set_policy: "mute s (fst (fst (set_policy w now policy answer reply s)))"
proof -
  obtain s1 doc where sp: "signed_policy w policy s = (s1, doc)" by fastforce
  then have m: "mute s s1" by (auto simp: signed_policy_def Let_def split: prod.splits sum.splits)
  have r: "mute s (fst (refresh_policy w now None reply s1))" by (rule mute_trans [OF m mute_refresh])
  have c: "mute s (fst (via_trust clear_policy_notice (\<lambda>_ s2. (s2, True)) (s1\<lparr>ln_policy := policy, ln_revision := Some n\<rparr>)))" for n
    by (rule mute_trans [OF m], rule mute_trans [OF _ mute_via]) (simp_all add: mute_def deliveries_def)
  show ?thesis using m r c by (auto simp: set_policy_def sp split: option.split set_answer.split jval.split)
qed

fun is_message :: "link_op \<Rightarrow> bool" where
  "is_message (LPending tick now nonce reply payload) = True"
| "is_message _ = False"

lemma mute_step: "\<not> is_message op \<Longrightarrow> mute s (link_step w sha ids s op)"
  by (cases op) (simp_all add: mute_start mute_confirm mute_revoke mute_result mute_resend mute_refresh mute_set_policy pairing_rows_def split: prod.split)


section \<open>A key is delivered once\<close>

text \<open>\<open>key\<close> was claimed at \<open>t0\<close>, and at most \<open>n\<close> keys were claimed after it.\<close>

definition window :: "string \<Rightarrow> rat \<Rightarrow> nat \<Rightarrow> (string \<times> rat) list \<Rightarrow> bool" where
  "window key t0 n st = (\<exists>pre post. st = pre @ (key, t0) # post \<and> length post \<le> n)"

lemma window_mono: "window key t0 n st \<Longrightarrow> n \<le> m \<Longrightarrow> window key t0 m st"
  unfolding window_def using order_trans by blast

lemma window_has_key: "window key t0 n (stamps m) \<Longrightarrow> has_key key m"
proof -
  assume "window key t0 n (stamps m)"
  then have "key \<in> fst ` set (stamps m)" unfolding window_def by force
  then show ?thesis by (force simp: stamps_def)
qed

lemma stamps_filter: "stamps (filter (\<lambda>(k, e). P (ib_created e)) m) = filter (\<lambda>(k, c). P c) (stamps m)"
  by (induction m) (auto simp: stamps_def)

lemma claim_stamps:
  assumes "\<not> has_key k m"
  shows "stamps (claim_inbound tick k m) =
    (let live = filter (\<lambda>(k, c). \<not> MESSAGE_MEMORY_TTL_S \<le> tick - c) (stamps m)
     in drop (Suc (length live) - MESSAGE_MEMORY_MAX) live @ [(k, tick)])"
proof -
  let ?live = "filter (\<lambda>(k, e). \<not> MESSAGE_MEMORY_TTL_S \<le> tick - ib_created e) m"
  have len: "length (stamps ?live) = length ?live" by (simp add: stamps_def)
  have "set (drop n ?live) \<subseteq> set m" for n using set_drop_subset [of n ?live] by auto
  with assms have "\<not> has_key k (drop n ?live)" for n by blast
  then have "claim_inbound tick k m = drop (Suc (length ?live) - MESSAGE_MEMORY_MAX) ?live @
      [(k, \<lparr>ib_created = tick, ib_pane = [], ib_acked = False, ib_ack = None, ib_unsent = False\<rparr>)]"
    by (simp add: claim_inbound_def Let_def dset_new)
  moreover have "stamps (drop n xs @ [(k, e)]) = drop n (stamps xs) @ [(k, ib_created e)]" for n xs e
    by (simp add: stamps_def drop_map)
  ultimately show ?thesis using len by (simp add: stamps_filter [of "\<lambda>c. \<not> MESSAGE_MEMORY_TTL_S \<le> tick - c", symmetric] Let_def)
qed

lemma window_claim:
  assumes "window key t0 n (stamps m)" "n \<le> 498" "tick - t0 < MESSAGE_MEMORY_TTL_S" "\<not> has_key k m"
  shows "window key t0 (Suc n) (stamps (claim_inbound tick k m))"
proof -
  let ?P = "\<lambda>(k, c). \<not> MESSAGE_MEMORY_TTL_S \<le> tick - c"
  obtain pre post where st: "stamps m = pre @ (key, t0) # post" "length post \<le> n" using assms(1) unfolding window_def by blast
  let ?live = "filter ?P (stamps m)"
  have live: "?live = filter ?P pre @ (key, t0) # filter ?P post" using assms(3) by (simp add: st(1))
  have post: "length (filter ?P post) \<le> n" using length_filter_le [of ?P post] st(2) by linarith
  have "Suc (length ?live) - MESSAGE_MEMORY_MAX \<le> length (filter ?P pre)"
    using post assms(2) by (simp add: live MESSAGE_MEMORY_MAX_def)
  then have "drop (Suc (length ?live) - MESSAGE_MEMORY_MAX) ?live =
      drop (Suc (length ?live) - MESSAGE_MEMORY_MAX) (filter ?P pre) @ (key, t0) # filter ?P post"
    by (subst (2) live) (simp add: drop_append)
  then have "stamps (claim_inbound tick k m) =
      drop (Suc (length ?live) - MESSAGE_MEMORY_MAX) (filter ?P pre) @ (key, t0) # (filter ?P post @ [(k, tick)])"
    by (simp add: claim_stamps [OF assms(4)] Let_def)
  moreover have "length (filter ?P post @ [(k, tick)]) \<le> Suc n" using post by simp
  ultimately show ?thesis unfolding window_def by blast
qed


lemma receive_stamps:
  fixes s :: link
  assumes "r = fst (receive_message w ids tick now nonce reply data key s)"
  shows "stamps (ln_inbound r) = stamps (ln_inbound s) \<or>
    \<not> has_key key (ln_inbound s) \<and> stamps (ln_inbound r) = stamps (claim_inbound tick key (ln_inbound s))"
    and "\<not> has_key key (ln_inbound s) \<Longrightarrow> key \<noteq> [] \<Longrightarrow> stamps (ln_inbound r) = stamps (claim_inbound tick key (ln_inbound s))"
proof -
  have ack: "stamps (ln_inbound (send_ack key a s1)) = stamps (ln_inbound s1)" for a s1
    using calm_mute [OF calm_send_ack] by (simp add: mute_def)
  have "stamps (ln_inbound r) = stamps (claim_inbound tick key (ln_inbound s))" if new: "\<not> has_key key (ln_inbound s)" "key \<noteq> []"
  proof (rule note_inbound_cases [where w = w and tick = tick and now = now and key = key and s = s, OF refl])
    fix t res
    let ?s1 = "s\<lparr>ln_inbound := claim_inbound tick key (ln_inbound s), ln_trust := t\<rparr>"
    assume e: "note_inbound tick now key s = (?s1, res)"
    have "stamps (ln_inbound (fst (receive_claimed w ids now nonce reply data key ?s1))) = stamps (ln_inbound ?s1)"
      using adds_claimed [OF new(2), of w reply data ?s1 ids now nonce] by (simp add: adds_def)
    with e new(2) ack show ?thesis by (cases res) (auto simp: assms receive_message_def split: bool.splits option.split)
  qed (use new in simp)
  then show "\<not> has_key key (ln_inbound s) \<Longrightarrow> key \<noteq> [] \<Longrightarrow> stamps (ln_inbound r) = stamps (claim_inbound tick key (ln_inbound s))" .
  moreover have "stamps (ln_inbound r) = stamps (ln_inbound s)" if "has_key key (ln_inbound s) \<or> key = []"
    using that ack [of _ s] by (auto simp: assms receive_message_def note_inbound_def split: option.split)
  ultimately show "stamps (ln_inbound r) = stamps (ln_inbound s) \<or>
    \<not> has_key key (ln_inbound s) \<and> stamps (ln_inbound r) = stamps (claim_inbound tick key (ln_inbound s))" by blast
qed

definition payload_dict :: "jval \<Rightarrow> (string \<times> jval) list" where
  "payload_dict payload = (case payload of JDict d \<Rightarrow> d | _ \<Rightarrow> [])"

lemma pending_mute:
  "mute (fst (receive_message w ids tick now nonce reply (payload_dict payload) (str_field w (payload_dict payload) ''msgKey'') s))
     (on_message_pending w ids tick now nonce reply payload s)"
  unfolding on_message_pending_def payload_dict_def Let_def
  by (auto simp: mute_ack split: prod.split bool.split option.split)

definition with_key :: "string \<Rightarrow> link \<Rightarrow> delivery list" where
  "with_key key s = filter (\<lambda>d. dv_key d = key) (deliveries s)"

lemma with_key_mute: "mute s s' \<Longrightarrow> with_key key s' = with_key key s"
  by (simp add: with_key_def mute_def)

fun in_hour :: "rat \<Rightarrow> link_op \<Rightarrow> bool" where
  "in_hour t0 (LPending tick now nonce reply payload) = (tick - t0 < MESSAGE_MEMORY_TTL_S)"
| "in_hour t0 _ = True"

lemma step_in_window:
  assumes "window key t0 n (stamps (ln_inbound s))" "n \<le> 498 \<or> \<not> is_message op" "in_hour t0 op"
  shows "window key t0 (if is_message op then Suc n else n) (stamps (ln_inbound (link_step w sha ids s op))) \<and>
    with_key key (link_step w sha ids s op) = with_key key s"
proof (cases "is_message op")
  case False
  from mute_step [OF this, of s w sha ids] assms(1) False show ?thesis by (simp add: with_key_mute) (simp add: mute_def)
next
  case True
  then obtain tick now nonce reply payload where op: "op = LPending tick now nonce reply payload" by (cases op) auto
  let ?data = "payload_dict payload" and ?r = "\<lambda>k. fst (receive_message w ids tick now nonce reply (payload_dict payload) k s)"
  let ?k = "str_field w ?data ''msgKey''"
  have m: "mute (?r ?k) (link_step w sha ids s op)" unfolding op link_step.simps by (rule pending_mute)
  have old: "has_key key (ln_inbound s)" by (rule window_has_key [OF assms(1)])
  have t: "tick - t0 < MESSAGE_MEMORY_TTL_S" "n \<le> 498" using assms(2,3) True by (simp_all add: op)
  have "window key t0 (Suc n) (stamps (ln_inbound (?r ?k)))"
    using receive_stamps(1) [OF refl, of w ids tick now nonce reply ?data ?k s] window_claim [OF assms(1) t(2,1), of ?k] window_mono [OF assms(1), of "Suc n"]
    by auto
  moreover have "with_key key (?r ?k) = with_key key s"
  proof (cases "?k = key")
    case True
    then have "\<not> new_message w ?k s" using old by (simp add: new_message_def)
    with receive_result [of w ids tick now nonce reply ?data ?k s] show ?thesis by (auto simp: with_key_def)
  next
    case False
    have "delivery_grounds w reply ?data ?k s d \<Longrightarrow> dv_key d = ?k" for d by (simp add: delivery_grounds_def Let_def)
    with False receive_result [of w ids tick now nonce reply ?data ?k s] show ?thesis by (auto simp: with_key_def)
  qed
  ultimately show ?thesis using m True by (simp add: with_key_mute) (simp add: mute_def)
qed

lemma run_in_window:
  assumes "window key t0 n (stamps (ln_inbound s))" "n + length (filter is_message ops) \<le> 499" "list_all (in_hour t0) ops"
  shows "with_key key (run_ops (link_step w sha ids) s ops) = with_key key s"
  using assms
proof (induction ops arbitrary: s n)
  case (Cons op ops)
  let ?s1 = "link_step w sha ids s op" and ?n1 = "if is_message op then Suc n else n"
  have "n \<le> 498 \<or> \<not> is_message op" "in_hour t0 op" using Cons.prems(2,3) by auto
  from step_in_window [OF Cons.prems(1) this] have st: "window key t0 ?n1 (stamps (ln_inbound ?s1))" "with_key key ?s1 = with_key key s"
    by blast+
  have "with_key key (run_ops (link_step w sha ids) ?s1 ops) = with_key key ?s1"
    by (rule Cons.IH [OF st(1)]) (use Cons.prems(2,3) in \<open>auto split: if_splits\<close>)
  with st(2) show ?case by simp
qed simp

text \<open>
  C3: A message is delivered once. When a message with a key not yet in memory arrives, then whatever follows (the same message again, from any connection,
  other messages, pairing, policy changes, acks, changes of the trust store and of the panes) a delivery under this key
  happens at most once in all, as long as no more than 499 messages follow and these arrive within the hour. Both bounds are the code's.
\<close>

theorem delivered_once:
  assumes "key = str_field w (payload_dict payload) ''msgKey''" and "key \<noteq> []" and "\<not> has_key key (ln_inbound s)"
    and "length (filter is_message ops) \<le> 499" and "list_all (in_hour tick) ops"
  shows "length (with_key key (run_ops (link_step w sha ids) s (LPending tick now nonce reply payload # ops))) \<le> Suc (length (with_key key s))"
proof -
  let ?r = "fst (receive_message w ids tick now nonce reply (payload_dict payload) key s)"
  let ?s1 = "on_message_pending w ids tick now nonce reply payload s"
  have m: "mute ?r ?s1" unfolding assms(1) by (rule pending_mute)
  have "stamps (ln_inbound ?s1) = stamps (claim_inbound tick key (ln_inbound s))"
    using m receive_stamps(2) [OF refl assms(3,2), of w ids tick now nonce reply "payload_dict payload"] by (simp add: mute_def)
  then have "window key tick 0 (stamps (ln_inbound ?s1))" unfolding window_def claim_stamps [OF assms(3)] Let_def by auto
  then have "with_key key (run_ops (link_step w sha ids) ?s1 ops) = with_key key ?s1" by (rule run_in_window) (use assms(4,5) in simp_all)
  also have "\<dots> = with_key key ?r" by (rule with_key_mute [OF m])
  also have "length \<dots> \<le> Suc (length (with_key key s))"
    using receive_result [of w ids tick now nonce reply "payload_dict payload" key s] by (auto simp: with_key_def)
  finally show ?thesis by simp
qed


lemma delivered_once_witness:
  "let m = JDict (sample_message ''k1'') in
   length (with_key ''k1'' (run_ops (link_step sample_world length []) sample_link
     (LPending 0 7 [] None m # [LPending 5 12 [] None m, LUp False, LPending 9 16 [] None m]))) \<le> Suc (length (with_key ''k1'' sample_link))"
  unfolding Let_def by (rule delivered_once) code_simp+

end
