(* ===== verification/Link_Trust.thy ===== *)
theory Link_Trust
  imports Link_Runs
begin

text \<open>
  No device is trusted without the person at this machine. \<open>keeps dev\<close> says that a handler leaves an untrusted device untrusted; it holds of
  every handler, whatever frames the relay writes and whoever signed them, but the confirmation of the device by the person.
\<close>

section \<open>Handlers that vouch for nobody\<close>

definition untrusted :: "string \<Rightarrow> link \<Rightarrow> bool" where
  "untrusted dev s = (held False (\<lambda>d. \<not> approved_in dev d) (ln_trust s) \<and> distinct (keys (ln_pairs s)) \<and>
     (\<forall>p. dget (ln_pairs s) dev = Some p \<longrightarrow> \<not> pr_we_confirmed p))"

definition keeps :: "string \<Rightarrow> link \<Rightarrow> link \<Rightarrow> bool" where
  "keeps dev s s' = (untrusted dev s \<longrightarrow> untrusted dev s')"

lemma keeps_refl [simp]: "keeps dev s s" by (simp add: keeps_def)

lemma keeps_trans: "keeps dev s s' \<Longrightarrow> keeps dev s' s'' \<Longrightarrow> keeps dev s s''" by (simp add: keeps_def)

lemma keeps_same: "ln_trust s' = ln_trust s \<Longrightarrow> ln_pairs s' = ln_pairs s \<Longrightarrow> keeps dev s s'"
  by (simp add: keeps_def untrusted_def)

definition innocent :: "string \<Rightarrow> trust_op \<Rightarrow> bool" where
  "innocent dev op = (\<not> vouches_for dev op)"

lemma quiet_innocent: "quiet_op op \<Longrightarrow> innocent dev op"
  by (cases op) (simp_all add: innocent_def)

lemma quiet_path_innocent: "quiet_path w t t' \<Longrightarrow> trust_path w (innocent dev) t t'"
  unfolding trust_path_def list_all_iff using quiet_innocent by blast

lemma keeps_path: "trust_path w (innocent dev) (ln_trust s) t \<Longrightarrow> keeps dev s (s\<lparr>ln_trust := t\<rparr>)"
  unfolding trust_path_def keeps_def untrusted_def
  by (auto simp: innocent_def [abs_def] intro: stays_unapproved.held_run)

lemma keeps_quiet: "quiet_path w (ln_trust s) t \<Longrightarrow> keeps dev s (s\<lparr>ln_trust := t\<rparr>)"
  by (rule keeps_path [OF quiet_path_innocent])

lemma keeps_calm: "calm w s s' \<Longrightarrow> keeps dev s s'"
  using keeps_trans [OF keeps_quiet [of w s "ln_trust s'"] keeps_same [of s' "s\<lparr>ln_trust := ln_trust s'\<rparr>"]] by (simp add: calm_def)

text \<open>A step of the exchanges keeps the device untrusted unless it is the confirmation.\<close>

fun confirms :: "string \<Rightarrow> pair_op \<Rightarrow> bool" where
  "confirms dev (ConfirmPairing t d) = (d = dev)"
| "confirms dev _ = False"

lemma answered_confirmed [simp]: "pr_we_confirmed (answered later key enc tn p) = pr_we_confirmed p"
  by (simp add: answered_def extend_once_def)

lemma keeps_pairs:
  assumes "\<not> confirms dev op"
  shows "keeps dev s (s\<lparr>ln_pairs := pair_step (ln_pairs s) op\<rparr>)"
  unfolding keeps_def
proof
  assume u: "untrusted dev s"
  then have d: "distinct (keys (ln_pairs s))" by (simp add: untrusted_def)
  have "\<not> pr_we_confirmed q" if q: "dget (pair_step (ln_pairs s) op) dev = Some q" for q
  proof -
    consider (fresh) "pair_fresh op dev q" | (moved) p where "dget (ln_pairs s) dev = Some p" "q = p \<or> pair_moves op dev p q"
      using pair_step_view [OF d q] by blast
    then show ?thesis
    proof cases
      case fresh
      then show ?thesis by (cases op) (auto simp: new_pairing_def extend_once_def)
    next
      case moved
      then have "\<not> pr_we_confirmed p" using u by (simp add: untrusted_def)
      with moved(2) assms show ?thesis by (cases op) (auto simp: answered_confirmed)
    qed
  qed
  with u pair_step_distinct [OF d] show "untrusted dev (s\<lparr>ln_pairs := pair_step (ln_pairs s) op\<rparr>)" by (simp add: untrusted_def)
qed

lemma keeps_by_op: "\<not> confirms dev op \<Longrightarrow> ps = pair_step (ln_pairs s) op \<Longrightarrow> keeps dev s (s\<lparr>ln_pairs := ps\<rparr>)"
  using keeps_pairs by simp

lemma keeps_via:
  assumes "\<And>t. trust_path w (innocent dev) t (fst (f t))" "\<And>x s1. keeps dev s1 (fst (k x s1))"
  shows "keeps dev s (fst (via_trust f k s))"
proof (cases "f (ln_trust s)")
  case (Pair t r)
  have c: "keeps dev s (s\<lparr>ln_trust := t\<rparr>)" by (rule keeps_path [of w]) (use assms(1) [of "ln_trust s"] Pair in simp)
  show ?thesis using c keeps_trans [OF c assms(2)] by (simp add: via_trust_def Pair split: sum.split)
qed

lemmas keeps_via_quiet = keeps_via [OF quiet_path_innocent]

lemma keeps_noted: "keeps dev s (fst (via_trust (note_pairing now d kind name) (\<lambda>_ s2. (s2, True)) s))"
  by (rule keeps_via_quiet [OF quiet_calls(15)]) simp

lemma keeps_send: "keeps dev s (fst (send_pair_frame d kind extra s))"
  by (auto simp: send_pair_frame_def keeps_same split: option.split)

lemma keeps_offer: "keeps dev s (offer_sync_key w d s)"
proof -
  obtain t res where pf: "pin_for d (ln_trust s) = (t, res)" by fastforce
  have c: "keeps dev s (s\<lparr>ln_trust := t\<rparr>)" by (rule keeps_quiet [of w]) (use quiet_calls(1) [of w "ln_trust s" d] pf in simp)
  show ?thesis using c keeps_trans [OF c keeps_send]
    by (auto simp: offer_sync_key_def pf Let_def split: sum.split option.split)
qed

lemma keeps_finish: "keeps dev s (fst (finish_pairing w now d member s))"
proof (cases "pair_complete now d (ln_pairs s)")
  case (Pair ps res)
  have c: "keeps dev s (s\<lparr>ln_pairs := ps\<rparr>)" by (rule keeps_by_op [of _ "CompletePairing now d"]) (simp_all add: Pair)
  show ?thesis
  proof (cases res)
    case None
    with c Pair show ?thesis by (simp add: finish_pairing_def)
  next
    case (Some p)
    let ?pin = "pin_paired_device (wd_fingerprint w) now d (pr_their_key p) (pr_their_enc p) (str_or member (member_id_for d (s\<lparr>ln_pairs := ps\<rparr>)))
        (ln_own_member s) (ln_trust s)"
    have "keeps dev s (s\<lparr>ln_pairs := ps, ln_trust := fst ?pin\<rparr>)"
    proof (cases "d = dev")
      case True
      then have "\<not> untrusted dev s" using completed_exchange(1,2) [of "ln_pairs s" now d ps p] Pair Some by (auto simp: untrusted_def)
      then show ?thesis by (simp add: keeps_def)
    next
      case False
      have "trust_path w (innocent dev) (ln_trust s) (fst ?pin)"
        by (rule path_by_op [of _ "OpPair now d (pr_their_key p) (pr_their_enc p) (str_or member (member_id_for d (s\<lparr>ln_pairs := ps\<rparr>))) (ln_own_member s)"])
          (use False in \<open>simp_all add: innocent_def\<close>)
      then show ?thesis by (intro keeps_trans [OF c keeps_path]) simp
    qed
    moreover have "keeps dev s1 (fst (via_trust (note_pairing now d kind name) (\<lambda>_ s2. (offer_sync_key w d s2, True)) s1))" for kind name s1
      by (rule keeps_via_quiet [OF quiet_calls(15)]) (simp add: keeps_offer)
    ultimately show ?thesis using Pair Some keeps_trans by (auto simp: finish_pairing_def Let_def split: prod.split sum.split)
  qed
qed

lemma keeps_sent: "keeps dev s s1 \<Longrightarrow> keeps dev s (fst (send_pair_frame d kind extra s1))"
  by (rule keeps_trans [OF _ keeps_send])

lemma keeps_forgotten: "keeps dev s (fst (via_trust (forget_device d) k s))" if "\<And>x s1. keeps dev s1 (fst (k x s1))" for k
proof (rule keeps_via [of undefined, OF _ that])
  show "trust_path undefined (innocent dev) t (fst (forget_device d t))" for t
    by (rule path_by_op [of _ "OpForget d"]) (simp_all add: innocent_def)
qed

lemma keeps_branch: "keeps dev s (fst (frame_branch w now nonce kind d member name pin key frame s))"
proof -
  let ?enc = "str_field w frame ''encKey''" and ?tn = "str_field w frame ''nonce''"
  obtain pa ra where a: "accept_request now now nonce d name key ?enc ?tn (ln_pairs s) = (pa, ra)" by fastforce
  have ka: "keeps dev s (s\<lparr>ln_pairs := pa\<rparr>)" by (rule keeps_by_op [of _ "AcceptRequest now now nonce d name key ?enc ?tn"]) (simp_all add: a)
  obtain pb rb where b: "accept_response now now d key ?enc ?tn (ln_pairs s) = (pb, rb)" by fastforce
  have kb: "keeps dev s (s\<lparr>ln_pairs := pb\<rparr>)" by (rule keeps_by_op [of _ "AcceptResponse now now d key ?enc ?tn"]) (simp_all add: b)
  obtain px rx where x: "pair_cancel d (ln_pairs s) = (px, rx)" by fastforce
  have kx: "keeps dev s (s\<lparr>ln_pairs := px\<rparr>)" by (rule keeps_by_op [of _ "CancelPairing d"]) (simp_all add: x)
  have p: "keeps dev s (s\<lparr>ln_pairs := fst (note_peer_confirmed now d (ln_pairs s))\<rparr>)" by (rule keeps_by_op [of _ "PeerConfirmed now d"]) simp_all
  have n: "keeps dev s1 (fst (via_trust (note_pairing now d k name) (\<lambda>_ s2. (s2, True)) s1))" for k s1
    by (rule keeps_via_quiet [OF quiet_calls(15)]) simp
  have f: "keeps dev s1 (fst (via_trust (forget_device d)
      (\<lambda>removed s1. if fg_found removed then via_trust (note_pairing now d k name) (\<lambda>_ s2. (s2, True)) s1 else (s1, True)) s1))" for k s1
    by (rule keeps_forgotten) (simp add: n)
  have e: "keeps dev s (emit q s)" for q by (rule keeps_same) simp_all
  note facts = ka kb kx e keeps_offer keeps_sent [OF ka] keeps_trans [OF p keeps_finish] keeps_trans [OF kx n] keeps_trans [OF kx f]
  show ?thesis unfolding frame_branch_def Let_def
    by (simp add: a b x outcome_of_def facts split: sum.split option.split)
qed

lemma keeps_ack: "keeps dev s (ack_message key st reason pane s)"
  by (rule keeps_calm [OF calm_ack])

lemma keeps_announce: "keeps dev s (announce_trust_notices w s)"
  by (rule keeps_calm [OF calm_announce])

lemma keeps_trust_quiet: "quiet_path w (ln_trust s) t \<Longrightarrow> keeps dev (s\<lparr>ln_trust := t\<rparr>) s' \<Longrightarrow> keeps dev s s'"
  by (rule keeps_trans [OF keeps_quiet])

lemma keeps_pair_frame: "keeps dev s (fst (on_pair_frame w now nonce frame data msg_key d member s))"
proof -
  have fin: "keeps dev s2 (fst (case frame_branch w now nonce kind d member name pin key frame s2 of
             (s3, FrameRaised) \<Rightarrow> (s3, False)
           | (s3, FrameRefused) \<Rightarrow> (ack_message msg_key ''rejected'' ''pairing-refused'' [] s3, True)
           | (s3, FrameDone) \<Rightarrow> (ack_message msg_key ''delivered'' [] [] (announce_trust_notices w s3), True)))" for kind name pin key s2
  proof (cases "frame_branch w now nonce kind d member name pin key frame s2")
    case (Pair s3 out)
    have k: "keeps dev s2 s3" using keeps_branch [of dev s2 w now nonce kind d member name pin key frame] Pair by simp
    show ?thesis using k keeps_trans [OF k keeps_ack] keeps_trans [OF k keeps_trans [OF keeps_announce keeps_ack]]
      by (cases out) (simp_all add: Pair)
  qed
  obtain t b where tb: "is_blocked (ln_policy s) member d (ln_trust s) = (t, b)" by (cases "is_blocked (ln_policy s) member d (ln_trust s)")
  have t: "quiet_path w (ln_trust s) t" using quiet_is_blocked [of w "ln_trust s" "ln_policy s" member d] tb by simp
  obtain ps ex where pe: "pair_get now d (ln_pairs s) = (ps, ex)" by (cases "pair_get now d (ln_pairs s)")
  have kp: "keeps dev (s\<lparr>ln_trust := t\<rparr>) (s\<lparr>ln_trust := t, ln_pairs := ps\<rparr>)"
    by (rule keeps_by_op [of _ "GetPairing now d", where s = "s\<lparr>ln_trust := t\<rparr>", simplified]) (simp_all add: pe)
  show ?thesis
  proof (cases b)
    case True
    then show ?thesis using keeps_trust_quiet [OF t keeps_ack] by (simp add: on_pair_frame_def tb Let_def)
  next
    case False
    show ?thesis unfolding on_pair_frame_def Let_def
      by (simp add: tb pe False) (rule keeps_trust_quiet [OF t keeps_trans [OF kp keeps_via_quiet [OF quiet_calls(1)]]], simp add: fin keeps_ack)
  qed
qed


section \<open>The message path\<close>

lemma keeps_hand_over: "keeps dev s (fst (hand_over w now msg_key pane source txt s))"
proof (cases "dget (ln_inbound s) msg_key")
  case (Some e)
  let ?s1 = "s\<lparr>ln_inbound := dset msg_key (e\<lparr>ib_pane := rp_pane_id pane\<rparr>) (ln_inbound s)\<rparr>"
  have "keeps dev ?s1 (deliver w now msg_key pane source txt ?s1)"
    using keeps_ack by (auto simp: deliver_def Let_def keeps_same split: prod.split)
  moreover have "keeps dev s ?s1" by (rule keeps_same) simp_all
  ultimately show ?thesis using keeps_trans by (simp add: hand_over_def set_inbound_pane_def Some)
qed (simp add: hand_over_def set_inbound_pane_def)

lemma keeps_open: "keeps dev s (fst (open_message w now data msg_key pane source s))"
proof -
  have refused: "keeps dev s1 (ack_message msg_key ''rejected'' ''plaintext-downgrade'' []
      (s1\<lparr>ln_trust := fst (note_plaintext_refused now d msg_key (ln_trust s1))\<rparr>))" for d s1
    by (rule keeps_trans [OF keeps_quiet [OF quiet_calls(13)] keeps_ack])
  have "keeps dev s (fst (via_trust (is_encrypted_peer d)
      (\<lambda>encrypting s1. if encrypting then (ack_message msg_key ''rejected'' ''plaintext-downgrade'' []
          (s1\<lparr>ln_trust := fst (note_plaintext_refused now d msg_key (ln_trust s1))\<rparr>), True)
        else hand_over w now msg_key pane source body s1) s))" for d body
    by (rule keeps_via_quiet [OF quiet_calls(3)]) (simp add: refused keeps_hand_over)
  then show ?thesis by (simp add: open_message_def Let_def keeps_ack keeps_hand_over split: option.split)
qed

lemma keeps_resolve: "keeps dev s (fst (resolve_message w ids now data msg_key s))"
proof -
  have k: "keeps dev s (s\<lparr>ln_registry := reg\<rparr>)" for reg by (rule keeps_same) simp_all
  have v: "keeps dev s1 (fst (via_trust (note_remote_command now d name ws pn)
      (\<lambda>_ s1. open_message w now data msg_key pane source (announce_trust_notices w s1)) s1))" for d name ws pn pane source s1
    by (rule keeps_via_quiet [OF quiet_calls(14)]) (rule keeps_trans [OF keeps_announce keeps_open])
  show ?thesis using keeps_trans [OF k keeps_ack] keeps_trans [OF k v]
    by (simp add: resolve_message_def Let_def split: prod.split sum.split)
qed

lemma keeps_authorize: "keeps dev s (fst (authorize_message w ids now data msg_key own s))"
proof -
  let ?r = "sender_request w data"
  obtain t ring where tr: "ring_of (ln_policy s) (rq_member ?r) (rq_device ?r) own (ln_trust s) = (t, ring)" by fastforce
  have t: "quiet_path w (ln_trust s) t" using quiet_ring [of w "ln_trust s" "ln_policy s" "rq_member ?r" "rq_device ?r" own] tr by simp
  have "keeps dev (s\<lparr>ln_trust := t\<rparr>) (announce_access_requests now (s\<lparr>ln_trust := t, ln_knocks := kn\<rparr>))" for kn
    by (rule keeps_same) (simp_all add: announce_access_requests_def)
  from keeps_trust_quiet [OF t keeps_trans [OF this keeps_ack]] keeps_trust_quiet [OF t keeps_resolve] keeps_trust_quiet [OF t keeps_ack]
  show ?thesis by (simp add: authorize_message_def Let_def tr [unfolded sender_request_def request.simps])
qed

lemma keeps_authenticate:
  assumes "\<And>x s1. keeps dev s1 (fst (k x s1))"
  shows "keeps dev s (fst (authenticate_sender w now data msg_key d member k s))"
  by (rule authenticate_cases [where w = w and now = now and data = data and msg_key = msg_key and dev = d and member = member and k = k and s = s, OF refl])
    (auto intro: keeps_trans [OF keeps_calm assms] keeps_calm)

lemma keeps_policy: "keeps dev s (s\<lparr>ln_policy := p\<rparr>)"
  by (rule keeps_same) simp_all

lemma keeps_refresh: "keeps dev s (fst (refresh_policy w now revision reply s))"
  using refresh_result [of w s reply now revision] keeps_trans [OF keeps_policy keeps_calm] by blast

lemma keeps_claimed: "keeps dev s (fst (receive_claimed w ids now nonce reply data msg_key s))"
proof -
  let ?dev = "str_field w (dict_field data ''from'') ''deviceId''"
  have ens: "keeps dev s1 (fst (ensure_policy w now reply s1))" for s1 by (simp add: ensure_policy_def keeps_refresh)
  have auth: "keeps dev s1 (fst (and_then (ensure_policy w now reply s1) (authorize_message w ids now data msg_key b)))" for b s1
    using ens [of s1] keeps_trans [OF _ keeps_authorize] by (auto simp: and_then_def split: prod.split)
  have ref: "keeps dev s1 (fst (refuse_unauthenticated msg_key ?dev s1))" for s1
    unfolding refuse_unauthenticated_def by (rule keeps_via_quiet [OF quiet_calls(1)]) (simp add: keeps_ack)
  have "keeps dev s (fst (authenticate_sender w now data msg_key ?dev member
      (\<lambda>own s1. case own of None \<Rightarrow> refuse_unauthenticated msg_key ?dev s1
         | Some b \<Rightarrow> and_then (ensure_policy w now reply s1) (authorize_message w ids now data msg_key b)) s))" for member
    by (rule keeps_authenticate) (simp add: auth ref split: option.split)
  then show ?thesis by (simp add: receive_claimed_def Let_def keeps_ack keeps_pair_frame split: parsed_frame.split)
qed

lemma keeps_receive: "keeps dev s (fst (receive_message w ids tick now nonce reply data key s))"
proof (cases "key = []")
  case True
  then show ?thesis by (simp add: receive_message_def)
next
  case False
  have ack: "keeps dev s1 (send_ack key a s1)" for a s1 by (rule keeps_calm [OF calm_send_ack])
  show ?thesis
  proof (rule note_inbound_cases [where w = w and tick = tick and now = now and key = key and s = s, OF refl])
    assume "note_inbound tick now key s = (s, Inr False)"
    with False ack show ?thesis by (simp add: receive_message_def split: option.split)
  next
    fix t res
    let ?s1 = "s\<lparr>ln_inbound := claim_inbound tick key (ln_inbound s), ln_trust := t\<rparr>"
    assume t: "quiet_path w (ln_trust s) t" and e: "note_inbound tick now key s = (?s1, res)"
    have k: "keeps dev s ?s1" by (rule keeps_trust_quiet [OF t keeps_same]) simp_all
    show ?thesis using False e k keeps_trans [OF k ack] keeps_trans [OF k keeps_claimed]
      by (cases res) (auto simp: receive_message_def split: bool.split option.split)
  qed
qed

lemma keeps_pending: "keeps dev s (on_message_pending w ids tick now nonce reply payload s)"
proof -
  have "keeps dev s s1" if "receive_message w ids tick now nonce reply data key s = (s1, b)" for data key s1 b
    using keeps_receive [of dev s w ids tick now nonce reply data key] that by simp
  then show ?thesis unfolding on_message_pending_def Let_def
    by (auto split: prod.split bool.split option.split intro: keeps_trans [OF _ keeps_ack])
qed


section \<open>The calls of the windows\<close>

lemma keeps_start: "keeps dev s (fst (start_pairing w now nonce d s))"
proof -
  obtain t r where tr: "pin_for d (ln_trust s) = (t, r)" by fastforce
  have t: "quiet_path w (ln_trust s) t" using quiet_calls(1) [of w "ln_trust s" d] tr by simp
  let ?s1 = "s\<lparr>ln_trust := t\<rparr>"
  have k1: "keeps dev s ?s1" by (rule keeps_quiet [OF t])
  obtain ps b where bg: "pair_begin now now nonce d (device_name_for d ?s1) [] [] (ln_pairs s) = (ps, b)" by fastforce
  have k2: "keeps dev s (?s1\<lparr>ln_pairs := ps\<rparr>)"
    by (rule keeps_trans [OF k1 keeps_by_op [of _ "BeginPairing now now nonce d (device_name_for d ?s1) [] []"]]) (simp_all add: bg)
  have k3: "keeps dev s s2" "keeps dev s (s2\<lparr>ln_pairs := fst (pair_cancel d (ln_pairs s2))\<rparr>)"
    if "send_pair_frame d kind e (?s1\<lparr>ln_pairs := ps\<rparr>) = (s2, sent)" for kind e s2 sent
  proof -
    show k: "keeps dev s s2" using keeps_sent [OF k2, of d kind e] that by simp
    show "keeps dev s (s2\<lparr>ln_pairs := fst (pair_cancel d (ln_pairs s2))\<rparr>)"
      by (rule keeps_trans [OF k keeps_by_op [of _ "CancelPairing d"]]) simp_all
  qed
  show ?thesis using k1 k2 k3
    by (auto simp: start_pairing_def Let_def tr bg [simplified] split: prod.split sum.split option.split)
qed

lemma keeps_withdraw: "keeps dev s (fst (confirm_pairing w now d False s))"
proof -
  obtain ps r where pr: "pair_cancel d (ln_pairs s) = (ps, r)" by fastforce
  have k: "keeps dev s (s\<lparr>ln_pairs := ps\<rparr>)" by (rule keeps_by_op [of _ "CancelPairing d"]) (simp_all add: pr)
  show ?thesis using keeps_trans [OF k keeps_announce] keeps_trans [OF keeps_sent [OF k] keeps_announce]
    by (simp add: confirm_pairing_def pr Let_def)
qed

lemma keeps_confirm:
  assumes "d \<noteq> dev"
  shows "keeps dev s (fst (confirm_pairing w now d accept s))"
proof (cases accept)
  case True
  obtain ps r where pr: "pair_confirm now d (ln_pairs s) = (ps, r)" by fastforce
  have k: "keeps dev s (s\<lparr>ln_pairs := ps\<rparr>)" by (rule keeps_by_op [of _ "ConfirmPairing now d"]) (use assms in \<open>simp_all add: pr\<close>)
  have "keeps dev s s1" if "finish_pairing w now d m (fst (send_pair_frame d ''pair-confirm'' [] (s\<lparr>ln_pairs := ps\<rparr>))) = (s1, b)" for m s1 b
    using keeps_trans [OF keeps_sent [OF k] keeps_finish] that by (metis fst_conv)
  with True k show ?thesis
    by (auto simp: confirm_pairing_def pr split: prod.split sum.split intro: keeps_trans [OF _ keeps_announce])
next
  case False
  then show ?thesis using keeps_withdraw by simp
qed

lemma keeps_revoke: "keeps dev s (revoke_pairing d s)"
  unfolding revoke_pairing_def by (rule keeps_sent [OF keeps_by_op [of _ "CancelPairing d"]]) simp_all

lemma keeps_rows: "keeps dev s (fst (pairing_rows sha w now s))"
proof -
  have "keeps dev s (s\<lparr>ln_pairs := fst (pair_active now (ln_pairs s))\<rparr>)" by (rule keeps_by_op [of _ "ListActive now"]) simp_all
  then show ?thesis by (cases "pair_active now (ln_pairs s)") (simp add: pairing_rows_def)
qed

lemma keeps_result: "keeps dev s (fst (note_delivery_result w key ok reason s))"
proof (cases "dget (ln_inbound s) key")
  case (Some e)
  have "keeps dev s (s\<lparr>ln_inbound := m\<rparr>)" for m by (rule keeps_same) simp_all
  from keeps_trans [OF this keeps_ack] show ?thesis by (simp add: note_delivery_result_def Some Let_def)
qed (simp add: note_delivery_result_def)

lemma keeps_resend: "keeps dev s (resend_unsent_acks s)"
proof -
  have "keeps dev s (foldl (\<lambda>s' (key, e). case ib_ack e of Some a \<Rightarrow> if ib_unsent e then send_ack key a s' else s' | None \<Rightarrow> s') s m)"
    for m :: "(string \<times> inbound) list"
    by (induction m rule: rev_induct) (auto split: option.split intro: keeps_trans [OF _ keeps_calm [OF calm_send_ack]])
  then show ?thesis by (simp add: resend_unsent_acks_def)
qed

lemma keeps_set_policy: "keeps dev s (fst (fst (set_policy w now policy answer reply s)))"
proof -
  obtain s1 doc where sp: "signed_policy w policy s = (s1, doc)" by fastforce
  have "s1 = s\<lparr>ln_trust := fst (reserve_policy_seq (ln_device s) (ln_trust s))\<rparr>"
    using sp by (auto simp: signed_policy_def Let_def split: prod.splits sum.splits)
  moreover have "quiet_path w t (fst (reserve_policy_seq d t))" for d t by (rule path_by_op [of _ "OpReserve d"]) simp_all
  ultimately have k: "keeps dev s s1" by (simp add: keeps_quiet [where w = w])
  have "keeps dev s1 (s1\<lparr>ln_policy := policy, ln_revision := n\<rparr>)" for n by (rule keeps_same) simp_all
  then have c: "keeps dev s (fst (via_trust clear_policy_notice (\<lambda>_ s2. (s2, True)) (s1\<lparr>ln_policy := policy, ln_revision := Some n\<rparr>)))" for n
    by (intro keeps_trans [OF k] keeps_trans [OF _ keeps_via_quiet [OF quiet_calls(10)]]) auto
  show ?thesis using k c keeps_trans [OF k keeps_refresh]
    by (auto simp: set_policy_def sp split: option.split set_answer.split jval.split)
qed


section \<open>Runs\<close>

text \<open>The operations by which a person here vouches for the device: confirming the exchange, or approving it in the device list.\<close>

fun vouched_here :: "string \<Rightarrow> link_op \<Rightarrow> bool" where
  "vouched_here dev (LConfirm now d accept) = (d = dev \<and> accept)"
| "vouched_here dev (LTrust op) = vouches_for dev op"
| "vouched_here dev _ = False"

lemma keeps_step: "\<not> vouched_here dev op \<Longrightarrow> keeps dev s (link_step w sha ids s op)"
proof (cases op)
  case (LConfirm now d accept)
  assume "\<not> vouched_here dev op"
  with LConfirm keeps_confirm [of d dev] keeps_withdraw show ?thesis by (cases accept) auto
next
  case (LTrust top)
  assume "\<not> vouched_here dev op"
  then have "trust_path w (innocent dev) (ln_trust s) (trust_step (wd_fingerprint w) (\<lambda>u v. []) (ln_trust s) top)"
    by (intro trust_path_op) (simp add: LTrust innocent_def)
  then show ?thesis using keeps_path by (simp add: LTrust)
qed (simp_all add: keeps_pending keeps_start keeps_revoke keeps_rows keeps_result keeps_resend keeps_refresh keeps_set_policy keeps_same)

lemma keeps_run: "list_all (\<lambda>op. \<not> vouched_here dev op) ops \<Longrightarrow> keeps dev s (run_ops (link_step w sha ids) s ops)"
proof (induction ops arbitrary: s)
  case (Cons op ops)
  then show ?case using keeps_trans [OF keeps_step [of dev op s w sha ids] Cons.IH] by simp
qed simp



lemma sample_unapproved: "held False (\<lambda>d. \<not> approved_in ''mac'' d) (ln_trust sample_link)"
proof -
  have "held False (\<lambda>d. \<not> approved_in ''mac'' d) fresh_state" by (simp add: held_def fresh_state_def)
  from stays_unapproved.held_run [OF this, of "[OpPair 7 ''lap'' sample_key ''ek'' ''mem'' ''mem'']" "\<lambda>k. k" "\<lambda>u t. []"]
  show ?thesis by (simp add: sample_link_def sample_trust_def)
qed


end
