(* ===== verification/Link_Limits.thy ===== *)
theory Link_Limits
  imports Link_Samples Pairing_Facts
begin

text \<open>
  Behaviours of the link and of the pairing exchange that differ from what the documentation of the code says.
\<close>

section \<open>A message seen before a restart is not answered\<close>

theorem restart_leaves_unanswered:
  assumes "key = str_field w data ''msgKey''" "key \<noteq> []" "\<not> has_key key (ln_inbound s)" "snd (has_seen_message key (ln_trust s))"
  shows "ln_out (on_message_pending w ids tick now nonce reply (JDict data) s) = ln_out s"
proof -
  obtain t where t: "has_seen_message key (ln_trust s) = (t, True)" using assms(4) by (cases "has_seen_message key (ln_trust s)") simp
  let ?s1 = "s\<lparr>ln_inbound := claim_inbound tick key (ln_inbound s), ln_trust := t\<rparr>"
  have "note_inbound tick now key s = (?s1, Inr False)" by (simp add: note_inbound_def assms(3) t)
  moreover have "dget (claim_inbound tick key (ln_inbound s)) key = Some \<lparr>ib_created = tick, ib_pane = [], ib_acked = False, ib_ack = None, ib_unsent = False\<rparr>"
    by (simp add: claim_inbound_def Let_def)
  ultimately have "receive_message w ids tick now nonce reply data key s = (?s1, True)" using assms(2) by (simp add: receive_message_def)
  then show ?thesis by (simp add: on_message_pending_def assms(1) [symmetric])
qed

section \<open>A failed write voids the policy in force\<close>

text \<open>
  The sequence of a policy write is reserved before the write. When the write fails, the document the server still holds carries the
  sequence before it, and the next refresh refuses it: the machine goes from its policy to none.
\<close>

definition sample_policy :: jval where "sample_policy = JDict [(''rules'', JList [])]"

definition accepted_write :: link where
  "accepted_write = fst (fst (set_policy sample_world 7 sample_policy (SetAccepted (JInt 1)) None sample_link))"

definition stored_policy :: jval where
  "stored_policy = the (snd (signed_policy sample_world sample_policy sample_link))"

theorem failed_write_voids_policy:
  "ln_policy accepted_write = sample_policy"
  "ln_policy (fst (refresh_policy sample_world 9 None (Some (JInt 1, stored_policy))
     (fst (fst (set_policy sample_world 8 (JDict []) SetFailed None accepted_write))))) = JNull"
  by code_simp+

section \<open>A confirmation that comes before the code exists counts\<close>

theorem early_confirm_counts:
  "map_option pr_their_key (snd (pair_complete 4 ''lap'' (run_ops pair_step []
     [BeginPairing 0 0 ''na'' ''lap'' ''Laptop'' [] [], PeerConfirmed 1 ''lap'',
      AcceptResponse 2 2 ''lap'' ''kb'' ''eb'' ''nb'', ConfirmPairing 3 ''lap'']))) = Some ''kb''"
  by code_simp

end
