(* ===== verification/Sched_Jobs.thy ===== *)
theory Sched_Jobs
  imports Py_Prelude
begin

text \<open>
  \<open>backend/agent_team_backend/scheduler.py\<close>, the part without state: the schedules and their slots, the validation of a job that a client sends,
  and the ownership of jobs. What \<open>datetime\<close> and \<open>zoneinfo\<close> compute from the time zone database is a record of functions, and
  the pane a superseded id stands for (\<open>agent_messaging.current\<close>) is a function; the texts of the refusals are left out.
\<close>

section \<open>Jobs\<close>

datatype schedule = Once int | Every int int | Daily string string | Weekly "int list" string string

text \<open>A message to a pane (workspace, pane id, pane name, text), or a workspace's self-evolution.\<close>

datatype job_action = Message string "string option" "string option" string | Evolve string

text \<open>The three outcomes of a run, in the history and in the state of a job.\<close>

datatype run_status = RunOk | RunError | RunSkipped

record job_policy =
  pl_catch_up :: string
  pl_max_runs :: int
  pl_timeout :: int

record job_state =
  st_next :: "int option"
  st_running :: "int option"
  st_last_run :: "int option"
  st_last_status :: "run_status option"
  st_skip_reason :: "string option"
  st_last_error :: "string option"
  st_duration :: "int option"
  st_errors :: int
  st_backoff :: "int option"
  st_msg_key :: "string option"
  st_gone :: int
  st_disabled_reason :: "string option"
  st_rebound_from :: "string option"
  st_needs_enable :: "bool option"

datatype expiry = NoExpiry | KeptByUser | ExpiresAt int

text \<open>An owner, and an actor: the keys a kind does not have are empty.\<close>

record owner =
  ow_kind :: string
  ow_pane_id :: string
  ow_pane_name :: string
  ow_workspace :: string
  ow_feature :: string
  ow_expires :: expiry

record job =
  jb_id :: string
  jb_name :: string
  jb_enabled :: bool
  jb_created :: int
  jb_updated :: int
  jb_schedule :: schedule
  jb_action :: job_action
  jb_policy :: job_policy
  jb_state :: job_state
  jb_owner :: owner
  jb_updated_by :: "owner option"

definition MIN_EVERY_MS :: int where "MIN_EVERY_MS = 60000"
definition MAX_EVERY_MS :: int where "MAX_EVERY_MS = 7 * 24 * 3600 * 1000"
definition ONCE_PAST_GRACE_MS :: int where "ONCE_PAST_GRACE_MS = 60000"
definition MAX_ONCE_AHEAD_MS :: int where "MAX_ONCE_AHEAD_MS = 10 * 365 * 24 * 3600 * 1000"
definition MAX_NAME :: int where "MAX_NAME = 200"
definition MAX_TEXT :: int where "MAX_TEXT = 64 * 1024"
definition BACKOFF_S :: "int list" where "BACKOFF_S = [30, 60, 300, 900, 3600]"
definition TARGET_GONE_DISABLE_AFTER :: int where "TARGET_GONE_DISABLE_AFTER = 3"
definition AGENT_ENABLED_PER_OWNER :: nat where "AGENT_ENABLED_PER_OWNER = 10"
definition AGENT_ENABLED_TOTAL :: nat where "AGENT_ENABLED_TOTAL = 100"
definition AGENT_MIN_EVERY_MS :: int where "AGENT_MIN_EVERY_MS = 5 * 60000"
definition AGENT_MAX_RUNS_PER_DAY :: int where "AGENT_MAX_RUNS_PER_DAY = 288"
definition AGENT_RUNS_PER_DAY_TOTAL :: int where "AGENT_RUNS_PER_DAY_TOTAL = 300"
definition AGENT_EXPIRE_MS :: int where "AGENT_EXPIRE_MS = 7 * 24 * 3600 * 1000"
definition AGENT_ONCE_KEEP_MS :: int where "AGENT_ONCE_KEEP_MS = 30 * 24 * 3600 * 1000"

definition DEFAULT_POLICY :: job_policy where
  "DEFAULT_POLICY = \<lparr>pl_catch_up = ''once'', pl_max_runs = 24, pl_timeout = 1800\<rparr>"

definition USER :: owner where
  "USER = \<lparr>ow_kind = ''user'', ow_pane_id = [], ow_pane_name = [], ow_workspace = [], ow_feature = [], ow_expires = NoExpiry\<rparr>"


section \<open>Slots\<close>

text \<open>
  The calendar: the zones that exist, the day (\<open>date.toordinal\<close>) of a moment in a zone, the moment of a minute of a day in a zone, and
  the local midnight before a moment in a zone, or in the system's when none is named. Moments are milliseconds since 1970.
\<close>

record calendar =
  cl_known :: "string \<Rightarrow> bool"
  cl_date :: "string \<Rightarrow> int \<Rightarrow> int"
  cl_at :: "string \<Rightarrow> int \<Rightarrow> int \<Rightarrow> int"
  cl_midnight :: "string option \<Rightarrow> int \<Rightarrow> int"
  cl_usage_day :: "int \<Rightarrow> string"

definition zone_of :: "calendar \<Rightarrow> string \<Rightarrow> string" where
  "zone_of cal name = (let z = str_or name ''UTC'' in if cl_known cal z then z else ''UTC'')"

definition digit_of :: "char \<Rightarrow> int" where
  "digit_of c = of_char c - 48"

text \<open>The minute of \<open>HH:MM\<close>, and the form itself.\<close>

definition at_minute :: "string \<Rightarrow> int" where
  "at_minute t = 60 * (10 * digit_of (t ! 0) + digit_of (t ! 1)) + (10 * digit_of (t ! 3) + digit_of (t ! 4))"

definition at_form :: "string \<Rightarrow> bool" where
  "at_form t =
     (length t = 5 \<and> t ! 2 = CHR '':'' \<and> list_all is_digit [t ! 0, t ! 1, t ! 3, t ! 4] \<and>
      10 * digit_of (t ! 0) + digit_of (t ! 1) \<le> 23 \<and> digit_of (t ! 3) \<le> 5)"

definition isoweekday :: "int \<Rightarrow> int" where
  "isoweekday day = (if day mod 7 = 0 then 7 else day mod 7)"

text \<open>\<open>next_run_after\<close>: the outer option is empty when the code raises, the inner one when there is no next slot.\<close>

definition day_slot :: "calendar \<Rightarrow> string \<Rightarrow> int \<Rightarrow> int set \<Rightarrow> int \<Rightarrow> int \<Rightarrow> int option" where
  "day_slot cal z minute days after day =
     (if isoweekday day \<notin> days then None
      else (let c = cl_at cal z day minute in if after < c then Some c else None))"

fun first_some :: "('a \<Rightarrow> 'b option) \<Rightarrow> 'a list \<Rightarrow> 'b option" where
  "first_some f [] = None"
| "first_some f (x # xs) = (case f x of Some y \<Rightarrow> Some y | None \<Rightarrow> first_some f xs)"

definition calendar_slot :: "calendar \<Rightarrow> string \<Rightarrow> string \<Rightarrow> int set \<Rightarrow> int \<Rightarrow> int option" where
  "calendar_slot cal tz t days after =
     (let z = zone_of cal tz; today = cl_date cal z after
      in first_some (day_slot cal z (at_minute t) days after) (map (\<lambda>k. today + k) [0, 1, 2, 3, 4, 5, 6, 7, 8]))"

fun next_run_after :: "calendar \<Rightarrow> schedule \<Rightarrow> int \<Rightarrow> int option option" where
  "next_run_after cal (Once moment) after = Some (if after < moment then Some moment else None)"
| "next_run_after cal (Every period anchor) after =
     Some (Some (if after < anchor then anchor else anchor + ((after - anchor) div period + 1) * period))"
| "next_run_after cal (Daily t tz) after = map_option Some (calendar_slot cal tz t {1, 2, 3, 4, 5, 6, 7} after)"
| "next_run_after cal (Weekly days t tz) after =
     map_option Some (calendar_slot cal tz t (if days = [] then {1, 2, 3, 4, 5, 6, 7} else set days) after)"

fun schedule_tz :: "schedule \<Rightarrow> string" where
  "schedule_tz (Daily t tz) = tz"
| "schedule_tz (Weekly days t tz) = tz"
| "schedule_tz _ = []"

definition day_start_ms :: "calendar \<Rightarrow> schedule \<Rightarrow> int \<Rightarrow> int" where
  "day_start_ms cal sch now = cl_midnight cal (if schedule_tz sch = [] then None else Some (zone_of cal (schedule_tz sch))) now"

definition is_once :: "schedule \<Rightarrow> bool" where
  "is_once sch = (case sch of Once moment \<Rightarrow> True | _ \<Rightarrow> False)"


section \<open>Validation\<close>

text \<open>\<open>JobInvalid\<close> names the field that is refused. A list or an object that the code hashes raises another exception.\<close>

datatype job_error = Required string | TooLong string | NotInteger string | OutOfRange string | BadZone | BadTime | NotObject string | BadKind string
  | NoDays | InPast | TooFar | NoMoment | NotTarget string | NoTarget | BadCatchUp | NotBool | OnceOver | EvolveRefused | BadId | UnknownJob
  | NeedsSystemOwner | NoSlot | OtherException

definition require_str :: "(string \<times> jval) list \<Rightarrow> string \<Rightarrow> string \<Rightarrow> int \<Rightarrow> job_error + string" where
  "require_str d key what limit =
     (case jget d key of
        JStr t \<Rightarrow> if py_strip t = [] then Inl (Required what) else if limit < int (length t) then Inl (TooLong what) else Inr (py_strip t)
      | _ \<Rightarrow> Inl (Required what))"

text \<open>\<open>_int\<close>: \<open>int(value)\<close> of an infinity or a NaN raises another exception.\<close>

definition whole :: "jval \<Rightarrow> string \<Rightarrow> job_error + int" where
  "whole v what =
     (case v of
        JInt i \<Rightarrow> Inr i
      | JFloat f \<Rightarrow> (case float_rat f of None \<Rightarrow> Inl OtherException
          | Some q \<Rightarrow> if q = of_int \<lfloor>q\<rfloor> then Inr \<lfloor>q\<rfloor> else Inl (NotInteger what))
      | _ \<Rightarrow> Inl (NotInteger what))"

definition int_in :: "jval \<Rightarrow> string \<Rightarrow> int \<Rightarrow> int \<Rightarrow> job_error + int" where
  "int_in v what low high =
     (case whole v what of Inl e \<Rightarrow> Inl e | Inr i \<Rightarrow> if low \<le> i \<and> i \<le> high then Inr i else Inl (OutOfRange what))"

definition valid_tz :: "calendar \<Rightarrow> jval \<Rightarrow> job_error + string" where
  "valid_tz cal v =
     (case v of JStr t \<Rightarrow> if py_strip t = [] then Inl (Required ''schedule.tz'') else if cl_known cal (py_strip t) then Inr (py_strip t) else Inl BadZone
      | _ \<Rightarrow> Inl (Required ''schedule.tz''))"

definition valid_at :: "jval \<Rightarrow> job_error + string" where
  "valid_at v = (case v of JStr t \<Rightarrow> if at_form (py_strip t) then Inr (py_strip t) else Inl BadTime | _ \<Rightarrow> Inl BadTime)"

definition bind_sum :: "'e + 'a \<Rightarrow> ('a \<Rightarrow> 'e + 'b) \<Rightarrow> 'e + 'b" where
  "bind_sum r f = (case r of Inl e \<Rightarrow> Inl e | Inr x \<Rightarrow> f x)"

fun sum_list_of :: "('a \<Rightarrow> 'e + 'b) \<Rightarrow> 'a list \<Rightarrow> 'e + 'b list" where
  "sum_list_of f [] = Inr []"
| "sum_list_of f (x # xs) = bind_sum (f x) (\<lambda>y. bind_sum (sum_list_of f xs) (\<lambda>ys. Inr (y # ys)))"

definition kind_is :: "(string \<times> jval) list \<Rightarrow> string \<Rightarrow> bool" where
  "kind_is d k = (jget d ''kind'' = JStr k)"

definition normalize_every :: "(string \<times> jval) list \<Rightarrow> int \<Rightarrow> schedule option \<Rightarrow> job_error + schedule" where
  "normalize_every d now previous =
     bind_sum (int_in (jget d ''every_ms'') ''schedule.every_ms'' MIN_EVERY_MS MAX_EVERY_MS) (\<lambda>every.
     bind_sum
       (int_in
         (case jget d ''anchor_ms'' of
            JNull \<Rightarrow> (case previous of Some (Every period anchor) \<Rightarrow> JInt (if period = every then anchor else now) | _ \<Rightarrow> JInt now)
          | v \<Rightarrow> v) ''schedule.anchor_ms'' 0 (2 ^ 53))
       (\<lambda>anchor. Inr (Every every anchor)))"

definition normalize_once :: "(string \<times> jval) list \<Rightarrow> int \<Rightarrow> schedule option \<Rightarrow> job_error + schedule" where
  "normalize_once d now previous =
     bind_sum
       (if jget d ''at_ms'' \<noteq> JNull then int_in (jget d ''at_ms'') ''schedule.at_ms'' 0 (2 ^ 53)
        else if jget d ''in_ms'' \<noteq> JNull then
          bind_sum (int_in (jget d ''in_ms'') ''schedule.in_ms'' 0 MAX_ONCE_AHEAD_MS) (\<lambda>i. Inr (now + i))
        else Inl NoMoment)
       (\<lambda>moment.
          if previous = Some (Once moment) then Inr (Once moment)
          else if moment < now - ONCE_PAST_GRACE_MS then Inl InPast
          else if moment > now + MAX_ONCE_AHEAD_MS then Inl TooFar
          else Inr (Once moment))"

definition normalize_schedule :: "calendar \<Rightarrow> jval \<Rightarrow> int \<Rightarrow> schedule option \<Rightarrow> job_error + schedule" where
  "normalize_schedule cal raw now previous =
     (case raw of
        JDict d \<Rightarrow>
          if kind_is d ''every'' then normalize_every d now previous
          else if kind_is d ''daily'' then
            bind_sum (valid_at (jget d ''at'')) (\<lambda>t. bind_sum (valid_tz cal (jget d ''tz'')) (\<lambda>tz. Inr (Daily t tz)))
          else if kind_is d ''weekly'' then
            (case jget d ''days'' of
               JList (v # vs) \<Rightarrow>
                 bind_sum (sum_list_of (\<lambda>x. int_in x ''schedule.days[]'' 1 7) (v # vs)) (\<lambda>days.
                 bind_sum (valid_at (jget d ''at'')) (\<lambda>t.
                 bind_sum (valid_tz cal (jget d ''tz'')) (\<lambda>tz. Inr (Weekly (sorted_list_of_set (set days)) t tz))))
             | _ \<Rightarrow> Inl NoDays)
          else if kind_is d ''once'' then normalize_once d now previous
          else Inl (BadKind ''schedule'')
      | _ \<Rightarrow> Inl (NotObject ''schedule''))"

definition target_field :: "(string \<times> jval) list \<Rightarrow> string \<Rightarrow> job_error + string option" where
  "target_field d key =
     (case jget d key of
        JNull \<Rightarrow> Inr None
      | JStr t \<Rightarrow>
          if t = [] then Inr None
          else if py_strip t = [] \<or> CHR ''/'' \<in> set t \<or> 256 < int (length t) then Inl (NotTarget key)
          else Inr (Some (py_strip t))
      | _ \<Rightarrow> Inl (NotTarget key))"

definition normalize_action :: "jval \<Rightarrow> job_error + job_action" where
  "normalize_action raw =
     (case raw of
        JDict d \<Rightarrow>
          if kind_is d ''evolve'' then bind_sum (require_str d ''workspace'' ''action.workspace'' 4096) (\<lambda>ws. Inr (Evolve ws))
          else if \<not> kind_is d ''message'' then Inl (BadKind ''action'')
          else
            bind_sum (require_str d ''workspace'' ''action.workspace'' 4096) (\<lambda>ws.
            bind_sum (target_field d ''pane_id'') (\<lambda>pane.
            bind_sum (target_field d ''pane_name'') (\<lambda>name.
            if pane = None \<and> name = None then Inl NoTarget
            else bind_sum (require_str d ''text'' ''action.text'' MAX_TEXT) (\<lambda>t. Inr (Message ws pane name t)))))
      | _ \<Rightarrow> Inl (NotObject ''action''))"

definition normalize_policy :: "jval \<Rightarrow> job_policy option \<Rightarrow> job_error + job_policy" where
  "normalize_policy raw previous =
     (case (case raw of JNull \<Rightarrow> JDict [] | v \<Rightarrow> v) of
        JDict d \<Rightarrow>
          (let base = (case previous of None \<Rightarrow> DEFAULT_POLICY | Some p \<Rightarrow> p) in
           bind_sum
             (case jget d ''catch_up'' of
                JNull \<Rightarrow> Inr base
              | JStr t \<Rightarrow> if t \<in> {''once'', ''skip''} then Inr (base\<lparr>pl_catch_up := t\<rparr>) else Inl BadCatchUp
              | _ \<Rightarrow> Inl BadCatchUp) (\<lambda>p1.
           bind_sum
             (if jget d ''max_runs_per_day'' = JNull then Inr p1
              else bind_sum (int_in (jget d ''max_runs_per_day'') ''policy.max_runs_per_day'' 1 1440) (\<lambda>n. Inr (p1\<lparr>pl_max_runs := n\<rparr>))) (\<lambda>p2.
           if jget d ''timeout_s'' = JNull then Inr p2
           else bind_sum (int_in (jget d ''timeout_s'') ''policy.timeout_s'' 60 86400) (\<lambda>n. Inr (p2\<lparr>pl_timeout := n\<rparr>)))))
      | _ \<Rightarrow> Inl (NotObject ''policy''))"

definition initial_state :: job_state where
  "initial_state = \<lparr>st_next = None, st_running = None, st_last_run = None, st_last_status = None, st_skip_reason = None, st_last_error = None,
     st_duration = None, st_errors = 0, st_backoff = None, st_msg_key = None, st_gone = 0, st_disabled_reason = None,
     st_rebound_from = None, st_needs_enable = None\<rparr>"

definition clear_target_gone :: "job_state \<Rightarrow> job_state" where
  "clear_target_gone st = st\<lparr>st_gone := 0, st_disabled_reason := None\<rparr>"

definition once_rearm :: "calendar \<Rightarrow> schedule \<Rightarrow> int \<Rightarrow> job_error + int" where
  "once_rearm cal sch now =
     (case next_run_after cal sch now of None \<Rightarrow> Inl NoSlot | Some None \<Rightarrow> Inl OnceOver | Some (Some slot) \<Rightarrow> Inr slot)"

text \<open>The slot a saved job waits for.\<close>

definition saved_next :: "calendar \<Rightarrow> schedule \<Rightarrow> bool \<Rightarrow> bool \<Rightarrow> int option \<Rightarrow> int \<Rightarrow> job_error + int option" where
  "saved_next cal sch changed reenabled next now =
     (case sch of
        Once moment \<Rightarrow>
          if changed then Inr (Some moment)
          else if reenabled then bind_sum (once_rearm cal sch now) (\<lambda>slot. Inr (Some slot))
          else Inr next
      | _ \<Rightarrow>
          if changed \<or> reenabled \<or> next = None
          then (case next_run_after cal sch now of None \<Rightarrow> Inl NoSlot | Some slot \<Rightarrow> Inr slot)
          else Inr next)"

text \<open>\<open>normalize_job\<close>; the owner is set by the callers. \<open>fresh\<close> is the new id.\<close>

definition normalize_job :: "calendar \<Rightarrow> string \<Rightarrow> jval \<Rightarrow> job option \<Rightarrow> int \<Rightarrow> job_error + job" where
  "normalize_job cal fresh raw existing now =
     (case raw of
        JDict d \<Rightarrow>
          bind_sum
            (case existing of Some j \<Rightarrow> if jget d ''name'' = JNull then Inr (jb_name j) else require_str d ''name'' ''name'' MAX_NAME
             | None \<Rightarrow> require_str d ''name'' ''name'' MAX_NAME) (\<lambda>name.
          bind_sum
            (case jget d ''enabled'' of
               JNull \<Rightarrow> Inr (case existing of Some j \<Rightarrow> jb_enabled j | None \<Rightarrow> True)
             | JBool b \<Rightarrow> Inr b
             | _ \<Rightarrow> Inl NotBool) (\<lambda>enabled.
          bind_sum
            (case existing of Some j \<Rightarrow> if jget d ''schedule'' = JNull then Inr (jb_schedule j)
                else normalize_schedule cal (jget d ''schedule'') now (Some (jb_schedule j))
             | None \<Rightarrow> normalize_schedule cal (jget d ''schedule'') now None) (\<lambda>sch.
          bind_sum
            (case existing of Some j \<Rightarrow> if jget d ''action'' = JNull then Inr (jb_action j) else normalize_action (jget d ''action'')
             | None \<Rightarrow> normalize_action (jget d ''action'')) (\<lambda>act.
          bind_sum (normalize_policy (jget d ''policy'') (map_option jb_policy existing)) (\<lambda>pol.
          (let st = (case existing of Some j \<Rightarrow> jb_state j | None \<Rightarrow> initial_state);
               changed = (case existing of None \<Rightarrow> True | Some j \<Rightarrow> sch \<noteq> jb_schedule j);
               reenabled = (case existing of None \<Rightarrow> False | Some j \<Rightarrow> enabled \<and> \<not> jb_enabled j);
               cleared = (reenabled \<or> (case existing of None \<Rightarrow> False | Some j \<Rightarrow> act \<noteq> jb_action j))
           in bind_sum (saved_next cal sch changed reenabled (st_next st) now) (\<lambda>next.
              let st1 = st\<lparr>st_next := next\<rparr>
              in Inr \<lparr>jb_id = (case existing of Some j \<Rightarrow> jb_id j | None \<Rightarrow> fresh), jb_name = name, jb_enabled = enabled,
                   jb_created = (case existing of Some j \<Rightarrow> jb_created j | None \<Rightarrow> now), jb_updated = now, jb_schedule = sch,
                   jb_action = act, jb_policy = pol, jb_state = (if cleared then clear_target_gone st1 else st1),
                   jb_owner = USER, jb_updated_by = None\<rparr>)))))))
      | _ \<Rightarrow> Inl (NotObject ''job''))"


section \<open>Ownership\<close>

definition job_owner_of :: "owner \<Rightarrow> owner" where
  "job_owner_of actor =
     (if ow_kind actor = ''pane'' then actor\<lparr>ow_feature := [], ow_expires := NoExpiry\<rparr>
      else if ow_kind actor = ''system'' then actor\<lparr>ow_pane_id := [], ow_pane_name := [], ow_expires := NoExpiry\<rparr>
      else USER\<lparr>ow_kind := str_or (ow_kind actor) ''external''\<rparr>)"

definition is_system :: "owner \<Rightarrow> bool" where
  "is_system who = (ow_kind who = ''system'')"

definition is_agent :: "owner \<Rightarrow> bool" where
  "is_agent who = (ow_kind who \<notin> {''user'', ''system''})"

definition owner_pane :: "(string \<Rightarrow> string option) \<Rightarrow> owner \<Rightarrow> string option" where
  "owner_pane live ow = live (ow_pane_id ow)"

definition owner_gone :: "(string \<Rightarrow> string option) \<Rightarrow> owner \<Rightarrow> bool" where
  "owner_gone live ow = (ow_kind ow = ''pane'' \<and> owner_pane live ow = None)"

definition may_change :: "(string \<Rightarrow> string option) \<Rightarrow> owner \<Rightarrow> job \<Rightarrow> bool" where
  "may_change live actor j =
     (let ow = jb_owner j in
      if is_system ow then is_system actor \<and> job_owner_of actor = job_owner_of ow
      else if is_system actor then False
      else if \<not> is_agent actor then True
      else if ow_kind ow = ''pane'' then ow_kind actor = ''pane'' \<and> owner_pane live ow = Some (ow_pane_id actor)
      else ow_kind ow = ''external'' \<and> ow_kind actor = ''external'')"

datatype agent_limit = MinEvery int | MaxRunsPerDay int | PerOwnerEnabled nat | GlobalEnabled nat | RunsPerDay int

definition agent_definition_limit :: "job \<Rightarrow> agent_limit option" where
  "agent_definition_limit j =
     (case jb_schedule j of
        Every period anchor \<Rightarrow>
          if period < AGENT_MIN_EVERY_MS then Some (MinEvery period)
          else if pl_max_runs (jb_policy j) > AGENT_MAX_RUNS_PER_DAY then Some (MaxRunsPerDay (pl_max_runs (jb_policy j))) else None
      | _ \<Rightarrow> if pl_max_runs (jb_policy j) > AGENT_MAX_RUNS_PER_DAY then Some (MaxRunsPerDay (pl_max_runs (jb_policy j))) else None)"

definition stamp_expiry :: "int \<Rightarrow> bool \<Rightarrow> job \<Rightarrow> job" where
  "stamp_expiry now refresh j =
     (let ow = jb_owner j in
      if \<not> is_agent ow then j
      else if is_once (jb_schedule j) then j\<lparr>jb_owner := ow\<lparr>ow_expires := NoExpiry\<rparr>\<rparr>
      else if ow_expires ow = KeptByUser then j
      else if refresh \<or> ow_expires ow = NoExpiry then j\<lparr>jb_owner := ow\<lparr>ow_expires := ExpiresAt (now + AGENT_EXPIRE_MS)\<rparr>\<rparr>
      else j)"

text \<open>\<open>_with_origin\<close>: the text that marks an action an agent wrote, for the guard.\<close>

definition origin_of :: "job \<Rightarrow> string option" where
  "origin_of j =
     (case find is_agent ((case jb_updated_by j of None \<Rightarrow> [] | Some who \<Rightarrow> [who]) @ [jb_owner j]) of
        None \<Rightarrow> None
      | Some who \<Rightarrow> Some (''scheduled by '' @ str_or (ow_pane_name who) (str_or (ow_pane_id who) (ow_kind who))))"

end
