(* ===== verification/Scheduler.thy ===== *)
theory Scheduler
  imports Sched_Jobs
begin

text \<open>
  \<open>backend/agent_team_backend/scheduler_store.py\<close> and the service of \<open>scheduler.py\<close>. The state holds the three tables of the database, the runs in flight,
  and how far the loop and the catch-up after a start have come. Between two awaits the code is one step here: the loop reads the list of
  jobs once and then visits them one by one, and deciding to start a run and starting it are two steps, so changes by the user or by an agent fall in between as
  they do in the code. Delivery, the windows and the clock are the environment: they come with each step. Log lines, the
  broadcast of the job list and the waiting times of the catch-up are left out.
\<close>

section \<open>The store\<close>

record run_row =
  rr_job :: string
  rr_started :: int
  rr_ended :: int
  rr_status :: run_status
  rr_reason :: "string option"
  rr_detail :: "string option"

text \<open>What leaves the service: a run handed to the delivery path, and the notice that a job was stopped.\<close>

datatype sched_event = Dispatched string int bool job_action "string option" | StoppedNotice job

text \<open>A tick of the loop: its time, the jobs of its listing still to visit, the next moment of interest, and a start it has decided on.\<close>

record tick =
  tk_now :: int
  tk_todo :: "job list"
  tk_nearest :: "int option"
  tk_start :: "(string \<times> bool) option"

record catch_up =
  cu_todo :: "string list"
  cu_start :: "(string \<times> bool) option"
  cu_wait :: "(string \<times> int) option"

record sched =
  sc_jobs :: "job list"
  sc_rows :: "run_row list"
  sc_usage :: "(string \<times> int) list"
  sc_runs :: "(string \<times> (int \<times> bool)) list"
  sc_pending :: "string list"
  sc_tick :: "tick option"
  sc_catch :: "catch_up option"
  sc_manual :: "(string \<times> bool) list"
  sc_out :: "sched_event list"

definition RUNS_PER_JOB :: nat where "RUNS_PER_JOB = 200"

definition list_jobs :: "sched \<Rightarrow> job list" where
  "list_jobs s = sort_key (\<lambda>j. (jb_created j, jb_id j)) (sc_jobs s)"

definition get_job :: "string \<Rightarrow> sched \<Rightarrow> job option" where
  "get_job k s = find (\<lambda>j. jb_id j = k) (sc_jobs s)"

definition change_job :: "string \<Rightarrow> (job \<Rightarrow> job) \<Rightarrow> sched \<Rightarrow> sched" where
  "change_job k f s = s\<lparr>sc_jobs := map (\<lambda>j. if jb_id j = k then f j else j) (sc_jobs s)\<rparr>"

text \<open>The upsert of a row does not write \<open>created_at\<close>.\<close>

definition put_job :: "job \<Rightarrow> sched \<Rightarrow> sched" where
  "put_job j s =
     (if get_job (jb_id j) s = None then s\<lparr>sc_jobs := sc_jobs s @ [j]\<rparr>
      else change_job (jb_id j) (\<lambda>old. j\<lparr>jb_created := jb_created old\<rparr>) s)"

definition set_state :: "string \<Rightarrow> job_state \<Rightarrow> sched \<Rightarrow> sched" where
  "set_state k st s = change_job k (\<lambda>j. j\<lparr>jb_state := st\<rparr>) s"

definition set_enabled_row :: "string \<Rightarrow> bool \<Rightarrow> job_state \<Rightarrow> int \<Rightarrow> owner option \<Rightarrow> owner option \<Rightarrow> sched \<Rightarrow> sched" where
  "set_enabled_row k enabled st now upd ow s =
     change_job k (\<lambda>j. j\<lparr>jb_enabled := enabled, jb_state := st, jb_updated := now,
       jb_updated_by := (case upd of None \<Rightarrow> jb_updated_by j | Some who \<Rightarrow> Some who),
       jb_owner := (case ow of None \<Rightarrow> jb_owner j | Some who \<Rightarrow> who)\<rparr>) s"

definition delete_job :: "string \<Rightarrow> sched \<Rightarrow> sched" where
  "delete_job k s = s\<lparr>sc_jobs := filter (\<lambda>j. jb_id j \<noteq> k) (sc_jobs s), sc_rows := filter (\<lambda>r. rr_job r \<noteq> k) (sc_rows s)\<rparr>"

text \<open>The newest \<open>n\<close> rows of a job stay, in the order of their ids.\<close>

fun drop_first_of :: "nat \<Rightarrow> ('a \<Rightarrow> bool) \<Rightarrow> 'a list \<Rightarrow> 'a list" where
  "drop_first_of n P [] = []"
| "drop_first_of n P (x # xs) = (if P x \<and> 0 < n then drop_first_of (n - 1) P xs else x # drop_first_of n P xs)"

definition append_run :: "run_row \<Rightarrow> sched \<Rightarrow> sched" where
  "append_run r s =
     (let rows = sc_rows s @ [r]; mine = (\<lambda>x. rr_job x = rr_job r)
      in s\<lparr>sc_rows := drop_first_of (length (filter mine rows) - RUNS_PER_JOB) mine rows\<rparr>)"

definition list_runs :: "string \<Rightarrow> nat \<Rightarrow> sched \<Rightarrow> run_row list" where
  "list_runs k limit s = take limit (rev (filter (\<lambda>r. rr_job r = k) (sc_rows s)))"

definition dispatched_row :: "string \<Rightarrow> int \<Rightarrow> run_row \<Rightarrow> bool" where
  "dispatched_row k since r = (rr_job r = k \<and> since \<le> rr_started r \<and> rr_status r \<in> {RunOk, RunError})"

definition count_dispatched_since :: "string \<Rightarrow> int \<Rightarrow> sched \<Rightarrow> int" where
  "count_dispatched_since k since s = int (length (filter (dispatched_row k since) (sc_rows s)))"

definition usage_of :: "string \<Rightarrow> sched \<Rightarrow> int" where
  "usage_of day s = (case dget (sc_usage s) day of None \<Rightarrow> 0 | Some n \<Rightarrow> n)"

definition add_usage :: "string \<Rightarrow> sched \<Rightarrow> sched" where
  "add_usage day s = s\<lparr>sc_usage := [(day, usage_of day s + 1)]\<rparr>"


section \<open>Runs\<close>

record env =
  en_live :: "string \<Rightarrow> string option"
  en_window :: bool
  en_queued :: "string \<Rightarrow> bool"
  en_limited :: "job_action \<Rightarrow> bool"

record run_outcome =
  oc_status :: run_status
  oc_reason :: "string option"
  oc_detail :: "string option"
  oc_msg_key :: "string option"

definition sched_emit :: "sched_event \<Rightarrow> sched \<Rightarrow> sched" where
  "sched_emit e s = s\<lparr>sc_out := sc_out s @ [e]\<rparr>"

definition opt_or :: "string option \<Rightarrow> string \<Rightarrow> string" where
  "opt_or x t = (case x of None \<Rightarrow> t | Some y \<Rightarrow> str_or y t)"

text \<open>\<open>_record_skip\<close>. Nothing is written when there is no slot: the code raises.\<close>

definition record_skip :: "calendar \<Rightarrow> job \<Rightarrow> int \<Rightarrow> string \<Rightarrow> string option \<Rightarrow> sched \<Rightarrow> sched option" where
  "record_skip cal j now reason detail s =
     (case next_run_after cal (jb_schedule j) now of
        None \<Rightarrow> None
      | Some slot \<Rightarrow>
          (let st = (jb_state j)\<lparr>st_last_status := Some RunSkipped, st_skip_reason := Some reason, st_next := slot\<rparr>
           in Some (append_run \<lparr>rr_job = jb_id j, rr_started = now, rr_ended = now, rr_status = RunSkipped, rr_reason = Some reason, rr_detail = detail\<rparr>
                (if is_once (jb_schedule j) then set_enabled_row (jb_id j) False st now None None s else set_state (jb_id j) st s))))"

definition gate :: "calendar \<Rightarrow> env \<Rightarrow> int \<Rightarrow> job \<Rightarrow> sched \<Rightarrow> string option" where
  "gate cal ev now j s =
     (if \<not> en_window ev then Some ''no_window''
      else if (case st_msg_key (jb_state j) of None \<Rightarrow> False | Some k \<Rightarrow> k \<noteq> [] \<and> en_queued ev k) then Some ''busy''
      else if pl_max_runs (jb_policy j) \<le> count_dispatched_since (jb_id j) (day_start_ms cal (jb_schedule j) now) s \<or> en_limited ev (jb_action j)
      then Some ''budget''
      else if is_agent (jb_owner j) \<and> AGENT_RUNS_PER_DAY_TOTAL \<le> usage_of (cl_usage_day cal now) s then Some ''budget_global''
      else None)"

text \<open>\<open>_fire\<close> up to the start: the run to start, if any. The job is the one of the caller's listing.\<close>

definition fire :: "calendar \<Rightarrow> env \<Rightarrow> int \<Rightarrow> job \<Rightarrow> sched \<Rightarrow> (sched \<times> (string \<times> bool) option) option" where
  "fire cal ev now j s =
     (case gate cal ev now j s of
        None \<Rightarrow> Some (s, Some (jb_id j, is_agent (jb_owner j)))
      | Some reason \<Rightarrow>
          (case get_job (jb_id j) s of
             None \<Rightarrow> Some (s, None)
           | Some fresh \<Rightarrow>
               if st_running (jb_state fresh) \<noteq> None then Some (s, None)
               else map_option (\<lambda>s1. (s1, None)) (record_skip cal fresh now reason None s)))"

text \<open>\<open>_start\<close>, and the hand-over at the beginning of \<open>_execute\<close>.\<close>

definition start_run :: "calendar \<Rightarrow> int \<Rightarrow> string \<Rightarrow> bool \<Rightarrow> bool \<Rightarrow> sched \<Rightarrow> sched \<times> bool" where
  "start_run cal started k manual count s =
     (case get_job k s of
        None \<Rightarrow> (s, False)
      | Some j \<Rightarrow>
          if st_running (jb_state j) \<noteq> None then (s, False)
          else if \<not> manual \<and> (case st_next (jb_state j) of None \<Rightarrow> False | Some due \<Rightarrow> started < due) then (s, False)
          else
            (let s1 = set_state k ((jb_state j)\<lparr>st_running := Some started\<rparr>) s;
                 s2 = (if count then add_usage (cl_usage_day cal started) s1 else s1)
             in (sched_emit (Dispatched k started manual (jb_action j) (case jb_action j of Evolve ws \<Rightarrow> None | Message ws p n t \<Rightarrow> origin_of j))
                   (s2\<lparr>sc_runs := dset k (started, manual) (sc_runs s2)\<rparr>), True)))"

text \<open>\<open>_settle\<close>: the new state of the job, before its next slot.\<close>

definition backoff_of :: "int \<Rightarrow> int" where
  "backoff_of errors = (BACKOFF_S ! nat (min errors (int (length BACKOFF_S)) - 1)) * 1000"

definition settled_state :: "int \<Rightarrow> int \<Rightarrow> run_outcome \<Rightarrow> job_state \<Rightarrow> job_state" where
  "settled_state now started oc st =
     (let st1 = st\<lparr>st_running := None, st_last_run := Some started, st_duration := Some (max 0 (now - started)),
            st_last_status := Some (oc_status oc), st_skip_reason := (if oc_status oc = RunSkipped then oc_reason oc else None),
            st_msg_key := (case oc_msg_key oc of None \<Rightarrow> st_msg_key st | Some k \<Rightarrow> if k = [] then st_msg_key st else Some k)\<rparr>;
          st2 = (case oc_status oc of
              RunOk \<Rightarrow> st1\<lparr>st_errors := 0, st_backoff := None, st_last_error := None\<rparr>
            | RunError \<Rightarrow> st1\<lparr>st_errors := st_errors st + 1, st_backoff := Some (now + backoff_of (st_errors st + 1)),
                st_last_error := Some (opt_or (oc_detail oc) (opt_or (oc_reason oc) ''error''))\<rparr>
            | RunSkipped \<Rightarrow> st1)
      in if oc_status oc = RunSkipped \<and> oc_reason oc = Some ''target_gone'' then st2\<lparr>st_gone := st_gone st + 1\<rparr>
         else if oc_status oc \<noteq> RunSkipped then st2\<lparr>st_gone := 0\<rparr> else st2)"

definition settle :: "calendar \<Rightarrow> int \<Rightarrow> string \<Rightarrow> int \<Rightarrow> run_outcome \<Rightarrow> bool \<Rightarrow> sched \<Rightarrow> sched \<times> job option" where
  "settle cal now k started oc manual s =
     (case get_job k s of
        None \<Rightarrow> (s, None)
      | Some j \<Rightarrow>
          if st_running (jb_state j) \<noteq> Some started then (s, None)
          else
            (let st = settled_state now started oc (jb_state j);
                 gone_out = (jb_enabled j \<and> TARGET_GONE_DISABLE_AFTER \<le> st_gone st);
                 st1 = (if gone_out then st\<lparr>st_disabled_reason := Some ''target_gone''\<rparr> else st)
             in case (if manual then Some (st_next st1) else next_run_after cal (jb_schedule j) now) of
                  None \<Rightarrow> (s, None)
                | Some slot \<Rightarrow>
                    (let st2 = st1\<lparr>st_next := slot\<rparr>;
                         s1 = (if gone_out \<or> (\<not> manual \<and> is_once (jb_schedule j)) then set_enabled_row k False st2 now None None s
                               else set_state k st2 s)
                     in (append_run \<lparr>rr_job = k, rr_started = started, rr_ended = now, rr_status = oc_status oc,
                            rr_reason = oc_reason oc, rr_detail = oc_detail oc\<rparr> s1,
                         if gone_out then Some (j\<lparr>jb_enabled := False, jb_state := st2\<rparr>) else None))))"

text \<open>\<open>_finish\<close>.\<close>

definition finish :: "calendar \<Rightarrow> int \<Rightarrow> string \<Rightarrow> int \<Rightarrow> run_outcome \<Rightarrow> bool \<Rightarrow> sched \<Rightarrow> sched" where
  "finish cal now k started oc manual s =
     (case settle cal now k started oc manual s of
        (s1, None) \<Rightarrow> s1
      | (s1, Some stopped) \<Rightarrow> sched_emit (StoppedNotice stopped) s1)"

text \<open>A cancelled run ends the catch-up when that waits for it.\<close>

definition cancel_run :: "string \<Rightarrow> sched \<Rightarrow> sched" where
  "cancel_run k s =
     (if \<not> has_key k (sc_runs s) then s
      else
        (let s1 = s\<lparr>sc_runs := dpop k (sc_runs s)\<rparr>
         in case sc_catch s of
              None \<Rightarrow> s1
            | Some cu \<Rightarrow> if map_option fst (cu_wait cu) = Some k then s1\<lparr>sc_catch := None, sc_pending := []\<rparr> else s1))"

definition TIMEOUT_OUTCOME :: run_outcome where
  "TIMEOUT_OUTCOME = \<lparr>oc_status = RunError, oc_reason = Some ''timeout'', oc_detail = Some ''run exceeded policy.timeout_s'', oc_msg_key = None\<rparr>"

definition fail_stuck :: "calendar \<Rightarrow> int \<Rightarrow> string \<Rightarrow> sched \<Rightarrow> sched" where
  "fail_stuck cal now k s =
     (let manual = (case dget (sc_runs s) k of None \<Rightarrow> False | Some r \<Rightarrow> snd r); s1 = cancel_run k s
      in case get_job k s1 of
           None \<Rightarrow> s1
         | Some j \<Rightarrow>
             (case st_running (jb_state j) of
                None \<Rightarrow> s1
              | Some started \<Rightarrow> finish cal now k started TIMEOUT_OUTCOME manual s1))"


section \<open>The loop\<close>

definition EXPIRED_DETAIL :: string where
  "EXPIRED_DETAIL = ''an agent's periodic job stops 7 days after it was last saved or enabled, unless the user keeps it''"

definition sweep_agent_job :: "int \<Rightarrow> job \<Rightarrow> sched \<Rightarrow> sched \<times> bool" where
  "sweep_agent_job now j s =
     (if \<not> is_agent (jb_owner j) \<or> st_running (jb_state j) \<noteq> None then (s, False)
      else if jb_enabled j \<and> (case ow_expires (jb_owner j) of ExpiresAt t \<Rightarrow> t \<le> now | _ \<Rightarrow> False) then
        (case get_job (jb_id j) s of
           None \<Rightarrow> (s, True)
         | Some fresh \<Rightarrow>
             if \<not> jb_enabled fresh \<or> (case st_running (jb_state fresh) of None \<Rightarrow> False | Some t \<Rightarrow> t \<noteq> 0) then (s, True)
             else
               (append_run \<lparr>rr_job = jb_id j, rr_started = now, rr_ended = now, rr_status = RunSkipped, rr_reason = Some ''expired'',
                  rr_detail = Some EXPIRED_DETAIL\<rparr>
                  (set_enabled_row (jb_id j) False
                     ((jb_state fresh)\<lparr>st_last_status := Some RunSkipped, st_skip_reason := Some ''expired''\<rparr>) now None None s), True))
      else if \<not> jb_enabled j \<and> is_once (jb_schedule j) \<and> AGENT_ONCE_KEEP_MS \<le> now - jb_updated j then (delete_job (jb_id j) s, True)
      else (s, False))"

definition earliest :: "int \<Rightarrow> int option \<Rightarrow> int option" where
  "earliest t nearest = Some (case nearest of None \<Rightarrow> t | Some n \<Rightarrow> min n t)"

text \<open>One job of the listing: the new state, the moment to consider, and a start.\<close>

definition visit_job :: "calendar \<Rightarrow> env \<Rightarrow> int \<Rightarrow> job \<Rightarrow> sched \<Rightarrow> (sched \<times> int option \<times> (string \<times> bool) option) option" where
  "visit_job cal ev now j s =
     (case sweep_agent_job now j s of
        (s1, True) \<Rightarrow> Some (s1, None, None)
      | (s1, False) \<Rightarrow>
          (case st_running (jb_state j) of
             Some running \<Rightarrow>
               (let deadline = running + pl_timeout (jb_policy j) * 1000
                in if deadline \<le> now then Some (fail_stuck cal now (jb_id j) s1, None, None) else Some (s1, Some deadline, None))
           | None \<Rightarrow>
               if \<not> jb_enabled j \<or> jb_id j \<in> set (sc_pending s1) then Some (s1, None, None)
               else case (case st_backoff (jb_state j) of None \<Rightarrow> None | Some b \<Rightarrow> if now < b then Some b else None) of
                 Some b \<Rightarrow> Some (s1, Some b, None)
               | None \<Rightarrow>
                   (case st_next (jb_state j) of
                      None \<Rightarrow> Some (s1, None, None)
                    | Some due \<Rightarrow>
                        if now < due then Some (s1, Some due, None)
                        else map_option (\<lambda>(s2, start). (s2, None, start)) (fire cal ev now j s1))))"

definition begin_tick :: "int \<Rightarrow> sched \<Rightarrow> sched" where
  "begin_tick now s =
     (case sc_tick s of
        Some t \<Rightarrow> s
      | None \<Rightarrow> s\<lparr>sc_tick := Some \<lparr>tk_now = now, tk_todo = list_jobs s, tk_nearest = None, tk_start = None\<rparr>\<rparr>)"

text \<open>An exception ends the tick. The last visit ends it too, with the time to sleep.\<close>

definition tick_visit :: "calendar \<Rightarrow> env \<Rightarrow> sched \<Rightarrow> sched" where
  "tick_visit cal ev s =
     (case sc_tick s of
        None \<Rightarrow> s
      | Some t \<Rightarrow>
          if tk_start t \<noteq> None then s
          else case tk_todo t of
            [] \<Rightarrow> s\<lparr>sc_tick := None\<rparr>
          | j # rest \<Rightarrow>
              (case visit_job cal ev (tk_now t) j s of
                 None \<Rightarrow> s\<lparr>sc_tick := None\<rparr>
               | Some (s1, moment, start) \<Rightarrow>
                   s1\<lparr>sc_tick := Some (t\<lparr>tk_todo := rest, tk_start := start,
                     tk_nearest := (case moment of None \<Rightarrow> tk_nearest t | Some m \<Rightarrow> earliest m (tk_nearest t))\<rparr>)\<rparr>))"

definition tick_start :: "calendar \<Rightarrow> int \<Rightarrow> sched \<Rightarrow> sched" where
  "tick_start cal started s =
     (case sc_tick s of
        None \<Rightarrow> s
      | Some t \<Rightarrow>
          (case tk_start t of
             None \<Rightarrow> s
           | Some (k, count) \<Rightarrow> (fst (start_run cal started k False count s))\<lparr>sc_tick := Some (t\<lparr>tk_start := None\<rparr>)\<rparr>))"

definition MAX_SLEEP_S :: rat where "MAX_SLEEP_S = 60"
definition MIN_SLEEP_S :: rat where "MIN_SLEEP_S = 2"

definition tick_sleep :: "tick \<Rightarrow> rat" where
  "tick_sleep t = (case tk_nearest t of None \<Rightarrow> MAX_SLEEP_S
     | Some n \<Rightarrow> max MIN_SLEEP_S (min MAX_SLEEP_S (of_int (n - tk_now t) / 1000)))"


section \<open>Start and catch-up\<close>

text \<open>\<open>start\<close>: the jobs in order, up to one that raises. The runs in flight died with the previous process.\<close>

definition boot_job :: "calendar \<Rightarrow> int \<Rightarrow> job \<Rightarrow> sched \<times> job list \<Rightarrow> (sched \<times> job list) option" where
  "boot_job cal now j acc =
     (case acc of (s, overdue) \<Rightarrow>
      if st_running (jb_state j) \<noteq> None then
        map_option (\<lambda>s1. (s1, overdue))
          (record_skip cal (j\<lparr>jb_state := (jb_state j)\<lparr>st_running := None\<rparr>\<rparr>) now ''interrupted'' (Some ''backend restarted mid-run'') s)
      else case st_next (jb_state j) of
        None \<Rightarrow> map_option (\<lambda>slot. (set_state (jb_id j) ((jb_state j)\<lparr>st_next := slot\<rparr>) s, overdue)) (next_run_after cal (jb_schedule j) now)
      | Some due \<Rightarrow>
          if jb_enabled j \<and> due \<le> now then
            (if pl_catch_up (jb_policy j) = ''skip''
             then map_option (\<lambda>s1. (s1, overdue)) (record_skip cal j now ''missed'' (Some ''missed while Navide was closed'') s)
             else Some (s, overdue @ [j]))
          else Some (s, overdue))"

fun boot_jobs :: "calendar \<Rightarrow> int \<Rightarrow> job list \<Rightarrow> sched \<times> job list \<Rightarrow> sched \<times> job list option" where
  "boot_jobs cal now [] acc = (fst acc, Some (snd acc))"
| "boot_jobs cal now (j # js) acc = (case boot_job cal now j acc of None \<Rightarrow> (fst acc, None) | Some acc1 \<Rightarrow> boot_jobs cal now js acc1)"

definition after_restart :: "sched \<Rightarrow> sched" where
  "after_restart s = s\<lparr>sc_runs := [], sc_pending := [], sc_tick := None, sc_catch := None, sc_manual := []\<rparr>"

definition boot :: "calendar \<Rightarrow> int \<Rightarrow> sched \<Rightarrow> sched" where
  "boot cal now s =
     (let s0 = after_restart s
      in case boot_jobs cal now (list_jobs s0) (s0, []) of
           (s1, None) \<Rightarrow> s1
         | (s1, Some overdue) \<Rightarrow>
             (let ids = map jb_id (sort_key (\<lambda>j. the (st_next (jb_state j))) overdue)
              in if ids = [] then s1 else s1\<lparr>sc_pending := ids, sc_catch := Some \<lparr>cu_todo = ids, cu_start = None, cu_wait = None\<rparr>\<rparr>))"

text \<open>\<open>_catch_up\<close>: the next job, once the run before it is over.\<close>

definition catch_up_step :: "calendar \<Rightarrow> env \<Rightarrow> int \<Rightarrow> sched \<Rightarrow> sched" where
  "catch_up_step cal ev now s =
     (case sc_catch s of
        None \<Rightarrow> s
      | Some cu \<Rightarrow>
          if cu_start cu \<noteq> None \<or> (case cu_wait cu of None \<Rightarrow> False | Some (k, started) \<Rightarrow> dget (sc_runs s) k = Some (started, False)) then s
          else case cu_todo cu of
            [] \<Rightarrow> s\<lparr>sc_catch := None, sc_pending := []\<rparr>
          | k # rest \<Rightarrow>
              (let s1 = s\<lparr>sc_pending := removeAll k (sc_pending s), sc_catch := Some (cu\<lparr>cu_todo := rest, cu_wait := None\<rparr>)\<rparr>
               in case get_job k s1 of
                    None \<Rightarrow> s1
                  | Some j \<Rightarrow>
                      if \<not> jb_enabled j \<or> st_running (jb_state j) \<noteq> None then s1
                      else case fire cal ev now j s1 of
                        None \<Rightarrow> s1\<lparr>sc_catch := None, sc_pending := []\<rparr>
                      | Some (s2, start) \<Rightarrow> s2\<lparr>sc_catch := Some (cu\<lparr>cu_todo := rest, cu_wait := None, cu_start := start\<rparr>)\<rparr>))"

definition catch_up_start :: "calendar \<Rightarrow> int \<Rightarrow> sched \<Rightarrow> sched" where
  "catch_up_start cal started s =
     (case sc_catch s of
        None \<Rightarrow> s
      | Some cu \<Rightarrow>
          (case cu_start cu of
             None \<Rightarrow> s
           | Some (k, count) \<Rightarrow>
               (case start_run cal started k False count s of
                  (s1, ok) \<Rightarrow> s1\<lparr>sc_catch := Some (cu\<lparr>cu_start := None, cu_wait := (if ok then Some (k, started) else None)\<rparr>)\<rparr>)))"


section \<open>Changes by the user and by agents\<close>

datatype sched_reply = ReplyOk | ReplyJob job | ReplyUnknown | ReplyNotOwner | ReplySystemJob | ReplyLimit agent_limit
  | ReplyInvalid job_error | ReplyRunning | ReplyNotAgent

definition not_owner :: "job \<Rightarrow> sched_reply" where
  "not_owner j = (if is_system (jb_owner j) then ReplySystemJob else ReplyNotOwner)"

definition agent_enable_limit :: "(string \<Rightarrow> string option) \<Rightarrow> owner \<Rightarrow> string \<Rightarrow> sched \<Rightarrow> agent_limit option" where
  "agent_enable_limit live actor k s =
     (let enabled = filter (\<lambda>j. jb_enabled j \<and> jb_id j \<noteq> k \<and> is_agent (jb_owner j)) (list_jobs s);
          mine = length (filter (may_change live actor) enabled)
      in if AGENT_ENABLED_PER_OWNER \<le> mine then Some (PerOwnerEnabled mine)
         else if AGENT_ENABLED_TOTAL \<le> length enabled then Some (GlobalEnabled (length enabled))
         else None)"

text \<open>The job that the id of a request names: nothing for a new job.\<close>

definition named_job :: "(string \<Rightarrow> string option) \<Rightarrow> jval \<Rightarrow> owner \<Rightarrow> sched \<Rightarrow> sched_reply + job option" where
  "named_job live raw actor s =
     (case (case raw of JDict d \<Rightarrow> jget d ''id'' | _ \<Rightarrow> JNull) of
        JStr k \<Rightarrow>
          if k = [] then Inr None
          else (case get_job k s of
                  None \<Rightarrow> Inl (ReplyInvalid UnknownJob)
                | Some j \<Rightarrow> if may_change live actor j then Inr (Some j) else Inl (not_owner j))
      | v \<Rightarrow> if truthy v then Inl (ReplyInvalid BadId) else Inr None)"

definition limit_of :: "(string \<Rightarrow> string option) \<Rightarrow> owner \<Rightarrow> bool \<Rightarrow> job \<Rightarrow> sched \<Rightarrow> agent_limit option" where
  "limit_of live actor enabling j s =
     (if \<not> is_agent actor then None
      else case agent_definition_limit j of
        Some l \<Rightarrow> Some l
      | None \<Rightarrow> if enabling then agent_enable_limit live actor (jb_id j) s else None)"

definition upsert :: "calendar \<Rightarrow> env \<Rightarrow> int \<Rightarrow> string \<Rightarrow> jval \<Rightarrow> owner \<Rightarrow> sched \<Rightarrow> sched \<times> sched_reply" where
  "upsert cal ev now fresh raw actor s =
     (case named_job (en_live ev) raw actor s of
        Inl r \<Rightarrow> (s, r)
      | Inr existing \<Rightarrow>
          (case normalize_job cal fresh raw existing now of
             Inl e \<Rightarrow> (s, ReplyInvalid e)
           | Inr j0 \<Rightarrow>
               if (case jb_action j0 of Evolve ws \<Rightarrow> \<not> is_system actor | _ \<Rightarrow> False) then (s, ReplyInvalid EvolveRefused)
               else
                 (let j = j0\<lparr>jb_owner := (case existing of Some old \<Rightarrow> jb_owner old | None \<Rightarrow> job_owner_of actor), jb_updated_by := Some (job_owner_of actor)\<rparr>;
                      enabling = (jb_enabled j \<and> (case existing of None \<Rightarrow> True | Some old \<Rightarrow> \<not> jb_enabled old))
                  in case limit_of (en_live ev) actor enabling j s of
                       Some l \<Rightarrow> (s, ReplyLimit l)
                     | None \<Rightarrow>
                         (let j1 = stamp_expiry now (is_agent actor \<or> enabling) j
                          in (put_job j1 s, ReplyJob j1)))))"

text \<open>The calls by id: unknown, not allowed, or on with the job.\<close>

definition on_job :: "env \<Rightarrow> string \<Rightarrow> owner \<Rightarrow> (job \<Rightarrow> sched \<Rightarrow> sched \<times> sched_reply) \<Rightarrow> sched \<Rightarrow> sched \<times> sched_reply" where
  "on_job ev k actor f s =
     (case get_job k s of
        None \<Rightarrow> (s, ReplyUnknown)
      | Some j \<Rightarrow> if may_change (en_live ev) actor j then f j s else (s, not_owner j))"

definition remove_job :: "env \<Rightarrow> string \<Rightarrow> owner \<Rightarrow> sched \<Rightarrow> sched \<times> sched_reply" where
  "remove_job ev k actor = on_job ev k actor (\<lambda>j s. (cancel_run k (delete_job k s), ReplyOk))"

text \<open>\<open>adopt\<close> and \<open>keep\<close>: only a window calls these.\<close>

definition adopt :: "int \<Rightarrow> string \<Rightarrow> sched \<Rightarrow> sched \<times> sched_reply" where
  "adopt now k s =
     (case get_job k s of
        None \<Rightarrow> (s, ReplyUnknown)
      | Some j \<Rightarrow>
          if is_system (jb_owner j) then (s, ReplySystemJob)
          else (let j1 = j\<lparr>jb_owner := USER, jb_updated_by := Some USER, jb_updated := now\<rparr> in (put_job j1 s, ReplyJob j1)))"

definition keep_job :: "int \<Rightarrow> string \<Rightarrow> sched \<Rightarrow> sched \<times> sched_reply" where
  "keep_job now k s =
     (case get_job k s of
        None \<Rightarrow> (s, ReplyUnknown)
      | Some j \<Rightarrow>
          if is_system (jb_owner j) then (s, ReplySystemJob)
          else if \<not> is_agent (jb_owner j) then (s, ReplyNotAgent)
          else (let j1 = j\<lparr>jb_owner := (jb_owner j)\<lparr>ow_expires := KeptByUser\<rparr>, jb_updated_by := Some USER, jb_updated := now\<rparr>
                in (put_job j1 s, ReplyJob j1)))"

definition set_job_enabled :: "calendar \<Rightarrow> env \<Rightarrow> int \<Rightarrow> string \<Rightarrow> bool \<Rightarrow> owner \<Rightarrow> sched \<Rightarrow> sched \<times> sched_reply" where
  "set_job_enabled cal ev now k enabled actor = on_job ev k actor (\<lambda>j s.
     if \<not> (enabled \<and> \<not> jb_enabled j) then
       (set_enabled_row k enabled (jb_state j) now (Some (job_owner_of actor)) None s, ReplyOk)
     else
       (case (if is_agent actor then agent_enable_limit (en_live ev) actor k s else None) of
          Some l \<Rightarrow> (s, ReplyLimit l)
        | None \<Rightarrow>
            (let ow = jb_owner (stamp_expiry now True j) in
             case (if is_once (jb_schedule j) then bind_sum (once_rearm cal (jb_schedule j) now) (\<lambda>slot. Inr (Some slot))
                   else case next_run_after cal (jb_schedule j) now of None \<Rightarrow> Inl NoSlot | Some slot \<Rightarrow> Inr slot) of
               Inl e \<Rightarrow> (s, ReplyInvalid e)
             | Inr slot \<Rightarrow>
                 (set_enabled_row k True ((clear_target_gone ((jb_state j)\<lparr>st_next := slot\<rparr>))\<lparr>st_needs_enable := Some False\<rparr>) now
                    (Some (job_owner_of actor)) (Some ow) s, ReplyOk))))"

text \<open>\<open>run_now\<close> up to the start, which is a step of its own.\<close>

definition run_now :: "calendar \<Rightarrow> env \<Rightarrow> int \<Rightarrow> string \<Rightarrow> owner \<Rightarrow> sched \<Rightarrow> sched \<times> sched_reply" where
  "run_now cal ev now k actor = on_job ev k actor (\<lambda>j s.
     if st_running (jb_state j) \<noteq> None then (s, ReplyRunning)
     else if is_agent actor \<and> AGENT_RUNS_PER_DAY_TOTAL \<le> usage_of (cl_usage_day cal now) s
     then (s, ReplyLimit (RunsPerDay (usage_of (cl_usage_day cal now) s)))
     else
       (let s1 = (if st_backoff (jb_state j) = None then s else set_state k ((jb_state j)\<lparr>st_backoff := None\<rparr>) s)
        in (s1\<lparr>sc_manual := sc_manual s1 @ [(k, is_agent actor)]\<rparr>, ReplyOk)))"

definition manual_start :: "calendar \<Rightarrow> nat \<Rightarrow> int \<Rightarrow> sched \<Rightarrow> sched" where
  "manual_start cal n started s =
     (if n < length (sc_manual s)
      then (let (k, count) = sc_manual s ! n; s1 = s\<lparr>sc_manual := take n (sc_manual s) @ drop (Suc n) (sc_manual s)\<rparr>
            in fst (start_run cal started k True count s1))
      else s)"

definition system_put :: "calendar \<Rightarrow> env \<Rightarrow> int \<Rightarrow> string \<Rightarrow> jval \<Rightarrow> owner \<Rightarrow> sched \<Rightarrow> sched \<times> sched_reply" where
  "system_put cal ev now k raw ow s =
     (if \<not> is_system ow then (s, ReplyInvalid NeedsSystemOwner)
      else
        (let existing = get_job k s in
         if (case existing of None \<Rightarrow> False | Some j \<Rightarrow> \<not> may_change (en_live ev) ow j) then (s, not_owner (the existing))
         else case normalize_job cal k raw existing now of
           Inl e \<Rightarrow> (s, ReplyInvalid e)
         | Inr j0 \<Rightarrow>
             (let j = j0\<lparr>jb_id := k, jb_owner := job_owner_of ow, jb_updated_by := Some (job_owner_of ow)\<rparr> in (put_job j s, ReplyJob j))))"

text \<open>\<open>rebind_after_rebuild\<close>: along the session lineage only.\<close>

definition rebound :: "string \<Rightarrow> string \<Rightarrow> job \<Rightarrow> job" where
  "rebound old_pane pane j =
     (case jb_action j of
        Message ws (Some p) name t \<Rightarrow>
          if p \<noteq> old_pane then j
          else
            (let st = clear_target_gone ((jb_state j)\<lparr>st_rebound_from := Some old_pane\<rparr>);
                 st1 = (if st_skip_reason st = Some ''target_gone'' then st\<lparr>st_skip_reason := None\<rparr> else st);
                 st2 = (if jb_enabled j then st1 else st1\<lparr>st_needs_enable := Some True\<rparr>)
             in j\<lparr>jb_action := Message ws (Some pane) name t, jb_state := st2\<rparr>)
      | _ \<Rightarrow> j)"

definition rebind_after_rebuild :: "string \<Rightarrow> string \<Rightarrow> string \<Rightarrow> string \<Rightarrow> sched \<Rightarrow> sched" where
  "rebind_after_rebuild old_pane pane old_session session s =
     (if old_pane = [] \<or> pane = [] \<or> session = [] \<or> old_pane = pane \<or> old_session \<noteq> session then s
      else s\<lparr>sc_jobs := map (rebound old_pane pane) (sc_jobs s)\<rparr>)"


section \<open>Answers\<close>

text \<open>The answer of the send path, with the keys the service reads; \<open>outcome_of_send\<close>.\<close>

record send_answer =
  sa_ok :: bool
  sa_code :: string
  sa_error :: string
  sa_key :: "string option"
  sa_status :: "string option"
  sa_reason :: "string option"
  sa_hold :: "string option"

definition outcome_of_send :: "send_answer \<Rightarrow> run_outcome" where
  "outcome_of_send a =
     (if \<not> sa_ok a then
        (let detail = Some (str_or (sa_error a) ''send refused'') in
         if sa_code a = ''target-offline'' then \<lparr>oc_status = RunSkipped, oc_reason = Some ''no_window'', oc_detail = detail, oc_msg_key = None\<rparr>
         else if sa_code a = ''unknown-pane-id'' then \<lparr>oc_status = RunSkipped, oc_reason = Some ''target_gone'', oc_detail = detail, oc_msg_key = None\<rparr>
         else \<lparr>oc_status = RunError, oc_reason = (if sa_code a = [] then None else Some (sa_code a)), oc_detail = detail, oc_msg_key = None\<rparr>)
      else if sa_status a \<in> {Some ''failed'', Some ''rejected''} then
        \<lparr>oc_status = RunError, oc_reason = sa_status a, oc_detail = Some (opt_or (sa_reason a) (the (sa_status a))), oc_msg_key = sa_key a\<rparr>
      else if sa_status a = Some ''queued'' then
        \<lparr>oc_status = RunOk, oc_reason = None, oc_detail = Some (''queued ('' @ opt_or (sa_hold a) ''pending'' @ '')''), oc_msg_key = sa_key a\<rparr>
      else \<lparr>oc_status = RunOk, oc_reason = None, oc_detail = Some (opt_or (sa_status a) ''sent''), oc_msg_key = sa_key a\<rparr>)"

text \<open>\<open>view\<close>, the jobs and limits of \<open>list\<close>, and \<open>runs\<close>.\<close>

definition view :: "(string \<Rightarrow> string option) \<Rightarrow> job \<Rightarrow> job \<times> bool" where
  "view live j = (j, owner_gone live (jb_owner j))"

record sched_listing =
  sl_jobs :: "(job \<times> bool) list"
  sl_now :: int
  sl_agents_on :: nat
  sl_runs_today :: int

definition list_reply :: "calendar \<Rightarrow> (string \<Rightarrow> string option) \<Rightarrow> int \<Rightarrow> sched \<Rightarrow> sched_listing" where
  "list_reply cal live now s =
     (let jobs = map (view live) (list_jobs s)
      in \<lparr>sl_jobs = jobs, sl_now = now, sl_agents_on = length (filter (\<lambda>(j, gone). jb_enabled j \<and> is_agent (jb_owner j)) jobs),
          sl_runs_today = usage_of (cl_usage_day cal now) s\<rparr>)"

definition runs_reply :: "string \<Rightarrow> int \<Rightarrow> sched \<Rightarrow> run_row list option" where
  "runs_reply k limit s = (if get_job k s = None then None else Some (list_runs k (nat (max 1 (min limit 200))) s))"


section \<open>Runs of the service\<close>

datatype sched_op =
    SBoot int
  | STick int
  | SVisit env
  | STickStart int
  | SCatchUp env int
  | SCatchUpStart int
  | SOutcome int string run_outcome
  | SUpsert env int string jval owner
  | SRemove env string owner
  | SAdopt int string
  | SKeep int string
  | SEnable env int string bool owner
  | SRunNow env int string owner
  | SManualStart nat int
  | SSystemPut env int string jval owner
  | SRebind string string string string

text \<open>The outcome of a run that is in flight: the run ends first.\<close>

definition run_ended :: "calendar \<Rightarrow> int \<Rightarrow> string \<Rightarrow> run_outcome \<Rightarrow> sched \<Rightarrow> sched" where
  "run_ended cal now k oc s =
     (case dget (sc_runs s) k of
        None \<Rightarrow> s
      | Some (started, manual) \<Rightarrow> finish cal now k started oc manual (s\<lparr>sc_runs := dpop k (sc_runs s)\<rparr>))"

fun sched_step :: "calendar \<Rightarrow> sched \<Rightarrow> sched_op \<Rightarrow> sched" where
  "sched_step cal s (SBoot now) = boot cal now s"
| "sched_step cal s (STick now) = begin_tick now s"
| "sched_step cal s (SVisit ev) = tick_visit cal ev s"
| "sched_step cal s (STickStart started) = tick_start cal started s"
| "sched_step cal s (SCatchUp ev now) = catch_up_step cal ev now s"
| "sched_step cal s (SCatchUpStart started) = catch_up_start cal started s"
| "sched_step cal s (SOutcome now k oc) = run_ended cal now k oc s"
| "sched_step cal s (SUpsert ev now fresh raw actor) = fst (upsert cal ev now fresh raw actor s)"
| "sched_step cal s (SRemove ev k actor) = fst (remove_job ev k actor s)"
| "sched_step cal s (SAdopt now k) = fst (adopt now k s)"
| "sched_step cal s (SKeep now k) = fst (keep_job now k s)"
| "sched_step cal s (SEnable ev now k enabled actor) = fst (set_job_enabled cal ev now k enabled actor s)"
| "sched_step cal s (SRunNow ev now k actor) = fst (run_now cal ev now k actor s)"
| "sched_step cal s (SManualStart n started) = manual_start cal n started s"
| "sched_step cal s (SSystemPut ev now k raw ow) = fst (system_put cal ev now k raw ow s)"
| "sched_step cal s (SRebind old_pane pane old_session session) = rebind_after_rebuild old_pane pane old_session session s"

definition empty_sched :: sched where
  "empty_sched = \<lparr>sc_jobs = [], sc_rows = [], sc_usage = [], sc_runs = [], sc_pending = [], sc_tick = None, sc_catch = None,
     sc_manual = [], sc_out = []\<rparr>"

end
