(* ===== verification/Sched_Slots.thy ===== *)
theory Sched_Slots
  imports Sched_Jobs
begin

text \<open>
  The slots of a schedule as a set of moments, and \<open>next_run_after\<close> as the least of them after a moment.
\<close>

section \<open>Calendars\<close>

text \<open>
  What the code relies on of the time zone database. A wall-clock time on a later day than a moment's own day comes after the
  moment, one on an earlier day does not, and one minute of the day comes later on a later day. It excludes the two or
  three zones that have skipped a whole day.
\<close>

definition calendar_ok :: "calendar \<Rightarrow> bool" where
  "calendar_ok cal = ((\<forall>z m t d. cl_date cal z t < d \<longrightarrow> t < cl_at cal z d m) \<and>
     (\<forall>z m t d. d < cl_date cal z t \<longrightarrow> cl_at cal z d m \<le> t) \<and> (\<forall>z m d d'. d < d' \<longrightarrow> cl_at cal z d m < cl_at cal z d' m))"

definition slots :: "calendar \<Rightarrow> schedule \<Rightarrow> int set" where
  "slots cal sch =
     (case sch of
        Once moment \<Rightarrow> {moment}
      | Every period anchor \<Rightarrow> {anchor + int k * period |k. True}
      | Daily t tz \<Rightarrow> {cl_at cal (zone_of cal tz) d (at_minute t) |d. True}
      | Weekly days t tz \<Rightarrow> {cl_at cal (zone_of cal tz) d (at_minute t) |d. isoweekday d \<in> set days})"

definition schedule_ok :: "schedule \<Rightarrow> bool" where
  "schedule_ok sch =
     (case sch of
        Every period anchor \<Rightarrow> 0 < period
      | Weekly days t tz \<Rightarrow> days \<noteq> [] \<and> set days \<subseteq> {1..7}
      | _ \<Rightarrow> True)"

text \<open>\<open>r\<close> is the least element of \<open>S\<close> after \<open>t\<close>, or nothing when there is none.\<close>

definition least_after :: "int set \<Rightarrow> int \<Rightarrow> int option \<Rightarrow> bool" where
  "least_after S t r =
     (case r of None \<Rightarrow> \<forall>x\<in>S. x \<le> t | Some m \<Rightarrow> m \<in> S \<and> t < m \<and> (\<forall>x\<in>S. t < x \<longrightarrow> m \<le> x))"


section \<open>Intervals\<close>

lemma every_least:
  assumes "0 < period"
  shows "least_after (slots cal (Every period anchor)) after
    (Some (if after < anchor then anchor else anchor + ((after - anchor) div period + 1) * period))"
proof (cases "after < anchor")
  case True
  have "anchor \<in> slots cal (Every period anchor)" by (auto simp: slots_def intro: exI [of _ 0])
  moreover have "anchor \<le> anchor + int k * period" for k using assms by simp
  ultimately show ?thesis using True by (auto simp: least_after_def slots_def)
next
  case False
  let ?q = "(after - anchor) div period"
  have q: "?q * period \<le> after - anchor" "after - anchor < (?q + 1) * period"
  proof -
    have "?q * period + (after - anchor) mod period = after - anchor" by (rule div_mult_mod_eq)
    then show "?q * period \<le> after - anchor" "after - anchor < (?q + 1) * period"
      using pos_mod_bound [OF assms, of "after - anchor"] pos_mod_sign [OF assms, of "after - anchor"] unfolding distrib_right by linarith+
  qed
  have "0 \<le> ?q" using False assms by (simp add: pos_imp_zdiv_nonneg_iff)
  then have "anchor + (?q + 1) * period \<in> slots cal (Every period anchor)"
    by (auto simp: slots_def intro!: exI [of _ "nat (?q + 1)"])
  moreover have "anchor + (?q + 1) * period \<le> anchor + int k * period" if "after < anchor + int k * period" for k
  proof -
    have "?q * period < int k * period" using q(1) that by linarith
    then have "?q + 1 \<le> int k" using assms by simp
    then have "(?q + 1) * period \<le> int k * period" using assms by (simp add: mult_right_mono)
    then show ?thesis by simp
  qed
  ultimately show ?thesis using False q(2) by (auto simp: least_after_def slots_def)
qed


section \<open>Wall-clock times\<close>

lemma first_some_spec:
  "first_some f xs = Some y \<Longrightarrow> \<exists>pre x post. xs = pre @ x # post \<and> f x = Some y \<and> (\<forall>p\<in>set pre. f p = None)"
proof (induction xs)
  case (Cons a xs)
  show ?case
  proof (cases "f a")
    case None
    with Cons obtain pre x post where "xs = pre @ x # post" "f x = Some y" "\<forall>p\<in>set pre. f p = None" by auto
    with None show ?thesis by (intro exI [of _ "a # pre"]) auto
  next
    case (Some b)
    with Cons.prems show ?thesis by (intro exI [of _ "[]"]) auto
  qed
qed simp

lemma first_some_none: "first_some f xs = None \<Longrightarrow> x \<in> set xs \<Longrightarrow> f x = None"
  by (induction xs) (auto split: option.splits)

lemma weekday_in_week:
  assumes "w \<in> {1..7}"
  shows "\<exists>k\<in>{1, 2, 3, 4, 5, 6, 7}. isoweekday (today + k) = w"
proof -
  let ?k = "(w - today - 1) mod 7 + 1"
  have "(today + ?k) mod 7 = w mod 7"
  proof -
    let ?r = "w - today - 1"
    have "today + ?k = w - 7 * (?r div 7)" using div_mult_mod_eq [of ?r 7] by (simp add: algebra_simps)
    moreover have "(w - 7 * q) mod 7 = w mod 7" for q by presburger
    ultimately show ?thesis by simp
  qed
  moreover have "w mod 7 = (if w = 7 then 0 else w)" using assms by (auto intro: mod_pos_pos_trivial)
  ultimately have "isoweekday (today + ?k) = w" using assms by (auto simp: isoweekday_def split: if_splits)
  moreover have "?k \<in> {1..7}" using pos_mod_bound [of 7 "w - today - 1"] pos_mod_sign [of 7 "w - today - 1"] by auto
  moreover have "{1..7::int} = {1, 2, 3, 4, 5, 6, 7}" by auto
  ultimately show ?thesis by auto
qed

lemma calendar_least:
  assumes ok: "calendar_ok cal" and days: "W \<noteq> {}" "W \<subseteq> {1..7}"
  obtains m where "calendar_slot cal tz t W after = Some m"
    "least_after {cl_at cal (zone_of cal tz) d (at_minute t) |d. isoweekday d \<in> W} after (Some m)"
proof -
  let ?z = "zone_of cal tz" and ?m = "at_minute t"
  let ?today = "cl_date cal ?z after" and ?c = "\<lambda>d. cl_at cal ?z d ?m"
  let ?f = "day_slot cal ?z ?m W after" and ?ds = "map (\<lambda>k. ?today + k) [0, 1, 2, 3, 4, 5, 6, 7, 8]"
  have later: "?today < d \<Longrightarrow> after < ?c d" and early: "d < ?today \<Longrightarrow> ?c d \<le> after" and less: "d < d' \<Longrightarrow> ?c d < ?c d'" for d d'
    using ok unfolding calendar_ok_def by blast+
  have slot: "calendar_slot cal tz t W after = first_some ?f ?ds" by (simp only: calendar_slot_def Let_def)
  obtain w where w: "w \<in> W" using days(1) by blast
  with days(2) obtain k where k: "k \<in> {1, 2, 3, 4, 5, 6, 7}" "isoweekday (?today + k) = w" using weekday_in_week [of w ?today] by blast
  then have "?f (?today + k) = Some (?c (?today + k))" using w later [of "?today + k"] by (auto simp: day_slot_def Let_def)
  moreover have "?today + k \<in> set ?ds" using k(1) by auto
  ultimately have "first_some ?f ?ds \<noteq> None" using first_some_none [of ?f ?ds "?today + k"] by (metis option.distinct(1))
  then obtain m where m: "first_some ?f ?ds = Some m" by blast
  from first_some_spec [OF m] obtain pre d post where d: "?ds = pre @ d # post" "?f d = Some m" "\<forall>p\<in>set pre. ?f p = None" by blast
  have dm: "isoweekday d \<in> W" "m = ?c d" "after < m" using d(2) by (auto simp: day_slot_def Let_def split: if_splits)
  have pre: "e \<in> set pre" if e: "?today \<le> e" "e < d" for e
  proof -
    have "d \<in> set ?ds" unfolding d(1) by simp
    then have "d \<le> ?today + 8" by auto
    with e have "e - ?today \<in> {0, 1, 2, 3, 4, 5, 6, 7, 8}" by auto
    then have "e \<in> set ?ds" by auto
    moreover have "sorted_wrt (<) ?ds" by simp
    ultimately show ?thesis using e(2) unfolding d(1) by (auto simp: sorted_wrt_append)
  qed
  have "m \<le> ?c e" if e: "isoweekday e \<in> W" "after < ?c e" for e
  proof (rule ccontr)
    assume "\<not> m \<le> ?c e"
    then have "?c e < ?c d" using dm(2) by simp
    then have "e < d" using less [of d e] by (metis less_asym linorder_neqE)
    moreover have "?today \<le> e" using early [of e] e(2) by linarith
    ultimately have "?f e = None" using pre d(3) by blast
    with e show False by (simp add: day_slot_def Let_def)
  qed
  with dm have "least_after {?c d |d. isoweekday d \<in> W} after (Some m)" by (auto simp: least_after_def)
  with m show thesis by (intro that [of m]) (simp_all add: slot)
qed


section \<open>The next slot\<close>

lemma next_run_least:
  assumes "calendar_ok cal" and "schedule_ok sch"
  obtains r where "next_run_after cal sch after = Some r" "least_after (slots cal sch) after r"
proof (cases sch)
  case (Once moment)
  show thesis by (rule that [of "if after < moment then Some moment else None"]) (auto simp: Once least_after_def slots_def)
next
  case (Every period anchor)
  with assms(2) have "0 < period" by (simp add: schedule_ok_def)
  from every_least [OF this] show thesis by (intro that) (simp_all add: Every)
next
  case (Daily t tz)
  have week: "{1..7::int} = {1, 2, 3, 4, 5, 6, 7}" by auto
  have any: "isoweekday d \<in> {1..7}" for d
    using pos_mod_bound [of 7 d] pos_mod_sign [of 7 d] by (auto simp: isoweekday_def)
  obtain m where m: "calendar_slot cal tz t {1..7} after = Some m"
      "least_after {cl_at cal (zone_of cal tz) d (at_minute t) |d. isoweekday d \<in> {1..7}} after (Some m)"
    by (rule calendar_least [OF assms(1), of "{1..7}"]) auto
  have "least_after (slots cal sch) after (Some m)" using m(2) by (simp only: Daily slots_def schedule.case any simp_thms)
  with m(1) show thesis by (intro that [of "Some m"]) (simp_all add: Daily week)
next
  case (Weekly days t tz)
  with assms(2) have d: "days \<noteq> []" "set days \<noteq> {}" "set days \<subseteq> {1..7}" by (auto simp: schedule_ok_def)
  obtain m where m: "calendar_slot cal tz t (set days) after = Some m"
      "least_after {cl_at cal (zone_of cal tz) e (at_minute t) |e. isoweekday e \<in> set days} after (Some m)"
    by (rule calendar_least [OF assms(1) d(2,3)])
  show thesis by (rule that [of "Some m"]) (use m d in \<open>simp_all add: Weekly slots_def\<close>)
qed


definition utc :: calendar where
  "utc = \<lparr>cl_known = (\<lambda>z. z = ''UTC''), cl_date = (\<lambda>z t. t div 86400000 + 719163),
     cl_at = (\<lambda>z d m. (d - 719163) * 86400000 + m mod 1440 * 60000), cl_midnight = (\<lambda>z t. t div 86400000 * 86400000),
     cl_usage_day = (\<lambda>t. int_str (t div 86400000))\<rparr>"

lemma utc_ok: "calendar_ok utc"
proof -
  have m: "0 \<le> m mod 1440 * 60000" "m mod 1440 * 60000 < 86400000" for m :: int
    using pos_mod_bound [of 1440 m] pos_mod_sign [of 1440 m] by auto
  have t: "t div 86400000 * 86400000 \<le> t" "t < (t div 86400000 + 1) * (86400000 :: int)" for t :: int
    using div_mult_mod_eq [of t 86400000] pos_mod_bound [of 86400000 t] pos_mod_sign [of 86400000 t] by (simp_all add: distrib_right)
  show ?thesis unfolding calendar_ok_def utc_def calendar.simps
  proof (intro conjI allI impI)
    fix t d n :: int
    assume "t div 86400000 + 719163 < d"
    then have "(t div 86400000 + 1) * 86400000 \<le> (d - 719163) * 86400000" by (intro mult_right_mono) simp_all
    with t(2) [of t] m(1) [of n] show "t < (d - 719163) * 86400000 + n mod 1440 * 60000" by linarith
  next
    fix t d n :: int
    assume "d < t div 86400000 + 719163"
    then have "(d - 719163 + 1) * 86400000 \<le> t div 86400000 * 86400000" by (intro mult_right_mono) simp_all
    with t(1) [of t] m(2) [of n] show "(d - 719163) * 86400000 + n mod 1440 * 60000 \<le> t" by (simp add: algebra_simps) 
  qed simp
qed


lemma next_monday: "next_run_after utc (Weekly [1, 4] ''09:00'' ''UTC'') 1767268800000 = Some (Some 1767603600000)"
  by code_simp

end
