(* ===== verification/Sched_Facts.thy ===== *)
theory Sched_Facts
  imports Scheduler Sched_Slots
begin

text \<open>
  Facts about the scheduler: what each write of the store does to one job and to its history, and what the operations of the service leave alone.
\<close>

section \<open>The store\<close>

abbreviation rows_of :: "string \<Rightarrow> sched \<Rightarrow> run_row list" where
  "rows_of k s \<equiv> filter (\<lambda>r. rr_job r = k) (sc_rows s)"

abbreviation ids_of :: "sched \<Rightarrow> string list" where
  "ids_of s \<equiv> map jb_id (sc_jobs s)"

lemma find_map_id:
  "(\<And>j. jb_id j = k' \<Longrightarrow> jb_id (f j) = k') \<Longrightarrow> find (\<lambda>j. jb_id j = k) (map (\<lambda>j. if jb_id j = k' then f j else j) js) =
     (if k = k' then map_option f (find (\<lambda>j. jb_id j = k) js) else find (\<lambda>j. jb_id j = k) js)"
  by (induction js) auto

lemma get_change: "(\<And>j. jb_id j = k' \<Longrightarrow> jb_id (f j) = k') \<Longrightarrow>
    get_job k (change_job k' f s) = (if k = k' then map_option f (get_job k s) else get_job k s)"
  by (simp add: get_job_def change_job_def find_map_id)

lemma get_job_id: "get_job k s = Some j \<Longrightarrow> jb_id j = k"
  unfolding get_job_def by (metis (mono_tags, lifting) find_Some_iff)

lemma get_job_mem: "get_job k s = Some j \<Longrightarrow> j \<in> set (sc_jobs s)"
  unfolding get_job_def by (metis find_Some_iff nth_mem)

lemma get_job_none: "get_job k s = None \<longleftrightarrow> k \<notin> set (ids_of s)"
  unfolding get_job_def find_None_iff by auto

lemma find_sole: "distinct (map jb_id js) \<Longrightarrow> j \<in> set js \<Longrightarrow> find (\<lambda>x. jb_id x = jb_id j) js = Some j"
  by (induction js) (auto simp: rev_image_eqI)

lemma get_job_sole: "distinct (ids_of s) \<Longrightarrow> j \<in> set (sc_jobs s) \<Longrightarrow> get_job (jb_id j) s = Some j"
  by (simp add: get_job_def find_sole)

lemma get_writes [simp]:
  "get_job k (set_state k' st s) = (if k = k' then map_option (\<lambda>j. j\<lparr>jb_state := st\<rparr>) (get_job k s) else get_job k s)"
  "get_job k (set_enabled_row k' en st now upd ow s) =
     (if k = k' then map_option (\<lambda>j. j\<lparr>jb_enabled := en, jb_state := st, jb_updated := now,
        jb_updated_by := (case upd of None \<Rightarrow> jb_updated_by j | Some who \<Rightarrow> Some who),
        jb_owner := (case ow of None \<Rightarrow> jb_owner j | Some who \<Rightarrow> who)\<rparr>) (get_job k s) else get_job k s)"
  by (simp_all add: set_state_def set_enabled_row_def get_change)

lemma find_filter_id: "find (\<lambda>j. jb_id j = k) (filter (\<lambda>j. jb_id j \<noteq> k') js) = (if k = k' then None else find (\<lambda>j. jb_id j = k) js)"
  by (induction js) auto

lemma get_other [simp]:
  "get_job k (append_run r s) = get_job k s" "get_job k (add_usage d s) = get_job k s" "get_job k (sched_emit e s) = get_job k s"
  "get_job k (s\<lparr>sc_runs := rs\<rparr>) = get_job k s" "get_job k (s\<lparr>sc_tick := t\<rparr>) = get_job k s" "get_job k (s\<lparr>sc_catch := c\<rparr>) = get_job k s"
  "get_job k (s\<lparr>sc_pending := ps\<rparr>) = get_job k s" "get_job k (s\<lparr>sc_manual := ms\<rparr>) = get_job k s"
  "get_job k (delete_job k' s) = (if k = k' then None else get_job k s)"
  by (simp_all add: get_job_def append_run_def add_usage_def sched_emit_def delete_job_def find_filter_id Let_def)

lemma find_snoc: "find P (xs @ [x]) = (case find P xs of None \<Rightarrow> if P x then Some x else None | Some y \<Rightarrow> Some y)"
  by (induction xs) auto

lemma get_put [simp]: "get_job k (put_job j s) =
    (if k = jb_id j then Some (case get_job k s of None \<Rightarrow> j | Some old \<Rightarrow> j\<lparr>jb_created := jb_created old\<rparr>) else get_job k s)"
proof (cases "get_job (jb_id j) s")
  case None
  then show ?thesis by (auto simp: put_job_def get_job_def find_snoc split: option.splits)
next
  case (Some old)
  then show ?thesis by (simp add: put_job_def get_change)
qed

lemma ids_writes [simp]:
  "ids_of (set_state k' st s) = ids_of s" "ids_of (set_enabled_row k' en st now upd ow s) = ids_of s" "ids_of (append_run r s) = ids_of s"
  "ids_of (add_usage d s) = ids_of s" "ids_of (sched_emit e s) = ids_of s" "ids_of (delete_job k s) = filter (\<lambda>i. i \<noteq> k) (ids_of s)"
  by (simp_all add: set_state_def set_enabled_row_def change_job_def append_run_def add_usage_def sched_emit_def delete_job_def Let_def filter_map o_def)

lemma ids_put [simp]: "ids_of (put_job j s) = (if jb_id j \<in> set (ids_of s) then ids_of s else ids_of s @ [jb_id j])"
proof (cases "get_job (jb_id j) s = None")
  case True
  then show ?thesis by (simp add: put_job_def get_job_none)
next
  case False
  then have "jb_id j \<in> set (ids_of s)" by (simp add: get_job_none)
  moreover have "ids_of (put_job j s) = ids_of s" using False by (auto simp: put_job_def change_job_def)
  ultimately show ?thesis by simp
qed

lemma drop_first_same: "filter P (drop_first_of n P xs) = drop n (filter P xs)"
  by (induction n P xs rule: drop_first_of.induct) (auto simp: drop_Cons')

lemma drop_first_other: "(\<And>x. P x \<Longrightarrow> \<not> Q x) \<Longrightarrow> filter Q (drop_first_of n P xs) = filter Q xs"
  by (induction n P xs rule: drop_first_of.induct) auto

lemma rows_append: "rows_of k (append_run r s) =
    (if rr_job r = k then drop (Suc (length (rows_of k s)) - RUNS_PER_JOB) (rows_of k s @ [r]) else rows_of k s)"
  by (cases "rr_job r = k") (simp_all add: append_run_def Let_def drop_first_same drop_first_other)

lemma rows_writes [simp]:
  "sc_rows (set_state k' st s) = sc_rows s" "sc_rows (set_enabled_row k' en st now upd ow s) = sc_rows s"
  "sc_rows (add_usage d s) = sc_rows s" "sc_rows (sched_emit e s) = sc_rows s" "sc_rows (put_job j s) = sc_rows s"
  by (simp_all add: set_state_def set_enabled_row_def change_job_def add_usage_def sched_emit_def put_job_def)

lemma history_delete: "rows_of k (delete_job k' s) = (if k = k' then [] else rows_of k s)"
  by (auto simp: delete_job_def intro: filter_cong)

lemma volatile_writes [simp]:
  "sc_runs (set_state k st s) = sc_runs s" "sc_runs (set_enabled_row k en st now upd ow s) = sc_runs s" "sc_runs (append_run r s) = sc_runs s"
  "sc_runs (add_usage d s) = sc_runs s" "sc_runs (sched_emit e s) = sc_runs s" "sc_runs (put_job j s) = sc_runs s" "sc_runs (delete_job k s) = sc_runs s"
  "sc_tick (set_state k st s) = sc_tick s" "sc_tick (append_run r s) = sc_tick s" "sc_tick (put_job j s) = sc_tick s"
  by (simp_all add: set_state_def set_enabled_row_def change_job_def append_run_def add_usage_def sched_emit_def put_job_def delete_job_def Let_def)

lemma get_cancel [simp]: "get_job k (cancel_run k' s) = get_job k s"
  by (auto simp: cancel_run_def get_job_def Let_def split: option.split)

lemma rows_cancel [simp]: "sc_rows (cancel_run k' s) = sc_rows s"
  by (auto simp: cancel_run_def Let_def split: option.split)

lemma ids_cancel [simp]: "ids_of (cancel_run k' s) = ids_of s"
  by (auto simp: cancel_run_def Let_def split: option.split)


section \<open>What the engine leaves alone\<close>

text \<open>
  \<open>recorded k s s'\<close>: runs of the job were appended to its history. \<open>engine k s s'\<close>: the job, if it is still there, has the definition it had, is not enabled
  anew, and waits for the slot it waited for unless a run was recorded (or it had none).
\<close>

definition recorded :: "string \<Rightarrow> sched \<Rightarrow> sched \<Rightarrow> bool" where
  "recorded k s s' = (\<exists>n rs. rs \<noteq> [] \<and> rows_of k s' = drop n (rows_of k s @ rs))"

definition same_definition :: "job \<Rightarrow> job \<Rightarrow> bool" where
  "same_definition j j' =
     (jb_id j' = jb_id j \<and> jb_name j' = jb_name j \<and> jb_created j' = jb_created j \<and> jb_schedule j' = jb_schedule j \<and>
      jb_action j' = jb_action j \<and> jb_policy j' = jb_policy j \<and> jb_owner j' = jb_owner j \<and> jb_updated_by j' = jb_updated_by j)"

definition slot_kept :: "string \<Rightarrow> sched \<Rightarrow> sched \<Rightarrow> job \<Rightarrow> job \<Rightarrow> bool" where
  "slot_kept k s s' j j' =
     (st_next (jb_state j') = st_next (jb_state j) \<or> st_next (jb_state j) = None \<or> recorded k s s')"

definition engine :: "string \<Rightarrow> sched \<Rightarrow> sched \<Rightarrow> bool" where
  "engine k s s' =
     ((rows_of k s' = rows_of k s \<or> recorded k s s' \<or> get_job k s' = None) \<and>
      (case get_job k s of
         None \<Rightarrow> get_job k s' = None
       | Some j \<Rightarrow> (case get_job k s' of None \<Rightarrow> True
           | Some j' \<Rightarrow> same_definition j j' \<and> (jb_enabled j' \<longrightarrow> jb_enabled j) \<and> slot_kept k s s' j j')))"

lemma same_definition_refl [simp]: "same_definition j j" by (simp add: same_definition_def)

lemma engine_refl [simp]: "engine k s s" by (simp add: engine_def slot_kept_def split: option.split)

lemma engine_same: "get_job k s' = get_job k s \<Longrightarrow> rows_of k s' = rows_of k s \<Longrightarrow> engine k s s'"
  by (simp add: engine_def slot_kept_def split: option.split)

lemma recorded_more: "recorded k s s' \<Longrightarrow> rows_of k s'' = rows_of k s' \<or> recorded k s' s'' \<Longrightarrow> recorded k s s''"
  unfolding recorded_def
proof (elim exE conjE disjE)
  fix n rs assume "rs \<noteq> []" "rows_of k s' = drop n (rows_of k s @ rs)" "rows_of k s'' = rows_of k s'"
  then show "\<exists>n rs. rs \<noteq> [] \<and> rows_of k s'' = drop n (rows_of k s @ rs)" by metis
next
  fix n rs m qs
  assume a: "rs \<noteq> []" "rows_of k s' = drop n (rows_of k s @ rs)" and b: "qs \<noteq> []" "rows_of k s'' = drop m (rows_of k s' @ qs)"
  show "\<exists>n rs. rs \<noteq> [] \<and> rows_of k s'' = drop n (rows_of k s @ rs)"
  proof (cases "n \<le> length (rows_of k s @ rs)")
    case True
    have "drop n (rows_of k s @ rs) @ qs = drop n (rows_of k s @ rs @ qs)" using True by simp
    then have "rows_of k s'' = drop (m + n) (rows_of k s @ (rs @ qs))" unfolding b(2) a(2) by (simp only: drop_drop append_assoc add.commute)
    then show ?thesis using b(1) by blast
  next
    case False
    then have "rows_of k s'' = drop m qs" using a(2) b(2) by simp
    then have "rows_of k s'' = drop (m + length (rows_of k s)) (rows_of k s @ qs)" by simp
    then show ?thesis using b(1) by blast
  qed
qed

lemma recorded_later: "rows_of k s' = rows_of k s \<Longrightarrow> recorded k s' s'' \<Longrightarrow> recorded k s s''"
  by (simp add: recorded_def)

lemma engineI:
  assumes "rows_of k s' = rows_of k s \<or> recorded k s s' \<or> get_job k s' = None"
    and "get_job k s = None \<Longrightarrow> get_job k s' = None"
    and "\<And>j j'. get_job k s = Some j \<Longrightarrow> get_job k s' = Some j' \<Longrightarrow>
      same_definition j j' \<and> (jb_enabled j' \<longrightarrow> jb_enabled j) \<and> slot_kept k s s' j j'"
  shows "engine k s s'"
  using assms by (simp add: engine_def split: option.split)

lemma engineD:
  assumes "engine k s s'"
  shows "rows_of k s' = rows_of k s \<or> recorded k s s' \<or> get_job k s' = None"
    "get_job k s = None \<Longrightarrow> get_job k s' = None"
    "get_job k s = Some j \<Longrightarrow> get_job k s' = Some j' \<Longrightarrow> same_definition j j' \<and> (jb_enabled j' \<longrightarrow> jb_enabled j) \<and> slot_kept k s s' j j'"
  using assms by (simp_all add: engine_def)

lemma same_definition_trans: "same_definition a b \<Longrightarrow> same_definition b c \<Longrightarrow> same_definition a c"
  by (simp add: same_definition_def)

lemma engine_trans:
  assumes a: "engine k s s'" and b: "engine k s' s''"
  shows "engine k s s''"
proof (cases "get_job k s'")
  case None
  then have "get_job k s'' = None" by (rule engineD(2) [OF b])
  then show ?thesis by (intro engineI) simp_all
next
  case (Some j')
  have rows: "rows_of k s'' = rows_of k s \<or> recorded k s s'' \<or> get_job k s'' = None"
    using engineD(1) [OF a] engineD(1) [OF b] recorded_more [of k s s' s''] recorded_later [of k s' s s''] Some by auto
  show ?thesis
  proof (rule engineI [OF rows])
    assume "get_job k s = None"
    with Some engineD(2) [OF a] show "get_job k s'' = None" by simp
  next
    fix j j'' assume j: "get_job k s = Some j" and j'': "get_job k s'' = Some j''"
    note A = engineD(3) [OF a j Some] and B = engineD(3) [OF b Some j'']
    have r: "recorded k s s' \<Longrightarrow> recorded k s s''" using engineD(1) [OF b] j'' recorded_more [of k s s' s''] by simp
    have l: "recorded k s' s'' \<Longrightarrow> recorded k s s''"
      using engineD(1) [OF a] Some recorded_more [of k s s' s''] recorded_later [of k s' s s''] by auto
    have "slot_kept k s s'' j j''" using A B r l unfolding slot_kept_def by argo
    with A B show "same_definition j j'' \<and> (jb_enabled j'' \<longrightarrow> jb_enabled j) \<and> slot_kept k s s'' j j''"
      using same_definition_trans by blast
  qed
qed

lemma recorded_append [simp]: "rr_job r = k \<Longrightarrow> sc_rows s1 = sc_rows s \<Longrightarrow> recorded k s (append_run r s1)"
  unfolding recorded_def
  by (rule exI [of _ "Suc (length (rows_of k s)) - RUNS_PER_JOB"], rule exI [of _ "[r]"]) (simp add: rows_append)

end
