(* ===== verification/Sched_Engine.thy ===== *)
theory Sched_Engine
  imports Sched_Facts
begin

text \<open>
  The operations of the service one by one: which of them are engine steps, and what the calls of the user and of agents may do.
\<close>

section \<open>The engine\<close>

lemma engine_write:
  assumes "\<And>j. get_job k s = Some j \<Longrightarrow> f j = j\<lparr>jb_enabled := jb_enabled (f j), jb_state := jb_state (f j), jb_updated := jb_updated (f j)\<rparr> \<and>
      (jb_enabled (f j) \<longrightarrow> jb_enabled j) \<and> (st_next (jb_state (f j)) = st_next (jb_state j) \<or> st_next (jb_state j) = None)"
    and "get_job k s' = map_option f (get_job k s)" and "rows_of k s' = rows_of k s"
  shows "engine k s s'"
proof (rule engineI)
  fix j j' assume j: "get_job k s = Some j" and j': "get_job k s' = Some j'"
  with assms(2) have e: "j' = f j" by simp
  have "same_definition j (j\<lparr>jb_enabled := a, jb_state := b, jb_updated := c\<rparr>)" for a b c by (simp add: same_definition_def)
  with assms(1) [OF j] have "same_definition j (f j)" by metis
  with assms(1) [OF j] show "same_definition j j' \<and> (jb_enabled j' \<longrightarrow> jb_enabled j) \<and> slot_kept k s s' j j'"
    unfolding slot_kept_def e by blast
qed (use assms(2,3) in simp_all)

lemma engine_recorded:
  assumes "\<And>j. get_job k s = Some j \<Longrightarrow> f j = j\<lparr>jb_enabled := jb_enabled (f j), jb_state := jb_state (f j), jb_updated := jb_updated (f j)\<rparr> \<and>
      (jb_enabled (f j) \<longrightarrow> jb_enabled j)"
    and "get_job k s' = map_option f (get_job k s)" and "recorded k s s'"
  shows "engine k s s'"
proof (rule engineI)
  fix j j' assume j: "get_job k s = Some j" and j': "get_job k s' = Some j'"
  with assms(2) have e: "j' = f j" by simp
  have "same_definition j (j\<lparr>jb_enabled := a, jb_state := b, jb_updated := c\<rparr>)" for a b c by (simp add: same_definition_def)
  with assms(1) [OF j] have "same_definition j (f j)" by metis
  with assms(1) [OF j] assms(3) e show "same_definition j j' \<and> (jb_enabled j' \<longrightarrow> jb_enabled j) \<and> slot_kept k s s' j j'"
    by (simp add: slot_kept_def)
qed (use assms(2,3) in simp_all)

lemma engine_state:
  assumes "\<And>j. get_job k s = Some j \<Longrightarrow> st_next st = st_next (jb_state j) \<or> st_next (jb_state j) = None"
  shows "engine k s (set_state k st s)"
  by (rule engine_write [where f = "\<lambda>j. j\<lparr>jb_state := st\<rparr>"]) (use assms in simp_all)

lemma engine_other: "k' \<noteq> k \<Longrightarrow> engine k s (set_state k' st s)"
  by (rule engine_same) simp_all

lemma engine_fields [simp]:
  "engine k s (s\<lparr>sc_runs := rs\<rparr>)" "engine k s (s\<lparr>sc_tick := t\<rparr>)" "engine k s (s\<lparr>sc_catch := c\<rparr>)" "engine k s (s\<lparr>sc_pending := ps\<rparr>)"
  "engine k s (s\<lparr>sc_manual := ms\<rparr>)" "engine k s (sched_emit e s)" "engine k s (add_usage d s)" "engine k s (cancel_run k' s)"
  by (rule engine_same; simp)+


lemma engine_skip: "record_skip cal j now reason detail s = Some s1 \<Longrightarrow> engine k s s1"
proof -
  assume e: "record_skip cal j now reason detail s = Some s1"
  then obtain slot where slot: "next_run_after cal (jb_schedule j) now = Some slot" by (auto simp: record_skip_def split: option.splits)
  let ?st = "(jb_state j)\<lparr>st_last_status := Some RunSkipped, st_skip_reason := Some reason, st_next := slot\<rparr>"
    and ?r = "\<lparr>rr_job = jb_id j, rr_started = now, rr_ended = now, rr_status = RunSkipped, rr_reason = Some reason, rr_detail = detail\<rparr>"
  have s1: "s1 = append_run ?r (if is_once (jb_schedule j) then set_enabled_row (jb_id j) False ?st now None None s else set_state (jb_id j) ?st s)"
    using e by (simp add: record_skip_def slot Let_def)
  show ?thesis
  proof (cases "jb_id j = k")
    case True
    then have "recorded k s s1" unfolding s1 by (intro recorded_append) simp_all
    then show ?thesis
      by (intro engine_recorded [where f = "\<lambda>j0. if is_once (jb_schedule j) then j0\<lparr>jb_enabled := False, jb_state := ?st, jb_updated := now\<rparr>
            else j0\<lparr>jb_state := ?st\<rparr>"]) (simp_all add: s1 True)
  next
    case False
    then show ?thesis unfolding s1 by (intro engine_same) (simp_all add: rows_append)
  qed
qed

lemma engine_start: "engine k s (fst (start_run cal started k' manual count s))"
proof (cases "get_job k' s")
  case (Some j)
  let ?s1 = "set_state k' ((jb_state j)\<lparr>st_running := Some started\<rparr>) s"
  have "engine k s ?s1"
  proof (cases "k' = k")
    case True
    show ?thesis unfolding True by (rule engine_state) (use Some True in simp)
  qed (rule engine_other)
  then have "engine k s (sched_emit e ((if count then add_usage d ?s1 else ?s1)\<lparr>sc_runs := rs\<rparr>))" for e d rs
    by (cases count) (auto intro!: engine_trans [OF _ engine_trans [OF engine_fields(1) engine_fields(6)]] intro: engine_trans [OF _ engine_fields(7)])
  then show ?thesis by (simp add: start_run_def Some Let_def)
qed (simp add: start_run_def)

lemma engine_settle: "engine k s (fst (settle cal now k' started oc manual s))"
proof (cases "get_job k' s")
  case (Some j)
  show ?thesis
  proof (cases "st_running (jb_state j) = Some started")
    case True
    let ?g = "jb_enabled j \<and> TARGET_GONE_DISABLE_AFTER \<le> st_gone (settled_state now started oc (jb_state j))"
    let ?r = "\<lparr>rr_job = k', rr_started = started, rr_ended = now, rr_status = oc_status oc, rr_reason = oc_reason oc, rr_detail = oc_detail oc\<rparr>"
    have step: "engine k s (append_run ?r (if off then set_enabled_row k' False st now None None s else set_state k' st s))" for off st
    proof (cases "k' = k")
      case True
      show ?thesis
        by (rule engine_recorded [where f = "\<lambda>j0. if off then j0\<lparr>jb_enabled := False, jb_state := st, jb_updated := now\<rparr> else j0\<lparr>jb_state := st\<rparr>"])
          (simp_all add: True)
    qed (rule engine_same; simp add: rows_append)
    show ?thesis using step [of True, simplified] step [of False, simplified] by (auto simp: settle_def Some True Let_def split: option.split)
  qed (simp add: settle_def Some)
qed (simp add: settle_def)

lemma engine_finish: "engine k s (finish cal now k' started oc manual s)"
  using engine_settle [of k s cal now k' started oc manual] engine_trans [OF _ engine_fields(6)]
  by (cases "settle cal now k' started oc manual s") (auto simp: finish_def split: option.split)

lemma engine_stuck: "engine k s (fail_stuck cal now k' s)"
  using engine_trans [OF engine_fields(8) engine_finish] by (simp add: fail_stuck_def Let_def split: option.split)

lemma engine_sweep: "engine k s (fst (sweep_agent_job now j s))"
proof -
  have d: "engine k s (delete_job k' s)" for k'
    by (cases "k' = k") (auto intro!: engineI simp: history_delete slot_kept_def)
  have e: "engine k s (append_run \<lparr>rr_job = k', rr_started = now, rr_ended = now, rr_status = RunSkipped, rr_reason = a, rr_detail = b\<rparr>
      (set_enabled_row k' False st now None None s))" for k' a b st
  proof (cases "k' = k")
    case True
    show ?thesis
      by (rule engine_recorded [where f = "\<lambda>j0. j0\<lparr>jb_enabled := False, jb_state := st, jb_updated := now\<rparr>"]) (simp_all add: True)
  qed (rule engine_same; simp add: rows_append)
  show ?thesis by (simp add: sweep_agent_job_def d e split: option.split)
qed

lemma engine_fire: "fire cal ev now j s = Some (s1, start) \<Longrightarrow> engine k s s1"
  by (auto simp: fire_def split: option.splits if_splits dest: engine_skip [of cal _ now _ None s _ k])

lemma engine_visit: "visit_job cal ev now j s = Some (s1, moment, start) \<Longrightarrow> engine k s s1"
proof -
  assume e: "visit_job cal ev now j s = Some (s1, moment, start)"
  obtain s0 b where sw: "sweep_agent_job now j s = (s0, b)" by fastforce
  have k0: "engine k s s0" using engine_sweep [of k s now j] sw by simp
  have st: "engine k s (fail_stuck cal now k' s0)" for k' by (rule engine_trans [OF k0 engine_stuck])
  have f: "fire cal ev now j s0 = Some (s2, st) \<Longrightarrow> engine k s s2" for s2 st by (rule engine_trans [OF k0 engine_fire])
  show ?thesis using e k0 st f by (auto simp: visit_job_def sw Let_def split: bool.splits option.splits if_splits)
qed

lemma engine_tick_visit: "engine k s (tick_visit cal ev s)"
  using engine_trans [OF engine_visit engine_fields(2)]
  by (auto simp: tick_visit_def split: option.split list.split)

lemma engine_boot_job: "boot_job cal now j (s, overdue) = Some (s1, overdue1) \<Longrightarrow> get_job (jb_id j) s = Some j \<Longrightarrow> engine k s s1"
proof -
  assume e: "boot_job cal now j (s, overdue) = Some (s1, overdue1)" and j: "get_job (jb_id j) s = Some j"
  consider (skip) j1 r d where "record_skip cal j1 now r d s = Some s1"
    | (first) slot where "st_next (jb_state j) = None" "s1 = set_state (jb_id j) ((jb_state j)\<lparr>st_next := slot\<rparr>) s"
    | (same) "s1 = s"
    using e unfolding boot_job_def by (auto split: option.splits if_splits)
  then show ?thesis
  proof cases
    case first
    have "engine k s (set_state (jb_id j) ((jb_state j)\<lparr>st_next := slot\<rparr>) s)"
    proof (cases "jb_id j = k")
      case True
      show ?thesis unfolding True by (rule engine_state) (use j first(1) True in simp)
    qed (rule engine_other)
    with first(2) show ?thesis by simp
  qed (auto intro: engine_skip)
qed


lemma boot_job_other:
  "boot_job cal now j (s, overdue) = Some (s1, overdue1) \<Longrightarrow> k \<noteq> jb_id j \<Longrightarrow> get_job k s1 = get_job k s"
  by (auto simp: boot_job_def record_skip_def Let_def split: option.splits if_splits)

lemma boot_jobs_step:
  assumes "boot_jobs cal now (j # js) (s, overdue) = (s1, r)"
  obtains (raised) "s1 = s"
  | (visited) s2 overdue2 where "boot_job cal now j (s, overdue) = Some (s2, overdue2)" "boot_jobs cal now js (s2, overdue2) = (s1, r)"
  using assms by (cases "boot_job cal now j (s, overdue)") auto

lemma engine_boot_jobs:
  "boot_jobs cal now js (s, overdue) = (s1, r) \<Longrightarrow> distinct (map jb_id js) \<Longrightarrow> \<forall>j\<in>set js. get_job (jb_id j) s = Some j \<Longrightarrow> engine k s s1"
proof (induction js arbitrary: s overdue)
  case (Cons j js)
  from Cons.prems(1) show ?case
  proof (cases rule: boot_jobs_step)
    case (visited s2 overdue2)
    have "get_job (jb_id i) s2 = Some i" if "i \<in> set js" for i
    proof -
      have "jb_id i \<noteq> jb_id j" using Cons.prems(2) imageI [OF that, of jb_id] by auto
      from boot_job_other [OF visited(1) this] Cons.prems(3) that show ?thesis by simp
    qed
    with Cons.IH [OF visited(2)] Cons.prems(2) have "engine k s2 s1" by simp
    moreover have "engine k s s2" by (rule engine_boot_job [OF visited(1)]) (use Cons.prems(3) in simp)
    ultimately show ?thesis by (rule engine_trans [rotated])
  qed simp
qed simp

lemma set_list_jobs [simp]: "set (list_jobs s) = set (sc_jobs s)"
  by (simp add: list_jobs_def)

lemma distinct_list_jobs: "distinct (ids_of s) \<Longrightarrow> distinct (map jb_id (list_jobs s))"
  by (simp add: list_jobs_def distinct_map)

lemma ids_fields [simp]:
  "sc_jobs (after_restart s) = sc_jobs s" "sc_rows (after_restart s) = sc_rows s" "get_job k (after_restart s) = get_job k s"
  by (simp_all add: after_restart_def get_job_def)

lemma engine_boot:
  assumes "distinct (ids_of s)"
  shows "engine k s (boot cal now s)"
proof -
  let ?s0 = "after_restart s"
  have k0: "engine k s ?s0" by (rule engine_same) simp_all
  have sole: "\<forall>j\<in>set (list_jobs ?s0). get_job (jb_id j) ?s0 = Some j" using get_job_sole [OF assms] by simp
  show ?thesis
  proof (cases "boot_jobs cal now (list_jobs ?s0) (?s0, [])")
    case r: (Pair s1 od)
    have "engine k s s1"
      using engine_trans [OF k0 engine_boot_jobs [OF r _ sole]] distinct_list_jobs [of ?s0] assms by simp
    moreover have "engine k s1 (s1\<lparr>sc_pending := ids, sc_catch := c\<rparr>)" for ids c by (rule engine_same) (simp_all add: get_job_def)
    ultimately show ?thesis using engine_trans [of k s s1] by (simp add: boot_def Let_def r split: option.split)
  qed
qed

lemma engine_catch_up: "engine k s (catch_up_step cal ev now s)"
proof -
  have a: "engine k s (s\<lparr>sc_pending := ps, sc_catch := c\<rparr>)" for ps c by (rule engine_same) (simp_all add: get_job_def)
  have b: "engine k s (s2\<lparr>sc_catch := c2\<rparr>)" if "fire cal ev now j (s\<lparr>sc_pending := ps, sc_catch := c\<rparr>) = Some (s2, st)" for ps c j s2 st c2
    by (rule engine_trans [OF engine_trans [OF a engine_fire [OF that]] engine_fields(3)])
  have c: "engine k s (s\<lparr>sc_catch := None, sc_pending := []\<rparr>)" by (rule engine_same) (simp_all add: get_job_def)
  show ?thesis using a b c by (auto simp: catch_up_step_def Let_def split: option.split list.split)
qed

fun engine_op :: "sched_op \<Rightarrow> bool" where
  "engine_op (SBoot now) = True"
| "engine_op (STick now) = True"
| "engine_op (SVisit ev) = True"
| "engine_op (STickStart started) = True"
| "engine_op (SCatchUp ev now) = True"
| "engine_op (SCatchUpStart started) = True"
| "engine_op (SOutcome now k oc) = True"
| "engine_op (SManualStart n started) = True"
| "engine_op _ = False"

lemma engine_step: "engine_op op \<Longrightarrow> distinct (ids_of s) \<Longrightarrow> engine k s (sched_step cal s op)"
proof (cases op)
  case (STickStart started)
  then show ?thesis using engine_trans [OF engine_start engine_fields(2)] by (auto simp: tick_start_def split: option.split)
next
  case (SCatchUpStart started)
  have "engine k s (s1\<lparr>sc_catch := c\<rparr>)" if "start_run cal started k' False count s = (s1, b)" for k' count s1 b c
    using engine_trans [OF engine_start engine_fields(3)] that by (metis fst_conv)
  with SCatchUpStart show ?thesis by (auto simp: catch_up_start_def split: option.split prod.split)
next
  case (SOutcome now k' oc)
  then show ?thesis using engine_trans [OF engine_fields(1) engine_finish] by (simp add: run_ended_def split: option.split)
next
  case (SManualStart n started)
  then show ?thesis using engine_trans [OF engine_fields(5) engine_start] by (simp add: manual_start_def Let_def split: prod.split)
qed (simp_all add: engine_boot begin_tick_def engine_tick_visit engine_catch_up split: option.split)



section \<open>Saving a job again\<close>

lemma bind_sum_Inr: "bind_sum r f = Inr y \<longleftrightarrow> (\<exists>x. r = Inr x \<and> f x = Inr y)"
  by (auto simp: bind_sum_def split: sum.splits)

lemma saved_next_same: "saved_next cal sch False False (Some a) now = Inr next \<Longrightarrow> next = Some a"
  by (simp add: saved_next_def split: schedule.splits)

lemma normalize_existing:
  assumes "normalize_job cal fresh raw (Some j) now = Inr j'"
  shows "jb_id j' = jb_id j" "jb_created j' = jb_created j" "st_running (jb_state j') = st_running (jb_state j)"
    "st_next (jb_state j) = Some a \<Longrightarrow> st_next (jb_state j') = Some a \<or> jb_schedule j' \<noteq> jb_schedule j \<or> (jb_enabled j' \<and> \<not> jb_enabled j)"
proof -
  obtain d where d: "raw = JDict d" using assms by (cases raw) (simp_all add: normalize_job_def)
  obtain name enabled sch act pol nx where n:
      "saved_next cal sch (sch \<noteq> jb_schedule j) (enabled \<and> \<not> jb_enabled j) (st_next (jb_state j)) now = Inr nx"
      "j' = \<lparr>jb_id = jb_id j, jb_name = name, jb_enabled = enabled, jb_created = jb_created j, jb_updated = now, jb_schedule = sch, jb_action = act,
         jb_policy = pol, jb_state = (if (enabled \<and> \<not> jb_enabled j) \<or> act \<noteq> jb_action j then clear_target_gone ((jb_state j)\<lparr>st_next := nx\<rparr>)
           else (jb_state j)\<lparr>st_next := nx\<rparr>), jb_owner = USER, jb_updated_by = None\<rparr>"
    using assms by (auto simp: normalize_job_def d bind_sum_Inr Let_def)
  show "jb_id j' = jb_id j" "jb_created j' = jb_created j" by (simp_all add: n(2))
  show "st_running (jb_state j') = st_running (jb_state j)" by (simp add: n(2) clear_target_gone_def)
  have "st_next (jb_state j') = nx" by (simp add: n(2) clear_target_gone_def)
  then show "st_next (jb_state j) = Some a \<Longrightarrow> st_next (jb_state j') = Some a \<or> jb_schedule j' \<noteq> jb_schedule j \<or> (jb_enabled j' \<and> \<not> jb_enabled j)"
    using n(1) saved_next_same [of cal sch a now nx] by (cases "enabled \<and> \<not> jb_enabled j") (auto simp: n(2))
qed

lemma normalize_new: "normalize_job cal fresh raw None now = Inr j \<Longrightarrow> jb_id j = fresh \<and> st_running (jb_state j) = None"
  by (auto simp: normalize_job_def bind_sum_Inr Let_def initial_state_def clear_target_gone_def split: jval.splits)

lemma stamp_fields [simp]:
  "jb_id (stamp_expiry now r j) = jb_id j" "jb_state (stamp_expiry now r j) = jb_state j" "jb_schedule (stamp_expiry now r j) = jb_schedule j"
  "jb_enabled (stamp_expiry now r j) = jb_enabled j" "jb_created (stamp_expiry now r j) = jb_created j" "jb_policy (stamp_expiry now r j) = jb_policy j"
  "jb_action (stamp_expiry now r j) = jb_action j" "is_agent (jb_owner (stamp_expiry now r j)) = is_agent (jb_owner j)"
  by (simp_all add: stamp_expiry_def is_agent_def Let_def)

lemma is_agent_owner [simp]: "is_agent (job_owner_of actor) = is_agent actor"
  by (auto simp: is_agent_def job_owner_of_def str_or_def USER_def)

lemma limit_cong:
  assumes "jb_id i' = jb_id i" "jb_schedule i' = jb_schedule i" "jb_policy i' = jb_policy i"
  shows "limit_of live a en i' s = limit_of live a en i s"
  unfolding limit_of_def agent_definition_limit_def assms ..

text \<open>What a call can do: refuse, or write one job, which is new or one that the actor may change.\<close>

lemma upsert_cases:
  assumes "upsert cal ev now fresh raw actor s = (s', r)"
  obtains (refused) "s' = s" "\<And>j. r \<noteq> ReplyJob j"
  | (created) j where "s' = put_job j s" "r = ReplyJob j" "jb_id j = fresh" "st_running (jb_state j) = None"
      "limit_of (en_live ev) actor (jb_enabled j) j s = None" "is_agent (jb_owner j) = is_agent actor"
  | (changed) old j where "get_job (jb_id old) s = Some old" "may_change (en_live ev) actor old" "s' = put_job j s" "r = ReplyJob j"
      "jb_id j = jb_id old" "st_running (jb_state j) = st_running (jb_state old)"
      "\<And>a. st_next (jb_state old) = Some a \<Longrightarrow>
         st_next (jb_state j) = Some a \<or> jb_schedule j \<noteq> jb_schedule old \<or> (jb_enabled j \<and> \<not> jb_enabled old)"
      "limit_of (en_live ev) actor (jb_enabled j \<and> \<not> jb_enabled old) j s = None" "is_agent (jb_owner j) = is_agent (jb_owner old)"
proof (cases "named_job (en_live ev) raw actor s")
  case (Inl r')
  have "r' \<noteq> ReplyJob j" for j
    using Inl by (auto simp: named_job_def not_owner_def split: jval.splits if_splits option.splits)
  with Inl assms show thesis by (intro refused) (auto simp: upsert_def)
next
  case (Inr existing)
  show thesis
  proof (cases "normalize_job cal fresh raw existing now")
    case (Inl e)
    with Inr assms show thesis by (intro refused) (auto simp: upsert_def)
  next
    case n: (Inr j0)
    show thesis
    proof (cases "case jb_action j0 of Evolve ws \<Rightarrow> \<not> is_system actor | _ \<Rightarrow> False")
      case True
      with Inr n assms show thesis by (intro refused) (auto simp: upsert_def)
    next
      case ev: False
      let ?j = "j0\<lparr>jb_owner := (case existing of Some old \<Rightarrow> jb_owner old | None \<Rightarrow> job_owner_of actor), jb_updated_by := Some (job_owner_of actor)\<rparr>"
      let ?en = "jb_enabled j0 \<and> (case existing of None \<Rightarrow> True | Some old \<Rightarrow> \<not> jb_enabled old)"
      show thesis
      proof (cases "limit_of (en_live ev) actor ?en ?j s")
        case (Some l)
        with Inr n ev assms show thesis by (intro refused) (auto simp: upsert_def Let_def)
      next
        case None
        let ?j1 = "stamp_expiry now (is_agent actor \<or> ?en) ?j"
        have e: "s' = put_job ?j1 s" "r = ReplyJob ?j1" using None Inr n ev assms by (auto simp: upsert_def Let_def)
        have lim: "limit_of live a en ?j1 s = limit_of live a en ?j s" for live a en by (rule limit_cong) simp_all
        show thesis
        proof (cases existing)
          case N: None
          show thesis
          proof (rule created [OF e])
            show "jb_id ?j1 = fresh" "st_running (jb_state ?j1) = None" using normalize_new n N by simp_all
            have "jb_enabled ?j1 = ?en" using N by simp
            then show "limit_of (en_live ev) actor (jb_enabled ?j1) ?j1 s = None"
              using None lim by simp
            show "is_agent (jb_owner ?j1) = is_agent actor" using N by simp
          qed
        next
          case S: (Some old)
          have old: "get_job (jb_id old) s = Some old" "may_change (en_live ev) actor old"
            using Inr S get_job_id by (auto simp: named_job_def split: jval.splits if_splits option.splits)
          note f = normalize_existing [OF n [unfolded S]]
          show thesis
          proof (rule changed [OF old e])
            show "jb_id ?j1 = jb_id old" "st_running (jb_state ?j1) = st_running (jb_state old)" using f by simp_all
            show "st_next (jb_state ?j1) = Some a \<or> jb_schedule ?j1 \<noteq> jb_schedule old \<or> (jb_enabled ?j1 \<and> \<not> jb_enabled old)"
              if "st_next (jb_state old) = Some a" for a using f(4) [OF that] by simp
            have "(jb_enabled ?j1 \<and> \<not> jb_enabled old) = ?en" using S by simp
            then show "limit_of (en_live ev) actor (jb_enabled ?j1 \<and> \<not> jb_enabled old) ?j1 s = None"
              using None lim by simp
            show "is_agent (jb_owner ?j1) = is_agent (jb_owner old)" using S by simp
          qed
        qed
      qed
    qed
  qed
qed

end
