(* ===== verification/Sched_Promises.thy ===== *)
theory Sched_Promises
  imports Sched_Engine
begin

text \<open>
  What the scheduler promises about its slots, about the ownership of jobs, and about the jobs it stops.
\<close>

section \<open>New ids\<close>

text \<open>The id of a new job (\<open>uuid4\<close>, or a feature's own) names no job and no run in flight.\<close>

fun new_id :: "sched \<Rightarrow> sched_op \<Rightarrow> bool" where
  "new_id s (SUpsert ev now fresh raw actor) = (get_job fresh s = None \<and> \<not> has_key fresh (sc_runs s))"
| "new_id s (SSystemPut ev now k raw ow) = (get_job k s = None \<longrightarrow> \<not> has_key k (sc_runs s))"
| "new_id s _ = True"

lemma system_put_cases:
  assumes "system_put cal ev now k raw ow s = (s', r)"
  obtains (refused) "s' = s" "\<And>j. r \<noteq> ReplyJob j"
  | (created) j where "get_job k s = None" "is_system ow" "s' = put_job j s" "jb_id j = k" "st_running (jb_state j) = None"
      "\<not> is_agent (jb_owner j)"
  | (changed) old j where "get_job k s = Some old" "is_system ow" "may_change (en_live ev) ow old" "s' = put_job j s"
      "jb_id j = k" "st_running (jb_state j) = st_running (jb_state old)"
      "\<And>a. st_next (jb_state old) = Some a \<Longrightarrow>
         st_next (jb_state j) = Some a \<or> jb_schedule j \<noteq> jb_schedule old \<or> (jb_enabled j \<and> \<not> jb_enabled old)"
      "\<not> is_agent (jb_owner j)"
proof -
  have no: "not_owner x \<noteq> ReplyJob y" for x y by (simp add: not_owner_def)
  show thesis
  proof (cases "is_system ow \<and> (\<forall>old. get_job k s = Some old \<longrightarrow> may_change (en_live ev) ow old)")
    case False
    with assms no show thesis by (intro refused) (auto simp: system_put_def Let_def split: option.splits if_splits)
  next
    case ok: True
    show thesis
    proof (cases "normalize_job cal k raw (get_job k s) now")
      case (Inl e)
      with ok assms show thesis by (intro refused) (auto simp: system_put_def Let_def split: option.splits if_splits)
    next
      case n: (Inr j0)
      let ?j = "j0\<lparr>jb_id := k, jb_owner := job_owner_of ow, jb_updated_by := Some (job_owner_of ow)\<rparr>"
      have e: "s' = put_job ?j s" using ok n assms by (auto simp: system_put_def Let_def split: option.splits if_splits)
      have sys: "\<not> is_agent (jb_owner ?j)" using ok by (simp add: is_system_def) (simp add: is_agent_def)
      show thesis
      proof (cases "get_job k s")
        case None
        show thesis by (rule created [OF None _ e]) (use ok None normalize_new n sys in simp_all)
      next
        case (Some old)
        note f = normalize_existing [OF n [unfolded Some]]
        show thesis by (rule changed [OF Some _ _ e]) (use ok Some f sys in simp_all)
      qed
    qed
  qed
qed

lemma rows_fixed:
  "sc_rows (fst (upsert cal ev now fresh raw actor s)) = sc_rows s" "sc_rows (fst (system_put cal ev now k raw ow s)) = sc_rows s"
  "sc_rows (fst (adopt now k s)) = sc_rows s" "sc_rows (fst (keep_job now k s)) = sc_rows s"
  "sc_rows (fst (set_job_enabled cal ev now k en actor s)) = sc_rows s" "sc_rows (fst (run_now cal ev now k actor s)) = sc_rows s"
  "sc_rows (rebind_after_rebuild a b c d s) = sc_rows s"
proof -
  show "sc_rows (fst (upsert cal ev now fresh raw actor s)) = sc_rows s"
  proof (cases "upsert cal ev now fresh raw actor s")
    case (Pair s' r)
    from Pair show ?thesis by (cases rule: upsert_cases) (simp_all add: Pair)
  qed
  show "sc_rows (fst (system_put cal ev now k raw ow s)) = sc_rows s"
  proof (cases "system_put cal ev now k raw ow s")
    case (Pair s' r)
    from Pair show ?thesis by (cases rule: system_put_cases) (simp_all add: Pair)
  qed
  show "sc_rows (fst (set_job_enabled cal ev now k en actor s)) = sc_rows s"
    by (simp add: set_job_enabled_def on_job_def Let_def split: option.split sum.split)
  show "sc_rows (fst (run_now cal ev now k actor s)) = sc_rows s"
    by (simp add: run_now_def on_job_def Let_def split: option.split)
qed (simp_all add: adopt_def keep_job_def rebind_after_rebuild_def Let_def split: option.split)

lemma window_calls:
  assumes "s' = fst (adopt now k' s) \<or> s' = fst (keep_job now k' s)" "get_job k s = Some j" "get_job k s' = Some j'"
  shows "jb_state j' = jb_state j" "jb_schedule j' = jb_schedule j" "jb_enabled j' = jb_enabled j"
proof -
  have "\<exists>i. get_job k s' = Some i \<and> jb_state i = jb_state j \<and> jb_schedule i = jb_schedule j \<and> jb_enabled i = jb_enabled j"
  proof (cases "k' = k")
    case True
    then show ?thesis using assms(1,2) get_job_id [OF assms(2)] by (auto simp: adopt_def keep_job_def Let_def)
  next
    case False
    then show ?thesis using assms(1,2) get_job_id by (auto simp: adopt_def keep_job_def Let_def split: option.split)
  qed
  with assms(3) show "jb_state j' = jb_state j" "jb_schedule j' = jb_schedule j" "jb_enabled j' = jb_enabled j" by auto
qed

lemma find_map_any: "(\<And>j. jb_id (f j) = jb_id j) \<Longrightarrow> find (\<lambda>j. jb_id j = k) (map f js) = map_option f (find (\<lambda>j. jb_id j = k) js)"
  by (induction js) auto

lemma get_rebind: "get_job k (rebind_after_rebuild a b c d s) = get_job k s \<or>
    get_job k (rebind_after_rebuild a b c d s) = map_option (rebound a b) (get_job k s)"
proof -
  have "jb_id (rebound a b j) = jb_id j" for j by (auto simp: rebound_def Let_def split: job_action.split option.split)
  then show ?thesis by (simp add: rebind_after_rebuild_def get_job_def find_map_any)
qed

lemma rebound_fields [simp]:
  "st_next (jb_state (rebound a b j)) = st_next (jb_state j)" "st_running (jb_state (rebound a b j)) = st_running (jb_state j)"
  "jb_schedule (rebound a b j) = jb_schedule j" "jb_enabled (rebound a b j) = jb_enabled j" "jb_owner (rebound a b j) = jb_owner j"
  by (auto simp: rebound_def clear_target_gone_def Let_def split: job_action.split option.split)


section \<open>Slots\<close>



section \<open>Ownership\<close>

text \<open>The actor of a call, with the panes of its moment. The calls a window makes for the user are the user's.\<close>

fun op_actor :: "sched_op \<Rightarrow> ((string \<Rightarrow> string option) \<times> owner) option" where
  "op_actor (SUpsert ev now fresh raw actor) = Some (en_live ev, actor)"
| "op_actor (SRemove ev k actor) = Some (en_live ev, actor)"
| "op_actor (SEnable ev now k en actor) = Some (en_live ev, actor)"
| "op_actor (SRunNow ev now k actor) = Some (en_live ev, actor)"
| "op_actor (SSystemPut ev now k raw ow) = Some (en_live ev, ow)"
| "op_actor (SAdopt now k) = Some (\<lambda>_. None, USER)"
| "op_actor (SKeep now k) = Some (\<lambda>_. None, USER)"
| "op_actor _ = None"

text \<open>
  C11: Nobody changes a job that is not theirs. A call of the API leaves every job as it is, definition and state, that its actor may not change, with
  its history: an agent reaches only the jobs its own pane (under any of the ids it has had) created, an
  external agent only those of external agents, the user everything but the jobs of Navide's own features, and a feature only its own job.
\<close>

theorem calls_change_only_own_jobs:
  assumes "op_actor op = Some (live, actor)" and "get_job k s = Some j" and "\<not> may_change live actor j" and "new_id s op"
  shows "get_job k (sched_step cal s op) = Some j \<and> rows_of k (sched_step cal s op) = rows_of k s"
proof -
  have user: "is_system (jb_owner j)" if "actor = USER"
    using assms(3) that by (simp add: may_change_def Let_def USER_def is_system_def is_agent_def split: if_splits)
  show ?thesis
  proof (cases op)
    case (SUpsert ev now fresh raw a)
    obtain s' r where u: "upsert cal ev now fresh raw a s = (s', r)" by fastforce
    have "get_job k s' = Some j"
      using u
    proof (cases rule: upsert_cases)
      case (created i)
      with assms(2,4) SUpsert show ?thesis by auto
    next
      case (changed old i)
      with assms SUpsert have "k \<noteq> jb_id old" by auto
      with changed assms(2) show ?thesis by simp
    qed (use assms(2) in simp)
    with SUpsert u show ?thesis using rows_fixed(1) [of cal ev now fresh raw a s] by simp
  next
    case (SSystemPut ev now k' raw ow)
    obtain s' r where u: "system_put cal ev now k' raw ow s = (s', r)" by fastforce
    have "get_job k s' = Some j"
      using u
    proof (cases rule: system_put_cases)
      case (created i)
      with assms(2) show ?thesis by auto
    next
      case (changed old i)
      with assms SSystemPut have "k \<noteq> k'" by auto
      with changed assms(2) show ?thesis by simp
    qed (use assms(2) in simp)
    with SSystemPut u show ?thesis using rows_fixed(2) [of cal ev now k' raw ow s] by simp
  next
    case (SRemove ev k' a)
    show ?thesis
    proof (cases "k' = k")
      case False
      then have "get_job k (fst (remove_job ev k' a s)) = Some j" "rows_of k (fst (remove_job ev k' a s)) = rows_of k s"
        using assms(2) by (auto simp: remove_job_def on_job_def history_delete split: option.split)
      with SRemove show ?thesis by simp
    qed (use SRemove assms in \<open>simp add: remove_job_def on_job_def\<close>)
  next
    case (SEnable ev now k' en a)
    show ?thesis
    proof (cases "k' = k")
      case False
      then have "get_job k (fst (set_job_enabled cal ev now k' en a s)) = Some j"
        using assms(2) by (auto simp: set_job_enabled_def on_job_def Let_def split: option.split sum.split)
      with SEnable show ?thesis using rows_fixed(5) [of cal ev now k' en a s] by simp
    qed (use SEnable assms in \<open>simp add: set_job_enabled_def on_job_def\<close>)
  next
    case (SRunNow ev now k' a)
    show ?thesis
    proof (cases "k' = k")
      case False
      then have "get_job k (fst (run_now cal ev now k' a s)) = Some j"
        using assms(2) by (auto simp: run_now_def on_job_def Let_def split: option.split)
      with SRunNow show ?thesis using rows_fixed(6) [of cal ev now k' a s] by simp
    qed (use SRunNow assms in \<open>simp add: run_now_def on_job_def\<close>)
  next
    case (SAdopt now k')
    then show ?thesis using assms user rows_fixed(3) [of now k' s] get_job_id by (auto simp: adopt_def Let_def split: option.split)
  next
    case (SKeep now k')
    then show ?thesis using assms user rows_fixed(4) [of now k' s] get_job_id by (auto simp: keep_job_def Let_def split: option.split)
  qed (use assms(1) in simp_all)
qed


section \<open>Jobs that are stopped\<close>

text \<open>What the service may stop by itself: a job whose target was gone three times in a row, or an agent's job that has expired.\<close>

definition stopped_for_cause :: "job \<Rightarrow> bool" where
  "stopped_for_cause j =
     ((st_disabled_reason (jb_state j) = Some ''target_gone'' \<and> TARGET_GONE_DISABLE_AFTER \<le> st_gone (jb_state j)) \<or>
      (st_last_status (jb_state j) = Some RunSkipped \<and> st_skip_reason (jb_state j) = Some ''expired''))"

definition stays_on :: "string \<Rightarrow> sched \<Rightarrow> sched \<Rightarrow> bool" where
  "stays_on k s s' = (\<forall>j. get_job k s = Some j \<longrightarrow> jb_enabled j \<longrightarrow> \<not> is_once (jb_schedule j) \<longrightarrow>
     (\<forall>j'. get_job k s' = Some j' \<longrightarrow> jb_enabled j' \<or> stopped_for_cause j'))"

lemma stays_same: "get_job k s' = get_job k s \<Longrightarrow> stays_on k s s'"
  by (simp add: stays_on_def)

lemma stays_after: "get_job k s1 = get_job k s \<Longrightarrow> stays_on k s1 s' \<Longrightarrow> stays_on k s s'"
  by (simp add: stays_on_def)

lemma stays_before: "stays_on k s s1 \<Longrightarrow> get_job k s' = get_job k s1 \<Longrightarrow> stays_on k s s'"
  by (simp add: stays_on_def)

lemma stays_skip: "record_skip cal j now r d s = Some s1 \<Longrightarrow> (\<And>i. get_job (jb_id j) s = Some i \<Longrightarrow> jb_schedule i = jb_schedule j) \<Longrightarrow> stays_on k s s1"
  by (cases "jb_id j = k") (auto simp: record_skip_def stays_on_def Let_def split: option.splits if_splits)

lemma stays_start: "stays_on k s (fst (start_run cal started k' manual count s))"
  by (cases "k' = k") (auto simp: start_run_def stays_on_def Let_def split: option.splits)

lemma stays_settle: "stays_on k s (fst (settle cal now k' started oc manual s))"
  by (cases "k' = k") (auto simp: settle_def stays_on_def stopped_for_cause_def Let_def split: option.splits if_splits)

lemma stays_finish: "stays_on k s (finish cal now k' started oc manual s)"
  using stays_settle [of k s cal now k' started oc manual]
  by (cases "settle cal now k' started oc manual s") (auto simp: finish_def stays_on_def split: option.split)

lemma stays_stuck: "stays_on k s (fail_stuck cal now k' s)"
  using stays_after [OF _ stays_finish, of k "cancel_run k' s" s] by (auto simp: fail_stuck_def Let_def stays_same split: option.split)

lemma stays_sweep: "stays_on k s (fst (sweep_agent_job now j s))"
  by (auto simp: sweep_agent_job_def stays_on_def stopped_for_cause_def split: option.splits if_splits)

lemma sweep_false: "sweep_agent_job now j s = (s1, False) \<Longrightarrow> s1 = s"
  by (auto simp: sweep_agent_job_def split: option.splits if_splits)

lemma stays_fire: "fire cal ev now j s = Some (s1, start) \<Longrightarrow> stays_on k s s1"
  using get_job_id by (auto simp: fire_def stays_same split: option.splits if_splits intro: stays_skip)

lemma stays_visit: "visit_job cal ev now j s = Some (s1, moment, start) \<Longrightarrow> stays_on k s s1"
proof (cases "sweep_agent_job now j s")
  case (Pair s0 b)
  assume e: "visit_job cal ev now j s = Some (s1, moment, start)"
  show ?thesis
  proof (cases b)
    case True
    with e Pair stays_sweep [of k s now j] show ?thesis by (simp add: visit_job_def)
  next
    case False
    with Pair have s0: "s0 = s" using sweep_false by simp
    show ?thesis using e Pair False stays_stuck stays_fire stays_same [OF refl]
      by (auto simp: visit_job_def s0 Let_def split: option.splits if_splits)
  qed
qed

lemma stays_boot_job: "boot_job cal now j (s, overdue) = Some (s1, overdue1) \<Longrightarrow> get_job (jb_id j) s = Some j \<Longrightarrow> stays_on k s s1"
proof -
  assume e: "boot_job cal now j (s, overdue) = Some (s1, overdue1)" and j: "get_job (jb_id j) s = Some j"
  have sk: "record_skip cal (j\<lparr>jb_state := st\<rparr>) now r d s = Some s2 \<Longrightarrow> stays_on k s s2" for st r d s2
    by (erule stays_skip) (use j in simp)
  have sk2: "record_skip cal j now r d s = Some s2 \<Longrightarrow> stays_on k s s2" for r d s2
    by (erule stays_skip) (use j in simp)
  have st: "stays_on k s (set_state (jb_id j) x s)" for x using j by (cases "jb_id j = k") (auto simp: stays_on_def)
  show ?thesis using e sk sk2 st by (auto simp: boot_job_def stays_same split: option.splits if_splits)
qed

lemma boot_jobs_other: "boot_jobs cal now js (s, overdue) = (s1, r) \<Longrightarrow> k \<notin> jb_id ` set js \<Longrightarrow> get_job k s1 = get_job k s"
proof (induction js arbitrary: s overdue)
  case (Cons j js)
  from Cons.prems(1) show ?case
  proof (cases rule: boot_jobs_step)
    case (visited s2 overdue2)
    with Cons.IH [OF visited(2)] Cons.prems(2) boot_job_other [OF visited(1), of k] show ?thesis by simp
  qed simp
qed simp

lemma stays_boot_jobs:
  "boot_jobs cal now js (s, overdue) = (s1, r) \<Longrightarrow> distinct (map jb_id js) \<Longrightarrow> \<forall>j\<in>set js. get_job (jb_id j) s = Some j \<Longrightarrow> stays_on k s s1"
proof (induction js arbitrary: s overdue)
  case Nil
  then show ?case by (simp add: stays_same)
next
  case (Cons j js)
  from Cons.prems(1) show ?case
  proof (cases rule: boot_jobs_step)
    case raised
    then show ?thesis by (simp add: stays_same)
  next
    case (visited s2 overdue2)
    note oth = boot_job_other [OF visited(1)]
    have later: "\<forall>i\<in>set js. get_job (jb_id i) s2 = Some i"
    proof
      fix i assume i: "i \<in> set js"
      have "jb_id i \<noteq> jb_id j" using Cons.prems(2) imageI [OF i, of jb_id] by auto
      from oth [OF this] Cons.prems(3) i show "get_job (jb_id i) s2 = Some i" by simp
    qed
    show ?thesis
    proof (cases "k = jb_id j")
      case True
      then have "get_job k s1 = get_job k s2" using boot_jobs_other [OF visited(2)] Cons.prems(2) by simp
      moreover have "stays_on k s s2" by (rule stays_boot_job [OF visited(1)]) (use Cons.prems(3) in simp)
      ultimately show ?thesis by (rule stays_before [rotated])
    next
      case False
      from Cons.IH [OF visited(2) _ later] Cons.prems(2) have "stays_on k s2 s1" by simp
      then show ?thesis by (rule stays_after [OF oth [OF False]])
    qed
  qed
qed

lemma stays_boot:
  assumes "distinct (ids_of s)"
  shows "stays_on k s (boot cal now s)"
proof (cases "boot_jobs cal now (list_jobs (after_restart s)) (after_restart s, [])")
  case r: (Pair s1 od)
  have "stays_on k (after_restart s) s1"
    by (rule stays_boot_jobs [OF r]) (use distinct_list_jobs [of "after_restart s"] get_job_sole assms in simp_all)
  then have "stays_on k s s1" by (rule stays_after [rotated]) simp
  moreover have "get_job k (s1\<lparr>sc_pending := a, sc_catch := b\<rparr>) = get_job k s1" for a b by (simp add: get_job_def)
  ultimately show ?thesis using stays_before by (simp add: boot_def Let_def r split: option.split)
qed

lemma stays_engine:
  assumes "engine_op op" "distinct (ids_of s)"
  shows "stays_on k s (sched_step cal s op)"
proof (cases op)
  case (SVisit ev)
  have "stays_on k s (s1\<lparr>sc_tick := t\<rparr>)" if "visit_job cal ev now j s = Some (s1, m, st)" for now j s1 m st t
    by (rule stays_before [OF stays_visit [OF that]]) simp
  with SVisit show ?thesis by (auto simp: tick_visit_def stays_same split: option.split list.split)
next
  case (STickStart started)
  then show ?thesis using stays_before [OF stays_start] by (auto simp: tick_start_def stays_same split: option.split)
next
  case (SCatchUp ev now)
  have g: "get_job k (s\<lparr>sc_pending := a, sc_catch := b\<rparr>) = get_job k s" "get_job k (s\<lparr>sc_catch := b, sc_pending := a\<rparr>) = get_job k s" for a b
    by (simp_all add: get_job_def)
  have "stays_on k s (s2\<lparr>sc_catch := c\<rparr>)" if "fire cal ev now j (s\<lparr>sc_pending := a, sc_catch := b\<rparr>) = Some (s2, st)" for a b j s2 st c
    by (rule stays_before [OF stays_after [OF g(1) stays_fire [OF that]]]) simp
  with SCatchUp show ?thesis by (auto simp: catch_up_step_def Let_def stays_same g split: option.split list.split)
next
  case (SCatchUpStart started)
  have "stays_on k s (s1\<lparr>sc_catch := c\<rparr>)" if "start_run cal started k' False count s = (s1, b)" for k' count s1 b c
    using stays_before [OF stays_start [of k s cal started k' False count], of "s1\<lparr>sc_catch := c\<rparr>"] that by simp
  with SCatchUpStart show ?thesis by (auto simp: catch_up_start_def stays_same split: option.split prod.split)
next
  case (SOutcome now k' oc)
  have "stays_on k s (finish cal now k' started oc manual (s\<lparr>sc_runs := rs\<rparr>))" for started manual rs
    by (rule stays_after [OF _ stays_finish]) simp
  with SOutcome show ?thesis by (auto simp: run_ended_def stays_same split: option.split)
next
  case (SManualStart n started)
  have "stays_on k s (fst (start_run cal started k' True count (s\<lparr>sc_manual := ms\<rparr>)))" for k' count ms
    by (rule stays_after [OF _ stays_start]) simp
  with SManualStart show ?thesis by (simp add: manual_start_def Let_def stays_same split: prod.split)
qed (use assms in \<open>simp_all add: stays_boot begin_tick_def stays_same split: option.split\<close>)


end
