(* ===== verification/Sched_Runs.thy ===== *)
theory Sched_Runs
  imports Sched_Promises
begin

text \<open>
  Reachable states of the scheduler: the rows of the job table have different ids, a run in flight is the one its job says is running, and the
  history of a job is bounded.
\<close>

section \<open>Runs in flight\<close>

definition flight :: "sched \<Rightarrow> bool" where
  "flight s = (\<forall>k r j. dget (sc_runs s) k = Some r \<longrightarrow> get_job k s = Some j \<longrightarrow> st_running (jb_state j) = Some (fst r))"

text \<open>The runs in flight stay, and so does what their jobs say about them.\<close>

definition calm_runs :: "sched \<Rightarrow> sched \<Rightarrow> bool" where
  "calm_runs s s' = (sc_runs s' = sc_runs s \<and>
     (\<forall>k j'. dget (sc_runs s) k \<noteq> None \<longrightarrow> get_job k s' = Some j' \<longrightarrow>
        (\<exists>j. get_job k s = Some j \<and> st_running (jb_state j') = st_running (jb_state j))))"

lemma calm_runs_refl [simp]: "calm_runs s s" by (simp add: calm_runs_def)

lemma calm_runs_trans: "calm_runs s s' \<Longrightarrow> calm_runs s' s'' \<Longrightarrow> calm_runs s s''"
  unfolding calm_runs_def by metis

lemma calm_flight: "calm_runs s s' \<Longrightarrow> flight s \<Longrightarrow> flight s'"
  unfolding calm_runs_def flight_def by (metis option.distinct(1))

lemma calm_runs_get: "sc_runs s' = sc_runs s \<Longrightarrow> (\<And>k. get_job k s' = get_job k s) \<Longrightarrow> calm_runs s s'"
  by (simp add: calm_runs_def)

text \<open>A run in flight stays or ends.\<close>

definition only_ends :: "sched \<Rightarrow> sched \<Rightarrow> bool" where
  "only_ends s s' = (\<forall>k r. dget (sc_runs s) k = Some r \<longrightarrow> dget (sc_runs s') k \<in> {Some r, None})"

lemma only_ends_same: "sc_runs s' = sc_runs s \<Longrightarrow> only_ends s s'"
  by (simp add: only_ends_def)

lemma only_ends_trans: "only_ends s s' \<Longrightarrow> sc_runs s'' = sc_runs s' \<Longrightarrow> only_ends s s''"
  by (simp add: only_ends_def)

definition safe_step :: "sched \<Rightarrow> sched \<Rightarrow> bool" where
  "safe_step s s' = (flight s \<longrightarrow> flight s' \<and> only_ends s s')"

lemma safe_calm: "calm_runs s s' \<Longrightarrow> safe_step s s'"
  using calm_flight by (auto simp: safe_step_def only_ends_def calm_runs_def)

lemma safe_then: "safe_step s s' \<Longrightarrow> sc_runs s'' = sc_runs s' \<Longrightarrow> (\<And>k. get_job k s'' = get_job k s') \<Longrightarrow> safe_step s s''"
proof -
  assume a: "safe_step s s'" "sc_runs s'' = sc_runs s'" "\<And>k. get_job k s'' = get_job k s'"
  have "flight s'' = flight s'" "only_ends s s'' = only_ends s s'" by (simp_all only: flight_def only_ends_def a(2,3))
  with a(1) show ?thesis by (simp only: safe_step_def)
qed

lemma safe_after: "sc_runs s1 = sc_runs s \<Longrightarrow> (\<And>k. get_job k s1 = get_job k s) \<Longrightarrow> safe_step s1 s' \<Longrightarrow> safe_step s s'"
proof -
  assume a: "sc_runs s1 = sc_runs s" "\<And>k. get_job k s1 = get_job k s" "safe_step s1 s'"
  have "flight s1 = flight s" "only_ends s1 s' = only_ends s s'" by (simp_all only: flight_def only_ends_def a(1,2))
  with a(3) show ?thesis by (simp only: safe_step_def)
qed

lemma calm_skip:
  "record_skip cal j now r d s = Some s1 \<Longrightarrow> get_job (jb_id j) s = Some j \<Longrightarrow> calm_runs s s1"
  by (auto simp: record_skip_def calm_runs_def Let_def split: option.splits if_splits)

lemma calm_fire: "fire cal ev now j s = Some (s1, start) \<Longrightarrow> calm_runs s s1"
proof -
  assume e: "fire cal ev now j s = Some (s1, start)"
  have "get_job (jb_id i) s = Some i" if "get_job k s = Some i" for k i using that get_job_id [OF that] by simp
  with e show ?thesis by (auto simp: fire_def split: option.splits if_splits intro: calm_skip)
qed

lemma safe_start: "safe_step s (fst (start_run cal started k manual count s))"
proof (cases "get_job k s")
  case (Some j)
  show ?thesis
  proof (cases "st_running (jb_state j) \<noteq> None \<or> \<not> manual \<and> (case st_next (jb_state j) of None \<Rightarrow> False | Some due \<Rightarrow> started < due)")
    case True
    then have "fst (start_run cal started k manual count s) = s" by (auto simp: start_run_def Some)
    then show ?thesis by (simp add: safe_calm)
  next
    case False
    show ?thesis unfolding safe_step_def
    proof
      assume f: "flight s"
      have none: "dget (sc_runs s) k = None"
      proof (cases "dget (sc_runs s) k")
        case run: (Some r)
        from f have "st_running (jb_state j) = Some (fst r)" using run Some unfolding flight_def by blast
        with False show ?thesis by simp
      qed
      let ?s' = "fst (start_run cal started k manual count s)"
      have r: "sc_runs ?s' = dset k (started, manual) (sc_runs s)"
        and g: "get_job i ?s' = (if i = k then Some (j\<lparr>jb_state := (jb_state j)\<lparr>st_running := Some started\<rparr>\<rparr>) else get_job i s)" for i
        using False Some by (auto simp: start_run_def Let_def)
      show "flight ?s' \<and> only_ends s ?s'" using f none by (auto simp: flight_def only_ends_def r g)
    qed
  qed
qed (simp add: start_run_def safe_calm)

lemma safe_settle: "dget (sc_runs s) k = None \<Longrightarrow> calm_runs s (fst (settle cal now k started oc manual s))"
  by (auto simp: settle_def calm_runs_def Let_def split: option.split)

lemma calm_finish: "dget (sc_runs s) k = None \<Longrightarrow> calm_runs s (finish cal now k started oc manual s)"
  using safe_settle [of s k cal now started oc manual]
  by (cases "settle cal now k started oc manual s") (auto simp: finish_def calm_runs_def sched_emit_def get_job_def split: option.split)

lemma runs_cancel: "sc_runs (cancel_run k s) = dpop k (sc_runs s)"
proof -
  have "\<not> has_key k d \<Longrightarrow> dpop k d = d" for d :: "(string \<times> 'a) list" by (induction d) auto
  then show ?thesis by (auto simp: cancel_run_def Let_def split: option.split)
qed

lemma safe_pop: "safe_step s (s\<lparr>sc_runs := dpop k (sc_runs s)\<rparr>)"
  by (auto simp: safe_step_def flight_def only_ends_def)

lemma safe_trans_calm: "safe_step s s' \<Longrightarrow> calm_runs s' s'' \<Longrightarrow> safe_step s s''"
  using calm_flight by (auto simp: safe_step_def only_ends_def calm_runs_def)

lemma safe_cancel: "safe_step s (cancel_run k s)"
  by (rule safe_then [OF safe_pop [of s k]]) (simp_all add: runs_cancel)

lemma safe_stuck: "safe_step s (fail_stuck cal now k s)"
  using safe_cancel [of s k] safe_trans_calm [OF safe_cancel calm_finish, of k s k]
  by (simp add: fail_stuck_def Let_def runs_cancel split: option.split)

lemma calm_sweep: "calm_runs s (fst (sweep_agent_job now j s))"
  by (auto simp: sweep_agent_job_def calm_runs_def split: option.split)

lemma safe_visit: "visit_job cal ev now j s = Some (s1, moment, start) \<Longrightarrow> safe_step s s1"
proof (cases "sweep_agent_job now j s")
  case (Pair s0 b)
  assume e: "visit_job cal ev now j s = Some (s1, moment, start)"
  show ?thesis
  proof (cases b)
    case True
    with e Pair calm_sweep [of s now j] show ?thesis by (simp add: visit_job_def safe_calm)
  next
    case False
    with Pair have s0: "s0 = s" using sweep_false by simp
    show ?thesis using e Pair False safe_stuck safe_calm [OF calm_fire] safe_calm [OF calm_runs_refl]
      by (auto simp: visit_job_def s0 Let_def split: option.splits if_splits)
  qed
qed

lemma runs_boot: "sc_runs (boot cal now s) = []"
proof -
  have one: "boot_job cal now j (s, od) = Some (s1, od1) \<Longrightarrow> sc_runs s1 = sc_runs s" for j s od s1 od1
    by (auto simp: boot_job_def record_skip_def Let_def split: option.splits if_splits)
  have "boot_jobs cal now js (s, od) = (s1, r) \<Longrightarrow> sc_runs s1 = sc_runs s" for js s od s1 r
  proof (induction js arbitrary: s od)
    case (Cons j js)
    from Cons.prems show ?case
    proof (cases rule: boot_jobs_step)
      case (visited s2 od2)
      from Cons.IH [OF visited(2)] one [OF visited(1)] show ?thesis by simp
    qed simp
  qed simp
  then show ?thesis by (auto simp: boot_def after_restart_def Let_def split: option.split prod.split)
qed

lemma calm_calls:
  "new_id s (SUpsert ev now k raw actor) \<Longrightarrow> calm_runs s (fst (upsert cal ev now k raw actor s))"
  "new_id s (SSystemPut ev now k raw ow) \<Longrightarrow> calm_runs s (fst (system_put cal ev now k raw ow s))"
  "calm_runs s (fst (adopt now k s))" "calm_runs s (fst (keep_job now k s))"
  "calm_runs s (fst (set_job_enabled cal ev now k en actor s))" "calm_runs s (fst (run_now cal ev now k actor s))"
  "calm_runs s (rebind_after_rebuild a b c d s)"
proof -
  have key: "\<not> has_key i (sc_runs s) \<Longrightarrow> dget (sc_runs s) i = None" for i by (metis dget_None_iff)
  show "calm_runs s (fst (upsert cal ev now k raw actor s))" if n: "new_id s (SUpsert ev now k raw actor)"
  proof (cases "upsert cal ev now k raw actor s")
    case (Pair s' r)
    from Pair show ?thesis
      by (cases rule: upsert_cases) (use n key [of k] in \<open>auto simp: Pair calm_runs_def\<close>)
  qed
  show "calm_runs s (fst (system_put cal ev now k raw ow s))" if n: "new_id s (SSystemPut ev now k raw ow)"
  proof (cases "system_put cal ev now k raw ow s")
    case (Pair s' r)
    from Pair show ?thesis
      by (cases rule: system_put_cases) (use n key [of k] in \<open>auto simp: Pair calm_runs_def\<close>)
  qed
  show "calm_runs s (fst (adopt now k s))" "calm_runs s (fst (keep_job now k s))"
    using get_job_id by (auto simp: adopt_def keep_job_def calm_runs_def Let_def split: option.split)
  show "calm_runs s (fst (set_job_enabled cal ev now k en actor s))"
    by (auto simp: set_job_enabled_def on_job_def calm_runs_def clear_target_gone_def Let_def split: option.split sum.split)
  show "calm_runs s (fst (run_now cal ev now k actor s))"
    by (auto simp: run_now_def on_job_def calm_runs_def Let_def split: option.split)
  have "sc_runs (rebind_after_rebuild a b c d s) = sc_runs s" by (simp add: rebind_after_rebuild_def)
  moreover have "\<exists>j. get_job i s = Some j \<and> st_running (jb_state j') = st_running (jb_state j)"
    if "get_job i (rebind_after_rebuild a b c d s) = Some j'" for i j'
  proof -
    from get_rebind [of i a b c d s] have "get_job i s = Some j' \<or> map_option (rebound a b) (get_job i s) = Some j'" by (simp add: that eq_commute)
    then show ?thesis by auto
  qed
  ultimately show "calm_runs s (rebind_after_rebuild a b c d s)" by (simp add: calm_runs_def)
qed

lemma safe_sched_step: "new_id s op \<Longrightarrow> safe_step s (sched_step cal s op)"
proof (cases op)
  case (SBoot now)
  then show ?thesis using runs_boot [of cal now s] by (simp add: safe_step_def flight_def only_ends_def)
next
  case (SVisit ev)
  have "safe_step s (s1\<lparr>sc_tick := t\<rparr>)" if "visit_job cal ev now j s = Some (s1, m, st)" for now j s1 m st t
    by (rule safe_then [OF safe_visit [OF that]]) simp_all
  moreover have "safe_step s (s\<lparr>sc_tick := t\<rparr>)" for t by (rule safe_calm [OF calm_runs_get]) simp_all
  ultimately show ?thesis using SVisit by (auto simp: tick_visit_def safe_calm split: option.split list.split)
next
  case (STickStart started)
  have "safe_step s ((fst (start_run cal started k False count s))\<lparr>sc_tick := t\<rparr>)" for k count t
    by (rule safe_then [OF safe_start]) simp_all
  with STickStart show ?thesis by (auto simp: tick_start_def safe_calm split: option.split)
next
  case (SCatchUp ev now)
  have a: "calm_runs s (s\<lparr>sc_pending := p, sc_catch := c\<rparr>)" "calm_runs s (s\<lparr>sc_catch := c, sc_pending := p\<rparr>)" for p c
    by (rule calm_runs_get; simp add: get_job_def)+
  have "calm_runs s (s2\<lparr>sc_catch := c2\<rparr>)" if "fire cal ev now j (s\<lparr>sc_pending := p, sc_catch := c\<rparr>) = Some (s2, st)" for j p c s2 st c2
    by (rule calm_runs_trans [OF calm_runs_trans [OF a(1) calm_fire [OF that]] calm_runs_get]) simp_all
  with a SCatchUp show ?thesis by (auto simp: catch_up_step_def Let_def safe_calm split: option.split list.split)
next
  case (SCatchUpStart started)
  have "safe_step s (s1\<lparr>sc_catch := c\<rparr>)" if "start_run cal started k False count s = (s1, b)" for k count s1 b c
    by (rule safe_then [OF safe_start [of s cal started k False count]]) (simp_all add: that)
  with SCatchUpStart show ?thesis by (auto simp: catch_up_start_def safe_calm split: option.split prod.split)
next
  case (SOutcome now k oc)
  have "safe_step s (finish cal now k started oc manual (s\<lparr>sc_runs := dpop k (sc_runs s)\<rparr>))" for started manual
    by (rule safe_trans_calm [OF safe_pop calm_finish]) simp
  with SOutcome show ?thesis by (auto simp: run_ended_def safe_calm split: option.split)
next
  case (SManualStart n started)
  have "safe_step s (fst (start_run cal started k True count (s\<lparr>sc_manual := ms\<rparr>)))" for k count ms
    by (rule safe_after [OF _ _ safe_start]) simp_all
  with SManualStart show ?thesis by (simp add: manual_start_def Let_def safe_calm split: prod.split)
next
  case (SRemove ev k actor)
  have "safe_step s (cancel_run k (delete_job k s))"
    by (rule safe_then [OF safe_trans_calm [OF safe_pop [of s k], of "(delete_job k s)\<lparr>sc_runs := dpop k (sc_runs s)\<rparr>"]])
      (auto simp: calm_runs_def runs_cancel)
  with SRemove show ?thesis by (simp add: remove_job_def on_job_def safe_calm split: option.split)
next
  case (STick now)
  then show ?thesis by (auto simp: begin_tick_def safe_calm intro!: safe_calm calm_runs_get split: option.split)
qed (simp_all add: safe_calm calm_calls)


section \<open>The tables\<close>

text \<open>The rows of the job table have different ids, and the history keeps at most 200 rows of a job.\<close>

definition tidy :: "sched \<Rightarrow> bool" where
  "tidy s = (distinct (ids_of s) \<and> (\<forall>k. length (rows_of k s) \<le> RUNS_PER_JOB))"

lemma tidy_same: "sc_jobs s' = sc_jobs s \<Longrightarrow> sc_rows s' = sc_rows s \<Longrightarrow> tidy s' = tidy s"
  by (simp add: tidy_def)

lemma tidy_writes [simp]:
  "tidy (set_state k st s) = tidy s" "tidy (set_enabled_row k en st now upd ow s) = tidy s" "tidy (add_usage d s) = tidy s"
  "tidy (sched_emit e s) = tidy s" "tidy (s\<lparr>sc_runs := rs\<rparr>) = tidy s" "tidy (s\<lparr>sc_tick := t\<rparr>) = tidy s" "tidy (s\<lparr>sc_catch := c\<rparr>) = tidy s"
  "tidy (s\<lparr>sc_pending := ps\<rparr>) = tidy s" "tidy (s\<lparr>sc_manual := ms\<rparr>) = tidy s" "tidy (cancel_run k s) = tidy s"
  by (simp_all add: tidy_def)

lemma tidy_append [simp]: "tidy s \<Longrightarrow> tidy (append_run r s)"
  by (auto simp: tidy_def rows_append)

lemma tidy_put [simp]: "tidy s \<Longrightarrow> tidy (put_job j s)"
  by (simp add: tidy_def)

lemma tidy_delete [simp]: "tidy s \<Longrightarrow> tidy (delete_job k s)"
  by (auto simp: tidy_def history_delete)

lemma tidy_skip: "record_skip cal j now r d s = Some s1 \<Longrightarrow> tidy s \<Longrightarrow> tidy s1"
  by (auto simp: record_skip_def Let_def split: option.splits if_splits)

lemma tidy_fire: "fire cal ev now j s = Some (s1, start) \<Longrightarrow> tidy s \<Longrightarrow> tidy s1"
  by (auto simp: fire_def split: option.splits if_splits dest: tidy_skip)

lemma tidy_start [simp]: "tidy s \<Longrightarrow> tidy (fst (start_run cal started k manual count s))"
  by (auto simp: start_run_def Let_def split: option.split)

lemma tidy_settle: "tidy s \<Longrightarrow> tidy (fst (settle cal now k started oc manual s))"
  by (auto simp: settle_def Let_def split: option.split)

lemma tidy_finish [simp]: "tidy s \<Longrightarrow> tidy (finish cal now k started oc manual s)"
  using tidy_settle [of s cal now k started oc manual] by (auto simp: finish_def split: prod.split option.split)

lemma tidy_stuck [simp]: "tidy s \<Longrightarrow> tidy (fail_stuck cal now k s)"
  by (simp add: fail_stuck_def Let_def split: option.split)

lemma tidy_sweep: "tidy s \<Longrightarrow> tidy (fst (sweep_agent_job now j s))"
  by (simp add: sweep_agent_job_def split: option.split)

lemma tidy_visit: "visit_job cal ev now j s = Some (s1, moment, start) \<Longrightarrow> tidy s \<Longrightarrow> tidy s1"
proof (cases "sweep_agent_job now j s")
  case (Pair s0 b)
  assume e: "visit_job cal ev now j s = Some (s1, moment, start)" and "tidy s"
  with tidy_sweep [of s now j] Pair have "tidy s0" by simp
  then show ?thesis using e Pair by (auto simp: visit_job_def Let_def split: bool.splits option.splits if_splits dest: tidy_fire)
qed

lemma tidy_boot_jobs: "boot_jobs cal now js (s, od) = (s1, r) \<Longrightarrow> tidy s \<Longrightarrow> tidy s1"
proof (induction js arbitrary: s od)
  case (Cons j js)
  from Cons.prems(1) show ?case
  proof (cases rule: boot_jobs_step)
    case raised
    with Cons.prems(2) show ?thesis by simp
  next
    case (visited s2 od2)
    have "tidy s2" using visited(1) Cons.prems(2) by (auto simp: boot_job_def split: option.splits if_splits dest: tidy_skip)
    with Cons.IH visited(2) show ?thesis by blast
  qed
qed simp

lemma tidy_boot: "tidy s \<Longrightarrow> tidy (boot cal now s)"
proof -
  assume "tidy s"
  then have t: "tidy (after_restart s)" by (simp add: tidy_def)
  have "tidy (s1\<lparr>sc_pending := a, sc_catch := b\<rparr>) = tidy s1" for s1 a b by (simp add: tidy_def)
  then show ?thesis using t tidy_boot_jobs [of cal now "list_jobs (after_restart s)" "after_restart s"]
    by (simp add: boot_def Let_def split: option.split prod.split)
qed

lemma tidy_calls:
  assumes "tidy s"
  shows "tidy (fst (upsert cal ev now k raw actor s))" "tidy (fst (system_put cal ev now k raw ow s))"
    "tidy (fst (adopt now k s))" "tidy (fst (keep_job now k s))"
    "tidy (fst (set_job_enabled cal ev now k en actor s))" "tidy (fst (run_now cal ev now k actor s))"
    "tidy (rebind_after_rebuild a b c d s)" "tidy (fst (remove_job ev k actor s))"
proof -
  show "tidy (fst (upsert cal ev now k raw actor s))" using assms by (simp add: upsert_def Let_def split: sum.split option.split)
  show "tidy (fst (system_put cal ev now k raw ow s))" using assms by (simp add: system_put_def Let_def split: sum.split)
  show "tidy (fst (adopt now k s))" "tidy (fst (keep_job now k s))" using assms by (simp_all add: adopt_def keep_job_def Let_def split: option.split)
  show "tidy (fst (set_job_enabled cal ev now k en actor s))"
    using assms by (simp add: set_job_enabled_def on_job_def Let_def split: option.split sum.split)
  show "tidy (fst (run_now cal ev now k actor s))" using assms by (auto simp: run_now_def on_job_def Let_def split: option.split)
  show "tidy (fst (remove_job ev k actor s))" using assms by (simp add: remove_job_def on_job_def split: option.split)
  have "jb_id (rebound a b j) = jb_id j" for j by (auto simp: rebound_def Let_def split: job_action.split option.split)
  then show "tidy (rebind_after_rebuild a b c d s)" using assms by (simp add: rebind_after_rebuild_def tidy_def o_def)
qed

lemma tidy_step: "tidy s \<Longrightarrow> tidy (sched_step cal s op)"
proof (cases op)
  case (SVisit ev)
  assume "tidy s"
  with SVisit show ?thesis by (auto simp: tick_visit_def split: option.split list.split dest: tidy_visit)
next
  case (SCatchUp ev now)
  assume t: "tidy s"
  have f: "tidy (s\<lparr>sc_pending := a, sc_catch := b\<rparr>)" "tidy (s\<lparr>sc_catch := b, sc_pending := a\<rparr>)" for a b using t by (simp_all add: tidy_def)
  then have "tidy s2" if "fire cal ev now j (s\<lparr>sc_pending := a, sc_catch := b\<rparr>) = Some (s2, st)" for a b j s2 st
    using tidy_fire [OF that] by blast
  with f t SCatchUp show ?thesis by (auto simp: catch_up_step_def Let_def split: option.split list.split)
next
  case (SCatchUpStart started)
  assume t: "tidy s"
  then have "tidy s1" if "start_run cal started k False count s = (s1, b)" for k count s1 b
    using tidy_start [of s cal started k False count] that by simp
  with t SCatchUpStart show ?thesis by (auto simp: catch_up_start_def split: option.split prod.split)
qed (simp_all add: tidy_boot begin_tick_def tick_start_def run_ended_def manual_start_def Let_def tidy_calls split: option.split prod.split)

section \<open>Reachable states\<close>

inductive sched_reach :: "calendar \<Rightarrow> sched \<Rightarrow> bool" for cal where
  reach_new: "sched_reach cal empty_sched"
| reach_step: "sched_reach cal s \<Longrightarrow> new_id s op \<Longrightarrow> sched_reach cal (sched_step cal s op)"

lemma reach_flight: "sched_reach cal s \<Longrightarrow> flight s"
proof (induction rule: sched_reach.induct)
  case reach_new
  show ?case by (simp add: flight_def empty_sched_def)
next
  case (reach_step s op)
  with safe_sched_step show ?case by (simp add: safe_step_def)
qed

lemma reach_tidy: "sched_reach cal s \<Longrightarrow> tidy s"
proof (induction rule: sched_reach.induct)
  case reach_new
  show ?case by (simp add: tidy_def empty_sched_def)
next
  case (reach_step s op)
  then show ?case by (simp add: tidy_step)
qed

text \<open>
  The tables of the scheduler stay in order. In every state the service can come to, no two jobs have the same id, and the history holds at most the two hundred newest
  runs of each job.
\<close>

theorem tables_in_order: "sched_reach cal s \<Longrightarrow> distinct (ids_of s) \<and> (\<forall>k. length (rows_of k s) \<le> 200)"
  using reach_tidy [of cal s] by (simp add: tidy_def RUNS_PER_JOB_def)

text \<open>
  C10: Runs of a job never overlap, and a run is never replaced. In every state the service can come to, a run that is in flight is the one its job records as running,
  and whatever the next step is (a tick, a catch-up, a run asked for by hand, an edit, a restart) the run is the same or is over; so a new run of a job begins only
  after the one before it has ended, was cancelled, or died with the process.
\<close>

theorem runs_never_overlap:
  assumes "sched_reach cal s" and "new_id s op" and "dget (sc_runs s) k = Some r"
  shows "(\<forall>j. get_job k s = Some j \<longrightarrow> st_running (jb_state j) = Some (fst r)) \<and>
    (dget (sc_runs (sched_step cal s op)) k = Some r \<or> dget (sc_runs (sched_step cal s op)) k = None)"
proof -
  have f: "flight s" by (rule reach_flight [OF assms(1)])
  with safe_sched_step [OF assms(2), of cal] have "only_ends s (sched_step cal s op)" by (simp add: safe_step_def)
  with assms(3) have "dget (sc_runs (sched_step cal s op)) k \<in> {Some r, None}" unfolding only_ends_def by blast
  moreover have "\<forall>j. get_job k s = Some j \<longrightarrow> st_running (jb_state j) = Some (fst r)" using f assms(3) unfolding flight_def by blast
  ultimately show ?thesis by (intro conjI) simp_all
qed

end
