(* ===== verification/Sched_Bounds.thy ===== *)
theory Sched_Bounds
  imports Sched_Runs
begin

text \<open>
  The limits on the jobs of agents: how many of them can be enabled at once, for one agent and in all.
\<close>

section \<open>The enabled jobs of agents\<close>

definition agents_on :: "(job \<Rightarrow> bool) \<Rightarrow> sched \<Rightarrow> string set" where
  "agents_on P s = {k. \<exists>j. get_job k s = Some j \<and> jb_enabled j \<and> is_agent (jb_owner j) \<and> P j}"

text \<open>The jobs of an agent: those it may change.\<close>

abbreviation own_jobs :: "(string \<Rightarrow> string option) \<Rightarrow> owner \<Rightarrow> sched \<Rightarrow> string set" where
  "own_jobs live actor s \<equiv> agents_on (may_change live actor) s"

abbreviation all_agents :: "sched \<Rightarrow> string set" where
  "all_agents s \<equiv> agents_on (\<lambda>j. True) s"

lemma agents_on_ids: "distinct (ids_of s) \<Longrightarrow>
    agents_on P s = jb_id ` set (filter (\<lambda>j. jb_enabled j \<and> is_agent (jb_owner j) \<and> P j) (sc_jobs s))"
  by (auto simp: agents_on_def image_iff dest: get_job_sole get_job_mem get_job_id)

lemma card_agents_on:
  assumes "distinct (ids_of s)"
  shows "finite (agents_on P s)" and "card (agents_on P s - {k}) =
    length (filter (\<lambda>j. P j) (filter (\<lambda>j. jb_enabled j \<and> jb_id j \<noteq> k \<and> is_agent (jb_owner j)) (list_jobs s)))"
proof -
  show "finite (agents_on P s)" using agents_on_ids [OF assms] by simp
  let ?Q = "\<lambda>j. jb_enabled j \<and> is_agent (jb_owner j) \<and> P j" and ?R = "\<lambda>j. (jb_enabled j \<and> jb_id j \<noteq> k \<and> is_agent (jb_owner j)) \<and> P j"
  have "agents_on P s - {k} = jb_id ` set (filter ?R (sc_jobs s))" by (auto simp: agents_on_ids [OF assms])
  moreover have "card (jb_id ` set (filter ?R (sc_jobs s))) = length (filter ?R (sc_jobs s))"
  proof -
    have "distinct (map jb_id (filter ?R (sc_jobs s)))" using assms by (rule distinct_map_filter)
    from distinct_card [OF this] show ?thesis by (simp only: set_map length_map)
  qed
  moreover have "length (filter ?R (sc_jobs s)) = length (filter ?R (list_jobs s))"
    by (simp only: list_jobs_def filter_sort length_sort)
  ultimately show "card (agents_on P s - {k}) =
    length (filter (\<lambda>j. P j) (filter (\<lambda>j. jb_enabled j \<and> jb_id j \<noteq> k \<and> is_agent (jb_owner j)) (list_jobs s)))" by (simp only: filter_filter)
qed

lemma enable_limit_card:
  assumes "distinct (ids_of s)" and "agent_enable_limit live actor k s = None"
  shows "card (own_jobs live actor s - {k}) < 10" and "card (all_agents s - {k}) < 100"
  using assms(2) unfolding card_agents_on(2) [OF assms(1)] agent_enable_limit_def Let_def
  by (simp_all add: AGENT_ENABLED_PER_OWNER_def AGENT_ENABLED_TOTAL_def not_le split: if_splits)

text \<open>No enabled job more, or one that passed the limits.\<close>

definition in_limits :: "(string \<Rightarrow> string option) \<Rightarrow> owner \<Rightarrow> (job \<Rightarrow> bool) \<Rightarrow> sched \<Rightarrow> sched \<Rightarrow> bool" where
  "in_limits live actor P s s' = (agents_on P s' \<subseteq> agents_on P s \<or>
     (\<exists>k. agents_on P s' \<subseteq> insert k (agents_on P s) \<and> agent_enable_limit live actor k s = None))"

lemma in_limits_card:
  assumes "in_limits live actor P s s'" and "distinct (ids_of s)"
    and "\<And>k. agent_enable_limit live actor k s = None \<Longrightarrow> card (agents_on P s - {k}) < n"
  shows "card (agents_on P s') \<le> max (card (agents_on P s)) n"
proof -
  note fin = card_agents_on(1) [OF assms(2), of P]
  from assms(1) consider "agents_on P s' \<subseteq> agents_on P s"
    | k where "agents_on P s' \<subseteq> insert k (agents_on P s)" "agent_enable_limit live actor k s = None" unfolding in_limits_def by blast
  then show ?thesis
  proof cases
    case 1
    then have "card (agents_on P s') \<le> card (agents_on P s)" by (rule card_mono [OF fin])
    then show ?thesis by simp
  next
    case (2 k)
    have "card (agents_on P s') \<le> card (insert k (agents_on P s - {k}))" by (rule card_mono) (use fin 2(1) in auto)
    also have "\<dots> = Suc (card (agents_on P s - {k}))" using card.insert_remove [OF fin, of k] by simp
    also have "\<dots> \<le> n" using assms(3) [OF 2(2)] by simp
    finally show ?thesis by simp
  qed
qed

lemma limit_enable: "is_agent actor \<Longrightarrow> limit_of live actor True j s = None \<Longrightarrow> agent_enable_limit live actor (jb_id j) s = None"
  by (simp add: limit_of_def split: option.splits)

lemma agents_put: "agents_on P (put_job j s) \<subseteq> insert (jb_id j) (agents_on P s)"
  by (auto simp: agents_on_def split: if_splits)

lemma agents_write: "(\<And>i. i \<noteq> k \<Longrightarrow> get_job i s' = get_job i s) \<Longrightarrow> agents_on P s' \<subseteq> insert k (agents_on P s)"
  by (auto simp: agents_on_def)

lemma agents_sub:
  assumes "\<And>k j'. get_job k s' = Some j' \<Longrightarrow> jb_enabled j' \<Longrightarrow> is_agent (jb_owner j') \<Longrightarrow> P j' \<Longrightarrow>
      \<exists>j. get_job k s = Some j \<and> jb_enabled j \<and> is_agent (jb_owner j) \<and> P j"
  shows "agents_on P s' \<subseteq> agents_on P s"
  using assms by (auto simp: agents_on_def)

text \<open>The two calls that can enable a job.\<close>

lemma in_limits_upsert:
  assumes "is_agent actor" and "new_id s (SUpsert ev now fresh raw actor)"
    and P: "\<And>j. may_change (en_live ev) actor j \<Longrightarrow> P j"
  shows "in_limits (en_live ev) actor P s (fst (upsert cal ev now fresh raw actor s))"
proof -
  obtain s' r where u: "upsert cal ev now fresh raw actor s = (s', r)" by fastforce
  from u show ?thesis
  proof (cases rule: upsert_cases)
    case refused
    then show ?thesis by (simp add: u in_limits_def)
  next
    case (created j)
    show ?thesis
    proof (cases "jb_enabled j")
      case True
      with created(5) limit_enable [OF assms(1)] have "agent_enable_limit (en_live ev) actor (jb_id j) s = None" by simp
      then show ?thesis unfolding u in_limits_def created(1) fst_conv using agents_put by blast
    next
      case False
      then have "agents_on P (put_job j s) \<subseteq> agents_on P s" by (intro agents_sub) (auto split: if_splits option.splits)
      then show ?thesis unfolding u in_limits_def created(1) fst_conv by blast
    qed
  next
    case (changed old j)
    show ?thesis
    proof (cases "jb_enabled j \<and> \<not> jb_enabled old")
      case True
      with changed(8) limit_enable [OF assms(1)] have "agent_enable_limit (en_live ev) actor (jb_id j) s = None" by simp
      then show ?thesis unfolding u in_limits_def changed(3) fst_conv using agents_put by blast
    next
      case False
      have "agents_on P (put_job j s) \<subseteq> agents_on P s"
        using False changed(1,5,9) P [OF changed(2)] by (intro agents_sub) (auto split: if_splits)
      then show ?thesis unfolding u in_limits_def changed(3) fst_conv by blast
    qed
  qed
qed

lemma in_limits_enable:
  assumes "is_agent actor" and P: "\<And>j. may_change (en_live ev) actor j \<Longrightarrow> P j"
  shows "in_limits (en_live ev) actor P s (fst (set_job_enabled cal ev now k en actor s))"
proof -
  let ?s' = "fst (set_job_enabled cal ev now k en actor s)"
  have oth: "i \<noteq> k \<Longrightarrow> get_job i ?s' = get_job i s" for i
    by (auto simp: set_job_enabled_def on_job_def Let_def split: option.split sum.split)
  show ?thesis
  proof (cases "\<exists>j. get_job k s = Some j \<and> may_change (en_live ev) actor j")
    case False
    then have "?s' = s" by (cases "get_job k s") (simp_all add: set_job_enabled_def on_job_def)
    then show ?thesis by (simp add: in_limits_def)
  next
    case True
    then obtain j where 2: "get_job k s = Some j" "may_change (en_live ev) actor j" by blast
    show ?thesis
    proof (cases "en \<and> \<not> jb_enabled j")
      case True
      show ?thesis
      proof (cases "agent_enable_limit (en_live ev) actor k s")
        case None
        with agents_write [of k ?s' s P, OF oth] show ?thesis unfolding in_limits_def by blast
      next
        case (Some l)
        then have "?s' = s" using True 2 assms(1) by (simp add: set_job_enabled_def on_job_def)
        then show ?thesis by (simp add: in_limits_def)
      qed
    next
      case False
      then have e: "?s' = set_enabled_row k en (jb_state j) now (Some (job_owner_of actor)) None s"
        using 2 by (simp add: set_job_enabled_def on_job_def)
      have "agents_on P ?s' \<subseteq> agents_on P s" using False 2 P by (intro agents_sub) (auto simp: e split: if_splits)
      then show ?thesis by (simp add: in_limits_def)
    qed
  qed
qed

lemma agents_engine: "engine_op op \<Longrightarrow> distinct (ids_of s) \<Longrightarrow> all_agents (sched_step cal s op) \<subseteq> all_agents s"
proof (rule agents_sub)
  fix k j' assume e: "engine_op op" "distinct (ids_of s)" and j': "get_job k (sched_step cal s op) = Some j'" "jb_enabled j'" "is_agent (jb_owner j')"
  note g = engine_step [OF e, of k cal]
  obtain j where j: "get_job k s = Some j" using g j'(1) by (cases "get_job k s") (simp_all add: engine_def)
  from g j j' show "\<exists>j. get_job k s = Some j \<and> jb_enabled j \<and> is_agent (jb_owner j) \<and> True" by (auto simp: engine_def same_definition_def)
qed

lemma agents_calls:
  "all_agents (fst (adopt now k s)) \<subseteq> all_agents s" "all_agents (fst (keep_job now k s)) \<subseteq> all_agents s"
  "all_agents (fst (remove_job ev k actor s)) \<subseteq> all_agents s" "all_agents (fst (run_now cal ev now k actor s)) \<subseteq> all_agents s"
  "all_agents (fst (system_put cal ev now k raw ow s)) \<subseteq> all_agents s" "all_agents (rebind_after_rebuild a b c d s) \<subseteq> all_agents s"
proof -
  have user: "\<not> is_agent USER" by (simp add: is_agent_def USER_def)
  show "all_agents (fst (adopt now k s)) \<subseteq> all_agents s" "all_agents (fst (keep_job now k s)) \<subseteq> all_agents s"
    using user get_job_id by (auto intro!: agents_sub simp: adopt_def keep_job_def Let_def split: option.splits if_splits)
  show "all_agents (fst (remove_job ev k actor s)) \<subseteq> all_agents s" "all_agents (fst (run_now cal ev now k actor s)) \<subseteq> all_agents s"
    by (auto intro!: agents_sub simp: remove_job_def run_now_def on_job_def Let_def split: option.splits if_splits)
  show "all_agents (fst (system_put cal ev now k raw ow s)) \<subseteq> all_agents s"
  proof (cases "system_put cal ev now k raw ow s")
    case (Pair s' r)
    from Pair show ?thesis by (cases rule: system_put_cases) (auto intro!: agents_sub simp: Pair split: if_splits)
  qed
  show "all_agents (rebind_after_rebuild a b c d s) \<subseteq> all_agents s"
  proof (rule agents_sub)
    fix i j' assume g: "get_job i (rebind_after_rebuild a b c d s) = Some j'" and j': "jb_enabled j'" "is_agent (jb_owner j')"
    have "get_job i s = Some j' \<or> map_option (rebound a b) (get_job i s) = Some j'" using get_rebind [of i a b c d s] by (simp add: g eq_commute)
    then show "\<exists>j. get_job i s = Some j \<and> jb_enabled j \<and> is_agent (jb_owner j) \<and> True" using j' by auto
  qed
qed


section \<open>The limits\<close>

text \<open>
  An agent cannot have more than ten of its jobs enabled. Whatever an agent's own save or switch does, the enabled jobs it may change are afterwards
  no more than before, or at most ten, whether the call creates a job, edits one, or switches one on.
\<close>

theorem agent_keeps_to_ten:
  assumes "distinct (ids_of s)" and "is_agent actor" and "new_id s op"
    and "op = SUpsert ev now fresh raw actor \<or> op = SEnable ev now k en actor"
  shows "card (own_jobs (en_live ev) actor (sched_step cal s op)) \<le> max (card (own_jobs (en_live ev) actor s)) 10"
proof -
  have "in_limits (en_live ev) actor (may_change (en_live ev) actor) s (sched_step cal s op)"
    using assms(4) in_limits_upsert [OF assms(2), of s ev now fresh raw] in_limits_enable [OF assms(2)] assms(3) by auto
  then show ?thesis by (rule in_limits_card [OF _ assms(1)]) (rule enable_limit_card(1) [OF assms(1)])
qed

text \<open>Only the user may switch on a job beyond the limits.\<close>

fun user_saves :: "sched_op \<Rightarrow> bool" where
  "user_saves (SUpsert ev now fresh raw actor) = (\<not> is_agent actor)"
| "user_saves (SEnable ev now k en actor) = (\<not> is_agent actor)"
| "user_saves _ = False"

text \<open>
  C21: All agents together cannot have more than a hundred jobs enabled. No step but a save or a switch by the user makes the enabled jobs of agents more than they
  were and more than a hundred: not the loop, a restart, a rebuilt pane, an adopted or kept job, or a call of an agent.
\<close>

theorem agents_keep_to_a_hundred:
  assumes "distinct (ids_of s)" and "new_id s op" and "\<not> user_saves op"
  shows "card (all_agents (sched_step cal s op)) \<le> max (card (all_agents s)) 100"
proof (cases "all_agents (sched_step cal s op) \<subseteq> all_agents s")
  case True
  then have "card (all_agents (sched_step cal s op)) \<le> card (all_agents s)" by (rule card_mono [OF card_agents_on(1) [OF assms(1)]])
  then show ?thesis by simp
next
  case False
  then have "\<not> engine_op op" using agents_engine assms(1) by blast
  then have "\<exists>live actor. in_limits live actor (\<lambda>j. True) s (sched_step cal s op)"
  proof (cases op)
    case (SUpsert ev now fresh raw actor)
    with assms(2,3) in_limits_upsert [of actor s ev now fresh raw "\<lambda>j. True" cal] have "in_limits (en_live ev) actor (\<lambda>j. True) s (sched_step cal s op)" by simp
    then show ?thesis by blast
  next
    case (SEnable ev now k en actor)
    with assms(3) in_limits_enable [of actor ev "\<lambda>j. True" s cal now k en] have "in_limits (en_live ev) actor (\<lambda>j. True) s (sched_step cal s op)" by simp
    then show ?thesis by blast
  qed (use False \<open>\<not> engine_op op\<close> agents_calls in simp_all)
  then obtain live actor where "in_limits live actor (\<lambda>j. True) s (sched_step cal s op)" by blast
  then show ?thesis by (rule in_limits_card [OF _ assms(1)]) (rule enable_limit_card(2) [OF assms(1)])
qed

end
