(* ===== verification/Sched_Samples.thy ===== *)
theory Sched_Samples
  imports Sched_Bounds
begin

text \<open>
  The promises of the scheduler on a concrete schedule: a job of the user that sends a message every ten minutes, in UTC.
\<close>

definition sample_env :: env where
  "sample_env = \<lparr>en_live = Some, en_window = True, en_queued = (\<lambda>k. False), en_limited = (\<lambda>a. False)\<rparr>"

definition run_sched :: "sched_op list \<Rightarrow> sched" where
  "run_sched ops = foldl (sched_step utc) empty_sched ops"

definition sample_draft :: jval where
  "sample_draft = JDict [(''name'', JStr ''tests''), (''schedule'', JDict [(''kind'', JStr ''every''), (''every_ms'', JInt 600000)]),
     (''action'', JDict [(''kind'', JStr ''message''), (''workspace'', JStr ''web''), (''pane_id'', JStr ''p1''), (''text'', JStr ''go'')])]"

definition sample_fail :: run_outcome where
  "sample_fail = \<lparr>oc_status = RunError, oc_reason = None, oc_detail = Some ''refused'', oc_msg_key = None\<rparr>"

text \<open>The job is due at ten minutes past the start; the tick starts a run a millisecond later.\<close>

definition sample_running :: sched where
  "sample_running = run_sched [SUpsert sample_env 0 ''j1'' sample_draft USER, STick 600000, SVisit sample_env, STickStart 600001]"

definition sample_ended :: sched_op where
  "sample_ended = SOutcome 600002 ''j1'' sample_fail"

definition sample_before :: job where "sample_before = the (get_job ''j1'' sample_running)"

definition sample_after :: job where "sample_after = the (get_job ''j1'' (sched_step utc sample_running sample_ended))"

lemma sample_jobs:
  "distinct (ids_of sample_running)" "get_job ''j1'' sample_running \<noteq> None" "get_job ''j1'' (sched_step utc sample_running sample_ended) \<noteq> None"
  "st_next (jb_state sample_before) = Some 600000" "st_next (jb_state sample_after) = Some 1200000"
  "jb_enabled sample_before" "\<not> is_once (jb_schedule sample_before)" "dget (sc_runs sample_running) ''j1'' = Some (600001, False)"
  by code_simp+

lemma sample_get:
  "get_job ''j1'' sample_running = Some sample_before" "get_job ''j1'' (sched_step utc sample_running sample_ended) = Some sample_after"
  using sample_jobs(2,3) by (simp_all add: sample_before_def sample_after_def)

lemma sample_reach: "sched_reach utc sample_running"
  unfolding sample_running_def run_sched_def foldl_Cons foldl_Nil
  by (intro reach_step reach_new) (simp_all add: empty_sched_def get_job_def)


section \<open>The promises, applied\<close>


definition sample_external :: owner where
  "sample_external = USER\<lparr>ow_kind := ''external''\<rparr>"

text \<open>An external agent asks to remove the user's job.\<close>

lemma calls_change_only_own_jobs_witness:
  "get_job ''j1'' (sched_step utc sample_running (SRemove sample_env ''j1'' sample_external)) = Some sample_before \<and>
    rows_of ''j1'' (sched_step utc sample_running (SRemove sample_env ''j1'' sample_external)) = rows_of ''j1'' sample_running"
proof (rule calls_change_only_own_jobs [OF _ sample_get(1)])
  show "op_actor (SRemove sample_env ''j1'' sample_external) = Some (Some, sample_external)" by (simp add: sample_env_def)
  show "\<not> may_change Some sample_external sample_before" by code_simp
qed simp


text \<open>A restart ends the run of the sample.\<close>

lemma runs_never_overlap_witness:
  "st_running (jb_state sample_before) = Some 600001 \<and>
    (dget (sc_runs (sched_step utc sample_running (SBoot 700000))) ''j1'' = Some (600001, False) \<or>
     dget (sc_runs (sched_step utc sample_running (SBoot 700000))) ''j1'' = None)"
proof -
  note over = runs_never_overlap [OF sample_reach _ sample_jobs(8), of "SBoot 700000"]
  have "new_id sample_running (SBoot 700000)" by simp
  from over [OF this] sample_get(1) show ?thesis by simp
qed

lemma tables_in_order_witness: "distinct (ids_of sample_running) \<and> (\<forall>k. length (rows_of k sample_running) \<le> 200)"
  by (rule tables_in_order [OF sample_reach])

text \<open>An external agent adds a second job.\<close>

lemma agent_keeps_to_ten_witness:
  "card (own_jobs (en_live sample_env) sample_external (sched_step utc sample_running (SUpsert sample_env 700000 ''j2'' sample_draft sample_external)))
     \<le> max (card (own_jobs (en_live sample_env) sample_external sample_running)) 10"
proof (rule agent_keeps_to_ten [OF sample_jobs(1)])
  show "is_agent sample_external" by (simp add: is_agent_def sample_external_def)
  show "new_id sample_running (SUpsert sample_env 700000 ''j2'' sample_draft sample_external)" by code_simp
qed simp

lemma agents_keep_to_a_hundred_witness:
  "card (all_agents (sched_step utc sample_running sample_ended)) \<le> max (card (all_agents sample_running)) 100"
  by (rule agents_keep_to_a_hundred [OF sample_jobs(1)]) (simp_all add: sample_ended_def)

end
