(* ===== verification/Sched_Limits.thy ===== *)
theory Sched_Limits
  imports Sched_Samples
begin

text \<open>
  Where the scheduler does less than it says: the daily caps rest on a history that is cut, and decisions made on an older listing are
  carried out on a job that has changed since.
\<close>

section \<open>The daily cap and the history\<close>

lemma keep_last: "drop (Suc (length (drop (length xs - c) xs)) - c) (drop (length xs - c) xs @ [r]) = drop (Suc (length xs) - c) (xs @ [r])"
proof (cases "length xs \<le> c")
  case False
  then have "drop (length xs - c) xs @ [r] = drop (length xs - c) (xs @ [r])" by simp
  then show ?thesis using False by (simp only: drop_drop length_drop) (simp add: Suc_diff_le)
qed simp

lemma rows_of_appends:
  "rr_job r = k \<Longrightarrow> length (rows_of k s) \<le> RUNS_PER_JOB \<Longrightarrow>
     rows_of k ((append_run r ^^ n) s) = drop (length (rows_of k s) + n - RUNS_PER_JOB) (rows_of k s @ replicate n r)"
proof (induction n)
  case (Suc n)
  let ?xs = "rows_of k s @ replicate n r"
  have ih: "rows_of k ((append_run r ^^ n) s) = drop (length ?xs - RUNS_PER_JOB) ?xs" using Suc.IH [OF Suc.prems] by simp
  have "rows_of k (append_run r ((append_run r ^^ n) s)) = drop (Suc (length ?xs) - RUNS_PER_JOB) (?xs @ [r])"
    using Suc.prems(1) by (simp only: rows_append ih simp_thms if_True keep_last)
  moreover have "?xs @ [r] = rows_of k s @ replicate (Suc n) r" by (simp add: replicate_append_same)
  moreover have "Suc (length ?xs) - RUNS_PER_JOB = length (rows_of k s) + Suc n - RUNS_PER_JOB" by simp
  ultimately show ?case by (simp only: funpow.simps o_apply)
qed simp

lemma dispatched_rows: "filter (dispatched_row k since) (sc_rows s) = filter (dispatched_row k since) (rows_of k s)"
  by (simp only: filter_filter) (rule filter_cong [OF refl], auto simp: dispatched_row_def)

text \<open>
  The runs of a day are forgotten when the job is skipped often enough. The cap counts the dispatched rows of the history, and the history keeps the newest
  two hundred rows of any kind: after two hundred skips in a row the count is zero, whatever ran that day, and the cap of the day starts over.
\<close>

theorem skips_reset_the_daily_cap:
  assumes "length (rows_of k s) \<le> 200" and "rr_job r = k" and "rr_status r = RunSkipped"
  shows "count_dispatched_since k since ((append_run r ^^ 200) s) = 0"
proof -
  let ?s = "(append_run r ^^ 200) s"
  have "rows_of k ?s = drop (length (rows_of k s)) (rows_of k s @ replicate 200 r)"
    using rows_of_appends [OF assms(2), of s 200] assms(1) by (simp add: RUNS_PER_JOB_def)
  then have "set (rows_of k ?s) \<subseteq> {r}" by auto
  then have "filter (dispatched_row k since) (sc_rows ?s) = []"
    unfolding dispatched_rows [of k since ?s] using assms(3) by (auto simp: filter_empty_conv dispatched_row_def)
  then show ?thesis by (simp add: count_dispatched_since_def)
qed

lemma count_bounded: "count_dispatched_since k since s \<le> int (length (rows_of k s))"
  using length_filter_le [of "dispatched_row k since" "rows_of k s"] by (simp only: count_dispatched_since_def dispatched_rows of_nat_le_iff)

text \<open>
  A daily cap above two hundred never holds a job back: in every state the service can come to, such a job passes the cap however often it has run. A client may
  ask for up to 1440 runs a day, an agent for up to 288.
\<close>

theorem high_caps_never_bind:
  assumes "sched_reach cal s" and "200 < pl_max_runs (jb_policy j)" and "\<not> en_limited ev (jb_action j)"
  shows "gate cal ev now j s \<noteq> Some ''budget''"
proof -
  have "length (rows_of (jb_id j) s) \<le> RUNS_PER_JOB" using reach_tidy [OF assms(1)] by (simp add: tidy_def)
  with count_bounded [of "jb_id j" "day_start_ms cal (jb_schedule j) now" s] have
    "count_dispatched_since (jb_id j) (day_start_ms cal (jb_schedule j) now) s \<le> 200" by (simp add: RUNS_PER_JOB_def)
  with assms(2,3) show ?thesis by (simp add: gate_def)
qed

text \<open>Two hundred skips of the sample job, and a cap of 300.\<close>

definition sample_skip :: run_row where
  "sample_skip = \<lparr>rr_job = ''j1'', rr_started = 5, rr_ended = 5, rr_status = RunSkipped, rr_reason = Some ''no_window'', rr_detail = None\<rparr>"

lemma skips_reset_the_daily_cap_witness:
  "count_dispatched_since ''j1'' 0 ((append_run sample_skip ^^ 200) (sched_step utc sample_running sample_ended)) = 0"
proof (rule skips_reset_the_daily_cap)
  show "length (rows_of ''j1'' (sched_step utc sample_running sample_ended)) \<le> 200"
    using reach_tidy [OF reach_step [OF sample_reach], of sample_ended] by (simp add: sample_ended_def tidy_def RUNS_PER_JOB_def)
qed (simp_all add: sample_skip_def)

lemma skips_reset_counted: "count_dispatched_since ''j1'' 0 (sched_step utc sample_running sample_ended) = 1"
  by code_simp

definition sample_eager :: job where
  "sample_eager = sample_before\<lparr>jb_policy := DEFAULT_POLICY\<lparr>pl_max_runs := 300\<rparr>\<rparr>"

lemma high_caps_never_bind_witness: "gate utc sample_env 700000 sample_eager sample_running \<noteq> Some ''budget''"
  by (rule high_caps_never_bind [OF sample_reach]) (simp_all add: sample_eager_def sample_env_def)


section \<open>Checks made before the last change\<close>

definition sample_created :: sched where
  "sample_created = run_sched [SUpsert sample_env 0 ''j1'' sample_draft USER]"

abbreviation runs_from :: "sched \<Rightarrow> sched_op list \<Rightarrow> sched" where
  "runs_from s ops \<equiv> foldl (sched_step utc) s ops"

text \<open>
  A job that is switched off just before its run starts runs all the same. The loop decides on the run of its listing and starts it in a later step, whose guard reads
  the running flag and the slot, and not whether the job is enabled.
\<close>

theorem switched_off_still_runs:
  "let s = runs_from sample_created [STick 600000, SVisit sample_env, SEnable sample_env 600001 ''j1'' False USER, STickStart 600002]
   in map_option jb_enabled (get_job ''j1'' s) = Some False \<and> dget (sc_runs s) ''j1'' = Some (600002, False)"
  by code_simp

definition sample_once :: jval where
  "sample_once = JDict [(''name'', JStr ''once''), (''schedule'', JDict [(''kind'', JStr ''once''), (''at_ms'', JInt 600000)]),
     (''action'', JDict [(''kind'', JStr ''message''), (''workspace'', JStr ''web''), (''pane_id'', JStr ''p1''), (''text'', JStr ''go'')])]"

definition sample_sent :: run_outcome where
  "sample_sent = \<lparr>oc_status = RunOk, oc_reason = None, oc_detail = None, oc_msg_key = None\<rparr>"

fun dispatches :: "string \<Rightarrow> sched_event list \<Rightarrow> nat" where
  "dispatches k [] = 0"
| "dispatches k (Dispatched i t m a g # es) = (if i = k then Suc (dispatches k es) else dispatches k es)"
| "dispatches k (StoppedNotice j # es) = dispatches k es"

text \<open>
  A once job can run twice. After a restart the catch-up runs the overdue job and switches it off; a tick whose listing is older than that still sees it due, and
  the guard of the start takes a job without a slot for one that is due.
\<close>

theorem once_runs_twice:
  "let s = runs_from empty_sched [SUpsert sample_env 0 ''j1'' sample_once USER, SBoot 700000, STick 700001, SCatchUp sample_env 700002, SCatchUpStart 700003,
      SOutcome 700004 ''j1'' sample_sent, SVisit sample_env, STickStart 700005]
   in dispatches ''j1'' (sc_out s) = 2"
  by code_simp

text \<open>
  A job the user keeps can still expire. The sweep looks at the owner in the listing of its tick; when the user keeps the job after that listing, it is
  switched off although it now never expires.
\<close>

theorem kept_job_expires:
  "let s = runs_from empty_sched [SUpsert sample_env 0 ''j1'' sample_draft sample_external, STick 604800000, SKeep 604800000 ''j1'', SVisit sample_env]
   in map_option (\<lambda>j. (jb_enabled j, ow_expires (jb_owner j))) (get_job ''j1'' s) = Some (False, KeptByUser)"
  by code_simp

text \<open>
  The daily total of the agents can be passed. Asking for a run and starting it are two steps, and only the first looks at the total: two
  requests at 299 runs make 301.
\<close>

theorem daily_total_overshoots:
  "let s = runs_from (sample_created\<lparr>sc_usage := [(''0'', 299)]\<rparr>) [SUpsert sample_env 0 ''j2'' sample_draft sample_external, SUpsert sample_env 0 ''j3'' sample_draft sample_external,
      SRunNow sample_env 1000 ''j2'' sample_external, SRunNow sample_env 1000 ''j3'' sample_external, SManualStart 0 1001, SManualStart 0 1002]
   in usage_of ''0'' s = 301 \<and> length (sc_runs s) = 2"
  by code_simp

end
