(* ===== verification/Sync_Approvals.thy ===== *)
theory Sync_Approvals
  imports Py_Prelude "HOL-Library.List_Lexorder" "HOL-Library.Char_ord"
begin

text \<open>
  \<open>backend/agent_team_backend/sync_approvals.py\<close>: records from other devices of the account that wait for the user. The state is the index file (any JSON
  document, or none that can be read) and the sealed payloads beside it, which a file name made from the scope and the item stands for. The
  account's cipher, SHA-256, \<open>json\<close>, and how a scope shows its records are arguments; a random nonce is part of the cipher. Log lines, the
  files of a large skill kept for review, and file permissions are left out.
\<close>

section \<open>Equality of documents\<close>

text \<open>\<open>==\<close> on JSON values: numbers and booleans by their value, objects without regard to the order of their keys.\<close>

definition num_of :: "jval \<Rightarrow> rat option" where
  "num_of v = (case v of JBool b \<Rightarrow> Some (if b then 1 else 0) | JInt i \<Rightarrow> Some (of_int i) | JFloat f \<Rightarrow> float_rat f | _ \<Rightarrow> None)"

function py_eq :: "jval \<Rightarrow> jval \<Rightarrow> bool" and py_eqs :: "jval list \<Rightarrow> jval list \<Rightarrow> bool" and py_sub :: "(string \<times> jval) list \<Rightarrow> (string \<times> jval) list \<Rightarrow> bool" where
  "py_eq v x =
     (case (v, x) of
        (JNull, JNull) \<Rightarrow> True
      | (JStr s, JStr t) \<Rightarrow> s = t
      | (JList xs, JList ys) \<Rightarrow> py_eqs xs ys
      | (JDict d, JDict e) \<Rightarrow> length d = length e \<and> py_sub d e
      | (JFloat FInf, JFloat FInf) \<Rightarrow> True
      | (JFloat FNegInf, JFloat FNegInf) \<Rightarrow> True
      | _ \<Rightarrow> num_of v \<noteq> None \<and> num_of v = num_of x)"
| "py_eqs [] ys = (ys = [])"
| "py_eqs (x # xs) ys = (case ys of [] \<Rightarrow> False | y # ys1 \<Rightarrow> py_eq x y \<and> py_eqs xs ys1)"
| "py_sub [] e = True"
| "py_sub ((k, v) # d) e = (case dget e k of None \<Rightarrow> False | Some x \<Rightarrow> py_eq v x \<and> py_sub d e)"
  by pat_completeness auto
termination
  by (relation "measure (\<lambda>a. case a of Inl (v, x) \<Rightarrow> size v | Inr (Inl (xs, ys)) \<Rightarrow> size_list size xs
      | Inr (Inr (d, e)) \<Rightarrow> size_list (size_prod (\<lambda>k. 0) size) d)") auto


section \<open>The index\<close>

type_synonym dict = "(string \<times> jval) list"

type_synonym hold_index = "(string \<times> (string \<times> dict) list) list"

record sync_world =
  sw_seal :: "string \<Rightarrow> string \<Rightarrow> string \<Rightarrow> string option"
  sw_open :: "string \<Rightarrow> string \<Rightarrow> string \<Rightarrow> string option"
  sw_digest :: "jval \<Rightarrow> string"
  sw_canonical :: "jval \<Rightarrow> string"
  sw_dumps :: "jval \<Rightarrow> string"
  sw_loads :: "string \<Rightarrow> jval option"
  sw_str :: "jval \<Rightarrow> string"
  sw_present :: "string \<Rightarrow> (string \<Rightarrow> jval \<Rightarrow> dict \<Rightarrow> string + dict) option"

record holds =
  ho_index :: "jval option"
  ho_stash :: "((string \<times> string) \<times> string) list"

definition MAX_HOLDS_PER_SCOPE :: nat where "MAX_HOLDS_PER_SCOPE = 64"
definition MAX_SUMMARY_BYTES :: int where "MAX_SUMMARY_BYTES = 192 * 1024"
definition BRIEF_BYTES :: int where "BRIEF_BYTES = 2048"
definition PENDING :: string where "PENDING = ''pending''"
definition REJECTED :: string where "REJECTED = ''rejected''"
definition APPROVED :: string where "APPROVED = ''approved''"
definition KIND_NEW :: string where "KIND_NEW = ''new''"
definition KIND_CHANGED :: string where "KIND_CHANGED = ''changed''"
definition RETIRED_SCOPES :: "string list" where "RETIRED_SCOPES = [''memory'']"
definition DETAIL_ONLY :: "string list" where "DETAIL_ONLY = [''memory'']"
definition DELETE_PAYLOAD :: jval where "DELETE_PAYLOAD = JDict [(''$delete'', JBool True)]"

definition STUB_KEYS :: "string list" where
  "STUB_KEYS = [''truncated'', ''argsTruncated'', ''envTruncated'', ''headersTruncated'', ''filesTruncated'']"

fun object_entries :: "(string \<times> jval) list \<Rightarrow> (string \<times> dict) list" where
  "object_entries [] = []"
| "object_entries ((k, JDict d) # rest) = (k, d) # object_entries rest"
| "object_entries (kv # rest) = object_entries rest"

definition read_index :: "holds \<Rightarrow> hold_index" where
  "read_index h =
     (case ho_index h of
        Some (JDict d) \<Rightarrow> map (\<lambda>(scope, entries). (scope, object_entries entries)) (object_entries d)
      | _ \<Rightarrow> [])"

definition rows_json :: "(string \<times> dict) list \<Rightarrow> jval" where
  "rows_json entries = JDict (map (\<lambda>(k, d). (k, JDict d)) entries)"

definition write_index :: "hold_index \<Rightarrow> holds \<Rightarrow> holds" where
  "write_index idx h =
     h\<lparr>ho_index := Some (JDict (map (\<lambda>(scope, entries). (scope, rows_json entries)) (filter (\<lambda>se. snd se \<noteq> []) idx)))\<rparr>"

definition scope_rows :: "string \<Rightarrow> holds \<Rightarrow> (string \<times> dict) list" where
  "scope_rows scope h = (case dget (read_index h) scope of None \<Rightarrow> [] | Some es \<Rightarrow> es)"

definition hold_entry :: "string \<Rightarrow> string \<Rightarrow> holds \<Rightarrow> dict option" where
  "hold_entry scope item h = dget (scope_rows scope h) item"

text \<open>\<open>record.get(key, default)\<close>.\<close>

definition jget_or :: "dict \<Rightarrow> string \<Rightarrow> jval \<Rightarrow> jval" where
  "jget_or d k v = (case dget d k of None \<Rightarrow> v | Some x \<Rightarrow> x)"


section \<open>Tokens and summaries\<close>

definition approval_token :: "'z sync_world_scheme \<Rightarrow> string \<Rightarrow> string \<Rightarrow> string \<Rightarrow> string option" where
  "approval_token w scope item d = sw_seal w (''approval:'' @ scope) item (''approved:'' @ d)"

definition digest_text :: "'z sync_world_scheme \<Rightarrow> dict \<Rightarrow> string" where
  "digest_text w r = (case jget_or r ''digest'' (JStr []) of JStr d \<Rightarrow> d | v \<Rightarrow> sw_str w v)"

definition token_ok :: "'z sync_world_scheme \<Rightarrow> string \<Rightarrow> string \<Rightarrow> dict \<Rightarrow> bool" where
  "token_ok w scope item r =
     (case jget r ''token'' of
        JStr t \<Rightarrow> t \<noteq> [] \<and> sw_open w t (''approval:'' @ scope) item = Some (''approved:'' @ digest_text w r)
      | _ \<Rightarrow> False)"

definition seal_summary :: "'z sync_world_scheme \<Rightarrow> string \<Rightarrow> string \<Rightarrow> dict \<Rightarrow> string option" where
  "seal_summary w scope item summary = sw_seal w (''summary:'' @ scope) item (sw_dumps w (JDict summary))"

definition open_summary :: "'z sync_world_scheme \<Rightarrow> string \<Rightarrow> string \<Rightarrow> dict \<Rightarrow> dict option" where
  "open_summary w scope item r =
     (case jget r ''summary'' of
        JStr t \<Rightarrow>
          (case sw_open w t (''summary:'' @ scope) item of
             None \<Rightarrow> None
           | Some p \<Rightarrow> (case sw_loads w p of Some (JDict d) \<Rightarrow> Some d | _ \<Rightarrow> None))
      | _ \<Rightarrow> None)"

definition is_stub :: "dict \<Rightarrow> bool" where
  "is_stub summary = list_ex (\<lambda>k. has_key k summary) STUB_KEYS"

definition displayable :: "dict option \<Rightarrow> bool" where
  "displayable summary = (case summary of None \<Rightarrow> False | Some d \<Rightarrow> \<not> is_stub d \<and> \<not> has_key ''unavailable'' d)"

definition summary_size :: "'z sync_world_scheme \<Rightarrow> dict \<Rightarrow> int" where
  "summary_size w d = int (length (sw_dumps w (JDict d)))"

definition showable :: "'z sync_world_scheme \<Rightarrow> dict \<Rightarrow> bool" where
  "showable w d = (displayable (Some d) \<and> summary_size w d \<le> MAX_SUMMARY_BYTES)"

text \<open>The payload of a hold; a JSON \<open>null\<close> reads as none.\<close>

definition held_payload :: "'z sync_world_scheme \<Rightarrow> string \<Rightarrow> string \<Rightarrow> holds \<Rightarrow> jval option" where
  "held_payload w scope item h =
     (case dget (ho_stash h) (scope, item) of
        None \<Rightarrow> None
      | Some sealed \<Rightarrow>
          (case sw_open w sealed scope item of
             None \<Rightarrow> None
           | Some p \<Rightarrow> (case sw_loads w p of None \<Rightarrow> None | Some v \<Rightarrow> if v = JNull then None else Some v)))"

definition presented :: "'z sync_world_scheme \<Rightarrow> string \<Rightarrow> string \<Rightarrow> dict option \<Rightarrow> holds \<Rightarrow> dict option" where
  "presented w scope item summary h =
     (case (sw_present w scope, summary, held_payload w scope item h) of
        (Some f, Some d, Some payload) \<Rightarrow>
          (case f item payload d of
             Inr shown \<Rightarrow> Some shown
           | Inl err \<Rightarrow> Some (dset ''unavailable'' (JStr (''it could not be shown here: '' @ err)) d))
      | _ \<Rightarrow> summary)"


section \<open>Filing and dropping\<close>

definition row_status :: "dict \<Rightarrow> jval" where
  "row_status r = jget r ''status''"

definition waiting :: "(string \<times> dict) list \<Rightarrow> nat" where
  "waiting es = length (filter (\<lambda>e. row_status (snd e) \<noteq> JStr REJECTED) es)"

definition full_scopes :: "holds \<Rightarrow> string list" where
  "full_scopes h = sort (map fst (filter (\<lambda>se. MAX_HOLDS_PER_SCOPE \<le> waiting (snd se)) (read_index h)))"

text \<open>How the writes of a step go: both files, neither, or the payload only.\<close>

datatype disk = DiskOk | StashFails | IndexFails

definition hold_row :: "'z sync_world_scheme \<Rightarrow> jval \<Rightarrow> jval option \<Rightarrow> string \<Rightarrow> string \<Rightarrow> int \<Rightarrow> dict" where
  "hold_row w payload local kind sealed now =
     [(''digest'', JStr (sw_digest w payload)), (''base'', JStr (case local of None \<Rightarrow> [] | Some v \<Rightarrow> sw_digest w v)),
      (''status'', JStr PENDING), (''kind'', JStr kind), (''summary'', JStr sealed), (''at'', JInt now)]"

definition hold_new ::
  "'z sync_world_scheme \<Rightarrow> bool \<Rightarrow> disk \<Rightarrow> int \<Rightarrow> string \<Rightarrow> string \<Rightarrow> jval \<Rightarrow> jval option \<Rightarrow> string \<Rightarrow> dict \<Rightarrow> holds \<Rightarrow> holds \<times> bool" where
  "hold_new w stale disk now scope item payload local kind summary h =
     (if stale then (h, False)
      else if is_stub summary \<or> MAX_SUMMARY_BYTES < summary_size w summary then (h, False)
      else
        (let entries = scope_rows scope h; replacing = dget entries item in
         if (case replacing of None \<Rightarrow> True | Some r \<Rightarrow> row_status r = JStr REJECTED) \<and> MAX_HOLDS_PER_SCOPE \<le> waiting entries then (h, False)
         else case sw_seal w scope item (sw_canonical w payload) of
           None \<Rightarrow> (h, False)
         | Some sealed \<Rightarrow>
             if disk = StashFails then (h, False)
             else
               (let h1 = h\<lparr>ho_stash := dset (scope, item) sealed (ho_stash h)\<rparr> in
                case seal_summary w scope item summary of
                  None \<Rightarrow> (h1, False)
                | Some ss \<Rightarrow>
                    if disk = IndexFails then (h1, False)
                    else (write_index (dset scope (dset item (hold_row w payload local kind ss now) entries) (read_index h1)) h1, True))))"

definition drop_hold :: "string \<Rightarrow> string \<Rightarrow> holds \<Rightarrow> holds" where
  "drop_hold scope item h =
     (let entries = scope_rows scope h;
          h1 = (if has_key item entries then write_index (dset scope (dpop item entries) (read_index h)) h else h)
      in h1\<lparr>ho_stash := dpop (scope, item) (ho_stash h1)\<rparr>)"

definition set_hold_status :: "string \<Rightarrow> string \<Rightarrow> string \<Rightarrow> string option \<Rightarrow> holds \<Rightarrow> holds" where
  "set_hold_status scope item status token h =
     (case hold_entry scope item h of
        None \<Rightarrow> h
      | Some r \<Rightarrow>
          (let r1 = dset ''status'' (JStr status) r;
               r2 = (case token of Some t \<Rightarrow> if t = [] then dpop ''token'' r1 else dset ''token'' (JStr t) r1 | None \<Rightarrow> dpop ''token'' r1)
           in write_index (dset scope (dset item r2 (scope_rows scope h)) (read_index h)) h))"

definition update_summary :: "'z sync_world_scheme \<Rightarrow> string \<Rightarrow> string \<Rightarrow> string \<Rightarrow> dict \<Rightarrow> holds \<Rightarrow> (holds \<times> bool) option" where
  "update_summary w scope item d summary h =
     (let s1 = (if is_stub summary \<or> MAX_SUMMARY_BYTES < summary_size w summary
                then [(''name'', jget summary ''name''), (''unavailable'', JStr ''the review is too large to show'')] else summary)
      in case hold_entry scope item h of
           None \<Rightarrow> Some (h, False)
         | Some r \<Rightarrow>
             if jget r ''digest'' \<noteq> JStr d then Some (h, False)
             else case seal_summary w scope item s1 of
               None \<Rightarrow> None
             | Some ss \<Rightarrow> Some (write_index (dset scope (dset item (dset ''summary'' (JStr ss) r) (scope_rows scope h)) (read_index h)) h, True))"

definition is_approved :: "'z sync_world_scheme \<Rightarrow> string \<Rightarrow> string \<Rightarrow> jval \<Rightarrow> holds \<Rightarrow> bool" where
  "is_approved w scope item payload h =
     (case hold_entry scope item h of
        None \<Rightarrow> False
      | Some r \<Rightarrow> row_status r = JStr APPROVED \<and> jget r ''digest'' = JStr (sw_digest w payload) \<and> token_ok w scope item r)"

definition is_rejected :: "'z sync_world_scheme \<Rightarrow> string \<Rightarrow> string \<Rightarrow> jval \<Rightarrow> holds \<Rightarrow> bool" where
  "is_rejected w scope item payload h =
     (case hold_entry scope item h of
        None \<Rightarrow> False
      | Some r \<Rightarrow> row_status r = JStr REJECTED \<and> jget r ''digest'' = JStr (sw_digest w payload))"

definition forget_approvals :: "string option \<Rightarrow> holds \<Rightarrow> holds" where
  "forget_approvals scope h =
     (let idx = read_index h; scopes = (case scope of None \<Rightarrow> map fst idx | Some s \<Rightarrow> [s])
      in write_index (filter (\<lambda>se. fst se \<notin> set scopes) idx)
           (h\<lparr>ho_stash := filter (\<lambda>e. \<not> (fst (fst e) \<in> set scopes \<and> hold_entry (fst (fst e)) (snd (fst e)) h \<noteq> None)) (ho_stash h)\<rparr>))"


section \<open>What the engine sees\<close>

definition local_digest :: "'z sync_world_scheme \<Rightarrow> jval option \<Rightarrow> string" where
  "local_digest w local = (case local of None \<Rightarrow> [] | Some v \<Rightarrow> sw_digest w v)"

text \<open>One held item: the snapshot with the held payload in place of the local one.\<close>

definition overlay_item ::
  "'z sync_world_scheme \<Rightarrow> string \<Rightarrow> (string \<times> jval) list \<Rightarrow> string \<times> dict \<Rightarrow> (string \<times> jval) list \<times> holds \<Rightarrow> (string \<times> jval) list \<times> holds" where
  "overlay_item w scope snapshot held acc =
     (case (held, acc) of ((item, r), (out, h)) \<Rightarrow>
        if JStr (local_digest w (dget snapshot item)) \<noteq> jget_or r ''base'' (JStr []) then (out, drop_hold scope item h)
        else case held_payload w scope item h of
          None \<Rightarrow> (out, h)
        | Some payload \<Rightarrow> if py_eq payload DELETE_PAYLOAD then (dpop item out, h) else (dset item payload out, h))"

definition overlay :: "'z sync_world_scheme \<Rightarrow> string \<Rightarrow> (string \<times> jval) list \<Rightarrow> holds \<Rightarrow> (string \<times> jval) list \<times> holds" where
  "overlay w scope snapshot h = foldl (\<lambda>acc held. overlay_item w scope snapshot held acc) (snapshot, h) (scope_rows scope h)"

definition withheld :: "'z sync_world_scheme \<Rightarrow> string \<Rightarrow> holds \<Rightarrow> string list" where
  "withheld w scope h = sort (map fst (filter (\<lambda>e. held_payload w scope (fst e) h = None) (scope_rows scope h)))"


section \<open>What the user sees and decides\<close>

record held_view =
  hv_scope :: string
  hv_item :: string
  hv_digest :: jval
  hv_status :: jval
  hv_kind :: jval
  hv_summary :: dict
  hv_displayable :: bool
  hv_collapsed :: bool
  hv_at :: jval

text \<open>\<open>_row\<close>: a presenter may have the stored summary replaced; nothing when the new one cannot be sealed.\<close>

definition hold_view :: "'z sync_world_scheme \<Rightarrow> bool \<Rightarrow> string \<Rightarrow> string \<Rightarrow> dict \<Rightarrow> holds \<Rightarrow> (holds \<times> held_view) option" where
  "hold_view w brief scope item r h =
     (let stored = open_summary w scope item r;
          quick = (brief \<and> scope \<in> set DETAIL_ONLY);
          full = (if quick then stored else presented w scope item stored h);
          persist = (if quick then None else case full of None \<Rightarrow> None | Some d \<Rightarrow> dget d ''persist'');
          summary = (if quick then full else map_option (dpop ''persist'') full);
          h1 = (case (persist, stored) of
                  (Some (JDict p), Some d) \<Rightarrow>
                    if list_ex (\<lambda>(k, v). \<not> py_eq (jget d k) v) p
                    then map_option fst (update_summary w scope item (digest_text w r) (foldl (\<lambda>acc kv. dset (fst kv) (snd kv) acc) d p) h)
                    else Some h
                | _ \<Rightarrow> Some h);
          small = (case summary of None \<Rightarrow> False | Some d \<Rightarrow> brief \<and> BRIEF_BYTES < summary_size w d)
      in map_option (\<lambda>h2. (h2,
           \<lparr>hv_scope = scope, hv_item = item, hv_digest = jget_or r ''digest'' (JStr []), hv_status = jget_or r ''status'' (JStr PENDING),
            hv_kind = jget_or r ''kind'' (JStr KIND_NEW),
            hv_summary = (case summary of None \<Rightarrow> []
              | Some d \<Rightarrow> if small then filter (\<lambda>kv. int (length (sw_dumps w (snd kv))) \<le> 256) d else d),
            hv_displayable = displayable summary, hv_collapsed = (quick \<or> small), hv_at = jget_or r ''at'' (JInt 0)\<rparr>)) h1)"

datatype approval_error = ScopeRetired | NothingWaiting | ChangedSinceShown | ChangedHere | DefaultMoved | NotShowable | NotOpenable | NoKey

definition detail :: "'z sync_world_scheme \<Rightarrow> string \<Rightarrow> string \<Rightarrow> holds \<Rightarrow> approval_error + (holds \<times> held_view)" where
  "detail w scope item h =
     (case hold_entry scope item h of
        None \<Rightarrow> Inl NothingWaiting
      | Some r \<Rightarrow>
          if scope \<in> set RETIRED_SCOPES then Inl NothingWaiting
          else (case hold_view w False scope item r h of None \<Rightarrow> Inl NoKey | Some v \<Rightarrow> Inr v))"

fun hold_views :: "'z sync_world_scheme \<Rightarrow> bool \<Rightarrow> (string \<times> string \<times> dict) list \<Rightarrow> holds \<Rightarrow> (holds \<times> held_view list) option" where
  "hold_views w brief [] h = Some (h, [])"
| "hold_views w brief ((scope, item, r) # rest) h =
     (case hold_view w brief scope item r h of
        None \<Rightarrow> None
      | Some (h1, v) \<Rightarrow> map_option (\<lambda>(h2, vs). (h2, v # vs)) (hold_views w brief rest h1))"

definition listing :: "'z sync_world_scheme \<Rightarrow> bool \<Rightarrow> holds \<Rightarrow> (holds \<times> held_view list) option" where
  "listing w brief h =
     hold_views w brief (concat (map (\<lambda>(scope, es). map (\<lambda>(item, r). (scope, item, r)) (sort_key fst es))
       (sort_key fst (filter (\<lambda>se. fst se \<notin> set RETIRED_SCOPES) (read_index h))))) h"

text \<open>
  The decision, up to the landing of an approved payload. \<open>local\<close>: the item as the adapter reads it now, when it has a reader.
\<close>

definition flip_default :: "jval \<Rightarrow> jval" where
  "flip_default v = (case v of JDict d \<Rightarrow> JDict (dset ''isDefault'' (JBool (\<not> truthy (jget d ''isDefault''))) d) | x \<Rightarrow> x)"

definition decide_hold ::
  "'z sync_world_scheme \<Rightarrow> string \<Rightarrow> jval option option \<Rightarrow> string \<Rightarrow> bool \<Rightarrow> string \<Rightarrow> holds \<Rightarrow> holds \<times> (approval_error + jval option)" where
  "decide_hold w scope local item approve shown h =
     (if scope \<in> set RETIRED_SCOPES then (h, Inl ScopeRetired)
      else case hold_entry scope item h of
        None \<Rightarrow> (h, Inl NothingWaiting)
      | Some r \<Rightarrow>
          if shown = [] \<or> jget r ''digest'' \<noteq> JStr shown then (h, Inl ChangedSinceShown)
          else if \<not> approve then (set_hold_status scope item REJECTED None h, Inr None)
          else if (case local of None \<Rightarrow> False | Some mine \<Rightarrow> JStr (local_digest w mine) \<noteq> jget_or r ''base'' (JStr [])) then
            (h, Inl (case local of Some (Some (JDict d)) \<Rightarrow>
                  if jget r ''base'' = JStr (sw_digest w (flip_default (JDict d))) then DefaultMoved else ChangedHere
                | _ \<Rightarrow> ChangedHere))
          else if \<not> displayable (map_option (dpop ''persist'') (presented w scope item (open_summary w scope item r) h)) then (h, Inl NotShowable)
          else (case held_payload w scope item h of
             None \<Rightarrow> (h, Inl NotOpenable)
           | Some payload \<Rightarrow>
               if sw_digest w payload \<noteq> shown then (h, Inl NotOpenable)
               else (case approval_token w scope item shown of
                  None \<Rightarrow> (h, Inl NoKey)
                | Some t \<Rightarrow> (set_hold_status scope item APPROVED (Some t) h, Inr (Some payload)))))"

text \<open>\<open>land\<close>, after the adapter's \<open>apply\<close>: it took or refused the record, waits for files, failed with a sync error, or raised another one.\<close>

datatype apply_result = Taken | Refused | Deferred | Failed | Raised

definition land_hold :: "string \<Rightarrow> string \<Rightarrow> apply_result \<Rightarrow> holds \<Rightarrow> holds" where
  "land_hold scope item result h =
     (case result of
        Taken \<Rightarrow> drop_hold scope item h
      | Deferred \<Rightarrow> h
      | Raised \<Rightarrow> h
      | _ \<Rightarrow> set_hold_status scope item PENDING None h)"

end
