(* ===== verification/Sync_Mcp.thy ===== *)
theory Sync_Mcp
  imports Sync_Approvals
begin

text \<open>
  \<open>McpScope\<close> of \<open>backend/agent_team_backend/sync_scopes.py\<close>: the MCP servers a device of the account sends, which of their changes wait for
  the user, and the steps of a machine that receives them. The validation of a whole document (pydantic) and the test for invisible characters
  (the Unicode database) are arguments. Text is a list of bytes; the reload of the running servers is left out.
\<close>

section \<open>Which changes wait\<close>

record mcp_world = sync_world +
  mw_validate :: "dict list \<Rightarrow> dict list option"
  mw_invisible :: "string \<Rightarrow> bool"

definition ascii_upper :: "char \<Rightarrow> char" where
  "ascii_upper c = (if (CHR ''a'') \<le> c \<and> c \<le> (CHR ''z'') then char_of (of_char c - (32 :: nat)) else c)"

definition py_upper :: "string \<Rightarrow> string" where
  "py_upper s = map ascii_upper s"

definition starts_with :: "string \<Rightarrow> string \<Rightarrow> bool" where
  "starts_with p s = (take (length p) s = p)"

definition ends_with :: "string \<Rightarrow> string \<Rightarrow> bool" where
  "ends_with p s = (length p \<le> length s \<and> drop (length s - length p) s = p)"

text \<open>The names without the underscores at their ends, as the test uses them.\<close>

definition EXEC_ENV_NAMES :: "string list" where
  "EXEC_ENV_NAMES = [''PATH'', ''NODE_OPTIONS'', ''NODE_PATH'', ''RUBYOPT'', ''PERL5OPT'', ''JAVA_TOOL_OPTIONS'', ''JAVA_OPTIONS'', ''CLASSPATH'', ''SHELL'', ''HOME'']"

definition EXEC_ENV_PREFIXES :: "string list" where
  "EXEC_ENV_PREFIXES = [''PYTHON'', ''DYLD_'', ''LD_'', ''NPM_CONFIG_'', ''UV_'', ''BUN_'', ''DENO_'', ''GIT_'']"

definition EXEC_ENV_SUFFIXES :: "string list" where
  "EXEC_ENV_SUFFIXES = [''_OPTIONS'', ''_OPTS'', ''_PATH'', ''_HOME'']"

definition SECRET_ENV_SUFFIXES :: "string list" where
  "SECRET_ENV_SUFFIXES = [''_TOKEN'', ''_API_KEY'', ''_SECRET'', ''_PASSWORD'']"

definition MAX_SYNCED_ENV :: nat where "MAX_SYNCED_ENV = 64"
definition MAX_SYNCED_NAME :: nat where "MAX_SYNCED_NAME = 128"

definition env_runs :: "string \<Rightarrow> bool" where
  "env_runs name =
     (let upper = py_upper name in
      list_ex (\<lambda>p. starts_with p upper) EXEC_ENV_PREFIXES \<or> list_ex (\<lambda>p. ends_with p upper) EXEC_ENV_SUFFIXES \<or>
      list_ex (\<lambda>n. py_in (''_'' @ n @ ''_'') (''_'' @ upper @ ''_'')) EXEC_ENV_NAMES)"

definition env_secret :: "string \<Rightarrow> bool" where
  "env_secret name = list_ex (\<lambda>p. ends_with p (py_upper name)) SECRET_ENV_SUFFIXES"

definition opaque_value :: "jval \<Rightarrow> bool" where
  "opaque_value v =
     (case v of
        JStr s \<Rightarrow> \<not> list_ex (\<lambda>c. c \<in> {CHR ''/'', CHR 0x5C, CHR ''=''} \<or> py_isspace c) s \<and> \<not> py_in ''.JSON'' (py_upper s)
      | _ \<Rightarrow> False)"

definition env_rotates :: "string \<Rightarrow> jval \<Rightarrow> jval \<Rightarrow> bool" where
  "env_rotates name old new = (env_secret name \<and> \<not> env_runs name \<and> opaque_value old \<and> opaque_value new)"

definition name_list :: "jval \<Rightarrow> jval" where
  "name_list v = (case v of JDict d \<Rightarrow> JList (map JStr (sort (map fst d))) | x \<Rightarrow> x)"

definition mcp_runs :: "dict \<Rightarrow> dict" where
  "mcp_runs server =
     filter (\<lambda>kv. fst kv \<notin> {''enabled'', ''env'', ''headers''}) server @
     [(''env'', name_list (jget server ''env'')), (''headers'', name_list (jget server ''headers''))]"

text \<open>Nothing when the code raises: an \<open>env\<close> that is not an object.\<close>

definition env_dict :: "dict \<Rightarrow> dict option" where
  "env_dict server = (case jget server ''env'' of JDict d \<Rightarrow> Some d | v \<Rightarrow> if truthy v then None else Some [])"

definition mcp_needs_approval :: "dict option \<Rightarrow> dict \<Rightarrow> bool option" where
  "mcp_needs_approval local incoming =
     (case local of
        None \<Rightarrow> Some True
      | Some mine \<Rightarrow>
          if \<not> py_eq (JDict (mcp_runs mine)) (JDict (mcp_runs incoming)) then Some True
          else if jget mine ''enabled'' = JBool False \<and> jget_or incoming ''enabled'' (JBool True) \<noteq> JBool False then Some True
          else case (env_dict mine, env_dict incoming) of
            (_, Some []) \<Rightarrow> Some False
          | (Some me, Some ie) \<Rightarrow> Some (list_ex (\<lambda>(name, v). \<not> py_eq (jget me name) (jget ie name) \<and> \<not> env_rotates name (jget me name) (jget ie name)) ie)
          | _ \<Rightarrow> None)"

definition mcp_hides :: "'a mcp_world_scheme \<Rightarrow> dict \<Rightarrow> bool" where
  "mcp_hides w server =
     list_ex (\<lambda>v. case v of JStr s \<Rightarrow> mw_invisible w s | _ \<Rightarrow> False)
       ([jget server ''command'', jget server ''url''] @ (case jget server ''args'' of JList xs \<Rightarrow> xs | _ \<Rightarrow> []))"

datatype mcp_problem = HiddenCharacters | TooManyNames string | LongName string

definition names_problem :: "dict \<Rightarrow> string \<Rightarrow> mcp_problem option" where
  "names_problem server key =
     (case jget server key of
        JDict d \<Rightarrow>
          if MAX_SYNCED_ENV < length d then Some (TooManyNames key)
          else if list_ex (\<lambda>kv. MAX_SYNCED_NAME < length (fst kv)) d then Some (LongName key) else None
      | _ \<Rightarrow> None)"

definition mcp_record_problem :: "'a mcp_world_scheme \<Rightarrow> dict \<Rightarrow> mcp_problem option" where
  "mcp_record_problem w server =
     (if mcp_hides w server then Some HiddenCharacters
      else case names_problem server ''env'' of Some p \<Rightarrow> Some p | None \<Rightarrow> names_problem server ''headers'')"

definition server_at :: "string \<Rightarrow> dict list \<Rightarrow> dict option" where
  "server_at item servers = find (\<lambda>s. jget s ''name'' = JStr item) servers"

fun put_first :: "('a \<Rightarrow> bool) \<Rightarrow> 'a \<Rightarrow> 'a list \<Rightarrow> 'a list" where
  "put_first P y [] = [y]"
| "put_first P y (x # xs) = (if P x then y # xs else x # put_first P y xs)"

fun drop_first :: "('a \<Rightarrow> bool) \<Rightarrow> 'a list \<Rightarrow> 'a list" where
  "drop_first P [] = []"
| "drop_first P (x # xs) = (if P x then xs else x # drop_first P xs)"

definition put_server :: "string \<Rightarrow> dict \<Rightarrow> dict list \<Rightarrow> dict list" where
  "put_server item incoming servers = put_first (\<lambda>s. jget s ''name'' = JStr item) incoming servers"

definition mcp_valid :: "'a mcp_world_scheme \<Rightarrow> string \<Rightarrow> dict \<Rightarrow> dict list \<Rightarrow> bool" where
  "mcp_valid w item incoming servers = (mcp_record_problem w incoming = None \<and> mw_validate w (put_server item incoming servers) \<noteq> None)"

text \<open>Six bullets in UTF-8.\<close>

definition MASKED_VALUE :: string where
  "MASKED_VALUE = concat (replicate 6 [CHR 0xE2, CHR 0x80, CHR 0xA2])"

definition mcp_summary :: "string \<Rightarrow> dict \<Rightarrow> dict" where
  "mcp_summary name server =
     [(''name'', JStr name)] @
     map (\<lambda>k. (k, jget server k)) (filter (\<lambda>k. jget server k \<notin> {JNull, JStr []}) [''transport'', ''command'', ''url'', ''cwd'']) @
     (case jget server ''args'' of JList xs \<Rightarrow> [(''args'', JList xs)] | _ \<Rightarrow> []) @
     (case jget server ''env'' of
        JDict (kv # d) \<Rightarrow> [(''env'', JDict (map (\<lambda>(k, v). (k, if env_secret k then JStr MASKED_VALUE else v)) (sort_key fst (kv # d))))] | _ \<Rightarrow> []) @
     (case jget server ''headers'' of
        JDict (kv # d) \<Rightarrow> [(''headers'', JDict (map (\<lambda>(k, v). (k, JStr MASKED_VALUE)) (sort_key fst (kv # d))))] | _ \<Rightarrow> []) @
     (if jget server ''enabled'' = JBool False then [(''enabled'', JBool False)] else [])"


section \<open>Applying a record\<close>

text \<open>
  The machine: what waits, the servers of the store, and the approved payloads a decision has still to land. \<open>ms_decided\<close> records the digests the user approved;
  nothing reads it.
\<close>

record mcp_sync =
  ms_holds :: holds
  ms_servers :: "dict list"
  ms_landing :: "(string \<times> jval) list"
  ms_decided :: "(string \<times> string) list"

definition mcp_scope :: string where "mcp_scope = ''mcp''"

definition store_servers :: "'a mcp_world_scheme \<Rightarrow> dict list \<Rightarrow> mcp_sync \<Rightarrow> mcp_sync \<times> apply_result" where
  "store_servers w servers st =
     (case mw_validate w servers of None \<Rightarrow> (st, Refused) | Some saved \<Rightarrow> (st\<lparr>ms_servers := saved\<rparr>, Taken))"

definition mcp_apply :: "mcp_world \<Rightarrow> bool \<Rightarrow> bool \<Rightarrow> disk \<Rightarrow> int \<Rightarrow> string \<Rightarrow> jval option \<Rightarrow> mcp_sync \<Rightarrow> mcp_sync \<times> apply_result" where
  "mcp_apply w gate stale disk now item payload st =
     (let servers = ms_servers st; local = server_at item servers in
      case payload of
        None \<Rightarrow>
          (let st1 = st\<lparr>ms_holds := drop_hold mcp_scope item (ms_holds st)\<rparr>
           in if local = None then (st1, Taken)
              else store_servers w (drop_first (\<lambda>s. jget s ''name'' = JStr item) servers) st1)
      | Some (JDict p) \<Rightarrow>
          (let incoming = dset ''name'' (JStr item) p in
           case (if gate then mcp_needs_approval local incoming else Some False) of
             None \<Rightarrow> (st, Raised)
           | Some ask \<Rightarrow>
               if ask \<and> \<not> is_approved w mcp_scope item (JDict p) (ms_holds st) then
                 (if \<not> mcp_valid w item incoming servers then (st, Refused)
                  else if is_rejected w mcp_scope item (JDict p) (ms_holds st) then (st, Taken)
                  else
                    (case hold_new w stale disk now mcp_scope item (JDict p) (map_option JDict local)
                        (if local = None then KIND_NEW else KIND_CHANGED) (mcp_summary item p) (ms_holds st) of
                       (h, ok) \<Rightarrow> (st\<lparr>ms_holds := h\<rparr>, if ok then Taken else Refused)))
               else if gate \<and> mcp_hides w p then (st, Failed)
               else store_servers w (put_server item incoming servers) st)
      | Some v \<Rightarrow> (st, Refused))"


section \<open>Runs\<close>

text \<open>
  The machine's steps: a record arrives (or its deletion), the user decides, an approved payload lands, the user saves the servers in the settings, the engine
  takes its snapshot, the approvals are dropped on a change of the account, and the files are edited by somebody else.
\<close>

datatype mcp_op =
    Arrive bool disk int string "jval option"
  | Decide string bool string
  | Land bool disk int nat
  | SaveServers "dict list"
  | Snapshot
  | ForgetAll
  | EditIndex "jval option"
  | EditStash string "string option"

definition decide_step :: "mcp_world \<Rightarrow> string \<Rightarrow> bool \<Rightarrow> string \<Rightarrow> mcp_sync \<Rightarrow> mcp_sync" where
  "decide_step w item approve shown st =
     (case decide_hold w mcp_scope (Some (map_option JDict (server_at item (ms_servers st)))) item approve shown (ms_holds st) of
        (h, Inr (Some payload)) \<Rightarrow> st\<lparr>ms_holds := h, ms_landing := ms_landing st @ [(item, payload)], ms_decided := ms_decided st @ [(item, shown)]\<rparr>
      | (h, _) \<Rightarrow> st\<lparr>ms_holds := h\<rparr>)"

definition land_step :: "mcp_world \<Rightarrow> bool \<Rightarrow> disk \<Rightarrow> int \<Rightarrow> nat \<Rightarrow> mcp_sync \<Rightarrow> mcp_sync" where
  "land_step w stale disk now n st =
     (if n < length (ms_landing st)
      then (let (item, payload) = ms_landing st ! n;
                st1 = st\<lparr>ms_landing := take n (ms_landing st) @ drop (Suc n) (ms_landing st)\<rparr>
            in case mcp_apply w True stale disk now item (Some payload) st1 of
                 (st2, result) \<Rightarrow> st2\<lparr>ms_holds := land_hold mcp_scope item result (ms_holds st2)\<rparr>)
      else st)"

definition local_snapshot :: "dict list \<Rightarrow> (string \<times> jval) list" where
  "local_snapshot servers =
     foldl (\<lambda>acc s. case jget s ''name'' of JStr n \<Rightarrow> if n = [] then acc else dset n (JDict s) acc | _ \<Rightarrow> acc) [] servers"

fun mcp_step :: "mcp_world \<Rightarrow> mcp_sync \<Rightarrow> mcp_op \<Rightarrow> mcp_sync" where
  "mcp_step w st (Arrive stale disk now item payload) = fst (mcp_apply w True stale disk now item payload st)"
| "mcp_step w st (Decide item approve shown) = decide_step w item approve shown st"
| "mcp_step w st (Land stale disk now n) = land_step w stale disk now n st"
| "mcp_step w st (SaveServers servers) = fst (store_servers w servers st)"
| "mcp_step w st Snapshot = st\<lparr>ms_holds := snd (overlay w mcp_scope (local_snapshot (ms_servers st)) (ms_holds st))\<rparr>"
| "mcp_step w st ForgetAll = st\<lparr>ms_holds := forget_approvals None (ms_holds st)\<rparr>"
| "mcp_step w st (EditIndex v) = st\<lparr>ms_holds := (ms_holds st)\<lparr>ho_index := v\<rparr>\<rparr>"
| "mcp_step w st (EditStash item sealed) =
     st\<lparr>ms_holds := (ms_holds st)\<lparr>ho_stash := (case sealed of None \<Rightarrow> dpop (mcp_scope, item) (ho_stash (ms_holds st))
        | Some t \<Rightarrow> dset (mcp_scope, item) t (ho_stash (ms_holds st)))\<rparr>\<rparr>"

definition no_sync :: mcp_sync where
  "no_sync = \<lparr>ms_holds = \<lparr>ho_index = None, ho_stash = []\<rparr>, ms_servers = [], ms_landing = [], ms_decided = []\<rparr>"

end
