(* ===== verification/Sync_Promises.thy ===== *)
theory Sync_Promises
  imports Sync_Mcp
begin

text \<open>
  What the approvals promise: a server that another device sends runs here only as the user approved it, a rejection stands, and what waits stands in for the
  local copy.
\<close>

section \<open>The rows of the index\<close>

definition rows_in :: "hold_index \<Rightarrow> (string \<times> string \<times> dict) set" where
  "rows_in idx = {(scope, item, r). \<exists>es. (scope, es) \<in> set idx \<and> (item, r) \<in> set es}"

abbreviation index_rows :: "holds \<Rightarrow> (string \<times> string \<times> dict) set" where
  "index_rows h \<equiv> rows_in (read_index h)"

lemma object_entries_rows: "object_entries (map (\<lambda>(k, d). (k, JDict d)) es) = es"
  by (induction es) auto

lemma object_entries_scopes:
  "object_entries (map (\<lambda>(scope, entries). (scope, rows_json entries)) idx) = map (\<lambda>(scope, es). (scope, map (\<lambda>(k, d). (k, JDict d)) es)) idx"
  by (induction idx) (auto simp: rows_json_def)

lemma read_write [simp]: "read_index (write_index idx h) = filter (\<lambda>se. snd se \<noteq> []) idx"
proof -
  have "map (\<lambda>(scope, entries). (scope, object_entries entries)) (map (\<lambda>(scope, es). (scope, map (\<lambda>(k, d). (k, JDict d)) es)) l) = l" for l :: hold_index
    by (induction l) (auto simp: object_entries_rows)
  moreover have "ho_index (write_index idx h) = Some (JDict (map (\<lambda>(scope, entries). (scope, rows_json entries)) (filter (\<lambda>se. snd se \<noteq> []) idx)))"
    by (simp add: write_index_def)
  ultimately show ?thesis by (simp only: read_index_def object_entries_scopes option.case jval.case)
qed

lemma rows_in_filter [simp]: "rows_in (filter (\<lambda>se. snd se \<noteq> []) idx) = rows_in idx"
  by (fastforce simp: rows_in_def)

lemma scope_rows_in: "(item, r) \<in> set (scope_rows scope h) \<Longrightarrow> (scope, item, r) \<in> index_rows h"
  by (cases "dget (read_index h) scope") (auto simp: scope_rows_def rows_in_def dest: map_of_SomeD)

lemma hold_entry_in: "hold_entry scope item h = Some r \<Longrightarrow> (scope, item, r) \<in> index_rows h"
  unfolding hold_entry_def by (rule scope_rows_in [OF map_of_SomeD])

lemma rows_in_dset: "rows_in (dset scope es idx) \<subseteq> {scope} \<times> set es \<union> rows_in idx"
proof -
  have "set (dset scope es idx) \<subseteq> insert (scope, es) (set idx)" by (rule set_dset_sub)
  then show ?thesis by (fastforce simp: rows_in_def)
qed

text \<open>What a write of one row can add.\<close>

lemma rows_of_put: "index_rows (write_index (dset scope (dset item r (scope_rows scope h)) (read_index h)) h') \<subseteq> insert (scope, item, r) (index_rows h)"
proof -
  have "{scope} \<times> set (dset item r (scope_rows scope h)) \<subseteq> insert (scope, item, r) (index_rows h)"
    using set_dset_sub [of item r "scope_rows scope h"] scope_rows_in [of _ _ scope h] by auto
  with rows_in_dset [of scope "dset item r (scope_rows scope h)" "read_index h"] show ?thesis by auto
qed

lemma rows_of_drop: "index_rows (drop_hold scope item h) \<subseteq> index_rows h"
proof -
  have "{scope} \<times> set (dpop item (scope_rows scope h)) \<subseteq> index_rows h" using scope_rows_in [of _ _ scope h] by (auto simp: set_dpop)
  with rows_in_dset [of scope "dpop item (scope_rows scope h)" "read_index h"]
  have "rows_in (dset scope (dpop item (scope_rows scope h)) (read_index h)) \<subseteq> index_rows h" by auto
  moreover have "read_index (h1\<lparr>ho_stash := x\<rparr>) = read_index h1" for h1 x by (simp add: read_index_def)
  ultimately show ?thesis by (auto simp: drop_hold_def Let_def)
qed

lemma rows_of_status: "(scope', item', r) \<in> index_rows (set_hold_status scope item status token h) \<Longrightarrow>
    (scope', item', r) \<in> index_rows h \<or>
    (scope' = scope \<and> item' = item \<and> jget r ''token'' = (case token of None \<Rightarrow> JNull | Some t \<Rightarrow> if t = [] then JNull else JStr t))"
proof -
  assume a: "(scope', item', r) \<in> index_rows (set_hold_status scope item status token h)"
  show ?thesis
  proof (cases "hold_entry scope item h")
    case None
    with a show ?thesis by (simp add: set_hold_status_def)
  next
    case (Some r0)
    let ?r1 = "dset ''status'' (JStr status) r0"
    let ?r2 = "case token of Some t \<Rightarrow> if t = [] then dpop ''token'' ?r1 else dset ''token'' (JStr t) ?r1 | None \<Rightarrow> dpop ''token'' ?r1"
    have "(scope', item', r) \<in> insert (scope, item, ?r2) (index_rows h)"
      using a rows_of_put [of scope item ?r2 h h] by (auto simp: set_hold_status_def Some Let_def simp del: read_write)
    moreover have "jget ?r2 ''token'' = (case token of None \<Rightarrow> JNull | Some t \<Rightarrow> if t = [] then JNull else JStr t)"
      by (simp add: jget_def split: option.split)
    ultimately show ?thesis by auto
  qed
qed

lemma rows_of_hold: "hold_new w stale disk now scope item payload local kind summary h = (h', b) \<Longrightarrow> (scope', item', r) \<in> index_rows h' \<Longrightarrow>
    (scope', item', r) \<in> index_rows h \<or> jget r ''token'' = JNull"
proof -
  assume e: "hold_new w stale disk now scope item payload local kind summary h = (h', b)" and r: "(scope', item', r) \<in> index_rows h'"
  have st: "read_index (h1\<lparr>ho_stash := x\<rparr>) = read_index h1" "scope_rows s (h1\<lparr>ho_stash := x\<rparr>) = scope_rows s h1" for h1 x s
    by (simp_all add: read_index_def scope_rows_def)
  have tok: "jget (hold_row w payload local kind ss now) ''token'' = JNull" for ss by (simp add: hold_row_def jget_def)
  have "index_rows h' = index_rows h \<or> (\<exists>ss h1. h' = write_index (dset scope (dset item (hold_row w payload local kind ss now) (scope_rows scope h)) (read_index h)) h1)"
    using e unfolding hold_new_def Let_def st
    by (simp del: read_write split: if_split_asm option.split_asm) (auto simp: st simp del: read_write)
  then show ?thesis
  proof (cases "index_rows h' = index_rows h")
    case False
    with \<open>index_rows h' = index_rows h \<or> _\<close> obtain ss h1
      where "h' = write_index (dset scope (dset item (hold_row w payload local kind ss now) (scope_rows scope h)) (read_index h)) h1" by blast
    with r rows_of_put [of scope item "hold_row w payload local kind ss now" h h1] tok show ?thesis by auto
  qed (use r in simp)
qed

lemma rows_of_overlay: "index_rows (snd (overlay w scope snapshot h)) \<subseteq> index_rows h"
proof -
  have "index_rows (snd (foldl (\<lambda>acc held. overlay_item w scope snapshot held acc) (out, h1) es)) \<subseteq> index_rows h1" for out h1 es
  proof (induction es arbitrary: out h1)
    case (Cons e es)
    obtain item r where e: "e = (item, r)" by (cases e)
    obtain out2 h2 where o: "overlay_item w scope snapshot e (out, h1) = (out2, h2)" by fastforce
    then have "h2 = h1 \<or> h2 = drop_hold scope item h1" by (auto simp: overlay_item_def e split: if_splits option.splits)
    with rows_of_drop [of scope item h1] have "index_rows h2 \<subseteq> index_rows h1" by auto
    with Cons.IH [of out2 h2] show ?case by (simp add: o)
  qed simp
  then show ?thesis by (simp add: overlay_def)
qed

lemma rows_of_forget: "index_rows (forget_approvals scope h) \<subseteq> index_rows h"
  by (auto simp: forget_approvals_def Let_def rows_in_def)


section \<open>Approvals come from the user\<close>

text \<open>The account's cipher: what was sealed opens under its own scope and item, and under no other.\<close>

definition sealing_ok :: "'z sync_world_scheme \<Rightarrow> bool" where
  "sealing_ok w = (\<forall>scope item p t scope' item'. sw_seal w scope item p = Some t \<longrightarrow>
     sw_open w t scope' item' = (if scope' = scope \<and> item' = item then Some p else None))"

text \<open>Nobody but the account's devices can seal: a token of an edited index that opens as an approval was sealed by a decision made here.\<close>

definition unforged :: "mcp_world \<Rightarrow> mcp_sync \<Rightarrow> hold_index \<Rightarrow> bool" where
  "unforged w st idx = (\<forall>scope item r t i x. (scope, item, r) \<in> rows_in idx \<longrightarrow> jget r ''token'' = JStr t \<longrightarrow> sw_open w t (''approval:'' @ mcp_scope) i = Some x \<longrightarrow>
     (\<exists>j d. (j, d) \<in> set (ms_decided st) \<and> approval_token w mcp_scope j d = Some t))"

fun legal_op :: "mcp_world \<Rightarrow> mcp_sync \<Rightarrow> mcp_op \<Rightarrow> bool" where
  "legal_op w st (EditIndex v) = unforged w st (read_index \<lparr>ho_index = v, ho_stash = []\<rparr>)"
| "legal_op w st _ = True"

inductive mcp_reach :: "mcp_world \<Rightarrow> mcp_op list \<Rightarrow> mcp_sync \<Rightarrow> bool" for w where
  mcp_start: "mcp_reach w [] (no_sync\<lparr>ms_servers := servers\<rparr>)"
| mcp_more: "mcp_reach w ops st \<Longrightarrow> legal_op w st op \<Longrightarrow> mcp_reach w (ops @ [op]) (mcp_step w st op)"

definition token_inv :: "mcp_world \<Rightarrow> mcp_sync \<Rightarrow> bool" where
  "token_inv w st = (\<forall>item r t x. (mcp_scope, item, r) \<in> index_rows (ms_holds st) \<longrightarrow> jget r ''token'' = JStr t \<longrightarrow>
     sw_open w t (''approval:'' @ mcp_scope) item = Some x \<longrightarrow> (\<exists>d. (item, d) \<in> set (ms_decided st) \<and> x = ''approved:'' @ d))"

lemma token_invI:
  assumes "token_inv w st" and "set (ms_decided st) \<subseteq> set (ms_decided st')"
    and "\<And>item r t. (mcp_scope, item, r) \<in> index_rows (ms_holds st') \<Longrightarrow> jget r ''token'' = JStr t \<Longrightarrow> (mcp_scope, item, r) \<in> index_rows (ms_holds st)"
  shows "token_inv w st'"
  using assms unfolding token_inv_def by (meson subsetD)

lemma store_keeps:
  "store_servers w servers s = (s', r) \<Longrightarrow> ms_holds s' = ms_holds s \<and> ms_decided s' = ms_decided s"
  by (auto simp: store_servers_def split: option.splits)

lemma mcp_apply_moves:
  assumes "mcp_apply w gate stale disk now item payload st = (st', res)"
  shows "ms_decided st' = ms_decided st \<and>
    (ms_holds st' = ms_holds st \<or> ms_holds st' = drop_hold mcp_scope item (ms_holds st) \<or>
     (\<exists>p local kind summary b. hold_new w stale disk now mcp_scope item p local kind summary (ms_holds st) = (ms_holds st', b)))"
proof (cases payload)
  case None
  with assms show ?thesis by (auto simp: mcp_apply_def Let_def dest!: store_keeps split: if_split_asm)
next
  case (Some v)
  show ?thesis
  proof (cases v)
    case (JDict p)
    let ?local = "server_at item (ms_servers st)" and ?in = "dset ''name'' (JStr item) p"
    let ?ask = "if gate then mcp_needs_approval ?local ?in else Some False"
    show ?thesis
    proof (cases ?ask)
      case (Some ask)
      show ?thesis
      proof (cases "ask \<and> \<not> is_approved w mcp_scope item (JDict p) (ms_holds st)")
        case True
        obtain h ok where h: "hold_new w stale disk now mcp_scope item (JDict p) (map_option JDict ?local)
            (if ?local = None then KIND_NEW else KIND_CHANGED) (mcp_summary item p) (ms_holds st) = (h, ok)" by fastforce
        from assms have "st' = st \<or> st' = st\<lparr>ms_holds := h\<rparr>"
          unfolding mcp_apply_def Let_def \<open>payload = Some v\<close> JDict option.case jval.case Some if_P [OF True] h by (simp split: if_split_asm)
        with h show ?thesis by auto
      next
        case False
        with assms show ?thesis
          unfolding mcp_apply_def Let_def \<open>payload = Some v\<close> JDict option.case jval.case Some if_not_P [OF False]
          by (auto dest: store_keeps split: if_split_asm)
      qed
    qed (use assms Some JDict in \<open>simp add: mcp_apply_def\<close>)
  qed (use assms Some in \<open>simp_all add: mcp_apply_def\<close>)
qed

lemma token_apply: "token_inv w st \<Longrightarrow> token_inv w (fst (mcp_apply w gate stale disk now item payload st))"
proof -
  assume inv: "token_inv w st"
  obtain st' res where a: "mcp_apply w gate stale disk now item payload st = (st', res)" by fastforce
  from mcp_apply_moves [OF a] have dec: "ms_decided st' = ms_decided st" by simp
  have "(mcp_scope, i, r) \<in> index_rows (ms_holds st)" if r: "(mcp_scope, i, r) \<in> index_rows (ms_holds st')" "jget r ''token'' = JStr t" for i r t
  proof -
    from mcp_apply_moves [OF a] consider "ms_holds st' = ms_holds st" | "ms_holds st' = drop_hold mcp_scope item (ms_holds st)"
      | p local kind summary b where "hold_new w stale disk now mcp_scope item p local kind summary (ms_holds st) = (ms_holds st', b)" by blast
    then show ?thesis
    proof cases
      case 1
      with r show ?thesis by simp
    next
      case 2
      with r rows_of_drop [of mcp_scope item "ms_holds st"] show ?thesis by auto
    next
      case (3 p local kind summary b)
      from rows_of_hold [OF 3 r(1)] r(2) show ?thesis by auto
    qed
  qed
  then show ?thesis unfolding a fst_conv by (intro token_invI [OF inv]) (simp_all add: dec)
qed

lemma token_status: "token_inv w st \<Longrightarrow> token_inv w (st\<lparr>ms_holds := set_hold_status mcp_scope item status None (ms_holds st)\<rparr>)"
  by (erule token_invI) (auto dest: rows_of_status)

lemma decide_hold_cases:
  assumes "decide_hold w scope local item approve shown h = (h', r)"
  obtains (same) e where "h' = h" "r = Inl e"
  | (rejected) "h' = set_hold_status scope item REJECTED None h" "r = Inr None" "\<not> approve"
  | (approved) row payload t where "hold_entry scope item h = Some row" "jget row ''digest'' = JStr shown" "held_payload w scope item h = Some payload"
      "sw_digest w payload = shown" "approval_token w scope item shown = Some t" "h' = set_hold_status scope item APPROVED (Some t) h"
      "r = Inr (Some payload)" "approve" "displayable (map_option (dpop ''persist'') (presented w scope item (open_summary w scope item row) h))"
proof (cases "scope \<in> set RETIRED_SCOPES \<or> hold_entry scope item h = None")
  case True
  with assms have "h' = h \<and> r = Inl (if scope \<in> set RETIRED_SCOPES then ScopeRetired else NothingWaiting)" by (auto simp: decide_hold_def)
  then show thesis by (intro same) blast+
next
  case False
  then obtain row where row: "hold_entry scope item h = Some row" by blast
  let ?moved = "case local of None \<Rightarrow> False | Some mine \<Rightarrow> JStr (local_digest w mine) \<noteq> jget_or row ''base'' (JStr [])"
  let ?shown = "displayable (map_option (dpop ''persist'') (presented w scope item (open_summary w scope item row) h))"
  have r: "(h', r) = decide_hold w scope local item approve shown h" using assms by simp
  note r = r [unfolded decide_hold_def row if_not_P [OF False [THEN iffD1 [OF de_Morgan_disj], THEN conjunct1]] option.case]
  show thesis
  proof (cases "shown = [] \<or> jget row ''digest'' \<noteq> JStr shown")
    case True
    with r show thesis by (intro same) simp_all
  next
    case dig: False
    note r = r [unfolded if_not_P [OF dig]]
    show thesis
    proof (cases "\<not> approve")
      case True
      with r show thesis by (intro rejected) simp_all
    next
      case ap: False
      note r = r [unfolded if_not_P [OF ap]]
      consider ?moved | "\<not> ?moved" "\<not> ?shown" | "\<not> ?moved" "?shown" by blast
      then show thesis
      proof cases
        case 1
        from r [unfolded if_P [OF 1]] show thesis by (intro same) simp_all
      next
        case 2
        from r [unfolded if_not_P [OF 2(1)] if_P [OF 2(2)]] show thesis by (intro same) simp_all
      next
        case 3
        then have "\<not> \<not> ?shown" by simp
        note r = r [unfolded if_not_P [OF 3(1)] if_not_P [OF this]]
        show thesis
        proof (cases "held_payload w scope item h")
          case None
          with r show thesis by (intro same) simp_all
        next
          case (Some payload)
          note r = r [unfolded Some option.case]
          consider "sw_digest w payload \<noteq> shown" | "sw_digest w payload = shown" "approval_token w scope item shown = None"
            | t where "sw_digest w payload = shown" "approval_token w scope item shown = Some t" by fastforce
          then show thesis
          proof cases
            case (3 t)
            with r Some row dig ap \<open>?shown\<close> show thesis by (intro approved) simp_all
          next
            case 1
            with r show thesis by (intro same) simp_all
          next
            case 2
            with r show thesis by (intro same) simp_all
          qed
        qed
      qed
    qed
  qed
qed

lemma token_decide:
  assumes ok: "sealing_ok w" and inv: "token_inv w st"
  shows "token_inv w (decide_step w item approve shown st)"
proof (cases "decide_hold w mcp_scope (Some (map_option JDict (server_at item (ms_servers st)))) item approve shown (ms_holds st)")
  case (Pair h r)
  from Pair show ?thesis
  proof (cases rule: decide_hold_cases)
    case (same e)
    then show ?thesis using inv by (simp add: decide_step_def Pair)
  next
    case rejected
    show ?thesis unfolding decide_step_def Pair rejected(1,2) using token_status [OF inv] by simp
  next
    case (approved row payload t)
    let ?st = "decide_step w item approve shown st"
    have st: "ms_holds ?st = set_hold_status mcp_scope item APPROVED (Some t) (ms_holds st)" "ms_decided ?st = ms_decided st @ [(item, shown)]"
      by (simp_all add: decide_step_def Pair approved(6,7))
    have t: "sw_open w t (''approval:'' @ mcp_scope) i = (if i = item then Some (''approved:'' @ shown) else None)" for i
      using ok approved(5) by (simp add: sealing_ok_def approval_token_def)
    show ?thesis unfolding token_inv_def
    proof (intro allI impI)
      fix i q u x
      assume q: "(mcp_scope, i, q) \<in> index_rows (ms_holds ?st)" and u: "jget q ''token'' = JStr u" and x: "sw_open w u (''approval:'' @ mcp_scope) i = Some x"
      from rows_of_status [OF q [unfolded st]] consider "(mcp_scope, i, q) \<in> index_rows (ms_holds st)" | "i = item" "u = t"
        using u by (auto split: if_splits)
      then show "\<exists>d. (i, d) \<in> set (ms_decided ?st) \<and> x = ''approved:'' @ d"
      proof cases
        case 1
        with inv u x obtain d where "(i, d) \<in> set (ms_decided st)" "x = ''approved:'' @ d" unfolding token_inv_def by blast
        then show ?thesis by (auto simp: st)
      next
        case 2
        with x t [of i] show ?thesis by (auto simp: st)
      qed
    qed
  qed
qed

lemma token_land: "token_inv w st \<Longrightarrow> token_inv w (land_step w stale disk now n st)"
proof (cases "n < length (ms_landing st)")
  case True
  assume inv: "token_inv w st"
  obtain item payload where i: "ms_landing st ! n = (item, payload)" by (cases "ms_landing st ! n")
  let ?st1 = "st\<lparr>ms_landing := take n (ms_landing st) @ drop (Suc n) (ms_landing st)\<rparr>"
  obtain st2 result where a: "mcp_apply w True stale disk now item (Some payload) ?st1 = (st2, result)" by fastforce
  have "token_inv w ?st1" using inv by (simp add: token_inv_def)
  with token_apply [of w ?st1 True stale disk now item "Some payload"] a have t2: "token_inv w st2" by simp
  have "token_inv w (st2\<lparr>ms_holds := land_hold mcp_scope item result (ms_holds st2)\<rparr>)"
  proof (cases result)
    case Taken
    show ?thesis by (rule token_invI [OF t2]) (use Taken rows_of_drop [of mcp_scope item "ms_holds st2"] in \<open>auto simp: land_hold_def\<close>)
  qed (use t2 token_status [OF t2] in \<open>simp_all add: land_hold_def\<close>)
  then show ?thesis using True by (simp add: land_step_def i a)
qed (simp add: land_step_def)

lemma token_step:
  assumes "sealing_ok w" and "token_inv w st" and "legal_op w st op"
  shows "token_inv w (mcp_step w st op)"
proof (cases op)
  case (SaveServers servers)
  then show ?thesis using assms(2) by (auto simp: store_servers_def token_inv_def split: option.split)
next
  case Snapshot
  show ?thesis by (rule token_invI [OF assms(2)])
    (use Snapshot rows_of_overlay [of w mcp_scope "local_snapshot (ms_servers st)" "ms_holds st"] in auto)
next
  case ForgetAll
  show ?thesis by (rule token_invI [OF assms(2)]) (use ForgetAll rows_of_forget [of None "ms_holds st"] in auto)
next
  case (EditIndex v)
  have r: "read_index ((ms_holds st)\<lparr>ho_index := v\<rparr>) = read_index \<lparr>ho_index = v, ho_stash = []\<rparr>" by (simp add: read_index_def)
  show ?thesis unfolding token_inv_def
  proof (intro allI impI)
    fix i q u x
    assume q: "(mcp_scope, i, q) \<in> index_rows (ms_holds (mcp_step w st op))" "jget q ''token'' = JStr u"
      and x: "sw_open w u (''approval:'' @ mcp_scope) i = Some x"
    then have "(mcp_scope, i, q) \<in> rows_in (read_index \<lparr>ho_index = v, ho_stash = []\<rparr>)" by (simp add: EditIndex r)
    moreover have "unforged w st (read_index \<lparr>ho_index = v, ho_stash = []\<rparr>)" using assms(3) by (simp add: EditIndex)
    ultimately obtain j d where "(j, d) \<in> set (ms_decided st)" "approval_token w mcp_scope j d = Some u"
      using q(2) x unfolding unforged_def by metis
    with x assms(1) show "\<exists>d. (i, d) \<in> set (ms_decided (mcp_step w st op)) \<and> x = ''approved:'' @ d"
      by (auto simp: EditIndex sealing_ok_def approval_token_def split: if_splits)
  qed
next
  case (EditStash item sealed)
  show ?thesis by (rule token_invI [OF assms(2)]) (auto simp: EditStash read_index_def)
qed (use assms in \<open>simp_all add: token_apply token_decide token_land\<close>)

lemma approved_decided:
  assumes "token_inv w st" and "is_approved w mcp_scope item payload (ms_holds st)"
  shows "(item, sw_digest w payload) \<in> set (ms_decided st)"
proof -
  obtain r where r: "hold_entry mcp_scope item (ms_holds st) = Some r" "jget r ''digest'' = JStr (sw_digest w payload)" "token_ok w mcp_scope item r"
    using assms(2) by (auto simp: is_approved_def split: option.splits)
  have "digest_text w r = sw_digest w payload" using r(2) by (auto simp: digest_text_def jget_or_def jget_def split: option.splits)
  then obtain t where "jget r ''token'' = JStr t" "sw_open w t (''approval:'' @ mcp_scope) item = Some (''approved:'' @ sw_digest w payload)"
    using r(3) by (auto simp: token_ok_def split: jval.splits)
  with assms(1) hold_entry_in [OF r(1)] show ?thesis unfolding token_inv_def by blast
qed

text \<open>Every recorded decision is a decision of the run.\<close>

lemma decided_step: "(i, d) \<in> set (ms_decided (mcp_step w st op)) \<Longrightarrow> (i, d) \<in> set (ms_decided st) \<or> op = Decide i True d"
proof (cases op)
  case (Decide item approve shown)
  assume a: "(i, d) \<in> set (ms_decided (mcp_step w st op))"
  obtain h r where p: "decide_hold w mcp_scope (Some (map_option JDict (server_at item (ms_servers st)))) item approve shown (ms_holds st) = (h, r)" by fastforce
  from p show ?thesis by (cases rule: decide_hold_cases) (use a p Decide in \<open>auto simp: decide_step_def\<close>)
qed (auto simp: mcp_apply_def land_step_def store_servers_def Let_def split: option.splits jval.splits prod.splits if_splits)

lemma reach_inv:
  assumes "sealing_ok w" and "mcp_reach w ops st"
  shows "token_inv w st \<and> (\<forall>(i, d)\<in>set (ms_decided st). Decide i True d \<in> set ops)"
  using assms(2)
proof (induction rule: mcp_reach.induct)
  case (mcp_start servers)
  show ?case by (simp add: token_inv_def no_sync_def read_index_def rows_in_def)
next
  case (mcp_more ops st op)
  have "\<forall>(i, d)\<in>set (ms_decided (mcp_step w st op)). Decide i True d \<in> set (ops @ [op])"
    using mcp_more.IH decided_step [of _ _ w st op] by fastforce
  with token_step [OF assms(1) _ mcp_more.hyps(2)] mcp_more.IH show ?case by blast
qed


section \<open>What changes the servers\<close>

lemma mcp_apply_cases:
  assumes "mcp_apply w True stale disk now item payload st = (st', r)"
  obtains (kept) "ms_servers st' = ms_servers st"
  | (removed) "payload = None" "mw_validate w (drop_first (\<lambda>s. jget s ''name'' = JStr item) (ms_servers st)) = Some (ms_servers st')"
  | (written) p where "payload = Some (JDict p)" "mw_validate w (put_server item (dset ''name'' (JStr item) p) (ms_servers st)) = Some (ms_servers st')"
      "mcp_needs_approval (server_at item (ms_servers st)) (dset ''name'' (JStr item) p) = Some False \<or> is_approved w mcp_scope item (JDict p) (ms_holds st)"
      "\<not> mcp_hides w p"
  using assms
  by (auto simp: mcp_apply_def store_servers_def Let_def split: option.splits jval.splits prod.splits if_splits)

text \<open>
  C4: A server another device sends runs here only as the user approved it. Whatever the other devices send, whoever edits the files of the queue without the account's key, and
  in whatever order: a step that is not the user's own save changes the servers only by removing one that was deleted elsewhere, or by writing one record whose change needs
  no approval (it is not new, and nothing of it that decides what runs is different), or whose very payload, by its digest, the user approved earlier in this run. What is written hides no characters.
\<close>

theorem servers_change_as_approved:
  assumes "sealing_ok w" and "mcp_reach w ops st" and "\<And>servers. op \<noteq> SaveServers servers" and "ms_servers (mcp_step w st op) \<noteq> ms_servers st"
  shows "(\<exists>stale disk now item. op = Arrive stale disk now item None \<and>
      mw_validate w (drop_first (\<lambda>s. jget s ''name'' = JStr item) (ms_servers st)) = Some (ms_servers (mcp_step w st op))) \<or>
    (\<exists>item p. mw_validate w (put_server item (dset ''name'' (JStr item) p) (ms_servers st)) = Some (ms_servers (mcp_step w st op)) \<and> \<not> mcp_hides w p \<and>
      (mcp_needs_approval (server_at item (ms_servers st)) (dset ''name'' (JStr item) p) = Some False \<or> Decide item True (sw_digest w (JDict p)) \<in> set ops))"
proof -
  have inv: "token_inv w st" and dec: "(i, d) \<in> set (ms_decided st) \<Longrightarrow> Decide i True d \<in> set ops" for i d
    using reach_inv [OF assms(1,2)] by auto
  have user: "Decide item True (sw_digest w v) \<in> set ops" if "is_approved w mcp_scope item v (ms_holds s)" "ms_holds s = ms_holds st" for item v s
    using dec [OF approved_decided [OF inv]] that by simp
  show ?thesis
  proof (cases op)
    case (Arrive stale disk now item payload)
    obtain st' r where a: "mcp_apply w True stale disk now item payload st = (st', r)" by fastforce
    then have s: "mcp_step w st op = st'" by (simp add: Arrive)
    from a show ?thesis
    proof (cases rule: mcp_apply_cases)
      case kept
      with assms(4) s show ?thesis by simp
    next
      case removed
      with Arrive s show ?thesis by auto
    next
      case (written p)
      then have "mcp_needs_approval (server_at item (ms_servers st)) (dset ''name'' (JStr item) p) = Some False \<or> Decide item True (sw_digest w (JDict p)) \<in> set ops"
        using user [of item "JDict p" st] by blast
      with written(2,4) s show ?thesis by blast
    qed
  next
    case (Land stale disk now n)
    obtain item payload where i: "ms_landing st ! n = (item, payload)" by (cases "ms_landing st ! n")
    let ?st1 = "st\<lparr>ms_landing := take n (ms_landing st) @ drop (Suc n) (ms_landing st)\<rparr>"
    obtain st' r where a: "mcp_apply w True stale disk now item (Some payload) ?st1 = (st', r)" by fastforce
    have n: "n < length (ms_landing st)" using assms(4) by (auto simp: Land land_step_def split: if_splits)
    then have s: "ms_servers (mcp_step w st op) = ms_servers st'" by (simp add: Land land_step_def i a)
    from a show ?thesis
    proof (cases rule: mcp_apply_cases)
      case kept
      with assms(4) s show ?thesis by simp
    next
      case (written p)
      then have "mcp_needs_approval (server_at item (ms_servers st)) (dset ''name'' (JStr item) p) = Some False \<or> Decide item True (sw_digest w (JDict p)) \<in> set ops"
        using user [of item "JDict p" ?st1] by auto
      with written(2,4) s show ?thesis by auto
    qed simp
  next
    case (Decide item approve shown)
    have "ms_servers (decide_step w item approve shown st) = ms_servers st"
      by (simp add: decide_step_def split: prod.split sum.split option.split)
    with assms(4) Decide show ?thesis by simp
  qed (use assms(3,4) in simp_all)
qed


section \<open>Decisions\<close>

text \<open>
  A decision is about what was shown. An approval is taken only while the hold still has the digest the window listed, its payload opens and has that digest, its
  summary can be shown whole, and the item here is as it was when the record was filed; otherwise nothing changes. A rejection changes the status of that hold alone.
\<close>

theorem approval_matches_shown:
  assumes "decide_hold w scope (Some local) item True shown h = (h', Inr (Some payload))"
  shows "\<exists>r. hold_entry scope item h = Some r \<and> jget r ''digest'' = JStr shown \<and> sw_digest w payload = shown \<and> shown \<noteq> [] \<and>
    held_payload w scope item h = Some payload \<and> jget_or r ''base'' (JStr []) = JStr (local_digest w local) \<and>
    displayable (map_option (dpop ''persist'') (presented w scope item (open_summary w scope item r) h)) \<and> scope \<notin> set RETIRED_SCOPES"
  using assms by (auto simp: decide_hold_def split: if_splits option.splits)

lemma entry_write:
  assumes "es \<noteq> []"
  shows "scope_rows scope (write_index (dset scope es idx) h) = es"
proof -
  have "dget (filter (\<lambda>se. snd se \<noteq> []) (dset scope es idx)) scope = Some es" using assms by (induction idx) auto
  then show ?thesis by (simp add: scope_rows_def)
qed

lemma entry_status:
  assumes "hold_entry scope item h = Some r"
  obtains r' where "hold_entry scope item (set_hold_status scope item status token h) = Some r'" "jget r' ''status'' = JStr status" "jget r' ''digest'' = jget r ''digest''"
proof -
  let ?r1 = "dset ''status'' (JStr status) r"
  let ?r2 = "case token of Some t \<Rightarrow> if t = [] then dpop ''token'' ?r1 else dset ''token'' (JStr t) ?r1 | None \<Rightarrow> dpop ''token'' ?r1"
  have ne: "dset item ?r2 (scope_rows scope h) \<noteq> []" by (cases "scope_rows scope h") auto
  have "hold_entry scope item (set_hold_status scope item status token h) = Some ?r2"
    using entry_write [OF ne, of scope "read_index h" h] assms by (simp add: hold_entry_def set_hold_status_def Let_def del: read_write)
  moreover have "jget ?r2 ''status'' = JStr status" "jget ?r2 ''digest'' = jget r ''digest''" by (simp_all add: jget_def split: option.split)
  ultimately show thesis by (rule that)
qed

text \<open>
  C22: A rejection stands. After the user has rejected a record, the same record arriving again changes nothing at all: it is not filed again, and not written, as long as its
  change still needs an approval here.
\<close>

theorem rejection_stands:
  assumes "decide_hold w mcp_scope local item False shown (ms_holds st) = (h, Inr None)" and "shown = sw_digest w (JDict p)"
    and "mcp_needs_approval (server_at item (ms_servers st)) (dset ''name'' (JStr item) p) = Some True"
  shows "fst (mcp_apply w True stale disk now item (Some (JDict p)) (st\<lparr>ms_holds := h\<rparr>)) = st\<lparr>ms_holds := h\<rparr>"
proof -
  obtain r where r: "hold_entry mcp_scope item (ms_holds st) = Some r" "jget r ''digest'' = JStr shown" "h = set_hold_status mcp_scope item REJECTED None (ms_holds st)"
    using assms(1) by (auto simp: decide_hold_def split: if_splits option.splits)
  obtain r' where r': "hold_entry mcp_scope item h = Some r'" "jget r' ''status'' = JStr REJECTED" "jget r' ''digest'' = JStr shown"
    using entry_status [OF r(1)] r(2,3) by metis
  have "is_rejected w mcp_scope item (JDict p) h" "\<not> is_approved w mcp_scope item (JDict p) h"
    using r' assms(2) by (simp_all add: is_rejected_def is_approved_def row_status_def REJECTED_def APPROVED_def)
  then show ?thesis using assms(3) by (simp add: mcp_apply_def Let_def)
qed


section \<open>The engine's snapshot\<close>

lemma held_payload_other [simp]: "item' \<noteq> item \<Longrightarrow> held_payload w scope item (drop_hold scope item' h) = held_payload w scope item h"
  by (simp add: held_payload_def drop_hold_def Let_def write_index_def)


end
