(* ===== verification/Sync_Limits.thy ===== *)
theory Sync_Limits
  imports Sync_Promises
begin

text \<open>
  A concrete machine that receives MCP servers, the promises applied to it, and two runs in which the approvals do less than their documentation
  says.
\<close>

section \<open>A machine\<close>

text \<open>A sealed text names its scope and its item, each character marked, so that no two labels can be confused.\<close>

definition mark :: "string \<Rightarrow> string" where
  "mark s = concat (map (\<lambda>c. [CHR ''a'', c]) s) @ ''z''"

definition sample_seal :: "string \<Rightarrow> string \<Rightarrow> string \<Rightarrow> string option" where
  "sample_seal scope item p = Some (mark scope @ mark item @ p)"

definition sample_open :: "string \<Rightarrow> string \<Rightarrow> string \<Rightarrow> string option" where
  "sample_open t scope item =
     (let label = mark scope @ mark item in if take (length label) t = label then Some (drop (length label) t) else None)"

lemma mark_prefix: "mark s @ u = mark t @ v \<Longrightarrow> s = t \<and> u = v"
proof (induction s arbitrary: t)
  case Nil
  then show ?case by (cases t) (simp_all add: mark_def)
next
  case (Cons c s)
  then show ?case by (cases t) (auto simp: mark_def)
qed

definition stdio_server :: "string \<Rightarrow> string \<Rightarrow> dict" where
  "stdio_server name command =
     [(''name'', JStr name), (''transport'', JStr ''stdio''), (''command'', JStr command), (''args'', JList []), (''env'', JDict []), (''enabled'', JBool True)]"

definition good_server :: jval where "good_server = JDict (stdio_server ''files'' ''good'')"
definition evil_server :: jval where "evil_server = JDict (stdio_server ''files'' ''evil'')"

text \<open>The documents of the sample, and their texts.\<close>

definition sample_docs :: "jval list" where
  "sample_docs = [good_server, evil_server, JDict (mcp_summary ''files'' (stdio_server ''files'' ''good'')), JDict (mcp_summary ''files'' (stdio_server ''files'' ''evil''))]"

fun position :: "jval \<Rightarrow> jval list \<Rightarrow> nat" where
  "position v [] = 0"
| "position v (x # xs) = (if v = x then 0 else Suc (position v xs))"

definition sample_text :: "jval \<Rightarrow> string" where
  "sample_text v = nat_str (position v sample_docs)"

definition sample_loads :: "string \<Rightarrow> jval option" where
  "sample_loads t = find (\<lambda>v. sample_text v = t) sample_docs"

definition sample_sync :: mcp_world where
  "sample_sync = \<lparr>sw_seal = sample_seal, sw_open = sample_open, sw_digest = sample_text, sw_canonical = sample_text, sw_dumps = sample_text,
     sw_loads = sample_loads, sw_str = (\<lambda>v. []), sw_present = (\<lambda>s. None), mw_validate = Some, mw_invisible = (\<lambda>s. False)\<rparr>"

lemma sample_sealing: "sealing_ok sample_sync"
  unfolding sealing_ok_def
proof (intro allI impI)
  fix scope item p t scope' item'
  assume "sw_seal sample_sync scope item p = Some t"
  then have t: "t = mark scope @ mark item @ p" by (simp add: sample_sync_def sample_seal_def)
  show "sw_open sample_sync t scope' item' = (if scope' = scope \<and> item' = item then Some p else None)"
  proof (cases "scope' = scope \<and> item' = item")
    case True
    then show ?thesis by (simp add: sample_sync_def sample_open_def t Let_def)
  next
    case False
    have "take (length (mark scope' @ mark item')) t \<noteq> mark scope' @ mark item'"
    proof
      assume "take (length (mark scope' @ mark item')) t = mark scope' @ mark item'"
      then have "mark scope @ mark item @ p = mark scope' @ mark item' @ drop (length (mark scope' @ mark item')) t"
        using append_take_drop_id [of "length (mark scope' @ mark item')" t] t by simp
      then have "scope = scope'" "mark item @ p = mark item' @ drop (length (mark scope' @ mark item')) t" by (auto dest: mark_prefix)
      with mark_prefix [of item p item'] False show False by auto
    qed
    then show ?thesis using False by (auto simp: sample_sync_def sample_open_def Let_def)
  qed
qed


section \<open>The promises, applied\<close>

definition run_mcp :: "mcp_op list \<Rightarrow> mcp_sync" where
  "run_mcp ops = foldl (mcp_step sample_sync) no_sync ops"

text \<open>A server arrives, the user approves what was listed, and it lands.\<close>

definition sample_arrival :: "mcp_op list" where
  "sample_arrival = [Arrive False DiskOk 7 ''files'' (Some good_server), Decide ''files'' True (sample_text good_server)]"

lemma sample_lands:
  "ms_servers (run_mcp sample_arrival) = []"
  "ms_servers (mcp_step sample_sync (run_mcp sample_arrival) (Land False DiskOk 8 0)) = [stdio_server ''files'' ''good'']"
  by code_simp+

lemma sample_arrival_reach: "mcp_reach sample_sync sample_arrival (run_mcp sample_arrival)"
proof -
  have "mcp_reach sample_sync [] no_sync" using mcp_start [of sample_sync "[]"] by (simp add: no_sync_def)
  then have "mcp_reach sample_sync (([] @ [sample_arrival ! 0]) @ [sample_arrival ! 1])
      (mcp_step sample_sync (mcp_step sample_sync no_sync (sample_arrival ! 0)) (sample_arrival ! 1))"
    by (intro mcp_more) (simp_all add: sample_arrival_def)
  then show ?thesis by (simp add: sample_arrival_def run_mcp_def)
qed

lemma servers_change_as_approved_witness:
  "(\<exists>stale disk now item. Land False DiskOk 8 0 = Arrive stale disk now item None \<and>
      mw_validate sample_sync (drop_first (\<lambda>s. jget s ''name'' = JStr item) (ms_servers (run_mcp sample_arrival))) =
        Some (ms_servers (mcp_step sample_sync (run_mcp sample_arrival) (Land False DiskOk 8 0)))) \<or>
    (\<exists>item p. mw_validate sample_sync (put_server item (dset ''name'' (JStr item) p) (ms_servers (run_mcp sample_arrival))) =
        Some (ms_servers (mcp_step sample_sync (run_mcp sample_arrival) (Land False DiskOk 8 0))) \<and> \<not> mcp_hides sample_sync p \<and>
      (mcp_needs_approval (server_at item (ms_servers (run_mcp sample_arrival))) (dset ''name'' (JStr item) p) = Some False \<or>
       Decide item True (sw_digest sample_sync (JDict p)) \<in> set sample_arrival))"
  by (rule servers_change_as_approved [OF sample_sealing sample_arrival_reach]) (simp_all add: sample_lands stdio_server_def del: mcp_step.simps)

definition sample_waiting :: mcp_sync where
  "sample_waiting = run_mcp [Arrive False DiskOk 7 ''files'' (Some good_server)]"

lemma approval_matches_shown_witness:
  "\<exists>r. hold_entry mcp_scope ''files'' (ms_holds sample_waiting) = Some r \<and> jget r ''digest'' = JStr ''0'' \<and> sw_digest sample_sync good_server = ''0'' \<and> ''0'' \<noteq> [] \<and>
    held_payload sample_sync mcp_scope ''files'' (ms_holds sample_waiting) = Some good_server \<and> jget_or r ''base'' (JStr []) = JStr (local_digest sample_sync None) \<and>
    displayable (map_option (dpop ''persist'') (presented sample_sync mcp_scope ''files'' (open_summary sample_sync mcp_scope ''files'' r) (ms_holds sample_waiting))) \<and>
    mcp_scope \<notin> set RETIRED_SCOPES"
proof (rule approval_matches_shown)
  show "decide_hold sample_sync mcp_scope (Some None) ''files'' True ''0'' (ms_holds sample_waiting) =
      (fst (decide_hold sample_sync mcp_scope (Some None) ''files'' True ''0'' (ms_holds sample_waiting)), Inr (Some good_server))"
  proof -
    have "snd (decide_hold sample_sync mcp_scope (Some None) ''files'' True ''0'' (ms_holds sample_waiting)) = Inr (Some good_server)" by code_simp
    then show ?thesis by (metis prod.collapse)
  qed
qed

lemma rejection_stands_witness:
  "fst (mcp_apply sample_sync True False DiskOk 9 ''files'' (Some good_server)
      (sample_waiting\<lparr>ms_holds := fst (decide_hold sample_sync mcp_scope (Some None) ''files'' False ''0'' (ms_holds sample_waiting))\<rparr>)) =
    sample_waiting\<lparr>ms_holds := fst (decide_hold sample_sync mcp_scope (Some None) ''files'' False ''0'' (ms_holds sample_waiting))\<rparr>"
proof -
  have "snd (decide_hold sample_sync mcp_scope (Some None) ''files'' False ''0'' (ms_holds sample_waiting)) = Inr None" by code_simp
  then have d: "decide_hold sample_sync mcp_scope (Some None) ''files'' False ''0'' (ms_holds sample_waiting) =
      (fst (decide_hold sample_sync mcp_scope (Some None) ''files'' False ''0'' (ms_holds sample_waiting)), Inr None)" by (metis prod.collapse)
  show ?thesis unfolding good_server_def
  proof (rule rejection_stands [OF d])
    show "''0'' = sw_digest sample_sync (JDict (stdio_server ''files'' ''good''))" by code_simp
    show "mcp_needs_approval (server_at ''files'' (ms_servers sample_waiting)) (dset ''name'' (JStr ''files'') (stdio_server ''files'' ''good'')) = Some True" by code_simp
  qed
qed



section \<open>Where the approvals fall short\<close>

text \<open>
  C0: What the window shows is not bound to what is approved. The summary is sealed for its scope and item, not for the payload's digest, so an editor of the index without
  the key can put an earlier summary of the item beside a newer payload: the window then lists the harmless record, and the approval of it lets the other one run.
\<close>

definition swapped_index :: "jval option" where
  "swapped_index =
     (let new = run_mcp [Arrive False DiskOk 7 ''files'' (Some good_server), Arrive False DiskOk 8 ''files'' (Some evil_server)];
          old = hold_entry mcp_scope ''files'' (ms_holds sample_waiting); row = hold_entry mcp_scope ''files'' (ms_holds new)
      in ho_index (write_index [(mcp_scope, [(''files'', dset ''summary'' (jget (the old) ''summary'') (the row))])] (ms_holds new)))"

definition swapped_run :: "mcp_op list" where
  "swapped_run = [Arrive False DiskOk 7 ''files'' (Some good_server), Arrive False DiskOk 8 ''files'' (Some evil_server), EditIndex swapped_index]"

theorem shown_summary_is_not_bound:
  "map_option (\<lambda>(h, vs). map (\<lambda>v. (hv_summary v, hv_displayable v)) vs) (listing sample_sync True (ms_holds (run_mcp swapped_run))) =
     Some [(mcp_summary ''files'' (stdio_server ''files'' ''good''), True)]"
  "ms_servers (run_mcp (swapped_run @ [Decide ''files'' True (sample_text evil_server), Land False DiskOk 9 0])) = [stdio_server ''files'' ''evil'']"
  by code_simp+

text \<open>
  A record that arrives between an approval and its landing is lost. The landing files the older payload anew, since it is no longer the approved one, takes that for
  success and drops the hold: nothing is written, the newer request is gone, and the snapshot shows this machine's own copy again.
\<close>

theorem landing_drops_newer_request:
  "let st = run_mcp [Arrive False DiskOk 7 ''files'' (Some good_server), Decide ''files'' True (sample_text good_server),
      Arrive False DiskOk 8 ''files'' (Some evil_server), Land False DiskOk 9 0]
   in ms_servers st = [] \<and> hold_entry mcp_scope ''files'' (ms_holds st) = None \<and>
      fst (overlay sample_sync mcp_scope (local_snapshot (ms_servers st)) (ms_holds st)) = []"
  by code_simp

end
